(* ===== verification/Prelude.thy ===== *)
theory Prelude imports Main "HOL-Library.Monad_Syntax" begin

text \<open>
  Shared vocabulary of the development: the named collections the component theories
  fill, the way panics and early exits are written, and list facts that more than
  one component needs.

  A Rust function that can panic (an index out of range, an \<open>unwrap\<close> of \<open>None\<close>,
  an explicit \<open>panic!\<close>, a capacity overflow of an \<open>ArrayVec\<close>) is a function into
  \<open>option\<close>: \<open>None\<close> is the panic, \<open>Some\<close> the value returned.  A function that returns
  a Rust \<open>Result\<close> is a function into a sum type with the error on the left.
\<close>

named_theorems panic_simps \<open>unfolding the checked primitives when they succeed\<close>
named_theorems wf_intros \<open>introduction rules of the well-formedness invariants\<close>
named_theorems abs_simps \<open>what an operation does to the abstract view of its component\<close>

section \<open>Checked primitives\<close>

definition nth_opt :: "'a list \<Rightarrow> nat \<Rightarrow> 'a option" where
  "nth_opt xs i = (if i < length xs then Some (xs ! i) else None)"

definition last_opt :: "'a list \<Rightarrow> 'a option" where
  "last_opt xs = (if xs = [] then None else Some (last xs))"

definition first_opt :: "'a list \<Rightarrow> 'a option" where
  "first_opt xs = (case xs of [] \<Rightarrow> None | x # _ \<Rightarrow> Some x)"

definition checked_sub :: "nat \<Rightarrow> nat \<Rightarrow> nat option" where
  "checked_sub a b = (if b \<le> a then Some (a - b) else None)"

lemma nth_opt_Some [panic_simps]: "i < length xs \<Longrightarrow> nth_opt xs i = Some (xs ! i)"
  by (simp add: nth_opt_def)

lemma nth_opt_None [simp]: "nth_opt xs i = None \<longleftrightarrow> length xs \<le> i"
  by (auto simp: nth_opt_def)

lemma nth_opt_eq_Some: "nth_opt xs i = Some x \<longleftrightarrow> i < length xs \<and> xs ! i = x"
  by (auto simp: nth_opt_def)

lemma last_opt_Some [panic_simps]: "xs \<noteq> [] \<Longrightarrow> last_opt xs = Some (last xs)"
  by (simp add: last_opt_def)

lemma last_opt_snoc [simp]: "last_opt (xs @ [x]) = Some x"
  by (simp add: last_opt_def)

lemma last_opt_Nil [simp]: "last_opt [] = None"
  by (simp add: last_opt_def)

lemma first_opt_simps [simp]: "first_opt [] = None" "first_opt (x # xs) = Some x"
  by (simp_all add: first_opt_def)

lemma checked_sub_Some [panic_simps]: "b \<le> a \<Longrightarrow> checked_sub a b = Some (a - b)"
  by (simp add: checked_sub_def)

lemma checked_sub_eq_Some: "checked_sub a b = Some c \<longleftrightarrow> b \<le> a \<and> c = a - b"
  by (auto simp: checked_sub_def)

section \<open>Lists\<close>

lemma foldl_plus_acc:
  fixes a :: "'s::monoid_add"
  shows "foldl (+) a xs = a + sum_list xs"
  by (induction xs arbitrary: a) (simp_all add: add.assoc)

lemma sum_list_snoc:
  fixes x :: "'s::monoid_add"
  shows "sum_list (xs @ [x]) = sum_list xs + x"
  by simp

lemma list_update_last_eq: "xs \<noteq> [] \<Longrightarrow> xs[length xs - 1 := y] = butlast xs @ [y]"
  by (metis append_butlast_last_id length_butlast list_update_length)

lemma concat_map_butlast_last:
  "xs \<noteq> [] \<Longrightarrow> concat (map f (butlast xs)) @ f (last xs) = concat (map f xs)"
  by (induction xs) auto

lemma sum_list_concat_map:
  fixes f :: "'a \<Rightarrow> 's::monoid_add"
  shows "(\<And>t. t \<in> set ts \<Longrightarrow> g t = sum_list (map f (h t))) \<Longrightarrow>
    sum_list (map g ts) = sum_list (map f (concat (map h ts)))"
  by (induction ts) auto

section \<open>Fallible steps on a state\<close>

text \<open>
  A function that can fail and changes a state is a function into a pair of a result and
  the state it leaves; \<open>attempt\<close> is the \<open>?\<close> operator on it and \<open>map_err\<close> the method of
  \<open>Result\<close>.
\<close>

definition attempt :: "('e + 'a) \<times> 's \<Rightarrow> ('a \<Rightarrow> 's \<Rightarrow> ('e + 'b) \<times> 's) \<Rightarrow> ('e + 'b) \<times> 's" where
  "attempt r f = (case r of (Inl e, s) \<Rightarrow> (Inl e, s) | (Inr a, s) \<Rightarrow> f a s)"

definition map_err :: "('e \<Rightarrow> 'f) \<Rightarrow> ('e + 'a) \<times> 's \<Rightarrow> ('f + 'a) \<times> 's" where
  "map_err g r = (case r of (Inl e, s) \<Rightarrow> (Inl (g e), s) | (Inr a, s) \<Rightarrow> (Inr a, s))"

lemma attempt_simps [simp]:
  "attempt (Inl e, s) f = (Inl e, s)"
  "attempt (Inr a, s) f = f a s"
  by (simp_all add: attempt_def)

lemma map_err_simps [simp]:
  "map_err g (Inl e, s) = (Inl (g e), s)"
  "map_err g (Inr a, s) = (Inr a, s)"
  by (simp_all add: map_err_def)

lemma attempt_eq_Inr: "attempt r f = (Inr b, s') \<longleftrightarrow> (\<exists>a s. r = (Inr a, s) \<and> f a s = (Inr b, s'))"
  by (auto simp: attempt_def split: prod.splits sum.splits)

lemma attempt_eq_Inl:
  "attempt r f = (Inl e, s') \<longleftrightarrow> r = (Inl e, s') \<or> (\<exists>a s. r = (Inr a, s) \<and> f a s = (Inl e, s'))"
  by (auto simp: attempt_def split: prod.splits sum.splits)

lemma map_err_eq_Inr [simp]: "map_err g r = (Inr a, s) \<longleftrightarrow> r = (Inr a, s)"
  by (auto simp: map_err_def split: prod.splits sum.splits)

lemma map_err_eq_Inl: "map_err g r = (Inl e, s) \<longleftrightarrow> (\<exists>x. r = (Inl x, s) \<and> e = g x)"
  by (auto simp: map_err_def split: prod.splits sum.splits)

lemma snd_map_err [simp]: "snd (map_err g r) = snd r"
  by (auto simp: map_err_def split: prod.splits sum.splits)

text \<open>A relation on states that holds between every step's end points holds for the whole.\<close>

lemma snd_attempt:
  assumes first: "R s (snd r)"
    and more: "\<And>a s'. r = (Inr a, s') \<Longrightarrow> R s' (snd (f a s'))"
    and trans: "\<And>a b c. R a b \<Longrightarrow> R b c \<Longrightarrow> R a c"
  shows "R s (snd (attempt r f))"
proof (cases r)
  case (Pair x s1)
  show ?thesis
  proof (cases x)
    case (Inl e)
    then show ?thesis using first Pair by simp
  next
    case (Inr a)
    then show ?thesis using trans [OF _ more [of a s1]] first Pair by simp
  qed
qed

text \<open>Case analysis on how far a sequence of steps came.\<close>

lemma attemptE:
  assumes "attempt r f = (x, s')"
  obtains (fails) e where "r = (Inl e, s')" "x = Inl e" | (goes) a s where "r = (Inr a, s)" "f a s = (x, s')"
  using assms by (cases r; cases "fst r") auto

section \<open>Collecting results\<close>

text \<open>\<open>as_deref().map(..).transpose()?\<close> of an optional text column.\<close>

definition transpose_opt :: "('a \<Rightarrow> 'e + 'b) \<Rightarrow> 'a option \<Rightarrow> 'e + 'b option" where
  "transpose_opt f x =
    (case x of None \<Rightarrow> Inr None
     | Some a \<Rightarrow> (case f a of Inl e \<Rightarrow> Inl e | Inr b \<Rightarrow> Inr (Some b)))"

text \<open>\<open>collect::<Result<Vec<_>, _>>\<close>: the first error wins.\<close>

fun collect_results :: "('e + 'a) list \<Rightarrow> 'e + 'a list" where
  "collect_results [] = Inr []"
| "collect_results (Inl e # rs) = Inl e"
| "collect_results (Inr a # rs) =
    (case collect_results rs of Inl e \<Rightarrow> Inl e | Inr xs \<Rightarrow> Inr (a # xs))"

lemma collect_results_Inr:
  "(\<forall>x \<in> set xs. \<exists>y. f x = Inr y) \<Longrightarrow>
   \<exists>ys. collect_results (map f xs) = Inr ys \<and> list_all2 (\<lambda>x y. f x = Inr y) xs ys"
  by (induction xs) auto

lemma collect_results_Inr_iff:
  "collect_results (map f xs) = Inr ys \<longleftrightarrow> list_all2 (\<lambda>x y. f x = Inr y) xs ys"
proof (induction xs arbitrary: ys)
  case (Cons x xs)
  show ?case
  proof (cases "f x")
    case (Inl e)
    then show ?thesis by (auto simp: list_all2_Cons1)
  next
    case (Inr y)
    then show ?thesis
      using Cons by (cases "collect_results (map f xs)") (auto simp: list_all2_Cons1)
  qed
qed auto

section \<open>Sizes of list elements, for termination proofs\<close>

lemma size_last_le [termination_simp]: "xs \<noteq> [] \<Longrightarrow> f (last xs) \<le> size_list f xs"
  by (induction xs) (auto split: if_splits)

lemma size_hd_le [termination_simp]: "xs \<noteq> [] \<Longrightarrow> f (hd xs) \<le> size_list f xs"
  by (cases xs) auto

lemma size_nth_le [termination_simp]: "i < length xs \<Longrightarrow> f (xs ! i) \<le> size_list f xs"
  by (induction xs arbitrary: i) (auto simp: nth_Cons less_Suc_eq_0_disj split: nat.splits,
      fastforce+)

lemma size_last_less [termination_simp]: "xs \<noteq> [] \<Longrightarrow> f (last xs) < Suc (n + size_list f xs)"
  using size_last_le [of xs f] by simp

lemma size_hd_less [termination_simp]: "xs \<noteq> [] \<Longrightarrow> f (hd xs) < Suc (n + size_list f xs)"
  using size_hd_le [of xs f] by simp

lemma length_concat_ge: "(\<And>x. x \<in> set xs \<Longrightarrow> n \<le> length (f x)) \<Longrightarrow> length xs * n \<le> length (concat (map f xs))"
  by (induction xs) (auto intro: add_mono)

section \<open>Characters\<close>

text \<open>\<open>char::is_whitespace\<close>, \<open>char::is_control\<close> and \<open>str::len\<close> for the first 256 code points.\<close>

definition is_whitespace :: "char \<Rightarrow> bool" where
  "is_whitespace c \<longleftrightarrow>
    (let n = of_char c :: nat in 9 \<le> n \<and> n \<le> 13 \<or> n = 32 \<or> n = 133 \<or> n = 160)"

definition is_control :: "char \<Rightarrow> bool" where
  "is_control c \<longleftrightarrow> (let n = of_char c :: nat in n < 32 \<or> 127 \<le> n \<and> n < 160)"

definition utf8_len :: "string \<Rightarrow> nat" where
  "utf8_len s = sum_list (map (\<lambda>c. if (of_char c :: nat) < 128 then 1 else 2) s)"

end
