(* ===== verification/Sum_Tree.thy ===== *)
theory Sum_Tree imports Prelude begin

text \<open>
  The summarised B-tree of \<open>crates/sum_tree/src/lib.rs\<close>: every node caches the sum of
  the summaries of the items below it, leaves hold at most \<open>2 * TREE_BASE\<close> items and
  internal nodes at most \<open>2 * TREE_BASE\<close> children.  The trait \<open>Item\<close> is the function
  \<open>summ\<close> from items to summaries, the summaries' \<open>Default\<close> and \<open>AddAssign\<close> are
  \<open>0\<close> and \<open>+\<close>.  \<open>Arc::make_mut\<close> copies shared nodes before writing, so a tree is a
  value: an operation returns the new tree.
\<close>

section \<open>Nodes\<close>

definition TREE_BASE :: nat where
  "TREE_BASE = 6"

text \<open>An \<open>ArrayVec\<close> of capacity \<open>2 * TREE_BASE\<close>: storing more elements panics.\<close>

definition array_vec :: "'b list \<Rightarrow> 'b list option" where
  "array_vec xs = (if length xs \<le> 2 * TREE_BASE then Some xs else None)"

datatype ('a, 's) sum_tree =
    Internal nat 's "'s list" "('a, 's) sum_tree list"
  | Leaf 's "'a list" "'s list"

fun is_leaf :: "('a, 's) sum_tree \<Rightarrow> bool" where
  "is_leaf (Leaf s xs ss) = True"
| "is_leaf (Internal h s css cts) = False"

fun height :: "('a, 's) sum_tree \<Rightarrow> nat" where
  "height (Internal h s css cts) = h"
| "height (Leaf s xs ss) = 0"

fun summary :: "('a, 's) sum_tree \<Rightarrow> 's" where
  "summary (Internal h s css cts) = s"
| "summary (Leaf s xs ss) = s"

fun child_summaries :: "('a, 's) sum_tree \<Rightarrow> 's list" where
  "child_summaries (Internal h s css cts) = css"
| "child_summaries (Leaf s xs ss) = ss"

fun child_trees :: "('a, 's) sum_tree \<Rightarrow> ('a, 's) sum_tree list option" where
  "child_trees (Internal h s css cts) = Some cts"
| "child_trees (Leaf s xs ss) = None"

fun node_items :: "('a, 's) sum_tree \<Rightarrow> 'a list option" where
  "node_items (Leaf s xs ss) = Some xs"
| "node_items (Internal h s css cts) = None"

fun is_underflowing :: "('a, 's) sum_tree \<Rightarrow> bool" where
  "is_underflowing (Internal h s css cts) = (length cts < TREE_BASE)"
| "is_underflowing (Leaf s xs ss) = (length xs < TREE_BASE)"

fun is_empty :: "('a, 's) sum_tree \<Rightarrow> bool" where
  "is_empty (Leaf s xs ss) = (xs = [])"
| "is_empty (Internal h s css cts) = False"

text \<open>The free function \<open>sum\<close>.\<close>

definition sum_summaries :: "'s::{zero,plus} list \<Rightarrow> 's" where
  "sum_summaries ss = foldl (+) 0 ss"

definition new_tree :: "('a, 's::zero) sum_tree" where
  "new_tree = Leaf 0 [] []"

definition from_child_trees :: "('a, 's::{zero,plus}) sum_tree list \<Rightarrow> ('a, 's) sum_tree option" where
  "from_child_trees ts = do {
     t0 \<leftarrow> nth_opt ts 0;
     css \<leftarrow> array_vec (map summary ts);
     cts \<leftarrow> array_vec ts;
     Some (Internal (height t0 + 1) (sum_summaries css) css cts)
   }"

section \<open>Appending a tree\<close>

text \<open>
  The midpoint at which an overfull node is cut, and the cut itself: the left half stays
  in the node, the right half becomes the split tree.
\<close>

definition midpoint :: "nat \<Rightarrow> nat" where
  "midpoint n = (n + n mod 2) div 2"

text \<open>
  The tail of \<open>push_tree_recursive\<close> for an internal node: \<open>s'\<close> is the summary after
  \<open>*summary += other_node.summary()\<close>.
\<close>

definition append_children ::
  "nat \<Rightarrow> 's::{zero,plus} \<Rightarrow> 's list \<Rightarrow> ('a, 's) sum_tree list \<Rightarrow> 's list \<Rightarrow> ('a, 's) sum_tree list
    \<Rightarrow> (('a, 's) sum_tree \<times> ('a, 's) sum_tree option) option" where
  "append_children h s' css cts new_ss new_ts =
     (let child_count = length cts + length new_ts
      in if child_count > 2 * TREE_BASE then do {
           let m = midpoint child_count;
           left_ss \<leftarrow> array_vec (take m (css @ new_ss));
           right_ss \<leftarrow> array_vec (drop m (css @ new_ss));
           left_ts \<leftarrow> array_vec (take m (cts @ new_ts));
           right_ts \<leftarrow> array_vec (drop m (cts @ new_ts));
           Some (Internal h (sum_summaries left_ss) left_ss left_ts,
                 Some (Internal h (sum_summaries right_ss) right_ss right_ts))
         } else do {
           all_ss \<leftarrow> array_vec (css @ new_ss);
           all_ts \<leftarrow> array_vec (cts @ new_ts);
           Some (Internal h s' all_ss all_ts, None)
         })"

fun push_tree_recursive ::
  "('a, 's::{zero,plus}) sum_tree \<Rightarrow> ('a, 's) sum_tree
    \<Rightarrow> (('a, 's) sum_tree \<times> ('a, 's) sum_tree option) option" where
  "push_tree_recursive (Internal h s css cts) other =
     (let s' = s + summary other in
      checked_sub h (height other) \<bind> (\<lambda>height_delta.
      if height_delta = 0 then
        child_trees other \<bind> (\<lambda>other_trees.
        append_children h s' css cts (child_summaries other) other_trees)
      else if height_delta = 1 \<and> \<not> is_underflowing other then
        append_children h s' css cts [summary other] [other]
      else if cts = [] \<or> css = [] then None
      else
        push_tree_recursive (last cts) other \<bind> (\<lambda>(last', tree_to_append).
        let cts' = butlast cts @ [last'];
            css' = butlast css @ [summary last']
        in case tree_to_append of
             None \<Rightarrow> append_children h s' css' cts' [] []
           | Some split_tree \<Rightarrow>
               append_children h s' css' cts' [summary split_tree] [split_tree])))"
| "push_tree_recursive (Leaf s xs ss) other =
     (node_items other \<bind> (\<lambda>other_items.
      let child_count = length xs + length other_items
      in if child_count > 2 * TREE_BASE then do {
           let m = midpoint child_count;
           left_items \<leftarrow> array_vec (take m (xs @ other_items));
           right_items \<leftarrow> array_vec (drop m (xs @ other_items));
           left_ss \<leftarrow> array_vec (take m (ss @ child_summaries other));
           right_ss \<leftarrow> array_vec (drop m (ss @ child_summaries other));
           Some (Leaf (sum_summaries left_ss) left_items left_ss,
                 Some (Leaf (sum_summaries right_ss) right_items right_ss))
         } else do {
           all_items \<leftarrow> array_vec (xs @ other_items);
           all_ss \<leftarrow> array_vec (ss @ child_summaries other);
           Some (Leaf (s + summary other) all_items all_ss, None)
         }))"

text \<open>
  \<open>push_tree\<close> and its loop over the children of a taller tree, \<open>push_children\<close>.
\<close>

fun push_tree :: "('a, 's::{zero,plus}) sum_tree \<Rightarrow> ('a, 's) sum_tree \<Rightarrow> ('a, 's) sum_tree option"
  and push_children ::
    "('a, 's) sum_tree \<Rightarrow> ('a, 's) sum_tree list \<Rightarrow> ('a, 's) sum_tree option" where
  "push_tree self other =
     (if is_leaf other \<and> is_empty other then Some self
      else if height self < height other then
        (case other of
           Leaf s xs ss \<Rightarrow> None
         | Internal h s css cts \<Rightarrow> push_children self cts)
      else
        push_tree_recursive self other \<bind> (\<lambda>(self', split).
        case split of
          None \<Rightarrow> Some self'
        | Some split_tree \<Rightarrow> from_child_trees [self', split_tree]))"
| "push_children self [] = Some self"
| "push_children self (t # ts) = push_tree self t \<bind> (\<lambda>self'. push_children self' ts)"

declare push_tree.simps [simp del]

section \<open>Building and updating\<close>

definition singleton_leaf :: "('a \<Rightarrow> 's) \<Rightarrow> 'a \<Rightarrow> ('a, 's) sum_tree" where
  "singleton_leaf summ x = Leaf (summ x) [x] [summ x]"

definition push :: "('a \<Rightarrow> 's::{zero,plus}) \<Rightarrow> ('a, 's) sum_tree \<Rightarrow> 'a \<Rightarrow> ('a, 's) sum_tree option" where
  "push summ t x = from_child_trees [singleton_leaf summ x] \<bind> push_tree t"

definition from_item :: "('a \<Rightarrow> 's::{zero,plus}) \<Rightarrow> 'a \<Rightarrow> ('a, 's) sum_tree option" where
  "from_item summ x = push summ new_tree x"

text \<open>
  \<open>extend\<close>: the loop carries the tree and the leaf being filled (\<open>None\<close> between a full
  leaf and the next item).
\<close>

fun extend_loop ::
  "('a \<Rightarrow> 's::{zero,plus}) \<Rightarrow> ('a, 's) sum_tree \<Rightarrow> ('s \<times> 'a list \<times> 's list) option \<Rightarrow> 'a list
    \<Rightarrow> ('a, 's) sum_tree option" where
  "extend_loop summ t leaf [] =
     (case leaf of None \<Rightarrow> Some t | Some (s, xs, ss) \<Rightarrow> push_tree t (Leaf s xs ss))"
| "extend_loop summ t leaf (item # rest) =
     (case leaf of
        Some (s, xs, ss) \<Rightarrow>
          (if length xs = 2 * TREE_BASE then
             push_tree t (Leaf s xs ss) \<bind> (\<lambda>t'.
             extend_loop summ t' (Some (0 + summ item, [item], [summ item])) rest)
           else do {
             xs' \<leftarrow> array_vec (xs @ [item]);
             ss' \<leftarrow> array_vec (ss @ [summ item]);
             extend_loop summ t (Some (s + summ item, xs', ss')) rest
           })
      | None \<Rightarrow> extend_loop summ t (Some (0 + summ item, [item], [summ item])) rest)"

definition extend_tree :: "('a \<Rightarrow> 's::{zero,plus}) \<Rightarrow> ('a, 's) sum_tree \<Rightarrow> 'a list \<Rightarrow> ('a, 's) sum_tree option" where
  "extend_tree summ t items = extend_loop summ t None items"

fun update_last_leaf_recursive ::
  "('a \<Rightarrow> 's::{zero,plus}) \<Rightarrow> ('a \<Rightarrow> 'a) \<Rightarrow> ('a, 's) sum_tree \<Rightarrow> (('a, 's) sum_tree \<times> 's) option" where
  "update_last_leaf_recursive summ f (Internal h s css cts) =
     (if css = [] \<or> cts = [] then None
      else
        update_last_leaf_recursive summ f (last cts) \<bind> (\<lambda>(last', last_summary).
        let css' = butlast css @ [last_summary];
            s' = sum_summaries css'
        in Some (Internal h s' css' (butlast cts @ [last']), s')))"
| "update_last_leaf_recursive summ f (Leaf s xs ss) =
     (if xs = [] \<or> ss = [] then None
      else
        let item = f (last xs);
            ss' = butlast ss @ [summ item];
            s' = sum_summaries ss'
        in Some (Leaf s' (butlast xs @ [item]) ss', s'))"

definition update_last ::
  "('a \<Rightarrow> 's::{zero,plus}) \<Rightarrow> ('a \<Rightarrow> 'a) \<Rightarrow> ('a, 's) sum_tree \<Rightarrow> ('a, 's) sum_tree option" where
  "update_last summ f t =
     (if is_empty t then Some t
      else map_option fst (update_last_leaf_recursive summ f t))"

section \<open>Reading\<close>

fun leftmost_leaf :: "('a, 's) sum_tree \<Rightarrow> ('a, 's) sum_tree option" where
  "leftmost_leaf (Leaf s xs ss) = Some (Leaf s xs ss)"
| "leftmost_leaf (Internal h s css cts) = (if cts = [] then None else leftmost_leaf (hd cts))"

fun rightmost_leaf :: "('a, 's) sum_tree \<Rightarrow> ('a, 's) sum_tree option" where
  "rightmost_leaf (Leaf s xs ss) = Some (Leaf s xs ss)"
| "rightmost_leaf (Internal h s css cts) = (if cts = [] then None else rightmost_leaf (last cts))"

text \<open>\<open>first\<close> and \<open>last\<close>: the outer option is the panic, the inner one the Rust result.\<close>

definition tree_first :: "('a, 's) sum_tree \<Rightarrow> 'a option option" where
  "tree_first t = leftmost_leaf t \<bind> (\<lambda>l. node_items l \<bind> (\<lambda>xs. Some (first_opt xs)))"

definition tree_last :: "('a, 's) sum_tree \<Rightarrow> 'a option option" where
  "tree_last t = rightmost_leaf t \<bind> (\<lambda>l. node_items l \<bind> (\<lambda>xs. Some (last_opt xs)))"

text \<open>
  The trait \<open>Dimension\<close>: a default value and the way a summary is added to it.
\<close>

record ('d, 's) dimension =
  dim_default :: 'd
  add_summary :: "'d \<Rightarrow> 's \<Rightarrow> 'd"

definition extent :: "('d, 's) dimension \<Rightarrow> ('a, 's) sum_tree \<Rightarrow> 'd" where
  "extent D t = add_summary D (dim_default D) (summary t)"

section \<open>The list view and the invariant\<close>

text \<open>The items of a tree in order; the abstract value every operation is specified by.\<close>

fun tree_items :: "('a, 's) sum_tree \<Rightarrow> 'a list" where
  "tree_items (Leaf s xs ss) = xs"
| "tree_items (Internal h s css cts) = concat (map tree_items cts)"

text \<open>
  Well-formedness: cached summaries are right at every node, all leaves are at the same
  depth and a node's height field is that depth, no node is over capacity, no leaf
  below an internal node is empty, and internal nodes other than the root are not
  underflowing (leaves may be).
\<close>

definition packed :: "('a, 's) sum_tree \<Rightarrow> bool" where
  "packed t \<longleftrightarrow> is_leaf t \<or> \<not> is_underflowing t"

lemma packed_simps [simp]:
  "packed (Leaf s xs ss)" "packed (Internal h s css cts) \<longleftrightarrow> TREE_BASE \<le> length cts"
  by (auto simp: packed_def)

fun wf_tree :: "('a \<Rightarrow> 's::monoid_add) \<Rightarrow> ('a, 's) sum_tree \<Rightarrow> bool" where
  "wf_tree summ (Leaf s xs ss) \<longleftrightarrow>
     length xs \<le> 2 * TREE_BASE \<and> ss = map summ xs \<and> s = sum_list ss"
| "wf_tree summ (Internal h s css cts) \<longleftrightarrow>
     cts \<noteq> [] \<and> length cts \<le> 2 * TREE_BASE \<and> css = map summary cts \<and> s = sum_list css \<and>
     (\<forall>t \<in> set cts. wf_tree summ t \<and> h = Suc (height t) \<and> tree_items t \<noteq> [] \<and> packed t)"

lemma sum_summaries_eq [simp]: "sum_summaries ss = sum_list (ss :: 's::monoid_add list)"
  by (simp add: sum_summaries_def foldl_plus_acc)

lemma array_vec_eq [panic_simps]: "length xs \<le> 2 * TREE_BASE \<Longrightarrow> array_vec xs = Some xs"
  by (simp add: array_vec_def)

lemma array_vec_SomeD: "array_vec xs = Some ys \<Longrightarrow> ys = xs \<and> length xs \<le> 2 * TREE_BASE"
  by (auto simp: array_vec_def split: if_splits)

lemma summary_wf: "wf_tree summ t \<Longrightarrow> summary t = sum_list (map summ (tree_items t))"
proof (induction t)
  case (Internal h s css cts)
  then have "sum_list (map summary cts) = sum_list (map summ (concat (map tree_items cts)))"
    by (intro sum_list_concat_map) auto
  with Internal.prems show ?case by simp
qed simp

section \<open>Appending is concatenation\<close>

lemma wf_Internal_nonempty: "wf_tree summ (Internal h s css cts) \<Longrightarrow> concat (map tree_items cts) \<noteq> []"
  by (cases cts) auto

lemma wf_height0: "wf_tree summ t \<Longrightarrow> height t = 0 \<longleftrightarrow> is_leaf t"
  by (cases t) (auto simp: neq_Nil_conv)

lemma wf_leaf_nonempty: "wf_tree summ t \<Longrightarrow> tree_items t = [] \<longleftrightarrow> is_leaf t \<and> is_empty t"
  using wf_Internal_nonempty by (cases t) auto

lemma wf_new_tree [wf_intros]: "wf_tree summ new_tree"
  by (simp add: new_tree_def)

lemma items_new_tree [abs_simps]: "tree_items new_tree = []"
  by (simp add: new_tree_def)

text \<open>Nodes that may stand below an internal node of height \<open>h\<close>.\<close>

definition node_ok :: "('a \<Rightarrow> 's::monoid_add) \<Rightarrow> nat \<Rightarrow> ('a, 's) sum_tree \<Rightarrow> bool" where
  "node_ok summ h t \<longleftrightarrow> wf_tree summ t \<and> h = Suc (height t) \<and> tree_items t \<noteq> []"

definition child_ok :: "('a \<Rightarrow> 's::monoid_add) \<Rightarrow> nat \<Rightarrow> ('a, 's) sum_tree \<Rightarrow> bool" where
  "child_ok summ h t \<longleftrightarrow> node_ok summ h t \<and> packed t"

lemmas ok_defs = child_ok_def node_ok_def

lemma wf_Internal_child_ok:
  "wf_tree summ (Internal h s css cts) \<longleftrightarrow>
     cts \<noteq> [] \<and> length cts \<le> 2 * TREE_BASE \<and> css = map summary cts \<and> s = sum_list css \<and>
     (\<forall>t \<in> set cts. child_ok summ h t)"
  by (auto simp: ok_defs)

lemma node_ok_Internal:
  assumes "us \<noteq> []" "length us \<le> 2 * TREE_BASE" "\<forall>t \<in> set us. child_ok summ h t"
  shows "node_ok summ (Suc h) (Internal h (sum_list (map summary us)) (map summary us) us)"
proof -
  have "wf_tree summ (Internal h (sum_list (map summary us)) (map summary us) us)"
    using assms by (simp only: wf_Internal_child_ok simp_thms)
  moreover from this have "concat (map tree_items us) \<noteq> []"
    by (rule wf_Internal_nonempty)
  ultimately show ?thesis
    by (simp only: node_ok_def height.simps tree_items.simps simp_thms)
qed

text \<open>
  What appending \<open>other\<close> to a node returns: the node, changed in place, and possibly a
  split-off right part at the same height; together they hold the items of both.  A node
  that was packed stays so, and both parts of a split are packed.
\<close>

definition append_result ::
  "('a \<Rightarrow> 's::monoid_add) \<Rightarrow> nat \<Rightarrow> bool \<Rightarrow> 'a list
    \<Rightarrow> (('a, 's) sum_tree \<times> ('a, 's) sum_tree option) option \<Rightarrow> bool" where
  "append_result summ h p items r \<longleftrightarrow>
     (\<exists>t' sp. r = Some (t', sp) \<and> node_ok summ (Suc h) t' \<and> (p \<longrightarrow> packed t') \<and>
       (case sp of None \<Rightarrow> tree_items t' = items
        | Some t2 \<Rightarrow> packed t' \<and> child_ok summ (Suc h) t2 \<and> tree_items t' @ tree_items t2 = items))"

lemma append_result_split:
  assumes "r = Some (t', Some t2)" "child_ok summ (Suc h) t'" "child_ok summ (Suc h) t2"
    and "tree_items t' @ tree_items t2 = items"
  shows "append_result summ h p items r"
  using assms by (simp add: append_result_def child_ok_def)

lemma append_result_cases:
  assumes "append_result summ h p items r"
  obtains t' where "r = Some (t', None)" "node_ok summ (Suc h) t'" "p \<longrightarrow> packed t'" "tree_items t' = items"
  | t' t2 where "r = Some (t', Some t2)" "child_ok summ (Suc h) t'" "child_ok summ (Suc h) t2"
      "tree_items t' @ tree_items t2 = items"
proof -
  from assms obtain t' sp where r: "r = Some (t', sp)" "node_ok summ (Suc h) t'" "p \<longrightarrow> packed t'"
      "case sp of None \<Rightarrow> tree_items t' = items
       | Some t2 \<Rightarrow> packed t' \<and> child_ok summ (Suc h) t2 \<and> tree_items t' @ tree_items t2 = items"
    unfolding append_result_def by blast
  show thesis
  proof (cases sp)
    case None
    with r that(1) show ?thesis by simp
  next
    case (Some t2)
    with r that(2) show ?thesis by (simp add: child_ok_def)
  qed
qed

lemma midpoint_bounds:
  assumes "2 * TREE_BASE < n" "n \<le> 4 * TREE_BASE"
  shows "0 < midpoint n" "midpoint n < n" "midpoint n \<le> 2 * TREE_BASE" "n - midpoint n \<le> 2 * TREE_BASE"
    "TREE_BASE \<le> midpoint n" "TREE_BASE \<le> n - midpoint n"
  using assms by (auto simp: midpoint_def TREE_BASE_def)

lemma append_children_result:
  assumes cts: "cts \<noteq> []" "length cts \<le> 2 * TREE_BASE" "\<forall>t \<in> set cts. child_ok summ h t"
    and new: "length new_ts \<le> 2 * TREE_BASE" "\<forall>t \<in> set new_ts. child_ok summ h t"
    and ss: "css = map summary cts" "new_ss = map summary new_ts" "s' = sum_list (css @ new_ss)"
  shows "append_result summ h (TREE_BASE \<le> length cts) (concat (map tree_items (cts @ new_ts)))
    (append_children h s' css cts new_ss new_ts)"
proof -
  let ?ts = "cts @ new_ts" and ?n = "length cts + length new_ts"
  have node: "node_ok summ (Suc h) (Internal h (sum_list (map summary us)) (map summary us) us)"
    if "us \<noteq> []" "set us \<subseteq> set ?ts" "length us \<le> 2 * TREE_BASE" for us
    using that cts(3) new(2) by (intro node_ok_Internal) auto
  show ?thesis
  proof (cases "2 * TREE_BASE < ?n")
    case True
    let ?m = "midpoint ?n"
    note b = midpoint_bounds [OF True]
    have n4: "?n \<le> 4 * TREE_BASE" using cts(2) new(1) by simp
    have len: "length (take ?m ?ts) \<le> 2 * TREE_BASE" "length (drop ?m ?ts) \<le> 2 * TREE_BASE"
      using b [OF n4] by simp_all
    have ne: "take ?m ?ts \<noteq> []" "drop ?m ?ts \<noteq> []"
      using b [OF n4] cts(1) by auto
    note l = node [OF ne(1) set_take_subset len(1)] and r = node [OF ne(2) set_drop_subset len(2)]
    have ss_ts: "css @ new_ss = map summary ?ts" using ss by simp
    have parts: "concat (map tree_items (take ?m ?ts)) @ concat (map tree_items (drop ?m ?ts)) =
        concat (map tree_items ?ts)"
      by (metis append_take_drop_id concat_append map_append)
    have "append_children h s' css cts new_ss new_ts =
        Some (Internal h (sum_list (map summary (take ?m ?ts))) (map summary (take ?m ?ts)) (take ?m ?ts),
          Some (Internal h (sum_list (map summary (drop ?m ?ts))) (map summary (drop ?m ?ts)) (drop ?m ?ts)))"
      using True len unfolding append_children_def Let_def ss_ts
      by (simp only: if_True take_map drop_map sum_summaries_eq array_vec_eq length_map
          bind.bind_lunit option.simps)
    moreover have "TREE_BASE \<le> length (take ?m ?ts)" "TREE_BASE \<le> length (drop ?m ?ts)"
      using b [OF n4] by simp_all
    ultimately show ?thesis
      using l r parts by (simp add: append_result_def child_ok_def)
  next
    case False
    then have "append_children h s' css cts new_ss new_ts =
        Some (Internal h (sum_list (map summary ?ts)) (map summary ?ts) ?ts, None)"
      using ss by (simp add: append_children_def panic_simps)
    with node [of ?ts] cts(1) False show ?thesis
      by (simp add: append_result_def)
  qed
qed

lemma append_leaf_result:
  assumes wf: "wf_tree summ (Leaf s xs ss)" "wf_tree summ (Leaf s2 ys ss2)" and ne: "ys \<noteq> []"
  shows "append_result summ 0 True (xs @ ys) (push_tree_recursive (Leaf s xs ss) (Leaf s2 ys ss2))"
proof -
  let ?xs = "xs @ ys"
  have node: "child_ok summ (Suc 0) (Leaf (sum_list (map summ us)) us (map summ us))"
    if "us \<noteq> []" "length us \<le> 2 * TREE_BASE" for us
    using that by (simp add: ok_defs)
  show ?thesis
  proof (cases "2 * TREE_BASE < length ?xs")
    case True
    let ?m = "midpoint (length ?xs)"
    note b = midpoint_bounds [OF True]
    have n4: "length ?xs \<le> 4 * TREE_BASE" using wf by simp
    have len: "length (take ?m ?xs) \<le> 2 * TREE_BASE" "length (drop ?m ?xs) \<le> 2 * TREE_BASE"
      using b [OF n4] by simp_all
    have ne': "take ?m ?xs \<noteq> []" "drop ?m ?xs \<noteq> []"
      using b [OF n4] by auto
    have ss_xs: "ss @ child_summaries (Leaf s2 ys ss2) = map summ ?xs" using wf by simp
    have "push_tree_recursive (Leaf s xs ss) (Leaf s2 ys ss2) =
        Some (Leaf (sum_list (map summ (take ?m ?xs))) (take ?m ?xs) (map summ (take ?m ?xs)),
          Some (Leaf (sum_list (map summ (drop ?m ?xs))) (drop ?m ?xs) (map summ (drop ?m ?xs))))"
      using True len unfolding push_tree_recursive.simps node_items.simps Let_def ss_xs
      by (simp only: bind.bind_lunit length_append [symmetric] if_True take_map drop_map
          sum_summaries_eq array_vec_eq length_map)
    then show ?thesis
      by (rule append_result_split [OF _ node [OF ne'(1) len(1)] node [OF ne'(2) len(2)]])
        (simp only: tree_items.simps append_take_drop_id)
  next
    case False
    then have "push_tree_recursive (Leaf s xs ss) (Leaf s2 ys ss2) =
        Some (Leaf (sum_list (map summ ?xs)) ?xs (map summ ?xs), None)"
      using wf by (simp add: panic_simps)
    with node [of ?xs] ne False show ?thesis
      by (simp add: append_result_def child_ok_def)
  qed
qed

lemma append_result_items:
  assumes "append_result summ h p items r" "r = Some (t', sp)"
  shows "summary t' + (case sp of None \<Rightarrow> 0 | Some t2 \<Rightarrow> summary t2) = sum_list (map summ items)"
  using assms by (auto simp: append_result_def ok_defs summary_wf split: option.splits)

text \<open>
  The recursive step: a node as high as \<open>other\<close> or higher takes it in without a panic,
  splitting at most once.
\<close>

lemma push_tree_recursive_result:
  assumes "wf_tree summ t" "wf_tree summ other" "height other \<le> height t" "tree_items other \<noteq> []"
  shows "append_result summ (height t) (packed t) (tree_items t @ tree_items other) (push_tree_recursive t other)"
  using assms
proof (induction t)
  case (Leaf s xs ss)
  then obtain s2 ys ss2 where o: "other = Leaf s2 ys ss2"
    using wf_height0 [of summ other] by (cases other) auto
  with Leaf show ?case
    using append_leaf_result [of summ s xs ss s2 ys ss2] by (simp del: push_tree_recursive.simps)
next
  case (Internal h s css cts)
  note wf = Internal.prems(1)
  have cts: "cts \<noteq> []" "length cts \<le> 2 * TREE_BASE" "\<forall>t \<in> set cts. child_ok summ h t"
    and ss: "css = map summary cts" "s = sum_list css"
    using wf by (auto simp: wf_Internal_child_ok simp del: wf_tree.simps)
  have hd: "checked_sub h (height other) = Some (h - height other)"
    using Internal.prems(3) by (simp add: panic_simps)
  have sum_o: "summary other = sum_list (map summ (tree_items other))"
    by (rule summary_wf [OF Internal.prems(2)])
  consider (same) "height other = h" | (below) "h = Suc (height other)" "\<not> is_underflowing other"
    | (deep) "h \<noteq> height other" "\<not> (h = Suc (height other) \<and> \<not> is_underflowing other)"
    by blast
  then show ?case
  proof cases
    case same
    from cts have "0 < h" by (auto simp: ok_defs neq_Nil_conv)
    with same obtain s2 css2 cts2 where o: "other = Internal h s2 css2 cts2"
      by (cases other) auto
    then have "append_result summ h (TREE_BASE \<le> length cts) (concat (map tree_items (cts @ cts2)))
        (append_children h (s + s2) css cts css2 cts2)"
      using cts ss Internal.prems(2)
      by (intro append_children_result) (auto simp: wf_Internal_child_ok simp del: wf_tree.simps)
    with o same hd show ?thesis by simp
  next
    case below
    then have "append_result summ h (TREE_BASE \<le> length cts) (concat (map tree_items (cts @ [other])))
        (append_children h (s + summary other) css cts [summary other] [other])"
      using cts ss Internal.prems by (intro append_children_result) (auto simp: ok_defs packed_def TREE_BASE_def)
    with below hd show ?thesis by simp
  next
    case deep
    let ?l = "last cts"
    have l: "child_ok summ h ?l" and l_in: "?l \<in> set cts" using cts by simp_all
    have IH: "append_result summ (height ?l) (packed ?l) (tree_items ?l @ tree_items other)
        (push_tree_recursive ?l other)"
      using l deep Internal.prems by (intro Internal.IH [OF l_in]) (auto simp: ok_defs packed_def)
    have "\<exists>l' sp. push_tree_recursive ?l other = Some (l', sp) \<and> child_ok summ h l' \<and>
        (case sp of None \<Rightarrow> tree_items l' = tree_items ?l @ tree_items other
         | Some t2 \<Rightarrow> child_ok summ h t2 \<and> tree_items l' @ tree_items t2 = tree_items ?l @ tree_items other)"
      using IH by (rule append_result_cases) (use l in \<open>auto simp: ok_defs\<close>)
    then obtain l' sp where r: "push_tree_recursive ?l other = Some (l', sp)"
      and l': "child_ok summ h l'"
      and sp: "case sp of None \<Rightarrow> tree_items l' = tree_items ?l @ tree_items other
        | Some t2 \<Rightarrow> child_ok summ h t2 \<and>
            tree_items l' @ tree_items t2 = tree_items ?l @ tree_items other"
      by blast
    let ?new = "case sp of None \<Rightarrow> [] | Some t2 \<Rightarrow> [t2]"
    let ?cts = "butlast cts @ [l']"
    have sums: "summary l' + sum_list (map summary ?new) = summary ?l + summary other"
      using append_result_items [OF IH r] l sum_o
      by (simp add: ok_defs summary_wf split: option.splits)
    have s_split: "s = sum_list (map summary (butlast cts)) + summary ?l"
      using cts(1) ss by (metis append_butlast_last_id map_append list.map sum_list_snoc)
    have "append_result summ h (TREE_BASE \<le> length ?cts) (concat (map tree_items (?cts @ ?new)))
        (append_children h (s + summary other) (butlast css @ [summary l']) ?cts (map summary ?new) ?new)"
    proof (rule append_children_result)
      show "\<forall>t\<in>set (butlast cts @ [l']). child_ok summ h t"
        using cts l' by (auto dest: in_set_butlastD)
      show "\<forall>t\<in>set ?new. child_ok summ h t"
        using sp by (auto split: option.splits)
      show "s + summary other = sum_list ((butlast css @ [summary l']) @ map summary ?new)"
        using s_split sums ss by (simp add: map_butlast add.assoc)
    qed (use cts ss in \<open>auto simp: map_butlast TREE_BASE_def split: option.splits\<close>)
    moreover have "concat (map tree_items (?cts @ ?new)) = concat (map tree_items cts) @ tree_items other"
      using sp concat_map_butlast_last [OF cts(1), of tree_items] by (auto split: option.splits)
    moreover have "push_tree_recursive (Internal h s css cts) other =
        append_children h (s + summary other) (butlast css @ [summary l']) ?cts (map summary ?new) ?new"
      using deep hd r cts(1) ss(1) Internal.prems(3) by (auto simp: Let_def split: option.splits)
    moreover have "length ?cts = length cts" using cts(1) by simp
    ultimately show ?thesis by simp
  qed
qed

lemma from_two:
  assumes "child_ok summ (Suc h) a" "child_ok summ (Suc h) b"
  shows "\<exists>t. from_child_trees [a, b] = Some t \<and> wf_tree summ t \<and> tree_items t = tree_items a @ tree_items b"
  using assms
  by (auto simp: from_child_trees_def ok_defs panic_simps TREE_BASE_def)

text \<open>
  \<open>push_tree\<close> never panics on well-formed trees, keeps the invariant and appends the
  items: the contract every other operation rests on.
\<close>

lemma push_tree_push_children:
  shows "wf_tree summ t \<Longrightarrow> wf_tree summ other \<Longrightarrow>
      \<exists>t'. push_tree t other = Some t' \<and> wf_tree summ t' \<and> tree_items t' = tree_items t @ tree_items other"
    and "wf_tree summ t \<Longrightarrow> \<forall>u \<in> set us. wf_tree summ u \<Longrightarrow>
      \<exists>t'. push_children t us = Some t' \<and> wf_tree summ t' \<and>
        tree_items t' = tree_items t @ concat (map tree_items us)"
proof (induction t other and t us rule: push_tree_push_children.induct)
  case (1 t other)
  consider (empty) "is_leaf other \<and> is_empty other" 
    | (taller) "\<not> (is_leaf other \<and> is_empty other)" "height t < height other"
    | (into) "\<not> (is_leaf other \<and> is_empty other)" "height other \<le> height t"
    by linarith
  then show ?case
  proof cases
    case empty
    then have "push_tree t other = Some t" "tree_items other = []"
      by (simp add: push_tree.simps, cases other) simp_all
    then show ?thesis
      using "1.prems" by simp
  next
    case taller
    then obtain h s css cts where o: "other = Internal h s css cts"
      by (cases other) auto
    then have "\<forall>u \<in> set cts. wf_tree summ u" using "1.prems" by simp
    moreover have "push_tree t other = push_children t cts"
      using taller o by (subst push_tree.simps) simp
    ultimately show ?thesis
      using "1.IH"(1) [OF taller o] "1.prems"(1) o by simp
  next
    case into
    have ne: "tree_items other \<noteq> []"
      using wf_leaf_nonempty [OF "1.prems"(2)] into(1) by simp
    from push_tree_recursive_result [OF "1.prems" into(2) ne] show ?thesis
    proof (cases rule: append_result_cases)
      case (1 t')
      with into show ?thesis by (auto simp: push_tree.simps [of t other] node_ok_def)
    next
      case (2 t' t2)
      with into from_two [OF 2(2,3)] show ?thesis by (auto simp: push_tree.simps [of t other])
    qed
  qed
next
  case (2 t)
  then show ?case by simp
next
  case (3 t u us)
  then obtain t1 where t1: "push_tree t u = Some t1" "wf_tree summ t1"
      "tree_items t1 = tree_items t @ tree_items u"
    by auto
  with "3.IH"(2) [OF t1(1) t1(2)] "3.prems" show ?case by auto
qed

section \<open>Height\<close>

text \<open>
  Internal nodes below the root have at least \<open>TREE_BASE\<close> children, so the height is
  logarithmic in the number of items, and the sixteen entries of a cursor's stack are
  enough for every tree with fewer than \<open>6 ^ 15\<close> items.
\<close>

lemma packed_items:
  "wf_tree summ t \<Longrightarrow> packed t \<Longrightarrow> tree_items t \<noteq> [] \<Longrightarrow> TREE_BASE ^ height t \<le> length (tree_items t)"
proof (induction t)
  case (Leaf s xs ss)
  then show ?case by (cases xs) simp_all
next
  case (Internal h s css cts)
  then obtain g where g: "h = Suc g" by (cases cts) auto
  have each: "TREE_BASE ^ g \<le> length (tree_items c)" if "c \<in> set cts" for c
    using Internal.IH [OF that] Internal.prems(1) that g by auto
  have "TREE_BASE * TREE_BASE ^ g \<le> length cts * TREE_BASE ^ g"
    using Internal.prems(2) by simp
  also have "\<dots> \<le> length (concat (map tree_items cts))"
    using each by (rule length_concat_ge)
  finally show ?case using g by simp
qed

lemma height_bound:
  assumes "wf_tree summ t" "0 < height t"
  shows "TREE_BASE ^ (height t - 1) \<le> length (tree_items t)"
proof (cases t)
  case (Internal h s css cts)
  with assms obtain c cs where c: "cts = c # cs" "wf_tree summ c" "h = Suc (height c)" "tree_items c \<noteq> []" "packed c"
    by (cases cts) auto
  with packed_items [OF c(2,5,4)] Internal show ?thesis by simp
qed (use assms in simp)

lemma height_small:
  assumes "wf_tree summ t" "length (tree_items t) < TREE_BASE ^ 15"
  shows "height t < 16"
proof (rule ccontr)
  assume "\<not> height t < 16"
  then have "TREE_BASE ^ 15 \<le> TREE_BASE ^ (height t - 1)"
    by (intro power_increasing) (simp_all add: TREE_BASE_def)
  with height_bound [OF assms(1)] \<open>\<not> height t < 16\<close> assms(2) show False by simp
qed

section \<open>The sequence interface\<close>

text \<open>
  What the rest of the crate (bulk loading here, the cursor's slices, the edits) relies on:
  appending never fails on well-formed values and concatenates their items.
\<close>

locale appendable =
  fixes inv :: "'t \<Rightarrow> bool"
    and items :: "'t \<Rightarrow> 'a list"
    and app :: "'t \<Rightarrow> 't \<Rightarrow> 't option"
  assumes app_total: "inv t \<Longrightarrow> inv u \<Longrightarrow>
    \<exists>t'. app t u = Some t' \<and> inv t' \<and> items t' = items t @ items u"
begin

lemma app_bind:
  assumes "inv t" "inv u"
    and "\<And>t'. inv t' \<Longrightarrow> items t' = items t @ items u \<Longrightarrow> Q (f t')"
  shows "Q (app t u \<bind> f)"
  using app_total [OF assms(1,2)] assms(3) by auto

lemma app_some:
  assumes "inv t" "inv u"
  obtains t' where "app t u = Some t'" "inv t'" "items t' = items t @ items u"
  using app_total [OF assms] by auto

end

locale sequence = appendable inv items app
  for inv :: "'t \<Rightarrow> bool" and items :: "'t \<Rightarrow> 'a list" and app :: "'t \<Rightarrow> 't \<Rightarrow> 't option" +
  fixes empty_seq :: 't
  assumes inv_empty: "inv empty_seq" and items_empty: "items empty_seq = []"
begin

lemma app_empty_left:
  assumes "inv t"
  obtains t' where "app empty_seq t = Some t'" "inv t'" "items t' = items t"
  using app_some [OF inv_empty assms] items_empty by auto

lemma app_assoc_items:
  assumes "inv a" "inv b" "inv c"
    and "app a b = Some ab" "app ab c = Some l" "app b c = Some bc" "app a bc = Some r"
  shows "items l = items r"
proof -
  have "inv ab" "items ab = items a @ items b" "inv bc" "items bc = items b @ items c"
    using app_total [OF assms(1,2)] app_total [OF assms(2,3)] assms(4,6) by auto
  then show ?thesis
    using app_total [of ab c] app_total [of a bc] assms by auto
qed

end

interpretation tree_seq: sequence "wf_tree summ" tree_items push_tree new_tree for summ
  by unfold_locales (auto simp: push_tree_push_children wf_intros abs_simps)

section \<open>Correctness of the other operations\<close>

lemma wf_singleton [wf_intros]: "wf_tree summ (singleton_leaf summ x)"
  by (simp add: singleton_leaf_def TREE_BASE_def)

lemma items_singleton [abs_simps]: "tree_items (singleton_leaf summ x) = [x]"
  by (simp add: singleton_leaf_def)

lemma push_total:
  assumes "wf_tree summ t"
  shows "\<exists>t'. push summ t x = Some t' \<and> wf_tree summ t' \<and> tree_items t' = tree_items t @ [x]"
proof -
  let ?l = "singleton_leaf summ x"
  have "from_child_trees [?l] = Some (Internal (Suc 0) (summary ?l) [summary ?l] [?l])"
    by (simp add: from_child_trees_def singleton_leaf_def panic_simps TREE_BASE_def)
  moreover have "wf_tree summ (Internal (Suc 0) (summary ?l) [summary ?l] [?l])"
    by (simp add: singleton_leaf_def TREE_BASE_def)
  ultimately show ?thesis
    using tree_seq.app_total [OF assms] by (fastforce simp: push_def abs_simps)
qed

text \<open>The leaf being filled by \<open>extend\<close>.\<close>

definition filling_ok :: "('a \<Rightarrow> 's::monoid_add) \<Rightarrow> ('s \<times> 'a list \<times> 's list) option \<Rightarrow> bool" where
  "filling_ok summ leaf \<longleftrightarrow> (case leaf of None \<Rightarrow> True
     | Some (s, xs, ss) \<Rightarrow> wf_tree summ (Leaf s xs ss) \<and> xs \<noteq> [])"

definition filling_items :: "('s \<times> 'a list \<times> 's list) option \<Rightarrow> 'a list" where
  "filling_items leaf = (case leaf of None \<Rightarrow> [] | Some (s, xs, ss) \<Rightarrow> xs)"

lemma filling_new: "filling_ok summ (Some (0 + summ x, [x], [summ x]))"
  by (simp add: filling_ok_def TREE_BASE_def)

lemma extend_loop_total:
  assumes "wf_tree summ t" "filling_ok summ leaf"
  shows "\<exists>t'. extend_loop summ t leaf rest = Some t' \<and> wf_tree summ t' \<and>
    tree_items t' = tree_items t @ filling_items leaf @ rest"
  using assms
proof (induction summ t leaf rest rule: extend_loop.induct)
  case (1 summ t leaf)
  show ?case
  proof (cases leaf)
    case None
    with "1.prems" show ?thesis by (simp add: filling_items_def)
  next
    case (Some l)
    then obtain s xs ss where l: "leaf = Some (s, xs, ss)" by (cases l) auto
    then have "wf_tree summ (Leaf s xs ss)" using "1.prems" by (simp add: filling_ok_def)
    from tree_seq.app_total [OF "1.prems"(1) this] l show ?thesis
      by (simp add: filling_items_def)
  qed
next
  case (2 summ t leaf item rest)
  show ?case
  proof (cases leaf)
    case None
    from "2.IH"(1) [OF None "2.prems"(1) filling_new] None show ?thesis
      by (simp add: filling_items_def)
  next
    case (Some l)
    then obtain s xs ss where l: "leaf = Some (s, xs, ss)" by (cases l) auto
    then have ok: "wf_tree summ (Leaf s xs ss)" "xs \<noteq> []" using "2.prems" by (auto simp: filling_ok_def)
    show ?thesis
    proof (cases "length xs = 2 * TREE_BASE")
      case True
      obtain t1 where t1: "push_tree t (Leaf s xs ss) = Some t1" "wf_tree summ t1"
          "tree_items t1 = tree_items t @ xs"
        using tree_seq.app_some [OF "2.prems"(1) ok(1)] by auto
      with l True "2.IH"(2) [OF l refl refl True t1(1) t1(2) filling_new] show ?thesis
        by (simp add: filling_items_def)
    next
      case False
      let ?leaf = "Some (s + summ item, xs @ [item], ss @ [summ item])"
      have fok: "filling_ok summ ?leaf" using ok False by (simp add: filling_ok_def)
      have av: "array_vec (xs @ [item]) = Some (xs @ [item])"
          "array_vec (ss @ [summ item]) = Some (ss @ [summ item])"
        using ok False by (auto simp: panic_simps)
      show ?thesis
        using "2.IH"(3) [OF l refl refl False av "2.prems"(1) fok] l False av
        by (simp add: filling_items_def)
    qed
  qed
qed

lemma extend_total:
  "wf_tree summ t \<Longrightarrow>
    \<exists>t'. extend_tree summ t xs = Some t' \<and> wf_tree summ t' \<and> tree_items t' = tree_items t @ xs"
  using extend_loop_total [of summ t None xs]
  by (simp add: extend_tree_def filling_ok_def filling_items_def)

text \<open>Updating the last item.\<close>

lemma tree_items_last: "cts \<noteq> [] \<Longrightarrow> tree_items (last cts) \<noteq> [] \<Longrightarrow>
    last (concat (map tree_items cts)) = last (tree_items (last cts)) \<and>
    butlast (concat (map tree_items cts)) =
      concat (map tree_items (butlast cts)) @ butlast (tree_items (last cts))"
  using concat_map_butlast_last [of cts tree_items]
  by (metis butlast_append last_appendR)

lemma update_last_leaf_total:
  assumes "wf_tree summ t" "tree_items t \<noteq> []"
  shows "\<exists>t'. update_last_leaf_recursive summ f t = Some (t', summary t') \<and> wf_tree summ t' \<and>
    height t' = height t \<and> (packed t \<longrightarrow> packed t') \<and>
    tree_items t' = butlast (tree_items t) @ [f (last (tree_items t))]"
  using assms
proof (induction t)
  case (Leaf s xs ss)
  then show ?case by (auto simp: Let_def map_butlast [symmetric] sum_list_snoc)
next
  case (Internal h s css cts)
  note wf = Internal.prems(1) [unfolded wf_Internal_child_ok]
  let ?l = "last cts"
  have l: "?l \<in> set cts" "wf_tree summ ?l" "tree_items ?l \<noteq> []" "h = Suc (height ?l)" "packed ?l"
    using wf by (auto simp: ok_defs)
  obtain l' where l': "update_last_leaf_recursive summ f ?l = Some (l', summary l')" "wf_tree summ l'"
      "height l' = height ?l" "packed l'" "tree_items l' = butlast (tree_items ?l) @ [f (last (tree_items ?l))]"
    using Internal.IH [OF l(1-3)] l(5) by auto
  let ?cts = "butlast cts @ [l']"
  have node: "node_ok summ (Suc h) (Internal h (sum_list (map summary ?cts)) (map summary ?cts) ?cts)"
    using wf l l' by (intro node_ok_Internal) (auto simp: ok_defs dest: in_set_butlastD)
  have "update_last_leaf_recursive summ f (Internal h s css cts) =
      Some (Internal h (sum_list (map summary ?cts)) (map summary ?cts) ?cts, sum_list (map summary ?cts))"
    using wf l'(1) by (simp add: map_butlast Let_def)
  with node l' tree_items_last [of cts] wf l(3) show ?case
    by (simp add: node_ok_def del: wf_tree.simps)
qed

lemma update_last_total:
  assumes "wf_tree summ t"
  shows "\<exists>t'. update_last summ f t = Some t' \<and> wf_tree summ t' \<and>
    tree_items t' = (if tree_items t = [] then [] else butlast (tree_items t) @ [f (last (tree_items t))])"
proof (cases "is_empty t")
  case True
  with assms show ?thesis by (cases t) (auto simp: update_last_def)
next
  case False
  then have "tree_items t \<noteq> []" using wf_leaf_nonempty [OF assms] by simp
  with False update_last_leaf_total [OF assms this, of f] show ?thesis
    by (auto simp: update_last_def)
qed

text \<open>Reading the ends.\<close>

lemma leftmost_leaf_total:
  "wf_tree summ t \<Longrightarrow> \<exists>s xs ss rest. leftmost_leaf t = Some (Leaf s xs ss) \<and>
    tree_items t = xs @ rest \<and> (tree_items t = [] \<longleftrightarrow> xs = [])"
proof (induction t)
  case (Internal h s css cts)
  then obtain u us where cts: "cts = u # us" by (cases cts) auto
  with Internal obtain s' xs ss' rest where "leftmost_leaf u = Some (Leaf s' xs ss')"
      "tree_items u = xs @ rest" "xs \<noteq> []"
    by fastforce
  with cts show ?case by auto
qed simp

lemma rightmost_leaf_total:
  "wf_tree summ t \<Longrightarrow> \<exists>s xs ss rest. rightmost_leaf t = Some (Leaf s xs ss) \<and>
    tree_items t = rest @ xs \<and> (tree_items t = [] \<longleftrightarrow> xs = []) \<and> wf_tree summ (Leaf s xs ss)"
proof (induction t)
  case (Internal h s css cts)
  then have ne: "cts \<noteq> []" and l: "last cts \<in> set cts" by auto
  have "wf_tree summ (last cts)" "tree_items (last cts) \<noteq> []" using Internal.prems l by auto
  with Internal.IH [OF l] obtain s' xs ss' rest where r: "rightmost_leaf (last cts) = Some (Leaf s' xs ss')"
      "tree_items (last cts) = rest @ xs" "xs \<noteq> []" "wf_tree summ (Leaf s' xs ss')"
    by auto
  have "concat (map tree_items cts) = concat (map tree_items (butlast cts)) @ rest @ xs"
    using concat_map_butlast_last [OF ne, of tree_items] r(2) by simp
  with ne r show ?case by auto
qed simp

lemma tree_first_total: "wf_tree summ t \<Longrightarrow> tree_first t = Some (first_opt (tree_items t))"
  using leftmost_leaf_total [of summ t]
  by (auto simp: tree_first_def first_opt_def neq_Nil_conv split: list.splits)

lemma tree_last_total: "wf_tree summ t \<Longrightarrow> tree_last t = Some (last_opt (tree_items t))"
  using rightmost_leaf_total [of summ t] by (auto simp: tree_last_def last_opt_def)

end
