(* ===== verification/Sum_Cursor.thy ===== *)
theory Sum_Cursor imports Sum_Tree begin

text \<open>
  The cursor of \<open>crates/sum_tree/src/cursor.rs\<close>: a stack of nodes with an index each, the
  summary of everything left of the cursor along two dimensions, and two flags.  The model
  is the release build (\<open>debug_assert!\<close> and \<open>cfg!(debug_assertions)\<close> are off).  The Rust
  stack's last element is the head of the list here.
\<close>

section \<open>State\<close>

datatype seek_bias = SeekLeft | SeekRight

datatype clamp_max = ClampYes | ClampNo

record ('a, 's, 'd, 'u) stack_entry =
  entry_tree :: "('a, 's) sum_tree"
  entry_index :: nat
  entry_seek :: 'd
  entry_sum :: 'u

record ('a, 's, 'd, 'u) cursor =
  cur_tree :: "('a, 's) sum_tree"
  cur_stack :: "('a, 's, 'd, 'u) stack_entry list"
  cur_seek :: 'd
  cur_sum :: 'u
  did_seek :: bool
  at_end :: bool

definition cursor_new ::
  "('d, 's) dimension \<Rightarrow> ('u, 's) dimension \<Rightarrow> ('a, 's) sum_tree \<Rightarrow> ('a, 's, 'd, 'u) cursor" where
  "cursor_new DS DU t = \<lparr>cur_tree = t, cur_stack = [], cur_seek = dim_default DS,
     cur_sum = dim_default DU, did_seek = False, at_end = False\<rparr>"

definition cursor_reset ::
  "('d, 's) dimension \<Rightarrow> ('u, 's) dimension \<Rightarrow> ('a, 's, 'd, 'u) cursor \<Rightarrow> ('a, 's, 'd, 'u) cursor" where
  "cursor_reset DS DU c = c\<lparr>did_seek := False, at_end := False, cur_stack := [],
     cur_seek := dim_default DS, cur_sum := dim_default DU\<rparr>"

text \<open>The pair of lines \<open>self.seek_dimension.add_summary(s); self.sum_dimension.add_summary(s)\<close>.\<close>

fun advance ::
  "('d, 's) dimension \<Rightarrow> ('u, 's) dimension \<Rightarrow> 'd \<times> 'u \<Rightarrow> 's \<Rightarrow> 'd \<times> 'u" where
  "advance DS DU (d, u) s = (add_summary DS d s, add_summary DU u s)"

definition mk_entry ::
  "('a, 's) sum_tree \<Rightarrow> nat \<Rightarrow> 'd \<times> 'u \<Rightarrow> ('a, 's, 'd, 'u) stack_entry" where
  "mk_entry t i pos = \<lparr>entry_tree = t, entry_index = i, entry_seek = fst pos, entry_sum = snd pos\<rparr>"

text \<open>\<open>ArrayVec<StackEntry, 16>::push\<close>.\<close>

definition push_entry ::
  "('a, 's, 'd, 'u) stack_entry list \<Rightarrow> ('a, 's, 'd, 'u) stack_entry
    \<Rightarrow> ('a, 's, 'd, 'u) stack_entry list option" where
  "push_entry stack e = (if length stack < 16 then Some (e # stack) else None)"

text \<open>\<open>item\<close> and \<open>item_summary\<close>: the outer option is an index panic.\<close>

definition cursor_item :: "('a, 's, 'd, 'u) cursor \<Rightarrow> 'a option option" where
  "cursor_item c = (case cur_stack c of
     [] \<Rightarrow> Some None
   | e # _ \<Rightarrow> (case entry_tree e of
       Leaf s xs ss \<Rightarrow> (if entry_index e = length xs then Some None
                          else map_option Some (nth_opt xs (entry_index e)))
     | Internal h s css cts \<Rightarrow> Some None))"

definition item_summary :: "('a, 's, 'd, 'u) cursor \<Rightarrow> 's option option" where
  "item_summary c = (case cur_stack c of
     [] \<Rightarrow> Some None
   | e # _ \<Rightarrow> (case entry_tree e of
       Leaf s xs ss \<Rightarrow> (if entry_index e = length ss then Some None
                          else map_option Some (nth_opt ss (entry_index e)))
     | Internal h s css cts \<Rightarrow> Some None))"

definition end_seek_position :: "('d, 's) dimension \<Rightarrow> ('a, 's, 'd, 'u) cursor \<Rightarrow> 'd option" where
  "end_seek_position DS c = item_summary c \<bind> (\<lambda>r. Some (case r of
     Some s \<Rightarrow> add_summary DS (cur_seek c) s | None \<Rightarrow> cur_seek c))"

definition cursor_end :: "('u, 's) dimension \<Rightarrow> ('a, 's, 'd, 'u) cursor \<Rightarrow> 'u option" where
  "cursor_end DU c = item_summary c \<bind> (\<lambda>r. Some (case r of
     Some s \<Rightarrow> add_summary DU (cur_sum c) s | None \<Rightarrow> cur_sum c))"

section \<open>Stepping forward\<close>

text \<open>The loop that skips summaries the filter rejects, from index \<open>i\<close>.\<close>

fun find_first_match ::
  "('d, 's) dimension \<Rightarrow> ('u, 's) dimension \<Rightarrow> ('s \<Rightarrow> bool) \<Rightarrow> 'd \<times> 'u \<Rightarrow> nat \<Rightarrow> 's list
    \<Rightarrow> ('d \<times> 'u) \<times> nat option" where
  "find_first_match DS DU filt pos i [] = (pos, None)"
| "find_first_match DS DU filt pos i (s # ss) =
     (if filt s then (pos, Some i)
      else find_first_match DS DU filt (advance DS DU pos s) (i + 1) ss)"

fun descend_to_first_item ::
  "('d, 's) dimension \<Rightarrow> ('u, 's) dimension \<Rightarrow> ('s \<Rightarrow> bool) \<Rightarrow> ('a, 's) sum_tree
    \<Rightarrow> ('a, 's, 'd, 'u) stack_entry list \<Rightarrow> 'd \<times> 'u
    \<Rightarrow> (('a, 's, 'd, 'u) stack_entry list \<times> 'd \<times> 'u) option" where
  "descend_to_first_item DS DU filt (Internal h s css cts) stack pos =
     (case find_first_match DS DU filt pos 0 css of
        (pos', None) \<Rightarrow> Some (stack, pos')
      | (pos', Some i) \<Rightarrow>
          push_entry stack (mk_entry (Internal h s css cts) i pos') \<bind> (\<lambda>stack'.
          if i < length cts then descend_to_first_item DS DU filt (cts ! i) stack' pos' else None))"
| "descend_to_first_item DS DU filt (Leaf s xs ss) stack pos =
     (case find_first_match DS DU filt pos 0 ss of
        (pos', None) \<Rightarrow> Some (stack, pos')
      | (pos', Some i) \<Rightarrow>
          push_entry stack (mk_entry (Leaf s xs ss) i pos') \<bind> (\<lambda>stack'. Some (stack', pos')))"

text \<open>The inner \<open>while\<close> of \<open>next_internal\<close> on an internal node: index, the entry's own
  dimensions, the cursor's dimensions.\<close>

function next_in_node ::
  "('d, 's) dimension \<Rightarrow> ('u, 's) dimension \<Rightarrow> ('s \<Rightarrow> bool) \<Rightarrow> 's list \<Rightarrow> nat \<Rightarrow> 'd \<times> 'u \<Rightarrow> 'd \<times> 'u
    \<Rightarrow> nat \<times> ('d \<times> 'u) \<times> ('d \<times> 'u)" where
  "next_in_node DS DU filt css i epos pos =
     (if i < length css then
        let epos' = advance DS DU epos (css ! i); i' = i + 1 in
        if i' < length css then
          (if filt (css ! i') then (i', epos', pos)
           else next_in_node DS DU filt css i' epos' (advance DS DU pos (css ! i')))
        else (i', epos', pos)
      else (i, epos, pos))"
  by pat_completeness auto
termination
  by (relation "measure (\<lambda>(DS, DU, filt, css, i, epos, pos). length css - i)") auto

text \<open>The \<open>loop\<close> on a leaf; the flag says that it left by \<open>return\<close>.\<close>

function next_in_leaf ::
  "('d, 's) dimension \<Rightarrow> ('u, 's) dimension \<Rightarrow> ('s \<Rightarrow> bool) \<Rightarrow> 's list \<Rightarrow> nat \<Rightarrow> 'd \<times> 'u \<Rightarrow> 'd \<times> 'u
    \<Rightarrow> (bool \<times> nat \<times> ('d \<times> 'u) \<times> ('d \<times> 'u)) option" where
  "next_in_leaf DS DU filt ss i epos pos =
     (if i < length ss then
        let pos' = advance DS DU pos (ss ! i); epos' = advance DS DU epos (ss ! i); i' = i + 1 in
        if i' < length ss then
          (if filt (ss ! i') then Some (True, i', epos', pos')
           else next_in_leaf DS DU filt ss i' epos' pos')
        else Some (False, i', epos', pos')
      else None)"
  by pat_completeness auto
termination
  by (relation "measure (\<lambda>(DS, DU, filt, ss, i, epos, pos). length ss - i)") auto

declare next_in_node.simps [simp del] next_in_leaf.simps [simp del]

text \<open>The \<open>while\<close> over the stack; the flag is \<open>True\<close> when the leaf loop returned early.\<close>

fun next_loop ::
  "('d, 's) dimension \<Rightarrow> ('u, 's) dimension \<Rightarrow> ('s \<Rightarrow> bool)
    \<Rightarrow> ('a, 's, 'd, 'u) stack_entry list \<Rightarrow> 'd \<times> 'u
    \<Rightarrow> (bool \<times> ('a, 's, 'd, 'u) stack_entry list \<times> 'd \<times> 'u) option" where
  "next_loop DS DU filt [] pos = Some (False, [], pos)"
| "next_loop DS DU filt (e # stack) pos =
     (case entry_tree e of
        Internal h s css cts \<Rightarrow>
          (case next_in_node DS DU filt css (entry_index e) (entry_seek e, entry_sum e) pos of
             (i, epos, pos') \<Rightarrow>
               (if i < length cts then
                  map_option (Pair False)
                    (descend_to_first_item DS DU filt (cts ! i) (mk_entry (entry_tree e) i epos # stack) pos')
                else next_loop DS DU filt stack pos'))
      | Leaf s xs ss \<Rightarrow>
          next_in_leaf DS DU filt ss (entry_index e) (entry_seek e, entry_sum e) pos \<bind>
            (\<lambda>(returned, i, epos, pos').
               if returned then Some (True, mk_entry (entry_tree e) i epos # stack, pos')
               else next_loop DS DU filt stack pos'))"

definition set_place ::
  "('a, 's, 'd, 'u) cursor \<Rightarrow> ('a, 's, 'd, 'u) stack_entry list \<Rightarrow> 'd \<times> 'u \<Rightarrow> ('a, 's, 'd, 'u) cursor" where
  "set_place c stack pos = c\<lparr>cur_stack := stack, cur_seek := fst pos, cur_sum := snd pos\<rparr>"

definition next_internal ::
  "('d, 's) dimension \<Rightarrow> ('u, 's) dimension \<Rightarrow> ('s \<Rightarrow> bool) \<Rightarrow> ('a, 's, 'd, 'u) cursor
    \<Rightarrow> ('a, 's, 'd, 'u) cursor option" where
  "next_internal DS DU filt c =
     (if cur_stack c = [] then
        if at_end c then Some (c\<lparr>at_end := True\<rparr>)
        else
          descend_to_first_item DS DU filt (cur_tree c) [] (cur_seek c, cur_sum c) \<bind> (\<lambda>(stack, pos).
          Some ((set_place c stack pos)\<lparr>did_seek := True, at_end := (stack = [])\<rparr>))
      else
        next_loop DS DU filt (cur_stack c) (cur_seek c, cur_sum c) \<bind> (\<lambda>(returned, stack, pos).
        let c' = set_place c stack pos
        in Some (if returned then c' else c'\<lparr>did_seek := did_seek c \<or> stack \<noteq> [], at_end := (stack = [])\<rparr>)))"

definition cursor_next ::
  "('d, 's) dimension \<Rightarrow> ('u, 's) dimension \<Rightarrow> ('a, 's, 'd, 'u) cursor \<Rightarrow> ('a, 's, 'd, 'u) cursor option" where
  "cursor_next DS DU c = next_internal DS DU (\<lambda>_. True) c"

section \<open>Stepping back\<close>

fun descend_to_last_item ::
  "('d, 's) dimension \<Rightarrow> ('u, 's) dimension \<Rightarrow> ('a, 's) sum_tree
    \<Rightarrow> ('a, 's, 'd, 'u) stack_entry list \<Rightarrow> 'd \<times> 'u
    \<Rightarrow> (('a, 's, 'd, 'u) stack_entry list \<times> 'd \<times> 'u) option" where
  "descend_to_last_item DS DU (Internal h s css cts) stack pos =
     (if css = [] \<or> cts = [] then None
      else
        let pos' = foldl (advance DS DU) pos (butlast css) in
        push_entry stack (mk_entry (Internal h s css cts) (length cts - 1) pos') \<bind> (\<lambda>stack'.
        descend_to_last_item DS DU (last cts) stack' pos'))"
| "descend_to_last_item DS DU (Leaf s xs ss) stack pos =
     (let last_index = length ss - 1;
          pos' = foldl (advance DS DU) pos (take last_index ss)
      in push_entry stack (mk_entry (Leaf s xs ss) last_index pos') \<bind> (\<lambda>stack'.
         Some (stack', pos')))"

fun prev_loop ::
  "('d, 's) dimension \<Rightarrow> ('u, 's) dimension \<Rightarrow> ('a, 's, 'd, 'u) stack_entry list \<Rightarrow> 'd \<times> 'u
    \<Rightarrow> (('a, 's, 'd, 'u) stack_entry list \<times> 'd \<times> 'u) option" where
  "prev_loop DS DU [] pos = Some ([], pos)"
| "prev_loop DS DU (e # stack) pos =
     (if entry_index e > 0 then
        let new_index = entry_index e - 1;
            base = (case stack of [] \<Rightarrow> (dim_default DS, dim_default DU)
                    | p # _ \<Rightarrow> (entry_seek p, entry_sum p))
        in case entry_tree e of
             Internal h s css cts \<Rightarrow>
               (if new_index \<le> length css then
                  let pos' = foldl (advance DS DU) base (take new_index css) in
                  push_entry stack (mk_entry (entry_tree e) new_index pos') \<bind> (\<lambda>stack'.
                  nth_opt cts new_index \<bind> (\<lambda>t.
                  descend_to_last_item DS DU t stack' pos'))
                else None)
           | Leaf s xs ss \<Rightarrow>
               (if new_index \<le> length ss then
                  let pos' = foldl (advance DS DU) base (take new_index ss) in
                  push_entry stack (mk_entry (entry_tree e) new_index pos') \<bind> (\<lambda>stack'.
                  Some (stack', pos'))
                else None)
      else prev_loop DS DU stack pos)"

definition cursor_prev ::
  "('d, 's) dimension \<Rightarrow> ('u, 's) dimension \<Rightarrow> ('a, 's, 'd, 'u) cursor \<Rightarrow> ('a, 's, 'd, 'u) cursor option" where
  "cursor_prev DS DU c =
     (if at_end c then
        descend_to_last_item DS DU (cur_tree c) (cur_stack c) (dim_default DS, dim_default DU) \<bind>
          (\<lambda>(stack, pos). Some ((set_place c stack pos)\<lparr>did_seek := True, at_end := False\<rparr>))
      else
        prev_loop DS DU (cur_stack c) (cur_seek c, cur_sum c) \<bind>
          (\<lambda>(stack, pos). Some (set_place c stack pos)))"

text \<open>\<open>prev_leaf\<close> and \<open>prev_item\<close>: the item left of the cursor.\<close>

fun prev_leaf_in :: "('a, 's, 'd, 'u) stack_entry list \<Rightarrow> ('a, 's) sum_tree option option" where
  "prev_leaf_in [] = Some None"
| "prev_leaf_in (e # stack) =
     (if entry_index e \<noteq> 0 then
        (case entry_tree e of
           Internal h s css cts \<Rightarrow>
             nth_opt cts (entry_index e - 1) \<bind> (\<lambda>t. map_option Some (rightmost_leaf t))
         | Leaf s xs ss \<Rightarrow> Some None)
      else prev_leaf_in stack)"

definition prev_item :: "('a, 's, 'd, 'u) cursor \<Rightarrow> 'a option option" where
  "prev_item c = (case cur_stack c of
     [] \<Rightarrow> (if at_end c then tree_last (cur_tree c) else Some None)
   | e # stack \<Rightarrow>
       (if entry_index e = 0 then
          prev_leaf_in stack \<bind> (\<lambda>r. case r of
            None \<Rightarrow> Some None
          | Some l \<Rightarrow> node_items l \<bind> (\<lambda>xs. map_option Some (last_opt xs)))
        else (case entry_tree e of
            Leaf s xs ss \<Rightarrow> map_option Some (nth_opt xs (entry_index e - 1))
          | Internal h s css cts \<Rightarrow> Some None)))"

section \<open>Seeking\<close>

text \<open>
  \<open>SeekAggregate\<close>: what a seek collects on its way.
\<close>

datatype ('a, 's, 'e) seek_aggregate = AggNone | AggSlice "('a, 's) sum_tree" | AggSummary 'e

text \<open>The arguments of \<open>seek_internal\<close> that stay fixed during a seek, with its three dimensions.\<close>

record ('d, 'u, 'e, 's) seek_env =
  se_S :: "('d, 's) dimension"
  se_U :: "('u, 's) dimension"
  se_D :: "('e, 's) dimension"
  se_target :: 'd
  se_bias :: seek_bias
  se_clamp :: clamp_max

text \<open>
  \<open>comparison == Greater || (comparison == Equal && bias == SeekBias::Right)\<close>, with the
  target clamped to the end of the last item under \<open>ClampMax::Yes\<close>.
\<close>

definition target_beyond :: "('d::linorder, 'u, 'e, 's) seek_env \<Rightarrow> bool \<Rightarrow> 'd \<Rightarrow> bool" where
  "target_beyond env at_last e =
     (let target = (if at_last \<and> se_clamp env = ClampYes then min (se_target env) e else se_target env)
      in e < target \<or> (target = e \<and> se_bias env = SeekRight))"

definition aggregate_tree ::
  "('d, 'u, 'e, 's::{zero,plus}) seek_env \<Rightarrow> ('a, 's, 'e) seek_aggregate \<Rightarrow> ('a, 's) sum_tree \<Rightarrow> 's
    \<Rightarrow> ('a, 's, 'e) seek_aggregate option" where
  "aggregate_tree env agg child cs = (case agg of
     AggNone \<Rightarrow> Some AggNone
   | AggSlice slice \<Rightarrow> map_option AggSlice (push_tree slice child)
   | AggSummary d \<Rightarrow> Some (AggSummary (add_summary (se_D env) d cs)))"

text \<open>
  The leaf under construction for a slice: summary, items, item summaries.  It is only
  filled when the aggregate is a slice.
\<close>

type_synonym ('a, 's) slice_leaf = "'s \<times> 'a list \<times> 's list"

fun aggregate_item ::
  "('d, 'u, 'e, 's::{zero,plus}) seek_env \<Rightarrow> ('a, 's, 'e) seek_aggregate \<Rightarrow> ('a, 's) slice_leaf \<Rightarrow> 'a \<Rightarrow> 's
    \<Rightarrow> (('a, 's, 'e) seek_aggregate \<times> ('a, 's) slice_leaf) option" where
  "aggregate_item env AggNone leaf x s = Some (AggNone, leaf)"
| "aggregate_item env (AggSummary d) leaf x s = Some (AggSummary (add_summary (se_D env) d s), leaf)"
| "aggregate_item env (AggSlice slice) (ls, xs, ss) x s = do {
     xs' \<leftarrow> array_vec (xs @ [x]);
     ss' \<leftarrow> array_vec (ss @ [s]);
     Some (AggSlice slice, (ls + s, xs', ss'))
   }"

fun flush_leaf ::
  "('a, 's::{zero,plus}, 'e) seek_aggregate \<Rightarrow> ('a, 's) slice_leaf \<Rightarrow> ('a, 's, 'e) seek_aggregate option" where
  "flush_leaf (AggSlice slice) (ls, xs, ss) = map_option AggSlice (push_tree slice (Leaf ls xs ss))"
| "flush_leaf agg leaf = Some agg"

definition flush_nonempty ::
  "('a, 's::{zero,plus}, 'e) seek_aggregate \<Rightarrow> ('a, 's) slice_leaf \<Rightarrow> ('a, 's, 'e) seek_aggregate option" where
  "flush_nonempty agg leaf = (if fst (snd leaf) = [] then Some agg else flush_leaf agg leaf)"

subsection \<open>Moving right from the current position\<close>

text \<open>The \<open>for\<close> over the children right of the current one; it stops at the child that
  contains the target.\<close>

fun unwind_children ::
  "('d::linorder, 'u, 'e, 's::{zero,plus}) seek_env \<Rightarrow> nat \<Rightarrow> nat \<Rightarrow> (('a, 's) sum_tree \<times> 's) list
    \<Rightarrow> 'd \<times> 'u \<Rightarrow> ('a, 's, 'e) seek_aggregate
    \<Rightarrow> (nat \<times> ('d \<times> 'u) \<times> ('a, 's, 'e) seek_aggregate \<times> ('a, 's) sum_tree option) option" where
  "unwind_children env n i [] pos agg = Some (i, pos, agg, None)"
| "unwind_children env n i ((child, cs) # rest) pos agg =
     (let child_end = add_summary (se_S env) (fst pos) cs in
      if target_beyond env (i = n - 1) child_end then
        aggregate_tree env agg child cs \<bind> (\<lambda>agg'.
        unwind_children env n (i + 1) rest (advance (se_S env) (se_U env) pos cs) agg')
      else Some (i, pos, agg, Some child))"

text \<open>The \<open>for\<close> over the items of the current leaf; the flag says that it found the target.\<close>

fun unwind_items ::
  "('d::linorder, 'u, 'e, 's::{zero,plus}) seek_env \<Rightarrow> nat \<Rightarrow> nat \<Rightarrow> ('a \<times> 's) list
    \<Rightarrow> 'd \<times> 'u \<Rightarrow> ('a, 's, 'e) seek_aggregate \<Rightarrow> ('a, 's) slice_leaf
    \<Rightarrow> (nat \<times> ('d \<times> 'u) \<times> ('a, 's, 'e) seek_aggregate \<times> ('a, 's) slice_leaf \<times> bool) option" where
  "unwind_items env n i [] pos agg leaf = Some (i, pos, agg, leaf, False)"
| "unwind_items env n i ((x, s) # rest) pos agg leaf =
     (let item_end = add_summary (se_S env) (fst pos) s in
      if target_beyond env (i = n - 1) item_end then
        aggregate_item env agg leaf x s \<bind> (\<lambda>(agg', leaf').
        unwind_items env n (i + 1) rest (advance (se_S env) (se_U env) pos s) agg' leaf')
      else Some (i, pos, agg, leaf, True))"

text \<open>The \<open>'outer\<close> loop over the stack.\<close>

fun unwind ::
  "('d::linorder, 'u, 'e, 's::{zero,plus}) seek_env \<Rightarrow> ('a, 's, 'd, 'u) stack_entry list
    \<Rightarrow> 'd \<times> 'u \<Rightarrow> ('a, 's, 'e) seek_aggregate
    \<Rightarrow> (('a, 's, 'd, 'u) stack_entry list \<times> ('d \<times> 'u) \<times> ('a, 's, 'e) seek_aggregate
        \<times> ('a, 's) sum_tree option) option" where
  "unwind env [] pos agg = Some ([], pos, agg, None)"
| "unwind env (e # stack) pos agg =
     (case entry_tree e of
        Internal h s css cts \<Rightarrow>
          (let i0 = entry_index e + 1 in
           if i0 \<le> length cts \<and> i0 \<le> length css then
             unwind_children env (length cts) i0 (zip (drop i0 cts) (drop i0 css)) pos agg \<bind>
               (\<lambda>(i, pos', agg', found). case found of
                  Some child \<Rightarrow> Some (e\<lparr>entry_index := i\<rparr> # stack, pos', agg', Some child)
                | None \<Rightarrow> unwind env stack pos' agg')
           else None)
      | Leaf s xs ss \<Rightarrow>
          (let i0 = entry_index e in
           if i0 \<le> length xs \<and> i0 \<le> length ss then
             unwind_items env (length xs) i0 (zip (drop i0 xs) (drop i0 ss)) pos agg (0, [], []) \<bind>
               (\<lambda>(i, pos', agg', leaf, stopped).
                  if stopped then
                    flush_leaf agg' leaf \<bind> (\<lambda>agg''.
                    Some (e\<lparr>entry_index := i\<rparr> # stack, pos', agg'', None))
                  else flush_nonempty agg' leaf \<bind> unwind env stack pos')
           else None))"

subsection \<open>Descending into the containing subtree\<close>

fun scan_children ::
  "('d::linorder, 'u, 'e, 's::{zero,plus}) seek_env \<Rightarrow> bool \<Rightarrow> 'd \<Rightarrow> nat \<Rightarrow> nat
    \<Rightarrow> (('a, 's) sum_tree \<times> 's) list \<Rightarrow> 'd \<times> 'u \<Rightarrow> ('a, 's, 'e) seek_aggregate
    \<Rightarrow> (('d \<times> 'u) \<times> ('a, 's, 'e) seek_aggregate \<times> (nat \<times> ('a, 's) sum_tree \<times> bool) option) option" where
  "scan_children env stack_empty max_end n i [] pos agg = Some (pos, agg, None)"
| "scan_children env stack_empty max_end n i ((child, cs) # rest) pos agg =
     (let at_last = (i = n - 1);
          child_end0 = add_summary (se_S env) (fst pos) cs;
          child_end = (if at_last then max child_end0 max_end else child_end0);
          beyond = target_beyond env at_last child_end
      in if (stack_empty \<or> \<not> at_last) \<and> beyond then
           aggregate_tree env agg child cs \<bind> (\<lambda>agg'.
           scan_children env stack_empty max_end n (i + 1) rest (advance (se_S env) (se_U env) pos cs) agg')
         else Some (pos, agg, Some (i, child, beyond)))"

fun scan_items ::
  "('d::linorder, 'u, 'e, 's::{zero,plus}) seek_env \<Rightarrow> bool \<Rightarrow> 'd \<Rightarrow> nat \<Rightarrow> nat
    \<Rightarrow> ('a \<times> 's) list \<Rightarrow> 'd \<times> 'u \<Rightarrow> ('a, 's, 'e) seek_aggregate \<Rightarrow> ('a, 's) slice_leaf
    \<Rightarrow> (('d \<times> 'u) \<times> ('a, 's, 'e) seek_aggregate \<times> ('a, 's) slice_leaf \<times> (nat \<times> bool) option) option" where
  "scan_items env stack_empty max_end n i [] pos agg leaf = Some (pos, agg, leaf, None)"
| "scan_items env stack_empty max_end n i ((x, s) # rest) pos agg leaf =
     (let at_last = (i = n - 1);
          child_end0 = add_summary (se_S env) (fst pos) s;
          child_end = (if at_last then max child_end0 max_end else child_end0);
          beyond = target_beyond env at_last child_end
      in if (stack_empty \<or> \<not> at_last) \<and> beyond then
           aggregate_item env agg leaf x s \<bind> (\<lambda>(agg', leaf').
           scan_items env stack_empty max_end n (i + 1) rest (advance (se_S env) (se_U env) pos s) agg' leaf')
         else Some (if beyond then advance (se_S env) (se_U env) pos s else pos,
                    agg, leaf, Some (i, beyond)))"

lemma scan_children_found:
  "scan_children env b m n i ps pos agg = Some (pos', agg', Some (j, child, bd)) \<Longrightarrow> child \<in> fst ` set ps"
  by (induction env b m n i ps pos agg rule: scan_children.induct)
    (auto simp: Let_def split: if_splits bind_splits)

lemma scan_children_size [termination_simp]:
  assumes "scan_children env b m n i (zip cts css) pos agg = Some (pos', agg', Some (j, child, bd))"
  shows "size child < Suc (length css + size_list size cts)"
proof -
  have "child \<in> set cts"
    using scan_children_found [OF assms] by (auto dest: set_zip_leftD)
  then show ?thesis by (induction cts) auto
qed

fun seek_descend ::
  "('d::linorder, 'u, 'e, 's::{zero,plus}) seek_env \<Rightarrow> ('a, 's) sum_tree
    \<Rightarrow> ('a, 's, 'd, 'u) stack_entry list \<Rightarrow> 'd \<times> 'u \<Rightarrow> ('a, 's, 'e) seek_aggregate \<Rightarrow> bool
    \<Rightarrow> (('a, 's, 'd, 'u) stack_entry list \<times> ('d \<times> 'u) \<times> ('a, 's, 'e) seek_aggregate \<times> bool) option" where
  "seek_descend env (Internal h s css cts) stack pos agg after =
     scan_children env (stack = []) (add_summary (se_S env) (fst pos) s) (length cts) 0 (zip cts css) pos agg \<bind>
       (\<lambda>(pos', agg', found). case found of
          None \<Rightarrow> Some (stack, pos', agg', after)
        | Some (i, child, beyond) \<Rightarrow>
            push_entry stack (mk_entry (Internal h s css cts) i pos') \<bind> (\<lambda>stack'.
            seek_descend env child stack' pos' agg' (after \<or> beyond)))"
| "seek_descend env (Leaf s xs ss) stack pos agg after =
     scan_items env (stack = []) (add_summary (se_S env) (fst pos) s) (length xs) 0 (zip xs ss) pos agg (0, [], []) \<bind>
       (\<lambda>(pos', agg', leaf, found).
          (case found of
             None \<Rightarrow> Some (stack, after)
           | Some (i, beyond) \<Rightarrow>
               map_option (\<lambda>stack'. (stack', after \<or> beyond)) (push_entry stack (mk_entry (Leaf s xs ss) i pos'))) \<bind>
          (\<lambda>(stack', after'). flush_nonempty agg' leaf \<bind> (\<lambda>agg''.
             Some (stack', pos', agg'', after'))))"

definition seek_internal ::
  "('d::linorder, 'u, 'e, 's::{zero,plus}) seek_env \<Rightarrow> ('a, 's, 'e) seek_aggregate
    \<Rightarrow> ('a, 's, 'd, 'u) cursor \<Rightarrow> (bool \<times> ('a, 's, 'e) seek_aggregate \<times> ('a, 's, 'd, 'u) cursor) option" where
  "seek_internal env agg c =
     (let pos = (cur_seek c, cur_sum c) in
      (if did_seek c then unwind env (cur_stack c) pos agg
       else Some (cur_stack c, pos, agg, Some (cur_tree c))) \<bind> (\<lambda>(stack, pos, agg, containing).
      (case containing of
         None \<Rightarrow> Some (stack, pos, agg, False)
       | Some t \<Rightarrow> seek_descend env t stack pos agg False) \<bind> (\<lambda>(stack, pos, agg, after).
      let c1 = (set_place c stack pos)\<lparr>did_seek := True\<rparr> in
      if after then
        cursor_next (se_S env) (se_U env) c1 \<bind> (\<lambda>c2. Some (se_target env = cur_seek c2, agg, c2))
      else
        let c2 = c1\<lparr>at_end := (stack = [])\<rparr> in
        (if se_bias env = SeekLeft then
           end_seek_position (se_S env) c2 \<bind> (\<lambda>e. Some (se_target env = e, agg, c2))
         else Some (se_target env = cur_seek c2, agg, c2)))))"

text \<open>The dimension \<open>()\<close>.\<close>

definition unit_dimension :: "(unit, 's) dimension" where
  "unit_dimension = \<lparr>dim_default = (), add_summary = (\<lambda>_ _. ())\<rparr>"

definition cursor_seek ::
  "('d::linorder, 's::{zero,plus}) dimension \<Rightarrow> ('u, 's) dimension \<Rightarrow> 'd \<Rightarrow> seek_bias
    \<Rightarrow> ('a, 's, 'd, 'u) cursor \<Rightarrow> (bool \<times> ('a, 's, 'd, 'u) cursor) option" where
  "cursor_seek DS DU pos bias c =
     map_option (\<lambda>(found, agg, c'). (found, c'))
       (seek_internal \<lparr>se_S = DS, se_U = DU, se_D = unit_dimension, se_target = pos, se_bias = bias,
          se_clamp = ClampNo\<rparr> AggNone (cursor_reset DS DU c))"

definition cursor_seek_clamped ::
  "('d::linorder, 's::{zero,plus}) dimension \<Rightarrow> ('u, 's) dimension \<Rightarrow> 'd \<Rightarrow> seek_bias
    \<Rightarrow> ('a, 's, 'd, 'u) cursor \<Rightarrow> ('a, 's, 'd, 'u) cursor option" where
  "cursor_seek_clamped DS DU pos bias c =
     map_option (\<lambda>(found, agg, c'). c')
       (seek_internal \<lparr>se_S = DS, se_U = DU, se_D = unit_dimension, se_target = pos, se_bias = bias,
          se_clamp = ClampYes\<rparr> AggNone (cursor_reset DS DU c))"

fun aggregate_slice :: "('a, 's, 'e) seek_aggregate \<Rightarrow> ('a, 's) sum_tree option" where
  "aggregate_slice (AggSlice t) = Some t"
| "aggregate_slice agg = None"

fun aggregate_summary :: "('a, 's, 'e) seek_aggregate \<Rightarrow> 'e option" where
  "aggregate_summary (AggSummary d) = Some d"
| "aggregate_summary agg = None"

definition cursor_slice ::
  "('d::linorder, 's::{zero,plus}) dimension \<Rightarrow> ('u, 's) dimension \<Rightarrow> 'd \<Rightarrow> seek_bias
    \<Rightarrow> ('a, 's, 'd, 'u) cursor \<Rightarrow> (('a, 's) sum_tree \<times> ('a, 's, 'd, 'u) cursor) option" where
  "cursor_slice DS DU end_pos bias c =
     seek_internal \<lparr>se_S = DS, se_U = DU, se_D = unit_dimension, se_target = end_pos, se_bias = bias,
          se_clamp = ClampNo\<rparr> (AggSlice new_tree) c \<bind>
       (\<lambda>(found, agg, c'). aggregate_slice agg \<bind> (\<lambda>t. Some (t, c')))"

definition cursor_suffix ::
  "('d::linorder, 's::{zero,plus}) dimension \<Rightarrow> ('u, 's) dimension
    \<Rightarrow> ('a, 's, 'd, 'u) cursor \<Rightarrow> (('a, 's) sum_tree \<times> ('a, 's, 'd, 'u) cursor) option" where
  "cursor_suffix DS DU c = cursor_slice DS DU (extent DS (cur_tree c)) SeekRight c"

definition cursor_summary ::
  "('d::linorder, 's::{zero,plus}) dimension \<Rightarrow> ('u, 's) dimension \<Rightarrow> ('e, 's) dimension \<Rightarrow> 'd \<Rightarrow> seek_bias
    \<Rightarrow> ('a, 's, 'd, 'u) cursor \<Rightarrow> ('e \<times> ('a, 's, 'd, 'u) cursor) option" where
  "cursor_summary DS DU D end_pos bias c =
     seek_internal \<lparr>se_S = DS, se_U = DU, se_D = D, se_target = end_pos, se_bias = bias,
          se_clamp = ClampNo\<rparr> (AggSummary (dim_default D)) c \<bind>
       (\<lambda>(found, agg, c'). aggregate_summary agg \<bind> (\<lambda>d. Some (d, c')))"

end
