(* ===== verification/Sum_Seek.thy ===== *)
theory Sum_Seek imports Sum_Cursor begin

text \<open>
  Correctness of the cursor: the list position a cursor stands for, and what seeking,
  slicing and stepping do to it.  Everything is proved against the two laws a
  \<open>Dimension\<close> has to obey, stated as locales.
\<close>

section \<open>Dimensions\<close>

locale additive_dimension =
  fixes D :: "('d, 's::monoid_add) dimension"
  assumes add_zero: "add_summary D d 0 = d"
    and add_plus: "add_summary D d (a + b) = add_summary D (add_summary D d a) b"
begin

lemma foldl_add: "foldl (add_summary D) d ss = add_summary D d (sum_list ss)"
  by (induction ss arbitrary: d) (simp_all add: add_zero add_plus)

end

locale seek_dimension = additive_dimension D
  for D :: "('d::linorder, 's::monoid_add) dimension" +
  assumes add_mono: "d \<le> add_summary D d s"

definition tally :: "('a \<Rightarrow> 's::monoid_add) \<Rightarrow> 'a list \<Rightarrow> 's" where
  "tally summ xs = sum_list (map summ xs)"

lemma tally_simps [simp]:
  "tally summ [] = 0" "tally summ (x # xs) = summ x + tally summ xs"
  "tally summ (xs @ ys) = tally summ xs + tally summ ys"
  by (simp_all add: tally_def)

lemma summary_tally: "wf_tree summ t \<Longrightarrow> summary t = tally summ (tree_items t)"
  by (simp add: summary_wf tally_def)

text \<open>The value of a dimension after the items \<open>xs\<close>, from the default.\<close>

definition measure_of :: "('d, 's::monoid_add) dimension \<Rightarrow> ('a \<Rightarrow> 's) \<Rightarrow> 'a list \<Rightarrow> 'd" where
  "measure_of D summ xs = add_summary D (dim_default D) (tally summ xs)"

section \<open>Where a stack stands\<close>

fun left_of :: "('a, 's) sum_tree \<Rightarrow> nat \<Rightarrow> 'a list" where
  "left_of (Leaf s xs ss) i = take i xs"
| "left_of (Internal h s css cts) i = concat (map tree_items (take i cts))"

fun right_of :: "('a, 's) sum_tree \<Rightarrow> nat \<Rightarrow> 'a list" where
  "right_of (Leaf s xs ss) i = drop i xs"
| "right_of (Internal h s css cts) i = concat (map tree_items (drop (Suc i) cts))"

fun before :: "('a, 's, 'd, 'u) stack_entry list \<Rightarrow> 'a list" where
  "before [] = []"
| "before (e # stack) = before stack @ left_of (entry_tree e) (entry_index e)"

fun after :: "('a, 's, 'd, 'u) stack_entry list \<Rightarrow> 'a list" where
  "after [] = []"
| "after (e # stack) = right_of (entry_tree e) (entry_index e) @ after stack"

text \<open>\<open>chain T stack t\<close>: following the indices of \<open>stack\<close> from the root \<open>T\<close> leads to \<open>t\<close>.\<close>

fun chain ::
  "('a, 's) sum_tree \<Rightarrow> ('a, 's, 'd, 'u) stack_entry list \<Rightarrow> ('a, 's) sum_tree \<Rightarrow> bool" where
  "chain T [] t \<longleftrightarrow> t = T"
| "chain T (e # stack) t \<longleftrightarrow> chain T stack (entry_tree e) \<and>
     (case entry_tree e of
        Internal h s css cts \<Rightarrow> entry_index e < length cts \<and> t = cts ! entry_index e
      | Leaf s xs ss \<Rightarrow> False)"

text \<open>A stack with a position: its top is a leaf and points at one of its items.\<close>

definition path :: "('a, 's) sum_tree \<Rightarrow> ('a, 's, 'd, 'u) stack_entry list \<Rightarrow> bool" where
  "path T stack \<longleftrightarrow> (\<exists>e rest s xs ss. stack = e # rest \<and> entry_tree e = Leaf s xs ss \<and>
     entry_index e < length xs \<and> chain T rest (entry_tree e))"

lemma split_child:
  assumes "i < length cts"
  shows "concat (map tree_items (take i cts)) @ tree_items (cts ! i) @ concat (map tree_items (drop (Suc i) cts)) =
    concat (map tree_items cts)"
proof -
  have "concat (map tree_items cts) = concat (map tree_items (take i cts @ cts ! i # drop (Suc i) cts))"
    by (rule arg_cong [OF id_take_nth_drop [OF assms]])
  also have "\<dots> = concat (map tree_items (take i cts)) @ tree_items (cts ! i) @
      concat (map tree_items (drop (Suc i) cts))"
    by (simp only: map_append concat_append list.map concat.simps)
  finally show ?thesis by (rule sym)
qed

lemma chain_items: "chain T stack t \<Longrightarrow> before stack @ tree_items t @ after stack = tree_items T"
proof (induction stack arbitrary: t)
  case (Cons e stack)
  then obtain h s css cts where e: "entry_tree e = Internal h s css cts"
      "entry_index e < length cts" "t = cts ! entry_index e"
    by (auto split: sum_tree.splits)
  have "before stack @ tree_items (entry_tree e) @ after stack = tree_items T"
    using Cons by simp
  with e show ?case
    by (simp add: split_child [OF e(2), symmetric])
qed simp

lemma chain_wf: "chain T stack t \<Longrightarrow> wf_tree summ T \<Longrightarrow>
    wf_tree summ t \<and> height t + length stack = height T \<and> (stack \<noteq> [] \<longrightarrow> tree_items t \<noteq> [])"
proof (induction stack arbitrary: t)
  case (Cons e stack)
  then obtain h s css cts where e: "entry_tree e = Internal h s css cts"
      "entry_index e < length cts" "t = cts ! entry_index e"
    by (auto split: sum_tree.splits)
  then have t: "t \<in> set cts" by simp
  have "wf_tree summ (entry_tree e)" "height (entry_tree e) + length stack = height T"
    using Cons by auto
  with e t show ?case by auto
qed simp

lemma path_items:
  assumes "path T stack"
  shows "before stack @ after stack = tree_items T" "after stack \<noteq> []"
proof -
  from assms obtain e rest s xs ss where p: "stack = e # rest" "entry_tree e = Leaf s xs ss"
      "entry_index e < length xs" "chain T rest (entry_tree e)"
    by (auto simp: path_def)
  have "before rest @ xs @ after rest = tree_items T"
    using chain_items [OF p(4)] p(2) by simp
  moreover have "xs @ ys = take (entry_index e) xs @ drop (entry_index e) xs @ ys" for ys
    by (metis append_assoc append_take_drop_id)
  ultimately show "before stack @ after stack = tree_items T"
    using p by simp
  from p show "after stack \<noteq> []" by simp
qed

text \<open>What a cursor that stands before the \<open>n\<close>-th item of the tree looks like.\<close>

definition cursor_at ::
  "('d, 's::monoid_add) dimension \<Rightarrow> ('u, 's) dimension \<Rightarrow> ('a \<Rightarrow> 's) \<Rightarrow> nat
    \<Rightarrow> ('a, 's, 'd, 'u) cursor \<Rightarrow> bool" where
  "cursor_at DS DU summ n c \<longleftrightarrow>
     (let xs = tree_items (cur_tree c) in
      n \<le> length xs \<and> did_seek c \<and>
      cur_seek c = measure_of DS summ (take n xs) \<and> cur_sum c = measure_of DU summ (take n xs) \<and>
      (if n < length xs then path (cur_tree c) (cur_stack c) \<and> before (cur_stack c) = take n xs \<and> \<not> at_end c
       else cur_stack c = [] \<and> at_end c))"

section \<open>The number of items a seek passes\<close>

definition passes :: "('d::linorder) \<Rightarrow> seek_bias \<Rightarrow> 'd \<Rightarrow> bool" where
  "passes target bias e \<longleftrightarrow> e < target \<or> (target = e \<and> bias = SeekRight)"

fun passed ::
  "('d::linorder, 's) dimension \<Rightarrow> ('a \<Rightarrow> 's) \<Rightarrow> 'd \<Rightarrow> seek_bias \<Rightarrow> 'd \<Rightarrow> 'a list \<Rightarrow> nat" where
  "passed D summ target bias d [] = 0"
| "passed D summ target bias d (x # xs) =
     (if passes target bias (add_summary D d (summ x))
      then Suc (passed D summ target bias (add_summary D d (summ x)) xs) else 0)"

lemma passed_le: "passed D summ target bias d xs \<le> length xs"
  by (induction xs arbitrary: d) auto

lemma passes_antimono: "e \<le> e' \<Longrightarrow> passes target bias e' \<Longrightarrow> passes target bias e"
  by (auto simp: passes_def)

lemma target_beyond_eq [simp]:
  "se_clamp env = ClampNo \<Longrightarrow> target_beyond env at_last e = passes (se_target env) (se_bias env) e"
  by (simp add: target_beyond_def passes_def Let_def)

context seek_dimension
begin

lemma add_total_mono: "d \<le> add_summary D d (tally summ xs)"
  by (rule add_mono)

lemma passed_append_all:
  "passes target bias (add_summary D d (tally summ xs)) \<Longrightarrow>
    passed D summ target bias d (xs @ ys) =
      length xs + passed D summ target bias (add_summary D d (tally summ xs)) ys"
proof (induction xs arbitrary: d)
  case (Cons x xs)
  let ?d = "add_summary D d (summ x)"
  have e: "add_summary D d (tally summ (x # xs)) = add_summary D ?d (tally summ xs)"
    by (simp add: add_plus)
  have "passes target bias ?d"
    using Cons.prems add_mono [of ?d] unfolding e by (rule passes_antimono [rotated])
  with Cons.IH [of ?d] Cons.prems e show ?case by simp
qed (simp add: add_zero)

lemma passed_append_stop:
  "\<not> passes target bias (add_summary D d (tally summ xs)) \<Longrightarrow> xs \<noteq> [] \<Longrightarrow>
    passed D summ target bias d (xs @ ys) = passed D summ target bias d xs \<and>
    passed D summ target bias d xs < length xs"
proof (induction xs arbitrary: d)
  case (Cons x xs)
  let ?d = "add_summary D d (summ x)"
  have e: "add_summary D d (tally summ (x # xs)) = add_summary D ?d (tally summ xs)"
    by (simp add: add_plus)
  show ?case
  proof (cases "xs = []")
    case True
    with Cons.prems show ?thesis by (auto simp: add_zero)
  next
    case False
    with Cons.IH [of ?d] Cons.prems e show ?thesis by auto
  qed
qed simp

lemma passed_prefix_total:
  "passed D summ target bias d xs = length xs \<Longrightarrow> xs \<noteq> [] \<Longrightarrow>
    passes target bias (add_summary D d (tally summ xs))"
  using passed_append_stop [of target bias d summ xs "[]"] by auto

end

section \<open>Aggregates\<close>

fun agg_ok :: "('a \<Rightarrow> 's::monoid_add) \<Rightarrow> ('a, 's, 'e) seek_aggregate \<Rightarrow> bool" where
  "agg_ok summ (AggSlice t) \<longleftrightarrow> wf_tree summ t"
| "agg_ok summ agg \<longleftrightarrow> True"

text \<open>\<open>agg_add D summ agg xs agg'\<close>: \<open>agg'\<close> is \<open>agg\<close> after collecting the items \<open>xs\<close>.\<close>

fun agg_add ::
  "('e, 's::monoid_add) dimension \<Rightarrow> ('a \<Rightarrow> 's) \<Rightarrow> ('a, 's, 'e) seek_aggregate \<Rightarrow> 'a list
    \<Rightarrow> ('a, 's, 'e) seek_aggregate \<Rightarrow> bool" where
  "agg_add D summ AggNone xs AggNone \<longleftrightarrow> True"
| "agg_add D summ (AggSlice t) xs (AggSlice t') \<longleftrightarrow> tree_items t' = tree_items t @ xs"
| "agg_add D summ (AggSummary d) xs (AggSummary d') \<longleftrightarrow> d' = add_summary D d (tally summ xs)"
| "agg_add D summ agg xs agg' \<longleftrightarrow> False"

text \<open>The state of the loop over a leaf that has passed the items \<open>zs\<close>.\<close>

fun leaf_state ::
  "('e, 's::monoid_add) dimension \<Rightarrow> ('a \<Rightarrow> 's) \<Rightarrow> ('a, 's, 'e) seek_aggregate \<Rightarrow> 'a list
    \<Rightarrow> ('a, 's, 'e) seek_aggregate \<Rightarrow> ('a, 's) slice_leaf \<Rightarrow> bool" where
  "leaf_state D summ (AggSlice t) zs agg leaf \<longleftrightarrow>
     agg = AggSlice t \<and> leaf = (tally summ zs, zs, map summ zs)"
| "leaf_state D summ agg0 zs agg leaf \<longleftrightarrow> agg_add D summ agg0 zs agg \<and> leaf = (0, [], [])"

locale seeking = S: seek_dimension DS + U: additive_dimension DU + E: additive_dimension DE
  for DS :: "('d::linorder, 's::monoid_add) dimension"
    and DU :: "('u, 's) dimension"
    and DE :: "('e, 's) dimension" +
  fixes summ :: "'a \<Rightarrow> 's"
begin

lemma agg_add_refl: "agg_ok summ agg \<Longrightarrow> agg_add DE summ agg [] agg"
  by (cases agg) (simp_all add: E.add_zero)

lemma agg_add_trans:
  "agg_add DE summ a xs b \<Longrightarrow> agg_add DE summ b ys c \<Longrightarrow> agg_add DE summ a (xs @ ys) c"
  by (cases a; cases b; cases c) (simp_all add: E.add_plus)

lemma aggregate_tree_total:
  assumes "se_D env = DE" "agg_ok summ agg" "wf_tree summ t"
  obtains agg' where "aggregate_tree env agg t (summary t) = Some agg'" "agg_ok summ agg'"
    "agg_add DE summ agg (tree_items t) agg'"
proof (cases agg)
  case (AggSlice sl)
  with assms that show ?thesis
    using tree_seq.app_total [of summ sl t] by (force simp: aggregate_tree_def)
qed (use assms that in \<open>force simp: aggregate_tree_def summary_tally\<close>)+

lemma aggregate_item_total:
  assumes "se_D env = DE" "leaf_state DE summ agg0 zs agg leaf" "length zs < 2 * TREE_BASE"
  obtains agg' leaf' where "aggregate_item env agg leaf x (summ x) = Some (agg', leaf')"
    "leaf_state DE summ agg0 (zs @ [x]) agg' leaf'"
proof (cases agg0)
  case (AggSummary d)
  with assms(2) obtain d' where "agg = AggSummary d'" by (cases agg) auto
  with AggSummary assms show ?thesis
    using that [of "AggSummary (add_summary DE d' (summ x))" leaf] by (simp add: E.add_plus E.add_zero)
next
  case AggNone
  with assms(2) have "agg = AggNone" by (cases agg) auto
  with AggNone assms show ?thesis using that [of AggNone leaf] by simp
next
  case (AggSlice t)
  with assms show ?thesis
    using that [of "AggSlice t" "(tally summ zs + summ x, zs @ [x], map summ zs @ [summ x])"]
    by (simp add: panic_simps)
qed

lemma flush_total:
  assumes "agg_ok summ agg0" "leaf_state DE summ agg0 zs agg leaf" "length zs \<le> 2 * TREE_BASE"
  obtains agg' where "flush_leaf agg leaf = Some agg'" "flush_nonempty agg leaf = Some agg'"
    "agg_ok summ agg'" "agg_add DE summ agg0 zs agg'"
proof (cases agg0)
  case (AggSummary d)
  with assms(2) obtain d' where "agg = AggSummary d'" by (cases agg) auto
  with AggSummary assms show ?thesis using that [of agg] by (simp add: flush_nonempty_def)
next
  case AggNone
  with assms(2) have "agg = AggNone" by (cases agg) auto
  with AggNone assms show ?thesis using that [of agg] by (simp add: flush_nonempty_def)
next
  case (AggSlice t)
  let ?l = "Leaf (tally summ zs) zs (map summ zs)"
  have "wf_tree summ ?l" using assms(3) by (simp add: tally_def)
  with AggSlice assms(1) obtain t' where t': "push_tree t ?l = Some t'" "wf_tree summ t'"
      "tree_items t' = tree_items t @ zs"
    using tree_seq.app_some [of summ t ?l] by auto
  moreover have "t' = t" if "zs = []"
    using that t'(1) by (simp add: push_tree.simps)
  ultimately show ?thesis
    using AggSlice assms(2) that [of "AggSlice t'"] by (auto simp: flush_nonempty_def)
qed

definition pos_add :: "'d \<times> 'u \<Rightarrow> 'a list \<Rightarrow> 'd \<times> 'u" where
  "pos_add pos xs = (add_summary DS (fst pos) (tally summ xs), add_summary DU (snd pos) (tally summ xs))"

lemma pos_add_Nil [simp]: "pos_add pos [] = pos"
  by (simp add: pos_add_def S.add_zero U.add_zero)

lemma pos_add_append: "pos_add (pos_add pos xs) ys = pos_add pos (xs @ ys)"
  by (simp add: pos_add_def S.add_plus U.add_plus)

lemma fst_pos_add: "fst (pos_add pos xs) = add_summary DS (fst pos) (tally summ xs)"
  by (simp add: pos_add_def)

lemma advance_tree: "wf_tree summ t \<Longrightarrow> advance DS DU pos (summary t) = pos_add pos (tree_items t)"
  by (cases pos) (simp add: pos_add_def summary_tally)

lemma advance_item: "advance DS DU pos (summ x) = pos_add pos [x]"
  by (cases pos) (simp add: pos_add_def)

definition env :: "'d \<Rightarrow> seek_bias \<Rightarrow> ('d, 'u, 'e, 's) seek_env" where
  "env target bias = \<lparr>se_S = DS, se_U = DU, se_D = DE, se_target = target, se_bias = bias,
     se_clamp = ClampNo\<rparr>"

lemma env_simps [simp]:
  "se_S (env target bias) = DS" "se_U (env target bias) = DU" "se_D (env target bias) = DE"
  "se_target (env target bias) = target" "se_bias (env target bias) = bias"
  "se_clamp (env target bias) = ClampNo"
  by (simp_all add: env_def)

abbreviation count :: "'d \<Rightarrow> seek_bias \<Rightarrow> 'd \<times> 'u \<Rightarrow> 'a list \<Rightarrow> nat" where
  "count target bias pos xs \<equiv> passed DS summ target bias (fst pos) xs"

lemma count_pass:
  "passes target bias (fst (pos_add pos xs)) \<Longrightarrow>
    count target bias pos (xs @ ys) = length xs + count target bias (pos_add pos xs) ys"
  by (simp add: fst_pos_add S.passed_append_all)

lemma count_stop:
  assumes "\<not> passes target bias (fst (pos_add pos xs))" "xs \<noteq> []"
  shows "count target bias pos (xs @ ys) = count target bias pos xs"
    and "count target bias pos xs < length xs"
  using S.passed_append_stop [of target bias "fst pos" summ xs ys] assms by (simp_all add: fst_pos_add)

end

section \<open>Seeking\<close>

context seeking
begin

abbreviation nodes_ok :: "('a, 's) sum_tree list \<Rightarrow> bool" where
  "nodes_ok cts \<equiv> (\<forall>t \<in> set cts. wf_tree summ t \<and> tree_items t \<noteq> [])"

text \<open>
  One loop over the children of a node: the first \<open>k\<close> of them are passed and collected;
  then either the loop is done or child \<open>k\<close> holds the target.
\<close>

definition loop_result where
  "loop_result target bias cts pos agg pos' agg' found \<longleftrightarrow>
     agg_ok summ agg' \<and>
     (case found of
        None \<Rightarrow>
          agg_add DE summ agg (concat (map tree_items cts)) agg' \<and>
          pos' = pos_add pos (concat (map tree_items cts)) \<and>
          (cts \<noteq> [] \<longrightarrow> passes target bias (fst pos'))
      | Some k \<Rightarrow>
          k < length cts \<and> agg_add DE summ agg (concat (map tree_items (take k cts))) agg' \<and>
          pos' = pos_add pos (concat (map tree_items (take k cts))) \<and>
          (k \<noteq> 0 \<longrightarrow> passes target bias (fst pos')) \<and>
          \<not> passes target bias (fst (pos_add pos' (tree_items (cts ! k)))))"

lemma loop_result_step:
  assumes "agg_add DE summ agg (tree_items c) agg1"
    and "passes target bias (fst (pos_add pos (tree_items c)))"
    and "loop_result target bias cts (pos_add pos (tree_items c)) agg1 pos' agg' found"
  shows "loop_result target bias (c # cts) pos agg pos' agg' (map_option Suc found)"
  using assms agg_add_trans [OF assms(1)]
  by (cases found) (auto simp: loop_result_def pos_add_append)

lemma unwind_children_result:
  assumes "nodes_ok cts" "agg_ok summ agg"
  shows "\<exists>pos' agg' found.
    unwind_children (env target bias) n i (zip cts (map summary cts)) pos agg =
      Some (i + (case found of None \<Rightarrow> length cts | Some k \<Rightarrow> k), pos', agg', map_option (nth cts) found) \<and>
    loop_result target bias cts pos agg pos' agg' found"
  using assms
proof (induction cts arbitrary: i pos agg)
  case Nil
  then show ?case
    by (intro exI [of _ pos] exI [of _ agg] exI [of _ None]) (simp add: loop_result_def agg_add_refl)
next
  case (Cons c cts)
  have c: "wf_tree summ c" and end_c: "add_summary DS (fst pos) (summary c) = fst (pos_add pos (tree_items c))"
    using Cons.prems by (auto simp: fst_pos_add summary_tally)
  show ?case
  proof (cases "passes target bias (fst (pos_add pos (tree_items c)))")
    case True
    obtain agg1 where agg1: "aggregate_tree (env target bias) agg c (summary c) = Some agg1"
        "agg_ok summ agg1" "agg_add DE summ agg (tree_items c) agg1"
      using aggregate_tree_total [of "env target bias" agg c] Cons.prems c by auto
    obtain pos' agg' found where r:
        "unwind_children (env target bias) n (Suc i) (zip cts (map summary cts)) (pos_add pos (tree_items c)) agg1 =
          Some (Suc i + (case found of None \<Rightarrow> length cts | Some k \<Rightarrow> k), pos', agg', map_option (nth cts) found)"
        "loop_result target bias cts (pos_add pos (tree_items c)) agg1 pos' agg' found"
      using Cons.IH [of agg1 "Suc i" "pos_add pos (tree_items c)"] Cons.prems agg1 by auto
    show ?thesis
      using loop_result_step [OF agg1(3) True r(2)] r(1) True agg1(1) c end_c
      by (intro exI [of _ pos'] exI [of _ agg'] exI [of _ "map_option Suc found"])
        (cases found; simp add: advance_tree)
  next
    case False
    with end_c Cons.prems show ?thesis
      by (intro exI [of _ pos] exI [of _ agg] exI [of _ "Some 0"]) (simp add: loop_result_def agg_add_refl)
  qed
qed

lemma scan_children_result:
  assumes "nodes_ok cts" "agg_ok summ agg" "n = i + length cts"
    and "max_end = fst (pos_add pos (concat (map tree_items cts)))"
    and "stack_empty \<or> \<not> passes target bias max_end"
  shows "\<exists>pos' agg' found.
    scan_children (env target bias) stack_empty max_end n i (zip cts (map summary cts)) pos agg =
      Some (pos', agg', map_option (\<lambda>k. (i + k, cts ! k, False)) found) \<and>
    loop_result target bias cts pos agg pos' agg' found"
  using assms
proof (induction cts arbitrary: i pos agg)
  case Nil
  then show ?case
    by (intro exI [of _ pos] exI [of _ agg] exI [of _ None]) (simp add: loop_result_def agg_add_refl)
next
  case (Cons c cts)
  let ?e = "fst (pos_add pos (tree_items c))"
  have c: "wf_tree summ c" and end_c: "add_summary DS (fst pos) (summary c) = ?e"
    using Cons.prems by (auto simp: fst_pos_add summary_tally)
  have last: "i = n - 1 \<longleftrightarrow> cts = []" using Cons.prems(3) by auto
  have end_eq: "(if i = n - 1 then max ?e max_end else ?e) = ?e"
    using last Cons.prems(4) by simp
  show ?case
  proof (cases "passes target bias ?e")
    case True
    have go: "stack_empty \<or> i \<noteq> n - 1"
      using True Cons.prems(4,5) last by auto
    obtain agg1 where agg1: "aggregate_tree (env target bias) agg c (summary c) = Some agg1"
        "agg_ok summ agg1" "agg_add DE summ agg (tree_items c) agg1"
      using aggregate_tree_total [of "env target bias" agg c] Cons.prems c by auto
    obtain pos' agg' found where r:
        "scan_children (env target bias) stack_empty max_end n (Suc i) (zip cts (map summary cts))
            (pos_add pos (tree_items c)) agg1 =
          Some (pos', agg', map_option (\<lambda>k. (Suc i + k, cts ! k, False)) found)"
        "loop_result target bias cts (pos_add pos (tree_items c)) agg1 pos' agg' found"
      using Cons.IH [of agg1 "Suc i" "pos_add pos (tree_items c)"] Cons.prems agg1
      by (auto simp: pos_add_append)
    show ?thesis
      using loop_result_step [OF agg1(3) True r(2)] r(1) True agg1(1) c end_c end_eq go
      by (intro exI [of _ pos'] exI [of _ agg'] exI [of _ "map_option Suc found"])
        (cases found; simp add: advance_tree Let_def)
  next
    case False
    with end_c end_eq Cons.prems(1,2) show ?thesis
      by (intro exI [of _ pos] exI [of _ agg] exI [of _ "Some 0"])
        (simp add: loop_result_def agg_add_refl Let_def)
  qed
qed

text \<open>The same for the items of a leaf, with the items \<open>zs\<close> already in the slice's leaf.\<close>

definition leaf_result where
  "leaf_result target bias agg0 zs xs pos pos' agg' leaf' found \<longleftrightarrow>
     (case found of
        None \<Rightarrow> leaf_state DE summ agg0 (zs @ xs) agg' leaf' \<and> pos' = pos_add pos xs \<and>
          (xs \<noteq> [] \<longrightarrow> passes target bias (fst pos'))
      | Some k \<Rightarrow>
          k < length xs \<and> leaf_state DE summ agg0 (zs @ take k xs) agg' leaf' \<and>
          pos' = pos_add pos (take k xs) \<and>
          (k \<noteq> 0 \<longrightarrow> passes target bias (fst pos')) \<and>
          \<not> passes target bias (fst (pos_add pos' [xs ! k])))"

lemma leaf_result_step:
  assumes "passes target bias (fst (pos_add pos [x]))"
    and "leaf_result target bias agg0 (zs @ [x]) xs (pos_add pos [x]) pos' agg' leaf' found"
  shows "leaf_result target bias agg0 zs (x # xs) pos pos' agg' leaf' (map_option Suc found)"
  using assms by (cases found) (auto simp: leaf_result_def pos_add_append)

lemma unwind_items_result:
  assumes "leaf_state DE summ agg0 zs agg leaf" "length zs + length xs \<le> 2 * TREE_BASE"
  shows "\<exists>pos' agg' leaf' found.
    unwind_items (env target bias) n i (zip xs (map summ xs)) pos agg leaf =
      Some (i + (case found of None \<Rightarrow> length xs | Some k \<Rightarrow> k), pos', agg', leaf', found \<noteq> None) \<and>
    leaf_result target bias agg0 zs xs pos pos' agg' leaf' found"
  using assms
proof (induction xs arbitrary: i pos agg leaf zs)
  case Nil
  then show ?case
    by (intro exI [of _ pos] exI [of _ agg] exI [of _ leaf] exI [of _ None]) (simp add: leaf_result_def)
next
  case (Cons x xs)
  have end_x: "add_summary DS (fst pos) (summ x) = fst (pos_add pos [x])"
    by (simp add: fst_pos_add)
  show ?case
  proof (cases "passes target bias (fst (pos_add pos [x]))")
    case True
    obtain agg1 leaf1 where a1: "aggregate_item (env target bias) agg leaf x (summ x) = Some (agg1, leaf1)"
        "leaf_state DE summ agg0 (zs @ [x]) agg1 leaf1"
      by (rule aggregate_item_total [of "env target bias" agg0 zs agg leaf x]) (use Cons.prems in auto)
    obtain pos' agg' leaf' found where r:
        "unwind_items (env target bias) n (Suc i) (zip xs (map summ xs)) (pos_add pos [x]) agg1 leaf1 =
          Some (Suc i + (case found of None \<Rightarrow> length xs | Some k \<Rightarrow> k), pos', agg', leaf', found \<noteq> None)"
        "leaf_result target bias agg0 (zs @ [x]) xs (pos_add pos [x]) pos' agg' leaf' found"
      using Cons.IH [OF a1(2), of "Suc i" "pos_add pos [x]"] Cons.prems by auto
    show ?thesis
      using leaf_result_step [OF True r(2)] r(1) True a1(1) end_x
      by (intro exI [of _ pos'] exI [of _ agg'] exI [of _ leaf'] exI [of _ "map_option Suc found"])
        (cases found; simp add: advance_item)
  next
    case False
    with end_x Cons.prems show ?thesis
      by (intro exI [of _ pos] exI [of _ agg] exI [of _ leaf] exI [of _ "Some 0"]) (simp add: leaf_result_def)
  qed
qed

lemma scan_items_result:
  assumes "leaf_state DE summ agg0 zs agg leaf" "length zs + length xs \<le> 2 * TREE_BASE" "n = i + length xs"
    and "max_end = fst (pos_add pos xs)"
    and "stack_empty \<or> \<not> passes target bias max_end"
  shows "\<exists>pos' agg' leaf' found.
    scan_items (env target bias) stack_empty max_end n i (zip xs (map summ xs)) pos agg leaf =
      Some (pos', agg', leaf', map_option (\<lambda>k. (i + k, False)) found) \<and>
    leaf_result target bias agg0 zs xs pos pos' agg' leaf' found"
  using assms
proof (induction xs arbitrary: i pos agg leaf zs)
  case Nil
  then show ?case
    by (intro exI [of _ pos] exI [of _ agg] exI [of _ leaf] exI [of _ None]) (simp add: leaf_result_def)
next
  case (Cons x xs)
  let ?e = "fst (pos_add pos [x])"
  have end_x: "add_summary DS (fst pos) (summ x) = ?e"
    by (simp add: fst_pos_add)
  have last: "i = n - 1 \<longleftrightarrow> xs = []" using Cons.prems(3) by auto
  have end_eq: "(if i = n - 1 then max ?e max_end else ?e) = ?e"
    using last Cons.prems(4) by simp
  show ?case
  proof (cases "passes target bias ?e")
    case True
    have go: "stack_empty \<or> i \<noteq> n - 1"
      using True Cons.prems(4,5) last by auto
    obtain agg1 leaf1 where a1: "aggregate_item (env target bias) agg leaf x (summ x) = Some (agg1, leaf1)"
        "leaf_state DE summ agg0 (zs @ [x]) agg1 leaf1"
      by (rule aggregate_item_total [of "env target bias" agg0 zs agg leaf x]) (use Cons.prems in auto)
    obtain pos' agg' leaf' found where r:
        "scan_items (env target bias) stack_empty max_end n (Suc i) (zip xs (map summ xs)) (pos_add pos [x]) agg1 leaf1 =
          Some (pos', agg', leaf', map_option (\<lambda>k. (Suc i + k, False)) found)"
        "leaf_result target bias agg0 (zs @ [x]) xs (pos_add pos [x]) pos' agg' leaf' found"
      using Cons.IH [OF a1(2), of "Suc i" "pos_add pos [x]"] Cons.prems by (auto simp: pos_add_append)
    show ?thesis
      using leaf_result_step [OF True r(2)] r(1) True a1(1) end_x end_eq go
      by (intro exI [of _ pos'] exI [of _ agg'] exI [of _ leaf'] exI [of _ "map_option Suc found"])
        (cases found; simp add: advance_item Let_def)
  next
    case False
    with end_x end_eq Cons.prems(1) show ?thesis
      by (intro exI [of _ pos] exI [of _ agg] exI [of _ leaf] exI [of _ "Some 0"])
        (simp add: leaf_result_def Let_def)
  qed
qed

lemma leaf_state_Nil: "agg_ok summ agg \<Longrightarrow> leaf_state DE summ agg [] agg (0, [], [])"
  by (cases agg) (simp_all add: E.add_zero)

text \<open>
  The descent: it passes as many items of the subtree as the position asks for, collects
  them, and leaves the stack on the item it stopped at.
\<close>

definition zero_pos :: "'d \<times> 'u" where
  "zero_pos = (dim_default DS, dim_default DU)"

definition descent_result where
  "descent_result target bias T stack xs pos agg stack' pos' agg' \<longleftrightarrow>
     (let k = count target bias pos xs in
      pos' = pos_add pos (take k xs) \<and> agg_ok summ agg' \<and> agg_add DE summ agg (take k xs) agg' \<and>
      (if k < length xs then path T stack' \<and> before stack' = before stack @ take k xs
       else stack' = stack))"

lemma seek_descend_result:
  assumes "wf_tree summ T" "chain T stack t" "agg_ok summ agg"
    and "stack = [] \<or> \<not> passes target bias (fst (pos_add pos (tree_items t)))"
    and "length stack + height t < 16"
  shows "\<exists>stack' pos' agg'.
    seek_descend (env target bias) t stack pos agg False = Some (stack', pos', agg', False) \<and>
    descent_result target bias T stack (tree_items t) pos agg stack' pos' agg'"
  using assms(2-)
proof (induction t arbitrary: stack pos agg)
  case (Leaf s xs ss)
  have wf: "wf_tree summ (Leaf s xs ss)" using chain_wf [OF Leaf.prems(1) assms(1)] by simp
  then have ss: "ss = map summ xs" "length xs \<le> 2 * TREE_BASE"
      and me: "add_summary DS (fst pos) s = fst (pos_add pos xs)"
    by (auto simp: fst_pos_add tally_def)
  obtain pos' agg1 leaf found where r:
      "scan_items (env target bias) (stack = []) (fst (pos_add pos xs)) (length xs) 0 (zip xs (map summ xs)) pos agg (0, [], []) =
        Some (pos', agg1, leaf, map_option (\<lambda>k. (k, False)) found)"
      "leaf_result target bias agg [] xs pos pos' agg1 leaf found"
    using scan_items_result [OF leaf_state_Nil [OF Leaf.prems(2)], of xs "length xs" 0 "fst (pos_add pos xs)" pos
        "stack = []" target bias] Leaf.prems(3) ss(2) by auto
  show ?case
  proof (cases found)
    case None
    with r(2) have st: "leaf_state DE summ agg xs agg1 leaf" "pos' = pos_add pos xs"
        "xs \<noteq> [] \<longrightarrow> passes target bias (fst pos')"
      by (auto simp: leaf_result_def)
    obtain agg' where f: "flush_nonempty agg1 leaf = Some agg'" "agg_ok summ agg'" "agg_add DE summ agg xs agg'"
      using flush_total [OF Leaf.prems(2) st(1) ss(2)] by auto
    have "count target bias pos xs = length xs"
      using st(2,3) count_pass [of target bias pos xs "[]"] by (cases "xs = []") auto
    with None r(1) f st ss me show ?thesis
      by (intro exI [of _ stack] exI [of _ pos'] exI [of _ agg']) (simp add: descent_result_def)
  next
    case (Some k)
    with r(2) have st: "k < length xs" "leaf_state DE summ agg (take k xs) agg1 leaf" "pos' = pos_add pos (take k xs)"
        "k \<noteq> 0 \<longrightarrow> passes target bias (fst pos')" "\<not> passes target bias (fst (pos_add pos' [xs ! k]))"
      by (auto simp: leaf_result_def)
    obtain agg' where f: "flush_nonempty agg1 leaf = Some agg'" "agg_ok summ agg'"
        "agg_add DE summ agg (take k xs) agg'"
      by (rule flush_total [OF Leaf.prems(2) st(2)]) (use ss(2) in auto)
    have xs: "xs = take k xs @ [xs ! k] @ drop (Suc k) xs"
      using st(1) by (simp add: id_take_nth_drop)
    have "count target bias pos (take k xs @ [xs ! k] @ drop (Suc k) xs) = k"
      using count_pass [of target bias pos "take k xs" "[xs ! k] @ drop (Suc k) xs"]
        count_stop [OF st(5)] st(1,3,4) by (cases "k = 0") auto
    then have cnt: "count target bias pos xs = k" using xs by simp
    have "push_entry stack (mk_entry (Leaf s xs ss) k pos') = Some (mk_entry (Leaf s xs ss) k pos' # stack)"
      using Leaf.prems(4) by (simp add: push_entry_def)
    with Some r(1) f st cnt ss me Leaf.prems(1) show ?thesis
      by (intro exI [of _ "mk_entry (Leaf s xs ss) k pos' # stack"] exI [of _ pos'] exI [of _ agg'])
        (simp add: descent_result_def path_def mk_entry_def)
  qed
next
  case (Internal h s css cts)
  have wf: "wf_tree summ (Internal h s css cts)" using chain_wf [OF Internal.prems(1) assms(1)] by simp
  let ?xs = "concat (map tree_items cts)"
  have css: "css = map summary cts" and ok: "nodes_ok cts" and h: "\<forall>t \<in> set cts. h = Suc (height t)"
    using wf by auto
  have me: "add_summary DS (fst pos) s = fst (pos_add pos ?xs)"
    using summary_tally [OF wf] by (simp add: fst_pos_add)
  obtain pos' agg1 found where r:
      "scan_children (env target bias) (stack = []) (fst (pos_add pos ?xs)) (length cts) 0 (zip cts (map summary cts)) pos agg =
        Some (pos', agg1, map_option (\<lambda>k. (k, cts ! k, False)) found)"
      "loop_result target bias cts pos agg pos' agg1 found"
    using scan_children_result [OF ok Internal.prems(2), of "length cts" 0 "fst (pos_add pos ?xs)" pos
        "stack = []" target bias] Internal.prems(3) by auto
  show ?case
  proof (cases found)
    case None
    with r(2) have st: "agg_ok summ agg1" "agg_add DE summ agg ?xs agg1" "pos' = pos_add pos ?xs"
        "passes target bias (fst pos')"
      using wf by (auto simp: loop_result_def)
    have "count target bias pos ?xs = length ?xs"
      using st(3,4) count_pass [of target bias pos ?xs "[]"] by simp
    with None r(1) st css me show ?thesis
      by (intro exI [of _ stack] exI [of _ pos'] exI [of _ agg1]) (simp add: descent_result_def)
  next
    case (Some k)
    let ?zs = "concat (map tree_items (take k cts))" and ?c = "cts ! k"
    let ?rest = "concat (map tree_items (drop (Suc k) cts))"
    let ?stack = "mk_entry (Internal h s css cts) k pos' # stack"
    from Some r(2) have st: "k < length cts" "agg_ok summ agg1" "agg_add DE summ agg ?zs agg1"
        "pos' = pos_add pos ?zs" "k \<noteq> 0 \<longrightarrow> passes target bias (fst pos')"
        "\<not> passes target bias (fst (pos_add pos' (tree_items ?c)))"
      by (auto simp: loop_result_def)
    have c: "?c \<in> set cts" "tree_items ?c \<noteq> []" "h = Suc (height ?c)" using st(1) ok h by auto
    have ch: "chain T ?stack ?c" using Internal.prems(1) st(1) by (simp add: mk_entry_def)
    obtain stack' pos'' agg' where IH:
        "seek_descend (env target bias) ?c ?stack pos' agg1 False = Some (stack', pos'', agg', False)"
        "descent_result target bias T ?stack (tree_items ?c) pos' agg1 stack' pos'' agg'"
      using Internal.IH [OF c(1) ch st(2), of pos'] st(6) Internal.prems(4) c(3) by (auto simp: mk_entry_def)
    let ?m = "count target bias pos' (tree_items ?c)"
    have m: "?m < length (tree_items ?c)" "count target bias pos' (tree_items ?c @ ?rest) = ?m"
      using count_stop [OF st(6) c(2)] by auto
    have xs: "?xs = ?zs @ tree_items ?c @ ?rest" using split_child [OF st(1)] by simp
    have cnt: "count target bias pos ?xs = length ?zs + ?m"
      unfolding xs using count_pass [of target bias pos ?zs "tree_items ?c @ ?rest"] st(4,5) m(2)
      by (cases "k = 0") auto
    have tk: "take (length ?zs + ?m) ?xs = ?zs @ take ?m (tree_items ?c)"
      unfolding xs using m(1) by simp
    have lt: "length ?zs + ?m < length ?xs" unfolding xs using m(1) by simp
    have "push_entry stack (mk_entry (Internal h s css cts) k pos') = Some ?stack"
      using Internal.prems(4) by (simp add: push_entry_def)
    then have "seek_descend (env target bias) (Internal h s css cts) stack pos agg False =
        Some (stack', pos'', agg', False)"
      using Some r(1) IH(1) css me by simp
    moreover have "descent_result target bias T stack ?xs pos agg stack' pos'' agg'"
      using IH(2) m(1) cnt tk lt st(3,4) agg_add_trans [OF st(3)]
      by (auto simp: descent_result_def Let_def mk_entry_def pos_add_append)
    ultimately show ?thesis by auto
  qed
qed

text \<open>
  Moving right along the stack: the items passed on the way, and either the subtree with
  the target or the end of the tree.
\<close>

definition unwind_result where
  "unwind_result target bias T done rem pos agg stack' pos' agg' found \<longleftrightarrow>
     agg_ok summ agg' \<and>
     (case found of
        None \<Rightarrow> stack' = [] \<and> pos' = pos_add pos rem \<and> agg_add DE summ agg rem agg' \<and>
          count target bias pos rem = length rem
      | Some c \<Rightarrow> (\<exists>zs more. rem = zs @ tree_items c @ more \<and> stack' \<noteq> [] \<and> chain T stack' c \<and>
          before stack' = done @ zs \<and> pos' = pos_add pos zs \<and> agg_add DE summ agg zs agg' \<and>
          count target bias pos rem = length zs + count target bias pos' (tree_items c) \<and>
          \<not> passes target bias (fst (pos_add pos' (tree_items c)))))"

lemma unwind_result_step:
  assumes "agg_add DE summ agg xs agg1" "xs \<noteq> [] \<longrightarrow> passes target bias (fst (pos_add pos xs))"
    and "unwind_result target bias T (done @ xs) rem (pos_add pos xs) agg1 stack' pos' agg' found"
  shows "unwind_result target bias T done (xs @ rem) pos agg stack' pos' agg' found"
proof -
  have cnt: "count target bias pos (xs @ ys) = length xs + count target bias (pos_add pos xs) ys" for ys
    using count_pass [of target bias pos xs ys] assms(2) by (cases "xs = []") auto
  show ?thesis
  proof (cases found)
    case None
    with assms(3) agg_add_trans [OF assms(1)] show ?thesis
      by (auto simp: unwind_result_def cnt pos_add_append)
  next
    case (Some c)
    with assms(3) obtain zs more where z: "rem = zs @ tree_items c @ more" "stack' \<noteq> []" "chain T stack' c"
        "before stack' = done @ xs @ zs" "pos' = pos_add pos (xs @ zs)" "agg_add DE summ agg1 zs agg'"
        "count target bias (pos_add pos xs) rem = length zs + count target bias pos' (tree_items c)"
        "\<not> passes target bias (fst (pos_add pos' (tree_items c)))" "agg_ok summ agg'"
      by (auto simp: unwind_result_def pos_add_append)
    with Some agg_add_trans [OF assms(1) z(6)] show ?thesis
      by (auto simp: unwind_result_def cnt intro!: exI [of _ "xs @ zs"] exI [of _ more])
  qed
qed

lemma unwind_inner_result:
  assumes "wf_tree summ T" "chain T stack t" "agg_ok summ agg"
  shows "\<exists>stack' pos' agg' found.
    unwind (env target bias) stack pos agg = Some (stack', pos', agg', found) \<and>
    unwind_result target bias T (before stack @ tree_items t) (after stack) pos agg stack' pos' agg' found"
  using assms(2-)
proof (induction stack arbitrary: t pos agg)
  case Nil
  then show ?case
    by (intro exI [of _ "[]"] exI [of _ pos] exI [of _ agg] exI [of _ None])
      (simp add: unwind_result_def agg_add_refl)
next
  case (Cons e stack)
  let ?i = "entry_index e"
  obtain h s css cts where e: "entry_tree e = Internal h s css cts" "?i < length cts" "t = cts ! ?i"
      "chain T stack (Internal h s css cts)"
    using Cons.prems(1) by (auto split: sum_tree.splits)
  have wf: "wf_tree summ (Internal h s css cts)" using chain_wf [OF e(4) assms(1)] by simp
  let ?ts = "drop (Suc ?i) cts"
  have ok: "nodes_ok ?ts" and css: "css = map summary cts"
    using wf by (auto dest: in_set_dropD)
  obtain pos1 agg1 found1 where r:
      "unwind_children (env target bias) (length cts) (Suc ?i) (zip ?ts (map summary ?ts)) pos agg =
        Some (Suc ?i + (case found1 of None \<Rightarrow> length ?ts | Some k \<Rightarrow> k), pos1, agg1, map_option (nth ?ts) found1)"
      "loop_result target bias ?ts pos agg pos1 agg1 found1"
    using unwind_children_result [OF ok Cons.prems(2), of target bias "length cts" "Suc ?i" pos] by auto
  have start: "unwind (env target bias) (e # stack) pos agg =
      (case found1 of
         None \<Rightarrow> unwind (env target bias) stack pos1 agg1
       | Some k \<Rightarrow> Some (e\<lparr>entry_index := Suc ?i + k\<rparr> # stack, pos1, agg1, Some (?ts ! k)))"
    using e(1,2) css r(1) by (simp add: drop_map Let_def split: option.splits)
  show ?case
  proof (cases found1)
    case None
    let ?xs = "concat (map tree_items ?ts)"
    from None r(2) have st: "agg_ok summ agg1" "agg_add DE summ agg ?xs agg1" "pos1 = pos_add pos ?xs"
        "?xs \<noteq> [] \<longrightarrow> passes target bias (fst (pos_add pos ?xs))"
      by (auto simp: loop_result_def)
    obtain stack' pos' agg' found where IH:
        "unwind (env target bias) stack pos1 agg1 = Some (stack', pos', agg', found)"
        "unwind_result target bias T (before stack @ tree_items (Internal h s css cts)) (after stack) pos1 agg1
          stack' pos' agg' found"
      using Cons.IH [OF e(4) st(1), of pos1] by auto
    have "before (e # stack) @ tree_items t @ ?xs = before stack @ tree_items (Internal h s css cts)"
      using e split_child [OF e(2)] by simp
    then have "unwind_result target bias T ((before (e # stack) @ tree_items t) @ ?xs) (after stack)
        (pos_add pos ?xs) agg1 stack' pos' agg' found"
      using IH(2) st(3) by simp
    from unwind_result_step [OF st(2,4) this] IH(1) start None e(1) show ?thesis by auto
  next
    case (Some k)
    let ?xs = "concat (map tree_items (take k ?ts))" and ?c = "?ts ! k"
    let ?more = "concat (map tree_items (drop (Suc k) ?ts)) @ after stack"
    from Some r(2) have st: "k < length ?ts" "agg_ok summ agg1" "agg_add DE summ agg ?xs agg1"
        "pos1 = pos_add pos ?xs" "k \<noteq> 0 \<longrightarrow> passes target bias (fst pos1)"
        "\<not> passes target bias (fst (pos_add pos1 (tree_items ?c)))"
      by (auto simp: loop_result_def)
    have cne: "tree_items ?c \<noteq> []" using ok nth_mem [OF st(1)] by blast
    have rem: "after (e # stack) = ?xs @ tree_items ?c @ ?more"
      using e(1) split_child [OF st(1)] by simp
    have tk: "take (Suc ?i + k) cts = take ?i cts @ [cts ! ?i] @ take k ?ts"
      by (simp only: take_add take_Suc_conv_app_nth [OF e(2)] append_assoc)
    have "count target bias pos (after (e # stack)) = length ?xs + count target bias pos1 (tree_items ?c)"
      unfolding rem using count_pass [of target bias pos ?xs "tree_items ?c @ ?more"] st(4,5)
        count_stop(1) [OF st(6) cne, of ?more] by (cases "k = 0") auto
    moreover have "chain T (e\<lparr>entry_index := Suc ?i + k\<rparr> # stack) ?c"
      using e st(1) by (simp add: add.commute less_diff_conv)
    moreover have "before (e\<lparr>entry_index := Suc ?i + k\<rparr> # stack) = (before (e # stack) @ tree_items t) @ ?xs"
      using e tk by simp
    ultimately show ?thesis
      using start Some st rem
      by (intro exI [of _ "e\<lparr>entry_index := Suc ?i + k\<rparr> # stack"] exI [of _ pos1] exI [of _ agg1]
          exI [of _ "Some ?c"]) (auto simp: unwind_result_def simp del: before.simps after.simps chain.simps)
  qed
qed

text \<open>
  The whole move: from a position with the items \<open>rem\<close> to its right, exactly the items
  the target asks for are passed and collected.
\<close>

definition move_result where
  "move_result target bias T done rem pos agg stack' pos' agg' \<longleftrightarrow>
     (let k = count target bias pos rem in
      pos' = pos_add pos (take k rem) \<and> agg_ok summ agg' \<and> agg_add DE summ agg (take k rem) agg' \<and>
      (if k < length rem then path T stack' \<and> before stack' = done @ take k rem else stack' = []))"

lemma move_after_unwind:
  assumes "wf_tree summ T" "height T < 16"
    and u: "unwind_result target bias T done rem pos agg stack1 pos1 agg1 found"
  shows "\<exists>stack' pos' agg'.
    (case found of
       None \<Rightarrow> Some (stack1, pos1, agg1, False)
     | Some t \<Rightarrow> seek_descend (env target bias) t stack1 pos1 agg1 False) = Some (stack', pos', agg', False) \<and>
    move_result target bias T done rem pos agg stack' pos' agg'"
proof (cases found)
  case None
  with u show ?thesis
    by (intro exI [of _ stack1] exI [of _ pos1] exI [of _ agg1])
      (simp add: unwind_result_def move_result_def)
next
  case (Some c)
  with u obtain zs more where z: "rem = zs @ tree_items c @ more" "stack1 \<noteq> []" "chain T stack1 c"
      "before stack1 = done @ zs" "pos1 = pos_add pos zs" "agg_add DE summ agg zs agg1" "agg_ok summ agg1"
      "count target bias pos rem = length zs + count target bias pos1 (tree_items c)"
      "\<not> passes target bias (fst (pos_add pos1 (tree_items c)))"
    by (auto simp: unwind_result_def)
  have c: "height c + length stack1 = height T" "tree_items c \<noteq> []"
    using chain_wf [OF z(3) assms(1)] z(2) by auto
  obtain stack' pos' agg' where d:
      "seek_descend (env target bias) c stack1 pos1 agg1 False = Some (stack', pos', agg', False)"
      "descent_result target bias T stack1 (tree_items c) pos1 agg1 stack' pos' agg'"
    using seek_descend_result [OF assms(1) z(3,7), of target bias pos1] z(9) c(1) assms(2) by auto
  let ?m = "count target bias pos1 (tree_items c)"
  have m: "?m < length (tree_items c)" by (rule count_stop(2) [OF z(9) c(2)])
  then have "take (length zs + ?m) rem = zs @ take ?m (tree_items c)" "length zs + ?m < length rem"
    using z(1) by simp_all
  then have "move_result target bias T done rem pos agg stack' pos' agg'"
    using d(2) m z(4,5,8) agg_add_trans [OF z(6)]
    by (auto simp: move_result_def descent_result_def Let_def pos_add_append)
  with d(1) Some show ?thesis by auto
qed

lemma unwind_leaf_result:
  assumes wf: "wf_tree summ T" and p: "path T (e # rest)" and agg: "agg_ok summ agg" and h: "height T < 16"
  shows "\<exists>stack1 pos1 agg1 found stack' pos' agg'.
    unwind (env target bias) (e # rest) pos agg = Some (stack1, pos1, agg1, found) \<and>
    (case found of
       None \<Rightarrow> Some (stack1, pos1, agg1, False)
     | Some t \<Rightarrow> seek_descend (env target bias) t stack1 pos1 agg1 False) = Some (stack', pos', agg', False) \<and>
    move_result target bias T (before (e # rest)) (after (e # rest)) pos agg stack' pos' agg'"
proof -
  let ?i = "entry_index e"
  from p obtain s xs ss where e: "entry_tree e = Leaf s xs ss" "?i < length xs" "chain T rest (Leaf s xs ss)"
    by (auto simp: path_def)
  have leaf: "ss = map summ xs" "length xs \<le> 2 * TREE_BASE"
    using chain_wf [OF e(3) wf] by auto
  let ?xs = "drop ?i xs"
  have len: "length [] + length ?xs \<le> 2 * TREE_BASE" using leaf(2) by simp
  obtain pos1 agg1 lf found1 where r:
      "unwind_items (env target bias) (length xs) ?i (zip ?xs (map summ ?xs)) pos agg (0, [], []) =
        Some (?i + (case found1 of None \<Rightarrow> length ?xs | Some k \<Rightarrow> k), pos1, agg1, lf, found1 \<noteq> None)"
      "leaf_result target bias agg [] ?xs pos pos1 agg1 lf found1"
    using unwind_items_result [OF leaf_state_Nil [OF agg] len, of target bias "length xs" ?i pos] by blast
  have start: "unwind (env target bias) (e # rest) pos agg =
      (if found1 \<noteq> None then flush_leaf agg1 lf \<bind> (\<lambda>agg''.
         Some (e\<lparr>entry_index := ?i + the found1\<rparr> # rest, pos1, agg'', None))
       else flush_nonempty agg1 lf \<bind> unwind (env target bias) rest pos1)"
    using e(1,2) leaf(1) r(1) by (auto simp: drop_map Let_def split: option.splits)
  show ?thesis
  proof (cases found1)
    case None
    from None r(2) have st: "leaf_state DE summ agg ?xs agg1 lf" "pos1 = pos_add pos ?xs"
        "?xs \<noteq> [] \<longrightarrow> passes target bias (fst (pos_add pos ?xs))"
      by (auto simp: leaf_result_def)
    obtain agg2 where f: "flush_nonempty agg1 lf = Some agg2" "agg_ok summ agg2" "agg_add DE summ agg ?xs agg2"
      by (rule flush_total [OF agg st(1)]) (use leaf(2) in auto)
    obtain stack2 pos2 agg3 found where u:
        "unwind (env target bias) rest pos1 agg2 = Some (stack2, pos2, agg3, found)"
        "unwind_result target bias T (before rest @ tree_items (Leaf s xs ss)) (after rest) pos1 agg2
          stack2 pos2 agg3 found"
      using unwind_inner_result [OF wf e(3) f(2), of target bias pos1] by auto
    have "before (e # rest) @ ?xs = before rest @ tree_items (Leaf s xs ss)" using e(1) by simp
    then have "unwind_result target bias T (before (e # rest) @ ?xs) (after rest) (pos_add pos ?xs) agg2
        stack2 pos2 agg3 found"
      using u(2) st(2) by simp
    from unwind_result_step [OF f(3) st(3) this]
    have "unwind_result target bias T (before (e # rest)) (after (e # rest)) pos agg stack2 pos2 agg3 found"
      using e(1) by simp
    from move_after_unwind [OF wf h this] start None f(1) u(1) show ?thesis by auto
  next
    case (Some k)
    let ?stack = "e\<lparr>entry_index := ?i + k\<rparr> # rest"
    from Some r(2) have st: "k < length ?xs" "leaf_state DE summ agg (take k ?xs) agg1 lf"
        "pos1 = pos_add pos (take k ?xs)" "k \<noteq> 0 \<longrightarrow> passes target bias (fst pos1)"
        "\<not> passes target bias (fst (pos_add pos1 [?xs ! k]))"
      by (auto simp: leaf_result_def)
    obtain agg2 where f: "flush_leaf agg1 lf = Some agg2" "agg_ok summ agg2" "agg_add DE summ agg (take k ?xs) agg2"
      by (rule flush_total [OF agg st(2)]) (use leaf(2) in auto)
    have split: "after (e # rest) = take k ?xs @ [?xs ! k] @ drop (Suc k) ?xs @ after rest"
      using e(1) id_take_nth_drop [OF st(1)] by simp
    have "count target bias pos (after (e # rest)) = k"
      unfolding split
      using count_pass [of target bias pos "take k ?xs" "[?xs ! k] @ drop (Suc k) ?xs @ after rest"]
        count_stop [OF st(5)] st(1,3,4) by (cases "k = 0") auto
    moreover have "path T ?stack" using e st(1) by (simp add: path_def)
    moreover have "before ?stack = before (e # rest) @ take k ?xs" using e(1) by (simp add: take_add)
    moreover have "take k (after (e # rest)) = take k ?xs" "k < length (after (e # rest))"
      using e(1) st(1) by simp_all
    ultimately have "move_result target bias T (before (e # rest)) (after (e # rest)) pos agg ?stack pos1 agg2"
      using f(2,3) st(3) by (simp add: move_result_def del: before.simps after.simps)
    with start Some f(1) show ?thesis by (intro exI) auto
  qed
qed


lemma top_item:
  assumes wf: "wf_tree summ (cur_tree c)" and p: "path (cur_tree c) (cur_stack c)"
  shows "cursor_item c = Some (Some (hd (after (cur_stack c))))"
    and "item_summary c = Some (Some (summ (hd (after (cur_stack c)))))"
proof -
  from p obtain e rest s xs ss where e: "cur_stack c = e # rest" "entry_tree e = Leaf s xs ss"
      "entry_index e < length xs" "chain (cur_tree c) rest (Leaf s xs ss)"
    by (auto simp: path_def)
  have "ss = map summ xs" using chain_wf [OF e(4) wf] by simp
  with e show "cursor_item c = Some (Some (hd (after (cur_stack c))))"
    and "item_summary c = Some (Some (summ (hd (after (cur_stack c)))))"
    by (simp_all add: cursor_item_def item_summary_def panic_simps hd_drop_conv_nth)
qed

text \<open>The position reached by a move, as a cursor.\<close>

lemma move_result_cursor:
  assumes xs: "tree_items (cur_tree c) = done @ rem"
    and pos: "pos = (measure_of DS summ done, measure_of DU summ done)"
    and m: "move_result target bias (cur_tree c) done rem pos agg stack' pos' agg'"
  defines "k \<equiv> count target bias pos rem"
  defines "c' \<equiv> (set_place c stack' pos')\<lparr>did_seek := True, at_end := (stack' = [])\<rparr>"
  shows "cursor_at DS DU summ (length done + k) c'" "agg_ok summ agg'"
    "agg_add DE summ agg (take k rem) agg'"
proof -
  from m have r: "pos' = pos_add pos (take k rem)" "agg_ok summ agg'" "agg_add DE summ agg (take k rem) agg'"
      "if k < length rem then path (cur_tree c) stack' \<and> before stack' = done @ take k rem else stack' = []"
    by (simp_all add: move_result_def k_def Let_def)
  have le: "k \<le> length rem" unfolding k_def by (rule passed_le)
  have ne: "k < length rem \<Longrightarrow> stack' \<noteq> []" using r(4) by (auto simp: path_def)
  have "pos' = (measure_of DS summ (done @ take k rem), measure_of DU summ (done @ take k rem))"
    using r(1) pos by (simp add: pos_add_def measure_of_def S.add_plus U.add_plus)
  with r(4) le xs ne show "cursor_at DS DU summ (length done + k) c'"
    by (simp add: cursor_at_def c'_def set_place_def Let_def)
  from r show "agg_ok summ agg'" "agg_add DE summ agg (take k rem) agg'" by simp_all
qed

definition landed :: "'d \<Rightarrow> seek_bias \<Rightarrow> 'a list \<Rightarrow> nat \<Rightarrow> bool" where
  "landed target bias xs n \<longleftrightarrow>
     target = measure_of DS summ (take (case bias of SeekLeft \<Rightarrow> Suc n | SeekRight \<Rightarrow> n) xs)"

lemma end_of_cursor_at:
  assumes "wf_tree summ (cur_tree c)" "cursor_at DS DU summ n c"
  shows "end_seek_position DS c = Some (measure_of DS summ (take (Suc n) (tree_items (cur_tree c))))"
proof (cases "n < length (tree_items (cur_tree c))")
  case True
  with assms(2) have p: "path (cur_tree c) (cur_stack c)" "before (cur_stack c) = take n (tree_items (cur_tree c))"
      "cur_seek c = measure_of DS summ (take n (tree_items (cur_tree c)))"
    by (simp_all add: cursor_at_def Let_def)
  have "after (cur_stack c) = drop n (tree_items (cur_tree c))"
    using path_items(1) [OF p(1)] p(2) by (metis append_take_drop_id same_append_eq)
  with True p(3) show ?thesis
    by (simp add: end_seek_position_def top_item [OF assms(1) p(1)] hd_drop_conv_nth
        measure_of_def S.add_plus [symmetric] take_Suc_conv_app_nth)
next
  case False
  with assms(2) show ?thesis
    by (auto simp: end_seek_position_def item_summary_def cursor_at_def Let_def)
qed

lemma found_result:
  assumes "wf_tree summ (cur_tree c)" "cursor_at DS DU summ n c"
  shows "(if bias = SeekLeft then end_seek_position DS c \<bind> (\<lambda>e. Some (target = e, agg, c))
     else Some (target = cur_seek c, agg, c)) =
    Some (landed target bias (tree_items (cur_tree c)) n, agg, c)"
  using assms(2) end_of_cursor_at [OF assms]
  by (cases bias) (auto simp: landed_def cursor_at_def Let_def)

definition seek_result where
  "seek_result target bias c n agg r \<longleftrightarrow>
     (let rem = drop n (tree_items (cur_tree c));
          k = passed DS summ target bias (cur_seek c) rem
      in \<exists>agg' c'. r = Some (landed target bias (tree_items (cur_tree c)) (n + k), agg', c') \<and>
           cur_tree c' = cur_tree c \<and> cursor_at DS DU summ (n + k) c' \<and>
           agg_ok summ agg' \<and> agg_add DE summ agg (take k rem) agg')"

lemma seek_internal_place:
  assumes wf: "wf_tree summ (cur_tree c)" and n: "n \<le> length (tree_items (cur_tree c))"
    and pos: "(cur_seek c, cur_sum c) =
      (measure_of DS summ (take n (tree_items (cur_tree c))), measure_of DU summ (take n (tree_items (cur_tree c))))"
    and u: "(if did_seek c then unwind (env target bias) (cur_stack c) (cur_seek c, cur_sum c) agg
      else Some (cur_stack c, (cur_seek c, cur_sum c), agg, Some (cur_tree c))) = Some (stack1, pos1, agg1, found)"
    and d: "(case found of
       None \<Rightarrow> Some (stack1, pos1, agg1, False)
     | Some t \<Rightarrow> seek_descend (env target bias) t stack1 pos1 agg1 False) = Some (stack', pos', agg', False)"
    and m: "move_result target bias (cur_tree c) (take n (tree_items (cur_tree c)))
      (drop n (tree_items (cur_tree c))) (cur_seek c, cur_sum c) agg stack' pos' agg'"
  shows "seek_result target bias c n agg (seek_internal (env target bias) agg c)"
proof -
  let ?xs = "tree_items (cur_tree c)"
  let ?k = "count target bias (cur_seek c, cur_sum c) (drop n ?xs)"
  let ?c = "(set_place c stack' pos')\<lparr>did_seek := True, at_end := (stack' = [])\<rparr>"
  have ca: "cursor_at DS DU summ (n + ?k) ?c" and ag: "agg_ok summ agg'" "agg_add DE summ agg (take ?k (drop n ?xs)) agg'"
    using move_result_cursor [OF _ pos m] n by simp_all
  have ct: "cur_tree ?c = cur_tree c" by (simp add: set_place_def)
  have "seek_internal (env target bias) agg c = Some (landed target bias ?xs (n + ?k), agg', ?c)"
    using found_result [OF _ ca, of bias target agg'] wf ct
    by (simp only: seek_internal_def Let_def env_simps u Option.bind.bind_lunit prod.case d if_False)
  with ca ag ct show ?thesis
    unfolding seek_result_def Let_def by auto
qed

lemma seek_internal_at:
  assumes wf: "wf_tree summ (cur_tree c)" and h: "height (cur_tree c) < 16" and agg: "agg_ok summ agg"
    and at: "cursor_at DS DU summ n c"
  shows "seek_result target bias c n agg (seek_internal (env target bias) agg c)"
proof -
  let ?xs = "tree_items (cur_tree c)"
  have n: "n \<le> length ?xs" and ds: "did_seek c"
    and pos: "(cur_seek c, cur_sum c) = (measure_of DS summ (take n ?xs), measure_of DU summ (take n ?xs))"
    using at by (simp_all add: cursor_at_def Let_def)
  show ?thesis
  proof (cases "n < length ?xs")
    case False
    with at n have st: "cur_stack c = []" "drop n ?xs = []" by (auto simp: cursor_at_def Let_def)
    have "move_result target bias (cur_tree c) (take n ?xs) (drop n ?xs) (cur_seek c, cur_sum c) agg []
        (cur_seek c, cur_sum c) agg"
      using st(2) agg by (simp add: move_result_def agg_add_refl)
    from seek_internal_place [OF wf n pos _ _ this, of "[]" _ agg None] st(1) ds show ?thesis by simp
  next
    case True
    with at have st: "path (cur_tree c) (cur_stack c)" "before (cur_stack c) = take n ?xs"
      by (simp_all add: cursor_at_def Let_def)
    have af: "after (cur_stack c) = drop n ?xs"
      using path_items(1) [OF st(1)] st(2) by (metis append_take_drop_id same_append_eq)
    from st(1) obtain e rest where s: "cur_stack c = e # rest" by (auto simp: path_def)
    from unwind_leaf_result [OF wf st(1) [unfolded s] agg h, of target bias "(cur_seek c, cur_sum c)"]
    obtain stack1 pos1 agg1 found stack' pos' agg' where
        "unwind (env target bias) (e # rest) (cur_seek c, cur_sum c) agg = Some (stack1, pos1, agg1, found)"
        "(case found of
           None \<Rightarrow> Some (stack1, pos1, agg1, False)
         | Some t \<Rightarrow> seek_descend (env target bias) t stack1 pos1 agg1 False) = Some (stack', pos', agg', False)"
        "move_result target bias (cur_tree c) (before (e # rest)) (after (e # rest)) (cur_seek c, cur_sum c) agg
          stack' pos' agg'"
      by blast
    with seek_internal_place [OF wf n pos, of target bias agg stack1 pos1 agg1 found stack' pos' agg'] ds s st(2) af
    show ?thesis by simp
  qed
qed

lemma seek_internal_fresh:
  assumes wf: "wf_tree summ (cur_tree c)" and h: "height (cur_tree c) < 16" and agg: "agg_ok summ agg"
    and c: "\<not> did_seek c" "cur_stack c = []" "cur_seek c = dim_default DS" "cur_sum c = dim_default DU"
  shows "seek_result target bias c 0 agg (seek_internal (env target bias) agg c)"
proof -
  let ?xs = "tree_items (cur_tree c)"
  have pos: "(cur_seek c, cur_sum c) = (measure_of DS summ (take 0 ?xs), measure_of DU summ (take 0 ?xs))"
    using c by (simp add: measure_of_def S.add_zero U.add_zero)
  have ch: "chain (cur_tree c) (cur_stack c) (cur_tree c)" using c by simp
  obtain stack' pos' agg' where d:
      "seek_descend (env target bias) (cur_tree c) [] (cur_seek c, cur_sum c) agg False = Some (stack', pos', agg', False)"
      "descent_result target bias (cur_tree c) [] ?xs (cur_seek c, cur_sum c) agg stack' pos' agg'"
    using seek_descend_result [OF wf _ agg, of "[]" "cur_tree c" target bias "(cur_seek c, cur_sum c)"] h by auto
  have "move_result target bias (cur_tree c) (take 0 ?xs) (drop 0 ?xs) (cur_seek c, cur_sum c) agg stack' pos' agg'"
    using d(2) by (simp add: move_result_def descent_result_def Let_def)
  from seek_internal_place [OF wf _ pos _ _ this, of "[]" "(cur_seek c, cur_sum c)" agg "Some (cur_tree c)"] d(1) c
  show ?thesis by simp
qed

end

end
