(* ===== verification/Sum_Step.thy ===== *)
theory Sum_Step imports Sum_Seek begin

text \<open>
  Stepping a cursor one item to the right, the \<open>Iterator\<close> over a cursor, and the theorems
  of \<open>Sum_Seek\<close> restated for the public operations \<open>seek\<close>, \<open>slice\<close>, \<open>suffix\<close> and
  \<open>summary\<close> of \<open>crates/sum_tree/src/cursor.rs\<close>.
\<close>

section \<open>Iterators\<close>

text \<open>\<open>Iterator::next\<close>: descends to the first item unless the cursor has been placed.\<close>

definition start_iteration ::
  "('d, 's) dimension \<Rightarrow> ('u, 's) dimension \<Rightarrow> ('a, 's, 'd, 'u) cursor \<Rightarrow> ('a, 's, 'd, 'u) cursor option" where
  "start_iteration DS DU c =
     (if did_seek c then Some c
      else descend_to_first_item DS DU (\<lambda>_. True) (cur_tree c) (cur_stack c) (cur_seek c, cur_sum c) \<bind>
        (\<lambda>(stack, pos). Some ((set_place c stack pos)\<lparr>did_seek := True\<rparr>)))"

definition iter_next ::
  "('d, 's) dimension \<Rightarrow> ('u, 's) dimension \<Rightarrow> ('a, 's, 'd, 'u) cursor
    \<Rightarrow> ('a option \<times> ('a, 's, 'd, 'u) cursor) option" where
  "iter_next DS DU c = do {
     c1 \<leftarrow> start_iteration DS DU c;
     it \<leftarrow> cursor_item c1;
     (case it of
        None \<Rightarrow> Some (None, c1)
      | Some x \<Rightarrow> cursor_next DS DU c1 \<bind> (\<lambda>c2. Some (Some x, c2)))
   }"

text \<open>A \<open>for\<close> loop over the iterator, with as many steps as \<open>fuel\<close> allows.\<close>

fun iter_collect ::
  "nat \<Rightarrow> ('d, 's) dimension \<Rightarrow> ('u, 's) dimension \<Rightarrow> ('a, 's, 'd, 'u) cursor \<Rightarrow> 'a list option" where
  "iter_collect 0 DS DU c = None"
| "iter_collect (Suc fuel) DS DU c = iter_next DS DU c \<bind> (\<lambda>(r, c'). case r of
     None \<Rightarrow> Some []
   | Some x \<Rightarrow> map_option ((#) x) (iter_collect fuel DS DU c'))"

text \<open>\<open>DoubleEndedIterator::next_back\<close>.\<close>

definition iter_next_back ::
  "('d, 's) dimension \<Rightarrow> ('u, 's) dimension \<Rightarrow> ('a, 's, 'd, 'u) cursor
    \<Rightarrow> ('a option \<times> ('a, 's, 'd, 'u) cursor) option" where
  "iter_next_back DS DU c = do {
     c1 \<leftarrow> (if did_seek c then Some c
            else descend_to_last_item DS DU (cur_tree c) (cur_stack c) (cur_seek c, cur_sum c) \<bind>
              (\<lambda>(stack, pos). Some ((set_place c stack pos)\<lparr>did_seek := True\<rparr>)));
     c2 \<leftarrow> (if at_end c1 then cursor_prev DS DU c1 else Some c1);
     it \<leftarrow> cursor_item c2;
     (case it of
        None \<Rightarrow> Some (None, c2)
      | Some x \<Rightarrow> cursor_prev DS DU c2 \<bind> (\<lambda>c3. Some (Some x, c3)))
   }"

section \<open>One step\<close>

context seeking
begin

lemma next_in_leaf_all:
  "i < length ss \<Longrightarrow> next_in_leaf DS DU (\<lambda>_. True) ss i epos pos =
    Some (Suc i < length ss, Suc i, advance DS DU epos (ss ! i), advance DS DU pos (ss ! i))"
  by (subst next_in_leaf.simps) (simp add: Let_def)

lemma next_in_node_all:
  "i < length css \<Longrightarrow> next_in_node DS DU (\<lambda>_. True) css i epos pos =
    (Suc i, advance DS DU epos (css ! i), pos)"
  by (subst next_in_node.simps) (simp add: Let_def)

lemma find_first_match_all: "ss \<noteq> [] \<Longrightarrow> find_first_match DS DU (\<lambda>_. True) pos i ss = (pos, Some i)"
  by (cases ss) simp_all

lemma descend_first_result:
  assumes "wf_tree summ T" "chain T stack t" "tree_items t \<noteq> []" "length stack + height t < 16"
  shows "\<exists>stack'. descend_to_first_item DS DU (\<lambda>_. True) t stack pos = Some (stack', pos) \<and>
    path T stack' \<and> before stack' = before stack"
  using assms(2-)
proof (induction t arbitrary: stack)
  case (Leaf s xs ss)
  have "ss = map summ xs" using chain_wf [OF Leaf.prems(1) assms(1)] by simp
  with Leaf.prems show ?case
    by (simp add: find_first_match_all push_entry_def path_def mk_entry_def)
next
  case (Internal h s css cts)
  have wf: "wf_tree summ (Internal h s css cts)" using chain_wf [OF Internal.prems(1) assms(1)] by simp
  then have css: "css = map summary cts" "cts \<noteq> []" by auto
  let ?stack = "mk_entry (Internal h s css cts) 0 pos # stack"
  have c: "cts ! 0 \<in> set cts" using css(2) by simp
  have ne: "tree_items (cts ! 0) \<noteq> []" and h: "h = Suc (height (cts ! 0))" using wf c by auto
  have ch: "chain T ?stack (cts ! 0)" using Internal.prems(1) css(2) by (simp add: mk_entry_def)
  obtain stack' where "descend_to_first_item DS DU (\<lambda>_. True) (cts ! 0) ?stack pos = Some (stack', pos)"
      "path T stack'" "before stack' = before ?stack"
    using Internal.IH [OF c ch ne] Internal.prems(3) h by auto
  with css Internal.prems(3) show ?case
    by (simp add: find_first_match_all push_entry_def mk_entry_def)
qed

lemma next_up_result:
  assumes "wf_tree summ T" "height T < 16" "chain T stack t"
  shows "\<exists>stack'. next_loop DS DU (\<lambda>_. True) stack pos = Some (False, stack', pos) \<and>
    (if after stack = [] then stack' = []
     else path T stack' \<and> before stack' = before stack @ tree_items t)"
  using assms(3)
proof (induction stack arbitrary: t)
  case (Cons e stack)
  let ?i = "entry_index e"
  obtain h s css cts where e: "entry_tree e = Internal h s css cts" "?i < length cts" "t = cts ! ?i"
      "chain T stack (Internal h s css cts)"
    using Cons.prems by (auto split: sum_tree.splits)
  have wf: "wf_tree summ (Internal h s css cts)" and hT: "h + length stack = height T"
    using chain_wf [OF e(4) assms(1)] by auto
  then have css: "css = map summary cts" by simp
  let ?epos = "advance DS DU (entry_seek e, entry_sum e) (css ! ?i)"
  have step: "next_in_node DS DU (\<lambda>_. True) css ?i (entry_seek e, entry_sum e) pos = (Suc ?i, ?epos, pos)"
    using e(2) css by (simp add: next_in_node_all)
  show ?case
  proof (cases "Suc ?i < length cts")
    case True
    let ?stack = "mk_entry (Internal h s css cts) (Suc ?i) ?epos # stack" and ?c = "cts ! Suc ?i"
    have c: "?c \<in> set cts" using True by simp
    then have ne: "tree_items ?c \<noteq> []" and h: "h = Suc (height ?c)" using wf by auto
    have ch: "chain T ?stack ?c" using e(4) True by (simp add: mk_entry_def)
    have bf: "before ?stack = before (e # stack) @ tree_items t"
      using e True by (simp add: mk_entry_def take_Suc_conv_app_nth)
    have "after (e # stack) \<noteq> []"
      using e(1) ne nth_mem [of 0 "drop (Suc ?i) cts"] True
      by (auto intro!: bexI [of _ ?c] simp: in_set_conv_nth intro: exI [of _ 0])
    moreover have "length ?stack + height ?c < 16" using hT h assms(2) by simp
    then obtain stack' where "descend_to_first_item DS DU (\<lambda>_. True) ?c ?stack pos = Some (stack', pos)"
        "path T stack'" "before stack' = before ?stack"
      using descend_first_result [OF assms(1) ch ne, of pos] by blast
    ultimately show ?thesis using e(1) step True bf by auto
  next
    case False
    then have "drop (Suc ?i) cts = []" by simp
    moreover have "before (e # stack) @ tree_items t = before stack @ tree_items (Internal h s css cts)"
      using e(1,3) split_child [OF e(2)] False by simp
    ultimately show ?thesis using Cons.IH [OF e(4)] e(1) step False by auto
  qed
qed simp

lemma next_result:
  assumes "wf_tree summ T" "height T < 16" "path T stack"
  shows "\<exists>returned stack'. next_loop DS DU (\<lambda>_. True) stack pos =
      Some (returned, stack', advance DS DU pos (summ (hd (after stack)))) \<and>
    (if tl (after stack) = [] then stack' = [] \<and> \<not> returned
     else path T stack' \<and> before stack' = before stack @ [hd (after stack)])"
proof -
  from assms(3) obtain e rest s xs ss where e: "stack = e # rest" "entry_tree e = Leaf s xs ss"
      "entry_index e < length xs" "chain T rest (Leaf s xs ss)"
    by (auto simp: path_def)
  let ?i = "entry_index e"
  have ss: "ss = map summ xs" using chain_wf [OF e(4) assms(1)] by simp
  have hd: "hd (after stack) = xs ! ?i" and tl: "tl (after stack) = drop (Suc ?i) xs @ after rest"
    using e by (simp_all add: hd_drop_conv_nth drop_Suc tl_drop)
  show ?thesis
  proof (cases "Suc ?i < length xs")
    case True
    with e ss hd tl show ?thesis
      by (intro exI [of _ True]) (simp add: next_in_leaf_all path_def mk_entry_def take_Suc_conv_app_nth)
  next
    case False
    obtain stack' where "next_loop DS DU (\<lambda>_. True) rest (advance DS DU pos (summ (xs ! ?i))) =
        Some (False, stack', advance DS DU pos (summ (xs ! ?i)))"
      "if after rest = [] then stack' = []
       else path T stack' \<and> before stack' = before rest @ tree_items (Leaf s xs ss)"
      using next_up_result [OF assms(1,2) e(4)] by blast
    moreover have "take ?i xs @ [xs ! ?i] = xs"
      using e(3) False take_Suc_conv_app_nth [OF e(3)] by simp
    ultimately show ?thesis using e ss hd tl False by (auto simp: next_in_leaf_all)
  qed
qed

lemma cursor_next_at:
  assumes "wf_tree summ (cur_tree c)" "height (cur_tree c) < 16" "cursor_at DS DU summ n c"
    and "n < length (tree_items (cur_tree c))"
  shows "\<exists>c'. cursor_next DS DU c = Some c' \<and> cur_tree c' = cur_tree c \<and> cursor_at DS DU summ (Suc n) c'"
proof -
  let ?xs = "tree_items (cur_tree c)"
  from assms(3,4) have st: "path (cur_tree c) (cur_stack c)" "before (cur_stack c) = take n ?xs"
      "cur_seek c = measure_of DS summ (take n ?xs)" "cur_sum c = measure_of DU summ (take n ?xs)"
      "did_seek c" "\<not> at_end c"
    by (simp_all add: cursor_at_def Let_def)
  have af: "after (cur_stack c) = drop n ?xs"
    using path_items(1) [OF st(1)] st(2) by (metis append_take_drop_id same_append_eq)
  let ?x = "?xs ! n"
  obtain returned stack' where r: "next_loop DS DU (\<lambda>_. True) (cur_stack c) (cur_seek c, cur_sum c) =
        Some (returned, stack', advance DS DU (cur_seek c, cur_sum c) (summ ?x))"
      "if Suc n = length ?xs then stack' = [] \<and> \<not> returned
       else path (cur_tree c) stack' \<and> before stack' = take (Suc n) ?xs"
    using next_result [OF assms(1,2) st(1), of "(cur_seek c, cur_sum c)"] assms(4) st(2)
    by (auto simp: af hd_drop_conv_nth tl_drop drop_Suc [symmetric] take_Suc_conv_app_nth split: if_splits)
  have m: "advance DS DU (cur_seek c, cur_sum c) (summ ?x) =
      (measure_of DS summ (take (Suc n) ?xs), measure_of DU summ (take (Suc n) ?xs))"
    using assms(4) st(3,4) by (simp add: measure_of_def take_Suc_conv_app_nth S.add_plus U.add_plus)
  have ne: "cur_stack c \<noteq> []" using st(1) by (auto simp: path_def)
  have le: "Suc n \<le> length ?xs" using assms(4) by simp
  have ne': "path (cur_tree c) stack' \<Longrightarrow> stack' \<noteq> []" by (auto simp: path_def)
  show ?thesis
    using r m ne le st(5,6) ne'
    by (auto simp: cursor_next_def next_internal_def cursor_at_def set_place_def Let_def)
qed

text \<open>Stepping from the end stays at the end.\<close>

lemma cursor_next_any:
  assumes "wf_tree summ (cur_tree c)" "height (cur_tree c) < 16" "cursor_at DS DU summ n c"
  shows "\<exists>c'. cursor_next DS DU c = Some c' \<and> cur_tree c' = cur_tree c \<and>
    cursor_at DS DU summ (min (Suc n) (length (tree_items (cur_tree c)))) c'"
proof (cases "n < length (tree_items (cur_tree c))")
  case True
  with cursor_next_at [OF assms] show ?thesis by (simp add: min_absorb1)
next
  case False
  with assms(3) have "cur_stack c = []" "at_end c" "n = length (tree_items (cur_tree c))"
    by (auto simp: cursor_at_def Let_def)
  with assms(3) show ?thesis by (simp add: cursor_next_def next_internal_def cursor_at_def Let_def)
qed

lemma cursor_item_at:
  assumes "wf_tree summ (cur_tree c)" "cursor_at DS DU summ n c"
  shows "cursor_item c = Some (nth_opt (tree_items (cur_tree c)) n)"
proof (cases "n < length (tree_items (cur_tree c))")
  case True
  with assms(2) have st: "path (cur_tree c) (cur_stack c)" "before (cur_stack c) = take n (tree_items (cur_tree c))"
    by (simp_all add: cursor_at_def Let_def)
  have "after (cur_stack c) = drop n (tree_items (cur_tree c))"
    using path_items(1) [OF st(1)] st(2) by (metis append_take_drop_id same_append_eq)
  with True top_item(1) [OF assms(1) st(1)] show ?thesis by (simp add: hd_drop_conv_nth panic_simps)
next
  case False
  with assms(2) show ?thesis by (simp add: cursor_at_def Let_def cursor_item_def nth_opt_def)
qed

text \<open>Looking back: the last item of the nearest subtree to the left.\<close>

lemma prev_leaf_result:
  assumes "wf_tree summ T"
  shows "chain T stack t \<Longrightarrow>
    (if before stack = [] then prev_leaf_in stack = Some None
     else \<exists>s xs ss. prev_leaf_in stack = Some (Some (Leaf s xs ss)) \<and> xs \<noteq> [] \<and> last xs = last (before stack))"
proof (induction stack arbitrary: t)
  case (Cons e stack)
  let ?i = "entry_index e"
  obtain h s css cts where e: "entry_tree e = Internal h s css cts" "?i < length cts"
      "chain T stack (Internal h s css cts)"
    using Cons.prems by (auto split: sum_tree.splits)
  have wf: "wf_tree summ (Internal h s css cts)" using chain_wf [OF e(3) assms] by simp
  show ?case
  proof (cases ?i)
    case 0
    with Cons.IH [OF e(3)] e(1) show ?thesis by (auto split: if_splits)
  next
    case (Suc k)
    let ?c = "cts ! k"
    have c: "wf_tree summ ?c" "tree_items ?c \<noteq> []" using wf Suc e(2) by auto
    obtain s1 xs ss rest where l: "rightmost_leaf ?c = Some (Leaf s1 xs ss)" "tree_items ?c = rest @ xs" "xs \<noteq> []"
      using rightmost_leaf_total [OF c(1)] c(2) by auto
    have "concat (map tree_items (take ?i cts)) = concat (map tree_items (take k cts)) @ tree_items ?c"
      using Suc e(2) by (simp add: take_Suc_conv_app_nth)
    with l e Suc show ?thesis by (simp add: panic_simps)
  qed
qed simp

lemma prev_item_at:
  assumes "wf_tree summ (cur_tree c)" "cursor_at DS DU summ n c"
  shows "prev_item c = Some (if n = 0 then None else Some (tree_items (cur_tree c) ! (n - 1)))"
proof (cases "n < length (tree_items (cur_tree c))")
  case False
  with assms(2) have "cur_stack c = []" "at_end c" "n = length (tree_items (cur_tree c))"
    by (auto simp: cursor_at_def Let_def)
  with tree_last_total [OF assms(1)] show ?thesis
    by (auto simp: prev_item_def last_opt_def last_conv_nth)
next
  case True
  let ?xs = "tree_items (cur_tree c)"
  from True assms(2) have st: "path (cur_tree c) (cur_stack c)" "before (cur_stack c) = take n ?xs"
    by (simp_all add: cursor_at_def Let_def)
  from st(1) obtain e rest s xs ss where e: "cur_stack c = e # rest" "entry_tree e = Leaf s xs ss"
      "entry_index e < length xs" "chain (cur_tree c) rest (Leaf s xs ss)"
    by (auto simp: path_def)
  have last_n: "last (take n ?xs) = ?xs ! (n - 1)" if "n \<noteq> 0"
    using that True by (cases n) (simp_all add: take_Suc_conv_app_nth)
  show ?thesis
  proof (cases "entry_index e")
    case 0
    then have b: "before rest = take n ?xs" using st(2) e(1,2) by simp
    show ?thesis
    proof (cases "n = 0")
      case True
      with b prev_leaf_result [OF assms(1) e(4)] e(1) 0 show ?thesis by (simp add: prev_item_def)
    next
      case False
      with b True have "before rest \<noteq> []" by auto
      with prev_leaf_result [OF assms(1) e(4)] b e(1) 0 False last_n show ?thesis
        by (auto simp: prev_item_def last_opt_def)
    qed
  next
    case (Suc k)
    have eq: "before rest @ take (Suc k) xs = take n ?xs" using st(2) e(1,2) Suc by simp
    then have "n \<noteq> 0" using e(3) Suc by (cases "n = 0") auto
    moreover have "last (take n ?xs) = xs ! k"
      using eq [symmetric] e(3) Suc by (simp add: take_Suc_conv_app_nth)
    ultimately show ?thesis using last_n e Suc by (simp add: prev_item_def panic_simps)
  qed
qed

end

section \<open>The public operations\<close>

text \<open>A cursor fresh from \<open>SumTree::cursor\<close>, or one that stands before item \<open>n\<close>.\<close>

definition cursor_fresh ::
  "('d, 's) dimension \<Rightarrow> ('u, 's) dimension \<Rightarrow> ('a, 's, 'd, 'u) cursor \<Rightarrow> bool" where
  "cursor_fresh DS DU c \<longleftrightarrow> c = cursor_new DS DU (cur_tree c)"

definition cursor_placed ::
  "('d, 's::monoid_add) dimension \<Rightarrow> ('u, 's) dimension \<Rightarrow> ('a \<Rightarrow> 's) \<Rightarrow> nat
    \<Rightarrow> ('a, 's, 'd, 'u) cursor \<Rightarrow> bool" where
  "cursor_placed DS DU summ n c \<longleftrightarrow> cursor_at DS DU summ n c \<or> n = 0 \<and> cursor_fresh DS DU c"

lemma fresh_new [simp]: "cursor_fresh DS DU (cursor_new DS DU t)"
  by (simp add: cursor_fresh_def cursor_new_def)

lemma placed_new [simp]: "cursor_placed DS DU summ 0 (cursor_new DS DU t)"
  by (simp add: cursor_placed_def)

lemma tree_new [simp]: "cur_tree (cursor_new DS DU t) = t"
  by (simp add: cursor_new_def)

lemma freshD:
  assumes "cursor_fresh DS DU c"
  shows "\<not> did_seek c" "cur_stack c = []" "cur_seek c = dim_default DS" "cur_sum c = dim_default DU"
    "\<not> at_end c"
  by (subst assms [unfolded cursor_fresh_def], simp add: cursor_new_def)+

lemma reset_fresh [simp]: "cursor_fresh DS DU (cursor_reset DS DU c)" "cur_tree (cursor_reset DS DU c) = cur_tree c"
  by (simp_all add: cursor_fresh_def cursor_new_def cursor_reset_def)

context seeking
begin

lemma seek_internal_placed:
  assumes "wf_tree summ (cur_tree c)" "height (cur_tree c) < 16" "agg_ok summ agg"
    and "cursor_placed DS DU summ n c"
  shows "seek_result target bias c n agg (seek_internal (env target bias) agg c)"
  using assms(4) seek_internal_at [OF assms(1-3)] seek_internal_fresh [OF assms(1-3)] freshD
  unfolding cursor_placed_def by blast

lemma placed_seek:
  "cursor_placed DS DU summ n c \<Longrightarrow> cur_seek c = measure_of DS summ (take n (tree_items (cur_tree c)))"
  by (auto simp: cursor_placed_def cursor_at_def Let_def freshD measure_of_def S.add_zero)

lemma summary_placed:
  fixes target :: 'd and bias :: seek_bias
  assumes "wf_tree summ (cur_tree c)" "height (cur_tree c) < 16" "cursor_placed DS DU summ n c"
  defines "rem \<equiv> drop n (tree_items (cur_tree c))"
  defines "k \<equiv> passed DS summ target bias (cur_seek c) rem"
  shows "\<exists>c'. cursor_summary DS DU DE target bias c = Some (measure_of DE summ (take k rem), c') \<and>
    cur_tree c' = cur_tree c \<and> cursor_at DS DU summ (n + k) c'"
proof -
  obtain agg' c' where r: "seek_internal (env target bias) (AggSummary (dim_default DE)) c =
        Some (landed target bias (tree_items (cur_tree c)) (n + k), agg', c')"
      "cur_tree c' = cur_tree c" "cursor_at DS DU summ (n + k) c'"
      "agg_add DE summ (AggSummary (dim_default DE)) (take k rem) agg'"
    using seek_internal_placed [OF assms(1,2) _ assms(3), of "AggSummary (dim_default DE)" target bias]
    by (auto simp: seek_result_def Let_def k_def rem_def)
  from r(4) have "agg' = AggSummary (measure_of DE summ (take k rem))"
    by (cases agg') (simp_all add: measure_of_def)
  with r show ?thesis
    by (simp add: cursor_summary_def env_def)
qed

end

interpretation unit_dim: additive_dimension "unit_dimension :: (unit, 's::monoid_add) dimension"
  by unfold_locales (simp_all add: unit_dimension_def)

text \<open>A cursor with its two dimensions; seeks that collect no summary use the dimension \<open>()\<close>.\<close>

locale cursors = S: seek_dimension DS + U: additive_dimension DU
  for DS :: "('d::linorder, 's::monoid_add) dimension" and DU :: "('u, 's) dimension" +
  fixes summ :: "'a \<Rightarrow> 's"

sublocale cursors \<subseteq> unit_seek: seeking DS DU unit_dimension summ
  by unfold_locales

context cursors
begin

lemma seek_placed:
  fixes target :: 'd and bias :: seek_bias
  assumes "wf_tree summ (cur_tree c)" "height (cur_tree c) < 16"
  defines "k \<equiv> passed DS summ target bias (dim_default DS) (tree_items (cur_tree c))"
  shows "\<exists>c'. cursor_seek DS DU target bias c =
      Some (unit_seek.landed target bias (tree_items (cur_tree c)) k, c') \<and>
    cur_tree c' = cur_tree c \<and> cursor_at DS DU summ k c'"
proof -
  let ?c = "cursor_reset DS DU c"
  have "unit_seek.seek_result target bias ?c 0 AggNone (seek_internal (unit_seek.env target bias) AggNone ?c)"
    using unit_seek.seek_internal_placed [of ?c AggNone 0 target bias] assms(1,2)
    by (simp add: cursor_placed_def)
  then show ?thesis
    by (auto simp: unit_seek.seek_result_def Let_def k_def cursor_seek_def unit_seek.env_def
        freshD(3) [OF reset_fresh(1)])
qed

lemma slice_placed:
  fixes target :: 'd and bias :: seek_bias
  assumes "wf_tree summ (cur_tree c)" "height (cur_tree c) < 16" "cursor_placed DS DU summ n c"
  defines "rem \<equiv> drop n (tree_items (cur_tree c))"
  defines "k \<equiv> passed DS summ target bias (cur_seek c) rem"
  shows "\<exists>t c'. cursor_slice DS DU target bias c = Some (t, c') \<and>
    wf_tree summ t \<and> tree_items t = take k rem \<and>
    cur_tree c' = cur_tree c \<and> cursor_at DS DU summ (n + k) c'"
proof -
  have ok: "agg_ok summ (AggSlice new_tree)" by (simp add: wf_intros)
  obtain agg' c' where r: "seek_internal (unit_seek.env target bias) (AggSlice new_tree) c =
        Some (unit_seek.landed target bias (tree_items (cur_tree c)) (n + k), agg', c')"
      "cur_tree c' = cur_tree c" "cursor_at DS DU summ (n + k) c'"
      "agg_add unit_dimension summ (AggSlice new_tree) (take k rem) agg'" "agg_ok summ agg'"
    using unit_seek.seek_internal_placed [OF assms(1,2) ok assms(3), of target bias]
    by (auto simp: unit_seek.seek_result_def Let_def k_def rem_def)
  from r(4) obtain t where "agg' = AggSlice t" "tree_items t = take k rem"
    by (cases agg') (simp_all add: abs_simps)
  with r show ?thesis
    by (simp add: cursor_slice_def unit_seek.env_def)
qed

lemma passed_everything:
  "passed DS summ (measure_of DS summ (take n xs @ rem)) SeekRight (measure_of DS summ (take n xs)) rem = length rem"
proof -
  have "add_summary DS (measure_of DS summ (take n xs)) (tally summ rem) = measure_of DS summ (take n xs @ rem)"
    by (simp add: measure_of_def S.add_plus)
  then show ?thesis
    using S.passed_append_all [of "measure_of DS summ (take n xs @ rem)" SeekRight
        "measure_of DS summ (take n xs)" summ rem "[]"]
    by (simp add: passes_def)
qed

lemma suffix_placed:
  assumes "wf_tree summ (cur_tree c)" "height (cur_tree c) < 16" "cursor_placed DS DU summ n c"
  shows "\<exists>t c'. cursor_suffix DS DU c = Some (t, c') \<and>
    wf_tree summ t \<and> tree_items t = drop n (tree_items (cur_tree c)) \<and>
    cur_tree c' = cur_tree c \<and> cursor_at DS DU summ (length (tree_items (cur_tree c))) c'"
proof -
  let ?xs = "tree_items (cur_tree c)"
  have "extent DS (cur_tree c) = measure_of DS summ (take n ?xs @ drop n ?xs)"
    using assms(1) by (simp add: extent_def measure_of_def summary_tally)
  then have p: "passed DS summ (extent DS (cur_tree c)) SeekRight (cur_seek c) (drop n ?xs) = length ?xs - n"
    using passed_everything [of n ?xs "drop n ?xs"] unit_seek.placed_seek [OF assms(3)] by simp
  have "n \<le> length ?xs" using assms(3) by (auto simp: cursor_placed_def cursor_at_def Let_def)
  then show ?thesis
    using slice_placed [OF assms, of "extent DS (cur_tree c)" SeekRight] p by (simp add: cursor_suffix_def)
qed

lemma start_iteration_result:
  assumes "wf_tree summ (cur_tree c)" "height (cur_tree c) < 16" "cursor_placed DS DU summ n c"
  shows "\<exists>c'. start_iteration DS DU c = Some c' \<and> cur_tree c' = cur_tree c \<and>
    (cursor_at DS DU summ n c' \<or> cur_stack c' = [] \<and> tree_items (cur_tree c) = [])"
proof (cases "cursor_at DS DU summ n c")
  case True
  then show ?thesis by (simp add: start_iteration_def cursor_at_def Let_def)
next
  case False
  with assms(3) have f: "cursor_fresh DS DU c" and n: "n = 0" by (auto simp: cursor_placed_def)
  show ?thesis
  proof (cases "tree_items (cur_tree c) = []")
    case True
    then obtain s where "cur_tree c = Leaf s [] []"
      using wf_leaf_nonempty [OF assms(1)] assms(1) by (cases "cur_tree c") auto
    with freshD [OF f] show ?thesis by (simp add: start_iteration_def set_place_def)
  next
    case False
    have "\<exists>stack'. descend_to_first_item DS DU (\<lambda>_. True) (cur_tree c) [] (cur_seek c, cur_sum c) =
        Some (stack', cur_seek c, cur_sum c) \<and> path (cur_tree c) stack' \<and> before stack' = []"
      using unit_seek.descend_first_result [OF assms(1), of "[]" "cur_tree c"] assms(2) False by simp
    with freshD [OF f] False n show ?thesis
      by (auto simp: start_iteration_def set_place_def cursor_at_def measure_of_def
          S.add_zero U.add_zero)
  qed
qed

lemma iter_next_result:
  assumes "wf_tree summ (cur_tree c)" "height (cur_tree c) < 16" "cursor_placed DS DU summ n c"
  shows "\<exists>c'. iter_next DS DU c = Some (nth_opt (tree_items (cur_tree c)) n, c') \<and> cur_tree c' = cur_tree c \<and>
    (n < length (tree_items (cur_tree c)) \<longrightarrow> cursor_at DS DU summ (Suc n) c')"
proof -
  let ?xs = "tree_items (cur_tree c)"
  obtain c1 where c1: "start_iteration DS DU c = Some c1" "cur_tree c1 = cur_tree c"
      "cursor_at DS DU summ n c1 \<or> cur_stack c1 = [] \<and> ?xs = []"
    using start_iteration_result [OF assms] by auto
  have it: "cursor_item c1 = Some (nth_opt ?xs n)"
    using c1(2,3) unit_seek.cursor_item_at [of c1 n] assms(1)
    by (auto simp: cursor_item_def nth_opt_def)
  show ?thesis
  proof (cases "n < length ?xs")
    case True
    with c1 obtain c2 where "cursor_next DS DU c1 = Some c2" "cur_tree c2 = cur_tree c1"
        "cursor_at DS DU summ (Suc n) c2"
      using unit_seek.cursor_next_at [of c1 n] assms(1,2) by auto
    with True c1 it show ?thesis by (simp add: iter_next_def panic_simps)
  next
    case False
    with c1 it show ?thesis by (simp add: iter_next_def nth_opt_def)
  qed
qed

lemma iter_collect_result:
  assumes "wf_tree summ (cur_tree c)" "height (cur_tree c) < 16" "cursor_placed DS DU summ n c"
    and "length (tree_items (cur_tree c)) < n + fuel"
  shows "iter_collect fuel DS DU c = Some (drop n (tree_items (cur_tree c)))"
  using assms
proof (induction fuel arbitrary: n c)
  case 0
  then show ?case by (auto simp: cursor_placed_def cursor_at_def Let_def)
next
  case (Suc fuel)
  let ?xs = "tree_items (cur_tree c)"
  obtain c' where c': "iter_next DS DU c = Some (nth_opt ?xs n, c')" "cur_tree c' = cur_tree c"
      "n < length ?xs \<longrightarrow> cursor_at DS DU summ (Suc n) c'"
    using iter_next_result [OF Suc.prems(1-3)] by auto
  show ?case
  proof (cases "n < length ?xs")
    case True
    then have "iter_collect fuel DS DU c' = Some (drop (Suc n) (tree_items (cur_tree c')))"
      using Suc.IH [of c' "Suc n"] Suc.prems c' by (simp add: cursor_placed_def)
    with True c' show ?thesis by (simp add: panic_simps Cons_nth_drop_Suc)
  next
    case False
    with c' show ?thesis by (simp add: nth_opt_def)
  qed
qed

text \<open>What follows a position: the item, the next position, the rest of the tree.\<close>

lemma next_placed:
  assumes "wf_tree summ (cur_tree c)" "height (cur_tree c) < 16" "cursor_at DS DU summ n c"
  obtains c' where "cursor_next DS DU c = Some c'" "cur_tree c' = cur_tree c"
    "cursor_at DS DU summ (min (Suc n) (length (tree_items (cur_tree c)))) c'"
  using unit_seek.cursor_next_any [OF assms] by blast

lemma rest_placed:
  assumes "wf_tree summ (cur_tree c)" "height (cur_tree c) < 16" "cursor_at DS DU summ n c"
  obtains t c' where "cursor_suffix DS DU c = Some (t, c')" "wf_tree summ t"
    "tree_items t = drop n (tree_items (cur_tree c))"
  using suffix_placed [OF assms(1,2), of n] assms(3) by (auto simp: cursor_placed_def)

lemma skip_placed:
  assumes "wf_tree summ (cur_tree c)" "height (cur_tree c) < 16" "cursor_at DS DU summ n c"
  obtains c1 t c2 where "cursor_next DS DU c = Some c1" "cursor_suffix DS DU c1 = Some (t, c2)"
    "wf_tree summ t" "tree_items t = drop (Suc n) (tree_items (cur_tree c))"
proof -
  obtain c1 where c1: "cursor_next DS DU c = Some c1" "cur_tree c1 = cur_tree c"
      "cursor_at DS DU summ (min (Suc n) (length (tree_items (cur_tree c)))) c1"
    by (rule next_placed [OF assms])
  obtain t c2 where "cursor_suffix DS DU c1 = Some (t, c2)" "wf_tree summ t"
      "tree_items t = drop (min (Suc n) (length (tree_items (cur_tree c)))) (tree_items (cur_tree c))"
    using rest_placed [OF _ _ c1(3)] c1(2) assms(1,2) by metis
  with c1(1) that show thesis by (simp add: min_def split: if_splits)
qed

end

text \<open>Joining trees around a new item, as the edits of the clients do.\<close>

lemma push_between:
  assumes "wf_tree summ a" "wf_tree summ b"
  obtains p t where "push summ a x = Some p" "push_tree p b = Some t" "wf_tree summ t"
    "tree_items t = tree_items a @ x # tree_items b" "wf_tree summ p" "tree_items p = tree_items a @ [x]"
proof -
  obtain p where p: "push summ a x = Some p" "wf_tree summ p" "tree_items p = tree_items a @ [x]"
    using push_total [OF assms(1)] by blast
  moreover obtain t where "push_tree p b = Some t" "wf_tree summ t" "tree_items t = tree_items p @ tree_items b"
    by (rule tree_seq.app_some [OF p(2) assms(2)])
  ultimately show thesis using that by simp
qed

end
