(* ===== verification/Sum_Properties.thy ===== *)
theory Sum_Properties imports Sum_Step begin

text \<open>
  What the sum tree of \<open>crates/sum_tree\<close> promises to its clients, over the definitions of
  \<open>Sum_Tree\<close>, \<open>Sum_Cursor\<close> and \<open>Sum_Step\<close>: every operation returns (no index panics, no
  full \<open>ArrayVec\<close>), keeps the tree well formed, and acts on the list of items as stated.
\<close>

text \<open>A concrete tree of height 1, and the dimension that counts the sum of its items.\<close>

definition sample_dim :: "(nat, nat) dimension" where
  "sample_dim = \<lparr>dim_default = 0, add_summary = (+)\<rparr>"

definition sample_tree :: "(nat, nat) sum_tree" where
  "sample_tree = Internal 1 21 [6, 15] [Leaf 6 [1, 2, 3] [1, 2, 3], Leaf 15 [4, 5, 6] [4, 5, 6]]"

lemma sample_wf: "wf_tree (\<lambda>x. x) sample_tree" "length (tree_items sample_tree) < TREE_BASE ^ 15"
  by (simp_all add: sample_tree_def TREE_BASE_def)

interpretation sample: seek_dimension sample_dim
  by unfold_locales (simp_all add: sample_dim_def)

lemmas sample_laws = sample.seek_dimension_axioms sample.additive_dimension_axioms

lemma sample_items: "tree_items sample_tree = [1, 2, 3, 4, 5, 6]"
  by (simp add: sample_tree_def)

lemma sample_start:
  "cur_seek (cursor_new sample_dim sample_dim t) = 0" "dim_default sample_dim = 0" "add_summary sample_dim d s = d + s"
  by (simp_all add: cursor_new_def sample_dim_def)

section \<open>Building trees\<close>

text \<open>
  C1: \<open>SumTree::push_tree\<close> on two well-formed trees of any heights returns a well-formed
  tree (right cached summaries, equal leaf depth, no node over \<open>2 * TREE_BASE\<close>) whose items
  are those of the first followed by those of the second; no path of it panics.
\<close>

theorem push_tree_concatenates:
  assumes "wf_tree summ t" "wf_tree summ u"
  shows "\<exists>v. push_tree t u = Some v \<and> wf_tree summ v \<and> tree_items v = tree_items t @ tree_items u \<and>
    summary v = summary t + summary u"
proof -
  obtain v where "push_tree t u = Some v" "wf_tree summ v" "tree_items v = tree_items t @ tree_items u"
    by (rule tree_seq.app_some [OF assms])
  then show ?thesis using summary_wf [of summ] assms by simp
qed

lemma push_tree_concatenates_witness:
  "\<exists>v. push_tree sample_tree sample_tree = Some v \<and> tree_items v = [1, 2, 3, 4, 5, 6, 1, 2, 3, 4, 5, 6]"
  using push_tree_concatenates [OF sample_wf(1) sample_wf(1)] by (auto simp: sample_tree_def)

text \<open>
  \<open>SumTree::extend\<close> packs any number of items into full leaves and appends them in
  order to a well-formed tree; the result is well formed.
\<close>

theorem extend_appends:
  assumes "wf_tree summ t"
  shows "\<exists>v. extend_tree summ t xs = Some v \<and> wf_tree summ v \<and> tree_items v = tree_items t @ xs"
  by (rule extend_total [OF assms])

lemma extend_appends_witness:
  "\<exists>v. extend_tree (\<lambda>x. x) sample_tree [7, 8] = Some v \<and> tree_items v = [1, 2, 3, 4, 5, 6, 7, 8]"
  using extend_appends [OF sample_wf(1), of "[7, 8]"] by (auto simp: sample_tree_def)

text \<open>
  \<open>SumTree::update_last\<close> applies its function to the last item only, recomputes the
  cached summaries up to the root, keeps the tree well formed, and leaves an empty tree alone.
\<close>

theorem update_last_changes_last:
  assumes "wf_tree summ t"
  shows "\<exists>v. update_last summ f t = Some v \<and> wf_tree summ v \<and>
    tree_items v = (if tree_items t = [] then [] else butlast (tree_items t) @ [f (last (tree_items t))])"
  by (rule update_last_total [OF assms])

lemma update_last_changes_last_witness:
  "\<exists>v. update_last (\<lambda>x. x) (\<lambda>x. x + 10) sample_tree = Some v \<and> tree_items v = [1, 2, 3, 4, 5, 16]"
  using update_last_changes_last [OF sample_wf(1), of "\<lambda>x. x + 10"] by (auto simp: sample_tree_def)

section \<open>Cursors\<close>

text \<open>
  C2: \<open>Cursor::slice\<close> from a cursor before item \<open>n\<close> returns exactly the items whose end does
  not lie beyond the target (with the bias breaking ties), as a well-formed tree, and leaves
  the cursor before the first item it did not take: nothing is lost, repeated or reordered.
\<close>

theorem slice_takes_passed_items:
  assumes "seek_dimension DS" "additive_dimension DU" "wf_tree summ (cur_tree c)"
    and "length (tree_items (cur_tree c)) < TREE_BASE ^ 15" "cursor_placed DS DU summ n c"
  shows "\<exists>t c' k. cursor_slice DS DU target bias c = Some (t, c') \<and>
    k = passed DS summ target bias (cur_seek c) (drop n (tree_items (cur_tree c))) \<and>
    wf_tree summ t \<and> tree_items t = take k (drop n (tree_items (cur_tree c))) \<and>
    cur_tree c' = cur_tree c \<and> cursor_at DS DU summ (n + k) c'"
  using cursors.slice_placed [OF cursors.intro [OF assms(1,2)] assms(3) height_small [OF assms(3,4)] assms(5),
      of target bias] by blast

lemma slice_takes_passed_items_witness:
  "\<exists>t c'. cursor_slice sample_dim sample_dim 6 SeekRight (cursor_new sample_dim sample_dim sample_tree) = Some (t, c') \<and>
    tree_items t = [1, 2, 3] \<and> cursor_at sample_dim sample_dim (\<lambda>x. x) 3 c'"
  using slice_takes_passed_items [OF sample_laws, of "\<lambda>x. x" "cursor_new sample_dim sample_dim sample_tree" 0 6 SeekRight]
    sample_wf
  by (auto simp: sample_items sample_start passes_def eval_nat_numeral)

text \<open>
  C3: \<open>Cursor::suffix\<close> from a cursor before item \<open>n\<close> returns all items from \<open>n\<close> on, so a
  slice followed by a suffix splits the tree into two well-formed trees whose items, put
  together, are those of the tree.
\<close>

theorem slice_suffix_partition:
  assumes "seek_dimension DS" "additive_dimension DU" "wf_tree summ t" "length (tree_items t) < TREE_BASE ^ 15"
  shows "\<exists>a b c c'. cursor_slice DS DU target bias (cursor_new DS DU t) = Some (a, c) \<and>
    cursor_suffix DS DU c = Some (b, c') \<and> wf_tree summ a \<and> wf_tree summ b \<and>
    tree_items a @ tree_items b = tree_items t"
proof -
  let ?c = "cursor_new DS DU t" and ?xs = "tree_items t"
  note cur = cursors.intro [OF assms(1,2)]
  let ?k = "passed DS summ target bias (cur_seek ?c) ?xs"
  obtain a c where a: "cursor_slice DS DU target bias ?c = Some (a, c)" "wf_tree summ a"
      "tree_items a = take ?k ?xs" "cur_tree c = t" "cursor_at DS DU summ ?k c"
    using cursors.slice_placed [OF cur, of summ ?c 0 target bias] assms(3) height_small [OF assms(3,4)] by auto
  moreover obtain b c' where "cursor_suffix DS DU c = Some (b, c')" "wf_tree summ b" "tree_items b = drop ?k ?xs"
    using cursors.suffix_placed [OF cur, of summ c ?k] assms(3) height_small [OF assms(3,4)] a(4,5) by (auto simp: cursor_placed_def)
  ultimately show ?thesis by (auto simp: append_take_drop_id)
qed

lemma slice_suffix_partition_witness:
  "\<exists>a b c c'. cursor_slice sample_dim sample_dim 7 SeekLeft (cursor_new sample_dim sample_dim sample_tree) = Some (a, c) \<and>
    cursor_suffix sample_dim sample_dim c = Some (b, c') \<and> tree_items a @ tree_items b = [1, 2, 3, 4, 5, 6]"
proof -
  have "tree_items sample_tree = [1, 2, 3, 4, 5, 6]" by (simp add: sample_tree_def)
  then show ?thesis
    using slice_suffix_partition [OF sample_laws sample_wf, of 7 SeekLeft] by auto
qed

text \<open>
  C4: \<open>Cursor::seek\<close> stops at the first item whose end lies beyond the target and reports
  found exactly when the target is a boundary: the end of that item with the left bias, its
  start with the right bias.  The cursor's two positions are the sums over the items left of it.
\<close>

theorem seek_finds_position:
  assumes "seek_dimension DS" "additive_dimension DU" "wf_tree summ (cur_tree c)" "length (tree_items (cur_tree c)) < TREE_BASE ^ 15"
  shows "\<exists>k c'. k = passed DS summ target bias (dim_default DS) (tree_items (cur_tree c)) \<and>
    cursor_seek DS DU target bias c =
      Some (target = measure_of DS summ
        (take (case bias of SeekLeft \<Rightarrow> Suc k | SeekRight \<Rightarrow> k) (tree_items (cur_tree c))), c') \<and>
    cur_tree c' = cur_tree c \<and> cursor_at DS DU summ k c' \<and>
    cursor_item c' = Some (nth_opt (tree_items (cur_tree c)) k)"
proof -
  note cur = cursors.intro [OF assms(1,2)]
  note sk = seeking.intro [OF assms(1,2) unit_dim.additive_dimension_axioms]
  let ?k = "passed DS summ target bias (dim_default DS) (tree_items (cur_tree c))"
  obtain c' where "cursor_seek DS DU target bias c =
      Some (seeking.landed DS summ target bias (tree_items (cur_tree c)) ?k, c')"
      "cur_tree c' = cur_tree c" "cursor_at DS DU summ ?k c'"
    using cursors.seek_placed [OF cur assms(3) height_small [OF assms(3,4)], of target bias] by auto
  then show ?thesis
    using seeking.cursor_item_at [OF sk, of summ c' ?k] assms(3) by (simp add: seeking.landed_def [OF sk])
qed

lemma seek_finds_position_witness:
  "\<exists>c'. cursor_seek sample_dim sample_dim 6 SeekRight (cursor_new sample_dim sample_dim sample_tree) = Some (True, c') \<and>
    cursor_item c' = Some (Some 4)"
  using seek_finds_position [OF sample_laws, of "\<lambda>x. x" "cursor_new sample_dim sample_dim sample_tree" 6 SeekRight]
    sample_wf
  by (auto simp: sample_items sample_start passes_def measure_of_def nth_opt_def)

text \<open>
  \<open>Cursor::summary\<close> returns, in any additive dimension, the sum over exactly the items
  that \<open>slice\<close> with the same target would return.
\<close>

theorem summary_sums_passed_items:
  assumes "seek_dimension DS" "additive_dimension DU" "additive_dimension DE" "wf_tree summ (cur_tree c)"
    and "length (tree_items (cur_tree c)) < TREE_BASE ^ 15" "cursor_placed DS DU summ n c"
  shows "\<exists>t c'. cursor_slice DS DU target bias c = Some (t, c') \<and>
    (\<exists>c''. cursor_summary DS DU DE target bias c = Some (extent DE t, c'') \<and>
      (\<exists>m. cursor_at DS DU summ m c' \<and> cursor_at DS DU summ m c''))"
proof -
  let ?rem = "drop n (tree_items (cur_tree c))"
  let ?k = "passed DS summ target bias (cur_seek c) ?rem"
  obtain t c' where t: "cursor_slice DS DU target bias c = Some (t, c')" "wf_tree summ t"
      "tree_items t = take ?k ?rem" "cursor_at DS DU summ (n + ?k) c'"
    using cursors.slice_placed [OF cursors.intro [OF assms(1,2)] assms(4) height_small [OF assms(4,5)] assms(6),
        of target bias] by blast
  obtain c'' where "cursor_summary DS DU DE target bias c = Some (measure_of DE summ (take ?k ?rem), c'')"
      "cursor_at DS DU summ (n + ?k) c''"
    using seeking.summary_placed [OF seeking.intro [OF assms(1-3)] assms(4) height_small [OF assms(4,5)] assms(6),
        of target bias] by blast
  moreover have "extent DE t = measure_of DE summ (take ?k ?rem)"
    using t by (simp add: extent_def measure_of_def summary_tally)
  ultimately show ?thesis using t by auto
qed

lemma summary_sums_passed_items_witness:
  "\<exists>t c' c''. cursor_slice sample_dim sample_dim 10 SeekRight (cursor_new sample_dim sample_dim sample_tree) = Some (t, c') \<and>
    cursor_summary sample_dim sample_dim sample_dim 10 SeekRight (cursor_new sample_dim sample_dim sample_tree) =
      Some (extent sample_dim t, c'')"
  using summary_sums_passed_items [OF sample_laws sample_laws(2), of "\<lambda>x. x"
      "cursor_new sample_dim sample_dim sample_tree" 0 10 SeekRight] sample_wf by auto

text \<open>
  C5: \<open>Cursor::next\<close> moves a cursor from item \<open>n\<close> to item \<open>n + 1\<close> across leaf and subtree
  borders, and iterating (the \<open>Iterator\<close> instance) yields every remaining item once, in order,
  and then ends.
\<close>

theorem iteration_yields_items:
  assumes "seek_dimension DS" "additive_dimension DU" "wf_tree summ (cur_tree c)"
    and "length (tree_items (cur_tree c)) < TREE_BASE ^ 15" "cursor_placed DS DU summ n c"
    and "length (tree_items (cur_tree c)) < n + fuel"
  shows "iter_collect fuel DS DU c = Some (drop n (tree_items (cur_tree c)))"
  by (rule cursors.iter_collect_result [OF cursors.intro [OF assms(1,2)] assms(3) height_small [OF assms(3,4)] assms(5,6)])

lemma iteration_yields_items_witness:
  "iter_collect 7 sample_dim sample_dim (cursor_new sample_dim sample_dim sample_tree) = Some [1, 2, 3, 4, 5, 6]"
  using iteration_yields_items [OF sample_laws, of "\<lambda>x. x" "cursor_new sample_dim sample_dim sample_tree" 0 7]
    sample_wf by (simp add: sample_items)

end

