(* ===== verification/Block_Heights.thy ===== *)
theory Block_Heights imports Sum_Step begin

text \<open>
  The items of the terminal's block list as \<open>app/src/terminal/model/blocks.rs\<close> keeps them in
  a sum tree: their heights and counts, the dimensions the code seeks by, and what the
  cursor operations mean for the list of items.  Heights (\<open>Lines\<close>, an \<open>f64\<close> in the code) are
  values of any ordered group: the arithmetic here is exact.
\<close>

section \<open>Items\<close>

datatype rich_content_type =
  AIBlock | EnterAgentView | WarpifySuccessBlock | InlineAgentViewHeader | AgentViewZeroState
| TerminalViewZeroState | PluginInstructionsBlock

datatype inline_banner_type =
  NotificationsDiscovery | NotificationsError | PromptSuggestions | AliasExpansion
| SharedSessionStart | SharedSessionEnd | ShellProcessTerminated | OpenInWarp | VimMode
| AgentModeSetup | AwsBedrockLogin | AwsCliNotInstalled

fun is_visible_in_agent_view :: "inline_banner_type \<Rightarrow> bool" where
  "is_visible_in_agent_view PromptSuggestions = True"
| "is_visible_in_agent_view AgentModeSetup = True"
| "is_visible_in_agent_view AwsBedrockLogin = True"
| "is_visible_in_agent_view AwsCliNotInstalled = True"
| "is_visible_in_agent_view _ = False"

record inline_banner_item =
  banner_id :: nat
  banner_type :: inline_banner_type

datatype transcript_scope = Unfiltered | Terminal | Conversation nat

fun is_conversation :: "transcript_scope \<Rightarrow> bool" where
  "is_conversation (Conversation c) = True"
| "is_conversation _ = False"

record 'h rich_content_item =
  content_type :: "rich_content_type option"
  view_id :: nat
  last_laid_out_height :: 'h
  agent_view_conversation_id :: "nat option"
  should_hide :: bool
  is_agent_transcript_user_query :: bool

text \<open>\<open>should_hide_for_transcript_scope\<close>; the flag is \<open>FeatureFlag::AgentView\<close>.\<close>

definition should_hide_for_transcript_scope ::
  "bool \<Rightarrow> transcript_scope \<Rightarrow> 'h rich_content_item \<Rightarrow> bool" where
  "should_hide_for_transcript_scope agent_view scope item =
     (if \<not> agent_view then False
      else case scope of
        Unfiltered \<Rightarrow> False
      | Terminal \<Rightarrow> agent_view_conversation_id item \<noteq> None
      | Conversation c \<Rightarrow> Some c \<noteq> agent_view_conversation_id item)"

datatype 'h block_height_item =
  Block 'h
| Gap 'h
| RestoredBlockSeparator 'h bool bool
| InlineBanner 'h inline_banner_item bool
| SubshellSeparator 'h nat bool
| RichContent "'h rich_content_item"

fun item_height :: "'h::zero block_height_item \<Rightarrow> 'h" where
  "item_height (Block h) = h"
| "item_height (Gap h) = h"
| "item_height (RestoredBlockSeparator h historical is_hidden) = (if is_hidden then 0 else h)"
| "item_height (InlineBanner h banner is_hidden) = (if is_hidden then 0 else h)"
| "item_height (SubshellSeparator h sid is_hidden) = (if is_hidden then 0 else h)"
| "item_height (RichContent item) = (if should_hide item then 0 else last_laid_out_height item)"

fun is_block :: "'h block_height_item \<Rightarrow> bool" where
  "is_block (Block h) = True"
| "is_block _ = False"

fun is_gap :: "'h block_height_item \<Rightarrow> bool" where
  "is_gap (Gap h) = True"
| "is_gap _ = False"

section \<open>Summaries\<close>

datatype 'h block_height_summary =
  BlockHeightSummary (total_count: nat) (sum_height: 'h) (block_count: nat)

instantiation block_height_summary :: (monoid_add) monoid_add
begin

definition zero_block_height_summary :: "'a block_height_summary" where
  "zero_block_height_summary = BlockHeightSummary 0 0 0"

definition plus_block_height_summary ::
  "'a block_height_summary \<Rightarrow> 'a block_height_summary \<Rightarrow> 'a block_height_summary" where
  "plus_block_height_summary a b =
     BlockHeightSummary (total_count a + total_count b) (sum_height a + sum_height b) (block_count a + block_count b)"

instance
  by intro_classes (simp_all add: zero_block_height_summary_def plus_block_height_summary_def add.assoc)

end

lemma summary_zero [simp]:
  "total_count 0 = 0" "sum_height 0 = 0" "block_count 0 = 0"
  by (simp_all add: zero_block_height_summary_def)

lemma summary_plus [simp]:
  "total_count (a + b) = total_count a + total_count b"
  "sum_height (a + b) = sum_height a + sum_height b"
  "block_count (a + b) = block_count a + block_count b"
  by (simp_all add: plus_block_height_summary_def)

definition block_item_summary :: "'h::zero block_height_item \<Rightarrow> 'h block_height_summary" where
  "block_item_summary x = BlockHeightSummary 1 (item_height x) (if is_block x then 1 else 0)"

type_synonym 'h heights = "('h block_height_item, 'h block_height_summary) sum_tree"

section \<open>Dimensions\<close>

definition total_index :: "(nat, 'h block_height_summary) dimension" where
  "total_index = \<lparr>dim_default = 0, add_summary = (\<lambda>d s. d + total_count s)\<rparr>"

definition block_index :: "(nat, 'h block_height_summary) dimension" where
  "block_index = \<lparr>dim_default = 0, add_summary = (\<lambda>d s. d + block_count s)\<rparr>"

definition block_height :: "('h, 'h::monoid_add block_height_summary) dimension" where
  "block_height = \<lparr>dim_default = 0, add_summary = (\<lambda>d s. d + sum_height s)\<rparr>"

definition height_summary :: "('h block_height_summary, 'h::monoid_add block_height_summary) dimension" where
  "height_summary = \<lparr>dim_default = 0, add_summary = (+)\<rparr>"

interpretation total_index: seek_dimension "total_index :: (nat, 'h::monoid_add block_height_summary) dimension"
  by unfold_locales (simp_all add: total_index_def add.assoc)

interpretation block_index: seek_dimension "block_index :: (nat, 'h::monoid_add block_height_summary) dimension"
  by unfold_locales (simp_all add: block_index_def add.assoc)

interpretation block_height: additive_dimension "block_height :: ('h, 'h::monoid_add block_height_summary) dimension"
  by unfold_locales (simp_all add: block_height_def add.assoc)

interpretation height_summary: additive_dimension
  "height_summary :: ('h block_height_summary, 'h::monoid_add block_height_summary) dimension"
  by unfold_locales (simp_all add: height_summary_def add.assoc)

abbreviation unit_pos :: "(unit, 'h block_height_summary) dimension" where
  "unit_pos \<equiv> unit_dimension"

interpretation by_total: cursors
  "total_index :: (nat, 'h::monoid_add block_height_summary) dimension" unit_dimension block_item_summary
  by unfold_locales

interpretation by_block: cursors
  "block_index :: (nat, 'h::monoid_add block_height_summary) dimension" unit_dimension block_item_summary
  by unfold_locales

interpretation by_block_total: cursors
  "block_index :: (nat, 'h::monoid_add block_height_summary) dimension" total_index block_item_summary
  by unfold_locales

interpretation by_total_summary: cursors
  "total_index :: (nat, 'h::monoid_add block_height_summary) dimension" height_summary block_item_summary
  by unfold_locales

section \<open>What the counts mean for the list of items\<close>

text \<open>The index in the list of the \<open>n\<close>-th block.\<close>

fun block_pos :: "nat \<Rightarrow> 'h block_height_item list \<Rightarrow> nat" where
  "block_pos n [] = 0"
| "block_pos n (x # xs) =
     (if is_block x then (case n of 0 \<Rightarrow> 0 | Suc m \<Rightarrow> Suc (block_pos m xs)) else Suc (block_pos n xs))"

definition blocks_in :: "'h block_height_item list \<Rightarrow> nat" where
  "blocks_in xs = length (filter is_block xs)"

lemma blocks_in_simps [simp]:
  "blocks_in [] = 0" "blocks_in (x # xs) = (if is_block x then Suc (blocks_in xs) else blocks_in xs)"
  "blocks_in (xs @ ys) = blocks_in xs + blocks_in ys"
  by (simp_all add: blocks_in_def)

lemma block_pos_le: "block_pos n xs \<le> length xs"
  by (induction n xs rule: block_pos.induct) (auto split: nat.split)

lemma block_pos_block: "n < blocks_in xs \<Longrightarrow> block_pos n xs < length xs \<and> is_block (xs ! block_pos n xs) \<and>
    blocks_in (take (block_pos n xs) xs) = n"
  by (induction n xs rule: block_pos.induct) (auto split: nat.split if_splits)

lemma block_pos_end: "blocks_in xs \<le> n \<Longrightarrow> block_pos n xs = length xs"
  by (induction n xs rule: block_pos.induct) (auto split: nat.split if_splits)

lemma passed_total_right:
  "passed total_index block_item_summary i SeekRight d xs = min (i - d) (length xs)"
  by (induction xs arbitrary: d) (auto simp: total_index_def block_item_summary_def passes_def)

lemma passed_total_left:
  "passed total_index block_item_summary i SeekLeft d xs = min (i - Suc d) (length xs)"
  by (induction xs arbitrary: d) (auto simp: total_index_def block_item_summary_def passes_def)

lemma passed_block_right:
  "d \<le> n \<Longrightarrow> passed block_index block_item_summary n SeekRight d xs = block_pos (n - d) xs"
proof (induction xs arbitrary: d)
  case (Cons x xs)
  show ?case
  proof (cases "is_block x")
    case False
    with Cons show ?thesis by (simp add: block_index_def block_item_summary_def passes_def)
  next
    case True
    moreover have "n - Suc d = n - d - 1" by simp
    ultimately show ?thesis using Cons.IH [of "Suc d"] Cons.prems
      by (cases "n - d") (auto simp: block_index_def block_item_summary_def passes_def)
  qed
qed simp

lemma passed_block_left:
  "d \<le> n \<Longrightarrow> passed block_index block_item_summary (Suc n) SeekLeft d xs = block_pos (n - d) xs"
proof (induction xs arbitrary: d)
  case (Cons x xs)
  show ?case
  proof (cases "is_block x")
    case False
    with Cons show ?thesis by (simp add: block_index_def block_item_summary_def passes_def)
  next
    case True
    moreover have "n - Suc d = n - d - 1" by simp
    ultimately show ?thesis using Cons.IH [of "Suc d"] Cons.prems
      by (cases "n - d") (auto simp: block_index_def block_item_summary_def passes_def)
  qed
qed simp

lemma tally_blocks [simp]:
  "total_count (tally block_item_summary xs) = length xs"
  "block_count (tally block_item_summary xs) = blocks_in xs"
  "sum_height (tally block_item_summary xs) = sum_list (map item_height xs)"
  by (induction xs) (simp_all add: block_item_summary_def)

lemma summary_values:
  assumes "wf_tree block_item_summary t"
  shows "total_count (summary t) = length (tree_items t)" "block_count (summary t) = blocks_in (tree_items t)"
    "sum_height (summary t) = sum_list (map item_height (tree_items t))"
  by (simp_all add: summary_tally [OF assms])

lemma measure_total: "measure_of total_index block_item_summary xs = length xs"
  by (simp add: measure_of_def total_index_def)

lemma measure_block: "measure_of block_index block_item_summary xs = blocks_in xs"
  by (simp add: measure_of_def block_index_def)

lemma dim_start [simp]:
  "dim_default total_index = 0" "dim_default block_index = 0"
  "cur_seek (cursor_new total_index DU t) = 0" "cur_seek (cursor_new block_index DU t) = 0"
  by (simp_all add: total_index_def block_index_def cursor_new_def)

section \<open>The code's cuts, as cuts of the list\<close>

text \<open>A tree of heights with room for \<open>n\<close> more items in a cursor's stack.\<close>

definition room :: "nat \<Rightarrow> 'h::monoid_add heights \<Rightarrow> bool" where
  "room n t \<longleftrightarrow> wf_tree block_item_summary t \<and> length (tree_items t) + n < TREE_BASE ^ 15"

lemma roomD: "room n t \<Longrightarrow> wf_tree block_item_summary t" "room n t \<Longrightarrow> height t < 16"
  using height_small [of block_item_summary t] by (auto simp: room_def)

lemma room_mono: "room m t \<Longrightarrow> n \<le> m \<Longrightarrow> room n t"
  by (simp add: room_def)

lemma room_le:
  "room m t \<Longrightarrow> wf_tree block_item_summary u \<Longrightarrow> length (tree_items u) + n \<le> length (tree_items t) + m \<Longrightarrow> room n u"
  by (simp add: room_def)

lemma slice_total:
  assumes "room 0 t"
  obtains a c where "cursor_slice total_index unit_dimension i SeekRight (cursor_new total_index unit_dimension t) = Some (a, c)"
    "wf_tree block_item_summary a" "tree_items a = take i (tree_items t)" "cur_tree c = t"
    "cursor_at total_index unit_dimension block_item_summary (min i (length (tree_items t))) c"
proof -
  have "passed total_index block_item_summary i SeekRight 0 (tree_items t) =
      min i (length (tree_items t))"
    by (simp add: passed_total_right)
  then show thesis
    using by_total.slice_placed [of "cursor_new total_index unit_dimension t" 0 i SeekRight] that roomD [OF assms]
    by (auto simp: min_def split: if_splits)
qed

lemma seek_total:
  assumes "room 0 t"
  obtains found c where "cursor_seek total_index unit_dimension i SeekRight (cursor_new total_index unit_dimension t) = Some (found, c)"
    "cur_tree c = t" "cursor_at total_index unit_dimension block_item_summary (min i (length (tree_items t))) c"
proof -
  have "passed total_index block_item_summary i SeekRight 0 (tree_items t) =
      min i (length (tree_items t))"
    by (simp add: passed_total_right)
  then show thesis
    using by_total.seek_placed [of "cursor_new total_index unit_dimension t" i SeekRight] that roomD [OF assms]
    by auto
qed

lemma seek_total_left:
  assumes "room 0 t"
  obtains found c where "cursor_seek total_index unit_dimension i SeekLeft (cursor_new total_index unit_dimension t) = Some (found, c)"
    "cur_tree c = t" "cursor_at total_index unit_dimension block_item_summary (min (i - 1) (length (tree_items t))) c"
proof -
  have "passed total_index block_item_summary i SeekLeft 0 (tree_items t) =
      min (i - 1) (length (tree_items t))"
    by (simp add: passed_total_left)
  then show thesis
    using by_total.seek_placed [of "cursor_new total_index unit_dimension t" i SeekLeft] that roomD [OF assms]
    by auto
qed

lemma slice_block_right:
  assumes "room 0 t"
  obtains a c where "cursor_slice block_index unit_dimension n SeekRight (cursor_new block_index unit_dimension t) = Some (a, c)"
    "wf_tree block_item_summary a" "tree_items a = take (block_pos n (tree_items t)) (tree_items t)" "cur_tree c = t"
    "cursor_at block_index unit_dimension block_item_summary (block_pos n (tree_items t)) c"
proof -
  have "passed block_index block_item_summary n SeekRight 0 (tree_items t) =
      block_pos n (tree_items t)"
    using passed_block_right [of 0 n] by simp
  then show thesis
    using by_block.slice_placed [of "cursor_new block_index unit_dimension t" 0 n SeekRight] that roomD [OF assms]
    by auto
qed

lemma slice_block_left:
  assumes "room 0 t"
  obtains a c where "cursor_slice block_index unit_dimension (Suc n) SeekLeft (cursor_new block_index unit_dimension t) = Some (a, c)"
    "wf_tree block_item_summary a" "tree_items a = take (block_pos n (tree_items t)) (tree_items t)" "cur_tree c = t"
    "cursor_at block_index unit_dimension block_item_summary (block_pos n (tree_items t)) c"
proof -
  have "passed block_index block_item_summary (Suc n) SeekLeft 0 (tree_items t) =
      block_pos n (tree_items t)"
    using passed_block_left [of 0 n] by simp
  then show thesis
    using by_block.slice_placed [of "cursor_new block_index unit_dimension t" 0 "Suc n" SeekLeft] that roomD [OF assms]
    by auto
qed

lemma slice_block_total:
  assumes "room 0 t"
  obtains a c where "cursor_slice block_index total_index (Suc n) SeekLeft (cursor_new block_index total_index t) = Some (a, c)"
    "wf_tree block_item_summary a" "tree_items a = take (block_pos n (tree_items t)) (tree_items t)" "cur_tree c = t"
    "cursor_at block_index total_index block_item_summary (block_pos n (tree_items t)) c"
    "cur_sum c = block_pos n (tree_items t)"
proof -
  have "passed block_index block_item_summary (Suc n) SeekLeft 0 (tree_items t) =
      block_pos n (tree_items t)"
    using passed_block_left [of 0 n] by simp
  then obtain a c where "cursor_slice block_index total_index (Suc n) SeekLeft (cursor_new block_index total_index t) = Some (a, c)"
    "wf_tree block_item_summary a" "tree_items a = take (block_pos n (tree_items t)) (tree_items t)" "cur_tree c = t"
    "cursor_at block_index total_index block_item_summary (block_pos n (tree_items t)) c"
    using by_block_total.slice_placed [of "cursor_new block_index total_index t" 0 "Suc n" SeekLeft] roomD [OF assms]
    by auto
  moreover from this(4,5) have "cur_sum c = block_pos n (tree_items t)"
    using block_pos_le [of n "tree_items t"] by (simp add: cursor_at_def measure_total Let_def)
  ultimately show thesis by (rule that)
qed

end
