(* ===== verification/Block_List.thy ===== *)
theory Block_List imports Block_Heights begin

text \<open>
  The operations of \<open>BlockList\<close> (\<open>app/src/terminal/model/blocks.rs\<close>) that keep the tree of
  block heights, the positions of removable items and the active gap in step.  A terminal
  \<open>Block\<close> is opaque: what the block list asks of it is the record \<open>block_ops\<close>.  Events sent
  to the view are recorded in order.
\<close>

section \<open>State\<close>

datatype removable_item = InlineBannerKey nat | RichContentKey nat

record 'h gap =
  gap_index :: nat
  current_height :: 'h
  original_height :: 'h

datatype block_list_event =
  Wakeup | TerminalClear | VisibleBootstrapBlock | AfterBlockCompleted nat | BackgroundBlockStarted

record ('b, 'h) block_ops =
  blk_height :: "transcript_scope \<Rightarrow> 'b \<Rightarrow> 'h"
  blk_is_background :: "'b \<Rightarrow> bool"
  blk_finished :: "'b \<Rightarrow> bool"
  blk_is_in_band :: "'b \<Rightarrow> bool"
  blk_is_empty :: "transcript_scope \<Rightarrow> 'b \<Rightarrow> bool"
  blk_long_running :: "'b \<Rightarrow> bool"
  blk_finish :: "'b \<Rightarrow> 'b"
  blk_id :: "'b \<Rightarrow> nat"
  blk_index :: "'b \<Rightarrow> nat"
  blk_reset_index :: "nat \<Rightarrow> 'b \<Rightarrow> 'b"
  blk_emit_bootstrap :: "'b \<Rightarrow> bool"
  blk_mark_bootstrap :: "'b \<Rightarrow> 'b"

record ('b, 'h) block_list =
  blocks :: "'b list"
  block_heights :: "'h heights"
  block_id_to_block_index :: "nat \<rightharpoonup> nat"
  dirty_rich_content_items :: "nat set"
  next_gap_height :: "'h option"
  positions :: "removable_item \<rightharpoonup> nat"
  active_gap :: "'h gap option"
  scope :: transcript_scope
  pinned_to_bottom :: "nat option"
  events :: "block_list_event list"

definition send :: "block_list_event \<Rightarrow> ('b, 'h) block_list \<Rightarrow> ('b, 'h) block_list" where
  "send e bl = bl\<lparr>events := events bl @ [e]\<rparr>"

definition active_block_index :: "('b, 'h) block_list \<Rightarrow> nat option" where
  "active_block_index bl = checked_sub (length (blocks bl)) 1"

definition active_block :: "('b, 'h) block_list \<Rightarrow> 'b option" where
  "active_block bl = last_opt (blocks bl)"

abbreviation total_cursor ::
  "('b, 'h) block_list \<Rightarrow> ('h block_height_item, 'h block_height_summary, nat, unit) cursor" where
  "total_cursor bl \<equiv> cursor_new total_index unit_dimension (block_heights bl)"

abbreviation block_cursor ::
  "('b, 'h) block_list \<Rightarrow> ('h block_height_item, 'h block_height_summary, nat, unit) cursor" where
  "block_cursor bl \<equiv> cursor_new block_index unit_dimension (block_heights bl)"

section \<open>Tracked indices\<close>

datatype block_height_update = Insertion nat | Removal nat

fun shift_position :: "block_height_update \<Rightarrow> nat \<Rightarrow> nat" where
  "shift_position (Insertion i) pos = (if pos > i then pos + 1 else pos)"
| "shift_position (Removal i) pos = (if pos > i then pos - 1 else pos)"

fun shift_gap :: "block_height_update \<Rightarrow> nat \<Rightarrow> nat option" where
  "shift_gap (Insertion i) g = Some (if g \<ge> i then g + 1 else g)"
| "shift_gap (Removal i) g = (if g \<ge> i then checked_sub g 1 else Some g)"

definition update_block_height_indices ::
  "block_height_update \<Rightarrow> ('b, 'h) block_list \<Rightarrow> ('b, 'h) block_list option" where
  "update_block_height_indices upd bl =
     (let bl1 = bl\<lparr>positions := (\<lambda>k. map_option (shift_position upd) (positions bl k))\<rparr>
      in case active_gap bl1 of
           None \<Rightarrow> Some bl1
         | Some g \<Rightarrow> shift_gap upd (gap_index g) \<bind> (\<lambda>i.
             Some (bl1\<lparr>active_gap := Some (g\<lparr>gap_index := i\<rparr>)\<rparr>)))"

section \<open>Heights of live blocks\<close>

text \<open>The height of everything after the gap, before a block changes.\<close>

definition height_after_gap ::
  "('b, 'h::linordered_ab_group_add) block_list \<Rightarrow> 'h option" where
  "height_after_gap bl = (case active_gap bl of
     None \<Rightarrow> Some 0
   | Some g \<Rightarrow> do {
       (found, c) \<leftarrow> cursor_seek total_index unit_dimension (gap_index g) SeekRight (total_cursor bl);
       it \<leftarrow> cursor_item c;
       (case it of
          Some (Gap h) \<Rightarrow> do {
            c \<leftarrow> cursor_next total_index unit_dimension c;
            (tree_after_gap, c) \<leftarrow> cursor_suffix total_index unit_dimension c;
            Some (sum_height (summary tree_after_gap))
          }
        | _ \<Rightarrow> Some 0)
     })"

text \<open>Replacing the height of block \<open>i\<close>; also returns the height it had.\<close>

definition replace_block_height ::
  "nat \<Rightarrow> 'h::linordered_ab_group_add \<Rightarrow> ('b, 'h) block_list \<Rightarrow> ('h \<times> ('b, 'h) block_list) option" where
  "replace_block_height i h bl = do {
     (tree, c) \<leftarrow> cursor_slice block_index unit_dimension (i + 1) SeekLeft (block_cursor bl);
     it \<leftarrow> cursor_item c;
     let previous = (case it of Some (Block h') \<Rightarrow> h' | _ \<Rightarrow> 0);
     tree \<leftarrow> push block_item_summary tree (Block h);
     c \<leftarrow> cursor_next block_index unit_dimension c;
     (suffix, c) \<leftarrow> cursor_suffix block_index unit_dimension c;
     tree \<leftarrow> push_tree tree suffix;
     Some (previous, bl\<lparr>block_heights := tree\<rparr>)
   }"

text \<open>Shrinking the gap by the height that came in after it; a gap of height zero goes.\<close>

definition shrink_gap ::
  "'h::linordered_ab_group_add \<Rightarrow> ('b, 'h) block_list \<Rightarrow> ('b, 'h) block_list option" where
  "shrink_gap previous_after_gap_height bl = (case active_gap bl of
     None \<Rightarrow> Some bl
   | Some g \<Rightarrow> do {
       (before_gap, c) \<leftarrow> cursor_slice total_index unit_dimension (gap_index g) SeekRight (total_cursor bl);
       it \<leftarrow> cursor_item c;
       (case it of
          Some (Gap h) \<Rightarrow> do {
            c \<leftarrow> cursor_next total_index unit_dimension c;
            (after_gap, c) \<leftarrow> cursor_suffix total_index unit_dimension c;
            let height_added = sum_height (summary after_gap) - previous_after_gap_height;
            let new_height = min (max (h - height_added) 0) (original_height g);
            if new_height > 0 then do {
              tree \<leftarrow> push block_item_summary before_gap (Gap new_height);
              tree \<leftarrow> push_tree tree after_gap;
              Some (bl\<lparr>block_heights := tree, active_gap := Some (g\<lparr>current_height := new_height\<rparr>)\<rparr>)
            } else do {
              tree \<leftarrow> push_tree before_gap after_gap;
              update_block_height_indices (Removal (gap_index g)) (bl\<lparr>block_heights := tree, active_gap := None\<rparr>)
            }
          }
        | _ \<Rightarrow> Some (bl\<lparr>active_gap := None\<rparr>))
     })"

definition update_live_block_height ::
  "('b, 'h::linordered_ab_group_add) block_ops \<Rightarrow> nat \<Rightarrow> ('b, 'h) block_list \<Rightarrow> ('b, 'h) block_list option" where
  "update_live_block_height ops i bl = do {
     previous_after_gap_height \<leftarrow> height_after_gap bl;
     (case nth_opt (blocks bl) i of
        None \<Rightarrow> Some bl
      | Some b \<Rightarrow> do {
          let h = blk_height ops (scope bl) b;
          (previous, bl) \<leftarrow> replace_block_height i h bl;
          bl \<leftarrow> shrink_gap previous_after_gap_height bl;
          if previous = 0 \<and> h > 0 \<and> blk_emit_bootstrap ops b
          then Some (send VisibleBootstrapBlock (bl\<lparr>blocks := (blocks bl)[i := blk_mark_bootstrap ops b]\<rparr>))
          else Some bl
        })
   }"

definition update_block_height_at_idx ::
  "('b, 'h::linordered_ab_group_add) block_ops \<Rightarrow> nat \<Rightarrow> ('b, 'h) block_list \<Rightarrow> ('b, 'h) block_list option" where
  "update_block_height_at_idx ops i bl = (case nth_opt (blocks bl) i of
     None \<Rightarrow> Some bl
   | Some b \<Rightarrow> map_option snd (replace_block_height i (blk_height ops (scope bl) b) bl))"

text \<open>The background block is the one before the active block, skipping in-band commands.\<close>

fun skip_in_band :: "('b, 'h) block_ops \<Rightarrow> 'b list \<Rightarrow> nat \<Rightarrow> nat option" where
  "skip_in_band ops bs 0 = (if blk_is_in_band ops (bs ! 0) then None else Some 0)"
| "skip_in_band ops bs (Suc i) = (if blk_is_in_band ops (bs ! Suc i) then skip_in_band ops bs i else Some (Suc i))"

definition background_block :: "('b, 'h) block_ops \<Rightarrow> ('b, 'h) block_list \<Rightarrow> nat option option" where
  "background_block ops bl = active_block_index bl \<bind> (\<lambda>active. Some (
     checked_sub active 1 \<bind> (\<lambda>index.
     skip_in_band ops (blocks bl) index \<bind> (\<lambda>i.
     if blk_is_background ops (blocks bl ! i) \<and> \<not> blk_finished ops (blocks bl ! i) then Some i else None))))"

definition finish_background_block ::
  "('b, 'h::linordered_ab_group_add) block_ops \<Rightarrow> ('b, 'h) block_list \<Rightarrow> ('b, 'h) block_list option" where
  "finish_background_block ops bl = background_block ops bl \<bind> (\<lambda>r. case r of
     None \<Rightarrow> Some bl
   | Some i \<Rightarrow>
       (let b = blk_finish ops (blocks bl ! i);
            bl1 = bl\<lparr>blocks := (blocks bl)[i := b]\<rparr>;
            bl2 = (if blk_is_empty ops (scope bl) b then bl1 else send (AfterBlockCompleted (blk_id ops b)) bl1)
        in update_live_block_height ops (blk_index ops b) bl2))"

section \<open>Inserting and removing items that are not blocks\<close>

definition append_item_to_blocklist ::
  "('b, 'h::linordered_ab_group_add) block_ops \<Rightarrow> 'h block_height_item \<Rightarrow> ('b, 'h) block_list
    \<Rightarrow> (nat \<times> ('b, 'h) block_list) option" where
  "append_item_to_blocklist ops item bl = do {
     bl \<leftarrow> finish_background_block ops bl;
     let inserted_index = total_count (summary (block_heights bl));
     tree \<leftarrow> push block_item_summary (block_heights bl) item;
     bl \<leftarrow> update_block_height_indices (Insertion inserted_index) (bl\<lparr>block_heights := tree\<rparr>);
     Some (inserted_index, send Wakeup bl)
   }"

definition insert_non_block_item_before_block ::
  "('b, 'h::linordered_ab_group_add) block_ops \<Rightarrow> nat \<Rightarrow> 'h block_height_item \<Rightarrow> ('b, 'h) block_list
    \<Rightarrow> (nat \<times> ('b, 'h) block_list) option" where
  "insert_non_block_item_before_block ops index item bl = do {
     bl \<leftarrow> finish_background_block ops bl;
     (prefix, c) \<leftarrow> cursor_slice block_index unit_dimension index SeekRight (block_cursor bl);
     let inserted_index = total_count (summary prefix);
     prefix \<leftarrow> push block_item_summary prefix item;
     (suffix, c) \<leftarrow> cursor_suffix block_index unit_dimension c;
     tree \<leftarrow> push_tree prefix suffix;
     bl \<leftarrow> update_block_height_indices (Insertion inserted_index) (bl\<lparr>block_heights := tree\<rparr>);
     Some (inserted_index, send Wakeup bl)
   }"

definition insert_inline_banner_before_block ::
  "('b, 'h::linordered_ab_group_add) block_ops \<Rightarrow> nat \<Rightarrow> inline_banner_item \<Rightarrow> 'h \<Rightarrow> ('b, 'h) block_list
    \<Rightarrow> ('b, 'h) block_list option" where
  "insert_inline_banner_before_block ops index banner h bl = do {
     (inserted_index, bl) \<leftarrow> insert_non_block_item_before_block ops index (InlineBanner h banner False) bl;
     Some (bl\<lparr>positions := (positions bl)(InlineBannerKey (banner_id banner) \<mapsto> inserted_index)\<rparr>)
   }"

definition insert_inline_banner_after_block ::
  "('b, 'h::linordered_ab_group_add) block_ops \<Rightarrow> nat \<Rightarrow> inline_banner_item \<Rightarrow> 'h \<Rightarrow> ('b, 'h) block_list
    \<Rightarrow> ('b, 'h) block_list option" where
  "insert_inline_banner_after_block ops index banner h bl =
     insert_inline_banner_before_block ops (index + 1) banner h bl"

definition append_inline_banner_after_long_running ::
  "('b, 'h::linordered_ab_group_add) block_ops \<Rightarrow> inline_banner_item \<Rightarrow> 'h \<Rightarrow> ('b, 'h) block_list
    \<Rightarrow> ('b, 'h) block_list option" where
  "append_inline_banner_after_long_running ops banner h bl = do {
     b \<leftarrow> active_block bl;
     i \<leftarrow> active_block_index bl;
     if blk_long_running ops b then insert_inline_banner_after_block ops i banner h bl
     else insert_inline_banner_before_block ops i banner h bl
   }"

definition removable_at :: "'h block_height_item option \<Rightarrow> bool" where
  "removable_at it \<longleftrightarrow> (case it of
     Some (InlineBanner h banner is_hidden) \<Rightarrow> True | Some (RichContent r) \<Rightarrow> True | _ \<Rightarrow> False)"

text \<open>A key without a position, or a position without a removable item, leaves the tree alone.\<close>

definition remove_item_from_blocklist ::
  "removable_item \<Rightarrow> ('b, 'h::linordered_ab_group_add) block_list \<Rightarrow> ('b, 'h) block_list option" where
  "remove_item_from_blocklist key bl = (case positions bl key of
     None \<Rightarrow> Some bl
   | Some index \<Rightarrow> do {
       let bl = bl\<lparr>positions := (positions bl)(key := None)\<rparr>;
       (tree, c) \<leftarrow> cursor_slice total_index unit_dimension index SeekRight (total_cursor bl);
       it \<leftarrow> cursor_item c;
       if \<not> removable_at it then Some bl
       else do {
         c \<leftarrow> cursor_next total_index unit_dimension c;
         (suffix, c) \<leftarrow> cursor_suffix total_index unit_dimension c;
         tree \<leftarrow> push_tree tree suffix;
         bl \<leftarrow> update_block_height_indices (Removal index) (bl\<lparr>block_heights := tree\<rparr>);
         Some (send Wakeup bl)
       }
     })"

definition remove_rich_content ::
  "nat \<Rightarrow> ('b, 'h::linordered_ab_group_add) block_list \<Rightarrow> ('b, 'h) block_list option" where
  "remove_rich_content vid bl =
     remove_item_from_blocklist (RichContentKey vid)
       (bl\<lparr>dirty_rich_content_items := dirty_rich_content_items bl - {vid}\<rparr>) \<bind> (\<lambda>bl.
     Some (if pinned_to_bottom bl = Some vid then bl\<lparr>pinned_to_bottom := None\<rparr> else bl))"

text \<open>
  \<open>append_rich_content\<close> up to its last call, \<open>maintain_pinned_to_bottom\<close>, which calls it
  again with nothing pinned; the call it makes then does nothing.
\<close>

definition append_rich_content_once ::
  "('b, 'h::linordered_ab_group_add) block_ops \<Rightarrow> 'h rich_content_item \<Rightarrow> bool \<Rightarrow> ('b, 'h) block_list
    \<Rightarrow> ('b, 'h) block_list option" where
  "append_rich_content_once ops item below_long_running bl = do {
     b \<leftarrow> active_block bl;
     (index, bl) \<leftarrow> (if blk_long_running ops b \<and> below_long_running
       then append_item_to_blocklist ops (RichContent item) bl
       else active_block_index bl \<bind> (\<lambda>i. insert_non_block_item_before_block ops i (RichContent item) bl));
     Some (bl\<lparr>positions := (positions bl)(RichContentKey (view_id item) \<mapsto> index),
              dirty_rich_content_items := insert (view_id item) (dirty_rich_content_items bl)\<rparr>)
   }"

definition maintain_pinned_to_bottom ::
  "('b, 'h::linordered_ab_group_add) block_ops \<Rightarrow> ('b, 'h) block_list \<Rightarrow> ('b, 'h) block_list option" where
  "maintain_pinned_to_bottom ops bl = (case pinned_to_bottom bl of
     None \<Rightarrow> Some bl
   | Some vid \<Rightarrow>
       (let bl = bl\<lparr>pinned_to_bottom := None\<rparr> in
        case positions bl (RichContentKey vid) of
          None \<Rightarrow> Some bl
        | Some index \<Rightarrow> do {
            (found, c) \<leftarrow> cursor_seek total_index unit_dimension index SeekRight (total_cursor bl);
            it \<leftarrow> cursor_item c;
            (case it of
               Some (RichContent item) \<Rightarrow> do {
                 bl \<leftarrow> remove_rich_content vid bl;
                 bl \<leftarrow> append_rich_content_once ops item True bl;
                 Some (bl\<lparr>pinned_to_bottom := Some vid\<rparr>)
               }
             | _ \<Rightarrow> Some bl)
          }))"

definition append_rich_content ::
  "('b, 'h::linordered_ab_group_add) block_ops \<Rightarrow> 'h rich_content_item \<Rightarrow> bool \<Rightarrow> ('b, 'h) block_list
    \<Rightarrow> ('b, 'h) block_list option" where
  "append_rich_content ops item below_long_running bl =
     append_rich_content_once ops item below_long_running bl \<bind> maintain_pinned_to_bottom ops"

definition append_rich_content_pinned_to_bottom ::
  "('b, 'h::linordered_ab_group_add) block_ops \<Rightarrow> 'h rich_content_item \<Rightarrow> ('b, 'h) block_list
    \<Rightarrow> ('b, 'h) block_list option" where
  "append_rich_content_pinned_to_bottom ops item bl =
     append_rich_content ops item True bl \<bind> (\<lambda>bl. Some (bl\<lparr>pinned_to_bottom := Some (view_id item)\<rparr>))"

definition insert_rich_content_before_block_index ::
  "('b, 'h::linordered_ab_group_add) block_ops \<Rightarrow> 'h rich_content_item \<Rightarrow> nat \<Rightarrow> ('b, 'h) block_list
    \<Rightarrow> ('b, 'h) block_list option" where
  "insert_rich_content_before_block_index ops item i bl = do {
     (index, bl) \<leftarrow> insert_non_block_item_before_block ops i (RichContent item) bl;
     maintain_pinned_to_bottom ops
       (bl\<lparr>positions := (positions bl)(RichContentKey (view_id item) \<mapsto> index),
           dirty_rich_content_items := insert (view_id item) (dirty_rich_content_items bl)\<rparr>)
   }"

definition insert_rich_content_after_item ::
  "removable_item \<Rightarrow> 'h::linordered_ab_group_add rich_content_item \<Rightarrow> ('b, 'h) block_list
    \<Rightarrow> (bool \<times> ('b, 'h) block_list) option" where
  "insert_rich_content_after_item after_item item bl = (case positions bl after_item of
     None \<Rightarrow> Some (False, bl)
   | Some current \<Rightarrow> do {
       (prefix, c) \<leftarrow> cursor_slice total_index unit_dimension (current + 1) SeekRight (total_cursor bl);
       let inserted_index = total_count (summary prefix);
       prefix \<leftarrow> push block_item_summary prefix (RichContent item);
       (suffix, c) \<leftarrow> cursor_suffix total_index unit_dimension c;
       tree \<leftarrow> push_tree prefix suffix;
       bl \<leftarrow> update_block_height_indices (Insertion inserted_index) (bl\<lparr>block_heights := tree\<rparr>);
       let shifted = (\<lambda>k. map_option (\<lambda>pos. if pos = inserted_index then pos + 1 else pos) (positions bl k));
       Some (True, send Wakeup (bl\<lparr>positions := shifted(RichContentKey (view_id item) \<mapsto> inserted_index)\<rparr>))
     })"

definition get_previous_block_height_item ::
  "removable_item \<Rightarrow> ('b, 'h::linordered_ab_group_add) block_list \<Rightarrow> 'h block_height_item option option" where
  "get_previous_block_height_item key bl = (case positions bl key of
     None \<Rightarrow> Some None
   | Some index \<Rightarrow> do {
       (found, c) \<leftarrow> cursor_seek total_index unit_dimension index SeekLeft (total_cursor bl);
       ignored \<leftarrow> prev_item c;
       cursor_item c
     })"

section \<open>Inserting and removing blocks\<close>

definition reset_internal_block_index ::
  "('b, 'h) block_ops \<Rightarrow> nat \<Rightarrow> ('b, 'h) block_list \<Rightarrow> ('b, 'h) block_list" where
  "reset_internal_block_index ops i bl = (case nth_opt (blocks bl) i of
     None \<Rightarrow> bl
   | Some b \<Rightarrow>
       (let b' = blk_reset_index ops i b
        in bl\<lparr>blocks := (blocks bl)[i := b'],
              block_id_to_block_index := (block_id_to_block_index bl)(blk_id ops b' \<mapsto> i)\<rparr>))"

definition remove_block_at_index ::
  "('b, 'h::linordered_ab_group_add) block_ops \<Rightarrow> nat \<Rightarrow> ('b, 'h) block_list \<Rightarrow> ('b \<times> ('b, 'h) block_list) option" where
  "remove_block_at_index ops i bl = do {
     b \<leftarrow> nth_opt (blocks bl) i;
     let bl = bl\<lparr>blocks := take i (blocks bl) @ drop (Suc i) (blocks bl),
                 block_id_to_block_index := (block_id_to_block_index bl)(blk_id ops b := None)\<rparr>;
     let bl = foldl (\<lambda>bl j. reset_internal_block_index ops j bl) bl [i ..< length (blocks bl)];
     (tree, c) \<leftarrow> cursor_slice block_index total_index (i + 1) SeekLeft
       (cursor_new block_index total_index (block_heights bl));
     let removed_index = cur_sum c;
     c \<leftarrow> cursor_next block_index total_index c;
     (suffix, c) \<leftarrow> cursor_suffix block_index total_index c;
     tree \<leftarrow> push_tree tree suffix;
     bl \<leftarrow> update_block_height_indices (Removal removed_index) (bl\<lparr>block_heights := tree\<rparr>);
     Some (b, bl)
   }"

definition remove_background_block ::
  "('b, 'h::linordered_ab_group_add) block_ops \<Rightarrow> ('b, 'h) block_list \<Rightarrow> ('b option \<times> ('b, 'h) block_list) option" where
  "remove_background_block ops bl = background_block ops bl \<bind> (\<lambda>r. case r of
     None \<Rightarrow> Some (None, bl)
   | Some i \<Rightarrow> map_option (\<lambda>(b, bl). (Some b, bl)) (remove_block_at_index ops (blk_index ops (blocks bl ! i)) bl))"

definition insert_background_block ::
  "('b, 'h::linordered_ab_group_add) block_ops \<Rightarrow> 'b \<Rightarrow> ('b, 'h) block_list \<Rightarrow> ('b, 'h) block_list option" where
  "insert_background_block ops b bl = do {
     i \<leftarrow> active_block_index bl;
     let bl = bl\<lparr>blocks := take i (blocks bl) @ b # drop i (blocks bl)\<rparr>;
     let bl = reset_internal_block_index ops (i + 1) (reset_internal_block_index ops i bl);
     (tree, c) \<leftarrow> cursor_slice block_index unit_dimension (i + 1) SeekLeft (block_cursor bl);
     tree \<leftarrow> push block_item_summary tree (Block 0);
     (suffix, c) \<leftarrow> cursor_suffix block_index unit_dimension c;
     tree \<leftarrow> push_tree tree suffix;
     bl \<leftarrow> update_live_block_height ops i (bl\<lparr>block_heights := tree\<rparr>);
     Some (send BackgroundBlockStarted bl)
   }"

section \<open>Clearing the screen\<close>

definition do_clear_visible_screen ::
  "('b, 'h::linordered_ab_group_add) block_ops \<Rightarrow> ('b, 'h) block_list \<Rightarrow> ('b, 'h) block_list option" where
  "do_clear_visible_screen ops bl = do {
     bl \<leftarrow> finish_background_block ops bl;
     items \<leftarrow> iter_collect (Suc (total_count (summary (block_heights bl)))) total_index unit_dimension (total_cursor bl);
     new_tree \<leftarrow> foldl (\<lambda>r x. r \<bind> (\<lambda>t. if is_gap x then Some t else push block_item_summary t x)) (Some new_tree) items;
     (tree, c) \<leftarrow> cursor_slice block_index unit_dimension (length (blocks bl)) SeekLeft
       (cursor_new block_index unit_dimension new_tree);
     let bl = bl\<lparr>block_heights := tree\<rparr>;
     (case next_gap_height bl of
        None \<Rightarrow> Some (bl\<lparr>active_gap := None\<rparr>)
      | Some gh \<Rightarrow> do {
          b \<leftarrow> active_block bl;
          let h = blk_height ops (scope bl) b;
          if h > 0 then do {
            tree \<leftarrow> push block_item_summary tree (Block h);
            tree \<leftarrow> push block_item_summary tree (Gap gh);
            index \<leftarrow> checked_sub (total_count (summary tree)) 1;
            Some (send TerminalClear (bl\<lparr>block_heights := tree,
              active_gap := Some \<lparr>gap_index = index, current_height = gh, original_height = gh\<rparr>\<rparr>))
          } else do {
            tree \<leftarrow> push block_item_summary tree (Gap gh);
            index \<leftarrow> checked_sub (total_count (summary tree)) 1;
            tree \<leftarrow> push block_item_summary tree (Block h);
            Some (send TerminalClear (bl\<lparr>block_heights := tree,
              active_gap := Some \<lparr>gap_index = index, current_height = gh, original_height = gh\<rparr>\<rparr>))
          }
        })
   }"

end
