(* ===== verification/Block_Tracking.thy ===== *)
theory Block_Tracking imports Block_List begin

text \<open>
  The invariant that ties the block list's indices to its tree: every tracked position holds
  the item it is kept for, the active gap is the only gap of the tree, and the tree has one
  block item per block.  Each operation of \<open>Block_List\<close> is described by what it does to the
  list of items, and most of them keep the invariant.
\<close>

section \<open>Tracking on lists\<close>

fun names :: "removable_item \<Rightarrow> 'h block_height_item \<Rightarrow> bool" where
  "names (InlineBannerKey k) (InlineBanner h b is_hidden) \<longleftrightarrow> banner_id b = k"
| "names (RichContentKey v) (RichContent r) \<longleftrightarrow> view_id r = v"
| "names k x \<longleftrightarrow> False"

definition tracks_positions :: "'h block_height_item list \<Rightarrow> (removable_item \<rightharpoonup> nat) \<Rightarrow> bool" where
  "tracks_positions xs ps \<longleftrightarrow> (\<forall>k p. ps k = Some p \<longrightarrow> p < length xs \<and> names k (xs ! p))"

definition tracks_gap :: "'h block_height_item list \<Rightarrow> 'h gap option \<Rightarrow> bool" where
  "tracks_gap xs g \<longleftrightarrow> (case g of
     None \<Rightarrow> \<forall>x \<in> set xs. \<not> is_gap x
   | Some g \<Rightarrow> gap_index g < length xs \<and> xs ! gap_index g = Gap (current_height g) \<and>
       (\<forall>i < length xs. is_gap (xs ! i) \<longrightarrow> i = gap_index g))"

definition insert_at :: "nat \<Rightarrow> 'a \<Rightarrow> 'a list \<Rightarrow> 'a list" where
  "insert_at i x xs = take i xs @ x # drop i xs"

definition remove_at :: "nat \<Rightarrow> 'a list \<Rightarrow> 'a list" where
  "remove_at i xs = take i xs @ drop (Suc i) xs"

lemma length_insert_at [simp]: "i \<le> length xs \<Longrightarrow> length (insert_at i x xs) = Suc (length xs)"
  by (simp add: insert_at_def)

lemma length_remove_at [simp]: "i < length xs \<Longrightarrow> length (remove_at i xs) = length xs - 1"
  by (simp add: remove_at_def)

lemma nth_insert_at:
  "i \<le> length xs \<Longrightarrow> j < Suc (length xs) \<Longrightarrow>
    insert_at i x xs ! j = (if j < i then xs ! j else if j = i then x else xs ! (j - 1))"
  by (auto simp: insert_at_def nth_append min_def nth_Cons split: nat.split intro: arg_cong [where f = "nth xs"])

lemma nth_remove_at:
  "i < length xs \<Longrightarrow> j < length xs - 1 \<Longrightarrow> remove_at i xs ! j = (if j < i then xs ! j else xs ! Suc j)"
  by (auto simp: remove_at_def nth_append min_def)

lemma names_not_block: "names k x \<Longrightarrow> \<not> is_block x \<and> \<not> is_gap x"
  by (cases x; cases k) simp_all

lemma names_unique: "names k x \<Longrightarrow> names k' x \<Longrightarrow> k = k'"
  by (cases x; cases k; cases k') auto

text \<open>Positions shifted as for an insertion before position \<open>i\<close>, whatever is tracked there.\<close>

abbreviation shift_up :: "nat \<Rightarrow> nat \<Rightarrow> nat" where
  "shift_up i p \<equiv> (if p \<ge> i then p + 1 else p)"

lemma tracks_positions_insert:
  assumes "tracks_positions xs ps" "i \<le> length xs"
  shows "tracks_positions (insert_at i x xs) (\<lambda>k. map_option (shift_up i) (ps k))"
  unfolding tracks_positions_def
proof (intro allI impI)
  fix k p
  assume "map_option (shift_up i) (ps k) = Some p"
  then obtain q where q: "ps k = Some q" "p = shift_up i q" by auto
  then have "q < length xs" "names k (xs ! q)" using assms(1) by (auto simp: tracks_positions_def)
  with q(2) assms(2) show "p < length (insert_at i x xs) \<and> names k (insert_at i x xs ! p)"
    by (simp add: nth_insert_at)
qed

lemma tracks_positions_insert_free:
  assumes "tracks_positions xs ps" "i \<le> length xs" "\<And>k. ps k \<noteq> Some i"
  shows "tracks_positions (insert_at i x xs) (\<lambda>k. map_option (shift_position (Insertion i)) (ps k))"
proof -
  have "(\<lambda>k. map_option (shift_position (Insertion i)) (ps k)) = (\<lambda>k. map_option (shift_up i) (ps k))"
    using assms(3) by (auto simp: fun_eq_iff map_option_case split: option.split)
  then show ?thesis using tracks_positions_insert [OF assms(1,2)] by simp
qed

lemma tracks_positions_new:
  assumes "tracks_positions xs ps" "i < length xs" "names k (xs ! i)"
  shows "tracks_positions xs (ps(k \<mapsto> i))"
  using assms by (simp add: tracks_positions_def)

lemma tracks_positions_remove:
  assumes "tracks_positions xs ps" "i < length xs" "\<And>k. ps k \<noteq> Some i"
  shows "tracks_positions (remove_at i xs) (\<lambda>k. map_option (shift_position (Removal i)) (ps k))"
  unfolding tracks_positions_def
proof (intro allI impI)
  fix k p
  assume "map_option (shift_position (Removal i)) (ps k) = Some p"
  then obtain q where q: "ps k = Some q" "p = shift_position (Removal i) q" by auto
  then have "q < length xs" "names k (xs ! q)" "q \<noteq> i"
    using assms by (auto simp: tracks_positions_def)
  with q(2) assms(2) show "p < length (remove_at i xs) \<and> names k (remove_at i xs ! p)"
    by (auto simp: nth_remove_at)
qed

lemma tracks_positions_update:
  assumes "tracks_positions xs ps" "\<And>k. names k (xs ! i) \<Longrightarrow> names k y"
  shows "tracks_positions (xs[i := y]) ps"
  unfolding tracks_positions_def
proof (intro allI impI)
  fix k p
  assume "ps k = Some p"
  then have "p < length xs" "names k (xs ! p)" using assms(1) by (auto simp: tracks_positions_def)
  with assms(2) [of k] show "p < length (xs[i := y]) \<and> names k (xs[i := y] ! p)"
    by (cases "p = i") simp_all
qed

lemma tracks_positions_drop: "tracks_positions xs ps \<Longrightarrow> tracks_positions xs (ps(k := None))"
  by (simp add: tracks_positions_def)

lemma tracks_free:
  "tracks_positions xs ps \<Longrightarrow> i = length xs \<or> is_block (xs ! i) \<or> is_gap (xs ! i) \<Longrightarrow> ps k \<noteq> Some i"
  using names_not_block by (auto simp: tracks_positions_def)

lemma tracks_distinct: "tracks_positions xs ps \<Longrightarrow> ps k = Some i \<Longrightarrow> ps k' = Some i \<Longrightarrow> k = k'"
  using names_unique [of k "xs ! i" k'] by (simp add: tracks_positions_def)

lemma tracks_gap_SomeI:
  assumes "gap_index g < length xs" "xs ! gap_index g = Gap (current_height g)"
    and "\<And>i. i < length xs \<Longrightarrow> i \<noteq> gap_index g \<Longrightarrow> \<not> is_gap (xs ! i)"
  shows "tracks_gap xs (Some g)"
  using assms unfolding tracks_gap_def by auto

lemma tracks_gap_SomeD:
  assumes "tracks_gap xs (Some g)"
  shows "gap_index g < length xs" "xs ! gap_index g = Gap (current_height g)"
    "\<And>i. i < length xs \<Longrightarrow> i \<noteq> gap_index g \<Longrightarrow> \<not> is_gap (xs ! i)"
  using assms unfolding tracks_gap_def by auto

lemma tracks_gap_None: "tracks_gap xs None \<longleftrightarrow> (\<forall>x \<in> set xs. \<not> is_gap x)"
  by (simp add: tracks_gap_def)

text \<open>What \<open>update_block_height_indices\<close> makes of the gap.\<close>

definition moved_gap :: "block_height_update \<Rightarrow> 'h gap option \<Rightarrow> 'h gap option \<Rightarrow> bool" where
  "moved_gap upd g g' \<longleftrightarrow> (case g of None \<Rightarrow> g' = None
     | Some a \<Rightarrow> \<exists>j. shift_gap upd (gap_index a) = Some j \<and> g' = Some (a\<lparr>gap_index := j\<rparr>))"

lemma tracks_gap_insert:
  assumes "tracks_gap xs g" "i \<le> length xs" "\<not> is_gap x"
  shows "\<exists>g'. moved_gap (Insertion i) g g' \<and> tracks_gap (insert_at i x xs) g'"
proof (cases g)
  case None
  with assms have "tracks_gap (insert_at i x xs) None"
    by (auto simp: tracks_gap_None insert_at_def dest: in_set_takeD in_set_dropD)
  with None show ?thesis by (auto simp: moved_gap_def)
next
  case (Some a)
  note a = tracks_gap_SomeD [OF assms(1) [unfolded Some]]
  let ?j = "shift_up i (gap_index a)"
  have "tracks_gap (insert_at i x xs) (Some (a\<lparr>gap_index := ?j\<rparr>))"
  proof (rule tracks_gap_SomeI)
    fix q
    assume q: "q < length (insert_at i x xs)" "q \<noteq> gap_index (a\<lparr>gap_index := ?j\<rparr>)"
    show "\<not> is_gap (insert_at i x xs ! q)"
      using q assms(2,3) a(3) [of q] a(3) [of "q - 1"]
      by (cases "q < i"; cases "q = i") (auto simp: nth_insert_at split: if_splits)
  qed (use a assms(2) in \<open>simp_all add: nth_insert_at\<close>)
  with Some show ?thesis by (simp add: moved_gap_def)
qed

lemma tracks_gap_remove:
  assumes "tracks_gap xs g" "i < length xs" "\<not> is_gap (xs ! i)"
  shows "\<exists>g'. moved_gap (Removal i) g g' \<and> tracks_gap (remove_at i xs) g'"
proof (cases g)
  case None
  with assms have "tracks_gap (remove_at i xs) None"
    by (auto simp: tracks_gap_None remove_at_def dest: in_set_takeD in_set_dropD)
  with None show ?thesis by (auto simp: moved_gap_def)
next
  case (Some a)
  note a = tracks_gap_SomeD [OF assms(1) [unfolded Some]]
  let ?j = "if gap_index a \<ge> i then gap_index a - 1 else gap_index a"
  have ne: "gap_index a \<noteq> i" using assms(3) a(2) by auto
  have "tracks_gap (remove_at i xs) (Some (a\<lparr>gap_index := ?j\<rparr>))"
  proof (rule tracks_gap_SomeI)
    fix q
    assume q: "q < length (remove_at i xs)" "q \<noteq> gap_index (a\<lparr>gap_index := ?j\<rparr>)"
    then show "\<not> is_gap (remove_at i xs ! q)"
      using assms(2) ne a(3) [of q] a(3) [of "Suc q"]
      by (cases "q < i") (auto simp: nth_remove_at split: if_splits)
  qed (use a assms(2) ne in \<open>auto simp: nth_remove_at split: if_splits\<close>)
  with Some ne show ?thesis
    by (cases "gap_index a \<ge> i") (simp_all add: moved_gap_def checked_sub_def)
qed

lemma tracks_gap_update:
  assumes "tracks_gap xs g" "\<not> is_gap (xs ! i)" "\<not> is_gap y"
  shows "tracks_gap (xs[i := y]) g"
proof (cases g)
  case None
  with assms show ?thesis
    using set_update_subset_insert [of xs i y] by (auto simp: tracks_gap_None)
next
  case (Some a)
  note a = tracks_gap_SomeD [OF assms(1) [unfolded Some]]
  have ne: "gap_index a \<noteq> i" using assms(2) a(2) by auto
  show ?thesis unfolding Some
  proof (rule tracks_gap_SomeI)
    fix q
    assume "q < length (xs[i := y])" "q \<noteq> gap_index a"
    with a(3) [of q] assms(3) show "\<not> is_gap (xs[i := y] ! q)" by (cases "q = i") simp_all
  qed (use a ne in simp_all)
qed

section \<open>The invariant and the operations\<close>

abbreviation items_of :: "('b, 'h::monoid_add) block_list \<Rightarrow> 'h block_height_item list" where
  "items_of bl \<equiv> tree_items (block_heights bl)"

definition block_list_ok :: "nat \<Rightarrow> ('b, 'h::monoid_add) block_list \<Rightarrow> bool" where
  "block_list_ok n bl \<longleftrightarrow> room n (block_heights bl) \<and> blocks bl \<noteq> [] \<and>
     blocks_in (items_of bl) = length (blocks bl) \<and>
     tracks_positions (items_of bl) (positions bl) \<and> tracks_gap (items_of bl) (active_gap bl)"

lemma block_list_okD:
  assumes "block_list_ok n bl"
  shows "room n (block_heights bl)" "room 0 (block_heights bl)" "blocks bl \<noteq> []" "blocks_in (items_of bl) = length (blocks bl)"
    "tracks_positions (items_of bl) (positions bl)" "tracks_gap (items_of bl) (active_gap bl)"
  using assms room_mono [of n "block_heights bl" 0] by (simp_all add: block_list_ok_def)

lemma update_indices_moved:
  assumes "moved_gap upd (active_gap bl) g"
  shows "update_block_height_indices upd bl =
    Some (bl\<lparr>positions := (\<lambda>k. map_option (shift_position upd) (positions bl k)), active_gap := g\<rparr>)"
  using assms
  by (cases "active_gap bl") (auto simp: update_block_height_indices_def moved_gap_def Let_def)

lemma blocks_in_insert_at: "blocks_in (insert_at i x xs) = blocks_in xs + (if is_block x then 1 else 0)"
proof -
  have "blocks_in xs = blocks_in (take i xs @ drop i xs)" by simp
  then show ?thesis unfolding insert_at_def by (simp del: append_take_drop_id)
qed

lemma blocks_in_split:
  "i < length xs \<Longrightarrow> blocks_in xs = blocks_in (take i xs) + (if is_block (xs ! i) then 1 else 0) + blocks_in (drop (Suc i) xs)"
  by (subst id_take_nth_drop [of i xs]) simp_all

lemma blocks_in_update:
  assumes "is_block (xs ! i) \<longleftrightarrow> is_block y"
  shows "blocks_in (xs[i := y]) = blocks_in xs"
proof (cases "i < length xs")
  case True
  with assms show ?thesis by (simp add: upd_conv_take_nth_drop blocks_in_split)
qed (simp add: list_update_beyond)

lemma blocks_in_remove_at:
  "i < length xs \<Longrightarrow> blocks_in (remove_at i xs) + (if is_block (xs ! i) then 1 else 0) = blocks_in xs"
  by (simp add: remove_at_def blocks_in_split)

lemma replace_block_height_result:
  fixes bl :: "('b, 'h::linordered_ab_group_add) block_list"
  assumes "room 0 (block_heights bl)" "i < blocks_in (items_of bl)"
  obtains t old where "replace_block_height i h bl = Some (old, bl\<lparr>block_heights := t\<rparr>)"
    "wf_tree block_item_summary t" "tree_items t = (items_of bl)[block_pos i (items_of bl) := Block h]"
    "items_of bl ! block_pos i (items_of bl) = Block old"
proof -
  let ?xs = "items_of bl" and ?p = "block_pos i (items_of bl)"
  have p: "?p < length ?xs" "is_block (?xs ! ?p)" using block_pos_block [OF assms(2)] by simp_all
  then obtain old where old: "?xs ! ?p = Block old" by (cases "?xs ! ?p") simp_all
  obtain a c where a: "cursor_slice block_index unit_dimension (Suc i) SeekLeft (block_cursor bl) = Some (a, c)"
      "wf_tree block_item_summary a" "tree_items a = take ?p ?xs" "cur_tree c = block_heights bl"
      "cursor_at block_index unit_dimension block_item_summary ?p c"
    by (rule slice_block_left [OF assms(1)])
  note wf = roomD [OF assms(1)]
  have it: "cursor_item c = Some (Some (Block old))"
    using by_block.unit_seek.cursor_item_at [OF _ a(5)] a(4) wf(1) p(1) old by (simp add: panic_simps)
  obtain c1 b c2 where b: "cursor_next block_index unit_dimension c = Some c1"
      "cursor_suffix block_index unit_dimension c1 = Some (b, c2)" "wf_tree block_item_summary b"
      "tree_items b = drop (Suc ?p) ?xs"
    using by_block.skip_placed [OF _ _ a(5)] a(4) wf by metis
  obtain q t where t: "push block_item_summary a (Block h) = Some q" "push_tree q b = Some t"
      "wf_tree block_item_summary t" "tree_items t = tree_items a @ Block h # tree_items b"
    by (rule push_between [OF a(2) b(3)])
  have "replace_block_height i h bl = Some (old, bl\<lparr>block_heights := t\<rparr>)"
    using a(1) it b(1,2) t(1,2) by (simp add: replace_block_height_def)
  with t(3,4) a(3) b(4) p(1) old that show thesis by (simp add: upd_conv_take_nth_drop)
qed

definition new_gap_height :: "'h::linordered_ab_group_add block_height_item list \<Rightarrow> 'h gap \<Rightarrow> 'h \<Rightarrow> 'h" where
  "new_gap_height xs g previous_after =
     min (max (current_height g - (sum_list (map item_height (drop (Suc (gap_index g)) xs)) - previous_after)) 0)
       (original_height g)"

lemma shrink_gap_result:
  fixes bl :: "('b, 'h::linordered_ab_group_add) block_list"
  assumes "room 0 (block_heights bl)" "tracks_gap (items_of bl) (active_gap bl)"
    and "tracks_positions (items_of bl) (positions bl)"
  shows "case active_gap bl of
      None \<Rightarrow> shrink_gap prev bl = Some bl
    | Some g \<Rightarrow> \<exists>t. wf_tree block_item_summary t \<and>
        (let h = new_gap_height (items_of bl) g prev in
         if h > 0 then
           shrink_gap prev bl = Some (bl\<lparr>block_heights := t, active_gap := Some (g\<lparr>current_height := h\<rparr>)\<rparr>) \<and>
           tree_items t = (items_of bl)[gap_index g := Gap h]
         else
           shrink_gap prev bl = Some (bl\<lparr>block_heights := t, active_gap := None,
             positions := (\<lambda>k. map_option (shift_position (Removal (gap_index g))) (positions bl k))\<rparr>) \<and>
           tree_items t = remove_at (gap_index g) (items_of bl))"
proof (cases "active_gap bl")
  case None
  then show ?thesis by (simp add: shrink_gap_def)
next
  case (Some g)
  let ?xs = "items_of bl" and ?p = "gap_index g"
  let ?h = "new_gap_height ?xs g prev"
  note g = tracks_gap_SomeD [OF assms(2) [unfolded Some]]
  note wf = roomD [OF assms(1)]
  obtain a c where a: "cursor_slice total_index unit_dimension ?p SeekRight (total_cursor bl) = Some (a, c)"
      "wf_tree block_item_summary a" "tree_items a = take ?p ?xs" "cur_tree c = block_heights bl"
      "cursor_at total_index unit_dimension block_item_summary (min ?p (length ?xs)) c"
    by (rule slice_total [OF assms(1)])
  have at: "cursor_at total_index unit_dimension block_item_summary ?p c" using a(5) g(1) by (simp add: min_def)
  have it: "cursor_item c = Some (Some (Gap (current_height g)))"
    using by_total.unit_seek.cursor_item_at [OF _ at] a(4) wf(1) g(1,2) by (simp add: panic_simps)
  obtain c1 b c2 where b: "cursor_next total_index unit_dimension c = Some c1"
      "cursor_suffix total_index unit_dimension c1 = Some (b, c2)" "wf_tree block_item_summary b"
      "tree_items b = drop (Suc ?p) ?xs"
    using by_total.skip_placed [OF _ _ at] a(4) wf by metis
  have sum: "sum_height (summary b) = sum_list (map item_height (drop (Suc ?p) ?xs))"
    using summary_tally [OF b(3)] b(4) by simp
  have h: "min (max (current_height g - (sum_height (summary b) - prev)) 0) (original_height g) = ?h"
    by (simp only: sum new_gap_height_def)
  note run = Some a(1) it b(1,2) h
  show ?thesis
  proof (cases "?h > 0")
    case True
    obtain q t where t: "push block_item_summary a (Gap ?h) = Some q" "push_tree q b = Some t"
        "wf_tree block_item_summary t" "tree_items t = tree_items a @ Gap ?h # tree_items b"
      by (rule push_between [OF a(2) b(3)])
    have "shrink_gap prev bl = Some (bl\<lparr>block_heights := t, active_gap := Some (g\<lparr>current_height := ?h\<rparr>)\<rparr>)"
      using run True t(1,2) by (simp add: shrink_gap_def Let_def del: min_less_iff_conj)
    with t(3,4) a(3) b(4) g(1) Some True show ?thesis
      by (auto simp: Let_def upd_conv_take_nth_drop)
  next
    case False
    obtain t where t: "push_tree a b = Some t" "wf_tree block_item_summary t" "tree_items t = tree_items a @ tree_items b"
      by (rule tree_seq.app_some [OF a(2) b(3)])
    have "update_block_height_indices (Removal ?p) (bl\<lparr>block_heights := t, active_gap := None\<rparr>) =
        Some (bl\<lparr>block_heights := t, active_gap := None,
          positions := (\<lambda>k. map_option (shift_position (Removal ?p)) (positions bl k))\<rparr>)"
      by (simp add: update_block_height_indices_def)
    then have "shrink_gap prev bl = Some (bl\<lparr>block_heights := t, active_gap := None,
          positions := (\<lambda>k. map_option (shift_position (Removal ?p)) (positions bl k))\<rparr>)"
      using run False t(1) by (simp add: shrink_gap_def Let_def del: min_less_iff_conj)
    with t(2,3) a(3) b(4) Some False show ?thesis
      by (auto simp: Let_def remove_at_def)
  qed
qed

text \<open>What the height updates leave alone.\<close>

definition same_blocks :: "('b, 'h) block_list \<Rightarrow> ('b, 'h) block_list \<Rightarrow> bool" where
  "same_blocks bl bl' \<longleftrightarrow> length (blocks bl') = length (blocks bl) \<and> dom (positions bl') = dom (positions bl) \<and>
     pinned_to_bottom bl' = pinned_to_bottom bl \<and> scope bl' = scope bl \<and> next_gap_height bl' = next_gap_height bl"

lemma same_blocks_refl: "same_blocks bl bl"
  by (simp add: same_blocks_def)

lemma same_blocks_trans: "same_blocks a b \<Longrightarrow> same_blocks b c \<Longrightarrow> same_blocks a c"
  by (simp add: same_blocks_def)

lemma filter_update: "\<not> P (xs ! i) \<Longrightarrow> \<not> P y \<Longrightarrow> filter P (xs[i := y]) = filter P xs"
proof (cases "i < length xs")
  case True
  assume "\<not> P (xs ! i)" "\<not> P y"
  then show ?thesis
    using True id_take_nth_drop [OF True] by (metis (no_types) filter.simps(2) filter_append upd_conv_take_nth_drop)
qed (simp add: list_update_beyond)

lemma filter_remove_at:
  assumes "i < length xs" "\<not> P (xs ! i)"
  shows "filter P (remove_at i xs) = filter P xs"
proof -
  have "filter P xs = filter P (take i xs @ xs ! i # drop (Suc i) xs)"
    using id_take_nth_drop [OF assms(1)] by simp
  with assms(2) show ?thesis by (simp add: remove_at_def)
qed

abbreviation solid :: "'h block_height_item list \<Rightarrow> 'h block_height_item list" where
  "solid xs \<equiv> filter (\<lambda>x. \<not> is_gap x) xs"

lemma shrink_gap_ok:
  fixes bl :: "('b, 'h::linordered_ab_group_add) block_list"
  assumes "block_list_ok n bl"
  obtains bl' where "shrink_gap prev bl = Some bl'" "block_list_ok n bl'" "same_blocks bl bl'" "blocks bl' = blocks bl"
    "solid (items_of bl') = solid (items_of bl)" "length (items_of bl') \<le> length (items_of bl)"
proof (cases "active_gap bl")
  case None
  with that [of bl] assms show ?thesis by (simp add: shrink_gap_def same_blocks_refl)
next
  case (Some g)
  note ok = block_list_okD [OF assms]
  let ?xs = "items_of bl" and ?p = "gap_index g"
  let ?h = "new_gap_height ?xs g prev"
  note g = tracks_gap_SomeD [OF ok(6) [unfolded Some]]
  have isg: "is_gap (?xs ! ?p)" "\<not> is_block (?xs ! ?p)" using g(2) by simp_all
  obtain t where t: "wf_tree block_item_summary t"
      "if ?h > 0 then
         shrink_gap prev bl = Some (bl\<lparr>block_heights := t, active_gap := Some (g\<lparr>current_height := ?h\<rparr>)\<rparr>) \<and>
         tree_items t = ?xs[?p := Gap ?h]
       else
         shrink_gap prev bl = Some (bl\<lparr>block_heights := t, active_gap := None,
           positions := (\<lambda>k. map_option (shift_position (Removal ?p)) (positions bl k))\<rparr>) \<and>
         tree_items t = remove_at ?p ?xs"
    using shrink_gap_result [OF ok(2,6,5), of prev] Some by (auto simp: Let_def)
  show ?thesis
  proof (cases "?h > 0")
    case True
    with t have r: "shrink_gap prev bl = Some (bl\<lparr>block_heights := t, active_gap := Some (g\<lparr>current_height := ?h\<rparr>)\<rparr>)"
        "tree_items t = ?xs[?p := Gap ?h]" by simp_all
    have "tracks_gap (tree_items t) (Some (g\<lparr>current_height := ?h\<rparr>))"
      by (rule tracks_gap_SomeI) (use g r(2) in simp_all)
    moreover have "tracks_positions (tree_items t) (positions bl)"
      unfolding r(2) using names_not_block isg by (intro tracks_positions_update [OF ok(5)]) blast
    moreover have "blocks_in (tree_items t) = length (blocks bl)"
      using ok(4) isg r(2) blocks_in_update [of ?xs ?p "Gap ?h"] by simp
    ultimately show ?thesis
      using that [OF r(1)] r(2) ok room_le [OF ok(1) t(1)] filter_update [of "\<lambda>x. \<not> is_gap x" ?xs ?p "Gap ?h"] isg
      by (simp add: block_list_ok_def same_blocks_def)
  next
    case False
    let ?ps = "\<lambda>k. map_option (shift_position (Removal ?p)) (positions bl k)"
    from False t have r: "shrink_gap prev bl = Some (bl\<lparr>block_heights := t, active_gap := None, positions := ?ps\<rparr>)"
        "tree_items t = remove_at ?p ?xs" by simp_all
    have "\<not> is_gap (remove_at ?p ?xs ! q)" if "q < length (remove_at ?p ?xs)" for q
      using that g(1,3) by (simp add: nth_remove_at)
    then have "tracks_gap (tree_items t) None"
      unfolding r(2) tracks_gap_None by (metis in_set_conv_nth)
    moreover have "tracks_positions (tree_items t) ?ps"
      unfolding r(2) using tracks_free [OF ok(5)] isg(1) by (intro tracks_positions_remove [OF ok(5) g(1)]) blast
    moreover have "blocks_in (tree_items t) = length (blocks bl)"
      using ok(4) isg(2) r(2) blocks_in_remove_at [OF g(1)] by simp
    ultimately show ?thesis
      using that [OF r(1)] r(2) ok room_le [OF ok(1) t(1)] g(1) filter_remove_at [OF g(1), of "\<lambda>x. \<not> is_gap x"] isg
      by (simp add: block_list_ok_def same_blocks_def dom_def)
  qed
qed

lemma height_after_gap_result:
  fixes bl :: "('b, 'h::linordered_ab_group_add) block_list"
  assumes "block_list_ok n bl"
  shows "height_after_gap bl = Some (case active_gap bl of None \<Rightarrow> 0
    | Some g \<Rightarrow> sum_list (map item_height (drop (Suc (gap_index g)) (items_of bl))))"
proof (cases "active_gap bl")
  case None
  then show ?thesis by (simp add: height_after_gap_def)
next
  case (Some g)
  note ok = block_list_okD [OF assms]
  let ?xs = "items_of bl" and ?p = "gap_index g"
  note g = tracks_gap_SomeD [OF ok(6) [unfolded Some]]
  note wf = roomD [OF ok(1)]
  obtain found c where c: "cursor_seek total_index unit_dimension ?p SeekRight (total_cursor bl) = Some (found, c)"
      "cur_tree c = block_heights bl"
      "cursor_at total_index unit_dimension block_item_summary (min ?p (length ?xs)) c"
    by (rule seek_total [OF ok(2)])
  have at: "cursor_at total_index unit_dimension block_item_summary ?p c" using c(3) g(1) by (simp add: min_def)
  have it: "cursor_item c = Some (Some (Gap (current_height g)))"
    using by_total.unit_seek.cursor_item_at [OF _ at] c(2) wf(1) g(1,2) by (simp add: panic_simps)
  obtain c1 b c2 where b: "cursor_next total_index unit_dimension c = Some c1"
      "cursor_suffix total_index unit_dimension c1 = Some (b, c2)" "wf_tree block_item_summary b"
      "tree_items b = drop (Suc ?p) ?xs"
    using by_total.skip_placed [OF _ _ at] c(2) wf by metis
  have "sum_height (summary b) = sum_list (map item_height (drop (Suc ?p) ?xs))"
    using summary_tally [OF b(3)] b(4) by simp
  with Some c(1) it b(1,2) show ?thesis by (simp add: height_after_gap_def)
qed

lemma replace_block_height_ok:
  fixes bl :: "('b, 'h::linordered_ab_group_add) block_list"
  assumes "block_list_ok n bl" "i < length (blocks bl)"
  obtains t old where "replace_block_height i h bl = Some (old, bl\<lparr>block_heights := t\<rparr>)"
    "tree_items t = (items_of bl)[block_pos i (items_of bl) := Block h]"
    "items_of bl ! block_pos i (items_of bl) = Block old"
    "block_list_ok n (bl\<lparr>block_heights := t\<rparr>)"
proof -
  note ok = block_list_okD [OF assms(1)]
  let ?xs = "items_of bl" and ?p = "block_pos i (items_of bl)"
  have i: "i < blocks_in ?xs" using assms(2) ok(4) by simp
  obtain t old where t: "replace_block_height i h bl = Some (old, bl\<lparr>block_heights := t\<rparr>)"
    "wf_tree block_item_summary t" "tree_items t = ?xs[?p := Block h]" "?xs ! ?p = Block old"
    by (rule replace_block_height_result [OF ok(2) i])
  have isb: "is_block (?xs ! ?p)" "\<not> is_gap (?xs ! ?p)" using t(4) by simp_all
  have "tracks_positions (tree_items t) (positions bl)"
    unfolding t(3) using names_not_block isb(1) by (intro tracks_positions_update [OF ok(5)]) blast
  moreover have "tracks_gap (tree_items t) (active_gap bl)"
    unfolding t(3) by (rule tracks_gap_update [OF ok(6) isb(2)]) simp
  moreover have "blocks_in (tree_items t) = length (blocks bl)"
    unfolding t(3) using ok(4) isb blocks_in_update [of ?xs ?p "Block h"] by simp
  ultimately have "block_list_ok n (bl\<lparr>block_heights := t\<rparr>)"
    using ok room_le [OF ok(1) t(2)] t(3) by (simp add: block_list_ok_def)
  with t that show thesis by blast
qed

lemma block_list_ok_blocks [simp]:
  "block_list_ok n (bl\<lparr>blocks := (blocks bl)[i := b]\<rparr>) = block_list_ok n bl"
  "block_list_ok n (bl\<lparr>events := es\<rparr>) = block_list_ok n bl"
  "block_list_ok n (bl\<lparr>pinned_to_bottom := p\<rparr>) = block_list_ok n bl"
  "block_list_ok n (bl\<lparr>dirty_rich_content_items := d\<rparr>) = block_list_ok n bl"
  by (simp_all add: block_list_ok_def)

lemma block_list_ok_send [simp]: "block_list_ok n (send e bl) = block_list_ok n bl"
  by (simp add: send_def)

lemma update_live_block_height_ok:
  fixes bl :: "('b, 'h::linordered_ab_group_add) block_list"
  assumes "block_list_ok n bl"
  obtains bl' where "update_live_block_height ops i bl = Some bl'" "block_list_ok n bl'" "same_blocks bl bl'"
    "length (items_of bl') \<le> length (items_of bl)"
    "solid (items_of bl') = (case nth_opt (blocks bl) i of None \<Rightarrow> solid (items_of bl)
       | Some b \<Rightarrow> solid ((items_of bl)[block_pos i (items_of bl) := Block (blk_height ops (scope bl) b)]))"
proof (cases "nth_opt (blocks bl) i")
  case None
  with height_after_gap_result [OF assms] that [of bl] assms show ?thesis
    by (simp add: update_live_block_height_def same_blocks_refl)
next
  case (Some b)
  then have i: "i < length (blocks bl)" by (simp add: nth_opt_eq_Some)
  let ?h = "blk_height ops (scope bl) b"
  obtain prev where prev: "height_after_gap bl = Some prev" using height_after_gap_result [OF assms] by blast
  obtain t old where t: "replace_block_height i ?h bl = Some (old, bl\<lparr>block_heights := t\<rparr>)"
      "tree_items t = (items_of bl)[block_pos i (items_of bl) := Block ?h]"
      "block_list_ok n (bl\<lparr>block_heights := t\<rparr>)"
    using replace_block_height_ok [OF assms i, of ?h] by metis
  obtain bl1 where b: "shrink_gap prev (bl\<lparr>block_heights := t\<rparr>) = Some bl1" "block_list_ok n bl1"
      "same_blocks (bl\<lparr>block_heights := t\<rparr>) bl1" "solid (items_of bl1) = solid (tree_items t)"
      "length (items_of bl1) \<le> length (tree_items t)"
    using shrink_gap_ok [OF t(3), of prev] by auto
  let ?bl2 = "if old = 0 \<and> ?h > 0 \<and> blk_emit_bootstrap ops b
    then send VisibleBootstrapBlock (bl1\<lparr>blocks := (blocks bl1)[i := blk_mark_bootstrap ops b]\<rparr>) else bl1"
  have "update_live_block_height ops i bl = Some ?bl2"
    using prev Some t(1) b(1) by (simp add: update_live_block_height_def Let_def)
  moreover have "block_list_ok n ?bl2" using b(2) by simp
  moreover have "same_blocks bl ?bl2" using b(3) by (simp add: same_blocks_def send_def)
  moreover have "items_of ?bl2 = items_of bl1" by (simp add: send_def)
  ultimately show ?thesis using that [of ?bl2] b(4,5) t(2) Some by simp
qed

lemma finish_background_block_ok:
  fixes bl :: "('b, 'h::linordered_ab_group_add) block_list"
  assumes "block_list_ok n bl"
  obtains bl' where "finish_background_block ops bl = Some bl'" "block_list_ok n bl'" "same_blocks bl bl'"
    "length (items_of bl') \<le> length (items_of bl)"
proof -
  obtain r where r: "background_block ops bl = Some r"
    using block_list_okD(3) [OF assms]
    by (cases "blocks bl") (auto simp: background_block_def active_block_index_def checked_sub_def)
  show thesis
  proof (cases r)
    case None
    with r that [of bl] assms show ?thesis by (simp add: finish_background_block_def same_blocks_refl)
  next
    case (Some i)
    let ?b = "blk_finish ops (blocks bl ! i)"
    let ?bl1 = "bl\<lparr>blocks := (blocks bl)[i := ?b]\<rparr>"
    let ?bl2 = "if blk_is_empty ops (scope bl) ?b then ?bl1 else send (AfterBlockCompleted (blk_id ops ?b)) ?bl1"
    have "block_list_ok n ?bl2" using assms by simp
    then obtain bl' where "update_live_block_height ops (blk_index ops ?b) ?bl2 = Some bl'" "block_list_ok n bl'"
        "same_blocks ?bl2 bl'" "length (items_of bl') \<le> length (items_of ?bl2)"
      by (rule update_live_block_height_ok)
    moreover have "same_blocks bl ?bl2" "items_of ?bl2 = items_of bl" by (simp_all add: same_blocks_def send_def)
    ultimately show ?thesis
      using r Some that same_blocks_trans [of bl ?bl2] by (simp add: finish_background_block_def Let_def)
  qed
qed

subsection \<open>Insertions\<close>

lemma block_pos_insert:
  "\<not> is_block x \<Longrightarrow> block_pos n (insert_at (block_pos n xs) x xs) = Suc (block_pos n xs)"
  by (induction n xs rule: block_pos.induct) (auto simp: insert_at_def split: nat.split)

lemma block_pos_at: "block_pos n xs = length xs \<or> block_pos n xs < length xs \<and> is_block (xs ! block_pos n xs)"
  by (induction n xs rule: block_pos.induct) (auto split: nat.split)

lemma insertion_ok:
  fixes bl :: "('b, 'h::linordered_ab_group_add) block_list"
  assumes "block_list_ok (Suc n) bl" "p \<le> length (items_of bl)" "\<not> is_gap x" "\<not> is_block x"
    and "\<And>k. positions bl k \<noteq> Some p"
    and "wf_tree block_item_summary t" "tree_items t = insert_at p x (items_of bl)"
  obtains bl' where "update_block_height_indices (Insertion p) (bl\<lparr>block_heights := t\<rparr>) = Some bl'"
    "block_list_ok n bl'" "same_blocks bl bl'" "blocks bl' = blocks bl" "items_of bl' = insert_at p x (items_of bl)"
proof -
  note ok = block_list_okD [OF assms(1)]
  obtain g where g: "moved_gap (Insertion p) (active_gap bl) g" "tracks_gap (insert_at p x (items_of bl)) g"
    using tracks_gap_insert [OF ok(6) assms(2,3)] by blast
  let ?ps = "\<lambda>k. map_option (shift_position (Insertion p)) (positions bl k)"
  let ?bl = "bl\<lparr>block_heights := t, positions := ?ps, active_gap := g\<rparr>"
  have "update_block_height_indices (Insertion p) (bl\<lparr>block_heights := t\<rparr>) = Some ?bl"
    using update_indices_moved [of "Insertion p" "bl\<lparr>block_heights := t\<rparr>" g] g(1) by simp
  moreover have "tracks_positions (tree_items t) ?ps"
    unfolding assms(7) by (rule tracks_positions_insert_free [OF ok(5) assms(2,5)])
  moreover have "room n t"
    using room_le [OF ok(1) assms(6)] assms(2,7) by simp
  moreover have "blocks_in (tree_items t) = length (blocks bl)"
    using assms(4,7) ok(4) by (simp add: blocks_in_insert_at)
  ultimately show thesis
    using that [of ?bl] ok(3) g(2) assms(7) by (simp add: block_list_ok_def same_blocks_def dom_def)
qed

lemma append_item_ok:
  fixes bl :: "('b, 'h::linordered_ab_group_add) block_list"
  assumes "block_list_ok (Suc n) bl" "\<not> is_gap x" "\<not> is_block x"
  obtains p bl1 bl' where "finish_background_block ops bl = Some bl1" "append_item_to_blocklist ops x bl = Some (p, bl')"
    "block_list_ok n bl'" "same_blocks bl bl'" "p = length (items_of bl1)" "items_of bl' = items_of bl1 @ [x]"
proof -
  obtain bl1 where b1: "finish_background_block ops bl = Some bl1" "block_list_ok (Suc n) bl1" "same_blocks bl bl1"
    by (rule finish_background_block_ok [OF assms(1)])
  note ok = block_list_okD [OF b1(2)]
  let ?p = "length (items_of bl1)"
  have wf: "wf_tree block_item_summary (block_heights bl1)" using roomD(1) [OF ok(1)] .
  obtain t where t: "push block_item_summary (block_heights bl1) x = Some t" "wf_tree block_item_summary t"
      "tree_items t = items_of bl1 @ [x]"
    using push_total [OF wf] by blast
  have p: "total_count (summary (block_heights bl1)) = ?p" using summary_tally [OF wf] by simp
  obtain bl2 where b2: "update_block_height_indices (Insertion ?p) (bl1\<lparr>block_heights := t\<rparr>) = Some bl2"
      "block_list_ok n bl2" "same_blocks bl1 bl2" "items_of bl2 = insert_at ?p x (items_of bl1)"
    using insertion_ok [OF b1(2) _ assms(2,3) tracks_free [OF ok(5)] t(2), of ?p] t(3)
    by (metis append.right_neutral drop_all insert_at_def le_refl take_all)
  have "append_item_to_blocklist ops x bl = Some (?p, send Wakeup bl2)"
    using b1(1) t(1) p b2(1) by (simp add: append_item_to_blocklist_def)
  with b1 b2 that same_blocks_trans [OF b1(3) b2(3)] show thesis
    by (simp add: insert_at_def send_def same_blocks_def)
qed

lemma insert_non_block_item_ok:
  fixes bl :: "('b, 'h::linordered_ab_group_add) block_list"
  assumes "block_list_ok (Suc n) bl" "\<not> is_gap x" "\<not> is_block x"
  obtains p bl1 bl' where "finish_background_block ops bl = Some bl1"
    "insert_non_block_item_before_block ops index x bl = Some (p, bl')"
    "block_list_ok n bl'" "same_blocks bl bl'" "p = block_pos index (items_of bl1)"
    "items_of bl' = insert_at p x (items_of bl1)"
proof -
  obtain bl1 where b1: "finish_background_block ops bl = Some bl1" "block_list_ok (Suc n) bl1" "same_blocks bl bl1"
    by (rule finish_background_block_ok [OF assms(1)])
  note ok = block_list_okD [OF b1(2)]
  note wf = roomD [OF ok(1)]
  let ?xs = "items_of bl1" and ?p = "block_pos index (items_of bl1)"
  obtain a c where a: "cursor_slice block_index unit_dimension index SeekRight (block_cursor bl1) = Some (a, c)"
      "wf_tree block_item_summary a" "tree_items a = take ?p ?xs" "cur_tree c = block_heights bl1"
      "cursor_at block_index unit_dimension block_item_summary ?p c"
    by (rule slice_block_right [OF ok(2)])
  obtain b c1 where b: "cursor_suffix block_index unit_dimension c = Some (b, c1)" "wf_tree block_item_summary b"
      "tree_items b = drop ?p ?xs"
    using by_block.rest_placed [OF _ _ a(5)] a(4) wf by metis
  obtain q t where t: "push block_item_summary a x = Some q" "push_tree q b = Some t" "wf_tree block_item_summary t"
      "tree_items t = tree_items a @ x # tree_items b"
    by (rule push_between [OF a(2) b(2)])
  have p: "total_count (summary a) = ?p"
    using summary_tally [OF a(2)] a(3) block_pos_le [of index ?xs] by (simp add: min_def)
  have ins: "tree_items t = insert_at ?p x ?xs" using t(4) a(3) b(3) by (simp add: insert_at_def)
  have free: "positions bl1 k \<noteq> Some ?p" for k
    using tracks_free [OF ok(5)] block_pos_at [of index ?xs] by blast
  obtain bl2 where b2: "update_block_height_indices (Insertion ?p) (bl1\<lparr>block_heights := t\<rparr>) = Some bl2"
      "block_list_ok n bl2" "same_blocks bl1 bl2" "items_of bl2 = insert_at ?p x ?xs"
    by (rule insertion_ok [OF b1(2) block_pos_le assms(2,3) free t(3) ins])
  have "insert_non_block_item_before_block ops index x bl = Some (?p, send Wakeup bl2)"
    using b1(1) a(1) b(1) t(1,2) p b2(1) by (simp add: insert_non_block_item_before_block_def)
  with b1 b2 that same_blocks_trans [OF b1(3) b2(3)] show thesis
    by (simp add: send_def same_blocks_def)
qed

lemma track_ok:
  assumes "block_list_ok n bl" "p < length (items_of bl)" "names k (items_of bl ! p)"
  shows "block_list_ok n (bl\<lparr>positions := (positions bl)(k \<mapsto> p)\<rparr>)"
  using assms tracks_positions_new [of "items_of bl" "positions bl" p k] by (simp add: block_list_ok_def)

text \<open>Inserting an item that has a key, and tracking it.\<close>

lemma insert_tracked_ok:
  fixes bl :: "('b, 'h::linordered_ab_group_add) block_list"
  assumes "block_list_ok (Suc n) bl" "names k x"
  obtains p bl' where "insert_non_block_item_before_block ops index x bl = Some (p, bl')"
    "block_list_ok n (bl'\<lparr>positions := (positions bl')(k \<mapsto> p)\<rparr>)" "same_blocks bl bl'"
    "items_of bl' ! p = x" "p < length (items_of bl')" "block_pos index (items_of bl') = Suc p"
proof -
  have x: "\<not> is_gap x" "\<not> is_block x" using names_not_block [OF assms(2)] by simp_all
  obtain p bl1 bl' where b0: "finish_background_block ops bl = Some bl1"
    and b: "insert_non_block_item_before_block ops index x bl = Some (p, bl')"
    "block_list_ok n bl'" "same_blocks bl bl'" "p = block_pos index (items_of bl1)"
    "items_of bl' = insert_at p x (items_of bl1)"
    by (rule insert_non_block_item_ok [OF assms(1) x])
  have p: "p \<le> length (items_of bl1)" unfolding b(4) by (rule block_pos_le)
  then have "items_of bl' ! p = x" "p < length (items_of bl')" using b(5) by (simp_all add: nth_insert_at)
  moreover have "block_pos index (items_of bl') = Suc p"
    using b(4,5) block_pos_insert [OF x(2), of index "items_of bl1"] by simp
  ultimately show thesis using that b track_ok [OF b(2), of p k] assms(2) by simp
qed

lemma append_tracked_ok:
  fixes bl :: "('b, 'h::linordered_ab_group_add) block_list"
  assumes "block_list_ok (Suc n) bl" "names k x"
  obtains p bl' where "append_item_to_blocklist ops x bl = Some (p, bl')"
    "block_list_ok n (bl'\<lparr>positions := (positions bl')(k \<mapsto> p)\<rparr>)" "same_blocks bl bl'"
    "items_of bl' ! p = x" "Suc p = length (items_of bl')"
proof -
  have x: "\<not> is_gap x" "\<not> is_block x" using names_not_block [OF assms(2)] by simp_all
  obtain p bl1 bl' where b0: "finish_background_block ops bl = Some bl1"
    and b: "append_item_to_blocklist ops x bl = Some (p, bl')"
    "block_list_ok n bl'" "same_blocks bl bl'" "p = length (items_of bl1)" "items_of bl' = items_of bl1 @ [x]"
    by (rule append_item_ok [OF assms(1) x])
  then show thesis using that track_ok [OF b(2), of p k] assms(2) by simp
qed

subsection \<open>Removals\<close>

lemma removal_ok:
  fixes bl :: "('b, 'h::linordered_ab_group_add) block_list"
  assumes "room n (block_heights bl)" "tracks_positions (items_of bl) (positions bl)"
    and "tracks_gap (items_of bl) (active_gap bl)"
    and "p < length (items_of bl)" "\<not> is_gap (items_of bl ! p)"
    and "\<And>k. positions bl k \<noteq> Some p"
    and "wf_tree block_item_summary t" "tree_items t = remove_at p (items_of bl)"
  obtains bl' where "update_block_height_indices (Removal p) (bl\<lparr>block_heights := t\<rparr>) = Some bl'"
    "room n t" "tracks_positions (items_of bl') (positions bl')" "tracks_gap (items_of bl') (active_gap bl')"
    "same_blocks bl bl'" "blocks bl' = blocks bl" "block_heights bl' = t"
    "dirty_rich_content_items bl' = dirty_rich_content_items bl"
proof -
  obtain g where g: "moved_gap (Removal p) (active_gap bl) g" "tracks_gap (remove_at p (items_of bl)) g"
    using tracks_gap_remove [OF assms(3-5)] by blast
  let ?ps = "\<lambda>k. map_option (shift_position (Removal p)) (positions bl k)"
  let ?bl = "bl\<lparr>block_heights := t, positions := ?ps, active_gap := g\<rparr>"
  have "update_block_height_indices (Removal p) (bl\<lparr>block_heights := t\<rparr>) = Some ?bl"
    using update_indices_moved [of "Removal p" "bl\<lparr>block_heights := t\<rparr>" g] g(1) by simp
  moreover have "tracks_positions (tree_items t) ?ps"
    unfolding assms(8) by (rule tracks_positions_remove [OF assms(2,4,6)])
  moreover have "room n t"
    using room_le [OF assms(1,7)] assms(4,8) by simp
  ultimately show thesis
    using that [of ?bl] g(2) assms(8) by (simp add: same_blocks_def dom_def)
qed

lemma remove_item_ok:
  fixes bl :: "('b, 'h::linordered_ab_group_add) block_list"
  assumes "block_list_ok n bl"
  obtains bl' where "remove_item_from_blocklist k bl = Some bl'" "block_list_ok n bl'"
    "dom (positions bl') = dom (positions bl) - {k}" "blocks bl' = blocks bl"
    "pinned_to_bottom bl' = pinned_to_bottom bl"
    "items_of bl' = (case positions bl k of None \<Rightarrow> items_of bl | Some p \<Rightarrow> remove_at p (items_of bl))"
    "dirty_rich_content_items bl' = dirty_rich_content_items bl"
proof (cases "positions bl k")
  case None
  with that [of bl] assms show ?thesis by (auto simp: remove_item_from_blocklist_def)
next
  case (Some p)
  note ok = block_list_okD [OF assms]
  note wf = roomD [OF ok(1)]
  let ?xs = "items_of bl"
  let ?bl0 = "bl\<lparr>positions := (positions bl)(k := None)\<rparr>"
  have p: "p < length ?xs" "names k (?xs ! p)" using ok(5) Some by (simp_all add: tracks_positions_def)
  have x: "\<not> is_gap (?xs ! p)" "\<not> is_block (?xs ! p)" using names_not_block [OF p(2)] by simp_all
  have rem: "removable_at (Some (?xs ! p))" using p(2) by (cases k; cases "?xs ! p") (simp_all add: removable_at_def)
  obtain a c where a: "cursor_slice total_index unit_dimension p SeekRight (total_cursor bl) = Some (a, c)"
      "wf_tree block_item_summary a" "tree_items a = take p ?xs" "cur_tree c = block_heights bl"
      "cursor_at total_index unit_dimension block_item_summary (min p (length ?xs)) c"
    by (rule slice_total [OF ok(2)])
  have at: "cursor_at total_index unit_dimension block_item_summary p c" using a(5) p(1) by (simp add: min_def)
  have it: "cursor_item c = Some (Some (?xs ! p))"
    using by_total.unit_seek.cursor_item_at [OF _ at] a(4) wf(1) p(1) by (simp add: panic_simps)
  obtain c1 b c2 where b: "cursor_next total_index unit_dimension c = Some c1"
      "cursor_suffix total_index unit_dimension c1 = Some (b, c2)" "wf_tree block_item_summary b"
      "tree_items b = drop (Suc p) ?xs"
    using by_total.skip_placed [OF _ _ at] a(4) wf by metis
  obtain t where t: "push_tree a b = Some t" "wf_tree block_item_summary t" "tree_items t = tree_items a @ tree_items b"
    by (rule tree_seq.app_some [OF a(2) b(3)])
  have items: "tree_items t = remove_at p ?xs" using t(3) a(3) b(4) by (simp add: remove_at_def)
  have free: "positions ?bl0 k' \<noteq> Some p" for k'
    using tracks_distinct [OF ok(5) Some, of k'] by auto
  have pre: "room n (block_heights ?bl0)" "tracks_positions (items_of ?bl0) (positions ?bl0)"
    "tracks_gap (items_of ?bl0) (active_gap ?bl0)" "p < length (items_of ?bl0)" "\<not> is_gap (items_of ?bl0 ! p)"
    "tree_items t = remove_at p (items_of ?bl0)"
    using ok tracks_positions_drop p(1) x(1) items by simp_all
  obtain bl1 where u: "update_block_height_indices (Removal p) (?bl0\<lparr>block_heights := t\<rparr>) = Some bl1"
      "room n t" "tracks_positions (items_of bl1) (positions bl1)" "tracks_gap (items_of bl1) (active_gap bl1)"
      "same_blocks ?bl0 bl1" "blocks bl1 = blocks ?bl0" "block_heights bl1 = t"
      "dirty_rich_content_items bl1 = dirty_rich_content_items ?bl0"
    by (rule removal_ok [OF pre(1-5) free t(2) pre(6)])
  have "remove_item_from_blocklist k bl = Some (send Wakeup bl1)"
    using Some a(1) it rem b(1,2) t(1) u(1) by (simp add: remove_item_from_blocklist_def)
  moreover have "blocks_in (tree_items t) = length (blocks bl)"
    using ok(4) blocks_in_remove_at [OF p(1)] x(2) items by simp
  moreover from this have "block_list_ok n bl1" using u ok(3) by (simp add: block_list_ok_def)
  ultimately show ?thesis
    using that [of "send Wakeup bl1"] u(5-8) Some items by (simp add: send_def same_blocks_def block_list_ok_def)
qed

lemma reset_index_frame:
  "length (blocks (reset_internal_block_index ops i bl)) = length (blocks bl)"
  "block_heights (reset_internal_block_index ops i bl) = block_heights bl"
  "positions (reset_internal_block_index ops i bl) = positions bl"
  "active_gap (reset_internal_block_index ops i bl) = active_gap bl"
  by (simp_all add: reset_internal_block_index_def Let_def split: option.split)

lemma reset_indices_frame:
  "length (blocks (foldl (\<lambda>bl j. reset_internal_block_index ops j bl) bl js)) = length (blocks bl)"
  "block_heights (foldl (\<lambda>bl j. reset_internal_block_index ops j bl) bl js) = block_heights bl"
  "positions (foldl (\<lambda>bl j. reset_internal_block_index ops j bl) bl js) = positions bl"
  "active_gap (foldl (\<lambda>bl j. reset_internal_block_index ops j bl) bl js) = active_gap bl"
  by (induction js arbitrary: bl) (simp_all add: reset_index_frame)

lemma remove_block_ok:
  fixes bl :: "('b, 'h::linordered_ab_group_add) block_list"
  assumes "block_list_ok n bl" "i < length (blocks bl)" "1 < length (blocks bl)"
  obtains bl' where "remove_block_at_index ops i bl = Some (blocks bl ! i, bl')" "block_list_ok n bl'"
    "items_of bl' = remove_at (block_pos i (items_of bl)) (items_of bl)"
    "length (blocks bl') = length (blocks bl) - 1" "dom (positions bl') = dom (positions bl)"
proof -
  note ok = block_list_okD [OF assms(1)]
  note wf = roomD [OF ok(1)]
  let ?xs = "items_of bl" and ?p = "block_pos i (items_of bl)"
  have p: "?p < length ?xs" "is_block (?xs ! ?p)"
    using block_pos_block [of i ?xs] assms(2) ok(4) by simp_all
  have x: "\<not> is_gap (?xs ! ?p)" using p(2) by (cases "?xs ! ?p") simp_all
  define bl1 where "bl1 = bl\<lparr>blocks := take i (blocks bl) @ drop (Suc i) (blocks bl),
                 block_id_to_block_index := (block_id_to_block_index bl)(blk_id ops (blocks bl ! i) := None)\<rparr>"
  define bl2 where "bl2 = foldl (\<lambda>bl j. reset_internal_block_index ops j bl) bl1 [i ..< length (blocks bl1)]"
  have f: "length (blocks bl2) = length (blocks bl) - 1" "block_heights bl2 = block_heights bl"
      "positions bl2 = positions bl" "active_gap bl2 = active_gap bl"
    using assms(2) by (simp_all add: bl2_def reset_indices_frame) (simp_all add: bl1_def)
  obtain a c where a: "cursor_slice block_index total_index (Suc i) SeekLeft
        (cursor_new block_index total_index (block_heights bl)) = Some (a, c)"
      "wf_tree block_item_summary a" "tree_items a = take ?p ?xs" "cur_tree c = block_heights bl"
      "cursor_at block_index total_index block_item_summary ?p c" "cur_sum c = ?p"
    by (rule slice_block_total [OF ok(2)])
  obtain c1 b c2 where b: "cursor_next block_index total_index c = Some c1"
      "cursor_suffix block_index total_index c1 = Some (b, c2)" "wf_tree block_item_summary b"
      "tree_items b = drop (Suc ?p) ?xs"
    using by_block_total.skip_placed [OF _ _ a(5)] a(4) wf by metis
  obtain t where t: "push_tree a b = Some t" "wf_tree block_item_summary t" "tree_items t = tree_items a @ tree_items b"
    by (rule tree_seq.app_some [OF a(2) b(3)])
  have items: "tree_items t = remove_at ?p ?xs" using t(3) a(3) b(4) by (simp add: remove_at_def)
  have free: "positions bl2 k \<noteq> Some ?p" for k
    using tracks_free [OF ok(5)] p(2) f(3) by simp
  have pre: "room n (block_heights bl2)" "tracks_positions (items_of bl2) (positions bl2)"
    "tracks_gap (items_of bl2) (active_gap bl2)" "?p < length (items_of bl2)" "\<not> is_gap (items_of bl2 ! ?p)"
    "tree_items t = remove_at ?p (items_of bl2)"
    using ok p(1) x items f by simp_all
  obtain bl3 where u: "update_block_height_indices (Removal ?p) (bl2\<lparr>block_heights := t\<rparr>) = Some bl3"
      "room n t" "tracks_positions (items_of bl3) (positions bl3)" "tracks_gap (items_of bl3) (active_gap bl3)"
      "same_blocks bl2 bl3" "blocks bl3 = blocks bl2" "block_heights bl3 = t"
    by (rule removal_ok [OF pre(1-5) free t(2) pre(6)])
  have "remove_block_at_index ops i bl = Some (blocks bl ! i, bl3)"
    unfolding remove_block_at_index_def nth_opt_Some [OF assms(2)] Option.bind.bind_lunit Let_def
      bl1_def [symmetric] bl2_def [symmetric]
    using a(1,6) b(1,2) t(1) u(1) f(2) by simp
  moreover have "blocks_in (tree_items t) = length (blocks bl2)"
    using ok(4) blocks_in_remove_at [OF p(1)] p(2) items f(1) by simp
  moreover have "blocks bl2 \<noteq> []" using f(1) assms(3) by auto
  ultimately show thesis
    using that [of bl3] u f items by (simp add: block_list_ok_def same_blocks_def)
qed

subsection \<open>Rich content\<close>

text \<open>Where \<open>append_rich_content\<close> puts an item: last, or right before the active block.\<close>

definition at_bottom :: "('b, 'h) block_ops \<Rightarrow> bool \<Rightarrow> ('b, 'h::monoid_add) block_list \<Rightarrow> nat \<Rightarrow> bool" where
  "at_bottom ops below bl p \<longleftrightarrow> Suc p = length (items_of bl) \<or>
     Suc p = block_pos (length (blocks bl) - 1) (items_of bl)"

lemma active_block_some:
  "blocks bl \<noteq> [] \<Longrightarrow> active_block bl = Some (last (blocks bl)) \<and> active_block_index bl = Some (length (blocks bl) - 1)"
  by (cases "blocks bl") (auto simp: active_block_def active_block_index_def last_opt_def checked_sub_def)

lemma append_once_ok:
  fixes bl :: "('b, 'h::linordered_ab_group_add) block_list"
  assumes "block_list_ok (Suc n) bl"
  obtains p bl' where "append_rich_content_once ops item below bl = Some bl'" "block_list_ok n bl'"
    "positions bl' (RichContentKey (view_id item)) = Some p" "items_of bl' ! p = RichContent item"
    "at_bottom ops below bl' p" "pinned_to_bottom bl' = pinned_to_bottom bl"
    "dom (positions bl') = insert (RichContentKey (view_id item)) (dom (positions bl))"
proof -
  let ?k = "RichContentKey (view_id item)" and ?x = "RichContent item"
  have k: "names ?k ?x" by simp
  note act = active_block_some [OF block_list_okD(3) [OF assms]]
  define below' where "below' = (blk_long_running ops (last (blocks bl)) \<and> below)"
  have "\<exists>p bl1. (if below' then append_item_to_blocklist ops ?x bl
       else insert_non_block_item_before_block ops (length (blocks bl) - 1) ?x bl) = Some (p, bl1) \<and>
     block_list_ok n (bl1\<lparr>positions := (positions bl1)(?k \<mapsto> p)\<rparr>) \<and> same_blocks bl bl1 \<and>
     items_of bl1 ! p = ?x \<and> at_bottom ops below bl1 p"
  proof (cases below')
    case True
    obtain p bl1 where "append_item_to_blocklist ops ?x bl = Some (p, bl1)"
      "block_list_ok n (bl1\<lparr>positions := (positions bl1)(?k \<mapsto> p)\<rparr>)" "same_blocks bl bl1"
      "items_of bl1 ! p = ?x" "Suc p = length (items_of bl1)"
      by (rule append_tracked_ok [OF assms k])
    with True show ?thesis by (auto simp: at_bottom_def)
  next
    case False
    obtain p bl1 where "insert_non_block_item_before_block ops (length (blocks bl) - 1) ?x bl = Some (p, bl1)"
      "block_list_ok n (bl1\<lparr>positions := (positions bl1)(?k \<mapsto> p)\<rparr>)" "same_blocks bl bl1"
      "items_of bl1 ! p = ?x" "p < length (items_of bl1)"
      "block_pos (length (blocks bl) - 1) (items_of bl1) = Suc p"
      by (rule insert_tracked_ok [OF assms k])
    with False show ?thesis by (auto simp: at_bottom_def same_blocks_def)
  qed
  then obtain p bl1 where b: "(if below' then append_item_to_blocklist ops ?x bl
       else insert_non_block_item_before_block ops (length (blocks bl) - 1) ?x bl) = Some (p, bl1)"
     "block_list_ok n (bl1\<lparr>positions := (positions bl1)(?k \<mapsto> p)\<rparr>)" "same_blocks bl bl1"
     "items_of bl1 ! p = ?x" "at_bottom ops below bl1 p" by blast
  let ?bl' = "bl1\<lparr>positions := (positions bl1)(?k \<mapsto> p),
    dirty_rich_content_items := insert (view_id item) (dirty_rich_content_items bl1)\<rparr>"
  have "append_rich_content_once ops item below bl = Some ?bl'"
    using act b(1) by (auto simp: append_rich_content_once_def below'_def split: if_splits)
  with b that [of ?bl' p] show thesis by (simp add: at_bottom_def same_blocks_def block_list_ok_def)
qed

lemma remove_rich_content_ok:
  fixes bl :: "('b, 'h::linordered_ab_group_add) block_list"
  assumes "block_list_ok n bl"
  obtains bl' where "remove_rich_content vid bl = Some bl'" "block_list_ok n bl'"
    "dom (positions bl') = dom (positions bl) - {RichContentKey vid}" "blocks bl' = blocks bl"
    "pinned_to_bottom bl' = (if pinned_to_bottom bl = Some vid then None else pinned_to_bottom bl)"
    "items_of bl' = (case positions bl (RichContentKey vid) of None \<Rightarrow> items_of bl | Some p \<Rightarrow> remove_at p (items_of bl))"
proof -
  let ?bl0 = "bl\<lparr>dirty_rich_content_items := dirty_rich_content_items bl - {vid}\<rparr>"
  have "block_list_ok n ?bl0" using assms by simp
  then obtain bl1 where b: "remove_item_from_blocklist (RichContentKey vid) ?bl0 = Some bl1" "block_list_ok n bl1"
    "dom (positions bl1) = dom (positions ?bl0) - {RichContentKey vid}" "blocks bl1 = blocks ?bl0"
    "pinned_to_bottom bl1 = pinned_to_bottom ?bl0"
    "items_of bl1 = (case positions ?bl0 (RichContentKey vid) of None \<Rightarrow> items_of ?bl0 | Some p \<Rightarrow> remove_at p (items_of ?bl0))"
    by (rule remove_item_ok)
  let ?bl' = "if pinned_to_bottom bl1 = Some vid then bl1\<lparr>pinned_to_bottom := None\<rparr> else bl1"
  have "remove_rich_content vid bl = Some ?bl'" using b(1) by (simp add: remove_rich_content_def)
  then show thesis by (rule that) (use b in \<open>auto split: option.splits\<close>)
qed

lemma maintain_pinned_ok:
  fixes bl :: "('b, 'h::linordered_ab_group_add) block_list"
  assumes "block_list_ok (Suc n) bl"
  obtains bl' where "maintain_pinned_to_bottom ops bl = Some bl'" "block_list_ok n bl'"
    "dom (positions bl') = dom (positions bl)"
    "\<And>v. pinned_to_bottom bl = Some v \<Longrightarrow> RichContentKey v \<in> dom (positions bl) \<Longrightarrow>
       pinned_to_bottom bl' = Some v \<and> (\<exists>p. positions bl' (RichContentKey v) = Some p \<and> at_bottom ops True bl' p)"
proof -
  have weaker: "block_list_ok n bl" using assms room_mono [of "Suc n" "block_heights bl" n] by (simp add: block_list_ok_def)
  show thesis
  proof (cases "pinned_to_bottom bl")
    case None
    with that [of bl] weaker show ?thesis by (simp add: maintain_pinned_to_bottom_def)
  next
    case (Some v)
    let ?k = "RichContentKey v" and ?bl0 = "bl\<lparr>pinned_to_bottom := None\<rparr>"
    show ?thesis
    proof (cases "positions bl ?k")
      case None
      with Some that [of ?bl0] weaker show ?thesis by (auto simp: maintain_pinned_to_bottom_def)
    next
      case (Some p)
      note ok = block_list_okD [OF assms]
      note wf = roomD [OF ok(1)]
      have p: "p < length (items_of bl)" "names ?k (items_of bl ! p)"
        using ok(5) Some by (simp_all add: tracks_positions_def)
      then obtain item where item: "items_of bl ! p = RichContent item" "view_id item = v"
        by (cases "items_of bl ! p") auto
      obtain found c where c: "cursor_seek total_index unit_dimension p SeekRight (total_cursor bl) = Some (found, c)"
          "cur_tree c = block_heights bl"
          "cursor_at total_index unit_dimension block_item_summary (min p (length (items_of bl))) c"
        by (rule seek_total [OF ok(2)])
      have at: "cursor_at total_index unit_dimension block_item_summary p c" using c(3) p(1) by (simp add: min_def)
      have it: "cursor_item c = Some (Some (RichContent item))"
        using by_total.unit_seek.cursor_item_at [OF _ at] c(2) wf(1) p(1) item(1) by (simp add: panic_simps)
      have "block_list_ok (Suc n) ?bl0" using assms by simp
      then obtain bl1 where b1: "remove_rich_content v ?bl0 = Some bl1" "block_list_ok (Suc n) bl1"
          "dom (positions bl1) = dom (positions ?bl0) - {?k}" "blocks bl1 = blocks ?bl0"
          "pinned_to_bottom bl1 = (if pinned_to_bottom ?bl0 = Some v then None else pinned_to_bottom ?bl0)"
        by (rule remove_rich_content_ok)
      obtain q bl2 where b2: "append_rich_content_once ops item True bl1 = Some bl2" "block_list_ok n bl2"
          "positions bl2 (RichContentKey (view_id item)) = Some q" "items_of bl2 ! q = RichContent item"
          "at_bottom ops True bl2 q" "pinned_to_bottom bl2 = pinned_to_bottom bl1"
          "dom (positions bl2) = insert (RichContentKey (view_id item)) (dom (positions bl1))"
        by (rule append_once_ok [OF b1(2)])
      have "maintain_pinned_to_bottom ops bl = Some (bl2\<lparr>pinned_to_bottom := Some v\<rparr>)"
        using \<open>pinned_to_bottom bl = Some v\<close> Some c(1) it b1(1) b2(1)
        by (simp add: maintain_pinned_to_bottom_def)
      moreover have "dom (positions bl2) = dom (positions bl)" using b2(7) b1(3) item(2) Some by auto
      ultimately show ?thesis
        using that [of "bl2\<lparr>pinned_to_bottom := Some v\<rparr>"] b2 item(2) \<open>pinned_to_bottom bl = Some v\<close>
        by (simp add: at_bottom_def)
    qed
  qed
qed

lemma append_rich_content_ok:
  fixes bl :: "('b, 'h::linordered_ab_group_add) block_list"
  assumes "block_list_ok (Suc (Suc n)) bl"
  obtains bl' where "append_rich_content ops item below bl = Some bl'" "block_list_ok n bl'"
    "dom (positions bl') = insert (RichContentKey (view_id item)) (dom (positions bl))"
    "\<And>v. pinned_to_bottom bl = Some v \<Longrightarrow> RichContentKey v \<in> dom (positions bl) \<Longrightarrow>
       pinned_to_bottom bl' = Some v \<and> (\<exists>p. positions bl' (RichContentKey v) = Some p \<and> at_bottom ops True bl' p)"
proof -
  obtain p bl1 where b1: "append_rich_content_once ops item below bl = Some bl1" "block_list_ok (Suc n) bl1"
      "pinned_to_bottom bl1 = pinned_to_bottom bl"
      "dom (positions bl1) = insert (RichContentKey (view_id item)) (dom (positions bl))"
    by (rule append_once_ok [OF assms])
  obtain bl2 where b2: "maintain_pinned_to_bottom ops bl1 = Some bl2" "block_list_ok n bl2"
      "dom (positions bl2) = dom (positions bl1)"
      "\<And>v. pinned_to_bottom bl1 = Some v \<Longrightarrow> RichContentKey v \<in> dom (positions bl1) \<Longrightarrow>
         pinned_to_bottom bl2 = Some v \<and> (\<exists>p. positions bl2 (RichContentKey v) = Some p \<and> at_bottom ops True bl2 p)"
    by (rule maintain_pinned_ok [OF b1(2)]) auto
  have "append_rich_content ops item below bl = Some bl2"
    using b1(1) b2(1) by (simp add: append_rich_content_def)
  then show thesis by (rule that) (use b1 b2 in auto)
qed

lemma insert_after_item_ok:
  fixes bl :: "('b, 'h::linordered_ab_group_add) block_list"
  assumes "block_list_ok (Suc n) bl" "positions bl k = Some p"
  obtains bl' where "insert_rich_content_after_item k item bl = Some (True, bl')" "block_list_ok n bl'"
    "items_of bl' = insert_at (Suc p) (RichContent item) (items_of bl)"
    "positions bl' (RichContentKey (view_id item)) = Some (Suc p)"
    "k \<noteq> RichContentKey (view_id item) \<Longrightarrow> positions bl' k = Some p"
proof -
  note ok = block_list_okD [OF assms(1)]
  note wf = roomD [OF ok(1)]
  let ?xs = "items_of bl" and ?x = "RichContent item" and ?k = "RichContentKey (view_id item)"
  have p: "Suc p \<le> length ?xs" using ok(5) assms(2) by (auto simp: tracks_positions_def Suc_le_eq)
  obtain a c where a: "cursor_slice total_index unit_dimension (Suc p) SeekRight (total_cursor bl) = Some (a, c)"
      "wf_tree block_item_summary a" "tree_items a = take (Suc p) ?xs" "cur_tree c = block_heights bl"
      "cursor_at total_index unit_dimension block_item_summary (min (Suc p) (length ?xs)) c"
    by (rule slice_total [OF ok(2)])
  have at: "cursor_at total_index unit_dimension block_item_summary (Suc p) c" using a(5) p by (simp add: min_def)
  obtain b c1 where b: "cursor_suffix total_index unit_dimension c = Some (b, c1)" "wf_tree block_item_summary b"
      "tree_items b = drop (Suc p) ?xs"
    using by_total.rest_placed [OF _ _ at] a(4) wf by metis
  obtain q t where t: "push block_item_summary a ?x = Some q" "push_tree q b = Some t" "wf_tree block_item_summary t"
      "tree_items t = tree_items a @ ?x # tree_items b"
    by (rule push_between [OF a(2) b(2)])
  have count: "total_count (summary a) = Suc p" using summary_tally [OF a(2)] a(3) p by simp
  have items: "tree_items t = insert_at (Suc p) ?x ?xs" using t(4) a(3) b(3) by (simp add: insert_at_def)
  obtain g where g: "moved_gap (Insertion (Suc p)) (active_gap bl) g" "tracks_gap (tree_items t) g"
    unfolding items using tracks_gap_insert [OF ok(6) p, of ?x] by auto
  let ?ps = "\<lambda>k. map_option (shift_position (Insertion (Suc p))) (positions bl k)"
  let ?qs = "\<lambda>k. map_option (\<lambda>pos. if pos = Suc p then pos + 1 else pos) (?ps k)"
  have shift: "?qs = (\<lambda>k. map_option (shift_up (Suc p)) (positions bl k))"
    by (auto simp: fun_eq_iff map_option_case split: option.split)
  have u: "update_block_height_indices (Insertion (Suc p)) (bl\<lparr>block_heights := t\<rparr>) =
      Some (bl\<lparr>block_heights := t, positions := ?ps, active_gap := g\<rparr>)"
    using update_indices_moved [of "Insertion (Suc p)" "bl\<lparr>block_heights := t\<rparr>" g] g(1) by simp
  let ?bl' = "send Wakeup (bl\<lparr>block_heights := t, active_gap := g, positions := ?qs(?k \<mapsto> Suc p)\<rparr>)"
  have "insert_rich_content_after_item k item bl = Some (True, ?bl')"
    using assms(2) a(1) b(1) t(1,2) count u by (simp add: insert_rich_content_after_item_def Let_def)
  moreover have "tracks_positions (tree_items t) (?qs(?k \<mapsto> Suc p))"
  proof (rule tracks_positions_new)
    show "tracks_positions (tree_items t) ?qs"
      unfolding items shift by (rule tracks_positions_insert [OF ok(5) p])
  qed (use items p in \<open>simp_all add: nth_insert_at\<close>)
  moreover have "room n t" using room_le [OF ok(1) t(3)] items p by simp
  moreover have "blocks_in (tree_items t) = length (blocks bl)" using items ok(4) by (simp add: blocks_in_insert_at)
  ultimately show thesis
    using that [of ?bl'] ok(3) g(2) items assms(2) by (simp add: block_list_ok_def) (simp add: send_def)
qed

subsection \<open>Background blocks and clearing\<close>

lemma insert_background_items:
  fixes bl :: "('b, 'h::linordered_ab_group_add) block_list"
  assumes "block_list_ok (Suc n) bl"
  defines "q \<equiv> block_pos (length (blocks bl) - 1) (items_of bl)"
  assumes "\<And>k p. positions bl k = Some p \<Longrightarrow> p < q" "\<And>g. active_gap bl = Some g \<Longrightarrow> gap_index g < q"
  obtains bl' where "insert_background_block ops b bl = Some bl'" "block_list_ok n bl'"
    "length (blocks bl') = Suc (length (blocks bl))"
proof -
  note ok = block_list_okD [OF assms(1)]
  note wf = roomD [OF ok(1)]
  let ?xs = "items_of bl" and ?i = "length (blocks bl) - 1"
  have act: "active_block_index bl = Some ?i" using active_block_some [OF ok(3)] by simp
  have ib: "?i < blocks_in ?xs" using ok(3,4) by (cases "blocks bl") simp_all
  have q: "q < length ?xs" using block_pos_block [OF ib] by (simp add: q_def)
  define bl1 where "bl1 = bl\<lparr>blocks := take ?i (blocks bl) @ b # drop ?i (blocks bl)\<rparr>"
  define bl2 where "bl2 = reset_internal_block_index ops (?i + 1) (reset_internal_block_index ops ?i bl1)"
  have f: "block_heights bl2 = block_heights bl" "positions bl2 = positions bl" "active_gap bl2 = active_gap bl"
    "length (blocks bl2) = Suc (length (blocks bl))"
    using ok(3) by (simp_all add: bl2_def reset_index_frame) (simp_all add: bl1_def)
  have i: "?i + 1 = Suc ?i" by simp
  obtain a c where a: "cursor_slice block_index unit_dimension (Suc ?i) SeekLeft (block_cursor bl2) = Some (a, c)"
      "wf_tree block_item_summary a" "tree_items a = take q ?xs" "cur_tree c = block_heights bl"
      "cursor_at block_index unit_dimension block_item_summary q c"
    using slice_block_left [OF ok(2), of ?i] f(1) unfolding q_def by metis
  obtain s c1 where s: "cursor_suffix block_index unit_dimension c = Some (s, c1)" "wf_tree block_item_summary s"
      "tree_items s = drop q ?xs"
    using by_block.rest_placed [OF _ _ a(5)] a(4) wf by metis
  obtain t0 t where t: "push block_item_summary a (Block 0) = Some t0" "push_tree t0 s = Some t"
      "wf_tree block_item_summary t" "tree_items t = tree_items a @ Block 0 # tree_items s"
    by (rule push_between [OF a(2) s(2)])
  have items: "tree_items t = insert_at q (Block 0) ?xs" using t(4) a(3) s(3) by (simp add: insert_at_def)
  let ?bl3 = "bl2\<lparr>block_heights := t\<rparr>"
  have "tracks_positions (tree_items t) (positions bl)"
    using ok(5) assms(3) q by (fastforce simp: tracks_positions_def items nth_insert_at)
  moreover have "tracks_gap (tree_items t) (active_gap bl)"
  proof (cases "active_gap bl")
    case None
    with ok(6) show ?thesis
      by (auto simp: tracks_gap_None items insert_at_def dest: in_set_takeD in_set_dropD)
  next
    case (Some g)
    note g = tracks_gap_SomeD [OF ok(6) [unfolded Some]]
    have "gap_index g < q" by (rule assms(4) [OF Some])
    then show ?thesis unfolding Some items
    proof (intro tracks_gap_SomeI)
      fix j
      assume "j < length (insert_at q (Block 0) ?xs)" "j \<noteq> gap_index g"
      then show "\<not> is_gap (insert_at q (Block 0) ?xs ! j)"
        using g(3) [of j] g(3) [of "j - 1"] q \<open>gap_index g < q\<close> by (auto simp: nth_insert_at)
    qed (use g q in \<open>simp_all add: nth_insert_at\<close>)
  qed
  moreover have "room n t" using room_le [OF ok(1) t(3)] items q by simp
  moreover have "blocks_in (tree_items t) = length (blocks bl2)"
    using items ok(4) f(4) by (simp add: blocks_in_insert_at)
  moreover have "blocks bl2 \<noteq> []" using f(4) by auto
  ultimately have "block_list_ok n ?bl3" using f by (simp add: block_list_ok_def)
  then obtain bl4 where b4: "update_live_block_height ops ?i ?bl3 = Some bl4" "block_list_ok n bl4" "same_blocks ?bl3 bl4"
    by (rule update_live_block_height_ok)
  have "insert_background_block ops b bl = Some (send BackgroundBlockStarted bl4)"
    unfolding insert_background_block_def act Option.bind.bind_lunit Let_def bl1_def [symmetric] bl2_def [symmetric]
    using a(1) s(1) t(1,2) b4(1) unfolding i by simp
  then show thesis by (rule that) (use b4 f in \<open>simp_all add: same_blocks_def send_def\<close>)
qed

lemma push_solid:
  "wf_tree block_item_summary t \<Longrightarrow>
    \<exists>u. foldl (\<lambda>r x. r \<bind> (\<lambda>t. if is_gap x then Some t else push block_item_summary t x)) (Some t) xs = Some u \<and>
      wf_tree block_item_summary u \<and> tree_items u = tree_items t @ solid xs"
proof (induction xs arbitrary: t)
  case (Cons x xs)
  show ?case
  proof (cases "is_gap x")
    case False
    obtain v where "push block_item_summary t x = Some v" "wf_tree block_item_summary v" "tree_items v = tree_items t @ [x]"
      using push_total [OF Cons.prems] by blast
    with False Cons.IH [of v] show ?thesis by simp
  qed (use Cons in simp)
qed simp

lemma blocks_in_solid [simp]: "blocks_in (solid xs) = blocks_in xs"
proof (induction xs)
  case (Cons x xs)
  then show ?case by (cases x) simp_all
qed simp

lemma clear_result:
  fixes bl :: "('b, 'h::linordered_ab_group_add) block_list"
  assumes "block_list_ok (Suc (Suc n)) bl" "next_gap_height bl = Some gh"
  obtains bl1 bl' q h where "finish_background_block ops bl = Some bl1" "do_clear_visible_screen ops bl = Some bl'"
    "h = blk_height ops (scope bl1) (last (blocks bl1))"
    "q = block_pos (length (blocks bl1) - 1) (solid (items_of bl1))"
    "items_of bl' = take q (solid (items_of bl1)) @ (if h > 0 then [Block h, Gap gh] else [Gap gh, Block h])"
    "active_gap bl' = Some \<lparr>gap_index = (if h > 0 then Suc q else q), current_height = gh, original_height = gh\<rparr>"
    "q < length (solid (items_of bl1))" "blocks bl' = blocks bl1" "positions bl' = positions bl1" "room n (block_heights bl')"
    "blocks_in (items_of bl') = length (blocks bl')" "block_list_ok (Suc (Suc n)) bl1"
proof -
  obtain bl1 where b1: "finish_background_block ops bl = Some bl1" "block_list_ok (Suc (Suc n)) bl1" "same_blocks bl bl1"
    by (rule finish_background_block_ok [OF assms(1)])
  note ok = block_list_okD [OF b1(2)]
  note wf = roomD [OF ok(1)]
  let ?xs = "items_of bl1" and ?m = "length (blocks bl1) - 1"
  let ?q = "block_pos ?m (solid ?xs)" and ?h = "blk_height ops (scope bl1) (last (blocks bl1))"
  have m: "length (blocks bl1) = Suc ?m" "?m < blocks_in (solid ?xs)" using ok(3,4) by (cases "blocks bl1"; simp)+
  have q: "?q < length (solid ?xs)" "blocks_in (take ?q (solid ?xs)) = ?m" using block_pos_block [OF m(2)] by simp_all
  have cnt: "total_count (summary (block_heights bl1)) = length ?xs" using summary_tally [OF wf(1)] by simp
  have it: "iter_collect (Suc (length ?xs)) total_index unit_dimension (total_cursor bl1) = Some ?xs"
    using by_total.iter_collect_result [of "total_cursor bl1" 0 "Suc (length ?xs)"] wf by simp
  obtain u where u: "foldl (\<lambda>r x. r \<bind> (\<lambda>t. if is_gap x then Some t else push block_item_summary t x)) (Some new_tree) ?xs = Some u"
      "wf_tree block_item_summary u" "tree_items u = solid ?xs"
    using push_solid [OF wf_new_tree, of ?xs] by (auto simp: abs_simps)
  have ru: "room 0 u" using room_le [OF ok(2) u(2), of 0] u(3) by simp
  obtain a c where a: "cursor_slice block_index unit_dimension (Suc ?m) SeekLeft (cursor_new block_index unit_dimension u) = Some (a, c)"
      "wf_tree block_item_summary a" "tree_items a = take ?q (solid ?xs)"
    using slice_block_left [OF ru, of ?m] u(3) by metis
  have a1: "cursor_slice block_index unit_dimension (length (blocks bl1)) SeekLeft
      (cursor_new block_index unit_dimension u) = Some (a, c)"
    by (subst m(1)) (rule a(1))
  obtain t where t: "push block_item_summary a (if ?h > 0 then Block ?h else Gap gh) = Some t" "wf_tree block_item_summary t"
      "tree_items t = tree_items a @ [if ?h > 0 then Block ?h else Gap gh]"
    using push_total [OF a(2)] by blast
  obtain v where v: "push block_item_summary t (if ?h > 0 then Gap gh else Block ?h) = Some v" "wf_tree block_item_summary v"
      "tree_items v = tree_items t @ [if ?h > 0 then Gap gh else Block ?h]"
    using push_total [OF t(2)] by blast
  have len: "total_count (summary t) = Suc ?q" "total_count (summary v) = Suc (Suc ?q)"
    using t(3) v(3) a(3) q(1) by (simp_all add: summary_values(1) [OF t(2)] summary_values(1) [OF v(2)])
  let ?g = "\<lparr>gap_index = (if ?h > 0 then Suc ?q else ?q), current_height = gh, original_height = gh\<rparr>"
  let ?bl' = "send TerminalClear (bl1\<lparr>block_heights := v, active_gap := Some ?g\<rparr>)"
  have "next_gap_height bl1 = Some gh" using b1(3) assms(2) by (simp add: same_blocks_def)
  moreover have "active_block (bl1\<lparr>block_heights := a\<rparr>) = Some (last (blocks bl1))"
    using active_block_some [OF ok(3)] by (simp add: active_block_def)
  ultimately have run: "do_clear_visible_screen ops bl = Some ?bl'"
    using b1(1) cnt it u(1) a1 t(1) v(1) len
    by (cases "?h > 0") (simp_all add: do_clear_visible_screen_def Let_def checked_sub_def del: iter_collect.simps)
  have items: "items_of ?bl' = take ?q (solid ?xs) @ (if ?h > 0 then [Block ?h, Gap gh] else [Gap gh, Block ?h])"
    using t(3) v(3) a(3) by (simp add: send_def)
  have "?q \<le> length ?xs" using q(1) length_filter_le [of "\<lambda>x. \<not> is_gap x" ?xs] by linarith
  then have "room n v" using room_le [OF ok(1) v(2), of n] t(3) v(3) a(3) q(1) by simp
  then show thesis
    by (intro that [OF b1(1) run refl refl items]) (use q m b1(2) items in \<open>simp_all add: send_def\<close>)
qed

end
