(* ===== verification/Block_Properties.thy ===== *)
theory Block_Properties imports Block_Tracking begin

text \<open>
  What the block list promises: its tracked indices stay right under every operation, with
  the conditions the code relies on; and three places where it does not keep them.
\<close>

section \<open>A concrete block list\<close>

text \<open>Blocks that are their own height, and a list with two blocks, rich content and a gap.\<close>

definition sample_ops :: "(int, int) block_ops" where
  "sample_ops = \<lparr>blk_height = (\<lambda>sc b. b), blk_is_background = (\<lambda>b. False), blk_finished = (\<lambda>b. True),
     blk_is_in_band = (\<lambda>b. False), blk_is_empty = (\<lambda>sc b. b = 0), blk_long_running = (\<lambda>b. b > 0),
     blk_finish = (\<lambda>b. b), blk_id = nat, blk_index = (\<lambda>b. 0), blk_reset_index = (\<lambda>i b. b),
     blk_emit_bootstrap = (\<lambda>b. False), blk_mark_bootstrap = (\<lambda>b. b)\<rparr>"

definition leaf_of :: "int block_height_item list \<Rightarrow> int heights" where
  "leaf_of xs = Leaf (sum_list (map block_item_summary xs)) xs (map block_item_summary xs)"

definition rich :: "nat \<Rightarrow> int rich_content_item" where
  "rich v = \<lparr>content_type = None, view_id = v, last_laid_out_height = 2, agent_view_conversation_id = None,
     should_hide = False, is_agent_transcript_user_query = False\<rparr>"

definition block_list_of ::
  "int list \<Rightarrow> int block_height_item list \<Rightarrow> (removable_item \<rightharpoonup> nat) \<Rightarrow> int gap option \<Rightarrow> (int, int) block_list" where
  "block_list_of bs xs ps g = \<lparr>blocks = bs, block_heights = leaf_of xs, block_id_to_block_index = (\<lambda>_. None),
     dirty_rich_content_items = {}, next_gap_height = Some 10, positions = ps, active_gap = g, scope = Unfiltered,
     pinned_to_bottom = None, events = []\<rparr>"

definition sample_gap :: "nat \<Rightarrow> int gap" where
  "sample_gap i = \<lparr>gap_index = i, current_height = 5, original_height = 8\<rparr>"

definition sample_list :: "(int, int) block_list" where
  "sample_list = block_list_of [3, 0] [Block 3, Gap 5, RichContent (rich 7), Block 0]
     [RichContentKey 7 \<mapsto> 2] (Some (sample_gap 1))"

lemma leaf_of_room: "length xs \<le> 12 \<Longrightarrow> n \<le> 9 \<Longrightarrow> room n (leaf_of xs) \<and> tree_items (leaf_of xs) = xs"
  by (simp add: room_def leaf_of_def TREE_BASE_def)

lemma sample_list_ok: "block_list_ok 2 sample_list"
  using leaf_of_room [of "[Block 3, Gap 5, RichContent (rich 7), Block 0]" 2]
  by (auto simp: block_list_ok_def sample_list_def block_list_of_def tracks_positions_def sample_gap_def rich_def
      nth_Cons less_Suc_eq intro!: tracks_gap_SomeI split: nat.splits)

lemma sample_list_view [simp]:
  "positions sample_list (RichContentKey 7) = Some 2" "blocks sample_list = [3, 0]" "pinned_to_bottom sample_list = None"
  "items_of sample_list = [Block 3, Gap 5, RichContent (rich 7), Block 0]" "next_gap_height sample_list = Some 10"
  by (simp_all add: sample_list_def block_list_of_def leaf_of_def)

section \<open>Insertions and removals keep the tracked indices\<close>

text \<open>
  C6: Inserting an inline banner before a block never panics, puts the banner directly
  before that block, records its position, and shifts every other tracked position and the
  active gap so that each still holds its item; the tree keeps one item per block.
\<close>

theorem insert_banner_keeps_tracking:
  fixes bl :: "('b, 'h::linordered_ab_group_add) block_list"
  assumes "block_list_ok (Suc n) bl"
  shows "\<exists>bl' p. insert_inline_banner_before_block ops index banner h bl = Some bl' \<and> block_list_ok n bl' \<and>
    positions bl' (InlineBannerKey (banner_id banner)) = Some p \<and> items_of bl' ! p = InlineBanner h banner False \<and>
    block_pos index (items_of bl') = Suc p"
proof -
  have k: "names (InlineBannerKey (banner_id banner)) (InlineBanner h banner False)" by simp
  obtain p bl' where "insert_non_block_item_before_block ops index (InlineBanner h banner False) bl = Some (p, bl')"
    "block_list_ok n (bl'\<lparr>positions := (positions bl')(InlineBannerKey (banner_id banner) \<mapsto> p)\<rparr>)"
    "items_of bl' ! p = InlineBanner h banner False" "block_pos index (items_of bl') = Suc p"
    by (rule insert_tracked_ok [OF assms k])
  then show ?thesis by (simp add: insert_inline_banner_before_block_def)
qed

lemma insert_banner_keeps_tracking_witness:
  "\<exists>bl' p. insert_inline_banner_before_block sample_ops 1 \<lparr>banner_id = 4, banner_type = VimMode\<rparr> 2 sample_list = Some bl' \<and>
    block_list_ok 1 bl' \<and> positions bl' (InlineBannerKey 4) = Some p \<and> block_pos 1 (items_of bl') = Suc p"
  using insert_banner_keeps_tracking [of 1 sample_list sample_ops 1 "\<lparr>banner_id = 4, banner_type = VimMode\<rparr>" 2]
    sample_list_ok by (auto simp: numeral_2_eq_2)

text \<open>
  Removing a tracked item takes exactly that item out of the tree and forgets its key;
  every other tracked position and the gap still hold their items.
\<close>

theorem remove_item_keeps_tracking:
  fixes bl :: "('b, 'h::linordered_ab_group_add) block_list"
  assumes "block_list_ok n bl" "positions bl k = Some p"
  shows "\<exists>bl'. remove_item_from_blocklist k bl = Some bl' \<and> block_list_ok n bl' \<and>
    items_of bl' = remove_at p (items_of bl) \<and> dom (positions bl') = dom (positions bl) - {k} \<and> blocks bl' = blocks bl"
  by (rule remove_item_ok [OF assms(1), of k]) (use assms(2) in auto)

lemma remove_item_keeps_tracking_witness:
  "\<exists>bl'. remove_item_from_blocklist (RichContentKey 7) sample_list = Some bl' \<and> block_list_ok 2 bl' \<and>
    items_of bl' = [Block 3, Gap 5, Block 0]"
  using remove_item_keeps_tracking [OF sample_list_ok, of "RichContentKey 7" 2] by (auto simp: remove_at_def)

text \<open>
  C7: Inserting rich content after a tracked item puts it directly behind that item, also
  when another tracked item stood there: the second pass over the positions moves it on.
\<close>

theorem insert_after_item_keeps_tracking:
  fixes bl :: "('b, 'h::linordered_ab_group_add) block_list"
  assumes "block_list_ok (Suc n) bl" "positions bl k = Some p" "k \<noteq> RichContentKey (view_id item)"
  shows "\<exists>bl'. insert_rich_content_after_item k item bl = Some (True, bl') \<and> block_list_ok n bl' \<and>
    items_of bl' = insert_at (Suc p) (RichContent item) (items_of bl) \<and>
    positions bl' (RichContentKey (view_id item)) = Some (Suc p) \<and> positions bl' k = Some p"
  by (rule insert_after_item_ok [OF assms(1,2), of item]) (use assms(3) in auto)

lemma insert_after_item_keeps_tracking_witness:
  "\<exists>bl'. insert_rich_content_after_item (RichContentKey 7) (rich 8) sample_list = Some (True, bl') \<and>
    positions bl' (RichContentKey 8) = Some 3 \<and> positions bl' (RichContentKey 7) = Some 2"
  using insert_after_item_keeps_tracking [of 1 sample_list "RichContentKey 7" 2 "rich 8"] sample_list_ok
  by (auto simp: rich_def numeral_2_eq_2 numeral_3_eq_3)

text \<open>
  Appending rich content keeps the invariant, and an item pinned to the bottom is again
  last, or directly before the active block, afterwards.
\<close>

theorem append_rich_content_keeps_pin:
  fixes bl :: "('b, 'h::linordered_ab_group_add) block_list"
  assumes "block_list_ok (Suc (Suc n)) bl" "pinned_to_bottom bl = Some v" "RichContentKey v \<in> dom (positions bl)"
  shows "\<exists>bl' p. append_rich_content ops item below bl = Some bl' \<and> block_list_ok n bl' \<and>
    pinned_to_bottom bl' = Some v \<and> positions bl' (RichContentKey v) = Some p \<and> at_bottom ops True bl' p \<and>
    RichContentKey (view_id item) \<in> dom (positions bl')"
proof -
  obtain bl' where "append_rich_content ops item below bl = Some bl'" "block_list_ok n bl'"
    "dom (positions bl') = insert (RichContentKey (view_id item)) (dom (positions bl))"
    "\<And>v. pinned_to_bottom bl = Some v \<Longrightarrow> RichContentKey v \<in> dom (positions bl) \<Longrightarrow>
       pinned_to_bottom bl' = Some v \<and> (\<exists>p. positions bl' (RichContentKey v) = Some p \<and> at_bottom ops True bl' p)"
    by (rule append_rich_content_ok [OF assms(1), of ops item below]) blast
  with assms(2,3) show ?thesis by blast
qed

lemma append_rich_content_keeps_pin_witness:
  "\<exists>bl' p. append_rich_content sample_ops (rich 8) True (sample_list\<lparr>pinned_to_bottom := Some 7\<rparr>) = Some bl' \<and>
    pinned_to_bottom bl' = Some 7 \<and> positions bl' (RichContentKey 7) = Some p"
  using append_rich_content_keeps_pin [of 0 "sample_list\<lparr>pinned_to_bottom := Some 7\<rparr>" 7 sample_ops "rich 8" True]
    sample_list_ok by (auto simp: numeral_2_eq_2 domIff)

text \<open>
  Removing a block takes exactly that block's item out of the tree and keeps every
  tracked position and the gap on their items.
\<close>

theorem remove_block_keeps_tracking:
  fixes bl :: "('b, 'h::linordered_ab_group_add) block_list"
  assumes "block_list_ok n bl" "i < length (blocks bl)" "1 < length (blocks bl)"
  shows "\<exists>bl'. remove_block_at_index ops i bl = Some (blocks bl ! i, bl') \<and> block_list_ok n bl' \<and>
    items_of bl' = remove_at (block_pos i (items_of bl)) (items_of bl) \<and>
    length (blocks bl') = length (blocks bl) - 1 \<and> dom (positions bl') = dom (positions bl)"
  by (rule remove_block_ok [OF assms, of ops]) blast

lemma remove_block_keeps_tracking_witness:
  "\<exists>bl'. remove_block_at_index sample_ops 0 sample_list = Some (3, bl') \<and> block_list_ok 2 bl' \<and>
    items_of bl' = [Gap 5, RichContent (rich 7), Block 0]"
  using remove_block_keeps_tracking [OF sample_list_ok, of 0 sample_ops] by (auto simp: remove_at_def)

section \<open>Live heights and the gap\<close>

text \<open>
  Updating the height of a live block replaces that block's height and nothing else but
  the gap; the gap stays within zero and its original height, and is dropped with all indices
  shifted when nothing of it is left.
\<close>

theorem update_live_height_keeps_tracking:
  fixes bl :: "('b, 'h::linordered_ab_group_add) block_list"
  assumes "block_list_ok n bl" "nth_opt (blocks bl) i = Some b"
  shows "\<exists>bl'. update_live_block_height ops i bl = Some bl' \<and> block_list_ok n bl' \<and>
    solid (items_of bl') = solid ((items_of bl)[block_pos i (items_of bl) := Block (blk_height ops (scope bl) b)])"
  by (rule update_live_block_height_ok [OF assms(1), of ops i]) (use assms(2) in auto)

lemma update_live_height_keeps_tracking_witness:
  "\<exists>bl'. update_live_block_height sample_ops 1 (sample_list\<lparr>blocks := [3, 4]\<rparr>) = Some bl' \<and>
    solid (items_of bl') = [Block 3, RichContent (rich 7), Block 4]"
proof -
  have "block_list_ok 2 (sample_list\<lparr>blocks := [3, 4]\<rparr>)"
    using sample_list_ok by (simp add: block_list_ok_def)
  then show ?thesis
    using update_live_height_keeps_tracking [of 2 "sample_list\<lparr>blocks := [3, 4]\<rparr>" 1 4 sample_ops]
    by (auto simp: nth_opt_def sample_ops_def)
qed

text \<open>
  C8: The gap after a height update: with \<open>d\<close> the height that came in behind it, its new
  height is \<open>current - d\<close> clamped to zero and its original height, and it is removed at zero.
\<close>

theorem shrink_gap_clamps:
  fixes bl :: "('b, 'h::linordered_ab_group_add) block_list" and previous :: 'h
  assumes "block_list_ok n bl" "active_gap bl = Some g"
  defines "d \<equiv> sum_list (map item_height (drop (Suc (gap_index g)) (items_of bl))) - previous"
  defines "h \<equiv> min (max (current_height g - d) 0) (original_height g)"
  shows "\<exists>bl'. shrink_gap previous bl = Some bl' \<and>
    (if h > 0 then active_gap bl' = Some (g\<lparr>current_height := h\<rparr>) \<and> items_of bl' = (items_of bl)[gap_index g := Gap h]
     else active_gap bl' = None \<and> items_of bl' = remove_at (gap_index g) (items_of bl))"
proof -
  note ok = block_list_okD [OF assms(1)]
  have h: "h = new_gap_height (items_of bl) g previous" by (simp add: h_def d_def new_gap_height_def)
  show ?thesis
    using shrink_gap_result [OF ok(2,6,5), of previous] assms(2)
    by (cases "h > 0") (auto simp: Let_def h [symmetric])
qed

lemma shrink_gap_clamps_witness:
  "\<exists>bl'. shrink_gap 0 sample_list = Some bl' \<and> active_gap bl' = Some (sample_gap 1\<lparr>current_height := 3\<rparr>)"
  using shrink_gap_clamps [OF sample_list_ok, of "sample_gap 1" 0]
  by (auto simp: sample_list_def block_list_of_def leaf_of_def sample_gap_def rich_def)

section \<open>Clearing the screen\<close>

text \<open>
  After clearing the visible screen the tree holds the items before the active block
  without any old gap, then the active block and one new gap, the gap last exactly when the
  active block is visible; the active gap's index is the index of that gap.
\<close>

theorem clear_screen_result:
  fixes bl :: "('b, 'h::linordered_ab_group_add) block_list"
  assumes "block_list_ok (Suc (Suc n)) bl" "next_gap_height bl = Some gh"
  shows "\<exists>bl1 bl' h. finish_background_block ops bl = Some bl1 \<and> do_clear_visible_screen ops bl = Some bl' \<and>
    h = blk_height ops (scope bl1) (last (blocks bl1)) \<and>
    items_of bl' = take (block_pos (length (blocks bl1) - 1) (solid (items_of bl1))) (solid (items_of bl1)) @
      (if h > 0 then [Block h, Gap gh] else [Gap gh, Block h]) \<and>
    tracks_gap (items_of bl') (active_gap bl') \<and> blocks_in (items_of bl') = length (blocks bl')"
proof -
  obtain bl1 bl' q h where r: "finish_background_block ops bl = Some bl1" "do_clear_visible_screen ops bl = Some bl'"
    "h = blk_height ops (scope bl1) (last (blocks bl1))"
    "q = block_pos (length (blocks bl1) - 1) (solid (items_of bl1))"
    "items_of bl' = take q (solid (items_of bl1)) @ (if h > 0 then [Block h, Gap gh] else [Gap gh, Block h])"
    "active_gap bl' = Some \<lparr>gap_index = (if h > 0 then Suc q else q), current_height = gh, original_height = gh\<rparr>"
    "q < length (solid (items_of bl1))" "blocks_in (items_of bl') = length (blocks bl')"
    by (rule clear_result [OF assms])
  have "\<not> is_gap (solid (items_of bl1) ! i)" if "i < q" for i
    using that r(7) nth_mem [of i "solid (items_of bl1)"] by auto
  then have "tracks_gap (items_of bl') (active_gap bl')"
    unfolding r(5,6) using r(7)
    by (intro tracks_gap_SomeI) (auto simp: nth_append less_Suc_eq nth_Cons split: if_splits nat.splits)
  with r show ?thesis by metis
qed

lemma clear_screen_result_witness:
  "\<exists>bl'. do_clear_visible_screen sample_ops sample_list = Some bl' \<and> tracks_gap (items_of bl') (active_gap bl')"
  using clear_screen_result [of 0 sample_list 10 sample_ops] sample_list_ok by (auto simp: numeral_2_eq_2)

text \<open>
  The tracked positions do not survive it: removing the old gaps moves the items behind
  them, and no position is shifted.  In a well-formed list with a gap before a tracked rich
  content item, clearing leaves the item's position on the new gap.
\<close>

theorem clear_screen_loses_positions:
  "block_list_ok 2 sample_list \<and>
   map_option (\<lambda>bl. (positions bl (RichContentKey 7), items_of bl)) (do_clear_visible_screen sample_ops sample_list) =
     Some (Some 2, [Block 3, RichContent (rich 7), Gap 10, Block 0])"
proof -
  have "map_option (\<lambda>bl. (positions bl (RichContentKey 7), items_of bl)) (do_clear_visible_screen sample_ops sample_list) =
     Some (Some 2, [Block 3, RichContent (rich 7), Gap 10, Block 0])"
    by code_simp
  with sample_list_ok show ?thesis by simp
qed

section \<open>Reading around a tracked item\<close>

text \<open>
  \<open>get_previous_block_height_item\<close> returns the item before the tracked one, except for
  an item that is first in the list, for which it returns that item itself.
\<close>

theorem previous_item_of_tracked:
  fixes bl :: "('b, 'h::linordered_ab_group_add) block_list"
  assumes "block_list_ok n bl" "positions bl k = Some p"
  shows "get_previous_block_height_item k bl = Some (Some (items_of bl ! (p - 1)))"
proof -
  note ok = block_list_okD [OF assms(1)]
  note wf = roomD [OF ok(1)]
  have p: "p < length (items_of bl)" using ok(5) assms(2) by (simp add: tracks_positions_def)
  obtain found c where c: "cursor_seek total_index unit_dimension p SeekLeft (total_cursor bl) = Some (found, c)"
      "cur_tree c = block_heights bl"
      "cursor_at total_index unit_dimension block_item_summary (min (p - 1) (length (items_of bl))) c"
    by (rule seek_total_left [OF ok(2)])
  have at: "cursor_at total_index unit_dimension block_item_summary (p - 1) c" using c(3) p by (simp add: min_absorb1)
  have "cursor_item c = Some (Some (items_of bl ! (p - 1)))"
    using by_total.unit_seek.cursor_item_at [OF _ at] c(2) wf(1) p by (simp add: panic_simps)
  moreover have "\<exists>r. prev_item c = Some r"
    using by_total.unit_seek.prev_item_at [OF _ at] c(2) wf(1) by simp
  ultimately show ?thesis using assms(2) c(1) by (auto simp: get_previous_block_height_item_def)
qed

lemma previous_item_of_tracked_witness:
  "get_previous_block_height_item (RichContentKey 7) sample_list = Some (Some (Gap 5))"
  using previous_item_of_tracked [OF sample_list_ok, of "RichContentKey 7" 2] by simp

section \<open>Background blocks\<close>

text \<open>
  Inserting a background block before the active block keeps the invariant when nothing
  tracked, and no gap, stands at or behind the active block.
\<close>

theorem insert_background_keeps_tracking:
  fixes bl :: "('b, 'h::linordered_ab_group_add) block_list"
  assumes "block_list_ok (Suc n) bl"
    and "\<And>k p. positions bl k = Some p \<Longrightarrow> p < block_pos (length (blocks bl) - 1) (items_of bl)"
    and "\<And>g. active_gap bl = Some g \<Longrightarrow> gap_index g < block_pos (length (blocks bl) - 1) (items_of bl)"
  shows "\<exists>bl'. insert_background_block ops b bl = Some bl' \<and> block_list_ok n bl' \<and>
    length (blocks bl') = Suc (length (blocks bl))"
  by (rule insert_background_items [OF assms]) blast+

lemma insert_background_keeps_tracking_witness:
  "\<exists>bl'. insert_background_block sample_ops 6 sample_list = Some bl' \<and> block_list_ok 1 bl' \<and> length (blocks bl') = 3"
proof -
  have pos: "p < 3" if "positions sample_list k = Some p" for k p
    using that by (auto simp: sample_list_def block_list_of_def split: if_splits)
  have gap: "gap_index g < 3" if "active_gap sample_list = Some g" for g
    using that by (auto simp: sample_list_def block_list_of_def sample_gap_def)
  show ?thesis
    using insert_background_keeps_tracking [of 1 sample_list sample_ops 6] sample_list_ok pos gap
    by (auto simp: numeral_2_eq_2 numeral_3_eq_3)
qed

definition gap_behind :: "(int, int) block_list" where
  "gap_behind = block_list_of [3, 2] [Block 3, Block 2, Gap 5] Map.empty (Some (sample_gap 2))"

text \<open>
  Without that condition the gap is lost: when the active block is visible the gap
  stands behind it, the insertion shifts no index, and the height update that follows looks
  for the gap in the wrong place and forgets it although its item is still in the tree.
\<close>

theorem insert_background_loses_gap:
  "block_list_ok 2 gap_behind \<and>
   map_option (\<lambda>bl. (active_gap bl, items_of bl)) (insert_background_block sample_ops 6 gap_behind) =
     Some (None, [Block 3, Block 6, Block 2, Gap 5])"
proof -
  have "block_list_ok 2 gap_behind"
    using leaf_of_room [of "[Block 3, Block 2, Gap 5]" 2]
    by (auto simp: block_list_ok_def gap_behind_def block_list_of_def tracks_positions_def sample_gap_def
        nth_Cons less_Suc_eq intro!: tracks_gap_SomeI split: nat.splits)
  moreover have "map_option (\<lambda>bl. (active_gap bl, items_of bl)) (insert_background_block sample_ops 6 gap_behind) =
     Some (None, [Block 3, Block 6, Block 2, Gap 5])"
    by code_simp
  ultimately show ?thesis by simp
qed

end
