(* ===== verification/Sync_Types.thy ===== *)
theory Sync_Types imports Prelude begin

text \<open>
  The data of the cloud sync (\<open>infinishell_sync/src/types.rs\<close>), its errors, and the
  encryption of single values (\<open>crypto.rs\<close>).

  The primitives of \<open>crypto.rs\<close> (SHA-256, AES-256-GCM, Base64, UTF-8) are third-party or
  system code: they are the fields of \<open>crypto_primitives\<close>, and \<open>crypto_laws\<close> says what the
  code relies on, that each decoder undoes its encoder and that a nonce has 12 bytes.
\<close>

section \<open>Platforms, results and errors\<close>

datatype sync_platform = GitHub | Gitee

fun base_url :: "sync_platform \<Rightarrow> string" where
  "base_url GitHub = ''https://api.github.com''"
| "base_url Gitee = ''https://gitee.com/api/v5''"

fun platform_label :: "sync_platform \<Rightarrow> string" where
  "platform_label GitHub = ''GitHub''"
| "platform_label Gitee = ''Gitee''"

fun to_db_str :: "sync_platform \<Rightarrow> string" where
  "to_db_str GitHub = ''github''"
| "to_db_str Gitee = ''gitee''"

datatype sync_result =
    Success int sync_platform
  | Conflict int int
  | AlreadyUpToDate int

datatype crypto_error = Encrypt string | Decrypt string

datatype gist_client_error =
    Request string
  | GistNotFound
  | NoToken
  | Api nat string
  | MissingLogin

datatype sync_engine_error =
    Crypto crypto_error
  | Gist gist_client_error
  | Provider string
  | Serialization string
  | VersionStore string

text \<open>\<open>SyncData\<close>: the JSON values of the sections are the type \<open>'j\<close>.\<close>

record 'j sync_data =
  data_version :: int
  synced_at :: string
  sections :: "string \<rightharpoonup> 'j"

text \<open>\<open>ApplyDataOutcome\<close> and its \<open>merge\<close> (\<open>sync_engine.rs\<close>).\<close>

record apply_outcome =
  local_changed :: bool
  needs_upload :: bool

definition default_outcome :: apply_outcome where
  "default_outcome = \<lparr>local_changed = False, needs_upload = False\<rparr>"

definition merge_outcome :: "apply_outcome \<Rightarrow> apply_outcome \<Rightarrow> apply_outcome" where
  "merge_outcome a b =
    \<lparr>local_changed = (local_changed a \<or> local_changed b),
     needs_upload = (needs_upload a \<or> needs_upload b)\<rparr>"

section \<open>Encryption\<close>

type_synonym bytes = "nat list"

record crypto_primitives =
  sha256 :: "bytes \<Rightarrow> bytes"
  aes_seal :: "bytes \<Rightarrow> bytes \<Rightarrow> bytes \<Rightarrow> string + bytes"
  aes_open :: "bytes \<Rightarrow> bytes \<Rightarrow> bytes \<Rightarrow> string + bytes"
  base64_encode :: "bytes \<Rightarrow> string"
  base64_decode :: "string \<Rightarrow> string + bytes"
  utf8_bytes :: "string \<Rightarrow> bytes"
  utf8_string :: "bytes \<Rightarrow> string + string"

definition derive_key :: "crypto_primitives \<Rightarrow> string \<Rightarrow> bytes" where
  "derive_key P token = sha256 P (sha256 P (utf8_bytes P token))"

definition encrypt ::
  "crypto_primitives \<Rightarrow> bytes \<Rightarrow> string \<Rightarrow> string \<Rightarrow> crypto_error + string" where
  "encrypt P nonce token plaintext =
    (case aes_seal P (derive_key P token) nonce (utf8_bytes P plaintext) of
      Inl e \<Rightarrow> Inl (Encrypt e)
    | Inr ciphertext \<Rightarrow> Inr (base64_encode P (nonce @ ciphertext)))"

definition decrypt :: "crypto_primitives \<Rightarrow> string \<Rightarrow> string \<Rightarrow> crypto_error + string" where
  "decrypt P token encoded =
    (case base64_decode P encoded of
      Inl e \<Rightarrow> Inl (Decrypt e)
    | Inr combined \<Rightarrow>
        if length combined < 12 then Inl (Decrypt ''Data is too short'')
        else
          (case aes_open P (derive_key P token) (take 12 combined) (drop 12 combined) of
            Inl e \<Rightarrow> Inl (Decrypt e)
          | Inr plaintext \<Rightarrow>
              (case utf8_string P plaintext of
                Inl e \<Rightarrow> Inl (Decrypt e)
              | Inr s \<Rightarrow> Inr s)))"

definition crypto_laws :: "crypto_primitives \<Rightarrow> bool" where
  "crypto_laws P \<longleftrightarrow>
    (\<forall>k n p c. aes_seal P k n p = Inr c \<longrightarrow> aes_open P k n c = Inr p) \<and>
    (\<forall>b. base64_decode P (base64_encode P b) = Inr b) \<and>
    (\<forall>s. utf8_string P (utf8_bytes P s) = Inr s)"

lemma merge_outcome_simps [simp]:
  "local_changed (merge_outcome a b) = (local_changed a \<or> local_changed b)"
  "needs_upload (merge_outcome a b) = (needs_upload a \<or> needs_upload b)"
  by (simp_all add: merge_outcome_def)

lemma default_outcome_simps [simp]:
  "local_changed default_outcome = False" "needs_upload default_outcome = False"
  by (simp_all add: default_outcome_def)

lemma merge_default [simp]: "merge_outcome default_outcome a = a" "merge_outcome a default_outcome = a"
  by (simp_all add: merge_outcome_def default_outcome_def)

lemma merge_outcome_assoc: "merge_outcome (merge_outcome a b) c = merge_outcome a (merge_outcome b c)"
  by (simp add: merge_outcome_def)

lemma decrypt_encrypt_ok:
  assumes laws: "crypto_laws P" and nonce: "length nonce = 12"
    and enc: "encrypt P nonce token plaintext = Inr c"
  shows "decrypt P token c = Inr plaintext"
proof -
  obtain ct where "aes_seal P (derive_key P token) nonce (utf8_bytes P plaintext) = Inr ct"
    and "c = base64_encode P (nonce @ ct)"
    using enc by (auto simp: encrypt_def split: sum.splits)
  then show ?thesis using laws nonce by (auto simp: decrypt_def crypto_laws_def)
qed

end
