(* ===== verification/Ssh_Tables.thy ===== *)
theory Ssh_Tables imports Prelude begin

text \<open>
  The tables of the SSH manager (\<open>crates/persistence/src/model.rs\<close>, the rows; the migrations
  \<open>add_ssh_manager_tables\<close>, \<open>add_ssh_onekey_credentials\<close>, \<open>add_ssh_routes\<close>, the schema).

  SQLite itself is not modelled beyond what the schema asks of it: a statement takes effect
  when the tables it leaves satisfy the schema's UNIQUE, CHECK and FOREIGN KEY constraints
  and fails without effect otherwise, and a DELETE carries out the ON DELETE actions
  (\<open>db.rs\<close> opens the connection with \<open>PRAGMA foreign_keys = ON\<close>).  A timestamp is an integer.
\<close>

section \<open>Rows\<close>

record ssh_node_row =
  nr_id :: string
  nr_parent_id :: "string option"
  nr_kind :: string
  nr_name :: string
  nr_sort_order :: int
  nr_created_at :: int
  nr_updated_at :: int
  nr_is_collapsed :: bool

record ssh_onekey_credential_row =
  cr_id :: string
  cr_label :: string
  cr_username :: string
  cr_created_at :: int
  cr_updated_at :: int
  cr_kind :: string
  cr_key_path :: "string option"

record ssh_server_row =
  sr_node_id :: string
  sr_host :: string
  sr_port :: int
  sr_username :: string
  sr_auth_type :: string
  sr_key_path :: "string option"
  sr_startup_command :: "string option"
  sr_notes :: "string option"
  sr_last_connected_at :: "int option"
  sr_credential_id :: "string option"

record ssh_route_row =
  rr_id :: string
  rr_name :: string
  rr_target_node_id :: "string option"
  rr_created_at :: int
  rr_updated_at :: int
  rr_last_connected_at :: "int option"

record ssh_route_hop_row =
  hr_route_id :: string
  hr_position :: int
  hr_node_id :: "string option"
  hr_target_alias :: string
  hr_port :: "int option"
  hr_execution_scope :: string

record ssh_tables =
  node_rows :: "ssh_node_row list"
  credential_rows :: "ssh_onekey_credential_row list"
  server_rows :: "ssh_server_row list"
  route_rows :: "ssh_route_row list"
  hop_rows :: "ssh_route_hop_row list"

definition no_tables :: ssh_tables where
  "no_tables = \<lparr>node_rows = [], credential_rows = [], server_rows = [], route_rows = [], hop_rows = []\<rparr>"

section \<open>Constraints\<close>

definition node_ids :: "ssh_tables \<Rightarrow> string list" where
  "node_ids T = map nr_id (node_rows T)"

definition credential_ids :: "ssh_tables \<Rightarrow> string list" where
  "credential_ids T = map cr_id (credential_rows T)"

definition route_ids :: "ssh_tables \<Rightarrow> string list" where
  "route_ids T = map rr_id (route_rows T)"

definition hop_key :: "ssh_route_hop_row \<Rightarrow> string \<times> int" where
  "hop_key h = (hr_route_id h, hr_position h)"

definition points_into :: "string option \<Rightarrow> string list \<Rightarrow> bool" where
  "points_into ref ids = (case ref of None \<Rightarrow> True | Some i \<Rightarrow> i \<in> set ids)"

definition keys_ok :: "ssh_tables \<Rightarrow> bool" where
  "keys_ok T \<longleftrightarrow> distinct (node_ids T) \<and> distinct (credential_ids T) \<and>
    distinct (map sr_node_id (server_rows T)) \<and> distinct (route_ids T) \<and>
    distinct (map hop_key (hop_rows T))"

definition checks_ok :: "ssh_tables \<Rightarrow> bool" where
  "checks_ok T \<longleftrightarrow>
    (\<forall>n \<in> set (node_rows T). nr_kind n = ''folder'' \<or> nr_kind n = ''server'') \<and>
    (\<forall>c \<in> set (credential_rows T). cr_kind c = ''password'' \<or> cr_kind c = ''key'') \<and>
    (\<forall>s \<in> set (server_rows T).
      sr_auth_type s = ''password'' \<or> sr_auth_type s = ''key'' \<or> sr_auth_type s = ''onekey'') \<and>
    (\<forall>h \<in> set (hop_rows T). 0 \<le> hr_position h \<and> hr_position h < 8 \<and> hr_target_alias h \<noteq> [] \<and>
      (case hr_port h of None \<Rightarrow> True | Some p \<Rightarrow> 1 \<le> p \<and> p \<le> 65535) \<and>
      hr_execution_scope h = ''previous_hop'')"

definition references_ok :: "ssh_tables \<Rightarrow> bool" where
  "references_ok T \<longleftrightarrow>
    (\<forall>n \<in> set (node_rows T). points_into (nr_parent_id n) (node_ids T)) \<and>
    (\<forall>s \<in> set (server_rows T). sr_node_id s \<in> set (node_ids T) \<and>
      points_into (sr_credential_id s) (credential_ids T)) \<and>
    (\<forall>r \<in> set (route_rows T). points_into (rr_target_node_id r) (node_ids T)) \<and>
    (\<forall>h \<in> set (hop_rows T). hr_route_id h \<in> set (route_ids T) \<and>
      points_into (hr_node_id h) (node_ids T))"

definition tables_ok :: "ssh_tables \<Rightarrow> bool" where
  "tables_ok T \<longleftrightarrow> keys_ok T \<and> checks_ok T \<and> references_ok T"

definition violation :: "ssh_tables \<Rightarrow> string option" where
  "violation T =
    (if \<not> keys_ok T then Some ''UNIQUE constraint failed''
     else if \<not> checks_ok T then Some ''CHECK constraint failed''
     else if \<not> references_ok T then Some ''FOREIGN KEY constraint failed''
     else None)"

lemma violation_None [simp]: "violation T = None \<longleftrightarrow> tables_ok T"
  by (simp add: violation_def tables_ok_def)

lemma violation_ok [simp]: "tables_ok T \<Longrightarrow> violation T = None"
  by simp

section \<open>Deletion and its referential actions\<close>

text \<open>
  \<open>parent_id .. ON DELETE CASCADE\<close>: the children of the deleted rows go too, and so on; the
  result is the rows that stay.
\<close>

definition under :: "string list \<Rightarrow> ssh_node_row \<Rightarrow> bool" where
  "under gone r \<longleftrightarrow> (case nr_parent_id r of None \<Rightarrow> False | Some p \<Rightarrow> p \<in> set gone)"

function cascade :: "string list \<Rightarrow> ssh_node_row list \<Rightarrow> ssh_node_row list" where
  "cascade gone rows =
    (let hit = filter (under gone) rows
     in if hit = [] then rows
        else cascade (map nr_id hit) (filter (\<lambda>r. \<not> under gone r) rows))"
  by pat_completeness auto
termination
proof (relation "measure (\<lambda>(gone, rows). length rows)")
  fix gone :: "string list" and rows :: "ssh_node_row list" and hit
  assume "hit = filter (under gone) rows" "hit \<noteq> []"
  then have "\<exists>r \<in> set rows. under gone r" by (auto simp: filter_empty_conv)
  then have "length (filter (\<lambda>r. \<not> under gone r) rows) < length rows"
    by (auto intro: length_filter_less)
  then show "((map nr_id hit, filter (\<lambda>r. \<not> under gone r) rows), gone, rows)
      \<in> measure (\<lambda>(gone, rows). length rows)" by simp
qed simp

declare cascade.simps [simp del]

definition forget :: "string list \<Rightarrow> string option \<Rightarrow> string option" where
  "forget ids ref = (case ref of None \<Rightarrow> None | Some i \<Rightarrow> if i \<in> set ids then Some i else None)"

definition delete_nodes :: "(ssh_node_row \<Rightarrow> bool) \<Rightarrow> ssh_tables \<Rightarrow> ssh_tables" where
  "delete_nodes P T =
    (let rest = cascade (map nr_id (filter P (node_rows T))) (filter (\<lambda>r. \<not> P r) (node_rows T));
         ids = map nr_id rest
     in T\<lparr>node_rows := rest,
          server_rows := filter (\<lambda>s. sr_node_id s \<in> set ids) (server_rows T),
          route_rows := map (\<lambda>r. r\<lparr>rr_target_node_id := forget ids (rr_target_node_id r)\<rparr>) (route_rows T),
          hop_rows := map (\<lambda>h. h\<lparr>hr_node_id := forget ids (hr_node_id h)\<rparr>) (hop_rows T)\<rparr>)"

definition delete_servers :: "(ssh_server_row \<Rightarrow> bool) \<Rightarrow> ssh_tables \<Rightarrow> ssh_tables" where
  "delete_servers P T = T\<lparr>server_rows := filter (\<lambda>s. \<not> P s) (server_rows T)\<rparr>"

definition delete_credentials :: "(ssh_onekey_credential_row \<Rightarrow> bool) \<Rightarrow> ssh_tables \<Rightarrow> ssh_tables" where
  "delete_credentials P T =
    (let rest = filter (\<lambda>c. \<not> P c) (credential_rows T); ids = map cr_id rest
     in T\<lparr>credential_rows := rest,
          server_rows := map (\<lambda>s. s\<lparr>sr_credential_id := forget ids (sr_credential_id s)\<rparr>) (server_rows T)\<rparr>)"

definition delete_routes :: "(ssh_route_row \<Rightarrow> bool) \<Rightarrow> ssh_tables \<Rightarrow> ssh_tables" where
  "delete_routes P T =
    (let rest = filter (\<lambda>r. \<not> P r) (route_rows T); ids = map rr_id rest
     in T\<lparr>route_rows := rest,
          hop_rows := filter (\<lambda>h. hr_route_id h \<in> set ids) (hop_rows T)\<rparr>)"

definition delete_hops :: "(ssh_route_hop_row \<Rightarrow> bool) \<Rightarrow> ssh_tables \<Rightarrow> ssh_tables" where
  "delete_hops P T = T\<lparr>hop_rows := filter (\<lambda>h. \<not> P h) (hop_rows T)\<rparr>"

section \<open>What a cascade removes\<close>

inductive below :: "ssh_node_row list \<Rightarrow> string list \<Rightarrow> string \<Rightarrow> bool"
  for rows gone where
  below_gone: "i \<in> set gone \<Longrightarrow> below rows gone i"
| below_child: "r \<in> set rows \<Longrightarrow> nr_parent_id r = Some p \<Longrightarrow> below rows gone p \<Longrightarrow>
    below rows gone (nr_id r)"

lemma set_cascade_subset: "set (cascade gone rows) \<subseteq> set rows"
proof (induction gone rows rule: cascade.induct)
  case (1 gone rows)
  then show ?case by (subst cascade.simps) (auto simp: Let_def)
qed

lemma distinct_cascade: "distinct (map nr_id rows) \<Longrightarrow> distinct (map nr_id (cascade gone rows))"
proof (induction gone rows rule: cascade.induct)
  case (1 gone rows)
  then show ?case
    by (subst cascade.simps) (auto simp: Let_def distinct_map_filter)
qed

lemma cascade_closed:
  "r \<in> set (cascade gone rows) \<Longrightarrow> nr_parent_id r = Some p \<Longrightarrow> p \<notin> set gone"
proof (induction gone rows rule: cascade.induct)
  case (1 gone rows)
  show ?case
  proof (cases "filter (under gone) rows = []")
    case True
    then have "r \<in> set rows" using 1(2) by (subst (asm) cascade.simps) (simp add: Let_def)
    then show ?thesis using True 1(3) by (auto simp: filter_empty_conv under_def)
  next
    case False
    then have "r \<in> set (cascade (map nr_id (filter (under gone) rows)) (filter (\<lambda>r. \<not> under gone r) rows))"
      using 1(2) by (subst (asm) cascade.simps) (simp add: Let_def)
    then have "\<not> under gone r" using set_cascade_subset by fastforce
    then show ?thesis using 1(3) by (simp add: under_def)
  qed
qed

text \<open>The parent of a row that stays was not removed.\<close>

lemma cascade_parents:
  assumes "r \<in> set (cascade gone rows)" "nr_parent_id r = Some p" "p \<in> nr_id ` set rows"
  shows "p \<in> nr_id ` set (cascade gone rows)"
  using assms
proof (induction gone rows rule: cascade.induct)
  case (1 gone rows)
  let ?hit = "filter (under gone) rows" and ?rest = "filter (\<lambda>r. \<not> under gone r) rows"
  show ?case
  proof (cases "?hit = []")
    case True
    then have "cascade gone rows = rows" by (subst cascade.simps) (simp add: Let_def)
    then show ?thesis using 1(4) by simp
  next
    case False
    have eq: "cascade gone rows = cascade (map nr_id ?hit) ?rest"
      using False by (subst cascade.simps) (simp add: Let_def)
    have r: "r \<in> set (cascade (map nr_id ?hit) ?rest)" using 1(2) eq by simp
    have "p \<notin> nr_id ` set ?hit" using cascade_closed [OF r 1(3)] by simp
    then have "p \<in> nr_id ` set ?rest" using 1(4) by auto
    then show ?thesis using 1(1) [OF refl False r 1(3)] eq by simp
  qed
qed

lemma below_mono:
  assumes "below rows gone i" and "set rows \<subseteq> set rows'" and "\<And>j. j \<in> set gone \<Longrightarrow> below rows' gone' j"
  shows "below rows' gone' i"
  using assms by (induction rule: below.induct) (auto intro: below.intros)

lemma removed_below:
  "r \<in> set rows \<Longrightarrow> r \<notin> set (cascade gone rows) \<Longrightarrow> below rows gone (nr_id r)"
proof (induction gone rows rule: cascade.induct)
  case (1 gone rows)
  let ?hit = "filter (under gone) rows" and ?rest = "filter (\<lambda>r. \<not> under gone r) rows"
  have hit: "below rows gone j" if "j \<in> set (map nr_id ?hit)" for j
    using that by (auto simp: under_def split: option.splits intro: below.intros)
  show ?case
  proof (cases "?hit = []")
    case True
    then show ?thesis using 1(2,3) by (subst (asm) cascade.simps) (simp add: Let_def)
  next
    case False
    have eq: "cascade gone rows = cascade (map nr_id ?hit) ?rest"
      using False by (subst cascade.simps) (simp add: Let_def)
    show ?thesis
    proof (cases "under gone r")
      case True
      then show ?thesis using hit [of "nr_id r"] 1(2) by auto
    next
      case rest: False
      then have "below ?rest (map nr_id ?hit) (nr_id r)"
        using 1(1) [OF refl False] 1(2,3) eq by simp
      then show ?thesis by (rule below_mono) (use hit in auto)
    qed
  qed
qed

lemma below_not_kept:
  assumes "below rows gone i" and "distinct (map nr_id rows)" and "set gone \<inter> nr_id ` set rows = {}"
    and "\<And>r. r \<in> set rows \<Longrightarrow> points_into (nr_parent_id r) (gone @ map nr_id rows)"
  shows "i \<notin> nr_id ` set (cascade gone rows)"
  using assms(1)
proof (induction rule: below.induct)
  case (below_gone i)
  then show ?case using assms(3) set_cascade_subset [of gone rows] by auto
next
  case (below_child r p)
  show ?case
  proof
    assume "nr_id r \<in> nr_id ` set (cascade gone rows)"
    then obtain r' where r': "r' \<in> set (cascade gone rows)" "nr_id r' = nr_id r" by auto
    then have "r' = r"
      using below_child(1) assms(2) set_cascade_subset [of gone rows]
      by (auto simp: distinct_map dest: inj_onD)
    then have r: "r \<in> set (cascade gone rows)" using r' by simp
    have "p \<notin> set gone" by (rule cascade_closed [OF r below_child(2)])
    moreover have "p \<in> set gone \<union> nr_id ` set rows"
      using assms(4) [OF below_child(1)] below_child(2) by (auto simp: points_into_def)
    ultimately show False using cascade_parents [OF r below_child(2)] below_child.IH by auto
  qed
qed


text \<open>Exactly the rows below the deleted ones go.\<close>

lemma kept_nodes:
  assumes ok: "tables_ok T"
  shows "node_rows (delete_nodes P T) =
    filter (\<lambda>r. \<not> below (node_rows T) (map nr_id (filter P (node_rows T))) (nr_id r)) (node_rows T)"
proof -
  let ?rows = "node_rows T" and ?gone = "map nr_id (filter P (node_rows T))"
  let ?rest = "filter (\<lambda>r. \<not> P r) ?rows"
  have dist: "distinct (map nr_id ?rows)" using ok by (simp add: tables_ok_def keys_ok_def node_ids_def)
  have sub: "cascade gone rows = filter (\<lambda>r. r \<in> set (cascade gone rows)) rows" for gone rows
  proof (induction gone rows rule: cascade.induct)
    case (1 gone rows)
    show ?case
    proof (cases "filter (under gone) rows = []")
      case True
      then show ?thesis by (simp add: cascade.simps [of gone rows] Let_def)
    next
      case False
      have eq: "cascade gone rows =
          cascade (map nr_id (filter (under gone) rows)) (filter (\<lambda>r. \<not> under gone r) rows)"
        using False by (subst cascade.simps) (simp add: Let_def)
      show ?thesis unfolding eq
        by (subst 1(1) [OF refl False], subst filter_filter, rule filter_cong [OF refl])
          (use set_cascade_subset [of "map nr_id (filter (under gone) rows)" "filter (\<lambda>r. \<not> under gone r) rows"] in auto)
    qed
  qed
  have gone_rest: "set ?gone \<inter> nr_id ` set ?rest = {}"
    using dist by (auto simp: distinct_map dest: inj_onD)
  have points: "points_into (nr_parent_id r) (?gone @ map nr_id ?rest)" if "r \<in> set ?rest" for r
  proof -
    have "points_into (nr_parent_id r) (node_ids T)"
      using that ok by (simp add: tables_ok_def references_ok_def)
    moreover have "set (node_ids T) \<subseteq> set ?gone \<union> nr_id ` set ?rest" by (auto simp: node_ids_def)
    ultimately show ?thesis by (cases "nr_parent_id r") (auto simp: points_into_def)
  qed
  have same_below: "below ?rest ?gone i" if "below ?rows ?gone i" for i
    using that
  proof (induction rule: below.induct)
    case (below_child r p)
    then show ?case by (cases "P r") (auto intro: below.intros)
  qed (auto intro: below.intros)
  have "r \<in> set (cascade ?gone ?rest) \<longleftrightarrow> \<not> below ?rows ?gone (nr_id r)" if r: "r \<in> set ?rows" for r
  proof
    assume "r \<in> set (cascade ?gone ?rest)"
    then show "\<not> below ?rows ?gone (nr_id r)"
      using below_not_kept [OF same_below _ gone_rest points, of "nr_id r"] dist
      by (auto simp: distinct_map_filter)
  next
    assume not: "\<not> below ?rows ?gone (nr_id r)"
    show "r \<in> set (cascade ?gone ?rest)"
    proof (rule ccontr)
      assume "r \<notin> set (cascade ?gone ?rest)"
      moreover have "\<not> P r" using not r by (auto intro: below_gone)
      ultimately have "below ?rest ?gone (nr_id r)" using r by (intro removed_below) auto
      then have "below ?rows ?gone (nr_id r)" by (rule below_mono) (auto intro: below_gone)
      then show False using not by simp
    qed
  qed
  moreover have "\<not> P r" if "r \<in> set (cascade ?gone ?rest)" for r
    using that set_cascade_subset [of ?gone ?rest] by auto
  ultimately have same: "filter (\<lambda>r. r \<in> set (cascade ?gone ?rest)) ?rest =
      filter (\<lambda>r. \<not> below ?rows ?gone (nr_id r)) ?rows"
    unfolding filter_filter by (intro filter_cong [OF refl]) blast
  have "node_rows (delete_nodes P T) = cascade ?gone ?rest" by (simp add: delete_nodes_def Let_def)
  also have "\<dots> = filter (\<lambda>r. r \<in> set (cascade ?gone ?rest)) ?rest" by (rule sub)
  finally show ?thesis using same by (rule trans)
qed

lemma hop_key_forget [simp]: "hop_key (h\<lparr>hr_node_id := x\<rparr>) = hop_key h"
  by (simp add: hop_key_def)

lemma forget_points [simp]: "points_into (forget ids ref) ids"
  by (auto simp: forget_def points_into_def split: option.splits)

lemma forget_known: "points_into ref ids \<Longrightarrow> forget ids ref = ref"
  by (auto simp: forget_def points_into_def split: option.splits)

section \<open>Deletions keep the constraints\<close>

lemmas table_defs = tables_ok_def keys_ok_def checks_ok_def references_ok_def node_ids_def
  credential_ids_def route_ids_def

lemma delete_nodes_ok [wf_intros]:
  assumes ok: "tables_ok T"
  shows "tables_ok (delete_nodes P T)"
proof -
  let ?T = "delete_nodes P T"
  let ?gone = "map nr_id (filter P (node_rows T))" and ?start = "filter (\<lambda>r. \<not> P r) (node_rows T)"
  have rest: "node_rows ?T = cascade ?gone ?start" by (simp add: delete_nodes_def Let_def)
  have ids: "node_ids ?T = map nr_id (cascade ?gone ?start)" by (simp add: node_ids_def rest)
  have sub: "set (node_rows ?T) \<subseteq> set (node_rows T)"
    unfolding rest using set_cascade_subset by fastforce
  have other: "server_rows ?T = filter (\<lambda>s. sr_node_id s \<in> set (node_ids ?T)) (server_rows T)"
    "route_rows ?T = map (\<lambda>r. r\<lparr>rr_target_node_id := forget (node_ids ?T) (rr_target_node_id r)\<rparr>) (route_rows T)"
    "hop_rows ?T = map (\<lambda>h. h\<lparr>hr_node_id := forget (node_ids ?T) (hr_node_id h)\<rparr>) (hop_rows T)"
    "credential_rows ?T = credential_rows T"
    by (simp_all add: delete_nodes_def Let_def node_ids_def)
  have "distinct (node_ids ?T)" unfolding ids
    using ok by (intro distinct_cascade) (simp add: table_defs distinct_map_filter)
  then have keys: "keys_ok ?T"
    using ok unfolding keys_ok_def tables_ok_def route_ids_def credential_ids_def
    by (simp add: other distinct_map_filter o_def)
  have checks: "checks_ok ?T"
    unfolding checks_ok_def
  proof (intro conjI ballI)
    fix n assume "n \<in> set (node_rows ?T)"
    then show "nr_kind n = ''folder'' \<or> nr_kind n = ''server''"
      using sub ok unfolding tables_ok_def checks_ok_def by blast
  qed (use ok in \<open>auto simp: other tables_ok_def checks_ok_def\<close>)
  have parents: "points_into (nr_parent_id n) (node_ids ?T)" if n: "n \<in> set (node_rows ?T)" for n
  proof (cases "nr_parent_id n")
    case (Some p)
    have "points_into (nr_parent_id n) (node_ids T)"
      using ok n sub unfolding tables_ok_def references_ok_def by blast
    then have "p \<in> set (node_ids T)" using Some by (simp add: points_into_def)
    moreover have "set (node_ids T) \<subseteq> set ?gone \<union> nr_id ` set ?start" by (auto simp: node_ids_def)
    moreover have "n \<in> set (cascade ?gone ?start)" using n rest by simp
    ultimately have "p \<in> nr_id ` set ?start" using cascade_closed [OF _ Some, of ?gone ?start] by blast
    then show ?thesis using cascade_parents [OF _ Some] n rest Some by (simp add: points_into_def ids)
  qed (simp add: points_into_def)
  have creds: "credential_ids ?T = credential_ids T" "route_ids ?T = route_ids T"
    by (simp_all add: credential_ids_def route_ids_def other o_def)
  have "references_ok ?T"
    unfolding references_ok_def creds
  proof (intro conjI ballI)
    fix n assume "n \<in> set (node_rows ?T)" then show "points_into (nr_parent_id n) (node_ids ?T)" by (rule parents)
  qed (use ok in \<open>auto simp: other tables_ok_def references_ok_def\<close>)
  then show ?thesis using keys checks by (simp add: tables_ok_def)
qed

lemma delete_servers_ok [wf_intros]: "tables_ok T \<Longrightarrow> tables_ok (delete_servers P T)"
  by (auto simp: table_defs delete_servers_def distinct_map_filter)

lemma delete_credentials_ok [wf_intros]: "tables_ok T \<Longrightarrow> tables_ok (delete_credentials P T)"
  unfolding tables_ok_def keys_ok_def checks_ok_def references_ok_def
  by (auto simp: node_ids_def credential_ids_def route_ids_def delete_credentials_def Let_def
      distinct_map_filter o_def)

lemma delete_routes_ok [wf_intros]: "tables_ok T \<Longrightarrow> tables_ok (delete_routes P T)"
  unfolding tables_ok_def keys_ok_def checks_ok_def references_ok_def
  by (auto simp: node_ids_def credential_ids_def route_ids_def delete_routes_def Let_def
      distinct_map_filter)

lemma delete_hops_ok [wf_intros]: "tables_ok T \<Longrightarrow> tables_ok (delete_hops P T)"
  by (auto simp: table_defs delete_hops_def distinct_map_filter)

end
