(* ===== verification/Sync_Store.thy ===== *)
theory Sync_Store imports Sync_Types Ssh_Tables begin

text \<open>
  The local side of the cloud sync: the \<open>sync_meta\<close> table with the sync version
  (\<open>warp_ssh_manager/src/repository.rs\<close>, \<open>SyncMetaRepository\<close>), the process-wide
  connection (\<open>db.rs\<close>, \<open>with_conn\<close>) and \<open>DbVersionStore\<close> (\<open>sync_provider.rs\<close>), which
  gives them to the sync engine as a \<open>SyncVersionStore\<close>.

  Diesel and SQLite are third-party: what the code relies on is that a statement either
  fails and changes nothing or takes effect, and that a transaction that fails is rolled
  back.  Which statements fail is data of the state, a list of outcomes that the statements
  consume in order (the empty list: no more failures).  The versions are \<open>i64\<close>, here
  integers with the overflow checks written out, and the table keeps them as text, as the
  code does.
\<close>

section \<open>Decimal text of an i64\<close>

definition i64_min :: int where "i64_min = - (2 ^ 63)"
definition i64_max :: int where "i64_max = 2 ^ 63 - 1"

definition in_i64 :: "int \<Rightarrow> bool" where
  "in_i64 v \<longleftrightarrow> i64_min \<le> v \<and> v \<le> i64_max"

definition checked_add_i64 :: "int \<Rightarrow> int \<Rightarrow> int option" where
  "checked_add_i64 a b = (if in_i64 (a + b) then Some (a + b) else None)"

definition digit_char :: "nat \<Rightarrow> char" where
  "digit_char d = char_of (48 + d)"

definition digit_value :: "char \<Rightarrow> nat option" where
  "digit_value c =
    (if 48 \<le> (of_char c :: nat) \<and> of_char c \<le> (57 :: nat) then Some (of_char c - 48) else None)"

fun show_nat :: "nat \<Rightarrow> string" where
  "show_nat n = (if n < 10 then [digit_char n] else show_nat (n div 10) @ [digit_char (n mod 10)])"

definition show_i64 :: "int \<Rightarrow> string" where
  "show_i64 v = (if v < 0 then CHR ''-'' # show_nat (nat (- v)) else show_nat (nat v))"

definition parse_step :: "nat option \<Rightarrow> char \<Rightarrow> nat option" where
  "parse_step acc c = do { a \<leftarrow> acc; d \<leftarrow> digit_value c; Some (a * 10 + d) }"

definition parse_nat :: "string \<Rightarrow> nat option" where
  "parse_nat s = (if s = [] then None else foldl parse_step (Some 0) s)"

definition parse_i64 :: "string \<Rightarrow> int option" where
  "parse_i64 s =
    (let v = (case s of
        [] \<Rightarrow> None
      | c # rest \<Rightarrow>
          if c = CHR ''-'' then map_option (\<lambda>n. - int n) (parse_nat rest)
          else if c = CHR ''+'' then map_option int (parse_nat rest)
          else map_option int (parse_nat s))
     in case v of Some i \<Rightarrow> if in_i64 i then Some i else None | None \<Rightarrow> None)"

lemma digit_value_digit_char: "d < 10 \<Longrightarrow> digit_value (digit_char d) = Some d"
  by (simp add: digit_value_def digit_char_def)

lemma digit_char_not_sign: "d < 10 \<Longrightarrow> digit_char d \<noteq> CHR ''-'' \<and> digit_char d \<noteq> CHR ''+''"
proof -
  assume "d < 10"
  then have "(of_char (digit_char d) :: nat) = 48 + d" by (simp add: digit_char_def)
  then show ?thesis by auto
qed

lemma show_nat_not_Nil [simp]: "show_nat n \<noteq> []"
  by (subst show_nat.simps) simp

declare show_nat.simps [simp del]

lemma foldl_parse_show_nat: "foldl parse_step (Some 0) (show_nat n) = Some n"
proof (induction n rule: show_nat.induct)
  case (1 n)
  show ?case
  proof (cases "n < 10")
    case True
    then show ?thesis by (simp add: show_nat.simps [of n] parse_step_def digit_value_digit_char)
  next
    case False
    then show ?thesis using 1
      by (simp add: show_nat.simps [of n] parse_step_def digit_value_digit_char)
  qed
qed

lemma parse_show_nat: "parse_nat (show_nat n) = Some n"
  by (simp add: parse_nat_def foldl_parse_show_nat)

lemma hd_show_nat: "hd (show_nat n) \<noteq> CHR ''-'' \<and> hd (show_nat n) \<noteq> CHR ''+''"
proof (induction n rule: show_nat.induct)
  case (1 n)
  then show ?case
    by (subst (1 2) show_nat.simps) (auto simp: digit_char_not_sign hd_append)
qed

lemma parse_show_i64:
  assumes "in_i64 v"
  shows "parse_i64 (show_i64 v) = Some v"
proof (cases "v < 0")
  case True
  then show ?thesis using assms by (simp add: parse_i64_def show_i64_def parse_show_nat)
next
  case False
  obtain c rest where cs: "show_nat (nat v) = c # rest"
    by (cases "show_nat (nat v)") auto
  then have "c \<noteq> CHR ''-''" "c \<noteq> CHR ''+''" using hd_show_nat [of "nat v"] by auto
  then show ?thesis using False assms parse_show_nat [of "nat v"] cs
    by (simp add: parse_i64_def show_i64_def)
qed

lemma parse_i64_in_range: "parse_i64 s = Some v \<Longrightarrow> in_i64 v"
  by (auto simp: parse_i64_def Let_def split: option.splits if_splits)

lemma in_i64_0 [simp]: "in_i64 0"
  by (simp add: in_i64_def i64_min_def i64_max_def)

section \<open>The database connection\<close>

text \<open>A row of \<open>ssh_machine_memories\<close>; its timestamps are RFC3339 text.\<close>

record memory_row =
  row_machine_key :: string
  row_content :: string
  row_hostname_alias :: "string option"
  row_ssh_node_id :: "string option"
  row_last_review_at :: "string option"
  row_created_at :: string
  row_updated_at :: string
  row_deleted_at :: "string option"

record sync_db =
  path_set :: bool
  poisoned :: bool
  connected :: bool
  statements :: "string option list"
  sync_meta :: "string \<rightharpoonup> string"
  memory_rows :: "memory_row list"
  ssh :: ssh_tables

datatype repository_error =
    Db string
  | NodeNotFound string
  | InvalidEnum string string
  | SyncVersionOverflow int
  | InvalidRoute string

fun repository_error_text :: "repository_error \<Rightarrow> string" where
  "repository_error_text (Db e) = ''database error: '' @ e"
| "repository_error_text (NodeNotFound e) = ''node not found: '' @ e"
| "repository_error_text (InvalidEnum c v) = ''invalid value in db column `'' @ c @ ''`: '' @ v"
| "repository_error_text (SyncVersionOverflow v) = ''sync version overflow at '' @ show_i64 v"
| "repository_error_text (InvalidRoute e) = ''invalid SSH route: '' @ e"

text \<open>One statement sent to SQLite: the next outcome of the list.\<close>

definition statement :: "'a sync_db_scheme \<Rightarrow> (string + unit) \<times> 'a sync_db_scheme" where
  "statement db =
    (case statements db of
      [] \<Rightarrow> (Inr (), db)
    | None # rest \<Rightarrow> (Inr (), db\<lparr>statements := rest\<rparr>)
    | Some e # rest \<Rightarrow> (Inl e, db\<lparr>statements := rest\<rparr>))"

definition open_conn :: "'a sync_db_scheme \<Rightarrow> (string + unit) \<times> 'a sync_db_scheme" where
  "open_conn db =
    (if \<not> path_set db then (Inl ''warp_ssh_manager::db: database path not initialized'', db)
     else attempt (statement db) (\<lambda>_ db1.
          attempt (statement db1) (\<lambda>_ db2. (Inr (), db2\<lparr>connected := True\<rparr>))))"

definition with_conn ::
  "('a sync_db_scheme \<Rightarrow> (string + 'r) \<times> 'a sync_db_scheme) \<Rightarrow>
   'a sync_db_scheme \<Rightarrow> (string + 'r) \<times> 'a sync_db_scheme" where
  "with_conn f db =
    (if poisoned db then (Inl ''warp_ssh_manager db mutex poisoned'', db)
     else attempt (if connected db then (Inr (), db) else open_conn db) (\<lambda>_ db1. f db1))"

definition rolled_back :: "'a sync_db_scheme \<Rightarrow> 'a sync_db_scheme \<Rightarrow> 'a sync_db_scheme" where
  "rolled_back before db = db\<lparr>sync_meta := sync_meta before, memory_rows := memory_rows before, ssh := ssh before\<rparr>"

text \<open>\<open>conn.transaction\<close>; \<open>wrap\<close> is the \<open>From\<close> conversion of a database error.\<close>

definition transaction ::
  "(string \<Rightarrow> 'e) \<Rightarrow> ('a sync_db_scheme \<Rightarrow> ('e + 'r) \<times> 'a sync_db_scheme) \<Rightarrow>
   'a sync_db_scheme \<Rightarrow> ('e + 'r) \<times> 'a sync_db_scheme" where
  "transaction wrap f db =
    attempt (map_err wrap (statement db)) (\<lambda>_ db1.
      case f db1 of
        (Inl e, db2) \<Rightarrow> (Inl e, rolled_back db1 db2)
      | (Inr r, db2) \<Rightarrow>
          (case statement db2 of
            (Inl e, db3) \<Rightarrow> (Inl (wrap e), rolled_back db1 db3)
          | (Inr _, db3) \<Rightarrow> (Inr r, db3)))"

section \<open>SyncMetaRepository\<close>

definition stored_version :: "(string \<rightharpoonup> string) \<Rightarrow> int" where
  "stored_version meta =
    (case (case meta ''sync_version'' of None \<Rightarrow> None | Some s \<Rightarrow> parse_i64 s) of
      None \<Rightarrow> 0 | Some v \<Rightarrow> v)"

definition get_sync_version ::
  "'a sync_db_scheme \<Rightarrow> (repository_error + int) \<times> 'a sync_db_scheme" where
  "get_sync_version db =
    attempt (map_err Db (statement db)) (\<lambda>_ db1. (Inr (stored_version (sync_meta db1)), db1))"

definition set_sync_version ::
  "int \<Rightarrow> 'a sync_db_scheme \<Rightarrow> (repository_error + unit) \<times> 'a sync_db_scheme" where
  "set_sync_version v db =
    attempt (map_err Db (statement db)) (\<lambda>_ db1.
      (Inr (), db1\<lparr>sync_meta := (sync_meta db1)(''sync_version'' \<mapsto> show_i64 v)\<rparr>))"

definition increment_sync_version ::
  "'a sync_db_scheme \<Rightarrow> (repository_error + int) \<times> 'a sync_db_scheme" where
  "increment_sync_version db =
    attempt (get_sync_version db) (\<lambda>current db1.
      case checked_add_i64 current 1 of
        None \<Rightarrow> (Inl (SyncVersionOverflow current), db1)
      | Some v \<Rightarrow>
          attempt (map_err Db (statement db1)) (\<lambda>_ db2.
            (Inr v, db2\<lparr>sync_meta := (sync_meta db2)(''sync_version'' \<mapsto> show_i64 v)\<rparr>)))"

definition commit_body ::
  "int \<Rightarrow> int \<Rightarrow> 'a sync_db_scheme \<Rightarrow> (repository_error + int) \<times> 'a sync_db_scheme" where
  "commit_body expected synced db =
    attempt (get_sync_version db) (\<lambda>current db1.
      attempt
        (if current = expected then (Inr synced, db1)
         else case checked_add_i64 (max current synced) 1 of
             None \<Rightarrow> (Inl (SyncVersionOverflow (max current synced)), db1)
           | Some v \<Rightarrow> (Inr v, db1))
        (\<lambda>committed db2.
          attempt (set_sync_version committed db2) (\<lambda>_ db3. (Inr committed, db3))))"

definition commit_sync_version ::
  "int \<Rightarrow> int \<Rightarrow> 'a sync_db_scheme \<Rightarrow> (repository_error + int) \<times> 'a sync_db_scheme" where
  "commit_sync_version expected synced = transaction Db (commit_body expected synced)"

definition update_sync_meta ::
  "string \<Rightarrow> string \<Rightarrow> 'a sync_db_scheme \<Rightarrow> (repository_error + unit) \<times> 'a sync_db_scheme" where
  "update_sync_meta last_time last_platform db =
    attempt (map_err Db (statement db)) (\<lambda>_ db1.
      (Inr (), db1\<lparr>sync_meta := (sync_meta db1)
        (''last_sync_time'' \<mapsto> last_time, ''last_sync_platform'' \<mapsto> last_platform)\<rparr>))"

definition get_last_sync_time ::
  "'a sync_db_scheme \<Rightarrow> (repository_error + string) \<times> 'a sync_db_scheme" where
  "get_last_sync_time db =
    attempt (map_err Db (statement db)) (\<lambda>_ db1.
      (Inr (case sync_meta db1 ''last_sync_time'' of None \<Rightarrow> [] | Some v \<Rightarrow> v), db1))"

definition get_last_sync_platform ::
  "'a sync_db_scheme \<Rightarrow> (repository_error + string) \<times> 'a sync_db_scheme" where
  "get_last_sync_platform db =
    attempt (map_err Db (statement db)) (\<lambda>_ db1.
      (Inr (case sync_meta db1 ''last_sync_platform'' of None \<Rightarrow> [] | Some v \<Rightarrow> v), db1))"

section \<open>DbVersionStore\<close>

definition db_get_sync_version ::
  "'a sync_db_scheme \<Rightarrow> (sync_engine_error + int) \<times> 'a sync_db_scheme" where
  "db_get_sync_version = (\<lambda>db. map_err VersionStore (with_conn (\<lambda>c. map_err repository_error_text (get_sync_version c)) db))"

definition db_set_sync_version ::
  "int \<Rightarrow> 'a sync_db_scheme \<Rightarrow> (sync_engine_error + unit) \<times> 'a sync_db_scheme" where
  "db_set_sync_version v = (\<lambda>db. map_err VersionStore (with_conn (\<lambda>c. map_err repository_error_text (set_sync_version v c)) db))"

definition db_commit_sync_version ::
  "int \<Rightarrow> int \<Rightarrow> 'a sync_db_scheme \<Rightarrow> (sync_engine_error + int) \<times> 'a sync_db_scheme" where
  "db_commit_sync_version expected synced =
    (\<lambda>db. map_err VersionStore
      (with_conn (\<lambda>c. map_err repository_error_text (commit_sync_version expected synced c)) db))"

definition db_update_sync_meta ::
  "string \<Rightarrow> string \<Rightarrow> 'a sync_db_scheme \<Rightarrow> (sync_engine_error + unit) \<times> 'a sync_db_scheme" where
  "db_update_sync_meta last_time last_platform =
    (\<lambda>db. map_err VersionStore
      (with_conn (\<lambda>c. map_err repository_error_text (update_sync_meta last_time last_platform c)) db))"

definition db_version :: "'a sync_db_scheme \<Rightarrow> int" where
  "db_version db = stored_version (sync_meta db)"

section \<open>What a version store promises\<close>

text \<open>The trait \<open>SyncVersionStore\<close> as an object: the operations of an implementation.\<close>

record 'w version_store =
  vs_get :: "'w \<Rightarrow> (sync_engine_error + int) \<times> 'w"
  vs_set :: "int \<Rightarrow> 'w \<Rightarrow> (sync_engine_error + unit) \<times> 'w"
  vs_commit :: "int \<Rightarrow> int \<Rightarrow> 'w \<Rightarrow> (sync_engine_error + int) \<times> 'w"
  vs_update_meta :: "string \<Rightarrow> string \<Rightarrow> 'w \<Rightarrow> (sync_engine_error + unit) \<times> 'w"

definition db_version_store :: "'a sync_db_scheme version_store" where
  "db_version_store =
    \<lparr>vs_get = db_get_sync_version, vs_set = db_set_sync_version,
     vs_commit = db_commit_sync_version, vs_update_meta = db_update_sync_meta\<rparr>"

text \<open>
  The contract the sync engine relies on.  \<open>version\<close> is the version the store holds and
  \<open>content\<close> the rest of the state that the store must leave alone.  An operation that fails
  has not changed the version; a commit that finds the expected version stores the synced
  one, and otherwise keeps a version above both.
\<close>

locale sync_version_store =
  fixes vs :: "'w version_store" and version :: "'w \<Rightarrow> int" and content :: "'w \<Rightarrow> 'c"
  assumes version_range: "in_i64 (version w)"
    and get_reads: "vs_get vs w = (Inr v, w') \<Longrightarrow> v = version w"
    and get_keeps: "version (snd (vs_get vs w)) = version w"
    and set_stores: "vs_set vs v w = (Inr (), w') \<Longrightarrow> in_i64 v \<Longrightarrow> version w' = v"
    and set_fails: "vs_set vs v w = (Inl e, w') \<Longrightarrow> version w' = version w"
    and commit_result: "vs_commit vs expected synced w = (Inr c, w') \<Longrightarrow>
      c = (if version w = expected then synced else max (version w) synced + 1)"
    and commit_stores: "vs_commit vs expected synced w = (Inr c, w') \<Longrightarrow> in_i64 synced \<Longrightarrow>
      version w' = c"
    and commit_fails: "vs_commit vs expected synced w = (Inl e, w') \<Longrightarrow> version w' = version w"
    and meta_keeps: "version (snd (vs_update_meta vs time platform w)) = version w"
    and get_content: "content (snd (vs_get vs w)) = content w"
    and commit_content: "content (snd (vs_commit vs expected synced w)) = content w"
    and meta_content: "content (snd (vs_update_meta vs time platform w)) = content w"
begin

lemma commit_at_least:
  assumes "vs_commit vs expected synced w = (Inr c, w')" and "in_i64 synced"
  shows "synced \<le> version w'"
  using commit_result [OF assms(1)] commit_stores [OF assms] by (auto split: if_splits)

lemma commit_unchanged:
  assumes "vs_commit vs expected synced w = (Inr c, w')" and "in_i64 synced"
    and "version w = expected"
  shows "version w' = synced"
  using commit_result [OF assms(1)] commit_stores [OF assms(1,2)] assms(3) by simp

lemma commit_pending:
  assumes "vs_commit vs expected synced w = (Inr c, w')" and "in_i64 synced"
    and "version w \<noteq> expected"
  shows "synced < version w'" "version w < version w'"
  using commit_result [OF assms(1)] commit_stores [OF assms(1,2)] assms(3) by auto

end

section \<open>DbVersionStore keeps the promise\<close>

lemmas store_defs = db_get_sync_version_def db_set_sync_version_def db_commit_sync_version_def
  db_update_sync_meta_def with_conn_def open_conn_def get_sync_version_def set_sync_version_def
  commit_sync_version_def update_sync_meta_def

definition db_content :: "'a sync_db_scheme \<Rightarrow> memory_row list \<times> ssh_tables \<times> 'a" where
  "db_content db = (memory_rows db, ssh db, sync_db.more db)"

definition same_tables :: "'a sync_db_scheme \<Rightarrow> 'a sync_db_scheme \<Rightarrow> bool" where
  "same_tables a b \<longleftrightarrow> sync_meta b = sync_meta a \<and> db_content b = db_content a"

lemma same_tables_refl [simp]: "same_tables a a"
  by (simp add: same_tables_def)

lemma same_tables_trans: "same_tables a b \<Longrightarrow> same_tables b c \<Longrightarrow> same_tables a c"
  by (simp add: same_tables_def)

lemma same_tables_version: "same_tables a b \<Longrightarrow> db_version b = db_version a"
  by (simp add: same_tables_def db_version_def)

lemma statement_tables: "same_tables db (snd (statement db))"
  by (auto simp: statement_def same_tables_def db_content_def split: list.splits option.splits)

lemma open_conn_tables: "same_tables db (snd (open_conn db))"
proof -
  obtain x db1 where s1: "statement db = (x, db1)" by fastforce
  obtain y db2 where s2: "statement db1 = (y, db2)" by fastforce
  have "same_tables db db1" "same_tables db1 db2"
    using statement_tables [of db] statement_tables [of db1] s1 s2 by simp_all
  then show ?thesis using s1 s2
    by (cases x; cases y) (auto simp: open_conn_def same_tables_def db_content_def)
qed

lemma with_conn_cases:
  obtains (fails) e db1 where "with_conn f db = (Inl e, db1)" "same_tables db db1"
    | (runs) db1 where "with_conn f db = f db1" "same_tables db db1"
proof (cases "poisoned db")
  case True
  then show thesis by (intro fails [of "''warp_ssh_manager db mutex poisoned''" db])
      (auto simp: with_conn_def)
next
  case False
  let ?r = "if connected db then (Inr (), db) else open_conn db"
  have tables: "same_tables db (snd ?r)" by (simp add: open_conn_tables)
  obtain x db1 where r: "?r = (x, db1)" by fastforce
  show thesis
  proof (cases x)
    case (Inl e)
    then show thesis using False r tables by (intro fails [of e db1]) (auto simp: with_conn_def)
  next
    case (Inr u)
    then show thesis using False r tables by (intro runs [of db1]) (auto simp: with_conn_def)
  qed
qed

lemma get_sync_version_result:
  "get_sync_version db = (r, db') \<Longrightarrow> same_tables db db' \<and> (\<forall>v. r = Inr v \<longrightarrow> v = db_version db)"
  using statement_tables [of db]
  by (cases "statement db" rule: prod.exhaust, cases "fst (statement db)")
     (auto simp: get_sync_version_def db_version_def same_tables_def)

lemma set_sync_version_result:
  assumes "set_sync_version v db = (r, db')"
  shows "db_content db' = db_content db"
    and "r = Inr () \<Longrightarrow> in_i64 v \<Longrightarrow> db_version db' = v"
    and "r = Inl e \<Longrightarrow> same_tables db db'"
proof -
  obtain x db1 where st: "statement db = (x, db1)" by fastforce
  have tables: "same_tables db db1" using statement_tables [of db] st by simp
  show "db_content db' = db_content db"
    using assms st tables
    by (cases x) (auto simp: set_sync_version_def same_tables_def db_content_def)
  show "r = Inr () \<Longrightarrow> in_i64 v \<Longrightarrow> db_version db' = v"
    using assms st
    by (cases x) (auto simp: set_sync_version_def db_version_def stored_version_def parse_show_i64)
  show "r = Inl e \<Longrightarrow> same_tables db db'"
    using assms st tables by (cases x) (auto simp: set_sync_version_def)
qed

lemma rolled_back_tables: "db_content db2 = db_content db1 \<Longrightarrow> same_tables db1 (rolled_back db1 db2)"
  by (auto simp: same_tables_def rolled_back_def db_content_def)

text \<open>A transaction either fails and leaves the tables alone, or leaves what its body leaves.\<close>

lemma transaction_cases:
  assumes "\<And>db1 r db2. f db1 = (r, db2) \<Longrightarrow> sync_db.more db2 = sync_db.more db1"
  obtains (fails) e db1 where "transaction wrap f db = (Inl e, db1)" "same_tables db db1"
    | (commits) db1 r db2 db3 where "same_tables db db1" "f db1 = (Inr r, db2)"
      "same_tables db2 db3" "transaction wrap f db = (Inr r, db3)"
proof -
  obtain x db1 where st: "statement db = (x, db1)" by fastforce
  have t1: "same_tables db db1" using statement_tables [of db] st by simp
  obtain y db2 where body: "f db1 = (y, db2)" by fastforce
  have more: "sync_db.more db2 = sync_db.more db1" using assms [OF body] .
  obtain z db3 where st3: "statement db2 = (z, db3)" by fastforce
  have t3: "same_tables db2 db3" using statement_tables [of db2] st3 by simp
  have undone: "same_tables db (rolled_back db1 db2)" "same_tables db (rolled_back db1 db3)"
    using t1 t3 more by (auto simp: same_tables_def rolled_back_def db_content_def)
  show thesis
  proof (cases x)
    case (Inl e)
    then show thesis using st t1 by (intro fails [of "wrap e" db1]) (auto simp: transaction_def)
  next
    case Inr1: (Inr u)
    show thesis
    proof (cases y)
      case (Inl e)
      then show thesis using Inr1 st body undone
        by (intro fails [of e "rolled_back db1 db2"]) (auto simp: transaction_def)
    next
      case Inr2: (Inr r)
      show thesis
      proof (cases z)
        case (Inl e)
        then show thesis using Inr1 Inr2 st st3 body undone
          by (intro fails [of "wrap e" "rolled_back db1 db3"]) (auto simp: transaction_def)
      next
        case (Inr v)
        then show thesis using Inr1 Inr2 st st3 body t1 t3
          by (intro commits [of db1 r db2 db3]) (auto simp: transaction_def)
      qed
    qed
  qed
qed

lemma commit_body_content: "commit_body e s db = (r, db') \<Longrightarrow> db_content db' = db_content db"
proof -
  assume run: "commit_body e s db = (r, db')"
  obtain x db1 where g: "get_sync_version db = (x, db1)" by fastforce
  have c1: "db_content db1 = db_content db"
    using get_sync_version_result [OF g] by (simp add: same_tables_def)
  have step: "db_content (snd (set_sync_version v d)) = db_content d" for v and d :: "'a sync_db_scheme"
    using set_sync_version_result(1) [of v d] by (metis prod.collapse)
  show ?thesis
  proof (cases x)
    case (Inl e)
    then show ?thesis using run g c1 by (simp add: commit_body_def)
  next
    case (Inr v)
    then show ?thesis using run g c1
      by (auto simp: commit_body_def attempt_def split: sum.splits prod.splits if_splits option.splits)
        (metis snd_conv step)+
  qed
qed

lemma commit_body_result:
  assumes "commit_body expected synced db = (Inr c, db')"
  shows "c = (if db_version db = expected then synced else max (db_version db) synced + 1)"
    and "in_i64 synced \<Longrightarrow> db_version db' = c"
proof -
  obtain v db1 where g: "get_sync_version db = (Inr v, db1)"
    using assms by (auto simp: commit_body_def attempt_eq_Inr)
  have v: "v = db_version db" using get_sync_version_result [OF g] by simp
  let ?next = "if v = expected then (Inr synced, db1)
    else case checked_add_i64 (max v synced) 1 of
        None \<Rightarrow> (Inl (SyncVersionOverflow (max v synced)), db1)
      | Some v \<Rightarrow> (Inr v, db1)"
  obtain k where k: "?next = (Inr k, db1)"
    and set: "attempt (set_sync_version k db1) (\<lambda>_ db3. (Inr k, db3)) = (Inr c, db')"
    using assms g by (auto simp: commit_body_def attempt_eq_Inr split: if_splits option.splits)
  have ck: "c = k" and stored: "set_sync_version k db1 = (Inr (), db')"
    using set by (auto simp: attempt_eq_Inr)
  show c: "c = (if db_version db = expected then synced else max (db_version db) synced + 1)"
    using k v ck by (auto simp: checked_add_i64_def split: if_splits)
  have "in_i64 synced \<Longrightarrow> in_i64 k"
    using k by (auto simp: checked_add_i64_def split: if_splits)
  then show "in_i64 synced \<Longrightarrow> db_version db' = c"
    using set_sync_version_result(2) [OF stored] ck by simp
qed

lemma commit_sync_version_cases:
  obtains (fails) e db1 where "commit_sync_version expected synced db = (Inl e, db1)"
      "same_tables db db1"
    | (stored) c db1 where "commit_sync_version expected synced db = (Inr c, db1)"
      "db_content db1 = db_content db"
      "c = (if db_version db = expected then synced else max (db_version db) synced + 1)"
      "in_i64 synced \<Longrightarrow> db_version db1 = c"
proof -
  have more: "sync_db.more db2 = sync_db.more db1"
    if "commit_body expected synced db1 = (r, db2)" for db1 db2 :: "'a sync_db_scheme" and r
    using commit_body_content [OF that] by (simp add: db_content_def)
  show thesis
  proof (rule transaction_cases [of "commit_body expected synced" Db db])
    show "sync_db.more db2 = sync_db.more db1"
      if "commit_body expected synced db1 = (r, db2)" for db1 r and db2 :: "'a sync_db_scheme"
      using more [OF that] .
  next
    fix e db1
    assume fails: "transaction Db (commit_body expected synced) db = (Inl e, db1)"
      "same_tables db db1"
    then show thesis using that(1) by (simp add: commit_sync_version_def)
  next
    fix db1 c db2 db3
    assume commits: "same_tables db db1" "commit_body expected synced db1 = (Inr c, db2)"
      "same_tables db2 db3" "transaction Db (commit_body expected synced) db = (Inr c, db3)"
    have "db_version db1 = db_version db" "db_version db3 = db_version db2"
      using commits by (simp_all add: same_tables_version)
    then show thesis
      using commit_body_result [OF commits(2)] commit_body_content [OF commits(2)] commits
      by (intro that(2) [of c db3]) (auto simp: commit_sync_version_def same_tables_def)
  qed
qed

lemma with_conn_result:
  assumes "with_conn f db = (r, db')"
  shows "(\<exists>e. r = Inl e) \<and> same_tables db db' \<or> (\<exists>db1. f db1 = (r, db') \<and> same_tables db db1)"
  using assms by (cases rule: with_conn_cases [of f db]) auto

lemma db_get_result:
  assumes "db_get_sync_version db = (r, db')"
  shows "same_tables db db'" and "r = Inr v \<Longrightarrow> v = db_version db"
proof -
  obtain x where run: "with_conn (\<lambda>c. map_err repository_error_text (get_sync_version c)) db = (x, db')"
    and x: "\<And>v. r = Inr v \<Longrightarrow> x = Inr v"
    using assms by (cases r) (auto simp: db_get_sync_version_def map_err_eq_Inl)
  show "same_tables db db'"
    using with_conn_result [OF run] get_sync_version_result same_tables_trans
    by (metis map_err_eq_Inl map_err_eq_Inr sumE)
  show "r = Inr v \<Longrightarrow> v = db_version db"
    using with_conn_result [OF run] x get_sync_version_result same_tables_version by fastforce
qed

lemma db_set_result:
  assumes "db_set_sync_version v db = (r, db')"
  shows "r = Inr () \<Longrightarrow> in_i64 v \<Longrightarrow> db_version db' = v" and "r = Inl e \<Longrightarrow> same_tables db db'"
proof -
  obtain x where run: "with_conn (\<lambda>c. map_err repository_error_text (set_sync_version v c)) db = (x, db')"
    and x: "r = Inr () \<Longrightarrow> x = Inr ()" "\<And>e. r = Inl e \<Longrightarrow> \<exists>e'. x = Inl e'"
    using assms by (cases r) (auto simp: db_set_sync_version_def map_err_eq_Inl)
  show "r = Inr () \<Longrightarrow> in_i64 v \<Longrightarrow> db_version db' = v"
    using with_conn_result [OF run] x(1) set_sync_version_result(2) [of v] by auto
  show "r = Inl e \<Longrightarrow> same_tables db db'"
    using with_conn_result [OF run] x(2) set_sync_version_result(3) [of v] same_tables_trans
    by (auto simp: map_err_eq_Inl) blast
qed

lemma db_commit_result:
  assumes "db_commit_sync_version expected synced db = (r, db')"
  shows "db_content db' = db_content db"
    and "r = Inl e \<Longrightarrow> same_tables db db'"
    and "r = Inr c \<Longrightarrow>
      c = (if db_version db = expected then synced else max (db_version db) synced + 1)"
    and "r = Inr c \<Longrightarrow> in_i64 synced \<Longrightarrow> db_version db' = c"
proof -
  obtain x where run: "with_conn (\<lambda>c. map_err repository_error_text
      (commit_sync_version expected synced c)) db = (x, db')"
    and x: "\<And>v. r = Inr v \<Longrightarrow> x = Inr v" "\<And>e. r = Inl e \<Longrightarrow> \<exists>e'. x = Inl e'"
    using assms by (cases r) (auto simp: db_commit_sync_version_def map_err_eq_Inl)
  consider (closed) e where "x = Inl e" "same_tables db db'"
    | (ran) db1 where "map_err repository_error_text (commit_sync_version expected synced db1) = (x, db')"
        "same_tables db db1"
    using with_conn_result [OF run] by blast
  then have "db_content db' = db_content db \<and>
      (\<forall>e. x = Inl e \<longrightarrow> same_tables db db') \<and>
      (\<forall>c. x = Inr c \<longrightarrow>
        c = (if db_version db = expected then synced else max (db_version db) synced + 1) \<and>
        (in_i64 synced \<longrightarrow> db_version db' = c))"
  proof cases
    case closed
    then show ?thesis by (simp add: same_tables_def)
  next
    case ran
    show ?thesis
      using ran same_tables_version [OF ran(2)]
      by (cases rule: commit_sync_version_cases [of expected synced db1])
        (auto simp: same_tables_def split: if_splits)
  qed
  then show "db_content db' = db_content db" "r = Inl e \<Longrightarrow> same_tables db db'"
    "r = Inr c \<Longrightarrow> c = (if db_version db = expected then synced else max (db_version db) synced + 1)"
    "r = Inr c \<Longrightarrow> in_i64 synced \<Longrightarrow> db_version db' = c"
    using x by auto
qed

lemma update_sync_meta_result:
  assumes "update_sync_meta t p db = (r, db')"
  shows "db_version db' = db_version db \<and> db_content db' = db_content db"
proof -
  obtain x db1 where st: "statement db = (x, db1)" by fastforce
  then have "same_tables db db1" using statement_tables [of db] by simp
  then show ?thesis using assms st
    by (cases x) (auto simp: update_sync_meta_def same_tables_def db_content_def db_version_def
        stored_version_def)
qed

lemma db_meta_result:
  assumes "db_update_sync_meta t p db = (r, db')"
  shows "db_version db' = db_version db \<and> db_content db' = db_content db"
proof -
  obtain x where run: "with_conn (\<lambda>c. map_err repository_error_text (update_sync_meta t p c)) db = (x, db')"
    using assms by (cases r) (auto simp: db_update_sync_meta_def map_err_eq_Inl)
  show ?thesis using with_conn_result [OF run]
  proof
    assume "(\<exists>e. x = Inl e) \<and> same_tables db db'"
    then show ?thesis by (simp add: same_tables_version) (simp add: same_tables_def)
  next
    assume "\<exists>db1. map_err repository_error_text (update_sync_meta t p db1) = (x, db') \<and> same_tables db db1"
    then obtain db1 y where "update_sync_meta t p db1 = (y, db')" and same: "same_tables db db1"
      by (metis map_err_eq_Inl map_err_eq_Inr sumE)
    then show ?thesis using update_sync_meta_result [of t p db1 y db'] same_tables_version [OF same] same
      by (simp add: same_tables_def)
  qed
qed

lemma db_version_range: "in_i64 (db_version db)"
  by (auto simp: db_version_def stored_version_def parse_i64_in_range split: option.splits)

interpretation db_store: sync_version_store db_version_store db_version db_content
proof unfold_locales
  fix w w' :: "'a sync_db_scheme" and v expected synced c :: int and e :: sync_engine_error
    and time platform :: string
  show "in_i64 (db_version w)" by (rule db_version_range)
  show "vs_get db_version_store w = (Inr v, w') \<Longrightarrow> v = db_version w"
    by (simp add: db_version_store_def db_get_result(2))
  show "db_version (snd (vs_get db_version_store w)) = db_version w"
    "db_content (snd (vs_get db_version_store w)) = db_content w"
    using db_get_result(1) [of w, OF prod.collapse [symmetric]]
    by (simp_all add: db_version_store_def same_tables_version, simp add: same_tables_def)
  show "vs_set db_version_store v w = (Inr (), w') \<Longrightarrow> in_i64 v \<Longrightarrow> db_version w' = v"
    by (simp add: db_version_store_def db_set_result(1))
  show "vs_set db_version_store v w = (Inl e, w') \<Longrightarrow> db_version w' = db_version w"
    by (simp add: db_version_store_def db_set_result(2) same_tables_version)
  show "vs_commit db_version_store expected synced w = (Inr c, w') \<Longrightarrow>
      c = (if db_version w = expected then synced else max (db_version w) synced + 1)"
    unfolding db_version_store_def version_store.simps by (rule db_commit_result(3)) simp_all
  show "vs_commit db_version_store expected synced w = (Inr c, w') \<Longrightarrow> in_i64 synced \<Longrightarrow>
      db_version w' = c"
    unfolding db_version_store_def version_store.simps by (rule db_commit_result(4)) simp_all
  show "vs_commit db_version_store expected synced w = (Inl e, w') \<Longrightarrow> db_version w' = db_version w"
    by (simp add: db_version_store_def db_commit_result(2) same_tables_version)
  show "db_content (snd (vs_commit db_version_store expected synced w)) = db_content w"
    using db_commit_result(1) [of expected synced w, OF prod.collapse [symmetric]]
    by (simp add: db_version_store_def)
  show "db_version (snd (vs_update_meta db_version_store time platform w)) = db_version w"
    "db_content (snd (vs_update_meta db_version_store time platform w)) = db_content w"
    using db_meta_result [of time platform w, OF prod.collapse [symmetric]]
    by (simp_all add: db_version_store_def)
qed

text \<open>A local write raises the version by one, or fails and leaves it.\<close>

lemma increment_result:
  assumes "increment_sync_version db = (r, db')"
  shows "db_content db' = db_content db"
    and "r = Inr v \<Longrightarrow> v = db_version db + 1 \<and> db_version db' = v"
    and "r = Inl e \<Longrightarrow> same_tables db db'"
proof -
  obtain x db1 where g: "get_sync_version db = (x, db1)" by fastforce
  obtain y db2 where st: "statement db1 = (y, db2)" by fastforce
  have tables: "same_tables db db1" "same_tables db1 db2"
    and read: "\<And>v. x = Inr v \<Longrightarrow> v = db_version db"
    using get_sync_version_result [OF g] statement_tables [of db1] st by auto
  show "db_content db' = db_content db"
    using assms g st tables
    by (cases x; cases y)
       (auto simp: increment_sync_version_def same_tables_def db_content_def split: option.splits)
  show "r = Inr v \<Longrightarrow> v = db_version db + 1 \<and> db_version db' = v"
    using assms g st read
    by (cases x; cases y) (auto simp: increment_sync_version_def checked_add_i64_def db_version_def
        stored_version_def parse_show_i64 split: if_splits)
  show "r = Inl e \<Longrightarrow> same_tables db db'"
    using assms g st tables same_tables_trans [OF tables]
    by (cases x; cases y) (auto simp: increment_sync_version_def split: option.splits)
qed

end
