(* ===== verification/Gist_Client.thy ===== *)
theory Gist_Client imports Sync_Types begin

text \<open>
  The client of the Gist services (\<open>infinishell_sync/src/gist_client.rs\<close>): the trait
  \<open>GistOps\<close> as a record of operations and \<open>GistClient\<close> as its implementation.

  HTTP and JSON are third-party code.  A request is data, and \<open>http\<close> sends it: it is a
  parameter, a function of the request and the state of the world that answers with an
  error or with a response.  A response has its status, its text, and what \<open>serde_json\<close>
  makes of its body at each of the types the client asks for (an error when the body is
  not of that shape); a field that is missing or of another type is \<open>None\<close>.
\<close>

section \<open>The trait\<close>

record 'w gist_ops =
  op_validate_token :: "sync_platform \<Rightarrow> string \<Rightarrow> 'w \<Rightarrow> (gist_client_error + string) \<times> 'w"
  op_find_gist :: "sync_platform \<Rightarrow> string \<Rightarrow> 'w \<Rightarrow> (gist_client_error + string option) \<times> 'w"
  op_create_gist :: "sync_platform \<Rightarrow> string \<Rightarrow> string \<Rightarrow> 'w \<Rightarrow> (gist_client_error + string) \<times> 'w"
  op_update_gist :: "sync_platform \<Rightarrow> string \<Rightarrow> string \<Rightarrow> string \<Rightarrow> 'w \<Rightarrow> (gist_client_error + unit) \<times> 'w"
  op_get_gist_content :: "sync_platform \<Rightarrow> string \<Rightarrow> string \<Rightarrow> 'w \<Rightarrow> (gist_client_error + string) \<times> 'w"

section \<open>Requests and responses\<close>

definition GIST_DESCRIPTION :: string where "GIST_DESCRIPTION = ''INFINISHELL_CONFIG''"
definition GIST_FILENAME :: string where "GIST_FILENAME = ''infinishell_config.json''"
definition LEGACY_GIST_DESCRIPTION :: string where "LEGACY_GIST_DESCRIPTION = ''ZAP_CONFIG''"
definition LEGACY_GIST_FILENAME :: string where "LEGACY_GIST_FILENAME = ''zap_config.json''"
definition FIND_GIST_MAX_PAGES :: nat where "FIND_GIST_MAX_PAGES = 20"

record gist_entry =
  gist_id :: string
  gist_description :: "string option"

record gist_file =
  file_truncated :: "bool option"
  file_raw_url :: "string option"
  file_content :: "string option"

datatype gist_url =
    UserUrl string
  | GistPage string nat
  | GistsUrl string
  | GistUrl string string
  | RawUrl string

record gist_body =
  body_description :: string
  body_public :: "bool option"
  body_files :: "(string \<times> string) list"

datatype http_method = GET | POST | PATCH

record http_request =
  req_method :: http_method
  req_url :: gist_url
  req_authorization :: string
  req_body :: "gist_body option"

record http_response =
  resp_status :: nat
  resp_text :: "string + string"
  resp_gists :: "string + gist_entry list"
  resp_login :: "string + string option"
  resp_id :: "string + string"
  resp_files :: "string + (string \<rightharpoonup> gist_file)"

type_synonym 'w http = "http_request \<Rightarrow> 'w \<Rightarrow> (string + http_response) \<times> 'w"

definition is_success :: "http_response \<Rightarrow> bool" where
  "is_success r \<longleftrightarrow> 200 \<le> resp_status r \<and> resp_status r < 300"

definition api_error :: "http_response \<Rightarrow> gist_client_error" where
  "api_error r = Api (resp_status r) (case resp_text r of Inl _ \<Rightarrow> [] | Inr t \<Rightarrow> t)"

fun auth_header :: "sync_platform \<Rightarrow> string \<Rightarrow> string" where
  "auth_header GitHub token = ''Bearer '' @ token"
| "auth_header Gitee token = ''token '' @ token"

definition get_request :: "sync_platform \<Rightarrow> string \<Rightarrow> gist_url \<Rightarrow> http_request" where
  "get_request platform token url =
    \<lparr>req_method = GET, req_url = url, req_authorization = auth_header platform token, req_body = None\<rparr>"

text \<open>\<open>sync_file\<close>: the current file name first, then the one of the earlier product.\<close>

definition sync_file :: "(string \<rightharpoonup> gist_file) \<Rightarrow> gist_file option" where
  "sync_file files =
    (case files GIST_FILENAME of Some f \<Rightarrow> Some f | None \<Rightarrow> files LEGACY_GIST_FILENAME)"

section \<open>GistClient\<close>

definition validate_token ::
  "'w http \<Rightarrow> sync_platform \<Rightarrow> string \<Rightarrow> 'w \<Rightarrow> (gist_client_error + string) \<times> 'w" where
  "validate_token send platform token w =
    (if token = [] then (Inl NoToken, w)
     else
       attempt (map_err Request (send (get_request platform token (UserUrl (base_url platform))) w))
         (\<lambda>resp w1.
           if \<not> is_success resp then (Inl (api_error resp), w1)
           else
             (case resp_login resp of
               Inl e \<Rightarrow> (Inl (Request e), w1)
             | Inr None \<Rightarrow> (Inl MissingLogin, w1)
             | Inr (Some login) \<Rightarrow> (Inr login, w1))))"

fun find_pages ::
  "'w http \<Rightarrow> sync_platform \<Rightarrow> string \<Rightarrow> nat list \<Rightarrow> string option \<Rightarrow> 'w \<Rightarrow>
   (gist_client_error + string option) \<times> 'w" where
  "find_pages send platform token [] legacy_gist_id w = (Inr legacy_gist_id, w)"
| "find_pages send platform token (page # pages) legacy_gist_id w =
    attempt
      (map_err Request (send (get_request platform token (GistPage (base_url platform) page)) w))
      (\<lambda>resp w1.
        if \<not> is_success resp then (Inl (api_error resp), w1)
        else
          (case resp_gists resp of
            Inl e \<Rightarrow> (Inl (Request e), w1)
          | Inr gists \<Rightarrow>
              if gists = [] then (Inr legacy_gist_id, w1)
              else
                (case find (\<lambda>g. gist_description g = Some GIST_DESCRIPTION) gists of
                  Some found \<Rightarrow> (Inr (Some (gist_id found)), w1)
                | None \<Rightarrow>
                    find_pages send platform token pages
                      (if legacy_gist_id = None
                       then map_option gist_id
                         (find (\<lambda>g. gist_description g = Some LEGACY_GIST_DESCRIPTION) gists)
                       else legacy_gist_id) w1)))"

definition find_gist ::
  "'w http \<Rightarrow> sync_platform \<Rightarrow> string \<Rightarrow> 'w \<Rightarrow> (gist_client_error + string option) \<times> 'w" where
  "find_gist send platform token w =
    (if token = [] then (Inl NoToken, w)
     else find_pages send platform token [1..<Suc FIND_GIST_MAX_PAGES] None w)"

definition create_gist ::
  "'w http \<Rightarrow> sync_platform \<Rightarrow> string \<Rightarrow> string \<Rightarrow> 'w \<Rightarrow> (gist_client_error + string) \<times> 'w" where
  "create_gist send platform token content w =
    (if token = [] then (Inl NoToken, w)
     else
       attempt (map_err Request (send
           \<lparr>req_method = POST, req_url = GistsUrl (base_url platform),
            req_authorization = auth_header platform token,
            req_body = Some \<lparr>body_description = GIST_DESCRIPTION, body_public = Some False,
              body_files = [(GIST_FILENAME, content)]\<rparr>\<rparr> w))
         (\<lambda>resp w1.
           if \<not> is_success resp then (Inl (api_error resp), w1)
           else
             (case resp_id resp of
               Inl e \<Rightarrow> (Inl (Request e), w1)
             | Inr i \<Rightarrow> (Inr i, w1))))"

definition update_gist ::
  "'w http \<Rightarrow> sync_platform \<Rightarrow> string \<Rightarrow> string \<Rightarrow> string \<Rightarrow> 'w \<Rightarrow>
   (gist_client_error + unit) \<times> 'w" where
  "update_gist send platform token gid content w =
    (if token = [] then (Inl NoToken, w)
     else
       attempt (map_err Request (send
           \<lparr>req_method = PATCH, req_url = GistUrl (base_url platform) gid,
            req_authorization = auth_header platform token,
            req_body = Some \<lparr>body_description = GIST_DESCRIPTION, body_public = None,
              body_files = [(GIST_FILENAME, content)]\<rparr>\<rparr> w))
         (\<lambda>resp w1.
           if \<not> is_success resp then (Inl (api_error resp), w1) else (Inr (), w1)))"

definition get_gist_content ::
  "'w http \<Rightarrow> sync_platform \<Rightarrow> string \<Rightarrow> string \<Rightarrow> 'w \<Rightarrow> (gist_client_error + string) \<times> 'w" where
  "get_gist_content send platform token gid w =
    (if token = [] then (Inl NoToken, w)
     else
       attempt
         (map_err Request (send (get_request platform token (GistUrl (base_url platform) gid)) w))
         (\<lambda>resp w1.
           if resp_status resp = 404 then (Inl GistNotFound, w1)
           else if \<not> is_success resp then (Inl (api_error resp), w1)
           else
             (case resp_files resp of
               Inl e \<Rightarrow> (Inl (Request e), w1)
             | Inr files \<Rightarrow>
                 (case sync_file files of
                   None \<Rightarrow> (Inl GistNotFound, w1)
                 | Some f \<Rightarrow>
                     if file_truncated f = Some True then
                       (case file_raw_url f of
                         None \<Rightarrow> (Inl GistNotFound, w1)
                       | Some raw \<Rightarrow>
                           attempt
                             (map_err Request (send (get_request platform token (RawUrl raw)) w1))
                             (\<lambda>raw_resp w2.
                               if \<not> is_success raw_resp then (Inl (api_error raw_resp), w2)
                               else
                                 (case resp_text raw_resp of
                                   Inl e \<Rightarrow> (Inl (Request e), w2)
                                 | Inr t \<Rightarrow> (Inr t, w2))))
                     else
                       (case file_content f of
                         None \<Rightarrow> (Inl GistNotFound, w1)
                       | Some c \<Rightarrow> (Inr c, w1))))))"

definition gist_client :: "'w http \<Rightarrow> 'w gist_ops" where
  "gist_client send =
    \<lparr>op_validate_token = validate_token send, op_find_gist = find_gist send,
     op_create_gist = create_gist send, op_update_gist = update_gist send,
     op_get_gist_content = get_gist_content send\<rparr>"

section \<open>Which gist is found\<close>

text \<open>
  The specification of the search over a service that lists the pages \<open>pg 1\<close>, \<open>pg 2\<close>, \<dots>:
  of the gists on the first twenty pages up to the first empty one, the first with the
  current description, and failing that the first with the earlier one.
\<close>

definition listed_gists :: "(nat \<Rightarrow> gist_entry list) \<Rightarrow> nat list \<Rightarrow> gist_entry list" where
  "listed_gists pg ps = concat (takeWhile (\<lambda>gs. gs \<noteq> []) (map pg ps))"

definition chosen_gist :: "gist_entry list \<Rightarrow> string option" where
  "chosen_gist gs =
    (case find (\<lambda>g. gist_description g = Some GIST_DESCRIPTION) gs of
      Some g \<Rightarrow> Some (gist_id g)
    | None \<Rightarrow> map_option gist_id (find (\<lambda>g. gist_description g = Some LEGACY_GIST_DESCRIPTION) gs))"

definition lists_pages ::
  "'w http \<Rightarrow> sync_platform \<Rightarrow> string \<Rightarrow> (nat \<Rightarrow> gist_entry list) \<Rightarrow> bool" where
  "lists_pages send platform token pg \<longleftrightarrow>
    (\<forall>page w. \<exists>resp.
      send (get_request platform token (GistPage (base_url platform) page)) w = (Inr resp, w) \<and>
      is_success resp \<and> resp_gists resp = Inr (pg page))"

lemma find_append: "find P (xs @ ys) = (case find P xs of Some x \<Rightarrow> Some x | None \<Rightarrow> find P ys)"
  by (induction xs) auto

lemma find_pages_chosen:
  assumes "lists_pages send platform token pg"
  shows "find_pages send platform token ps legacy w =
    (Inr (case find (\<lambda>g. gist_description g = Some GIST_DESCRIPTION) (listed_gists pg ps) of
        Some g \<Rightarrow> Some (gist_id g)
      | None \<Rightarrow>
          (case legacy of
            Some l \<Rightarrow> Some l
          | None \<Rightarrow> map_option gist_id
              (find (\<lambda>g. gist_description g = Some LEGACY_GIST_DESCRIPTION) (listed_gists pg ps)))), w)"
proof (induction ps arbitrary: legacy)
  case Nil
  then show ?case by (simp add: listed_gists_def split: option.split)
next
  case (Cons p ps)
  obtain resp where
    "send (get_request platform token (GistPage (base_url platform) p)) w = (Inr resp, w)"
    "is_success resp" "resp_gists resp = Inr (pg p)"
    using assms by (auto simp: lists_pages_def)
  then show ?case using Cons
    by (auto simp: listed_gists_def find_append split: option.splits)
qed

end
