(* ===== verification/Sync_Engine.thy ===== *)
theory Sync_Engine imports Sync_Store Gist_Client begin

text \<open>
  The sync engine (\<open>infinishell_sync/src/sync_engine.rs\<close>): upload, download and forced
  upload of the providers' sections to a gist.

  The world \<open>'w\<close> is whatever the operations of the client, the providers and the version
  store act on.  A network request of the engine is an \<open>await\<close>: other tasks run meanwhile,
  so an operation of the client may also change the local data and raise the local version;
  the theorems say what they assume of it.  \<open>serde_json\<close> and the clock are parameters.
\<close>

section \<open>Providers\<close>

record ('w, 'j) data_provider =
  section_key :: string
  collect_data :: "string \<Rightarrow> 'w \<Rightarrow> (sync_engine_error + 'j) \<times> 'w"
  apply_data :: "string \<Rightarrow> 'j \<Rightarrow> 'w \<Rightarrow> (sync_engine_error + apply_outcome) \<times> 'w"
  reconcile_data :: "string \<Rightarrow> 'j \<Rightarrow> 'w \<Rightarrow> (sync_engine_error + apply_outcome) \<times> 'w"

text \<open>The default method of the trait.\<close>

definition default_reconcile_data ::
  "string \<Rightarrow> 'j \<Rightarrow> 'w \<Rightarrow> (sync_engine_error + apply_outcome) \<times> 'w" where
  "default_reconcile_data token data w = (Inr default_outcome, w)"

record ('w, 'j) runtime =
  utc_now :: "'w \<Rightarrow> string"
  to_string_pretty :: "'j sync_data \<Rightarrow> string + string"
  from_str :: "string \<Rightarrow> string + 'j sync_data"

definition next_sync_version :: "int \<Rightarrow> sync_engine_error + int" where
  "next_sync_version v =
    (case checked_add_i64 v 1 of
      None \<Rightarrow> Inl (VersionStore (''sync version overflow at '' @ show_i64 v))
    | Some n \<Rightarrow> Inr n)"

fun collect_sections ::
  "string \<Rightarrow> ('w, 'j) data_provider list \<Rightarrow> (string \<rightharpoonup> 'j) \<Rightarrow> 'w \<Rightarrow>
   (sync_engine_error + (string \<rightharpoonup> 'j)) \<times> 'w" where
  "collect_sections token [] m w = (Inr m, w)"
| "collect_sections token (p # ps) m w =
    attempt (collect_data p token w) (\<lambda>data w1.
      collect_sections token ps (m(section_key p \<mapsto> data)) w1)"

definition collect_sync_content ::
  "('w, 'j) runtime \<Rightarrow> string \<Rightarrow> ('w, 'j) data_provider list \<Rightarrow> int \<Rightarrow> 'w \<Rightarrow>
   (sync_engine_error + string) \<times> 'w" where
  "collect_sync_content rt token providers v w =
    attempt (collect_sections token providers Map.empty w) (\<lambda>m w1.
      (case to_string_pretty rt \<lparr>data_version = v, synced_at = utc_now rt w1, sections = m\<rparr> of
        Inl e \<Rightarrow> (Inl (Serialization e), w1)
      | Inr s \<Rightarrow> (Inr s, w1)))"

fun reconcile_sections ::
  "string \<Rightarrow> ('w, 'j) data_provider list \<Rightarrow> (string \<rightharpoonup> 'j) \<Rightarrow> apply_outcome \<Rightarrow> 'w \<Rightarrow>
   (sync_engine_error + apply_outcome) \<times> 'w" where
  "reconcile_sections token [] m outcome w = (Inr outcome, w)"
| "reconcile_sections token (p # ps) m outcome w =
    (case m (section_key p) of
      Some data \<Rightarrow>
        attempt (reconcile_data p token data w) (\<lambda>o1 w1.
          reconcile_sections token ps m (merge_outcome outcome o1) w1)
    | None \<Rightarrow> reconcile_sections token ps m (outcome\<lparr>needs_upload := True\<rparr>) w)"

definition reconcile_provider_sections ::
  "string \<Rightarrow> ('w, 'j) data_provider list \<Rightarrow> 'j sync_data \<Rightarrow> 'w \<Rightarrow>
   (sync_engine_error + apply_outcome) \<times> 'w" where
  "reconcile_provider_sections token providers remote w =
    reconcile_sections token providers (sections remote) default_outcome w"

fun apply_sections ::
  "string \<Rightarrow> ('w, 'j) data_provider list \<Rightarrow> (string \<rightharpoonup> 'j) \<Rightarrow> apply_outcome \<Rightarrow> 'w \<Rightarrow>
   (sync_engine_error + apply_outcome) \<times> 'w" where
  "apply_sections token [] m outcome w = (Inr outcome, w)"
| "apply_sections token (p # ps) m outcome w =
    (case m (section_key p) of
      Some data \<Rightarrow>
        attempt (apply_data p token data w) (\<lambda>o1 w1.
          apply_sections token ps m (merge_outcome outcome o1) w1)
    | None \<Rightarrow> apply_sections token ps m (outcome\<lparr>needs_upload := True\<rparr>) w)"

definition apply_provider_sections ::
  "string \<Rightarrow> ('w, 'j) data_provider list \<Rightarrow> 'j sync_data \<Rightarrow> 'w \<Rightarrow>
   (sync_engine_error + apply_outcome) \<times> 'w" where
  "apply_provider_sections token providers remote w =
    apply_sections token providers (sections remote) default_outcome w"

section \<open>The engine\<close>

text \<open>\<open>serde_json::from_str\<close> with its error converted.\<close>

definition parse_remote :: "('w, 'j) runtime \<Rightarrow> string \<Rightarrow> sync_engine_error + 'j sync_data" where
  "parse_remote rt s = (case from_str rt s of Inl e \<Rightarrow> Inl (Serialization e) | Inr d \<Rightarrow> Inr d)"

definition fetch_remote ::
  "('w, 'j) runtime \<Rightarrow> 'w gist_ops \<Rightarrow> sync_platform \<Rightarrow> string \<Rightarrow> string \<Rightarrow> 'w \<Rightarrow>
   (sync_engine_error + 'j sync_data) \<times> 'w" where
  "fetch_remote rt client platform token gid w =
    attempt (map_err Gist (op_get_gist_content client platform token gid w)) (\<lambda>content w1.
      (parse_remote rt content, w1))"

text \<open>The end of every successful sync: the version, then the time and the platform.\<close>

definition commit_and_record ::
  "('w, 'j) runtime \<Rightarrow> 'w version_store \<Rightarrow> sync_platform \<Rightarrow> int \<Rightarrow> int \<Rightarrow> 'w \<Rightarrow>
   (sync_engine_error + sync_result) \<times> 'w" where
  "commit_and_record rt vs platform expected synced w =
    attempt (vs_commit vs expected synced w) (\<lambda>_ w1.
      attempt (vs_update_meta vs (utc_now rt w1) (to_db_str platform) w1) (\<lambda>_ w2.
        (Inr (Success synced platform), w2)))"

text \<open>Collecting the local sections and writing them to an existing gist.\<close>

definition write_gist ::
  "('w, 'j) runtime \<Rightarrow> 'w gist_ops \<Rightarrow> sync_platform \<Rightarrow> string \<Rightarrow> ('w, 'j) data_provider list \<Rightarrow>
   string \<Rightarrow> int \<Rightarrow> 'w \<Rightarrow> (sync_engine_error + unit) \<times> 'w" where
  "write_gist rt client platform token providers gid v w =
    attempt (collect_sync_content rt token providers v w) (\<lambda>content w1.
      map_err Gist (op_update_gist client platform token gid content w1))"

text \<open>\<open>upload\<close>, when the gist exists and when it does not.\<close>

definition upload_existing ::
  "('w, 'j) runtime \<Rightarrow> 'w gist_ops \<Rightarrow> sync_platform \<Rightarrow> string \<Rightarrow> ('w, 'j) data_provider list \<Rightarrow>
   'w version_store \<Rightarrow> int \<Rightarrow> string \<Rightarrow> 'w \<Rightarrow> (sync_engine_error + sync_result) \<times> 'w" where
  "upload_existing rt client platform token providers vs local_version gid w =
    attempt (fetch_remote rt client platform token gid w) (\<lambda>remote w1.
      if local_version < data_version remote
      then (Inr (Conflict local_version (data_version remote)), w1)
      else
        attempt (reconcile_provider_sections token providers remote w1) (\<lambda>outcome w2.
          if data_version remote = local_version \<and> \<not> needs_upload outcome then
            (if local_changed outcome then
               attempt (vs_update_meta vs (utc_now rt w2) (to_db_str platform) w2) (\<lambda>_ w3.
                 (Inr (Success local_version platform), w3))
             else (Inr (AlreadyUpToDate local_version), w2))
          else
            attempt
              (if data_version remote = local_version
               then (next_sync_version local_version, w2) else (Inr local_version, w2))
              (\<lambda>upload_version w3.
            attempt (write_gist rt client platform token providers gid upload_version w3) (\<lambda>_ w4.
              commit_and_record rt vs platform local_version upload_version w4))))"

definition upload_new ::
  "('w, 'j) runtime \<Rightarrow> 'w gist_ops \<Rightarrow> sync_platform \<Rightarrow> string \<Rightarrow> ('w, 'j) data_provider list \<Rightarrow>
   'w version_store \<Rightarrow> int \<Rightarrow> 'w \<Rightarrow> (sync_engine_error + sync_result) \<times> 'w" where
  "upload_new rt client platform token providers vs local_version w =
    attempt (collect_sync_content rt token providers local_version w) (\<lambda>content w1.
    attempt (map_err Gist (op_create_gist client platform token content w1)) (\<lambda>_ w2.
      commit_and_record rt vs platform local_version local_version w2))"

definition upload ::
  "('w, 'j) runtime \<Rightarrow> 'w gist_ops \<Rightarrow> sync_platform \<Rightarrow> string \<Rightarrow> ('w, 'j) data_provider list \<Rightarrow>
   'w version_store \<Rightarrow> 'w \<Rightarrow> (sync_engine_error + sync_result) \<times> 'w" where
  "upload rt client platform token providers vs w =
    attempt (vs_get vs w) (\<lambda>local_version w1.
    attempt (map_err Gist (op_find_gist client platform token w1)) (\<lambda>found w2.
      case found of
        Some gid \<Rightarrow> upload_existing rt client platform token providers vs local_version gid w2
      | None \<Rightarrow> upload_new rt client platform token providers vs local_version w2))"

text \<open>\<open>download\<close>, once the gist is found.\<close>

definition download_existing ::
  "('w, 'j) runtime \<Rightarrow> 'w gist_ops \<Rightarrow> sync_platform \<Rightarrow> string \<Rightarrow> ('w, 'j) data_provider list \<Rightarrow>
   'w version_store \<Rightarrow> 'j sync_data \<Rightarrow> int \<Rightarrow> string \<Rightarrow> 'w \<Rightarrow> (sync_engine_error + sync_result) \<times> 'w" where
  "download_existing rt client platform token providers vs remote local_version gid w =
    (if data_version remote < local_version
     then (Inr (AlreadyUpToDate (data_version remote)), w)
     else
       attempt
         (if data_version remote = local_version
          then reconcile_provider_sections token providers remote w
          else apply_provider_sections token providers remote w)
         (\<lambda>outcome w1.
         if data_version remote = local_version \<and> \<not> local_changed outcome \<and> \<not> needs_upload outcome
         then (Inr (AlreadyUpToDate (data_version remote)), w1)
         else
           attempt
             (if needs_upload outcome then
                attempt (next_sync_version (max local_version (data_version remote)), w1) (\<lambda>v w2.
                attempt (write_gist rt client platform token providers gid v w2) (\<lambda>_ w3.
                  (Inr v, w3)))
              else (Inr (data_version remote), w1))
             (\<lambda>final_version w4.
               commit_and_record rt vs platform local_version final_version w4)))"

definition download ::
  "('w, 'j) runtime \<Rightarrow> 'w gist_ops \<Rightarrow> sync_platform \<Rightarrow> string \<Rightarrow> ('w, 'j) data_provider list \<Rightarrow>
   'w version_store \<Rightarrow> 'w \<Rightarrow> (sync_engine_error + sync_result) \<times> 'w" where
  "download rt client platform token providers vs w =
    attempt (map_err Gist (op_find_gist client platform token w)) (\<lambda>found w1.
      case found of
        None \<Rightarrow> (Inl (Gist GistNotFound), w1)
      | Some gid \<Rightarrow>
          attempt (fetch_remote rt client platform token gid w1) (\<lambda>remote w2.
          attempt (vs_get vs w2) (\<lambda>local_version w3.
            download_existing rt client platform token providers vs remote local_version gid w3)))"

text \<open>\<open>force_upload\<close>: reading the remote version, writing, and the whole.\<close>

definition force_remote_version ::
  "('w, 'j) runtime \<Rightarrow> 'w gist_ops \<Rightarrow> sync_platform \<Rightarrow> string \<Rightarrow> ('w, 'j) data_provider list \<Rightarrow>
   string option \<Rightarrow> 'w \<Rightarrow> (sync_engine_error + int option) \<times> 'w" where
  "force_remote_version rt client platform token providers found w =
    (case found of
      Some gid \<Rightarrow>
        attempt (fetch_remote rt client platform token gid w) (\<lambda>remote w1.
        attempt (reconcile_provider_sections token providers remote w1) (\<lambda>_ w2.
          (Inr (Some (data_version remote)), w2)))
    | None \<Rightarrow> (Inr None, w))"

definition force_write ::
  "('w, 'j) runtime \<Rightarrow> 'w gist_ops \<Rightarrow> sync_platform \<Rightarrow> string \<Rightarrow> ('w, 'j) data_provider list \<Rightarrow>
   string option \<Rightarrow> int \<Rightarrow> 'w \<Rightarrow> (sync_engine_error + unit) \<times> 'w" where
  "force_write rt client platform token providers found v w =
    attempt (collect_sync_content rt token providers v w) (\<lambda>content w1.
      map_err Gist
        (case found of
          Some gid \<Rightarrow> op_update_gist client platform token gid content w1
        | None \<Rightarrow> attempt (op_create_gist client platform token content w1) (\<lambda>_ w2. (Inr (), w2))))"

definition force_upload ::
  "('w, 'j) runtime \<Rightarrow> 'w gist_ops \<Rightarrow> sync_platform \<Rightarrow> string \<Rightarrow> ('w, 'j) data_provider list \<Rightarrow>
   'w version_store \<Rightarrow> 'w \<Rightarrow> (sync_engine_error + sync_result) \<times> 'w" where
  "force_upload rt client platform token providers vs w =
    attempt (vs_get vs w) (\<lambda>local_version w1.
    attempt (map_err Gist (op_find_gist client platform token w1)) (\<lambda>found w2.
    attempt (force_remote_version rt client platform token providers found w2) (\<lambda>remote_version w3.
    attempt
      (next_sync_version
        (max local_version (case remote_version of None \<Rightarrow> 0 | Some v \<Rightarrow> v)), w3)
      (\<lambda>new_version w4.
    attempt (force_write rt client platform token providers found new_version w4) (\<lambda>_ w5.
      commit_and_record rt vs platform local_version new_version w5)))))"

definition get_local_version :: "'w version_store \<Rightarrow> 'w \<Rightarrow> (sync_engine_error + int) \<times> 'w" where
  "get_local_version vs w = vs_get vs w"

end
