(* ===== verification/Sync_Session.thy ===== *)
theory Sync_Session imports Sync_Engine begin

text \<open>
  What a sync session does to the local version and to the gist, for any version store that
  keeps the contract of \<open>Sync_Store\<close>.

  Two readings of the world make the statements: \<open>writes\<close> counts the local writes that
  raised the sync version, and \<open>remote\<close> is the text of the gist.  While the engine awaits a
  request, or inside a provider, such writes may happen: every operation either leaves the
  count and the version, or raises both (\<open>grown\<close>).  No other device writes the gist while
  the session runs.
\<close>

section \<open>What is assumed of the client, the providers and the runtime\<close>

definition grown :: "('w \<Rightarrow> int) \<Rightarrow> ('w \<Rightarrow> nat) \<Rightarrow> 'w \<Rightarrow> 'w \<Rightarrow> bool" where
  "grown version writes w w' \<longleftrightarrow>
    writes w' = writes w \<and> version w' = version w \<or> writes w < writes w' \<and> version w < version w'"

definition steady :: "('w \<Rightarrow> int) \<Rightarrow> ('w \<Rightarrow> nat) \<Rightarrow> ('w \<Rightarrow> string option) \<Rightarrow> 'w \<Rightarrow> 'w \<Rightarrow> bool" where
  "steady version writes remote w w' \<longleftrightarrow> grown version writes w w' \<and> remote w' = remote w"

definition client_contract ::
  "('w \<Rightarrow> int) \<Rightarrow> ('w \<Rightarrow> nat) \<Rightarrow> ('w \<Rightarrow> string option) \<Rightarrow> 'w gist_ops \<Rightarrow> bool" where
  "client_contract version writes remote client \<longleftrightarrow>
    (\<forall>p t w. steady version writes remote w (snd (op_find_gist client p t w))) \<and>
    (\<forall>p t w w'. op_find_gist client p t w = (Inr None, w') \<longrightarrow> remote w' = None) \<and>
    (\<forall>p t g w. steady version writes remote w (snd (op_get_gist_content client p t g w))) \<and>
    (\<forall>p t g w c w'. op_get_gist_content client p t g w = (Inr c, w') \<longrightarrow> remote w' = Some c) \<and>
    (\<forall>p t c w. grown version writes w (snd (op_create_gist client p t c w))) \<and>
    (\<forall>p t c w g w'. op_create_gist client p t c w = (Inr g, w') \<longrightarrow> remote w' = Some c) \<and>
    (\<forall>p t g c w. grown version writes w (snd (op_update_gist client p t g c w))) \<and>
    (\<forall>p t g c w u w'. op_update_gist client p t g c w = (Inr u, w') \<longrightarrow> remote w' = Some c)"

definition provider_contract ::
  "('w \<Rightarrow> int) \<Rightarrow> ('w \<Rightarrow> nat) \<Rightarrow> ('w \<Rightarrow> string option) \<Rightarrow> ('w, 'j) data_provider \<Rightarrow> bool" where
  "provider_contract version writes remote p \<longleftrightarrow>
    (\<forall>t w. steady version writes remote w (snd (collect_data p t w))) \<and>
    (\<forall>t d w. steady version writes remote w (snd (apply_data p t d w))) \<and>
    (\<forall>t d w. steady version writes remote w (snd (reconcile_data p t d w)))"

definition runtime_contract :: "('w, 'j) runtime \<Rightarrow> bool" where
  "runtime_contract rt \<longleftrightarrow>
    (\<forall>d s. to_string_pretty rt d = Inr s \<longrightarrow>
      (\<exists>d'. from_str rt s = Inr d' \<and> data_version d' = data_version d)) \<and>
    (\<forall>s d. from_str rt s = Inr d \<longrightarrow> in_i64 (data_version d))"

definition holds_version :: "('w, 'j) runtime \<Rightarrow> string option \<Rightarrow> int \<Rightarrow> bool" where
  "holds_version rt gist v \<longleftrightarrow> (\<exists>s d. gist = Some s \<and> from_str rt s = Inr d \<and> data_version d = v)"

text \<open>
  Whatever a sync returns, the local version has moved only with local writes, or after
  the gist took a version that the local one has reached.
\<close>

definition advanced_safely ::
  "('w \<Rightarrow> int) \<Rightarrow> ('w \<Rightarrow> nat) \<Rightarrow> ('w \<Rightarrow> string option) \<Rightarrow> ('w, 'j) runtime \<Rightarrow> 'w \<Rightarrow> 'w \<Rightarrow> bool" where
  "advanced_safely version writes remote rt w w' \<longleftrightarrow>
    grown version writes w w' \<or>
    (\<exists>u. holds_version rt (remote w') u \<and> version w \<le> u \<and> u \<le> version w')"

text \<open>What the result of a session says of the worlds before and after it.\<close>

definition sync_report ::
  "('w \<Rightarrow> int) \<Rightarrow> ('w \<Rightarrow> nat) \<Rightarrow> ('w \<Rightarrow> string option) \<Rightarrow> ('w, 'j) runtime \<Rightarrow> sync_platform \<Rightarrow>
   'w \<Rightarrow> sync_engine_error + sync_result \<Rightarrow> 'w \<Rightarrow> bool" where
  "sync_report version writes remote rt platform w x w' \<longleftrightarrow>
    advanced_safely version writes remote rt w w' \<and>
    (case x of
      Inl e \<Rightarrow> True
    | Inr (Success v p) \<Rightarrow>
        p = platform \<and> version w \<le> v \<and> v \<le> version w' \<and>
        (version w' = v \<longleftrightarrow> writes w' = writes w) \<and> holds_version rt (remote w') v \<and>
        (\<forall>u. holds_version rt (remote w) u \<longrightarrow> u \<le> v)
    | Inr (Conflict l r) \<Rightarrow>
        l = version w \<and> l < r \<and> holds_version rt (remote w') r \<and> steady version writes remote w w'
    | Inr (AlreadyUpToDate v) \<Rightarrow>
        v \<le> version w \<and> holds_version rt (remote w') v \<and> steady version writes remote w w')"

text \<open>The contract of the client, one operation at a time.\<close>

lemma client_steps:
  assumes "client_contract version writes remote client"
  shows "op_find_gist client p t w = (r1, w') \<Longrightarrow> steady version writes remote w w'"
    and "op_get_gist_content client p t g w = (r2, w') \<Longrightarrow> steady version writes remote w w'"
    and "op_create_gist client p t c w = (r3, w') \<Longrightarrow> grown version writes w w'"
    and "op_update_gist client p t g c w = (r4, w') \<Longrightarrow> grown version writes w w'"
  using assms unfolding client_contract_def by (metis snd_conv)+

lemma client_values:
  assumes "client_contract version writes remote client"
  shows "op_get_gist_content client p t g w = (Inr c, w') \<Longrightarrow> remote w' = Some c"
    and "op_create_gist client p t c w = (Inr i, w') \<Longrightarrow> remote w' = Some c"
    and "op_update_gist client p t g c w = (Inr u, w') \<Longrightarrow> remote w' = Some c"
    and "op_find_gist client p t w = (Inr None, w') \<Longrightarrow> remote w' = None"
  using assms unfolding client_contract_def by metis+

lemma holds_version_unique: "holds_version rt g u \<Longrightarrow> holds_version rt g v \<Longrightarrow> u = v"
  by (auto simp: holds_version_def)

lemma holds_version_None [simp]: "\<not> holds_version rt None v"
  by (simp add: holds_version_def)

lemma grown_refl [simp]: "grown version writes w w"
  by (simp add: grown_def)

lemma grown_trans: "grown version writes a b \<Longrightarrow> grown version writes b c \<Longrightarrow> grown version writes a c"
  by (auto simp: grown_def)

lemma steady_refl [simp]: "steady version writes remote w w"
  by (simp add: steady_def)

lemma steady_trans:
  "steady version writes remote a b \<Longrightarrow> steady version writes remote b c \<Longrightarrow>
   steady version writes remote a c"
  by (auto simp: steady_def intro: grown_trans)

lemma steady_grown: "steady version writes remote a b \<Longrightarrow> grown version writes a b"
  by (simp add: steady_def)

section \<open>The parts of a session\<close>

lemma collect_sections_steady:
  assumes "\<forall>p \<in> set ps. provider_contract version writes remote p"
  shows "steady version writes remote w (snd (collect_sections token ps m w))"
  using assms
proof (induction ps arbitrary: m w)
  case (Cons p ps)
  have first: "steady version writes remote w (snd (collect_data p token w))"
    using Cons.prems by (simp add: provider_contract_def)
  show ?case unfolding collect_sections.simps
    by (rule snd_attempt [where R = "steady version writes remote", OF first])
      (use Cons in \<open>auto intro: steady_trans\<close>)
qed simp

lemma reconcile_sections_steady:
  assumes "\<forall>p \<in> set ps. provider_contract version writes remote p"
  shows "steady version writes remote w (snd (reconcile_sections token ps m out w))"
  using assms
proof (induction ps arbitrary: out w)
  case (Cons p ps)
  have first: "steady version writes remote w (snd (reconcile_data p token d w))" for d
    using Cons.prems by (simp add: provider_contract_def)
  show ?case
  proof (cases "m (section_key p)")
    case None
    then show ?thesis using Cons by simp
  next
    case (Some d)
    show ?thesis unfolding reconcile_sections.simps Some option.case
      by (rule snd_attempt [where R = "steady version writes remote", OF first])
        (use Cons in \<open>auto intro: steady_trans\<close>)
  qed
qed simp

lemma apply_sections_steady:
  assumes "\<forall>p \<in> set ps. provider_contract version writes remote p"
  shows "steady version writes remote w (snd (apply_sections token ps m out w))"
  using assms
proof (induction ps arbitrary: out w)
  case (Cons p ps)
  have first: "steady version writes remote w (snd (apply_data p token d w))" for d
    using Cons.prems by (simp add: provider_contract_def)
  show ?case
  proof (cases "m (section_key p)")
    case None
    then show ?thesis using Cons by simp
  next
    case (Some d)
    show ?thesis unfolding apply_sections.simps Some option.case
      by (rule snd_attempt [where R = "steady version writes remote", OF first])
        (use Cons in \<open>auto intro: steady_trans\<close>)
  qed
qed simp

lemma reconcile_steady:
  assumes "\<forall>p \<in> set ps. provider_contract version writes remote p"
    and "reconcile_provider_sections token ps d w = (r, w')"
  shows "steady version writes remote w w'"
  using reconcile_sections_steady [OF assms(1)] assms(2)
  by (metis reconcile_provider_sections_def snd_conv)

lemma apply_steady:
  assumes "\<forall>p \<in> set ps. provider_contract version writes remote p"
    and "apply_provider_sections token ps d w = (r, w')"
  shows "steady version writes remote w w'"
  using apply_sections_steady [OF assms(1)] assms(2)
  by (metis apply_provider_sections_def snd_conv)

lemma collect_content_steady:
  assumes "\<forall>p \<in> set ps. provider_contract version writes remote p"
    and "collect_sync_content rt token ps v w = (r, w')"
  shows "steady version writes remote w w'"
proof -
  obtain x w1 where c: "collect_sections token ps Map.empty w = (x, w1)" by fastforce
  have "steady version writes remote w w1"
    using collect_sections_steady [OF assms(1)] c by (metis snd_conv)
  then show ?thesis using assms(2) c
    by (cases x) (auto simp: collect_sync_content_def split: sum.splits)
qed

lemma collect_content_version:
  assumes "runtime_contract rt" and "collect_sync_content rt token ps v w = (Inr s, w')"
  shows "holds_version rt (Some s) v"
proof -
  obtain m w1 where run: "(case to_string_pretty rt
      \<lparr>data_version = v, synced_at = utc_now rt w1, sections = m\<rparr> of
        Inl e \<Rightarrow> (Inl (Serialization e), w1) | Inr s \<Rightarrow> (Inr s, w1)) = (Inr s, w')"
    using assms(2) by (auto simp: collect_sync_content_def attempt_eq_Inr)
  have "to_string_pretty rt \<lparr>data_version = v, synced_at = utc_now rt w1, sections = m\<rparr> = Inr s"
    using run
    by (cases "to_string_pretty rt \<lparr>data_version = v, synced_at = utc_now rt w1, sections = m\<rparr>") auto
  then show ?thesis using assms(1) by (fastforce simp: runtime_contract_def holds_version_def)
qed

lemma fetch_remote_result:
  assumes "client_contract version writes remote client"
    and "fetch_remote rt client p t g w = (r, w')"
  shows "steady version writes remote w w'"
    and "r = Inr d \<Longrightarrow> holds_version rt (remote w') (data_version d)"
    and "r = Inr d \<Longrightarrow> runtime_contract rt \<Longrightarrow> in_i64 (data_version d)"
proof -
  obtain x w1 where g: "op_get_gist_content client p t g w = (x, w1)" by fastforce
  have s: "steady version writes remote w w1"
    using client_steps(2) [OF assms(1) g] .
  show "steady version writes remote w w'"
    using s assms(2) g by (cases x) (auto simp: fetch_remote_def)
  assume r: "r = Inr d"
  then obtain c where x: "x = Inr c" "w1 = w'" and parse: "from_str rt c = Inr d"
    using assms(2) g by (cases x) (auto simp: fetch_remote_def parse_remote_def split: sum.splits)
  have "remote w1 = Some c" using client_values(1) [OF assms(1)] g x by simp
  then show "holds_version rt (remote w') (data_version d)"
    using x parse by (auto simp: holds_version_def)
  show "runtime_contract rt \<Longrightarrow> in_i64 (data_version d)"
    using parse by (auto simp: runtime_contract_def)
qed

lemma write_gist_result:
  assumes "client_contract version writes remote client"
    and "\<forall>p \<in> set ps. provider_contract version writes remote p"
    and "write_gist rt client platform token ps gid v w = (r, w')"
  shows "grown version writes w w'"
    and "r = Inr () \<Longrightarrow> runtime_contract rt \<Longrightarrow> holds_version rt (remote w') v"
proof -
  obtain x w1 where c: "collect_sync_content rt token ps v w = (x, w1)" by fastforce
  have s1: "steady version writes remote w w1" by (rule collect_content_steady [OF assms(2) c])
  have "grown version writes w w' \<and>
      (r = Inr () \<longrightarrow> runtime_contract rt \<longrightarrow> holds_version rt (remote w') v)"
  proof (cases x)
    case (Inl e)
    then show ?thesis using assms(3) c steady_grown [OF s1] by (auto simp: write_gist_def)
  next
    case (Inr s)
    obtain y w2 where u: "op_update_gist client platform token gid s w1 = (y, w2)" by fastforce
    have w2: "w2 = w'" and y: "r = Inr () \<Longrightarrow> y = Inr ()"
      using assms(3) c Inr u by (cases y; simp add: write_gist_def)+
    show ?thesis
      using grown_trans [OF steady_grown [OF s1] client_steps(4) [OF assms(1) u]] w2 y
        client_values(3) [OF assms(1)] u collect_content_version c Inr by auto
  qed
  then show "grown version writes w w'"
    "r = Inr () \<Longrightarrow> runtime_contract rt \<Longrightarrow> holds_version rt (remote w') v" by simp_all
qed

lemma next_sync_version_result:
  "next_sync_version v = Inr n \<Longrightarrow> n = v + 1 \<and> in_i64 n"
  by (auto simp: next_sync_version_def checked_add_i64_def split: option.splits if_splits)

section \<open>The end of a session\<close>

context sync_version_store
begin

lemma commit_and_record_result:
  assumes "commit_and_record rt vs platform expected synced w = (Inr x, w')" and "in_i64 synced"
  shows "x = Success synced platform" and "synced \<le> version w'"
    and "version w' = synced \<longleftrightarrow> version w = expected" and "version w \<noteq> expected \<Longrightarrow> version w < version w'"
    and "content w' = content w"
proof -
  obtain c w1 t u where commit: "vs_commit vs expected synced w = (Inr c, w1)"
    and meta: "vs_update_meta vs t (to_db_str platform) w1 = (Inr u, w')"
    and x: "x = Success synced platform"
    using assms(1) by (auto simp: commit_and_record_def attempt_eq_Inr)
  have v: "version w' = version w1" "content w' = content w1"
    using meta_keeps [of t "to_db_str platform" w1] meta_content [of t "to_db_str platform" w1] meta
    by simp_all
  have c: "content w1 = content w" using commit_content [of expected synced w] commit by simp
  show "x = Success synced platform" by (rule x)
  show "synced \<le> version w'" using commit_at_least [OF commit assms(2)] v by simp
  show "version w' = synced \<longleftrightarrow> version w = expected"
    using commit_unchanged [OF commit assms(2)] commit_pending [OF commit assms(2)] v by fastforce
  show "version w \<noteq> expected \<Longrightarrow> version w < version w'"
    using commit_pending [OF commit assms(2)] v by simp
  show "content w' = content w" using v c by simp
qed

lemma get_result:
  assumes "vs_get vs w = (r, w')"
  shows "version w' = version w" "content w' = content w" "r = Inr v \<Longrightarrow> v = version w"
  using get_keeps [of w] get_content [of w] get_reads [of w v w'] assms by simp_all

lemma meta_result:
  assumes "vs_update_meta vs t p w = (r, w')"
  shows "version w' = version w" "content w' = content w"
  using meta_keeps [of t p w] meta_content [of t p w] assms by simp_all

end

text \<open>
  A session reads two more things of the world, which the store leaves alone: the count of
  local writes and the gist.
\<close>

locale sync_session = sync_version_store vs version content
  for vs :: "'w version_store" and version :: "'w \<Rightarrow> int" and content :: "'w \<Rightarrow> 'c" +
  fixes writes :: "'w \<Rightarrow> nat" and remote :: "'w \<Rightarrow> string option"
  assumes writes_content: "content a = content b \<Longrightarrow> writes a = writes b"
    and remote_content: "content a = content b \<Longrightarrow> remote a = remote b"
begin

lemma get_steady: "vs_get vs w = (r, w') \<Longrightarrow> steady version writes remote w w'"
proof -
  assume get: "vs_get vs w = (r, w')"
  show ?thesis
    using get_result(1) [OF get] writes_content [OF get_result(2) [OF get]]
      remote_content [OF get_result(2) [OF get]] by (simp add: steady_def grown_def)
qed

lemma meta_steady: "vs_update_meta vs t p w = (r, w') \<Longrightarrow> steady version writes remote w w'"
proof -
  assume meta: "vs_update_meta vs t p w = (r, w')"
  show ?thesis
    using meta_result(1) [OF meta] writes_content [OF meta_result(2) [OF meta]]
      remote_content [OF meta_result(2) [OF meta]] by (simp add: steady_def grown_def)
qed

lemma session_end:
  assumes run: "commit_and_record rt vs platform expected synced w1 = (Inr x, w')"
    and range: "in_i64 synced" and read: "expected = version w" and since: "grown version writes w w1"
  shows "x = Success synced platform" and "synced \<le> version w'"
    and "version w' = synced \<longleftrightarrow> writes w' = writes w" and "remote w' = remote w1"
    and "expected \<le> synced \<Longrightarrow> version w \<le> version w'"
proof -
  note r = commit_and_record_result [OF run range]
  show "x = Success synced platform" "synced \<le> version w'" by (rule r)+
  have same: "writes w' = writes w1" "remote w' = remote w1"
    by (rule writes_content [OF r(5)], rule remote_content [OF r(5)])
  show "remote w' = remote w1" by (rule same)
  show "version w' = synced \<longleftrightarrow> writes w' = writes w"
    using r(3) same since read by (auto simp: grown_def)
  show "expected \<le> synced \<Longrightarrow> version w \<le> version w'"
    using r(2) read by simp
qed

lemma session_end_safe:
  assumes range: "in_i64 synced" and read: "expected = version w0" and before: "grown version writes w w0"
    and since: "grown version writes w0 w1" and holds: "holds_version rt (remote w1) synced"
    and le: "version w0 \<le> synced"
  shows "advanced_safely version writes remote rt w (snd (commit_and_record rt vs platform expected synced w1))"
proof -
  let ?r = "commit_and_record rt vs platform expected synced w1"
  obtain x w2 where commit: "vs_commit vs expected synced w1 = (x, w2)" by fastforce
  have same: "content w2 = content w1" using commit_content [of expected synced w1] commit by simp
  have grown01: "grown version writes w w1" using before since by (rule grown_trans)
  show ?thesis
  proof (cases x)
    case (Inl e)
    then have "snd ?r = w2" using commit by (simp add: commit_and_record_def)
    moreover have "version w2 = version w1" using commit_fails [of expected synced w1] commit Inl by simp
    ultimately show ?thesis
      using grown01 writes_content [OF same] by (simp add: advanced_safely_def grown_def)
  next
    case (Inr c)
    obtain y w3 where meta: "vs_update_meta vs (utc_now rt w2) (to_db_str platform) w2 = (y, w3)"
      by fastforce
    have "snd ?r = w3" using commit Inr meta by (cases y) (simp_all add: commit_and_record_def)
    moreover have "synced \<le> version w3" "remote w3 = remote w1"
      using commit_at_least [of expected synced w1 c w2] commit Inr range meta_steady [OF meta]
        meta_result(1) [OF meta] remote_content [OF same] by (simp_all add: steady_def)
    moreover have "version w \<le> synced"
      using before le by (auto simp: grown_def)
    ultimately show ?thesis using holds by (auto simp: advanced_safely_def)
  qed
qed

lemma grown_safe: "grown version writes w w' \<Longrightarrow> advanced_safely version writes remote rt w w'"
  by (simp add: advanced_safely_def)

lemma report_error: "grown version writes w w' \<Longrightarrow> sync_report version writes remote rt p w (Inl e) w'"
  by (simp add: sync_report_def grown_safe)

lemma report_conflict:
  "steady version writes remote w w' \<Longrightarrow> l = version w \<Longrightarrow> l < r \<Longrightarrow> holds_version rt (remote w') r \<Longrightarrow>
   sync_report version writes remote rt p w (Inr (Conflict l r)) w'"
  by (simp add: sync_report_def grown_safe steady_grown)

lemma report_up_to_date:
  "steady version writes remote w w' \<Longrightarrow> v \<le> version w \<Longrightarrow> holds_version rt (remote w') v \<Longrightarrow>
   sync_report version writes remote rt p w (Inr (AlreadyUpToDate v)) w'"
  by (simp add: sync_report_def grown_safe steady_grown)

lemma report_commit:
  assumes range: "in_i64 synced" and read: "expected = version w" and since: "grown version writes w w1"
    and holds: "holds_version rt (remote w1) synced" and le: "version w \<le> synced"
    and old: "\<And>u. holds_version rt (remote w) u \<Longrightarrow> u \<le> synced"
    and run: "commit_and_record rt vs platform expected synced w1 = (x, w')"
  shows "sync_report version writes remote rt platform w x w'"
proof -
  have safe: "advanced_safely version writes remote rt w w'"
    using session_end_safe [OF range read grown_refl since holds le, of platform] run by simp
  show ?thesis
  proof (cases x)
    case (Inl e)
    then show ?thesis using safe by (simp add: sync_report_def)
  next
    case (Inr y)
    note e = session_end [OF run [unfolded Inr] range read since]
    show ?thesis using e safe holds le old Inr by (simp add: sync_report_def)
  qed
qed

lemma upload_new_report:
  assumes client: "client_contract version writes remote client"
    and providers: "\<forall>p \<in> set ps. provider_contract version writes remote p"
    and rt: "runtime_contract rt"
    and read: "lv = version w0" and since: "steady version writes remote w0 w"
    and no_gist: "remote w = None"
    and run: "upload_new rt client platform token ps vs lv w = (x, w')"
  shows "sync_report version writes remote rt platform w0 x w'"
  using run unfolding upload_new_def
proof (cases rule: attemptE)
  case (fails e)
  then show ?thesis
    using steady_grown [OF steady_trans [OF since collect_content_steady [OF providers fails(1)]]]
    by (simp add: report_error)
next
  case (goes c w1)
  have g1: "grown version writes w0 w1"
    using steady_grown [OF steady_trans [OF since collect_content_steady [OF providers goes(1)]]] .
  show ?thesis using goes(2)
  proof (cases rule: attemptE)
    case (fails e)
    then obtain e' where "op_create_gist client platform token c w1 = (Inl e', w')"
      by (auto simp: map_err_eq_Inl)
    then show ?thesis using grown_trans [OF g1 client_steps(3) [OF client]] fails
      by (auto intro: report_error)
  next
    case inner: (goes g w2)
    then have create: "op_create_gist client platform token c w1 = (Inr g, w2)" by simp
    have range: "in_i64 lv" using version_range read by simp
    show ?thesis
    proof (rule report_commit [OF range read _ _ _ _ inner(2)])
      show "u \<le> lv" if "holds_version rt (remote w0) u" for u
        using that no_gist since by (simp add: steady_def)
      show "grown version writes w0 w2" using grown_trans [OF g1 client_steps(3) [OF client create]] .
      show "holds_version rt (remote w2) lv"
        using client_values(2) [OF client create] collect_content_version [OF rt goes(1)] by simp
      show "version w0 \<le> lv" using read by simp
    qed
  qed
qed

lemma write_and_commit_report:
  assumes client: "client_contract version writes remote client"
    and providers: "\<forall>p \<in> set ps. provider_contract version writes remote p"
    and rt: "runtime_contract rt"
    and range: "in_i64 v" and read: "lv = version w0" and le: "lv \<le> v"
    and old: "\<And>u. holds_version rt (remote w0) u \<Longrightarrow> u \<le> v"
    and since: "grown version writes w0 w"
    and run: "attempt (write_gist rt client platform token ps gid v w) (\<lambda>_ w1.
      commit_and_record rt vs platform lv v w1) = (x, w')"
  shows "sync_report version writes remote rt platform w0 x w'"
  using run
proof (cases rule: attemptE)
  case (fails e)
  then show ?thesis using grown_trans [OF since write_gist_result(1) [OF client providers]]
    by (auto intro: report_error)
next
  case (goes u w1)
  note g = write_gist_result [OF client providers goes(1)]
  show ?thesis
    using report_commit [OF range read _ _ _ old goes(2)] le read grown_trans [OF since] g rt by auto
qed

lemma meta_only_report:
  assumes since: "steady version writes remote w0 w" and read: "lv = version w0"
    and holds: "holds_version rt (remote w) lv"
    and run: "attempt (vs_update_meta vs t p w) (\<lambda>_ w1. (Inr (Success lv platform), w1)) = (x, w')"
  shows "sync_report version writes remote rt platform w0 x w'"
proof -
  have s3: "steady version writes remote w w'" and "x = Inr (Success lv platform) \<or> (\<exists>e. x = Inl e)"
    using run by (cases rule: attemptE; auto dest: meta_steady)+
  moreover have "u \<le> version w0" if "holds_version rt (remote w0) u" for u
    using holds_version_unique [OF that, of lv] holds since read by (simp add: steady_def)
  ultimately show ?thesis
    using steady_trans [OF since s3] holds read
    by (auto simp: sync_report_def advanced_safely_def steady_def grown_def)
qed

lemma upload_existing_report:
  assumes client: "client_contract version writes remote client"
    and providers: "\<forall>p \<in> set ps. provider_contract version writes remote p"
    and rt: "runtime_contract rt"
    and read: "lv = version w0" and since: "steady version writes remote w0 w"
    and run: "upload_existing rt client platform token ps vs lv gid w = (x, w')"
  shows "sync_report version writes remote rt platform w0 x w'"
  using run unfolding upload_existing_def
proof (cases rule: attemptE)
  case (fails e)
  then show ?thesis
    using steady_grown [OF steady_trans [OF since fetch_remote_result(1) [OF client fails(1)]]]
    by (simp add: report_error)
next
  case (goes d w1)
  note f = fetch_remote_result [OF client goes(1)]
  have s1: "steady version writes remote w0 w1" using steady_trans [OF since f(1)] .
  have range: "in_i64 lv" using version_range read by simp
  show ?thesis
  proof (cases "lv < data_version d")
    case True
    then show ?thesis using goes(2) f(2) [OF refl] s1 read by (auto intro: report_conflict)
  next
    case False
    then have "attempt (reconcile_provider_sections token ps d w1) (\<lambda>outcome w2.
          if data_version d = lv \<and> \<not> needs_upload outcome then
            (if local_changed outcome then
               attempt (vs_update_meta vs (utc_now rt w2) (to_db_str platform) w2) (\<lambda>_ w3.
                 (Inr (Success lv platform), w3))
             else (Inr (AlreadyUpToDate lv), w2))
          else
            attempt (if data_version d = lv then (next_sync_version lv, w2) else (Inr lv, w2))
              (\<lambda>upload_version w3.
            attempt (write_gist rt client platform token ps gid upload_version w3) (\<lambda>_ w4.
              commit_and_record rt vs platform lv upload_version w4))) = (x, w')"
      using goes(2) by simp
    then show ?thesis
    proof (cases rule: attemptE)
      case (fails e)
      then show ?thesis using steady_grown [OF steady_trans [OF s1 reconcile_steady [OF providers]]]
        by (simp add: report_error)
    next
      case inner: (goes out w2)
      have s2: "steady version writes remote w0 w2"
        using steady_trans [OF s1 reconcile_steady [OF providers inner(1)]] .
      have r2: "remote w2 = remote w1"
        using reconcile_steady [OF providers inner(1)] by (simp add: steady_def)
      show ?thesis
      proof (cases "data_version d = lv \<and> \<not> needs_upload out")
        case same: True
        show ?thesis
        proof (cases "local_changed out")
          case False
          then show ?thesis using inner(2) same f(2) [OF refl] r2 s2 read
            by (auto intro!: report_up_to_date)
        next
          case True
          show ?thesis
            by (rule meta_only_report [OF s2 read _
                  inner(2) [unfolded if_P [OF same] if_P [OF True]]])
              (use f(2) [OF refl] same r2 in simp)
        qed
      next
        case False
        then have "attempt (if data_version d = lv then (next_sync_version lv, w2) else (Inr lv, w2))
              (\<lambda>upload_version w3.
            attempt (write_gist rt client platform token ps gid upload_version w3) (\<lambda>_ w4.
              commit_and_record rt vs platform lv upload_version w4)) = (x, w')"
          using inner(2) by auto
        then show ?thesis
        proof (cases rule: attemptE)
          case (fails e)
          then show ?thesis using steady_grown [OF s2] by (auto split: if_splits intro: report_error)
        next
          case chosen: (goes uv w3)
          have uv: "in_i64 uv" "lv \<le> uv" and w3: "w3 = w2"
            using chosen(1) range by (auto split: if_splits dest: next_sync_version_result)
          have old: "u \<le> uv" if "holds_version rt (remote w0) u" for u
            using holds_version_unique [OF that, of "data_version d"] f(2) [OF refl] s1 False uv(2)
              \<open>\<not> lv < data_version d\<close> by (simp add: steady_def)
          show ?thesis
            by (rule write_and_commit_report [OF client providers rt uv(1) read uv(2) _ _ chosen(2)])
              (use steady_grown [OF s2] w3 old in auto)
        qed
      qed
    qed
  qed
qed

lemma upload_report:
  assumes client: "client_contract version writes remote client"
    and providers: "\<forall>p \<in> set ps. provider_contract version writes remote p"
    and rt: "runtime_contract rt"
    and run: "upload rt client platform token ps vs w = (x, w')"
  shows "sync_report version writes remote rt platform w x w'"
  using run unfolding upload_def
proof (cases rule: attemptE)
  case (fails e)
  then show ?thesis by (auto dest: get_steady intro: report_error steady_grown)
next
  case (goes lv w1)
  have lv: "lv = version w" using get_result(3) [OF goes(1)] by simp
  have s1: "steady version writes remote w w1" by (rule get_steady [OF goes(1)])
  show ?thesis using goes(2)
  proof (cases rule: attemptE)
    case (fails e)
    then obtain e' where find: "op_find_gist client platform token w1 = (Inl e', w')"
      by (auto simp: map_err_eq_Inl)
    show ?thesis
      using fails steady_grown [OF steady_trans [OF s1 client_steps(1) [OF client find]]]
      by (auto intro: report_error)
  next
    case inner: (goes found w2)
    have s2: "steady version writes remote w w2"
      using steady_trans [OF s1 client_steps(1) [OF client]] inner(1) by simp
    show ?thesis
      using inner upload_new_report [OF client providers rt lv s2] client_values(4) [OF client]
        upload_existing_report [OF client providers rt lv s2] by (cases found) auto
  qed
qed

lemma download_existing_report:
  assumes client: "client_contract version writes remote client"
    and providers: "\<forall>p \<in> set ps. provider_contract version writes remote p"
    and rt: "runtime_contract rt"
    and d: "holds_version rt (remote w0) (data_version d)" "in_i64 (data_version d)"
    and read: "lv = version w0" and since: "steady version writes remote w0 w"
    and run: "download_existing rt client platform token ps vs d lv gid w = (x, w')"
  shows "sync_report version writes remote rt platform w0 x w'"
proof (cases "data_version d < lv")
  case True
  then show ?thesis using run d since read
    by (auto simp: download_existing_def steady_def intro!: report_up_to_date)
next
  case le: False
  let ?take = "if data_version d = lv then reconcile_provider_sections token ps d w
    else apply_provider_sections token ps d w"
  have taken: "steady version writes remote w0 w1" "holds_version rt (remote w1) (data_version d)"
    if "?take = (y, w1)" for y w1
  proof -
    have "steady version writes remote w w1"
      using that reconcile_steady [OF providers] apply_steady [OF providers] by (auto split: if_splits)
    then show "steady version writes remote w0 w1" using since by (rule steady_trans [rotated])
    then show "holds_version rt (remote w1) (data_version d)" using d(1) by (simp add: steady_def)
  qed
  have "attempt ?take (\<lambda>outcome w1.
         if data_version d = lv \<and> \<not> local_changed outcome \<and> \<not> needs_upload outcome
         then (Inr (AlreadyUpToDate (data_version d)), w1)
         else
           attempt
             (if needs_upload outcome then
                attempt (next_sync_version (max lv (data_version d)), w1) (\<lambda>v w2.
                attempt (write_gist rt client platform token ps gid v w2) (\<lambda>_ w3. (Inr v, w3)))
              else (Inr (data_version d), w1))
             (\<lambda>final_version w4. commit_and_record rt vs platform lv final_version w4)) = (x, w')"
    using run le by (simp only: download_existing_def if_False)
  then show ?thesis
  proof (cases rule: attemptE)
    case (fails e)
    then show ?thesis using taken by (auto intro: report_error steady_grown)
  next
    case (goes out w1)
    note t = taken [OF goes(1)]
    show ?thesis
    proof (cases "data_version d = lv \<and> \<not> local_changed out \<and> \<not> needs_upload out")
      case True
      then show ?thesis using goes(2) t read by (auto intro: report_up_to_date)
    next
      case False
      show ?thesis
        using goes(2) [unfolded if_not_P [OF False]]
      proof (cases rule: attemptE)
        case (fails e)
        then show ?thesis
          using t grown_trans [OF steady_grown [OF t(1)] write_gist_result(1) [OF client providers]]
          by (auto split: if_splits simp: attempt_eq_Inl intro: report_error steady_grown)
      next
        case (goes v w4)
        have v: "in_i64 v" "lv \<le> v" "grown version writes w0 w4" "holds_version rt (remote w4) v"
          using goes(1) t d(2) le steady_grown [OF t(1)] write_gist_result [OF client providers, of rt] rt
            grown_trans [OF steady_grown [OF t(1)] write_gist_result(1) [OF client providers]]
          by (auto split: if_splits simp: attempt_eq_Inr dest: next_sync_version_result)
        have old: "u \<le> v" if "holds_version rt (remote w0) u" for u
          using holds_version_unique [OF that d(1)] goes(1)
          by (auto split: if_splits simp: attempt_eq_Inr dest: next_sync_version_result)
        then show ?thesis using report_commit [OF v(1) read _ _ _ old goes(2)] v read by simp
      qed
    qed
  qed
qed

text \<open>
  A download reads the local version after it has fetched the gist: the report counts from
  that moment.
\<close>

lemma download_report:
  assumes client: "client_contract version writes remote client"
    and providers: "\<forall>p \<in> set ps. provider_contract version writes remote p"
    and rt: "runtime_contract rt"
    and run: "download rt client platform token ps vs w = (x, w')"
  shows "\<exists>w0. steady version writes remote w w0 \<and>
    sync_report version writes remote rt platform w0 x w'"
  using run unfolding download_def
proof (cases rule: attemptE)
  case (fails e)
  then obtain e' where find: "op_find_gist client platform token w = (Inl e', w')"
    by (auto simp: map_err_eq_Inl)
  show ?thesis using fails client_steps(1) [OF client find]
    by (auto intro!: exI [of _ w] report_error steady_grown)
next
  case (goes found w1)
  have s1: "steady version writes remote w w1"
    using client_steps(1) [OF client] goes(1) by simp
  show ?thesis
  proof (cases found)
    case None
    then show ?thesis using goes(2) s1 by (auto intro!: exI [of _ w] report_error steady_grown)
  next
    case (Some gid)
    then have "attempt (fetch_remote rt client platform token gid w1) (\<lambda>remote w2.
        attempt (vs_get vs w2) (\<lambda>lv w3.
          download_existing rt client platform token ps vs remote lv gid w3)) = (x, w')"
      using goes(2) by simp
    then show ?thesis
    proof (cases rule: attemptE)
      case (fails e)
      then show ?thesis using steady_trans [OF s1 fetch_remote_result(1) [OF client fails(1)]]
        by (auto intro!: exI [of _ w] report_error steady_grown)
    next
      case fetched: (goes d w2)
      note f = fetch_remote_result [OF client fetched(1)]
      have s2: "steady version writes remote w w2" using steady_trans [OF s1 f(1)] .
      show ?thesis using fetched(2)
      proof (cases rule: attemptE)
        case (fails e)
        then show ?thesis using steady_trans [OF s2 get_steady]
          by (auto intro!: exI [of _ w] report_error steady_grown)
      next
        case (goes lv w3)
        have s3: "steady version writes remote w2 w3" by (rule get_steady [OF goes(1)])
        have "sync_report version writes remote rt platform w2 x w'"
          using download_existing_report [OF client providers rt f(2) [OF refl] f(3) [OF refl rt]
              get_result(3) [OF goes(1) refl] s3 goes(2)] .
        then show ?thesis using s2 by blast
      qed
    qed
  qed
qed

lemma force_remote_version_result:
  assumes client: "client_contract version writes remote client"
    and providers: "\<forall>p \<in> set ps. provider_contract version writes remote p"
    and run: "force_remote_version rt client platform token ps found w = (x, w')"
  shows "steady version writes remote w w'"
    and "x = Inr (Some v) \<Longrightarrow> holds_version rt (remote w') v"
    and "x = Inr None \<Longrightarrow> found = None"
proof -
  have "steady version writes remote w w' \<and> (\<forall>v. x = Inr (Some v) \<longrightarrow> holds_version rt (remote w') v) \<and>
      (x = Inr None \<longrightarrow> found = None)"
  proof (cases found)
    case None
    then show ?thesis using run by (auto simp: force_remote_version_def)
  next
    case (Some gid)
    then have "attempt (fetch_remote rt client platform token gid w) (\<lambda>remote w1.
        attempt (reconcile_provider_sections token ps remote w1) (\<lambda>_ w2.
          (Inr (Some (data_version remote)), w2))) = (x, w')"
      using run by (simp add: force_remote_version_def)
    then show ?thesis
    proof (cases rule: attemptE)
      case (fails e)
      then show ?thesis using fetch_remote_result(1) [OF client fails(1)] by simp
    next
      case (goes d w1)
      note f = fetch_remote_result [OF client goes(1)]
      obtain y where rec: "reconcile_provider_sections token ps d w1 = (y, w')"
        and x: "\<And>v. x = Inr (Some v) \<Longrightarrow> v = data_version d" "x \<noteq> Inr None"
        using goes(2) by (cases rule: attemptE) auto
      have s2: "steady version writes remote w1 w'" by (rule reconcile_steady [OF providers rec])
      show ?thesis using steady_trans [OF f(1) s2] f(2) [OF refl] x s2 by (auto simp: steady_def)
    qed
  qed
  then show "steady version writes remote w w'" "x = Inr (Some v) \<Longrightarrow> holds_version rt (remote w') v"
    "x = Inr None \<Longrightarrow> found = None"
    by simp_all
qed

lemma force_write_result:
  assumes client: "client_contract version writes remote client"
    and providers: "\<forall>p \<in> set ps. provider_contract version writes remote p"
    and run: "force_write rt client platform token ps found v w = (r, w')"
  shows "grown version writes w w'"
    and "r = Inr () \<Longrightarrow> runtime_contract rt \<Longrightarrow> holds_version rt (remote w') v"
proof -
  have "grown version writes w w' \<and>
      (r = Inr () \<longrightarrow> runtime_contract rt \<longrightarrow> holds_version rt (remote w') v)"
  proof (cases found)
    case (Some gid)
    then have "write_gist rt client platform token ps gid v w = (r, w')"
      using run by (simp add: force_write_def write_gist_def)
    then show ?thesis using write_gist_result [OF client providers] by blast
  next
    case None
    show ?thesis using run unfolding force_write_def None option.case
    proof (cases rule: attemptE)
      case (fails e)
      then show ?thesis using steady_grown [OF collect_content_steady [OF providers fails(1)]] by simp
    next
      case (goes c w1)
      obtain y where create: "op_create_gist client platform token c w1 = (y, w')"
        and y: "r = Inr () \<Longrightarrow> \<exists>i. y = Inr i"
        using goes(2)
        by (cases "op_create_gist client platform token c w1"; cases "fst (op_create_gist client platform token c w1)") auto
      show ?thesis
        using grown_trans [OF steady_grown [OF collect_content_steady [OF providers goes(1)]]
            client_steps(3) [OF client create]] y create client_values(2) [OF client]
          collect_content_version goes(1) by auto
    qed
  qed
  then show "grown version writes w w'"
    "r = Inr () \<Longrightarrow> runtime_contract rt \<Longrightarrow> holds_version rt (remote w') v" by simp_all
qed

lemma commit_and_record_version:
  "commit_and_record rt vs platform expected v w = (Inr y, w') \<Longrightarrow> y = Success v platform"
  by (auto simp: commit_and_record_def attempt_eq_Inr)

lemma force_upload_report:
  assumes client: "client_contract version writes remote client"
    and providers: "\<forall>p \<in> set ps. provider_contract version writes remote p"
    and rt: "runtime_contract rt"
    and run: "force_upload rt client platform token ps vs w = (x, w')"
  shows "sync_report version writes remote rt platform w x w' \<and>
    (\<forall>y. x = Inr y \<longrightarrow> (\<exists>v. version w < v \<and> y = Success v platform))"
  using run unfolding force_upload_def
proof (cases rule: attemptE)
  case (fails e)
  then show ?thesis by (auto dest: get_steady intro: report_error steady_grown)
next
  case (goes lv w1)
  have lv: "lv = version w" using get_result(3) [OF goes(1)] by simp
  have s1: "steady version writes remote w w1" by (rule get_steady [OF goes(1)])
  show ?thesis using goes(2)
  proof (cases rule: attemptE)
    case (fails e)
    then obtain e' where find: "op_find_gist client platform token w1 = (Inl e', w')"
      by (auto simp: map_err_eq_Inl)
    show ?thesis
      using fails steady_grown [OF steady_trans [OF s1 client_steps(1) [OF client find]]]
      by (auto intro: report_error)
  next
    case found: (goes found w2)
    have s2: "steady version writes remote w w2"
      using steady_trans [OF s1 client_steps(1) [OF client]] found(1) by simp
    show ?thesis using found(2)
    proof (cases rule: attemptE)
      case (fails e)
      then show ?thesis
        using steady_grown [OF steady_trans [OF s2 force_remote_version_result(1) [OF client providers fails(1)]]]
        by (auto intro: report_error)
    next
      case rv: (goes rv w3)
      have s3: "steady version writes remote w w3"
        using steady_trans [OF s2 force_remote_version_result(1) [OF client providers rv(1)]] .
      show ?thesis using rv(2)
      proof (cases rule: attemptE)
        case (fails e)
        then show ?thesis using s3 by (auto intro: report_error steady_grown)
      next
        case next_version: (goes v w4)
        have v: "lv < v" "in_i64 v" and w4: "w4 = w3"
          using next_version(1) by (auto dest: next_sync_version_result)
        show ?thesis using next_version(2)
        proof (cases rule: attemptE)
          case (fails e)
          then show ?thesis
            using grown_trans [OF steady_grown [OF s3]
                force_write_result(1) [OF client providers fails(1) [unfolded w4]]]
            by (auto intro: report_error)
        next
          case (goes u w5)
          note g = force_write_result [OF client providers goes(1)]
          have old: "u \<le> v" if u: "holds_version rt (remote w) u" for u
          proof (cases rv)
            case None
            then have "remote w2 = None"
              using force_remote_version_result(3) [OF client providers rv(1)] client_values(4) [OF client]
                found(1) by simp
            then show ?thesis using u s2 by (simp add: steady_def)
          next
            case (Some r)
            then have "holds_version rt (remote w) r"
              using force_remote_version_result(2) [OF client providers rv(1)] s3 by (simp add: steady_def)
            then show ?thesis
              using holds_version_unique [OF u] next_version(1) Some by (auto dest: next_sync_version_result)
          qed
          show ?thesis
            using report_commit [OF v(2) lv _ _ _ old goes(2)] g rt lv v w4
              grown_trans [OF steady_grown [OF s3]] commit_and_record_version goes(2) by fastforce
        qed
      qed
    qed
  qed
qed

end

section \<open>The database store in a world with a gist\<close>

text \<open>
  The world of the interpretation: the database, the count of local writes that raised its
  version, and the gist of the account.
\<close>

record sync_world = sync_db +
  local_writes :: nat
  gist_text :: "string option"

interpretation db_session: sync_session
  db_version_store db_version db_content local_writes gist_text
proof unfold_locales
  fix a b :: "'a sync_world_scheme"
  assume "db_content a = db_content b"
  then have more: "sync_db.more a = sync_db.more b" by (simp add: db_content_def)
  show "local_writes a = local_writes b" "gist_text a = gist_text b"
    using more by (cases a; cases b; simp)+
qed

end
