(* ===== verification/Ordered_Map.thy ===== *)
theory Ordered_Map
  imports Prelude "HOL-Library.List_Lexorder" "HOL-Library.Char_ord" "HOL-Library.Option_ord"
    "HOL-Library.Product_Lexorder"
begin

text \<open>
  What the memory synchronisation uses of the Rust standard library: \<open>Ordering\<close> with
  \<open>then_with\<close>, and \<open>BTreeMap\<close>, an association list with strictly increasing keys.  Two such
  maps are equal as lists exactly when they map alike, which is what \<open>==\<close> on maps tests.
\<close>

section \<open>Ordering\<close>

datatype ordering = Less | Equal | Greater

definition cmp :: "'a::linorder \<Rightarrow> 'a \<Rightarrow> ordering" where
  "cmp a b = (if a < b then Less else if a = b then Equal else Greater)"

definition then_with :: "ordering \<Rightarrow> ordering \<Rightarrow> ordering" where
  "then_with x y = (if x = Equal then y else x)"

definition is_gt :: "ordering \<Rightarrow> bool" where
  "is_gt x \<longleftrightarrow> x = Greater"

lemma cmp_pair: "cmp (a, b) (c, d) = then_with (cmp a c) (cmp b d)"
  by (auto simp: cmp_def then_with_def less_prod_def)

lemma cmp_Greater [simp]: "cmp a b = Greater \<longleftrightarrow> b < a"
  by (auto simp: cmp_def)

lemma cmp_Equal [simp]: "cmp a b = Equal \<longleftrightarrow> a = b"
  by (auto simp: cmp_def)

section \<open>The interface of an ordered map\<close>

locale ordered_map =
  fixes empty :: 'm and insert :: "'k::linorder \<Rightarrow> 'v \<Rightarrow> 'm \<Rightarrow> 'm"
    and get :: "'m \<Rightarrow> 'k \<Rightarrow> 'v option" and entries :: "'m \<Rightarrow> ('k \<times> 'v) list" and valid :: "'m \<Rightarrow> bool"
  assumes valid_empty: "valid empty"
    and valid_insert: "valid m \<Longrightarrow> valid (insert k v m)"
    and get_empty: "get empty k = None"
    and get_insert: "valid m \<Longrightarrow> get (insert k v m) k' = (if k' = k then Some v else get m k')"
    and entries_get: "valid m \<Longrightarrow> (k, v) \<in> set (entries m) \<longleftrightarrow> get m k = Some v"
    and extensional: "valid m \<Longrightarrow> valid m' \<Longrightarrow> get m = get m' \<Longrightarrow> m = m'"
begin

text \<open>Collecting an iterator of pairs: the last pair of a key stays.\<close>

definition collect :: "('k \<times> 'v) list \<Rightarrow> 'm" where
  "collect kvs = fold (\<lambda>(k, v) m. insert k v m) kvs empty"

lemma fold_insert_valid: "valid m \<Longrightarrow> valid (fold (\<lambda>(k, v) m. insert k v m) kvs m)"
  by (induction kvs arbitrary: m) (auto simp: valid_insert)

lemma fold_insert_get:
  "valid m \<Longrightarrow> get (fold (\<lambda>(k, v) m. insert k v m) kvs m) k =
    (case map_of (rev kvs) k of Some v \<Rightarrow> Some v | None \<Rightarrow> get m k)"
  by (induction kvs arbitrary: m) (auto simp: valid_insert get_insert map_add_def split: option.splits)

lemma valid_collect: "valid (collect kvs)"
  unfolding collect_def by (rule fold_insert_valid [OF valid_empty])

lemma get_collect: "get (collect kvs) k = map_of (rev kvs) k"
  unfolding collect_def fold_insert_get [OF valid_empty] get_empty by (simp split: option.split)

text \<open>Collecting what a map yields gives the map back.\<close>

lemma collect_entries:
  assumes "valid m" and "distinct (map fst (entries m))"
  shows "collect (entries m) = m"
proof (rule extensional [OF valid_collect assms(1)], rule ext)
  fix k
  have "map_of (rev (entries m)) k = Some v \<longleftrightarrow> get m k = Some v" for v
    using assms entries_get [OF assms(1)]
    by (simp add: distinct_map rev_map [symmetric] map_of_eq_Some_iff)
  then show "get (collect (entries m)) k = get m k"
    unfolding get_collect by (metis not_None_eq)
qed

end

section \<open>BTreeMap\<close>

type_synonym ('k, 'v) btree_map = "('k \<times> 'v) list"

fun bt_insert :: "'k::linorder \<Rightarrow> 'v \<Rightarrow> ('k, 'v) btree_map \<Rightarrow> ('k, 'v) btree_map" where
  "bt_insert k v [] = [(k, v)]"
| "bt_insert k v ((k', v') # m) =
    (if k < k' then (k, v) # (k', v') # m
     else if k = k' then (k, v) # m
     else (k', v') # bt_insert k v m)"

definition bt_get :: "('k, 'v) btree_map \<Rightarrow> 'k \<Rightarrow> 'v option" where
  "bt_get m k = map_of m k"

definition bt_values :: "('k, 'v) btree_map \<Rightarrow> 'v list" where
  "bt_values m = map snd m"

definition bt_collect :: "('k::linorder \<times> 'v) list \<Rightarrow> ('k, 'v) btree_map" where
  "bt_collect kvs = fold (\<lambda>(k, v) m. bt_insert k v m) kvs []"

definition bt_sorted :: "('k::linorder, 'v) btree_map \<Rightarrow> bool" where
  "bt_sorted m \<longleftrightarrow> sorted_wrt (<) (map fst m)"

lemma set_bt_insert: "fst ` set (bt_insert k v m) = insert k (fst ` set m)"
  by (induction k v m rule: bt_insert.induct) auto

lemma bt_sorted_insert: "bt_sorted m \<Longrightarrow> bt_sorted (bt_insert k v m)"
proof (induction k v m rule: bt_insert.induct)
  case (2 k v k' v' m)
  then show ?case using set_bt_insert [of k v m]
    by (auto simp: bt_sorted_def)
qed (simp add: bt_sorted_def)

lemma bt_get_insert: "bt_sorted m \<Longrightarrow> bt_get (bt_insert k v m) k' = (if k' = k then Some v else bt_get m k')"
  by (induction k v m rule: bt_insert.induct) (auto simp: bt_get_def bt_sorted_def)

lemma bt_sorted_distinct: "bt_sorted m \<Longrightarrow> distinct (map fst m)"
  by (induction m) (auto simp: bt_sorted_def)

lemma bt_extensional:
  assumes "bt_sorted m" "bt_sorted m'" "bt_get m = bt_get m'"
  shows "m = m'"
proof -
  have maps: "map_of m = map_of m'" using assms(3) by (simp add: bt_get_def fun_eq_iff)
  have "fst ` set m = fst ` set m'" by (metis dom_map_of_conv_image_fst maps)
  then have "map fst m = map fst m'"
    using assms(1,2) by (intro strict_sorted_equal) (auto simp: bt_sorted_def)
  moreover have "map (\<lambda>k. (k, the (map_of m k))) (map fst m) = m"
    "map (\<lambda>k. (k, the (map_of m' k))) (map fst m') = m'"
    using bt_sorted_distinct [OF assms(1)] bt_sorted_distinct [OF assms(2)]
    by (auto intro!: map_idI)
  ultimately show ?thesis using maps by metis
qed

interpretation btree: ordered_map
  "[] :: ('k::linorder, 'v) btree_map" bt_insert bt_get "\<lambda>m. m" bt_sorted
  rewrites "ordered_map.collect ([] :: ('k::linorder, 'v) btree_map) bt_insert kvs = bt_collect kvs"
proof -
  show laws: "ordered_map ([] :: ('k, 'v) btree_map) bt_insert bt_get (\<lambda>m. m) bt_sorted"
  proof unfold_locales
    fix m m' :: "('k, 'v) btree_map" and k k' :: 'k and v :: 'v
    show "bt_sorted ([] :: ('k, 'v) btree_map)" by (simp add: bt_sorted_def)
    show "bt_sorted m \<Longrightarrow> bt_sorted (bt_insert k v m)" by (rule bt_sorted_insert)
    show "bt_get ([] :: ('k, 'v) btree_map) k = None" by (simp add: bt_get_def)
    show "bt_sorted m \<Longrightarrow> bt_get (bt_insert k v m) k' = (if k' = k then Some v else bt_get m k')"
      by (rule bt_get_insert)
    show "bt_sorted m \<Longrightarrow> (k, v) \<in> set m \<longleftrightarrow> bt_get m k = Some v"
      by (simp add: bt_get_def bt_sorted_distinct map_of_eq_Some_iff)
    show "bt_sorted m \<Longrightarrow> bt_sorted m' \<Longrightarrow> bt_get m = bt_get m' \<Longrightarrow> m = m'"
      by (rule bt_extensional)
  qed
  show "ordered_map.collect ([] :: ('k, 'v) btree_map) bt_insert kvs = bt_collect kvs"
    by (simp add: ordered_map.collect_def [OF laws] bt_collect_def)
qed

end
