(* ===== verification/Machine_Memory.thy ===== *)
theory Machine_Memory imports Ordered_Map Sync_Store begin

text \<open>
  The machine memories and their merge (\<open>warp_ssh_manager/src/memory.rs\<close> and the memory
  part of \<open>sync_provider.rs\<close>): the repository over \<open>ssh_machine_memories\<close>, the
  last-writer-wins merge of two devices, and the encrypted form that is uploaded.

  A \<open>DateTime<Utc>\<close> is an integer (the instant); \<open>chrono\<close> prints and parses it as RFC3339,
  which is a parameter.  A \<open>String\<close> is a list of characters.
\<close>

section \<open>Memories and their rows\<close>

record machine_memory =
  machine_key :: string
  mem_content :: string
  hostname_alias :: "string option"
  ssh_node_id :: "string option"
  last_review_at :: "int option"
  updated_at :: int
  deleted_at :: "int option"

record chrono =
  rfc3339 :: "int \<Rightarrow> string"
  parse_rfc3339 :: "string \<Rightarrow> int option"

definition chrono_ok :: "chrono \<Rightarrow> bool" where
  "chrono_ok T \<longleftrightarrow> (\<forall>t. parse_rfc3339 T (rfc3339 T t) = Some t)"

definition MAX_MEMORY_CHARS :: nat where "MAX_MEMORY_CHARS = 16000"

datatype memory_error =
    MemoryDb string
  | SyncMeta repository_error
  | InvalidTimestamp string string

definition truncate_content :: "string \<Rightarrow> string" where
  "truncate_content content = take MAX_MEMORY_CHARS content"

definition parse_timestamp :: "chrono \<Rightarrow> string \<Rightarrow> string \<Rightarrow> memory_error + int" where
  "parse_timestamp T column v =
    (case parse_rfc3339 T v of None \<Rightarrow> Inl (InvalidTimestamp column v) | Some t \<Rightarrow> Inr t)"

definition memory_from_row :: "chrono \<Rightarrow> memory_row \<Rightarrow> memory_error + machine_memory" where
  "memory_from_row T row =
    (case transpose_opt (parse_timestamp T ''last_review_at'') (row_last_review_at row) of
      Inl e \<Rightarrow> Inl e
    | Inr review \<Rightarrow>
        (case parse_timestamp T ''updated_at'' (row_updated_at row) of
          Inl e \<Rightarrow> Inl e
        | Inr updated \<Rightarrow>
            (case transpose_opt (parse_timestamp T ''deleted_at'') (row_deleted_at row) of
              Inl e \<Rightarrow> Inl e
            | Inr deleted \<Rightarrow>
                Inr \<lparr>machine_key = row_machine_key row, mem_content = row_content row,
                  hostname_alias = row_hostname_alias row, ssh_node_id = row_ssh_node_id row,
                  last_review_at = review, updated_at = updated, deleted_at = deleted\<rparr>)))"

definition memories_from_rows :: "chrono \<Rightarrow> memory_row list \<Rightarrow> memory_error + machine_memory list" where
  "memories_from_rows T rows =
    (case collect_results (map (memory_from_row T) rows) of
      Inl e \<Rightarrow> Inl e
    | Inr ms \<Rightarrow> Inr (sort_key (\<lambda>m. - updated_at m) ms))"

section \<open>MachineMemoryRepository\<close>

text \<open>\<open>INSERT .. ON CONFLICT (machine_key) DO UPDATE\<close>, and \<open>UPDATE\<close> of one key.\<close>

fun upsert_row :: "memory_row \<Rightarrow> (memory_row \<Rightarrow> memory_row) \<Rightarrow> memory_row list \<Rightarrow> memory_row list" where
  "upsert_row new upd [] = [new]"
| "upsert_row new upd (r # rs) =
    (if row_machine_key r = row_machine_key new then upd r # rs else r # upsert_row new upd rs)"

definition update_row :: "string \<Rightarrow> (memory_row \<Rightarrow> memory_row) \<Rightarrow> memory_row list \<Rightarrow> memory_row list" where
  "update_row key upd rows = map (\<lambda>r. if row_machine_key r = key then upd r else r) rows"

definition execute ::
  "(memory_row list \<Rightarrow> memory_row list) \<Rightarrow> 'a sync_db_scheme \<Rightarrow>
   (memory_error + unit) \<times> 'a sync_db_scheme" where
  "execute f db =
    attempt (map_err MemoryDb (statement db)) (\<lambda>_ db1.
      (Inr (), db1\<lparr>memory_rows := f (memory_rows db1)\<rparr>))"

definition fresh_row :: "string \<Rightarrow> string \<Rightarrow> string \<Rightarrow> string option \<Rightarrow> memory_row" where
  "fresh_row key content now deleted =
    \<lparr>row_machine_key = key, row_content = content, row_hostname_alias = None,
     row_ssh_node_id = None, row_last_review_at = None, row_created_at = now,
     row_updated_at = now, row_deleted_at = deleted\<rparr>"

definition get_memory ::
  "chrono \<Rightarrow> string \<Rightarrow> 'a sync_db_scheme \<Rightarrow> (memory_error + machine_memory option) \<times> 'a sync_db_scheme" where
  "get_memory T key db =
    attempt (map_err MemoryDb (statement db)) (\<lambda>_ db1.
      (transpose_opt (memory_from_row T)
        (find (\<lambda>r. row_machine_key r = key \<and> row_deleted_at r = None) (memory_rows db1)), db1))"

definition upsert_content ::
  "chrono \<Rightarrow> int \<Rightarrow> string \<Rightarrow> string \<Rightarrow> 'a sync_db_scheme \<Rightarrow> (memory_error + unit) \<times> 'a sync_db_scheme" where
  "upsert_content T utc_now key content =
    transaction MemoryDb (\<lambda>db.
      attempt
        (execute (upsert_row (fresh_row key (truncate_content content) (rfc3339 T utc_now) None)
          (\<lambda>r. r\<lparr>row_content := truncate_content content, row_updated_at := rfc3339 T utc_now,
                row_deleted_at := None\<rparr>)) db) (\<lambda>_ db1.
      attempt (map_err SyncMeta (increment_sync_version db1)) (\<lambda>_ db2. (Inr (), db2))))"

definition ensure_exists ::
  "chrono \<Rightarrow> int \<Rightarrow> string \<Rightarrow> 'a sync_db_scheme \<Rightarrow> (memory_error + unit) \<times> 'a sync_db_scheme" where
  "ensure_exists T utc_now key =
    execute (upsert_row (fresh_row key [] (rfc3339 T utc_now) None) (\<lambda>r. r))"

definition set_hostname_alias ::
  "chrono \<Rightarrow> int \<Rightarrow> int \<Rightarrow> string \<Rightarrow> string \<Rightarrow> 'a sync_db_scheme \<Rightarrow>
   (memory_error + unit) \<times> 'a sync_db_scheme" where
  "set_hostname_alias T now1 now2 key alias =
    transaction MemoryDb (\<lambda>db.
      attempt (ensure_exists T now1 key db) (\<lambda>_ db1.
      attempt
        (execute (update_row key
          (\<lambda>r. r\<lparr>row_hostname_alias := Some alias, row_updated_at := rfc3339 T now2\<rparr>)) db1) (\<lambda>_ db2.
      attempt (map_err SyncMeta (increment_sync_version db2)) (\<lambda>_ db3. (Inr (), db3)))))"

definition set_last_review_at ::
  "chrono \<Rightarrow> int \<Rightarrow> int \<Rightarrow> string \<Rightarrow> int \<Rightarrow> 'a sync_db_scheme \<Rightarrow>
   (memory_error + unit) \<times> 'a sync_db_scheme" where
  "set_last_review_at T now1 now2 key at =
    transaction MemoryDb (\<lambda>db.
      attempt (ensure_exists T now1 key db) (\<lambda>_ db1.
      attempt
        (execute (update_row key
          (\<lambda>r. r\<lparr>row_last_review_at := Some (rfc3339 T at), row_updated_at := rfc3339 T now2\<rparr>)) db1)
        (\<lambda>_ db2.
      attempt (map_err SyncMeta (increment_sync_version db2)) (\<lambda>_ db3. (Inr (), db3)))))"

definition list_all ::
  "chrono \<Rightarrow> 'a sync_db_scheme \<Rightarrow> (memory_error + machine_memory list) \<times> 'a sync_db_scheme" where
  "list_all T db =
    attempt (map_err MemoryDb (statement db)) (\<lambda>_ db1.
      (memories_from_rows T (filter (\<lambda>r. row_deleted_at r = None) (memory_rows db1)), db1))"

definition list_all_for_sync ::
  "chrono \<Rightarrow> 'a sync_db_scheme \<Rightarrow> (memory_error + machine_memory list) \<times> 'a sync_db_scheme" where
  "list_all_for_sync T db =
    attempt (map_err MemoryDb (statement db)) (\<lambda>_ db1.
      (memories_from_rows T (memory_rows db1), db1))"

definition delete_memory ::
  "chrono \<Rightarrow> int \<Rightarrow> string \<Rightarrow> 'a sync_db_scheme \<Rightarrow> (memory_error + unit) \<times> 'a sync_db_scheme" where
  "delete_memory T utc_now key =
    transaction MemoryDb (\<lambda>db.
      attempt
        (execute (upsert_row (fresh_row key [] (rfc3339 T utc_now) (Some (rfc3339 T utc_now)))
          (\<lambda>r. r\<lparr>row_content := [], row_updated_at := rfc3339 T utc_now,
                row_deleted_at := Some (rfc3339 T utc_now)\<rparr>)) db) (\<lambda>_ db1.
      attempt (map_err SyncMeta (increment_sync_version db1)) (\<lambda>_ db2. (Inr (), db2))))"

definition upsert_from_sync ::
  "chrono \<Rightarrow> int \<Rightarrow> machine_memory \<Rightarrow> 'a sync_db_scheme \<Rightarrow> (memory_error + unit) \<times> 'a sync_db_scheme" where
  "upsert_from_sync T utc_now m =
    execute (upsert_row
      \<lparr>row_machine_key = machine_key m, row_content = truncate_content (mem_content m),
       row_hostname_alias = hostname_alias m, row_ssh_node_id = ssh_node_id m,
       row_last_review_at = map_option (rfc3339 T) (last_review_at m),
       row_created_at = rfc3339 T utc_now, row_updated_at = rfc3339 T (updated_at m),
       row_deleted_at = map_option (rfc3339 T) (deleted_at m)\<rparr>
      (\<lambda>r. r\<lparr>row_content := truncate_content (mem_content m),
            row_hostname_alias := hostname_alias m, row_ssh_node_id := ssh_node_id m,
            row_last_review_at := map_option (rfc3339 T) (last_review_at m),
            row_updated_at := rfc3339 T (updated_at m),
            row_deleted_at := map_option (rfc3339 T) (deleted_at m)\<rparr>))"

section \<open>The merge\<close>

definition compare_machine_memories :: "machine_memory \<Rightarrow> machine_memory \<Rightarrow> ordering" where
  "compare_machine_memories a b =
    then_with (cmp (updated_at a) (updated_at b))
      (then_with (cmp (deleted_at a \<noteq> None) (deleted_at b \<noteq> None))
        (then_with (cmp (deleted_at a) (deleted_at b))
          (then_with (cmp (hostname_alias a) (hostname_alias b))
            (then_with (cmp (ssh_node_id a) (ssh_node_id b))
              (then_with (cmp (last_review_at a) (last_review_at b))
                (cmp (mem_content a) (mem_content b)))))))"

type_synonym memory_map = "(string, machine_memory) btree_map"

definition memories_by_key :: "machine_memory list \<Rightarrow> memory_map" where
  "memories_by_key ms = bt_collect (map (\<lambda>m. (machine_key m, m)) ms)"

definition merge_entry :: "string \<times> machine_memory \<Rightarrow> memory_map \<Rightarrow> memory_map" where
  "merge_entry kr merged =
    (case bt_get merged (fst kr) of
      Some local_memory \<Rightarrow>
        if is_gt (compare_machine_memories (snd kr) local_memory)
        then bt_insert (fst kr) (snd kr) merged else merged
    | None \<Rightarrow> bt_insert (fst kr) (snd kr) merged)"

definition merge_machine_memories ::
  "machine_memory list \<Rightarrow> machine_memory list \<Rightarrow> machine_memory list \<times> apply_outcome" where
  "merge_machine_memories local_list remote_list =
    (let local_by_key = memories_by_key local_list;
         remote_by_key = memories_by_key remote_list;
         merged = fold merge_entry remote_by_key local_by_key
     in (bt_values merged,
         \<lparr>local_changed = (merged \<noteq> local_by_key), needs_upload = (merged \<noteq> remote_by_key)\<rparr>))"

fun upsert_all ::
  "chrono \<Rightarrow> (machine_memory \<Rightarrow> int) \<Rightarrow> machine_memory list \<Rightarrow> 'a sync_db_scheme \<Rightarrow>
   (memory_error + unit) \<times> 'a sync_db_scheme" where
  "upsert_all T clock [] db = (Inr (), db)"
| "upsert_all T clock (m # ms) db =
    attempt (upsert_from_sync T (clock m) m db) (\<lambda>_ db1. upsert_all T clock ms db1)"

definition merge_and_persist_memories ::
  "chrono \<Rightarrow> (machine_memory \<Rightarrow> int) \<Rightarrow> machine_memory list \<Rightarrow> 'a sync_db_scheme \<Rightarrow>
   (memory_error + apply_outcome) \<times> 'a sync_db_scheme" where
  "merge_and_persist_memories T clock remote_list db =
    attempt (list_all_for_sync T db) (\<lambda>local_list db1.
      (case merge_machine_memories local_list remote_list of (merged, outcome) \<Rightarrow>
        if local_changed outcome
        then attempt (upsert_all T clock merged db1) (\<lambda>_ db2. (Inr outcome, db2))
        else (Inr outcome, db1)))"

section \<open>The uploaded form\<close>

record sync_machine_memory =
  sm_machine_key :: string
  sm_content_encrypted :: "string option"
  sm_hostname_alias :: "string option"
  sm_ssh_node_id :: "string option"
  sm_last_review_at :: "string option"
  sm_updated_at :: string
  sm_deleted_at :: "string option"

definition encrypt_memory ::
  "crypto_primitives \<Rightarrow> chrono \<Rightarrow> string \<Rightarrow> bytes \<Rightarrow> machine_memory \<Rightarrow>
   sync_engine_error + sync_machine_memory" where
  "encrypt_memory P T token nonce m =
    (let wire = \<lambda>c. \<lparr>sm_machine_key = machine_key m, sm_content_encrypted = c,
        sm_hostname_alias = hostname_alias m, sm_ssh_node_id = ssh_node_id m,
        sm_last_review_at = map_option (rfc3339 T) (last_review_at m),
        sm_updated_at = rfc3339 T (updated_at m),
        sm_deleted_at = map_option (rfc3339 T) (deleted_at m)\<rparr>
     in if deleted_at m \<noteq> None then Inr (wire None)
        else
          (case encrypt P nonce token (mem_content m) of
            Inl e \<Rightarrow> Inl (Crypto e)
          | Inr c \<Rightarrow> Inr (wire (Some c))))"

text \<open>Every row is sealed under a nonce of its own.\<close>

definition encrypt_machine_memories ::
  "crypto_primitives \<Rightarrow> chrono \<Rightarrow> string \<Rightarrow> (machine_memory \<Rightarrow> bytes) \<Rightarrow> machine_memory list \<Rightarrow>
   sync_engine_error + sync_machine_memory list" where
  "encrypt_machine_memories P T token nonces ms =
    (case collect_results (map (\<lambda>m. encrypt_memory P T token (nonces m) m) ms) of
      Inl e \<Rightarrow> Inl e
    | Inr xs \<Rightarrow> Inr (sort_key sm_machine_key xs))"

definition parse_memory_timestamp ::
  "chrono \<Rightarrow> string \<Rightarrow> string \<Rightarrow> string \<Rightarrow> sync_engine_error + int" where
  "parse_memory_timestamp T column key v =
    (case parse_rfc3339 T v of
      None \<Rightarrow> Inl (Serialization
        (''invalid '' @ column @ '' for machine memory '' @ key @ '': '' @ v))
    | Some t \<Rightarrow> Inr t)"

definition decrypt_content ::
  "crypto_primitives \<Rightarrow> string \<Rightarrow> int option \<Rightarrow> sync_machine_memory \<Rightarrow> sync_engine_error + string" where
  "decrypt_content P token deleted m =
    (case
      (case sm_content_encrypted m of
        Some c \<Rightarrow> (case decrypt P token c of Inl e \<Rightarrow> Inl (Crypto e) | Inr s \<Rightarrow> Inr s)
      | None \<Rightarrow>
          if deleted \<noteq> None then Inr []
          else Inl (Serialization
            (''active machine memory is missing encrypted content: '' @ sm_machine_key m)))
     of
      Inl e \<Rightarrow> Inl e
    | Inr content \<Rightarrow>
        if deleted \<noteq> None then Inr []
        else if length content > MAX_MEMORY_CHARS
        then Inl (Serialization
          (''machine memory exceeds 16000 characters: '' @ sm_machine_key m))
        else Inr content)"

definition decrypt_memory ::
  "crypto_primitives \<Rightarrow> chrono \<Rightarrow> string \<Rightarrow> sync_machine_memory \<Rightarrow> sync_engine_error + machine_memory" where
  "decrypt_memory P T token m =
    (case transpose_opt (parse_memory_timestamp T ''last_review_at'' (sm_machine_key m))
        (sm_last_review_at m) of
      Inl e \<Rightarrow> Inl e
    | Inr review \<Rightarrow>
        (case parse_memory_timestamp T ''updated_at'' (sm_machine_key m) (sm_updated_at m) of
          Inl e \<Rightarrow> Inl e
        | Inr updated \<Rightarrow>
            (case transpose_opt (parse_memory_timestamp T ''deleted_at'' (sm_machine_key m))
                (sm_deleted_at m) of
              Inl e \<Rightarrow> Inl e
            | Inr deleted \<Rightarrow>
                (case decrypt_content P token deleted m of
                  Inl e \<Rightarrow> Inl e
                | Inr content \<Rightarrow>
                    Inr \<lparr>machine_key = sm_machine_key m, mem_content = content,
                      hostname_alias = sm_hostname_alias m, ssh_node_id = sm_ssh_node_id m,
                      last_review_at = review, updated_at = updated, deleted_at = deleted\<rparr>))))"

fun decrypt_rows ::
  "crypto_primitives \<Rightarrow> chrono \<Rightarrow> string \<Rightarrow> string set \<Rightarrow> sync_machine_memory list \<Rightarrow>
   sync_engine_error + machine_memory list" where
  "decrypt_rows P T token seen [] = Inr []"
| "decrypt_rows P T token seen (m # ms) =
    (if sm_machine_key m \<in> seen
     then Inl (Serialization (''duplicate machine memory key: '' @ sm_machine_key m))
     else
       (case decrypt_memory P T token m of
         Inl e \<Rightarrow> Inl e
       | Inr d \<Rightarrow>
           (case decrypt_rows P T token (insert (sm_machine_key m) seen) ms of
             Inl e \<Rightarrow> Inl e
           | Inr ds \<Rightarrow> Inr (d # ds))))"

definition decrypt_machine_memories ::
  "crypto_primitives \<Rightarrow> chrono \<Rightarrow> string \<Rightarrow> sync_machine_memory list \<Rightarrow>
   sync_engine_error + machine_memory list" where
  "decrypt_machine_memories P T token ms =
    (case decrypt_rows P T token {} ms of
      Inl e \<Rightarrow> Inl e
    | Inr ds \<Rightarrow> Inr (sort_key machine_key ds))"

section \<open>The provider's reconciliation\<close>

fun memory_error_text :: "memory_error \<Rightarrow> string" where
  "memory_error_text (MemoryDb e) = ''database error: '' @ e"
| "memory_error_text (SyncMeta e) = ''sync metadata error: '' @ repository_error_text e"
| "memory_error_text (InvalidTimestamp c v) =
    ''invalid RFC3339 timestamp in db column `'' @ c @ ''`: '' @ v"

text \<open>
  \<open>SshSyncProvider::reconcile_data\<close>; \<open>parse\<close> is \<open>serde_json::from_value\<close> at \<open>SshSyncData\<close>,
  of which the reconciliation reads the memories.
\<close>

definition ssh_reconcile_data ::
  "('j \<Rightarrow> string + sync_machine_memory list) \<Rightarrow> crypto_primitives \<Rightarrow> chrono \<Rightarrow>
   (machine_memory \<Rightarrow> int) \<Rightarrow> string \<Rightarrow> 'j \<Rightarrow> 'a sync_db_scheme \<Rightarrow>
   (sync_engine_error + apply_outcome) \<times> 'a sync_db_scheme" where
  "ssh_reconcile_data parse P T clock token data db =
    (case parse data of
      Inl e \<Rightarrow> (Inl (Serialization e), db)
    | Inr wire \<Rightarrow>
        (case decrypt_machine_memories P T token wire of
          Inl e \<Rightarrow> (Inl e, db)
        | Inr remote_list \<Rightarrow>
            map_err Provider
              (with_conn
                (transaction (\<lambda>e. e) (\<lambda>conn.
                  map_err memory_error_text (merge_and_persist_memories T clock remote_list conn)))
                db)))"

end
