(* ===== verification/Memory_Merge.thy ===== *)
theory Memory_Merge imports Machine_Memory "HOL-Library.Multiset" begin

text \<open>
  The merge of two devices' memories as a join: what each key holds after it, and the laws
  that make the devices converge.
\<close>

section \<open>The comparison is a linear order on the fields\<close>

definition memory_rank ::
  "machine_memory \<Rightarrow> int \<times> bool \<times> int option \<times> string option \<times> string option \<times> int option \<times> string" where
  "memory_rank m = (updated_at m, deleted_at m \<noteq> None, deleted_at m, hostname_alias m,
    ssh_node_id m, last_review_at m, mem_content m)"

lemma compare_rank: "compare_machine_memories a b = cmp (memory_rank a) (memory_rank b)"
  by (simp add: compare_machine_memories_def memory_rank_def cmp_pair)

lemma rank_eq: "memory_rank a = memory_rank b \<Longrightarrow> machine_key a = machine_key b \<Longrightarrow> a = b"
  by (cases a; cases b) (simp add: memory_rank_def)

text \<open>What the merge keeps of a local and a remote entry of one key.\<close>

definition join_entry :: "machine_memory option \<Rightarrow> machine_memory option \<Rightarrow> machine_memory option" where
  "join_entry l r =
    (case l of None \<Rightarrow> r
     | Some a \<Rightarrow> (case r of None \<Rightarrow> Some a
         | Some b \<Rightarrow> if is_gt (compare_machine_memories b a) then Some b else Some a))"

definition keyed :: "(string \<Rightarrow> machine_memory option) \<Rightarrow> bool" where
  "keyed f \<longleftrightarrow> (\<forall>k m. f k = Some m \<longrightarrow> machine_key m = k)"

lemma join_entry_rank:
  "join_entry (Some a) (Some b) = (if memory_rank a < memory_rank b then Some b else Some a)"
  by (simp add: join_entry_def is_gt_def compare_rank)

lemma join_entry_None [simp]: "join_entry None x = x" "join_entry x None = x"
  by (simp_all add: join_entry_def split: option.split)

lemma join_entry_idem [simp]: "join_entry x x = x"
  by (cases x) (simp_all add: join_entry_rank)

lemma join_entry_commute: "keyed f \<Longrightarrow> keyed g \<Longrightarrow> join_entry (f k) (g k) = join_entry (g k) (f k)"
  by (cases "f k"; cases "g k") (auto simp: join_entry_rank keyed_def intro: rank_eq)

lemma join_entry_assoc: "join_entry (join_entry x y) z = join_entry x (join_entry y z)"
  by (cases x; cases y; cases z) (auto simp: join_entry_rank)

lemma keyed_join: "keyed f \<Longrightarrow> keyed g \<Longrightarrow> keyed (\<lambda>k. join_entry (f k) (g k))"
  by (auto simp: keyed_def join_entry_def split: option.splits if_splits)

section \<open>The merge on lists\<close>

definition memory_of :: "machine_memory list \<Rightarrow> string \<Rightarrow> machine_memory option" where
  "memory_of ms k = bt_get (memories_by_key ms) k"

lemma memory_of_rev: "memory_of ms k = find (\<lambda>m. machine_key m = k) (rev ms)"
proof -
  have "map_of (map (\<lambda>m. (machine_key m, m)) xs) k = find (\<lambda>m. machine_key m = k) xs" for xs
    by (induction xs) auto
  then show ?thesis
    by (simp add: memory_of_def memories_by_key_def btree.get_collect rev_map)
qed

lemma memories_by_key_sorted [simp]: "bt_sorted (memories_by_key ms)"
  by (simp add: memories_by_key_def btree.valid_collect)

lemma keyed_memory_of [simp]: "keyed (memory_of ms)"
  by (auto simp: keyed_def memory_of_rev find_Some_iff)

lemma merge_entry_get:
  assumes "bt_sorted m"
  shows "bt_sorted (merge_entry (k, r) m)"
    and "bt_get (merge_entry (k, r) m) k' = (if k' = k then join_entry (bt_get m k) (Some r) else bt_get m k')"
  using assms by (auto simp: merge_entry_def join_entry_def btree.get_insert btree.valid_insert
      split: option.splits)

lemma fold_merge_entry:
  assumes "bt_sorted m" and "distinct (map fst rs)"
  shows "bt_sorted (fold merge_entry rs m) \<and>
    bt_get (fold merge_entry rs m) k = join_entry (bt_get m k) (map_of rs k)"
  using assms
proof (induction rs arbitrary: m)
  case (Cons kr rs)
  obtain k' r where kr: "kr = (k', r)" by fastforce
  have "k = k' \<Longrightarrow> map_of rs k = None"
    using Cons.prems(2) kr by (simp add: map_of_eq_None_iff)
  then show ?case
    using Cons.IH [of "merge_entry kr m"] Cons.prems merge_entry_get [OF Cons.prems(1), of k' r] kr
    by auto
qed simp

definition merged_map :: "machine_memory list \<Rightarrow> machine_memory list \<Rightarrow> memory_map" where
  "merged_map l r = fold merge_entry (memories_by_key r) (memories_by_key l)"

lemma merged_map_get:
  "bt_sorted (merged_map l r)"
  "bt_get (merged_map l r) k = join_entry (memory_of l k) (memory_of r k)"
  using fold_merge_entry [OF memories_by_key_sorted bt_sorted_distinct [OF memories_by_key_sorted]]
  by (simp_all add: merged_map_def memory_of_def bt_get_def)

lemma merge_machine_memories_eq:
  "merge_machine_memories l r = (bt_values (merged_map l r),
    \<lparr>local_changed = merged_map l r \<noteq> memories_by_key l,
     needs_upload = merged_map l r \<noteq> memories_by_key r\<rparr>)"
  by (simp add: merge_machine_memories_def merged_map_def Let_def)

lemma memories_by_key_values:
  assumes "bt_sorted m" and "keyed (bt_get m)"
  shows "memories_by_key (bt_values m) = m"
proof -
  have "machine_key v = k" if "(k, v) \<in> set m" for k v
    using that assms by (auto simp: keyed_def btree.entries_get)
  then have "map (\<lambda>x. (machine_key x, x)) (bt_values m) = m"
    by (auto simp: bt_values_def intro!: map_idI)
  then show ?thesis
    using btree.collect_entries [OF assms(1) bt_sorted_distinct [OF assms(1)]]
    by (simp add: memories_by_key_def)
qed

lemma merged_map_keyed: "keyed (bt_get (merged_map l r))"
proof -
  have "bt_get (merged_map l r) = (\<lambda>k. join_entry (memory_of l k) (memory_of r k))"
    by (rule ext) (rule merged_map_get)
  then show ?thesis by (simp add: keyed_join)
qed

lemma memory_of_merge [simp]:
  "memory_of (fst (merge_machine_memories l r)) k = join_entry (memory_of l k) (memory_of r k)"
  unfolding merge_machine_memories_eq fst_conv memory_of_def [of "bt_values _"]
    memories_by_key_values [OF merged_map_get(1) merged_map_keyed] merged_map_get(2) ..

text \<open>The merged list is determined by what it holds for each key.\<close>

lemma merge_eqI:
  assumes "\<And>k. join_entry (memory_of a k) (memory_of b k) = join_entry (memory_of c k) (memory_of d k)"
  shows "fst (merge_machine_memories a b) = fst (merge_machine_memories c d)"
proof -
  have "merged_map a b = merged_map c d"
    using assms by (intro bt_extensional merged_map_get(1) ext) (simp add: merged_map_get(2))
  then show ?thesis by (simp add: merge_machine_memories_eq)
qed

lemma merge_commute: "fst (merge_machine_memories a b) = fst (merge_machine_memories b a)"
  by (rule merge_eqI) (simp add: join_entry_commute)

lemma merge_assoc:
  "fst (merge_machine_memories (fst (merge_machine_memories a b)) c) =
   fst (merge_machine_memories a (fst (merge_machine_memories b c)))"
  by (rule merge_eqI) (simp add: join_entry_assoc)

lemma merge_left_commute:
  "fst (merge_machine_memories (fst (merge_machine_memories m a)) b) =
   fst (merge_machine_memories (fst (merge_machine_memories m b)) a)"
  by (metis merge_assoc merge_commute)

lemma merge_flags:
  "local_changed (snd (merge_machine_memories l r)) \<longleftrightarrow>
    (\<exists>k. join_entry (memory_of l k) (memory_of r k) \<noteq> memory_of l k)"
  "needs_upload (snd (merge_machine_memories l r)) \<longleftrightarrow>
    (\<exists>k. join_entry (memory_of l k) (memory_of r k) \<noteq> memory_of r k)"
proof -
  have "merged_map l r \<noteq> memories_by_key x \<longleftrightarrow>
      (\<exists>k. join_entry (memory_of l k) (memory_of r k) \<noteq> memory_of x k)" for x
  proof -
    have "merged_map l r = memories_by_key x \<longleftrightarrow> bt_get (merged_map l r) = bt_get (memories_by_key x)"
      using bt_extensional [OF merged_map_get(1) memories_by_key_sorted, of l r x] by auto
    then show ?thesis by (auto simp: fun_eq_iff merged_map_get(2) memory_of_def)
  qed
  then show "local_changed (snd (merge_machine_memories l r)) \<longleftrightarrow>
      (\<exists>k. join_entry (memory_of l k) (memory_of r k) \<noteq> memory_of l k)"
    "needs_upload (snd (merge_machine_memories l r)) \<longleftrightarrow>
      (\<exists>k. join_entry (memory_of l k) (memory_of r k) \<noteq> memory_of r k)"
    by (simp_all add: merge_machine_memories_eq)
qed

text \<open>A device that takes in the states of others, one after the other.\<close>

definition merge_states :: "machine_memory list list \<Rightarrow> machine_memory list \<Rightarrow> machine_memory list" where
  "merge_states states start = fold (\<lambda>r m. fst (merge_machine_memories m r)) states start"

lemma merge_states_order:
  "mset xs = mset ys \<Longrightarrow> merge_states xs start = merge_states ys start"
  unfolding merge_states_def
  by (rule fold_multiset_equiv [THEN fun_cong]) (auto simp: merge_left_commute)

end
