(* ===== verification/Memory_Store.thy ===== *)
theory Memory_Store imports Memory_Merge begin

text \<open>
  What the memory repository does to the table: its rows as a map from machine keys to
  memories, the local writes (atomic, each raising the sync version), and the merge of a
  remote list into the table.  Then the encrypted form, which decrypts to what was
  encrypted.
\<close>

section \<open>The table as a map\<close>

definition row_of :: "memory_row list \<Rightarrow> string \<Rightarrow> memory_row option" where
  "row_of rows k = find (\<lambda>r. row_machine_key r = k) rows"

definition memory_at :: "chrono \<Rightarrow> memory_row list \<Rightarrow> string \<Rightarrow> machine_memory option" where
  "memory_at T rows k =
    (case row_of rows k of
      None \<Rightarrow> None
    | Some r \<Rightarrow> (case memory_from_row T r of Inl e \<Rightarrow> None | Inr m \<Rightarrow> Some m))"

definition rows_ok :: "chrono \<Rightarrow> memory_row list \<Rightarrow> bool" where
  "rows_ok T rows \<longleftrightarrow>
    distinct (map row_machine_key rows) \<and>
    (\<forall>r \<in> set rows. \<exists>m. memory_from_row T r = Inr m)"

lemma row_of_upsert:
  assumes "\<And>r. row_machine_key (upd r) = row_machine_key r"
  shows "row_of (upsert_row new upd rows) k =
    (if k = row_machine_key new
     then Some (case row_of rows k of None \<Rightarrow> new | Some r \<Rightarrow> upd r) else row_of rows k)"
  using assms by (induction new upd rows rule: upsert_row.induct) (auto simp: row_of_def)

lemma keys_upsert:
  assumes "\<And>r. row_machine_key (upd r) = row_machine_key r"
  shows "map row_machine_key (upsert_row new upd rows) =
    (if row_machine_key new \<in> row_machine_key ` set rows then map row_machine_key rows
     else map row_machine_key rows @ [row_machine_key new])"
  using assms by (induction new upd rows rule: upsert_row.induct) auto

lemma set_upsert:
  "set (upsert_row new upd rows) \<subseteq> insert new (upd ` set rows \<union> set rows)"
  by (induction new upd rows rule: upsert_row.induct) auto

lemma row_of_update:
  assumes "\<And>r. row_machine_key (upd r) = row_machine_key r"
  shows "row_of (update_row key upd rows) k =
    (if k = key then map_option upd (row_of rows k) else row_of rows k)"
  using assms by (induction rows) (auto simp: row_of_def update_row_def)

lemma row_of_Some: "row_of rows k = Some r \<Longrightarrow> r \<in> set rows \<and> row_machine_key r = k"
  by (auto simp: row_of_def find_Some_iff)

lemma row_of_distinct:
  "distinct (map row_machine_key rows) \<Longrightarrow> r \<in> set rows \<Longrightarrow> row_of rows (row_machine_key r) = Some r"
  by (induction rows) (auto simp: row_of_def image_iff)

lemma memory_from_row_key: "memory_from_row T r = Inr m \<Longrightarrow> machine_key m = row_machine_key r"
  by (auto simp: memory_from_row_def split: sum.splits)

section \<open>Reading the table\<close>

lemma find_unique:
  assumes "distinct (map f xs)" "distinct (map f ys)" "set xs = set ys"
  shows "find (\<lambda>x. f x = k) xs = find (\<lambda>x. f x = k) ys"
proof -
  have get: "find (\<lambda>x. f x = k) zs = Some z \<longleftrightarrow> z \<in> set zs \<and> f z = k" if "distinct (map f zs)" for zs z
    using that by (induction zs) (auto simp: image_iff)
  have "find (\<lambda>x. f x = k) xs = Some z \<longleftrightarrow> find (\<lambda>x. f x = k) ys = Some z" for z
    using get [OF assms(1)] get [OF assms(2)] assms(3) by simp
  then show ?thesis by (metis not_None_eq)
qed

lemma memory_of_find:
  assumes "distinct (map machine_key ms)"
  shows "memory_of ms k = find (\<lambda>m. machine_key m = k) ms"
  unfolding memory_of_rev using assms by (intro find_unique) (simp_all add: rev_map [symmetric])

lemma memories_from_rows_ok:
  assumes "rows_ok T rows"
  obtains ms where "memories_from_rows T rows = Inr ms" "memory_of ms = memory_at T rows"
    "distinct (map machine_key ms)"
proof -
  obtain ys where ys: "collect_results (map (memory_from_row T) rows) = Inr ys"
    "list_all2 (\<lambda>r m. memory_from_row T r = Inr m) rows ys"
    using collect_results_Inr [of rows "memory_from_row T"] assms by (auto simp: rows_ok_def)
  let ?ms = "sort_key (\<lambda>m. - updated_at m) ys"
  have keys: "map machine_key ys = map row_machine_key rows"
    using ys(2) by (induction rule: list_all2_induct) (auto simp: memory_from_row_key)
  have d: "distinct (map machine_key ys)" using keys assms by (simp add: rows_ok_def)
  have d2: "distinct (map machine_key ?ms)"
    using d by (metis mset_map mset_eq_imp_distinct_iff mset_sort)
  have "find (\<lambda>m. machine_key m = k) ys = memory_at T rows k" for k
    using ys(2) by (induction rule: list_all2_induct)
      (auto simp: memory_at_def row_of_def memory_from_row_key)
  then have "memory_of ?ms k = memory_at T rows k" for k
    using memory_of_find [OF d2] find_unique [OF d2 d] by simp
  then show thesis using that [of ?ms] ys(1) d2 by (auto simp: memories_from_rows_def)
qed

section \<open>Writing the merge back\<close>

definition stored_form :: "machine_memory \<Rightarrow> machine_memory" where
  "stored_form m = m\<lparr>mem_content := truncate_content (mem_content m)\<rparr>"

lemma transpose_opt_parse:
  "chrono_ok T \<Longrightarrow> transpose_opt (parse_timestamp T c) (map_option (rfc3339 T) x) = Inr x"
  by (cases x) (simp_all add: transpose_opt_def parse_timestamp_def chrono_ok_def)

lemma statement_result:
  "statement db = (r, db') \<Longrightarrow> same_tables db db'"
  using statement_tables [of db] by simp

lemma execute_result:
  assumes "execute f db = (r, db')"
  shows "sync_meta db' = sync_meta db" "sync_db.more db' = sync_db.more db"
    "r = Inr () \<Longrightarrow> memory_rows db' = f (memory_rows db)"
    "r = Inl e \<Longrightarrow> memory_rows db' = memory_rows db"
proof -
  obtain x db1 where st: "statement db = (x, db1)" by fastforce
  show "sync_meta db' = sync_meta db" "sync_db.more db' = sync_db.more db"
    "r = Inr () \<Longrightarrow> memory_rows db' = f (memory_rows db)"
    "r = Inl e \<Longrightarrow> memory_rows db' = memory_rows db"
    using assms st statement_result [OF st]
    by (cases x; auto simp: execute_def same_tables_def db_content_def)+
qed

lemma upsert_from_sync_result:
  assumes T: "chrono_ok T" and rows: "rows_ok T (memory_rows db)"
    and run: "upsert_from_sync T now m db = (Inr (), db')"
  shows "rows_ok T (memory_rows db')"
    and "memory_at T (memory_rows db') =
      (memory_at T (memory_rows db))(machine_key m \<mapsto> stored_form m)"
proof -
  let ?new = "\<lparr>row_machine_key = machine_key m, row_content = truncate_content (mem_content m),
       row_hostname_alias = hostname_alias m, row_ssh_node_id = ssh_node_id m,
       row_last_review_at = map_option (rfc3339 T) (last_review_at m),
       row_created_at = rfc3339 T now, row_updated_at = rfc3339 T (updated_at m),
       row_deleted_at = map_option (rfc3339 T) (deleted_at m)\<rparr>"
  let ?upd = "\<lambda>r. r\<lparr>row_content := truncate_content (mem_content m),
            row_hostname_alias := hostname_alias m, row_ssh_node_id := ssh_node_id m,
            row_last_review_at := map_option (rfc3339 T) (last_review_at m),
            row_updated_at := rfc3339 T (updated_at m),
            row_deleted_at := map_option (rfc3339 T) (deleted_at m)\<rparr>"
  have rows': "memory_rows db' = upsert_row ?new ?upd (memory_rows db)"
    using execute_result(3) run by (auto simp: upsert_from_sync_def)
  have parse: "parse_timestamp T c (rfc3339 T t) = Inr t" for c t
    using T by (simp add: parse_timestamp_def chrono_ok_def)
  have new: "memory_from_row T ?new = Inr (stored_form m)"
    using T by (simp add: memory_from_row_def transpose_opt_parse parse stored_form_def)
  have upd: "memory_from_row T (?upd r) = Inr (stored_form m)" if "row_machine_key r = machine_key m" for r
    using T that by (simp add: memory_from_row_def transpose_opt_parse parse stored_form_def)
  have upd_ok: "\<exists>x. memory_from_row T (?upd r) = Inr x" for r
    using T by (simp add: memory_from_row_def transpose_opt_parse parse)
  show "rows_ok T (memory_rows db')"
    unfolding rows_ok_def
  proof (intro conjI ballI)
    show "distinct (map row_machine_key (memory_rows db'))"
      using rows unfolding rows' rows_ok_def by (subst keys_upsert) auto
    fix r assume "r \<in> set (memory_rows db')"
    then have "r \<in> insert ?new (?upd ` set (memory_rows db) \<union> set (memory_rows db))"
      unfolding rows' by (rule subsetD [OF set_upsert])
    then show "\<exists>x. memory_from_row T r = Inr x"
    proof (elim insertE UnE imageE)
      show "r = ?new \<Longrightarrow> ?thesis" using new by blast
      show "r \<in> set (memory_rows db) \<Longrightarrow> ?thesis" using rows unfolding rows_ok_def by blast
      show "r = ?upd r' \<Longrightarrow> ?thesis" for r' using upd_ok [of r'] by simp
    qed
  qed
  show "memory_at T (memory_rows db') = (memory_at T (memory_rows db))(machine_key m \<mapsto> stored_form m)"
  proof
    fix k
    show "memory_at T (memory_rows db') k =
        ((memory_at T (memory_rows db))(machine_key m \<mapsto> stored_form m)) k"
      unfolding memory_at_def rows'
      using row_of_upsert [of ?upd ?new "memory_rows db" k] new upd row_of_Some [of "memory_rows db"]
      by (auto split: option.splits)
  qed
qed

lemma upsert_all_result:
  assumes T: "chrono_ok T"
  shows "rows_ok T (memory_rows db) \<Longrightarrow> distinct (map machine_key ms) \<Longrightarrow>
    upsert_all T clock ms db = (Inr (), db') \<Longrightarrow>
    rows_ok T (memory_rows db') \<and> sync_meta db' = sync_meta db \<and>
    (\<forall>k. memory_at T (memory_rows db') k =
      (case find (\<lambda>m. machine_key m = k) ms of
        Some m \<Rightarrow> Some (stored_form m) | None \<Rightarrow> memory_at T (memory_rows db) k))"
proof (induction ms arbitrary: db)
  case (Cons m ms)
  obtain db1 where up: "upsert_from_sync T (clock m) m db = (Inr (), db1)"
    and more: "upsert_all T clock ms db1 = (Inr (), db')"
    using Cons.prems(3) by (auto simp: attempt_eq_Inr)
  note one = upsert_from_sync_result [OF T Cons.prems(1) up]
  have meta: "sync_meta db1 = sync_meta db"
    using execute_result(1) up by (auto simp: upsert_from_sync_def)
  have absent: "find (\<lambda>m'. machine_key m' = machine_key m) ms = None"
    using Cons.prems(2) by (auto simp: find_None_iff image_iff)
  show ?case
    using Cons.IH [OF one(1) _ more] Cons.prems(2) one(2) meta absent
    by (auto split: option.splits)
qed auto

lemma list_for_sync_result:
  assumes "rows_ok T (memory_rows db)" and "list_all_for_sync T db = (Inr ms, db')"
  shows "same_tables db db'" "memory_of ms = memory_at T (memory_rows db)" "distinct (map machine_key ms)"
proof -
  obtain db1 where st: "statement db = (Inr (), db1)"
    and ms: "memories_from_rows T (memory_rows db1) = Inr ms" "db' = db1"
    using assms(2) by (auto simp: list_all_for_sync_def attempt_eq_Inr)
  show tables: "same_tables db db'" using statement_result [OF st] ms by simp
  then have "memory_rows db1 = memory_rows db" using ms by (simp add: same_tables_def db_content_def)
  then show "memory_of ms = memory_at T (memory_rows db)" "distinct (map machine_key ms)"
    using memories_from_rows_ok [OF assms(1)] ms(1) by (metis Inr_inject)+
qed

lemma distinct_merged: "distinct (map machine_key (fst (merge_machine_memories l r)))"
proof -
  have "machine_key v = k" if "(k, v) \<in> set (merged_map l r)" for k v
    using that merged_map_keyed [of l r] by (auto simp: keyed_def btree.entries_get [OF merged_map_get(1)])
  then have "map (\<lambda>x. machine_key (snd x)) (merged_map l r) = map fst (merged_map l r)"
    by (intro map_cong) auto
  then show ?thesis
    using bt_sorted_distinct [OF merged_map_get(1), of l r]
    by (simp add: merge_machine_memories_eq bt_values_def o_def del: map_eq_conv)
qed

definition short_memories :: "(string \<Rightarrow> machine_memory option) \<Rightarrow> bool" where
  "short_memories f \<longleftrightarrow> (\<forall>k m. f k = Some m \<longrightarrow> length (mem_content m) \<le> MAX_MEMORY_CHARS)"

lemma stored_form_short: "length (mem_content m) \<le> MAX_MEMORY_CHARS \<Longrightarrow> stored_form m = m"
  by (simp add: stored_form_def truncate_content_def)

lemma merge_and_persist_result:
  assumes T: "chrono_ok T" and rows: "rows_ok T (memory_rows db)"
    and short: "short_memories (memory_at T (memory_rows db))" "short_memories (memory_of remote_list)"
    and run: "merge_and_persist_memories T clock remote_list db = (Inr outcome, db')"
  shows "rows_ok T (memory_rows db')" and "sync_meta db' = sync_meta db"
    and "memory_at T (memory_rows db') k =
      join_entry (memory_at T (memory_rows db) k) (memory_of remote_list k)"
    and "local_changed outcome \<longleftrightarrow> memory_at T (memory_rows db') \<noteq> memory_at T (memory_rows db)"
    and "needs_upload outcome \<longleftrightarrow> memory_at T (memory_rows db') \<noteq> memory_of remote_list"
proof -
  let ?join = "\<lambda>k. join_entry (memory_at T (memory_rows db) k) (memory_of remote_list k)"
  obtain ms db1 where ls: "list_all_for_sync T db = (Inr ms, db1)"
    using run by (auto simp: merge_and_persist_memories_def attempt_eq_Inr)
  note l = list_for_sync_result [OF rows ls]
  have same: "memory_rows db1 = memory_rows db" "sync_meta db1 = sync_meta db"
    using l(1) by (simp_all add: same_tables_def db_content_def)
  obtain merged where mm: "merge_machine_memories ms remote_list = (merged, outcome)"
    and rest: "(if local_changed outcome
        then attempt (upsert_all T clock merged db1) (\<lambda>_ db2. (Inr outcome, db2))
        else (Inr outcome, db1)) = (Inr outcome, db')"
    using run ls
    by (cases "merge_machine_memories ms remote_list")
       (auto simp: merge_and_persist_memories_def attempt_eq_Inr split: if_splits)
  have merged: "find (\<lambda>m. machine_key m = k) merged = ?join k" for k
    using memory_of_merge [of ms remote_list k] memory_of_find distinct_merged [of ms remote_list] mm l(2)
    by (metis fst_conv)
  have flags: "local_changed outcome \<longleftrightarrow> (\<exists>k. ?join k \<noteq> memory_at T (memory_rows db) k)"
    "needs_upload outcome \<longleftrightarrow> (\<exists>k. ?join k \<noteq> memory_of remote_list k)"
    using merge_flags [of ms remote_list] mm l(2) by simp_all
  have "rows_ok T (memory_rows db') \<and> sync_meta db' = sync_meta db \<and>
      (\<forall>k. memory_at T (memory_rows db') k = ?join k)"
  proof (cases "local_changed outcome")
    case False
    then show ?thesis using rest same rows flags by auto
  next
    case True
    then have up: "upsert_all T clock merged db1 = (Inr (), db')"
      using rest by (auto simp: attempt_eq_Inr)
    have fits: "find (\<lambda>m. machine_key m = k) merged = Some m \<Longrightarrow> stored_form m = m" for k m
      using short stored_form_short unfolding merged short_memories_def join_entry_def
      by (auto split: option.splits if_splits)
    have gone: "find (\<lambda>m. machine_key m = k) merged = None \<Longrightarrow> memory_at T (memory_rows db) k = None" for k
      unfolding merged by (auto simp: join_entry_def split: option.splits if_splits)
    have d: "distinct (map machine_key merged)" using distinct_merged [of ms remote_list] mm by simp
    note u = upsert_all_result [OF T _ d up]
    show ?thesis
      using u rows same fits gone merged by (auto split: option.splits)
  qed
  then show "rows_ok T (memory_rows db')" "sync_meta db' = sync_meta db"
    "memory_at T (memory_rows db') k = ?join k"
    "local_changed outcome \<longleftrightarrow> memory_at T (memory_rows db') \<noteq> memory_at T (memory_rows db)"
    "needs_upload outcome \<longleftrightarrow> memory_at T (memory_rows db') \<noteq> memory_of remote_list"
    using flags by (auto simp: fun_eq_iff)
qed

section \<open>Local writes\<close>

definition bump :: "'a sync_db_scheme \<Rightarrow> (memory_error + unit) \<times> 'a sync_db_scheme" where
  "bump db = attempt (map_err SyncMeta (increment_sync_version db)) (\<lambda>_ db1. (Inr (), db1))"

lemma bump_result:
  assumes "bump db = (r, db')"
  shows "db_content db' = db_content db" and "r = Inr () \<Longrightarrow> db_version db' = db_version db + 1"
proof -
  obtain x where inc: "increment_sync_version db = (x, db')" and x: "r = Inr () \<Longrightarrow> \<exists>v. x = Inr v"
    using assms unfolding bump_def by (cases rule: attemptE) (auto simp: map_err_eq_Inl)
  show "db_content db' = db_content db" by (rule increment_result(1) [OF inc])
  show "r = Inr () \<Longrightarrow> db_version db' = db_version db + 1" using increment_result(2) [OF inc] x by auto
qed

text \<open>Any sequence of row changes that ends with a bump, in one transaction.\<close>

lemma write_transaction:
  assumes body: "\<And>db1 r db2. body db1 = (r, db2) \<Longrightarrow> sync_db.more db2 = sync_db.more db1"
    and effect: "\<And>db1 db2. body db1 = (Inr (), db2) \<Longrightarrow>
      db_version db2 = db_version db1 + 1 \<and> memory_rows db2 = f (memory_rows db1)"
    and run: "transaction MemoryDb body db = (r, db')"
  shows "r = Inl e \<Longrightarrow> same_tables db db'"
    and "r = Inr () \<Longrightarrow> db_version db' = db_version db + 1 \<and> memory_rows db' = f (memory_rows db)"
proof -
  have "(\<forall>e. r = Inl e \<longrightarrow> same_tables db db') \<and>
      (r = Inr () \<longrightarrow> db_version db' = db_version db + 1 \<and> memory_rows db' = f (memory_rows db))"
  proof (rule transaction_cases [of body MemoryDb db, OF body])
    show "body db1 = (r, db2) \<Longrightarrow> body db1 = (r, db2)" for db1 r db2 .
  next
    fix e db1
    assume "transaction MemoryDb body db = (Inl e, db1)" "same_tables db db1"
    then show ?thesis using run by simp
  next
    fix db1 x db2 db3
    assume c: "same_tables db db1" "body db1 = (Inr x, db2)" "same_tables db2 db3"
      "transaction MemoryDb body db = (Inr x, db3)"
    have "memory_rows db1 = memory_rows db" "memory_rows db3 = memory_rows db2"
      using c(1,3) by (simp_all add: same_tables_def db_content_def)
    then show ?thesis
      using effect [of db1 db2] c run same_tables_version [OF c(1)] same_tables_version [OF c(3)] by simp
  qed
  then show "r = Inl e \<Longrightarrow> same_tables db db'"
    "r = Inr () \<Longrightarrow> db_version db' = db_version db + 1 \<and> memory_rows db' = f (memory_rows db)" by blast+
qed

lemma execute_bump:
  assumes "attempt (execute f db) (\<lambda>_ db1. bump db1) = (r, db')"
  shows "sync_db.more db' = sync_db.more db"
    and "r = Inr () \<Longrightarrow> db_version db' = db_version db + 1 \<and> memory_rows db' = f (memory_rows db)"
  using assms
proof (atomize (full), cases rule: attemptE)
  case (fails e)
  then show "sync_db.more db' = sync_db.more db \<and> (r = Inr () \<longrightarrow> db_version db' = db_version db + 1 \<and>
      memory_rows db' = f (memory_rows db))"
    using execute_result(2) [OF fails(1)] by simp
next
  case (goes u db1)
  then show "sync_db.more db' = sync_db.more db \<and> (r = Inr () \<longrightarrow> db_version db' = db_version db + 1 \<and>
      memory_rows db' = f (memory_rows db))"
    using execute_result(1,2,3) [of f db "Inr u" db1] bump_result [of db1 r db']
    by (simp add: db_content_def db_version_def)
qed

lemma write_one:
  fixes db :: "'a sync_db_scheme"
  assumes "transaction MemoryDb (\<lambda>db. attempt (execute f db) (\<lambda>_ db1. bump db1)) db = (r, db')"
  shows "r = Inl e \<Longrightarrow> same_tables db db'"
    and "r = Inr () \<Longrightarrow> db_version db' = db_version db + 1 \<and> memory_rows db' = f (memory_rows db)"
proof -
  have more: "sync_db.more db2 = sync_db.more db1"
    if "attempt (execute f db1) (\<lambda>_ d1. bump d1) = (r, db2)" for db1 r and db2 :: "'a sync_db_scheme"
    by (rule execute_bump(1) [OF that])
  have effect: "db_version db2 = db_version db1 + 1 \<and> memory_rows db2 = f (memory_rows db1)"
    if "attempt (execute f db1) (\<lambda>_ d1. bump d1) = (Inr (), db2)" for db1 and db2 :: "'a sync_db_scheme"
    by (rule execute_bump(2) [OF that refl])
  show "r = Inl e \<Longrightarrow> same_tables db db'"
    by (rule write_transaction(1) [OF _ _ assms]) (rule more, assumption, rule effect)
  show "r = Inr () \<Longrightarrow> db_version db' = db_version db + 1 \<and> memory_rows db' = f (memory_rows db)"
    by (rule write_transaction(2) [OF _ _ assms]) (rule more, assumption, rule effect)
qed

lemma upsert_content_result:
  assumes "upsert_content T now key content db = (r, db')"
  shows "r = Inl e \<Longrightarrow> same_tables db db'"
    and "r = Inr () \<Longrightarrow> db_version db' = db_version db + 1 \<and>
      memory_rows db' = upsert_row (fresh_row key (truncate_content content) (rfc3339 T now) None)
        (\<lambda>r. r\<lparr>row_content := truncate_content content, row_updated_at := rfc3339 T now,
              row_deleted_at := None\<rparr>) (memory_rows db)"
  using write_one [OF assms [unfolded upsert_content_def bump_def [symmetric]]] by simp_all

lemma delete_memory_result:
  assumes "delete_memory T now key db = (r, db')"
  shows "r = Inl e \<Longrightarrow> same_tables db db'"
    and "r = Inr () \<Longrightarrow> db_version db' = db_version db + 1 \<and>
      memory_rows db' = upsert_row (fresh_row key [] (rfc3339 T now) (Some (rfc3339 T now)))
        (\<lambda>r. r\<lparr>row_content := [], row_updated_at := rfc3339 T now,
              row_deleted_at := Some (rfc3339 T now)\<rparr>) (memory_rows db)"
  using write_one [OF assms [unfolded delete_memory_def bump_def [symmetric]]] by simp_all

lemma execute_execute_bump:
  assumes "attempt (execute f db) (\<lambda>_ db1. attempt (execute g db1) (\<lambda>_ db2. bump db2)) = (r, db')"
  shows "sync_db.more db' = sync_db.more db"
    and "r = Inr () \<Longrightarrow> db_version db' = db_version db + 1 \<and> memory_rows db' = g (f (memory_rows db))"
  using assms
proof (atomize (full), cases rule: attemptE)
  case (fails e)
  then show "sync_db.more db' = sync_db.more db \<and> (r = Inr () \<longrightarrow> db_version db' = db_version db + 1 \<and>
      memory_rows db' = g (f (memory_rows db)))"
    using execute_result(2) [OF fails(1)] by simp
next
  case (goes u db1)
  then show "sync_db.more db' = sync_db.more db \<and> (r = Inr () \<longrightarrow> db_version db' = db_version db + 1 \<and>
      memory_rows db' = g (f (memory_rows db)))"
    using execute_result(1,2,3) [of f db "Inr u" db1] execute_bump [OF goes(2)]
    by (simp add: db_version_def)
qed

lemma write_two:
  fixes db :: "'a sync_db_scheme"
  assumes "transaction MemoryDb (\<lambda>db. attempt (execute f db) (\<lambda>_ db1.
    attempt (execute g db1) (\<lambda>_ db2. bump db2))) db = (r, db')"
  shows "r = Inl e \<Longrightarrow> same_tables db db'"
    and "r = Inr () \<Longrightarrow> db_version db' = db_version db + 1 \<and> memory_rows db' = g (f (memory_rows db))"
proof -
  have more: "sync_db.more db2 = sync_db.more db1"
    if "attempt (execute f db1) (\<lambda>_ d1. attempt (execute g d1) (\<lambda>_ d2. bump d2)) = (r, db2)" for db1 r and db2 :: "'a sync_db_scheme"
    by (rule execute_execute_bump(1) [OF that])
  have effect: "db_version db2 = db_version db1 + 1 \<and> memory_rows db2 = g (f (memory_rows db1))"
    if "attempt (execute f db1) (\<lambda>_ d1. attempt (execute g d1) (\<lambda>_ d2. bump d2)) = (Inr (), db2)" for db1 and db2 :: "'a sync_db_scheme"
    by (rule execute_execute_bump(2) [OF that refl])
  show "r = Inl e \<Longrightarrow> same_tables db db'"
    by (rule write_transaction(1) [OF _ _ assms]) (rule more, assumption, rule effect)
  show "r = Inr () \<Longrightarrow> db_version db' = db_version db + 1 \<and> memory_rows db' = g (f (memory_rows db))"
    by (rule write_transaction(2) [OF _ _ assms]) (rule more, assumption, rule effect)
qed

lemma set_hostname_alias_result:
  assumes "set_hostname_alias T now1 now2 key alias db = (r, db')"
  shows "r = Inl e \<Longrightarrow> same_tables db db'"
    and "r = Inr () \<Longrightarrow> db_version db' = db_version db + 1 \<and>
      memory_rows db' = update_row key
        (\<lambda>r. r\<lparr>row_hostname_alias := Some alias, row_updated_at := rfc3339 T now2\<rparr>)
        (upsert_row (fresh_row key [] (rfc3339 T now1) None) (\<lambda>r. r) (memory_rows db))"
  using write_two [OF assms [unfolded set_hostname_alias_def ensure_exists_def bump_def [symmetric]]] by simp_all

lemma set_last_review_at_result:
  assumes "set_last_review_at T now1 now2 key at db = (r, db')"
  shows "r = Inl e \<Longrightarrow> same_tables db db'"
    and "r = Inr () \<Longrightarrow> db_version db' = db_version db + 1 \<and>
      memory_rows db' = update_row key
        (\<lambda>r. r\<lparr>row_last_review_at := Some (rfc3339 T at), row_updated_at := rfc3339 T now2\<rparr>)
        (upsert_row (fresh_row key [] (rfc3339 T now1) None) (\<lambda>r. r) (memory_rows db))"
  using write_two [OF assms [unfolded set_last_review_at_def ensure_exists_def bump_def [symmetric]]] by simp_all

text \<open>A stored note is read back, cut at the limit, alive and stamped with the time of the write.\<close>

lemma upsert_content_stored:
  assumes T: "chrono_ok T" and rows: "rows_ok T (memory_rows db)"
    and run: "upsert_content T now key content db = (Inr (), db')"
  shows "\<exists>m. memory_at T (memory_rows db') key = Some m \<and> mem_content m = truncate_content content \<and>
      updated_at m = now \<and> deleted_at m = None \<and>
      (\<forall>k. k \<noteq> key \<longrightarrow> memory_at T (memory_rows db') k = memory_at T (memory_rows db) k)"
proof -
  let ?upd = "\<lambda>r. r\<lparr>row_content := truncate_content content, row_updated_at := rfc3339 T now,
              row_deleted_at := None\<rparr>"
  have rows': "memory_rows db' =
      upsert_row (fresh_row key (truncate_content content) (rfc3339 T now) None) ?upd (memory_rows db)"
    using upsert_content_result(2) [OF run] by simp
  have parse: "parse_timestamp T c (rfc3339 T t) = Inr t" for c t
    using T by (simp add: parse_timestamp_def chrono_ok_def)
  have other: "memory_at T (memory_rows db') k = memory_at T (memory_rows db) k" if "k \<noteq> key" for k
    using that unfolding memory_at_def rows' by (subst row_of_upsert) (simp_all add: fresh_row_def)
  show ?thesis
  proof (cases "row_of (memory_rows db) key")
    case None
    then show ?thesis using other
      unfolding memory_at_def rows'
      by (subst row_of_upsert) (simp_all add: fresh_row_def memory_from_row_def transpose_opt_def parse)
  next
    case (Some r)
    then obtain m where "memory_from_row T r = Inr m"
      using rows row_of_Some by (fastforce simp: rows_ok_def)
    then obtain review where "transpose_opt (parse_timestamp T ''last_review_at'') (row_last_review_at r) = Inr review"
      by (auto simp: memory_from_row_def split: sum.splits)
    then show ?thesis using other Some
      unfolding memory_at_def rows'
      by (subst row_of_upsert) (simp_all add: fresh_row_def memory_from_row_def transpose_opt_def parse)
  qed
qed

section \<open>The reconciliation of the provider\<close>

lemma upsert_all_frame:
  "upsert_all T clock ms db = (r, db') \<Longrightarrow>
   sync_meta db' = sync_meta db \<and> sync_db.more db' = sync_db.more db"
proof (induction ms arbitrary: db)
  case (Cons m ms)
  show ?case using Cons.prems unfolding upsert_all.simps
  proof (cases rule: attemptE)
    case (fails e)
    then show ?thesis using execute_result(1,2) by (auto simp: upsert_from_sync_def)
  next
    case (goes u db1)
    then show ?thesis using Cons.IH [OF goes(2)] execute_result(1,2) [of _ db "Inr u" db1]
      by (auto simp: upsert_from_sync_def)
  qed
qed simp

lemma list_for_sync_frame: "list_all_for_sync T db = (r, db') \<Longrightarrow> same_tables db db'"
  unfolding list_all_for_sync_def
  by (cases "statement db"; cases "fst (statement db)") (auto dest: statement_result)

lemma merge_and_persist_frame:
  assumes "merge_and_persist_memories T clock rs db = (r, db')"
  shows "sync_meta db' = sync_meta db \<and> sync_db.more db' = sync_db.more db"
  using assms unfolding merge_and_persist_memories_def
proof (cases rule: attemptE)
  case (fails e)
  then show ?thesis using list_for_sync_frame [OF fails(1)] by (simp add: same_tables_def db_content_def)
next
  case (goes ms db1)
  have l: "sync_meta db1 = sync_meta db" "sync_db.more db1 = sync_db.more db"
    using list_for_sync_frame [OF goes(1)] by (simp_all add: same_tables_def db_content_def)
  obtain merged out where mm: "merge_machine_memories ms rs = (merged, out)" by fastforce
  show ?thesis
  proof (cases "local_changed out")
    case False
    then show ?thesis using goes(2) mm l by auto
  next
    case True
    then have "attempt (upsert_all T clock merged db1) (\<lambda>_ db2. (Inr out, db2)) = (r, db')"
      using goes(2) mm by simp
    then show ?thesis
      by (cases rule: attemptE) (use l upsert_all_frame [of T clock merged db1] in auto)
  qed
qed

text \<open>
  What \<open>reconcile_data\<close> promises the engine: the sync version and everything outside the
  memory table are untouched; a failure leaves the memory table as it was; a success leaves
  in it the join of both sides.
\<close>

lemma ssh_reconcile_result:
  assumes run: "ssh_reconcile_data parse P T clock token data db = (r, db')"
  shows "sync_meta db' = sync_meta db" and "sync_db.more db' = sync_db.more db"
    and "r = Inl e \<Longrightarrow> memory_rows db' = memory_rows db"
    and "r = Inr out \<Longrightarrow> \<exists>wire remote_list. parse data = Inr wire \<and>
      decrypt_machine_memories P T token wire = Inr remote_list \<and>
      (chrono_ok T \<longrightarrow> rows_ok T (memory_rows db) \<longrightarrow> short_memories (memory_at T (memory_rows db)) \<longrightarrow>
       short_memories (memory_of remote_list) \<longrightarrow>
        rows_ok T (memory_rows db') \<and>
        memory_at T (memory_rows db') =
          (\<lambda>k. join_entry (memory_at T (memory_rows db) k) (memory_of remote_list k)))"
proof -
  let ?ok = "\<lambda>wire remote_list. parse data = Inr wire \<and>
      decrypt_machine_memories P T token wire = Inr remote_list \<and>
      (chrono_ok T \<longrightarrow> rows_ok T (memory_rows db) \<longrightarrow> short_memories (memory_at T (memory_rows db)) \<longrightarrow>
       short_memories (memory_of remote_list) \<longrightarrow>
        rows_ok T (memory_rows db') \<and>
        memory_at T (memory_rows db') =
          (\<lambda>k. join_entry (memory_at T (memory_rows db) k) (memory_of remote_list k)))"
  have "sync_meta db' = sync_meta db \<and> sync_db.more db' = sync_db.more db \<and>
      (\<forall>e. r = Inl e \<longrightarrow> memory_rows db' = memory_rows db) \<and>
      (\<forall>out. r = Inr out \<longrightarrow> (\<exists>wire remote_list. ?ok wire remote_list))"
  proof (cases "\<exists>wire rs. parse data = Inr wire \<and> decrypt_machine_memories P T token wire = Inr rs")
    case False
    then show ?thesis using run by (auto simp: ssh_reconcile_data_def split: sum.splits)
  next
    case True
    then obtain wire rs where dec: "parse data = Inr wire" "decrypt_machine_memories P T token wire = Inr rs"
      by blast
    let ?body = "\<lambda>conn. map_err memory_error_text (merge_and_persist_memories T clock rs conn)"
    obtain x where wc: "with_conn (transaction (\<lambda>e. e) ?body) db = (x, db')"
      and x: "\<And>e. r = Inl e \<Longrightarrow> \<exists>e'. x = Inl e'" "\<And>out. r = Inr out \<Longrightarrow> x = Inr out"
      using run dec by (cases r) (auto simp: ssh_reconcile_data_def map_err_eq_Inl)
    consider (closed) "\<exists>e. x = Inl e" "same_tables db db'"
      | (ran) db1 where "transaction (\<lambda>e. e) ?body db1 = (x, db')" "same_tables db db1"
      using with_conn_result [OF wc] by blast
    then show ?thesis
    proof cases
      case closed
      then show ?thesis using x by (auto simp: same_tables_def db_content_def)
    next
      case ran
      have more: "sync_db.more b = sync_db.more a" if "?body a = (y, b)" for a b :: "'a sync_db_scheme" and y
        using that by (cases y) (auto simp: map_err_eq_Inl dest!: merge_and_persist_frame)
      show ?thesis
      proof (rule transaction_cases [of ?body "\<lambda>e. e" db1, OF more])
        show "?body a = (y, b) \<Longrightarrow> ?body a = (y, b)" for a y b .
      next
        fix e b
        assume "transaction (\<lambda>e. e) ?body db1 = (Inl e, b)" "same_tables db1 b"
        then show ?thesis using ran x by (auto simp: same_tables_def db_content_def)
      next
        fix a out b c
        assume t: "same_tables db1 a" "?body a = (Inr out, b)" "same_tables b c"
          "transaction (\<lambda>e. e) ?body db1 = (Inr out, c)"
        have run': "merge_and_persist_memories T clock rs a = (Inr out, b)" using t(2) by simp
        have rows: "memory_rows a = memory_rows db" "memory_rows b = memory_rows db'"
          "sync_meta a = sync_meta db" "sync_meta b = sync_meta db'"
          "sync_db.more a = sync_db.more db" "sync_db.more b = sync_db.more db'"
          using t ran by (auto simp: same_tables_def db_content_def)
        show ?thesis
          using merge_and_persist_frame [OF run'] merge_and_persist_result(1,3) [OF _ _ _ _ run'] rows dec x t(4) ran
          by (auto simp: fun_eq_iff)
      qed
    qed
  qed
  then show "sync_meta db' = sync_meta db" "sync_db.more db' = sync_db.more db"
    "r = Inl e \<Longrightarrow> memory_rows db' = memory_rows db"
    "r = Inr out \<Longrightarrow> \<exists>wire remote_list. ?ok wire remote_list"
    by blast+
qed

section \<open>Encryption of the memories\<close>

definition sealable :: "machine_memory \<Rightarrow> bool" where
  "sealable m \<longleftrightarrow>
    (if deleted_at m \<noteq> None then mem_content m = [] else length (mem_content m) \<le> MAX_MEMORY_CHARS)"

lemma transpose_opt_parse_memory:
  "chrono_ok T \<Longrightarrow> transpose_opt (parse_memory_timestamp T c k) (map_option (rfc3339 T) x) = Inr x"
  by (cases x) (simp_all add: transpose_opt_def parse_memory_timestamp_def chrono_ok_def)

lemma decrypt_encrypt_memory:
  assumes laws: "crypto_laws P" "chrono_ok T" and nonce: "length nonce = 12" and m: "sealable m"
    and enc: "encrypt_memory P T token nonce m = Inr w"
  shows "decrypt_memory P T token w = Inr m" and "sm_machine_key w = machine_key m"
proof -
  have parse: "parse_memory_timestamp T c k (rfc3339 T t) = Inr t" for c k t
    using laws by (simp add: parse_memory_timestamp_def chrono_ok_def)
  show "sm_machine_key w = machine_key m"
    using enc by (auto simp: encrypt_memory_def Let_def split: sum.splits if_splits)
  show "decrypt_memory P T token w = Inr m"
  proof (cases "deleted_at m")
    case None
    then obtain c where c: "encrypt P nonce token (mem_content m) = Inr c" and
      w: "w = \<lparr>sm_machine_key = machine_key m, sm_content_encrypted = Some c,
        sm_hostname_alias = hostname_alias m, sm_ssh_node_id = ssh_node_id m,
        sm_last_review_at = map_option (rfc3339 T) (last_review_at m),
        sm_updated_at = rfc3339 T (updated_at m), sm_deleted_at = None\<rparr>"
      using enc by (auto simp: encrypt_memory_def Let_def split: sum.splits)
    have "decrypt P token c = Inr (mem_content m)" by (rule decrypt_encrypt_ok [OF laws(1) nonce c])
    then show ?thesis using m None laws(2) w
      by (simp add: decrypt_memory_def transpose_opt_parse_memory parse decrypt_content_def sealable_def
          transpose_opt_def [of _ None])
  next
    case (Some t)
    then show ?thesis using m enc laws(2)
      by (auto simp: encrypt_memory_def decrypt_memory_def transpose_opt_parse_memory parse
          decrypt_content_def sealable_def transpose_opt_def [of _ "Some _"])
  qed
qed

lemma decrypt_rows_Inr:
  "distinct (map sm_machine_key ws) \<Longrightarrow> set (map sm_machine_key ws) \<inter> seen = {} \<Longrightarrow>
   list_all2 (\<lambda>m w. decrypt_memory P T token w = Inr m) ms ws \<Longrightarrow>
   decrypt_rows P T token seen ws = Inr ms"
proof (induction ws arbitrary: seen ms)
  case (Cons w ws)
  then obtain m ms' where ms: "ms = m # ms'" "decrypt_memory P T token w = Inr m"
    "list_all2 (\<lambda>m w. decrypt_memory P T token w = Inr m) ms' ws"
    by (auto simp: list_all2_Cons2)
  have "decrypt_rows P T token (insert (sm_machine_key w) seen) ws = Inr ms'"
    using Cons.prems ms by (intro Cons.IH) auto
  then show ?case using ms Cons.prems by auto
qed auto

lemma sort_key_map2:
  assumes "list_all2 R xs ys" and "\<And>x y. R x y \<Longrightarrow> f x = g y"
  shows "list_all2 R (sort_key f xs) (sort_key g ys)"
proof -
  have ins: "list_all2 R (insort_key f x xs) (insort_key g y ys)"
    if "R x y" "list_all2 R xs ys" for x y xs ys
    using that(2,1) assms(2) by (induction rule: list_all2_induct) auto
  show ?thesis
    using assms(1) by (induction rule: list_all2_induct) (auto simp: ins)
qed

lemma decrypt_encrypt_memories:
  assumes laws: "crypto_laws P" "chrono_ok T" and nonces: "\<forall>m \<in> set ms. length (nonces m) = 12"
    and ms: "\<forall>m \<in> set ms. sealable m" "distinct (map machine_key ms)"
    and enc: "encrypt_machine_memories P T token nonces ms = Inr ws"
  shows "decrypt_machine_memories P T token ws = Inr (sort_key machine_key ms)"
proof -
  obtain xs where xs: "collect_results (map (\<lambda>m. encrypt_memory P T token (nonces m) m) ms) = Inr xs"
    and ws: "ws = sort_key sm_machine_key xs"
    using enc by (auto simp: encrypt_machine_memories_def split: sum.splits)
  have "list_all2 (\<lambda>m w. encrypt_memory P T token (nonces m) m = Inr w) ms xs"
    using xs by (simp add: collect_results_Inr_iff)
  then have "list_all2 (\<lambda>m w. decrypt_memory P T token w = Inr m \<and> machine_key m = sm_machine_key w) ms xs"
    using decrypt_encrypt_memory [OF laws] nonces ms(1)
    by (elim list.rel_mono_strong) metis
  then have sorted: "list_all2 (\<lambda>m w. decrypt_memory P T token w = Inr m \<and> machine_key m = sm_machine_key w)
      (sort_key machine_key ms) ws"
    unfolding ws by (rule sort_key_map2) simp
  then have keys: "map sm_machine_key ws = map machine_key (sort_key machine_key ms)"
    by (auto simp: list_all2_conv_all_nth intro: nth_equalityI)
  have "distinct (map machine_key (sort_key machine_key ms))"
    using ms(2) by (metis mset_map mset_eq_imp_distinct_iff mset_sort)
  then have "decrypt_rows P T token {} ws = Inr (sort_key machine_key ms)"
    using keys sorted by (intro decrypt_rows_Inr) (auto elim: list_all2_mono)
  then show ?thesis by (simp add: decrypt_machine_memories_def sort_key_id_if_sorted)
qed

section \<open>The SSH tables are left alone\<close>

lemma same_tables_ssh: "same_tables a b \<Longrightarrow> ssh b = ssh a"
  by (simp add: same_tables_def db_content_def)

lemma execute_ssh: "execute f db = (r, db') \<Longrightarrow> ssh db' = ssh db"
  by (cases "statement db"; cases "fst (statement db)")
    (auto simp: execute_def dest!: statement_result same_tables_ssh)

lemma upsert_all_ssh: "upsert_all T clock ms db = (r, db') \<Longrightarrow> ssh db' = ssh db"
proof (induction ms arbitrary: db)
  case (Cons m ms)
  show ?case using Cons.prems unfolding upsert_all.simps
  proof (cases rule: attemptE)
    case (fails e)
    then show ?thesis using execute_ssh unfolding upsert_from_sync_def by blast
  next
    case (goes u db1)
    then show ?thesis using Cons.IH [OF goes(2)] execute_ssh [OF goes(1) [unfolded upsert_from_sync_def]]
      by simp
  qed
qed simp

lemma merge_and_persist_ssh:
  assumes "merge_and_persist_memories T clock rs db = (r, db')"
  shows "ssh db' = ssh db"
  using assms unfolding merge_and_persist_memories_def
proof (cases rule: attemptE)
  case (fails e)
  then show ?thesis using list_for_sync_frame same_tables_ssh by blast
next
  case (goes ms db1)
  have db1: "ssh db1 = ssh db" using list_for_sync_frame [OF goes(1)] same_tables_ssh by blast
  obtain merged out where mm: "merge_machine_memories ms rs = (merged, out)" by fastforce
  show ?thesis
  proof (cases "local_changed out")
    case False
    then show ?thesis using goes(2) mm db1 by auto
  next
    case True
    then have "attempt (upsert_all T clock merged db1) (\<lambda>_ db2. (Inr out, db2)) = (r, db')"
      using goes(2) mm by simp
    then show ?thesis
      by (cases rule: attemptE) (use db1 upsert_all_ssh [of T clock merged db1] in auto)
  qed
qed

end
