(* ===== verification/Node_Sort.thy ===== *)
theory Node_Sort imports Prelude "HOL-Library.Multiset" begin

text \<open>
  The order in which a downloaded set of SSH nodes is inserted
  (\<open>warp_ssh_manager/src/sync_provider.rs\<close>, \<open>topologically_sort_nodes\<close> and
  \<open>has_cycle_membership\<close>): parents before children, and the nodes that no root reaches at the
  end, as roots.  \<open>ssh_nodes\<close> has a foreign key from \<open>parent_id\<close> to \<open>id\<close>, so any other order
  would make the whole download fail.
\<close>

record sync_node =
  node_id :: string
  parent_id :: "string option"
  node_kind :: string
  node_name :: string
  sort_order :: int
  is_collapsed :: bool

text \<open>\<open>by_parent\<close>: the nodes under one parent, in the order of the list.\<close>

definition by_parent :: "sync_node list \<Rightarrow> string option \<Rightarrow> sync_node list" where
  "by_parent nodes p = filter (\<lambda>n. parent_id n = p) nodes"

text \<open>
  The loop ends: a visit either uses up an identifier of the list, or a node of the queue
  that is not in the list (there is none in the program), and a skip shortens the queue.
\<close>

definition unseen_ids :: "sync_node list \<Rightarrow> string set \<Rightarrow> nat" where
  "unseen_ids nodes seen = card (node_id ` set nodes - seen)"

definition strangers :: "sync_node list \<Rightarrow> sync_node list \<Rightarrow> nat" where
  "strangers nodes queue = length (filter (\<lambda>n. node_id n \<notin> node_id ` set nodes) queue)"

lemma strangers_by_parent: "strangers nodes (by_parent nodes p) = 0"
  by (auto simp: strangers_def by_parent_def filter_empty_conv)

lemma bfs_visit_decreases:
  assumes "node_id n \<notin> seen"
  shows "unseen_ids nodes (insert (node_id n) seen) +
      strangers nodes (queue @ by_parent nodes (Some (node_id n))) <
    unseen_ids nodes seen + strangers nodes (n # queue)"
proof (cases "node_id n \<in> node_id ` set nodes")
  case True
  have "unseen_ids nodes (insert (node_id n) seen) < unseen_ids nodes seen"
    unfolding unseen_ids_def by (rule psubset_card_mono) (use assms True in auto)
  moreover have "strangers nodes (queue @ by_parent nodes (Some (node_id n))) \<le> strangers nodes (n # queue)"
    using strangers_by_parent [of nodes] by (simp add: strangers_def)
  ultimately show ?thesis by simp
next
  case False
  have "unseen_ids nodes (insert (node_id n) seen) \<le> unseen_ids nodes seen"
    unfolding unseen_ids_def by (rule card_mono) auto
  moreover have "strangers nodes (queue @ by_parent nodes (Some (node_id n))) < strangers nodes (n # queue)"
    using strangers_by_parent [of nodes] False by (simp add: strangers_def)
  ultimately show ?thesis by simp
qed

function bfs ::
  "sync_node list \<Rightarrow> sync_node list \<Rightarrow> string set \<Rightarrow> sync_node list \<Rightarrow> sync_node list \<times> string set" where
  "bfs nodes [] seen result = (result, seen)"
| "bfs nodes (node # queue) seen result =
    (if node_id node \<in> seen then bfs nodes queue seen result
     else
       bfs nodes (queue @ by_parent nodes (Some (node_id node)))
         (insert (node_id node) seen) (result @ [node]))"
  by pat_completeness auto

termination
proof (relation "measures [\<lambda>(nodes, queue, seen, _). unseen_ids nodes seen + strangers nodes queue,
    \<lambda>(_, queue, _, _). length queue]")
  show "wf (measures [\<lambda>(nodes, queue, seen, _). unseen_ids nodes seen + strangers nodes queue,
      \<lambda>(_ :: sync_node list, queue, _, _ :: sync_node list). length queue])"
    by (rule wf_measures)
next
  fix nodes queue result :: "sync_node list" and node :: sync_node and seen
  assume "node_id node \<in> seen"
  have "strangers nodes queue \<le> strangers nodes (node # queue)" by (simp add: strangers_def)
  then show "((nodes, queue, seen, result), nodes, node # queue, seen, result) \<in>
      measures [\<lambda>(nodes, queue, seen, _). unseen_ids nodes seen + strangers nodes queue,
        \<lambda>(_, queue, _, _). length queue]"
    by auto
next
  fix nodes queue result :: "sync_node list" and node :: sync_node and seen
  assume "node_id node \<notin> seen"
  then show "((nodes, queue @ by_parent nodes (Some (node_id node)), insert (node_id node) seen,
        result @ [node]), nodes, node # queue, seen, result) \<in>
      measures [\<lambda>(nodes, queue, seen, _). unseen_ids nodes seen + strangers nodes queue,
        \<lambda>(_, queue, _, _). length queue]"
    using bfs_visit_decreases [of node seen nodes queue] by simp
qed

text \<open>\<open>by_id\<close>: a node collected later replaces an earlier one of the same identifier.\<close>

definition by_id :: "sync_node list \<Rightarrow> string \<Rightarrow> sync_node option" where
  "by_id nodes i = find (\<lambda>n. node_id n = i) (rev nodes)"

fun cycle_walk :: "sync_node list \<Rightarrow> nat \<Rightarrow> sync_node \<Rightarrow> string set \<Rightarrow> bool" where
  "cycle_walk nodes 0 current visited = True"
| "cycle_walk nodes (Suc steps) current visited =
    (case parent_id current of
      None \<Rightarrow> False
    | Some pid \<Rightarrow>
        if node_id current \<in> visited then True
        else
          (case by_id nodes pid of
            Some parent \<Rightarrow> cycle_walk nodes steps parent (insert (node_id current) visited)
          | None \<Rightarrow> False))"

definition has_cycle_membership :: "sync_node \<Rightarrow> sync_node list \<Rightarrow> bool" where
  "has_cycle_membership start nodes = cycle_walk nodes (length nodes + 1) start {}"

text \<open>The two messages of the log.\<close>

datatype sort_warning = InCycle string "string option" | MissingParent string "string option"

definition sort_warning_for :: "sync_node list \<Rightarrow> sync_node \<Rightarrow> sort_warning" where
  "sort_warning_for nodes n =
    (if has_cycle_membership n nodes then InCycle (node_id n) (parent_id n)
     else MissingParent (node_id n) (parent_id n))"

definition topologically_sort_nodes :: "sync_node list \<Rightarrow> sync_node list \<times> sort_warning list" where
  "topologically_sort_nodes nodes =
    (case bfs nodes (by_parent nodes None) {} [] of
      (result, seen) \<Rightarrow>
        (let left_over = filter (\<lambda>n. node_id n \<notin> seen) nodes
         in (result @ map (\<lambda>n. n\<lparr>parent_id := None\<rparr>) left_over,
             map (sort_warning_for nodes) left_over)))"

section \<open>Parents come first\<close>

fun parents_first :: "string set \<Rightarrow> sync_node list \<Rightarrow> bool" where
  "parents_first placed [] \<longleftrightarrow> True"
| "parents_first placed (n # ns) \<longleftrightarrow>
    (case parent_id n of None \<Rightarrow> True | Some p \<Rightarrow> p \<in> placed) \<and>
    parents_first (insert (node_id n) placed) ns"

lemma parents_first_append:
  "parents_first placed (xs @ ys) \<longleftrightarrow>
    parents_first placed xs \<and> parents_first (placed \<union> node_id ` set xs) ys"
  by (induction xs arbitrary: placed) auto

lemma parents_first_roots: "\<forall>n \<in> set ns. parent_id n = None \<Longrightarrow> parents_first placed ns"
  by (induction ns arbitrary: placed) auto

text \<open>What holds each time round the loop.\<close>

definition bfs_inv :: "sync_node list \<Rightarrow> sync_node list \<Rightarrow> string set \<Rightarrow> sync_node list \<Rightarrow> bool" where
  "bfs_inv nodes queue seen result \<longleftrightarrow>
    set queue \<subseteq> set nodes \<and> set result \<subseteq> set nodes \<and>
    seen = node_id ` set result \<and> distinct (map node_id result) \<and>
    parents_first {} result \<and>
    (\<forall>n \<in> set queue. \<forall>p. parent_id n = Some p \<longrightarrow> p \<in> seen) \<and>
    (\<forall>n \<in> set nodes. (case parent_id n of None \<Rightarrow> True | Some p \<Rightarrow> p \<in> seen) \<longrightarrow>
      node_id n \<in> seen \<or> n \<in> set queue)"

lemma bfs_inv_start: "bfs_inv nodes (by_parent nodes None) {} []"
  by (auto simp: bfs_inv_def by_parent_def split: option.splits)

lemma bfs_inv_skip: "bfs_inv nodes (n # queue) seen result \<Longrightarrow> node_id n \<in> seen \<Longrightarrow> bfs_inv nodes queue seen result"
  by (auto simp: bfs_inv_def)

lemma bfs_inv_visit:
  assumes inv: "bfs_inv nodes (n # queue) seen result" and new: "node_id n \<notin> seen"
  shows "bfs_inv nodes (queue @ by_parent nodes (Some (node_id n))) (insert (node_id n) seen) (result @ [n])"
proof -
  have "parents_first {} (result @ [n])"
    using inv by (auto simp: bfs_inv_def parents_first_append split: option.splits)
  then show ?thesis
    using inv new by (auto simp: bfs_inv_def by_parent_def split: option.splits)
qed

lemma bfs_inv_end:
  "bfs_inv nodes queue seen result \<Longrightarrow> bfs nodes queue seen result = (result', seen') \<Longrightarrow>
   bfs_inv nodes [] seen' result'"
proof (induction nodes queue seen result rule: bfs.induct)
  case (2 nodes n queue seen result)
  then show ?case by (auto dest: bfs_inv_skip bfs_inv_visit split: if_splits)
qed simp

lemma sorted_nodes_split:
  obtains result seen where "bfs nodes (by_parent nodes None) {} [] = (result, seen)"
    "bfs_inv nodes [] seen result"
    "fst (topologically_sort_nodes nodes) =
      result @ map (\<lambda>n. n\<lparr>parent_id := None\<rparr>) (filter (\<lambda>n. node_id n \<notin> seen) nodes)"
proof -
  obtain result seen where b: "bfs nodes (by_parent nodes None) {} [] = (result, seen)" by fastforce
  then show thesis using bfs_inv_end [OF bfs_inv_start b]
    by (intro that) (simp_all add: topologically_sort_nodes_def Let_def)
qed

lemma sorted_parents_first: "parents_first {} (fst (topologically_sort_nodes nodes))"
proof -
  obtain result seen where s: "bfs_inv nodes [] seen result"
    "fst (topologically_sort_nodes nodes) =
      result @ map (\<lambda>n. n\<lparr>parent_id := None\<rparr>) (filter (\<lambda>n. node_id n \<notin> seen) nodes)"
    by (rule sorted_nodes_split)
  then show ?thesis by (auto simp: parents_first_append bfs_inv_def intro!: parents_first_roots)
qed

section \<open>No node is lost\<close>

lemma mset_split:
  assumes "distinct (map f xs)" "distinct (map f zs)" "set zs \<subseteq> set xs" "S = f ` set zs"
  shows "mset (filter (\<lambda>x. f x \<in> S) xs) = mset zs"
proof -
  have inj: "inj_on f (set xs)" using assms(1) by (simp add: distinct_map)
  have "set (filter (\<lambda>x. f x \<in> S) xs) = set zs"
    using assms(3,4) inj by (auto dest: inj_onD)
  then show ?thesis
    using assms(1,2) set_eq_iff_mset_eq_distinct [of "filter (\<lambda>x. f x \<in> S) xs" zs]
    by (simp add: distinct_map)
qed

text \<open>What the sort makes of each node: itself, or itself as a root.\<close>

lemma sorted_nodes_mset:
  assumes "distinct (map node_id nodes)"
  obtains seen where
    "mset (fst (topologically_sort_nodes nodes)) =
      mset (map (\<lambda>n. if node_id n \<in> seen then n else n\<lparr>parent_id := None\<rparr>) nodes)"
    "\<And>n. n \<in> set nodes \<Longrightarrow> (case parent_id n of None \<Rightarrow> True | Some p \<Rightarrow> p \<in> seen) \<Longrightarrow> node_id n \<in> seen"
proof -
  obtain result seen where inv: "bfs_inv nodes [] seen result"
    and s: "fst (topologically_sort_nodes nodes) =
      result @ map (\<lambda>n. n\<lparr>parent_id := None\<rparr>) (filter (\<lambda>n. node_id n \<notin> seen) nodes)"
    by (rule sorted_nodes_split)
  have r: "mset (filter (\<lambda>n. node_id n \<in> seen) nodes) = mset result"
    using inv assms by (intro mset_split) (auto simp: bfs_inv_def)
  have split: "mset (map (\<lambda>n. if node_id n \<in> seen then n else n\<lparr>parent_id := None\<rparr>) xs) =
      mset (filter (\<lambda>n. node_id n \<in> seen) xs) +
      mset (map (\<lambda>n. n\<lparr>parent_id := None\<rparr>) (filter (\<lambda>n. node_id n \<notin> seen) xs))"
    for xs :: "sync_node list"
    by (induction xs) auto
  show thesis
  proof (rule that [of seen])
    show "mset (fst (topologically_sort_nodes nodes)) =
        mset (map (\<lambda>n. if node_id n \<in> seen then n else n\<lparr>parent_id := None\<rparr>) nodes)"
      unfolding s mset_append split r ..
    show "node_id n \<in> seen"
      if "n \<in> set nodes" "case parent_id n of None \<Rightarrow> True | Some p \<Rightarrow> p \<in> seen" for n
      using inv that by (auto simp: bfs_inv_def)
  qed
qed

text \<open>A node whose chain of parents ends in a root.\<close>

inductive rooted :: "sync_node list \<Rightarrow> sync_node \<Rightarrow> bool" for nodes where
  root: "n \<in> set nodes \<Longrightarrow> parent_id n = None \<Longrightarrow> rooted nodes n"
| child: "n \<in> set nodes \<Longrightarrow> parent_id n = Some (node_id m) \<Longrightarrow> rooted nodes m \<Longrightarrow> rooted nodes n"

lemma rooted_seen:
  assumes "rooted nodes n"
    and "\<And>n. n \<in> set nodes \<Longrightarrow> (case parent_id n of None \<Rightarrow> True | Some p \<Rightarrow> p \<in> seen) \<Longrightarrow> node_id n \<in> seen"
  shows "node_id n \<in> seen"
  using assms by (induction rule: rooted.induct) auto

section \<open>Cycles\<close>

text \<open>A node whose chain of parents ends after \<open>k\<close> steps, in a root or outside the list.\<close>

inductive ends_after :: "sync_node list \<Rightarrow> nat \<Rightarrow> sync_node \<Rightarrow> bool" for nodes where
  at_root: "parent_id n = None \<Longrightarrow> ends_after nodes 0 n"
| outside: "parent_id n = Some p \<Longrightarrow> by_id nodes p = None \<Longrightarrow> ends_after nodes 0 n"
| further: "parent_id n = Some p \<Longrightarrow> by_id nodes p = Some m \<Longrightarrow> ends_after nodes k m \<Longrightarrow>
    ends_after nodes (Suc k) n"

inductive_simps ends_after_0: "ends_after nodes 0 n"
inductive_simps ends_after_Suc: "ends_after nodes (Suc k) n"

lemma ends_after_unique: "ends_after nodes k n \<Longrightarrow> ends_after nodes j n \<Longrightarrow> j = k"
proof (induction k arbitrary: j n)
  case 0
  then show ?case by (cases j) (auto simp: ends_after_0 ends_after_Suc)
next
  case (Suc k)
  then show ?case by (cases j) (auto simp: ends_after_0 ends_after_Suc)
qed

lemma by_id_Some: "by_id nodes i = Some m \<Longrightarrow> m \<in> set nodes \<and> node_id m = i"
  unfolding by_id_def find_Some_iff by (metis length_rev nth_mem set_rev)

text \<open>A chain of \<open>k\<close> steps passes \<open>k + 1\<close> different nodes, so it is shorter than the list.\<close>

lemma ends_after_chain:
  "ends_after nodes k n \<Longrightarrow> n \<in> set nodes \<Longrightarrow>
   \<exists>S \<subseteq> set nodes. card S = Suc k \<and> (\<forall>m \<in> S. \<exists>j \<le> k. ends_after nodes j m)"
proof (induction rule: ends_after.induct)
  case (further n p m k)
  then obtain S where S: "S \<subseteq> set nodes" "card S = Suc k" "\<forall>m \<in> S. \<exists>j \<le> k. ends_after nodes j m"
    using by_id_Some by blast
  have "ends_after nodes (Suc k) n" using further by (blast intro: ends_after.further)
  then have "n \<notin> S" using S(3) ends_after_unique by fastforce
  moreover have "finite S" using S(1) finite_subset by blast
  ultimately show ?case
    using S further.prems \<open>ends_after nodes (Suc k) n\<close>
    by (intro exI [of _ "insert n S"]) (auto, meson le_SucI)
qed (auto intro!: exI [of _ "{_}"] intro: ends_after.intros)

lemma ends_after_length: "ends_after nodes k n \<Longrightarrow> n \<in> set nodes \<Longrightarrow> k < length nodes"
  using ends_after_chain [of nodes k n] card_mono [of "set nodes"] card_length [of nodes]
  by (metis List.finite_set Suc_le_eq le_trans)

lemma cycle_walk_ends:
  assumes ids: "distinct (map node_id nodes)"
  shows "ends_after nodes k n \<Longrightarrow> n \<in> set nodes \<Longrightarrow> k < steps \<Longrightarrow>
    (\<forall>v \<in> visited. \<exists>m \<in> set nodes. node_id m = v \<and> (\<exists>j > k. ends_after nodes j m)) \<Longrightarrow>
    \<not> cycle_walk nodes steps n visited"
proof -
  have known: "node_id n \<notin> visited"
    if n: "ends_after nodes k n" "n \<in> set nodes"
      and older: "\<forall>v \<in> visited. \<exists>m \<in> set nodes. node_id m = v \<and> (\<exists>j > k. ends_after nodes j m)"
    for k n visited
  proof
    assume "node_id n \<in> visited"
    then obtain m j where m: "m \<in> set nodes" "node_id m = node_id n" "k < j" "ends_after nodes j m"
      using older by blast
    then have "m = n" using ids n(2) by (auto simp: distinct_map dest: inj_onD)
    then show False using m ends_after_unique n(1) by blast
  qed
  show "ends_after nodes k n \<Longrightarrow> n \<in> set nodes \<Longrightarrow> k < steps \<Longrightarrow>
    (\<forall>v \<in> visited. \<exists>m \<in> set nodes. node_id m = v \<and> (\<exists>j > k. ends_after nodes j m)) \<Longrightarrow>
    \<not> cycle_walk nodes steps n visited"
proof (induction arbitrary: steps visited rule: ends_after.induct)
  case (at_root n)
  then show ?case by (cases steps) auto
next
  case (outside n p)
  have "ends_after nodes 0 n" using outside by (blast intro: ends_after.outside)
  then have "node_id n \<notin> visited"
    using known [OF _ outside.prems(1,3)] by blast
  then show ?case using outside by (cases steps) auto
next
  case (further n p m k)
  have n: "ends_after nodes (Suc k) n" using further by (blast intro: ends_after.further)
  then have "node_id n \<notin> visited"
    using known [OF _ further.prems(1,3)] by blast
  moreover obtain s where s: "steps = Suc s" using further.prems(2) by (cases steps) auto
  moreover have "\<not> cycle_walk nodes s m (insert (node_id n) visited)"
  proof (rule further.IH)
    show "m \<in> set nodes" using further.hyps by_id_Some by blast
    show "k < s" using further.prems s by simp
    show "\<forall>v \<in> insert (node_id n) visited. \<exists>m \<in> set nodes. node_id m = v \<and> (\<exists>j > k. ends_after nodes j m)"
      using further.prems n by (auto, meson Suc_lessD)
  qed
  ultimately show ?case using further.hyps by simp
qed
qed

lemma cycle_walk_endless:
  assumes "\<And>k. \<not> ends_after nodes k n"
  shows "cycle_walk nodes steps n visited"
  using assms
proof (induction steps arbitrary: n visited)
  case (Suc steps)
  obtain p m where "parent_id n = Some p" "by_id nodes p = Some m"
    using Suc.prems by (metis ends_after.intros(1,2) not_None_eq)
  moreover have "\<not> ends_after nodes k m" for k
    using Suc.prems calculation by (blast intro: ends_after.further)
  ultimately show ?case using Suc.IH by simp
qed simp

lemma has_cycle_membership_iff:
  assumes "distinct (map node_id nodes)" and "n \<in> set nodes"
  shows "has_cycle_membership n nodes \<longleftrightarrow> (\<forall>k. \<not> ends_after nodes k n)"
  unfolding has_cycle_membership_def
  using cycle_walk_endless [of nodes n] cycle_walk_ends [OF assms(1) _ assms(2)]
    ends_after_length [OF _ assms(2)] by (metis empty_iff less_SucI Suc_eq_plus1)

end
