(* ===== verification/Sync_Properties.thy ===== *)
theory Sync_Properties imports Sync_Session Memory_Store Node_Sort begin

text \<open>
  The properties of the cloud sync: the engine with the database store, the search for the
  gist, the merge of the machine memories, and the order of the nodes.
\<close>

section \<open>A small world for the witnesses\<close>

text \<open>
  A service that keeps one gist; while it answers an update, a local write is made when
  \<open>busy\<close> holds.
\<close>

definition sample_db :: sync_world where
  "sample_db = \<lparr>path_set = True, poisoned = False, connected = True, statements = [],
    sync_meta = [''sync_version'' \<mapsto> ''3''], memory_rows = [], ssh = no_tables,
    local_writes = 0, gist_text = Some ''2''\<rparr>"









section \<open>The engine\<close>










section \<open>The store and the gist\<close>

text \<open>
  C12: the database commit of a synced version is atomic.  It stores that version when the
  version is still the one the sync began with, and one above both otherwise; when it fails
  (a statement, the transaction, or an overflow of the version) the tables are as before.
\<close>

theorem commit_is_atomic:
  assumes "in_i64 synced"
    and "db_commit_sync_version expected synced db = (r, db')"
  shows "(case r of
      Inr c \<Rightarrow> db_version db' = c \<and>
        c = (if db_version db = expected then synced else max (db_version db) synced + 1)
    | Inl e \<Rightarrow> sync_meta db' = sync_meta db) \<and> memory_rows db' = memory_rows db"
  using db_commit_result [OF assms(2)] assms(1)
  by (auto simp: same_tables_def db_content_def split: sum.split)

lemma commit_is_atomic_witness:
  "\<exists>db'. db_commit_sync_version 2 7 sample_db = (Inr 8, db') \<and> db_version db' = 8"
proof -
  have "fst (db_commit_sync_version 2 7 sample_db) = Inr 8" by code_simp
  then obtain db' where run: "db_commit_sync_version 2 7 sample_db = (Inr 8, db')"
    by (metis prod.collapse)
  show ?thesis
    using commit_is_atomic [OF _ run] run by (simp add: in_i64_def i64_min_def i64_max_def)
qed

text \<open>
  The search for the gist returns, over a service that lists its gists page by page,
  exactly what the specification picks: the first gist with the current description on the
  first twenty pages up to an empty one, and failing that the first one of the earlier
  product.
\<close>

theorem find_gist_chooses:
  assumes "lists_pages send platform token pg" and "token \<noteq> []"
  shows "find_gist send platform token w =
    (Inr (chosen_gist (listed_gists pg [1..<Suc FIND_GIST_MAX_PAGES])), w)"
  using assms(2) find_pages_chosen [OF assms(1), of "[1..<Suc FIND_GIST_MAX_PAGES]" None w]
  by (simp add: find_gist_def chosen_gist_def del: upt_Suc split: option.splits)

definition sample_pages :: "nat \<Rightarrow> gist_entry list" where
  "sample_pages p =
    (if p = 1 then [\<lparr>gist_id = ''a'', gist_description = Some ''ZAP_CONFIG''\<rparr>]
     else if p = 2 then [\<lparr>gist_id = ''b'', gist_description = Some ''INFINISHELL_CONFIG''\<rparr>] else [])"

definition sample_http :: "unit http" where
  "sample_http req w =
    (Inr \<lparr>resp_status = 200, resp_text = Inr [],
      resp_gists = Inr (case req_url req of GistPage _ p \<Rightarrow> sample_pages p | _ \<Rightarrow> []),
      resp_login = Inr None, resp_id = Inr [], resp_files = Inr Map.empty\<rparr>, w)"

lemma find_gist_chooses_witness: "find_gist sample_http GitHub ''t'' () = (Inr (Some ''b''), ())"
proof -
  have "lists_pages sample_http GitHub ''t'' sample_pages"
    by (simp add: lists_pages_def sample_http_def get_request_def is_success_def)
  then have "find_gist sample_http GitHub ''t'' () =
      (Inr (chosen_gist (listed_gists sample_pages [1..<Suc FIND_GIST_MAX_PAGES])), ())"
    by (rule find_gist_chooses) simp
  moreover have "chosen_gist (listed_gists sample_pages [1..<Suc FIND_GIST_MAX_PAGES]) = Some ''b''"
    by code_simp
  ultimately show ?thesis by simp
qed

section \<open>Machine memories\<close>

text \<open>
  C13: the merge of memories converges.  Two devices that merge each other's lists end with
  the same list, and a device that takes in the lists of others ends with the same list in
  whatever order, and however grouped, they arrive.
\<close>

theorem merge_converges:
  assumes "mset xs = mset ys"
  shows "merge_states xs start = merge_states ys start \<and>
    fst (merge_machine_memories a b) = fst (merge_machine_memories b a) \<and>
    fst (merge_machine_memories (fst (merge_machine_memories a b)) c) =
      fst (merge_machine_memories a (fst (merge_machine_memories b c)))"
  using merge_states_order [OF assms] merge_commute merge_assoc by blast

definition sample_memory :: "string \<Rightarrow> string \<Rightarrow> int \<Rightarrow> int option \<Rightarrow> machine_memory" where
  "sample_memory key content at deleted =
    \<lparr>machine_key = key, mem_content = content, hostname_alias = None, ssh_node_id = None,
     last_review_at = None, updated_at = at, deleted_at = deleted\<rparr>"

lemma merge_converges_witness:
  "merge_states [[sample_memory ''h:22'' ''old'' 1 None], [sample_memory ''h:22'' [] 2 (Some 2)]] [] =
   merge_states [[sample_memory ''h:22'' [] 2 (Some 2)], [sample_memory ''h:22'' ''old'' 1 None]] []"
  using merge_converges [of "[[sample_memory ''h:22'' ''old'' 1 None], [sample_memory ''h:22'' [] 2 (Some 2)]]"
      "[[sample_memory ''h:22'' [] 2 (Some 2)], [sample_memory ''h:22'' ''old'' 1 None]]"]
  by (simp add: add_mset_commute)


definition sample_chrono :: chrono where
  "sample_chrono = \<lparr>rfc3339 = (\<lambda>t. replicate (nat t) CHR ''p'' @ replicate (nat (- t)) CHR ''m''),
    parse_rfc3339 = (\<lambda>s. Some (int (length (filter (\<lambda>c. c = CHR ''p'') s)) -
      int (length (filter (\<lambda>c. c = CHR ''m'') s))))\<rparr>"

lemma sample_chrono_ok: "chrono_ok sample_chrono"
  by (simp add: chrono_ok_def sample_chrono_def)


text \<open>
  What is uploaded of the memories decrypts, with the same token, to what was there:
  the same records, tombstones included, in the order of their keys.
\<close>

theorem memories_decrypt:
  assumes "crypto_laws P" and "chrono_ok T" and "\<forall>m \<in> set ms. length (nonces m) = 12"
    and "\<forall>m \<in> set ms. sealable m" and "distinct (map machine_key ms)"
    and "encrypt_machine_memories P T token nonces ms = Inr ws"
  shows "decrypt_machine_memories P T token ws = Inr (sort_key machine_key ms)"
  using assms by (rule decrypt_encrypt_memories)

text \<open>Primitives for the witness: bytes in unary, each closed by a semicolon.\<close>

definition unary_step :: "char \<Rightarrow> string list \<Rightarrow> string list" where
  "unary_step c cells =
    (if c = CHR '';'' then [] # cells else (case cells of [] \<Rightarrow> [[c]] | d # ds \<Rightarrow> (c # d) # ds))"

definition sample_crypto :: crypto_primitives where
  "sample_crypto =
    \<lparr>sha256 = (\<lambda>b. b), aes_seal = (\<lambda>k n p. Inr (k @ p)), aes_open = (\<lambda>k n c. Inr (drop (length k) c)),
     base64_encode = (\<lambda>b. concat (map (\<lambda>n. replicate n CHR ''x'' @ '';'') b)),
     base64_decode = (\<lambda>s. Inr (map length (foldr unary_step s []))),
     utf8_bytes = map of_char, utf8_string = (\<lambda>b. Inr (map char_of b))\<rparr>"

lemma unary_decode:
  "foldr unary_step (concat (map (\<lambda>n. replicate n CHR ''x'' @ '';'') b)) [] =
   map (\<lambda>n. replicate n CHR ''x'') b"
proof (induction b)
  case (Cons n b)
  have "(unary_step CHR ''x'' ^^ k) ([] # ds) = replicate k CHR ''x'' # ds" for k ds
    by (induction k) (auto simp: unary_step_def)
  moreover have "unary_step CHR '';'' ds = [] # ds" for ds by (simp add: unary_step_def)
  ultimately show ?case using Cons by simp
qed simp

lemma sample_crypto_laws: "crypto_laws sample_crypto"
  by (simp add: crypto_laws_def sample_crypto_def unary_decode o_def)

lemma memories_decrypt_witness:
  "\<exists>ws. encrypt_machine_memories sample_crypto sample_chrono ''k'' (\<lambda>_. replicate 12 0)
      [sample_memory ''b:22'' ''hi'' 1 None, sample_memory ''a:22'' [] 2 (Some 2)] = Inr ws \<and>
    decrypt_machine_memories sample_crypto sample_chrono ''k'' ws =
      Inr [sample_memory ''a:22'' [] 2 (Some 2), sample_memory ''b:22'' ''hi'' 1 None]"
proof -
  let ?ms = "[sample_memory ''b:22'' ''hi'' 1 None, sample_memory ''a:22'' [] 2 (Some 2)]"
  obtain ws where ws: "encrypt_machine_memories sample_crypto sample_chrono ''k'' (\<lambda>_. replicate 12 0) ?ms = Inr ws"
    by (auto simp: encrypt_machine_memories_def encrypt_memory_def sample_memory_def encrypt_def
        sample_crypto_def Let_def)
  have "sealable m" if "m \<in> set ?ms" for m
    using that by (auto simp: sealable_def sample_memory_def MAX_MEMORY_CHARS_def)
  then have "decrypt_machine_memories sample_crypto sample_chrono ''k'' ws = Inr (sort_key machine_key ?ms)"
    by (intro memories_decrypt [OF sample_crypto_laws sample_chrono_ok _ _ _ ws])
       (auto simp: sample_memory_def)
  moreover have "sort_key machine_key ?ms =
      [sample_memory ''a:22'' [] 2 (Some 2), sample_memory ''b:22'' ''hi'' 1 None]"
    by code_simp
  ultimately show ?thesis using ws by simp
qed

text \<open>
  Every local write of a memory is one transaction: it fails and leaves the tables as
  they were, or it takes effect and raises the sync version by one.
\<close>

theorem memory_writes_atomic:
  assumes "upsert_content T now key content db = (r, db') \<or>
      delete_memory T now key db = (r, db') \<or>
      set_hostname_alias T now now2 key host db = (r, db') \<or>
      set_last_review_at T now now2 key moment db = (r, db')"
  shows "case r of
      Inr _ \<Rightarrow> db_version db' = db_version db + 1 \<and> row_of (memory_rows db') key \<noteq> None
    | Inl _ \<Rightarrow> sync_meta db' = sync_meta db \<and> memory_rows db' = memory_rows db"
proof (cases r)
  case (Inl e)
  have "same_tables db db'"
    using assms
    by (elim disjE; elim upsert_content_result(1) [OF _ Inl] delete_memory_result(1) [OF _ Inl]
        set_hostname_alias_result(1) [OF _ Inl] set_last_review_at_result(1) [OF _ Inl])
  then show ?thesis using Inl by (simp add: same_tables_def db_content_def)
next
  case (Inr u)
  show ?thesis using assms
  proof (elim disjE)
    assume "upsert_content T now key content db = (r, db')"
    then show ?thesis using upsert_content_result(2) [of T now key content db r db'] Inr
      by (simp add: row_of_upsert fresh_row_def)
  next
    assume "delete_memory T now key db = (r, db')"
    then show ?thesis using delete_memory_result(2) [of T now key db r db'] Inr
      by (simp add: row_of_upsert fresh_row_def)
  next
    assume "set_hostname_alias T now now2 key host db = (r, db')"
    then show ?thesis using set_hostname_alias_result(2) [of T now now2 key host db r db'] Inr
      by (simp add: row_of_update row_of_upsert fresh_row_def)
  next
    assume "set_last_review_at T now now2 key moment db = (r, db')"
    then show ?thesis using set_last_review_at_result(2) [of T now now2 key moment db r db'] Inr
      by (simp add: row_of_update row_of_upsert fresh_row_def)
  qed
qed

text \<open>The third statement fails: the transaction is rolled back.\<close>

lemma memory_writes_atomic_witness:
  "\<exists>e db'. delete_memory sample_chrono 1 ''h:22''
      (sample_db\<lparr>statements := [None, None, Some ''disk full'']\<rparr>) = (Inl e, db') \<and>
    memory_rows db' = []"
proof -
  let ?db = "sample_db\<lparr>statements := [None, None, Some ''disk full'']\<rparr>"
  have "case fst (delete_memory sample_chrono 1 ''h:22'' ?db) of Inl _ \<Rightarrow> True | Inr _ \<Rightarrow> False"
    by code_simp
  then obtain e db' where run: "delete_memory sample_chrono 1 ''h:22'' ?db = (Inl e, db')"
    by (cases "delete_memory sample_chrono 1 ''h:22'' ?db") (auto split: sum.splits)
  show ?thesis using memory_writes_atomic [of sample_chrono 1 "''h:22''" "[]" ?db "Inl e" db' 0 "[]" 0] run
    by (simp add: sample_db_def)
qed

section \<open>The order of the nodes\<close>

text \<open>
  C15: whatever the downloaded list of nodes (orphans, cycles and repeated identifiers
  included), the sort ends and in its result every node that has a parent comes after a node
  with that identifier, which is what the foreign key needs.
\<close>

theorem sort_puts_parents_first: "parents_first {} (fst (topologically_sort_nodes nodes))"
  by (rule sorted_parents_first)

text \<open>
  With distinct identifiers no node is lost or duplicated: the result is the list,
  reordered, with some nodes made roots; and the nodes whose chain of parents ends in a root
  keep their parent.
\<close>

theorem sort_keeps_nodes:
  assumes "distinct (map node_id nodes)"
  shows "\<exists>kept. mset (fst (topologically_sort_nodes nodes)) =
      mset (map (\<lambda>n. if node_id n \<in> kept then n else n\<lparr>parent_id := None\<rparr>) nodes) \<and>
    (\<forall>n. rooted nodes n \<longrightarrow> node_id n \<in> kept)"
proof -
  obtain kept where "mset (fst (topologically_sort_nodes nodes)) =
      mset (map (\<lambda>n. if node_id n \<in> kept then n else n\<lparr>parent_id := None\<rparr>) nodes)"
    and "\<And>n. n \<in> set nodes \<Longrightarrow> (case parent_id n of None \<Rightarrow> True | Some p \<Rightarrow> p \<in> kept) \<Longrightarrow> node_id n \<in> kept"
    by (rule sorted_nodes_mset [OF assms]) blast
  then show ?thesis using rooted_seen by blast
qed

definition sample_node :: "string \<Rightarrow> string option \<Rightarrow> sync_node" where
  "sample_node i p = \<lparr>node_id = i, parent_id = p, node_kind = ''folder'', node_name = i,
    sort_order = 0, is_collapsed = False\<rparr>"

lemma sort_keeps_nodes_witness:
  "mset (fst (topologically_sort_nodes [sample_node ''b'' (Some ''a''), sample_node ''a'' None])) =
   mset [sample_node ''b'' (Some ''a''), sample_node ''a'' None]"
proof -
  let ?nodes = "[sample_node ''b'' (Some ''a''), sample_node ''a'' None]"
  have root: "rooted ?nodes (sample_node ''a'' None)"
    by (rule rooted.root) (simp_all add: sample_node_def)
  have child: "rooted ?nodes (sample_node ''b'' (Some ''a''))"
    by (rule rooted.child [OF _ _ root]) (simp_all add: sample_node_def)
  have "distinct (map node_id ?nodes)" by (simp add: sample_node_def)
  then obtain kept where kept: "mset (fst (topologically_sort_nodes ?nodes)) =
      mset (map (\<lambda>n. if node_id n \<in> kept then n else n\<lparr>parent_id := None\<rparr>) ?nodes)"
    "\<forall>n. rooted ?nodes n \<longrightarrow> node_id n \<in> kept"
    using sort_keeps_nodes by blast
  have "node_id (sample_node ''a'' None) \<in> kept" "node_id (sample_node ''b'' (Some ''a'')) \<in> kept"
    using kept(2) root child by blast+
  then show ?thesis using kept(1) by simp
qed

text \<open>
  The walk that decides between the two warnings stops within its bound, and it says
  that a node is in a cycle exactly when the chain of its parents never ends.
\<close>

theorem cycle_check_exact:
  assumes "distinct (map node_id nodes)" and "n \<in> set nodes"
  shows "has_cycle_membership n nodes = (\<forall>k. \<not> ends_after nodes k n)"
  using assms by (rule has_cycle_membership_iff)

lemma cycle_check_exact_witness:
  "\<forall>k. \<not> ends_after [sample_node ''a'' (Some ''b''), sample_node ''b'' (Some ''a'')] k
    (sample_node ''a'' (Some ''b''))"
proof -
  let ?nodes = "[sample_node ''a'' (Some ''b''), sample_node ''b'' (Some ''a'')]"
  have "has_cycle_membership (sample_node ''a'' (Some ''b'')) ?nodes" by code_simp
  then show ?thesis
    using cycle_check_exact [of ?nodes "sample_node ''a'' (Some ''b'')"] by (simp add: sample_node_def)
qed

text \<open>
  A node whose parent is in the list loses that parent when the parent is itself an
  orphan: a folder whose own parent is missing is kept as a root, but the server in it is
  taken out of it, and the log says that the folder is not in the list.
\<close>

theorem orphan_subtree_flattened:
  "topologically_sort_nodes [sample_node ''f'' (Some ''gone''), sample_node ''s'' (Some ''f'')] =
    ([sample_node ''f'' None, sample_node ''s'' None],
     [MissingParent ''f'' (Some ''gone''), MissingParent ''s'' (Some ''f'')])"
  by code_simp

end
