(* ===== verification/Ssh_Types.thy ===== *)
theory Ssh_Types imports Sync_Store "HOL-Library.Word" begin

text \<open>
  The SSH manager's data (\<open>warp_ssh_manager/src/types.rs\<close>, \<open>secrets.rs\<close> for the kinds of
  secrets) and the conversion of table rows to it (\<open>repository.rs\<close>, \<open>node_from_row\<close>,
  \<open>server_from_row\<close>, \<open>onekey_from_row\<close>).  Ports are \<open>u16\<close>; the tables hold them as \<open>i32\<close>,
  and \<open>as u16\<close> reads them back modulo \<open>2 ^ 16\<close>.
\<close>

section \<open>Enumerations and their names in the database\<close>

datatype connection_status = Unknown | Online | Offline

datatype node_kind = Folder | Server

fun node_kind_str :: "node_kind \<Rightarrow> string" where
  "node_kind_str Folder = ''folder''"
| "node_kind_str Server = ''server''"

definition parse_node_kind :: "string \<Rightarrow> node_kind option" where
  "parse_node_kind s =
    (if s = ''folder'' then Some Folder else if s = ''server'' then Some Server else None)"

datatype auth_type = AuthPassword | AuthKey | AuthOneKey

fun auth_type_str :: "auth_type \<Rightarrow> string" where
  "auth_type_str AuthPassword = ''password''"
| "auth_type_str AuthKey = ''key''"
| "auth_type_str AuthOneKey = ''onekey''"

definition parse_auth_type :: "string \<Rightarrow> auth_type option" where
  "parse_auth_type s =
    (if s = ''password'' then Some AuthPassword else if s = ''key'' then Some AuthKey
     else if s = ''onekey'' then Some AuthOneKey else None)"

datatype onekey_kind = OneKeyPassword | OneKeyKey

fun onekey_kind_str :: "onekey_kind \<Rightarrow> string" where
  "onekey_kind_str OneKeyPassword = ''password''"
| "onekey_kind_str OneKeyKey = ''key''"

definition parse_onekey_kind :: "string \<Rightarrow> onekey_kind option" where
  "parse_onekey_kind s =
    (if s = ''password'' then Some OneKeyPassword else if s = ''key'' then Some OneKeyKey else None)"

lemma parse_node_kind_str [simp]: "parse_node_kind (node_kind_str k) = Some k"
  by (cases k) (simp_all add: parse_node_kind_def)

lemma parse_auth_type_str [simp]: "parse_auth_type (auth_type_str a) = Some a"
  by (cases a) (simp_all add: parse_auth_type_def)

lemma parse_onekey_kind_str [simp]: "parse_onekey_kind (onekey_kind_str k) = Some k"
  by (cases k) (simp_all add: parse_onekey_kind_def)

lemma node_kind_str_cases: "node_kind_str k = ''folder'' \<or> node_kind_str k = ''server''"
  by (cases k) simp_all

lemma auth_type_str_cases:
  "auth_type_str a = ''password'' \<or> auth_type_str a = ''key'' \<or> auth_type_str a = ''onekey''"
  by (cases a) simp_all

lemma onekey_kind_str_cases: "onekey_kind_str k = ''password'' \<or> onekey_kind_str k = ''key''"
  by (cases k) simp_all

lemma parse_node_kind_Some: "parse_node_kind s = Some k \<longleftrightarrow> s = node_kind_str k"
  by (cases k) (auto simp: parse_node_kind_def)

datatype secret_kind = SecretPassword | SecretPassphrase | SecretRootPassword | SecretOneKeyPassword

fun suffix_str :: "secret_kind \<Rightarrow> string" where
  "suffix_str SecretPassword = ''password''"
| "suffix_str SecretPassphrase = ''passphrase''"
| "suffix_str SecretRootPassword = ''root_password''"
| "suffix_str SecretOneKeyPassword = ''onekey_password''"

section \<open>Nodes, servers, routes and credentials\<close>

record ssh_node =
  n_id :: string
  n_parent_id :: "string option"
  n_kind :: node_kind
  n_name :: string
  n_sort_order :: int
  n_created_at :: int
  n_updated_at :: int
  n_is_collapsed :: bool

record ssh_server_info =
  s_node_id :: string
  s_host :: string
  s_port :: "16 word"
  s_username :: string
  s_auth_type :: auth_type
  s_key_path :: "string option"
  s_credential_id :: "string option"
  s_startup_command :: "string option"
  s_notes :: "string option"
  s_last_connected_at :: "int option"

record ssh_route_hop =
  hop_node_id :: "string option"
  hop_target_alias :: string
  hop_port :: "16 word option"

record ssh_route =
  route_id :: string
  route_name :: string
  route_target_node_id :: "string option"
  route_hops :: "ssh_route_hop list"
  route_created_at :: int
  route_updated_at :: int
  route_last_connected_at :: "int option"

record ssh_onekey_credential =
  c_id :: string
  c_label :: string
  c_username :: string
  c_kind :: onekey_kind
  c_key_path :: "string option"
  c_created_at :: int
  c_updated_at :: int

record resolved_ssh_auth =
  ra_username :: string
  ra_auth_type :: auth_type
  ra_key_path :: "string option"
  ra_secret_lookup_id :: string
  ra_secret_kind :: secret_kind

definition new_default :: "string \<Rightarrow> ssh_server_info" where
  "new_default node =
    \<lparr>s_node_id = node, s_host = [], s_port = 22, s_username = [], s_auth_type = AuthPassword,
     s_key_path = None, s_credential_id = None, s_startup_command = None, s_notes = None,
     s_last_connected_at = None\<rparr>"

definition clone_from_template :: "ssh_server_info \<Rightarrow> string \<Rightarrow> ssh_server_info" where
  "clone_from_template source new_node_id =
    \<lparr>s_node_id = new_node_id, s_host = s_host source, s_port = s_port source,
     s_username = s_username source, s_auth_type = s_auth_type source,
     s_key_path = s_key_path source, s_credential_id = s_credential_id source,
     s_startup_command = s_startup_command source, s_notes = s_notes source,
     s_last_connected_at = None\<rparr>"

definition display_label :: "ssh_onekey_credential \<Rightarrow> string" where
  "display_label c =
    (if c_username c = [] then c_label c else c_label c @ '' ('' @ c_username c @ '')'')"

section \<open>From rows\<close>

definition node_from_row :: "ssh_node_row \<Rightarrow> repository_error + ssh_node" where
  "node_from_row r =
    (case parse_node_kind (nr_kind r) of
      None \<Rightarrow> Inl (InvalidEnum ''ssh_nodes.kind'' (nr_kind r))
    | Some k \<Rightarrow> Inr
        \<lparr>n_id = nr_id r, n_parent_id = nr_parent_id r, n_kind = k, n_name = nr_name r,
         n_sort_order = nr_sort_order r, n_created_at = nr_created_at r,
         n_updated_at = nr_updated_at r, n_is_collapsed = nr_is_collapsed r\<rparr>)"

definition server_from_row :: "ssh_server_row \<Rightarrow> repository_error + ssh_server_info" where
  "server_from_row r =
    (case parse_auth_type (sr_auth_type r) of
      None \<Rightarrow> Inl (InvalidEnum ''ssh_servers.auth_type'' (sr_auth_type r))
    | Some a \<Rightarrow> Inr
        \<lparr>s_node_id = sr_node_id r, s_host = sr_host r, s_port = word_of_int (sr_port r),
         s_username = sr_username r, s_auth_type = a, s_key_path = sr_key_path r,
         s_credential_id = sr_credential_id r, s_startup_command = sr_startup_command r,
         s_notes = sr_notes r, s_last_connected_at = sr_last_connected_at r\<rparr>)"

definition onekey_from_row :: "ssh_onekey_credential_row \<Rightarrow> repository_error + ssh_onekey_credential" where
  "onekey_from_row r =
    (case parse_onekey_kind (cr_kind r) of
      None \<Rightarrow> Inl (InvalidEnum ''ssh_onekey_credentials.kind'' (cr_kind r))
    | Some k \<Rightarrow> Inr
        \<lparr>c_id = cr_id r, c_label = cr_label r, c_username = cr_username r, c_kind = k,
         c_key_path = cr_key_path r, c_created_at = cr_created_at r, c_updated_at = cr_updated_at r\<rparr>)"

end
