(* ===== verification/Ssh_Repository.thy ===== *)
theory Ssh_Repository
  imports Ssh_Types "HOL-Library.List_Lexorder" "HOL-Library.Char_ord" "HOL-Library.Option_ord"
    "HOL-Library.Product_Lexorder"
begin

text \<open>
  \<open>SshRepository\<close> (\<open>warp_ssh_manager/src/repository.rs\<close>): the operations on the SSH tables,
  each a composition of the statements it executes.  A new UUID, the local time and SQLite's
  \<open>CURRENT_TIMESTAMP\<close> are arguments.  \<open>ORDER BY\<close> is a stable sort: rows that the columns do
  not order stay in the order of the table.  The messages of \<open>InvalidRoute\<close>, Chinese in the
  source, are translated.
\<close>

section \<open>Statements\<close>

definition select :: "(ssh_tables \<Rightarrow> 'r) \<Rightarrow> 'a sync_db_scheme \<Rightarrow> (string + 'r) \<times> 'a sync_db_scheme" where
  "select q db = attempt (statement db) (\<lambda>_ db1. (Inr (q (ssh db1)), db1))"

text \<open>A statement that changes the tables, and the number of rows it reports.\<close>

definition modify ::
  "(ssh_tables \<Rightarrow> nat \<times> ssh_tables) \<Rightarrow> 'a sync_db_scheme \<Rightarrow> (string + nat) \<times> 'a sync_db_scheme" where
  "modify f db =
    attempt (statement db) (\<lambda>_ db1.
      case f (ssh db1) of (n, T) \<Rightarrow>
        (case violation T of
          Some e \<Rightarrow> (Inl e, db1)
        | None \<Rightarrow> (Inr n, db1\<lparr>ssh := T\<rparr>)))"

definition update_nodes ::
  "(ssh_node_row \<Rightarrow> bool) \<Rightarrow> (ssh_node_row \<Rightarrow> ssh_node_row) \<Rightarrow> ssh_tables \<Rightarrow> nat \<times> ssh_tables" where
  "update_nodes P upd T =
    (length (filter P (node_rows T)), T\<lparr>node_rows := map (\<lambda>r. if P r then upd r else r) (node_rows T)\<rparr>)"

definition update_servers ::
  "(ssh_server_row \<Rightarrow> bool) \<Rightarrow> (ssh_server_row \<Rightarrow> ssh_server_row) \<Rightarrow> ssh_tables \<Rightarrow> nat \<times> ssh_tables" where
  "update_servers P upd T =
    (length (filter P (server_rows T)),
     T\<lparr>server_rows := map (\<lambda>r. if P r then upd r else r) (server_rows T)\<rparr>)"

definition update_credentials ::
  "(ssh_onekey_credential_row \<Rightarrow> bool) \<Rightarrow> (ssh_onekey_credential_row \<Rightarrow> ssh_onekey_credential_row) \<Rightarrow>
   ssh_tables \<Rightarrow> nat \<times> ssh_tables" where
  "update_credentials P upd T =
    (length (filter P (credential_rows T)),
     T\<lparr>credential_rows := map (\<lambda>r. if P r then upd r else r) (credential_rows T)\<rparr>)"

definition update_routes ::
  "(ssh_route_row \<Rightarrow> bool) \<Rightarrow> (ssh_route_row \<Rightarrow> ssh_route_row) \<Rightarrow> ssh_tables \<Rightarrow> nat \<times> ssh_tables" where
  "update_routes P upd T =
    (length (filter P (route_rows T)),
     T\<lparr>route_rows := map (\<lambda>r. if P r then upd r else r) (route_rows T)\<rparr>)"

definition update_hops ::
  "(ssh_route_hop_row \<Rightarrow> bool) \<Rightarrow> (ssh_route_hop_row \<Rightarrow> ssh_route_hop_row) \<Rightarrow> ssh_tables \<Rightarrow> nat \<times> ssh_tables" where
  "update_hops P upd T =
    (length (filter P (hop_rows T)), T\<lparr>hop_rows := map (\<lambda>r. if P r then upd r else r) (hop_rows T)\<rparr>)"

definition insert_node :: "ssh_node_row \<Rightarrow> ssh_tables \<Rightarrow> nat \<times> ssh_tables" where
  "insert_node r T = (1, T\<lparr>node_rows := node_rows T @ [r]\<rparr>)"

definition insert_server :: "ssh_server_row \<Rightarrow> ssh_tables \<Rightarrow> nat \<times> ssh_tables" where
  "insert_server r T = (1, T\<lparr>server_rows := server_rows T @ [r]\<rparr>)"

definition insert_credential :: "ssh_onekey_credential_row \<Rightarrow> ssh_tables \<Rightarrow> nat \<times> ssh_tables" where
  "insert_credential r T = (1, T\<lparr>credential_rows := credential_rows T @ [r]\<rparr>)"

definition insert_route :: "ssh_route_row \<Rightarrow> ssh_tables \<Rightarrow> nat \<times> ssh_tables" where
  "insert_route r T = (1, T\<lparr>route_rows := route_rows T @ [r]\<rparr>)"

definition insert_hops :: "ssh_route_hop_row list \<Rightarrow> ssh_tables \<Rightarrow> nat \<times> ssh_tables" where
  "insert_hops rs T = (length rs, T\<lparr>hop_rows := hop_rows T @ rs\<rparr>)"

definition removing :: "(ssh_tables \<Rightarrow> nat) \<Rightarrow> (ssh_tables \<Rightarrow> ssh_tables) \<Rightarrow> ssh_tables \<Rightarrow> nat \<times> ssh_tables" where
  "removing n f T = (n T, f T)"

text \<open>A row as \<open>NewSshNode\<close> and its sisters insert it: the remaining columns have their defaults.\<close>

definition new_node_row ::
  "int \<Rightarrow> string \<Rightarrow> string option \<Rightarrow> string \<Rightarrow> string \<Rightarrow> int \<Rightarrow> ssh_node_row" where
  "new_node_row now new_id parent kind name order =
    \<lparr>nr_id = new_id, nr_parent_id = parent, nr_kind = kind, nr_name = name, nr_sort_order = order,
     nr_created_at = now, nr_updated_at = now, nr_is_collapsed = False\<rparr>"

definition new_credential_row ::
  "int \<Rightarrow> string \<Rightarrow> string \<Rightarrow> string \<Rightarrow> string \<Rightarrow> string option \<Rightarrow> ssh_onekey_credential_row" where
  "new_credential_row now new_id label username kind key_path =
    \<lparr>cr_id = new_id, cr_label = label, cr_username = username, cr_created_at = now,
     cr_updated_at = now, cr_kind = kind, cr_key_path = key_path\<rparr>"

definition server_row_of :: "string \<Rightarrow> ssh_server_info \<Rightarrow> ssh_server_row" where
  "server_row_of new_id info =
    \<lparr>sr_node_id = new_id, sr_host = s_host info, sr_port = uint (s_port info),
     sr_username = s_username info, sr_auth_type = auth_type_str (s_auth_type info),
     sr_key_path = s_key_path info, sr_startup_command = s_startup_command info,
     sr_notes = s_notes info, sr_last_connected_at = None, sr_credential_id = s_credential_id info\<rparr>"

section \<open>Small helpers\<close>

text \<open>\<open>let _ = Self::increment_sync_version(conn)\<close>: a failure is ignored.\<close>

definition ignore_bump :: "'a sync_db_scheme \<Rightarrow> 'a sync_db_scheme" where
  "ignore_bump db = snd (increment_sync_version db)"

definition wrap_i32 :: "int \<Rightarrow> int" where
  "wrap_i32 v = (v + 2 ^ 31) mod 2 ^ 32 - 2 ^ 31"

definition max_opt :: "int list \<Rightarrow> int option" where
  "max_opt xs = (if xs = [] then None else Some (Max (set xs)))"

text \<open>\<open>max.unwrap_or(-1) + 1\<close>, in the release build, which wraps.\<close>

definition order_after :: "int option \<Rightarrow> int" where
  "order_after m = wrap_i32 ((case m of None \<Rightarrow> - 1 | Some v \<Rightarrow> v) + 1)"

definition next_sort_order ::
  "string option \<Rightarrow> 'a sync_db_scheme \<Rightarrow> (repository_error + int) \<times> 'a sync_db_scheme" where
  "next_sort_order parent db =
    attempt (map_err Db (select (\<lambda>T.
        max_opt (map nr_sort_order (filter (\<lambda>r. nr_parent_id r = parent) (node_rows T)))) db)) (\<lambda>m db1.
      (Inr (order_after m), db1))"

definition next_sort_order_excluding ::
  "string option \<Rightarrow> string \<Rightarrow> 'a sync_db_scheme \<Rightarrow> (repository_error + int) \<times> 'a sync_db_scheme" where
  "next_sort_order_excluding parent exclude db =
    attempt (map_err Db (select (\<lambda>T.
        max_opt (map nr_sort_order
          (filter (\<lambda>r. nr_parent_id r = parent \<and> nr_id r \<noteq> exclude) (node_rows T)))) db)) (\<lambda>m db1.
      (Inr (order_after m), db1))"

section \<open>Nodes and servers\<close>

definition list_nodes ::
  "'a sync_db_scheme \<Rightarrow> (repository_error + ssh_node list) \<times> 'a sync_db_scheme" where
  "list_nodes db =
    attempt (map_err Db (select (\<lambda>T.
        sort_key (\<lambda>r. (nr_parent_id r, nr_sort_order r)) (node_rows T)) db)) (\<lambda>rows db1.
      (collect_results (map node_from_row rows), db1))"

definition get_server ::
  "string \<Rightarrow> 'a sync_db_scheme \<Rightarrow> (repository_error + ssh_server_info option) \<times> 'a sync_db_scheme" where
  "get_server node db =
    attempt (map_err Db (select (\<lambda>T. find (\<lambda>r. sr_node_id r = node) (server_rows T)) db)) (\<lambda>row db1.
      (transpose_opt server_from_row row, db1))"

definition get_node ::
  "string \<Rightarrow> 'a sync_db_scheme \<Rightarrow> (repository_error + ssh_node) \<times> 'a sync_db_scheme" where
  "get_node node db =
    attempt (map_err Db (select (\<lambda>T. find (\<lambda>r. nr_id r = node) (node_rows T)) db)) (\<lambda>row db1.
      (case row of None \<Rightarrow> (Inl (NodeNotFound node), db1) | Some r \<Rightarrow> (node_from_row r, db1)))"

definition ascii_lower :: "char \<Rightarrow> char" where
  "ascii_lower c =
    (if 65 \<le> (of_char c :: nat) \<and> of_char c \<le> (90 :: nat) then char_of (of_char c + 32 :: nat) else c)"

definition eq_ignore_ascii_case :: "string \<Rightarrow> string \<Rightarrow> bool" where
  "eq_ignore_ascii_case a b \<longleftrightarrow> map ascii_lower a = map ascii_lower b"

definition find_server_node_by_host_port ::
  "string \<Rightarrow> 16 word \<Rightarrow> 'a sync_db_scheme \<Rightarrow> (repository_error + string option) \<times> 'a sync_db_scheme" where
  "find_server_node_by_host_port host port db =
    attempt (map_err Db (select (\<lambda>T.
        sort_key sr_node_id (filter (\<lambda>r. sr_port r = uint port) (server_rows T))) db)) (\<lambda>rows db1.
      (Inr (map_option sr_node_id (find (\<lambda>r. eq_ignore_ascii_case (sr_host r) host) rows)), db1))"

definition create_folder ::
  "string \<Rightarrow> int \<Rightarrow> string option \<Rightarrow> string \<Rightarrow> 'a sync_db_scheme \<Rightarrow>
   (repository_error + ssh_node) \<times> 'a sync_db_scheme" where
  "create_folder new_id now parent name db =
    attempt (next_sort_order parent db) (\<lambda>order db1.
    attempt (map_err Db (modify (insert_node
        (new_node_row now new_id parent (node_kind_str Folder) name order)) db1)) (\<lambda>_ db2.
      get_node new_id (ignore_bump db2)))"

definition create_server ::
  "string \<Rightarrow> int \<Rightarrow> string option \<Rightarrow> string \<Rightarrow> ssh_server_info \<Rightarrow> 'a sync_db_scheme \<Rightarrow>
   (repository_error + ssh_node) \<times> 'a sync_db_scheme" where
  "create_server new_id now parent name info db =
    attempt (next_sort_order parent db) (\<lambda>order db1.
    attempt (map_err Db (transaction (\<lambda>e. e) (\<lambda>conn.
        attempt (modify (insert_node
          (new_node_row now new_id parent (node_kind_str Server) name order)) conn) (\<lambda>_ conn1.
        attempt (modify (insert_server (server_row_of new_id info)) conn1) (\<lambda>_ conn2.
          (Inr (), conn2)))) db1)) (\<lambda>_ db2.
      get_node new_id (ignore_bump db2)))"

text \<open>\<open>execute()?; if n == 0 { return Err(NotFound) }\<close>, then the version.\<close>

definition affecting ::
  "string \<Rightarrow> (string + nat) \<times> 'a sync_db_scheme \<Rightarrow> (repository_error + unit) \<times> 'a sync_db_scheme" where
  "affecting key r =
    attempt (map_err Db r) (\<lambda>n db. if n = 0 then (Inl (NodeNotFound key), db) else (Inr (), db))"

definition bumping ::
  "(repository_error + unit) \<times> 'a sync_db_scheme \<Rightarrow> (repository_error + unit) \<times> 'a sync_db_scheme" where
  "bumping r = attempt r (\<lambda>_ db. (Inr (), ignore_bump db))"

definition rename_node ::
  "int \<Rightarrow> string \<Rightarrow> string \<Rightarrow> 'a sync_db_scheme \<Rightarrow> (repository_error + unit) \<times> 'a sync_db_scheme" where
  "rename_node now node new_name db =
    bumping (affecting node (modify (update_nodes (\<lambda>r. nr_id r = node)
      (\<lambda>r. r\<lparr>nr_name := new_name, nr_updated_at := now\<rparr>)) db))"

definition update_server ::
  "int \<Rightarrow> ssh_server_info \<Rightarrow> 'a sync_db_scheme \<Rightarrow> (repository_error + unit) \<times> 'a sync_db_scheme" where
  "update_server now info db =
    attempt (affecting (s_node_id info) (modify (update_servers (\<lambda>r. sr_node_id r = s_node_id info)
      (\<lambda>r. r\<lparr>sr_host := s_host info, sr_port := uint (s_port info), sr_username := s_username info,
            sr_auth_type := auth_type_str (s_auth_type info), sr_key_path := s_key_path info,
            sr_startup_command := s_startup_command info, sr_notes := s_notes info,
            sr_credential_id := s_credential_id info\<rparr>)) db)) (\<lambda>_ db1.
    attempt (map_err Db (modify (update_nodes (\<lambda>r. nr_id r = s_node_id info)
      (\<lambda>r. r\<lparr>nr_updated_at := now\<rparr>)) db1)) (\<lambda>_ db2.
      (Inr (), ignore_bump db2)))"

definition delete_node ::
  "string \<Rightarrow> 'a sync_db_scheme \<Rightarrow> (repository_error + unit) \<times> 'a sync_db_scheme" where
  "delete_node node db =
    bumping (affecting node (modify (removing
      (\<lambda>T. length (filter (\<lambda>r. nr_id r = node) (node_rows T))) (delete_nodes (\<lambda>r. nr_id r = node))) db))"

definition move_node ::
  "int \<Rightarrow> string \<Rightarrow> string option \<Rightarrow> int \<Rightarrow> 'a sync_db_scheme \<Rightarrow>
   (repository_error + unit) \<times> 'a sync_db_scheme" where
  "move_node now node new_parent new_sort db =
    bumping (affecting node (modify (update_nodes (\<lambda>r. nr_id r = node)
      (\<lambda>r. r\<lparr>nr_parent_id := new_parent, nr_sort_order := new_sort, nr_updated_at := now\<rparr>)) db))"

definition move_node_to_end ::
  "int \<Rightarrow> string \<Rightarrow> string option \<Rightarrow> 'a sync_db_scheme \<Rightarrow>
   (repository_error + unit) \<times> 'a sync_db_scheme" where
  "move_node_to_end now node new_parent db =
    attempt (next_sort_order_excluding new_parent node db) (\<lambda>order db1.
      move_node now node new_parent order db1)"

definition touch_last_connected ::
  "int \<Rightarrow> string \<Rightarrow> 'a sync_db_scheme \<Rightarrow> (repository_error + unit) \<times> 'a sync_db_scheme" where
  "touch_last_connected now node db =
    attempt (map_err Db (modify (update_servers (\<lambda>r. sr_node_id r = node)
      (\<lambda>r. r\<lparr>sr_last_connected_at := Some now\<rparr>)) db)) (\<lambda>_ db1. (Inr (), db1))"

definition set_collapsed ::
  "int \<Rightarrow> string \<Rightarrow> bool \<Rightarrow> 'a sync_db_scheme \<Rightarrow> (repository_error + unit) \<times> 'a sync_db_scheme" where
  "set_collapsed now node collapsed db =
    affecting node (modify (update_nodes (\<lambda>r. nr_id r = node)
      (\<lambda>r. r\<lparr>nr_is_collapsed := collapsed, nr_updated_at := now\<rparr>)) db)"

definition set_all_folders_collapsed ::
  "int \<Rightarrow> bool \<Rightarrow> 'a sync_db_scheme \<Rightarrow> (repository_error + unit) \<times> 'a sync_db_scheme" where
  "set_all_folders_collapsed now collapsed db =
    attempt (map_err Db (modify (update_nodes (\<lambda>r. nr_kind r = node_kind_str Folder)
      (\<lambda>r. r\<lparr>nr_is_collapsed := collapsed, nr_updated_at := now\<rparr>)) db)) (\<lambda>_ db1. (Inr (), db1))"

section \<open>Routes\<close>

text \<open>\<open>char::is_whitespace\<close> and \<open>char::is_control\<close> on the first 256 code points.\<close>

definition trim :: "string \<Rightarrow> string" where
  "trim s = rev (dropWhile is_whitespace (rev (dropWhile is_whitespace s)))"

definition bad_hop :: "ssh_route_hop \<Rightarrow> bool" where
  "bad_hop hop \<longleftrightarrow>
    hop_port hop = Some 0 \<or> trim (hop_target_alias hop) = [] \<or>
    trim (hop_target_alias hop) \<noteq> hop_target_alias hop \<or>
    (case hop_target_alias hop of [] \<Rightarrow> False | c # _ \<Rightarrow> c = CHR ''-'') \<or>
    utf8_len (hop_target_alias hop) > 255 \<or>
    list_ex (\<lambda>c. is_control c \<or> is_whitespace c) (hop_target_alias hop)"

definition validate_route :: "string \<Rightarrow> ssh_route_hop list \<Rightarrow> repository_error + unit" where
  "validate_route name hops =
    (if trim name = [] then Inl (InvalidRoute ''the route name must not be empty'')
     else if hops = [] \<or> length hops > 8
     then Inl (InvalidRoute ''a route must have 1 to 8 hops'')
     else if list_ex bad_hop hops then Inl (InvalidRoute ''invalid hop alias or port'')
     else Inr ())"

definition hop_row :: "string \<Rightarrow> nat \<Rightarrow> ssh_route_hop \<Rightarrow> ssh_route_hop_row" where
  "hop_row route position hop =
    \<lparr>hr_route_id = route, hr_position = int position, hr_node_id = hop_node_id hop,
     hr_target_alias = hop_target_alias hop, hr_port = map_option uint (hop_port hop),
     hr_execution_scope = ''previous_hop''\<rparr>"

definition route_hop_inserts :: "string \<Rightarrow> ssh_route_hop list \<Rightarrow> ssh_route_hop_row list" where
  "route_hop_inserts route hops =
    map (\<lambda>(position, hop). hop_row route position hop) (enumerate 0 hops)"

fun hops_from_rows :: "string \<Rightarrow> nat \<Rightarrow> ssh_route_hop_row list \<Rightarrow> repository_error + ssh_route_hop list" where
  "hops_from_rows route expected [] = Inr []"
| "hops_from_rows route expected (h # hs) =
    (if hr_position h \<noteq> int expected \<or> hr_execution_scope h \<noteq> ''previous_hop''
     then Inl (InvalidRoute (''invalid hop order or scope in route '' @ route))
     else
       (case hops_from_rows route (Suc expected) hs of
         Inl e \<Rightarrow> Inl e
       | Inr rest \<Rightarrow> Inr
           (\<lparr>hop_node_id = hr_node_id h, hop_target_alias = hr_target_alias h,
             hop_port = map_option word_of_int (hr_port h)\<rparr> # rest)))"

definition route_from_row ::
  "ssh_route_row \<Rightarrow> 'a sync_db_scheme \<Rightarrow> (repository_error + ssh_route) \<times> 'a sync_db_scheme" where
  "route_from_row row db =
    attempt (map_err Db (select (\<lambda>T.
        sort_key hr_position (filter (\<lambda>h. hr_route_id h = rr_id row) (hop_rows T))) db)) (\<lambda>rows db1.
      (case hops_from_rows (rr_id row) 0 rows of
        Inl e \<Rightarrow> (Inl e, db1)
      | Inr hops \<Rightarrow>
          (case validate_route (rr_name row) hops of
            Inl e \<Rightarrow> (Inl e, db1)
          | Inr _ \<Rightarrow>
              (Inr \<lparr>route_id = rr_id row, route_name = rr_name row,
                route_target_node_id = rr_target_node_id row, route_hops = hops,
                route_created_at = rr_created_at row, route_updated_at = rr_updated_at row,
                route_last_connected_at = rr_last_connected_at row\<rparr>, db1))))"

fun routes_from_rows ::
  "ssh_route_row list \<Rightarrow> 'a sync_db_scheme \<Rightarrow> (repository_error + ssh_route list) \<times> 'a sync_db_scheme" where
  "routes_from_rows [] db = (Inr [], db)"
| "routes_from_rows (row # rows) db =
    attempt (route_from_row row db) (\<lambda>r db1.
    attempt (routes_from_rows rows db1) (\<lambda>rs db2. (Inr (r # rs), db2)))"

definition list_routes ::
  "'a sync_db_scheme \<Rightarrow> (repository_error + ssh_route list) \<times> 'a sync_db_scheme" where
  "list_routes db =
    attempt (map_err Db (select (\<lambda>T.
        sort_key (\<lambda>r. (- rr_updated_at r, rr_id r)) (route_rows T)) db)) (\<lambda>rows db1.
      routes_from_rows rows db1)"

definition get_route ::
  "string \<Rightarrow> 'a sync_db_scheme \<Rightarrow> (repository_error + ssh_route option) \<times> 'a sync_db_scheme" where
  "get_route route db =
    attempt (map_err Db (select (\<lambda>T. find (\<lambda>r. rr_id r = route) (route_rows T)) db)) (\<lambda>row db1.
      (case row of
        None \<Rightarrow> (Inr None, db1)
      | Some r \<Rightarrow> attempt (route_from_row r db1) (\<lambda>x db2. (Inr (Some x), db2))))"

definition create_route ::
  "string \<Rightarrow> int \<Rightarrow> string \<Rightarrow> string option \<Rightarrow> ssh_route_hop list \<Rightarrow> 'a sync_db_scheme \<Rightarrow>
   (repository_error + ssh_route) \<times> 'a sync_db_scheme" where
  "create_route new_id now name target hops db =
    (case validate_route name hops of
      Inl e \<Rightarrow> (Inl e, db)
    | Inr _ \<Rightarrow>
        attempt (map_err Db (transaction (\<lambda>e. e) (\<lambda>conn.
          attempt (modify (insert_route
            \<lparr>rr_id = new_id, rr_name = name, rr_target_node_id = target, rr_created_at = now,
             rr_updated_at = now, rr_last_connected_at = None\<rparr>) conn) (\<lambda>_ conn1.
          attempt (modify (insert_hops (route_hop_inserts new_id hops)) conn1) (\<lambda>_ conn2.
            (Inr (), conn2)))) db)) (\<lambda>_ db1.
        attempt (get_route new_id (ignore_bump db1)) (\<lambda>found db2.
          (case found of None \<Rightarrow> (Inl (NodeNotFound new_id), db2) | Some r \<Rightarrow> (Inr r, db2)))))"

definition update_route ::
  "int \<Rightarrow> string \<Rightarrow> string \<Rightarrow> string option \<Rightarrow> ssh_route_hop list \<Rightarrow> 'a sync_db_scheme \<Rightarrow>
   (repository_error + unit) \<times> 'a sync_db_scheme" where
  "update_route now route name target hops db =
    (case validate_route name hops of
      Inl e \<Rightarrow> (Inl e, db)
    | Inr _ \<Rightarrow>
        bumping (transaction Db (\<lambda>conn.
          attempt (affecting route (modify (update_routes (\<lambda>r. rr_id r = route)
            (\<lambda>r. r\<lparr>rr_name := name, rr_target_node_id := target, rr_updated_at := now\<rparr>)) conn)) (\<lambda>_ conn1.
          attempt (map_err Db (modify (removing (\<lambda>T. length (filter (\<lambda>h. hr_route_id h = route) (hop_rows T)))
            (delete_hops (\<lambda>h. hr_route_id h = route))) conn1)) (\<lambda>_ conn2.
          attempt (map_err Db (modify (insert_hops (route_hop_inserts route hops)) conn2)) (\<lambda>_ conn3.
            (Inr (), conn3))))) db))"

definition delete_route ::
  "string \<Rightarrow> 'a sync_db_scheme \<Rightarrow> (repository_error + unit) \<times> 'a sync_db_scheme" where
  "delete_route route db =
    bumping (affecting route (modify (removing
      (\<lambda>T. length (filter (\<lambda>r. rr_id r = route) (route_rows T))) (delete_routes (\<lambda>r. rr_id r = route))) db))"

definition mark_route_connected ::
  "int \<Rightarrow> string \<Rightarrow> 'a sync_db_scheme \<Rightarrow> (repository_error + unit) \<times> 'a sync_db_scheme" where
  "mark_route_connected now route db =
    bumping (affecting route (modify (update_routes (\<lambda>r. rr_id r = route)
      (\<lambda>r. r\<lparr>rr_last_connected_at := Some now, rr_updated_at := now\<rparr>)) db))"

section \<open>Credentials\<close>

definition list_onekey_credentials ::
  "'a sync_db_scheme \<Rightarrow> (repository_error + ssh_onekey_credential list) \<times> 'a sync_db_scheme" where
  "list_onekey_credentials db =
    attempt (map_err Db (select (\<lambda>T. sort_key cr_label (credential_rows T)) db)) (\<lambda>rows db1.
      (collect_results (map onekey_from_row rows), db1))"

definition get_onekey_credential ::
  "string \<Rightarrow> 'a sync_db_scheme \<Rightarrow>
   (repository_error + ssh_onekey_credential option) \<times> 'a sync_db_scheme" where
  "get_onekey_credential cred db =
    attempt (map_err Db (select (\<lambda>T. find (\<lambda>r. cr_id r = cred) (credential_rows T)) db)) (\<lambda>row db1.
      (transpose_opt onekey_from_row row, db1))"

definition create_onekey_credential ::
  "string \<Rightarrow> int \<Rightarrow> string \<Rightarrow> string \<Rightarrow> onekey_kind \<Rightarrow> string option \<Rightarrow> 'a sync_db_scheme \<Rightarrow>
   (repository_error + ssh_onekey_credential) \<times> 'a sync_db_scheme" where
  "create_onekey_credential new_id now label username kind key_path db =
    attempt (map_err Db (modify (insert_credential
        (new_credential_row now new_id label username (onekey_kind_str kind) key_path)) db)) (\<lambda>_ db1.
    attempt (get_onekey_credential new_id (ignore_bump db1)) (\<lambda>found db2.
      (case found of None \<Rightarrow> (Inl (NodeNotFound new_id), db2) | Some c \<Rightarrow> (Inr c, db2))))"

definition update_onekey_credential ::
  "int \<Rightarrow> ssh_onekey_credential \<Rightarrow> 'a sync_db_scheme \<Rightarrow> (repository_error + unit) \<times> 'a sync_db_scheme" where
  "update_onekey_credential now c db =
    bumping (affecting (c_id c) (modify (update_credentials (\<lambda>r. cr_id r = c_id c)
      (\<lambda>r. r\<lparr>cr_label := c_label c, cr_username := c_username c,
            cr_kind := onekey_kind_str (c_kind c), cr_key_path := c_key_path c,
            cr_updated_at := now\<rparr>)) db))"

definition delete_onekey_credential ::
  "string \<Rightarrow> 'a sync_db_scheme \<Rightarrow> (repository_error + unit) \<times> 'a sync_db_scheme" where
  "delete_onekey_credential cred db =
    bumping (affecting cred (modify (removing
      (\<lambda>T. length (filter (\<lambda>r. cr_id r = cred) (credential_rows T)))
      (delete_credentials (\<lambda>r. cr_id r = cred))) db))"

definition resolve_server_auth ::
  "ssh_server_info \<Rightarrow> 'a sync_db_scheme \<Rightarrow> (repository_error + resolved_ssh_auth) \<times> 'a sync_db_scheme" where
  "resolve_server_auth server db =
    (case s_auth_type server of
      AuthPassword \<Rightarrow>
        (Inr \<lparr>ra_username = s_username server, ra_auth_type = AuthPassword, ra_key_path = None,
          ra_secret_lookup_id = s_node_id server, ra_secret_kind = SecretPassword\<rparr>, db)
    | AuthKey \<Rightarrow>
        (Inr \<lparr>ra_username = s_username server, ra_auth_type = AuthKey,
          ra_key_path = s_key_path server, ra_secret_lookup_id = s_node_id server,
          ra_secret_kind = SecretPassphrase\<rparr>, db)
    | AuthOneKey \<Rightarrow>
        (case s_credential_id server of
          None \<Rightarrow> (Inl (NodeNotFound ''onekey credential''), db)
        | Some cred \<Rightarrow>
            attempt (get_onekey_credential cred db) (\<lambda>found db1.
              (case found of
                None \<Rightarrow> (Inl (NodeNotFound cred), db1)
              | Some c \<Rightarrow>
                  (Inr \<lparr>ra_username = c_username c,
                    ra_auth_type = (case c_kind c of OneKeyPassword \<Rightarrow> AuthPassword | OneKeyKey \<Rightarrow> AuthKey),
                    ra_key_path = c_key_path c, ra_secret_lookup_id = cred,
                    ra_secret_kind = (case c_kind c of
                        OneKeyPassword \<Rightarrow> SecretOneKeyPassword | OneKeyKey \<Rightarrow> SecretPassphrase)\<rparr>, db1)))))"

end
