(* ===== verification/Ssh_Rules.thy ===== *)
theory Ssh_Rules imports Ssh_Repository begin

text \<open>
  What the statements and the operations of \<open>SshRepository\<close> do to the tables: every branch
  of an operation either leaves the SSH tables as they were or leaves the ones its statements
  describe, which then satisfy the schema.
\<close>

section \<open>Statements\<close>

definition same_rest :: "'a sync_db_scheme \<Rightarrow> 'a sync_db_scheme \<Rightarrow> bool" where
  "same_rest a b \<longleftrightarrow> memory_rows b = memory_rows a \<and> sync_db.more b = sync_db.more a"

lemma same_rest_refl [simp]: "same_rest a a"
  by (simp add: same_rest_def)

lemma same_rest_trans [trans]: "same_rest a b \<Longrightarrow> same_rest b c \<Longrightarrow> same_rest a c"
  by (simp add: same_rest_def)

lemma same_tables_iff:
  "same_tables a b \<longleftrightarrow> sync_meta b = sync_meta a \<and> ssh b = ssh a \<and> same_rest a b"
  by (auto simp: same_tables_def db_content_def same_rest_def)

lemma statement_cases:
  obtains (fails) e db1 where "statement db = (Inl e, db1)" "same_tables db db1"
    | (runs) db1 where "statement db = (Inr (), db1)" "same_tables db db1"
  using statement_tables [of db] by (cases "statement db"; cases "fst (statement db)") auto

lemma select_cases:
  obtains (fails) e db1 where "select q db = (Inl e, db1)" "same_tables db db1"
    | (reads) db1 where "select q db = (Inr (q (ssh db)), db1)" "same_tables db db1"
  by (cases db rule: statement_cases) (auto simp: select_def same_tables_iff)

lemma modify_cases:
  obtains (fails) e db1 where "modify f db = (Inl e, db1)" "same_tables db db1"
    | (writes) db1 where "modify f db = (Inr (fst (f (ssh db))), db1)" "ssh db1 = snd (f (ssh db))"
      "tables_ok (ssh db1)" "sync_meta db1 = sync_meta db" "same_rest db db1"
proof (cases db rule: statement_cases)
  case (fails e db1)
  then show thesis using that(1) by (simp add: modify_def)
next
  case (runs db1)
  obtain n T where f: "f (ssh db1) = (n, T)" by fastforce
  show thesis
  proof (cases "violation T")
    case None
    then show thesis using runs f
      by (intro that(2) [of "db1\<lparr>ssh := T\<rparr>"]) (auto simp: modify_def same_tables_iff same_rest_def)
  next
    case (Some e)
    then show thesis using runs f by (intro that(1) [of e db1]) (simp_all add: modify_def)
  qed
qed

lemma ignore_bump_tables:
  "ssh (ignore_bump db) = ssh db" "same_rest db (ignore_bump db)"
  using increment_result(1) [of db, OF prod.collapse [symmetric]]
  by (simp_all add: ignore_bump_def db_content_def same_rest_def)

lemma ignore_bump_version:
  "db_version (ignore_bump db) = db_version db \<or> db_version (ignore_bump db) = db_version db + 1"
proof (cases "increment_sync_version db")
  case (Pair r db')
  show ?thesis
  proof (cases r)
    case (Inl e)
    then show ?thesis using same_tables_version [OF increment_result(3) [OF Pair Inl]] Pair
      by (simp add: ignore_bump_def)
  next
    case (Inr v)
    then show ?thesis using increment_result(2) [OF Pair] Pair by (simp add: ignore_bump_def)
  qed
qed

section \<open>Operations that change rows of one key\<close>

lemma update_nodes_none: "fst (update_nodes P u T) = 0 \<Longrightarrow> snd (update_nodes P u T) = T"
  by (auto simp: update_nodes_def filter_empty_conv intro!: map_idI ssh_tables.equality)

lemma update_servers_none: "fst (update_servers P u T) = 0 \<Longrightarrow> snd (update_servers P u T) = T"
  by (auto simp: update_servers_def filter_empty_conv intro!: map_idI ssh_tables.equality)

lemma update_credentials_none: "fst (update_credentials P u T) = 0 \<Longrightarrow> snd (update_credentials P u T) = T"
  by (auto simp: update_credentials_def filter_empty_conv intro!: map_idI ssh_tables.equality)

lemma update_routes_none: "fst (update_routes P u T) = 0 \<Longrightarrow> snd (update_routes P u T) = T"
  by (auto simp: update_routes_def filter_empty_conv intro!: map_idI ssh_tables.equality)

lemma delete_nodes_none:
  assumes "tables_ok T" and "filter P (node_rows T) = []"
  shows "delete_nodes P T = T"
proof -
  have rows: "filter (\<lambda>r. \<not> P r) (node_rows T) = node_rows T"
    using assms(2) by (auto simp: filter_empty_conv filter_id_conv)
  have "cascade [] (node_rows T) = node_rows T"
    by (subst cascade.simps) (auto simp: Let_def under_def filter_empty_conv split: option.splits)
  then have d: "delete_nodes P T = T\<lparr>node_rows := node_rows T,
      server_rows := filter (\<lambda>s. sr_node_id s \<in> set (node_ids T)) (server_rows T),
      route_rows := map (\<lambda>r. r\<lparr>rr_target_node_id := forget (node_ids T) (rr_target_node_id r)\<rparr>) (route_rows T),
      hop_rows := map (\<lambda>h. h\<lparr>hr_node_id := forget (node_ids T) (hr_node_id h)\<rparr>) (hop_rows T)\<rparr>"
    using assms(2) rows by (simp add: delete_nodes_def Let_def node_ids_def)
  have "filter (\<lambda>s. sr_node_id s \<in> set (node_ids T)) (server_rows T) = server_rows T"
    using assms(1) by (auto simp: tables_ok_def references_ok_def filter_id_conv)
  moreover have "map (\<lambda>r. r\<lparr>rr_target_node_id := forget (node_ids T) (rr_target_node_id r)\<rparr>) (route_rows T) = route_rows T"
    using assms(1) by (intro map_idI) (simp add: tables_ok_def references_ok_def forget_known)
  moreover have "map (\<lambda>h. h\<lparr>hr_node_id := forget (node_ids T) (hr_node_id h)\<rparr>) (hop_rows T) = hop_rows T"
    using assms(1) by (intro map_idI) (simp add: tables_ok_def references_ok_def forget_known)
  ultimately show ?thesis unfolding d by simp
qed

lemma affecting_modify_cases:
  obtains (fails) e db1 where "affecting key (modify f db) = (Inl e, db1)" "same_tables db db1"
    | (missing) db1 where "affecting key (modify f db) = (Inl (NodeNotFound key), db1)"
      "fst (f (ssh db)) = 0" "ssh db1 = snd (f (ssh db))" "sync_meta db1 = sync_meta db" "same_rest db db1"
    | (writes) db1 where "affecting key (modify f db) = (Inr (), db1)" "fst (f (ssh db)) \<noteq> 0"
      "ssh db1 = snd (f (ssh db))" "tables_ok (ssh db1)" "sync_meta db1 = sync_meta db" "same_rest db db1"
proof (cases f db rule: modify_cases)
  case (fails e db1)
  then show thesis using that(1) by (simp add: affecting_def)
next
  case (writes db1)
  then show thesis using that(2,3) by (cases "fst (f (ssh db)) = 0") (auto simp: affecting_def)
qed

text \<open>
  An operation of the form \<open>bumping (affecting ..)\<close>: on failure the SSH tables are unchanged,
  on success they are the ones of the statement, which changed at least one row.
\<close>

lemma bumping_modify:
  assumes run: "bumping (affecting key (modify f db)) = (r, db')"
    and none: "fst (f (ssh db)) = 0 \<Longrightarrow> snd (f (ssh db)) = ssh db"
  shows "same_rest db db'"
    and "r = Inl e \<Longrightarrow> ssh db' = ssh db"
    and "r = Inr () \<Longrightarrow> fst (f (ssh db)) \<noteq> 0 \<and> ssh db' = snd (f (ssh db)) \<and> tables_ok (ssh db')"
    and "ssh db' = ssh db \<or> ssh db' = snd (f (ssh db)) \<and> tables_ok (ssh db')"
proof -
  have "same_rest db db' \<and> (\<forall>e. r = Inl e \<longrightarrow> ssh db' = ssh db) \<and>
      (r = Inr () \<longrightarrow> fst (f (ssh db)) \<noteq> 0 \<and> ssh db' = snd (f (ssh db)) \<and> tables_ok (ssh db')) \<and>
      (ssh db' = ssh db \<or> ssh db' = snd (f (ssh db)) \<and> tables_ok (ssh db'))"
  proof (cases rule: affecting_modify_cases [of key f db])
    case (fails e db1)
    then show ?thesis using run by (auto simp: bumping_def same_tables_iff)
  next
    case (missing db1)
    then show ?thesis using run none by (auto simp: bumping_def)
  next
    case (writes db1)
    then show ?thesis
      using run ignore_bump_tables [of db1] same_rest_trans by (auto simp: bumping_def)
  qed
  then show "same_rest db db'" "r = Inl e \<Longrightarrow> ssh db' = ssh db"
    "r = Inr () \<Longrightarrow> fst (f (ssh db)) \<noteq> 0 \<and> ssh db' = snd (f (ssh db)) \<and> tables_ok (ssh db')"
    "ssh db' = ssh db \<or> ssh db' = snd (f (ssh db)) \<and> tables_ok (ssh db')" by blast+
qed

section \<open>Transactions over the SSH tables\<close>

text \<open>
  The body's effect on the tables is kept exactly when the transaction succeeds; \<open>G\<close> is what
  a success of the body promises of the tables before and after.
\<close>

lemma transaction_ssh:
  assumes run: "transaction wrap body db = (r, db')"
    and rest: "\<And>db1 r db2. body db1 = (r, db2) \<Longrightarrow> sync_db.more db2 = sync_db.more db1"
    and good: "\<And>db1 x db2. body db1 = (Inr x, db2) \<Longrightarrow> G (ssh db1) x (ssh db2)"
  shows "r = Inl e \<Longrightarrow> same_tables db db'"
    and "r = Inr x \<Longrightarrow> G (ssh db) x (ssh db')"
proof -
  have "(\<forall>e. r = Inl e \<longrightarrow> same_tables db db') \<and> (\<forall>x. r = Inr x \<longrightarrow> G (ssh db) x (ssh db'))"
  proof (rule transaction_cases [of body wrap db, OF rest])
    show "body a = (y, b) \<Longrightarrow> body a = (y, b)" for a y b .
  next
    fix e db1
    assume "transaction wrap body db = (Inl e, db1)" "same_tables db db1"
    then show ?thesis using run by simp
  next
    fix db1 x db2 db3
    assume c: "same_tables db db1" "body db1 = (Inr x, db2)" "same_tables db2 db3"
      "transaction wrap body db = (Inr x, db3)"
    then show ?thesis using good [OF c(2)] run by (auto simp: same_tables_iff)
  qed
  then show "r = Inl e \<Longrightarrow> same_tables db db'" "r = Inr x \<Longrightarrow> G (ssh db) x (ssh db')" by blast+
qed

text \<open>Two statements in a row, as in \<open>create_server\<close> and \<open>create_route\<close>.\<close>

lemma modify_modify:
  assumes "attempt (modify f db) (\<lambda>_ db1. attempt (modify g db1) (\<lambda>_ db2. (Inr (), db2))) = (r, db')"
  shows "sync_db.more db' = sync_db.more db"
    and "r = Inr x \<Longrightarrow> ssh db' = snd (g (snd (f (ssh db)))) \<and> tables_ok (ssh db')"
proof -
  have "sync_db.more db' = sync_db.more db \<and>
      (\<forall>x. r = Inr x \<longrightarrow> ssh db' = snd (g (snd (f (ssh db)))) \<and> tables_ok (ssh db'))"
  proof (cases f db rule: modify_cases)
    case (fails e db1)
    then show ?thesis using assms by (auto simp: same_tables_iff same_rest_def)
  next
    case (writes db1)
    then show ?thesis using assms
      by (cases g db1 rule: modify_cases) (auto simp: same_tables_iff same_rest_def)
  qed
  then show "sync_db.more db' = sync_db.more db"
    "r = Inr x \<Longrightarrow> ssh db' = snd (g (snd (f (ssh db)))) \<and> tables_ok (ssh db')" by blast+
qed

lemma modify_modify_transaction:
  assumes run: "transaction (\<lambda>e. e) (\<lambda>conn. attempt (modify f conn) (\<lambda>_ c1.
      attempt (modify g c1) (\<lambda>_ c2. (Inr (), c2)))) db = (r, db')"
  shows "r = Inl e \<Longrightarrow> same_tables db db'"
    and "r = Inr () \<Longrightarrow> ssh db' = snd (g (snd (f (ssh db)))) \<and> tables_ok (ssh db')"
proof -
  let ?G = "\<lambda>T (x :: unit) T'. T' = snd (g (snd (f T))) \<and> tables_ok T'"
  have more: "sync_db.more b = sync_db.more a"
    if "attempt (modify f a) (\<lambda>_ c1. attempt (modify g c1) (\<lambda>_ c2. (Inr (), c2))) = (y, b)"
    for y and a b :: "'a sync_db_scheme"
    by (rule modify_modify(1) [OF that])
  have good: "?G (ssh a) y (ssh b)"
    if "attempt (modify f a) (\<lambda>_ c1. attempt (modify g c1) (\<lambda>_ c2. (Inr (), c2))) = (Inr y, b)"
    for y and a b :: "'a sync_db_scheme"
    by (rule modify_modify(2) [OF that refl])
  show "r = Inl e \<Longrightarrow> same_tables db db'"
    by (rule transaction_ssh(1) [OF run, where G = ?G]) (rule more good, assumption)+
  show "r = Inr () \<Longrightarrow> ssh db' = snd (g (snd (f (ssh db)))) \<and> tables_ok (ssh db')"
    by (rule transaction_ssh(2) [OF run, where G = ?G]) (rule more good, assumption)+
qed


section \<open>Deleting a subtree\<close>

text \<open>The tables without the nodes \<open>gone\<close>, their servers and the references to them.\<close>

definition unlinked :: "(string \<Rightarrow> bool) \<Rightarrow> string option \<Rightarrow> string option" where
  "unlinked gone ref = (case ref of None \<Rightarrow> None | Some i \<Rightarrow> if gone i then None else Some i)"

definition without_nodes :: "(string \<Rightarrow> bool) \<Rightarrow> ssh_tables \<Rightarrow> ssh_tables" where
  "without_nodes gone T = T\<lparr>
    node_rows := filter (\<lambda>x. \<not> gone (nr_id x)) (node_rows T),
    server_rows := filter (\<lambda>s. \<not> gone (sr_node_id s)) (server_rows T),
    route_rows := map (\<lambda>x. x\<lparr>rr_target_node_id := unlinked gone (rr_target_node_id x)\<rparr>) (route_rows T),
    hop_rows := map (\<lambda>h. h\<lparr>hr_node_id := unlinked gone (hr_node_id h)\<rparr>) (hop_rows T)\<rparr>"

lemma delete_nodes_without:
  assumes ok: "tables_ok T"
  shows "delete_nodes P T = without_nodes (below (node_rows T) (map nr_id (filter P (node_rows T)))) T"
proof -
  let ?gone = "below (node_rows T) (map nr_id (filter P (node_rows T)))"
  have rows: "node_rows (delete_nodes P T) = filter (\<lambda>x. \<not> ?gone (nr_id x)) (node_rows T)"
    by (rule kept_nodes [OF ok])
  let ?ids = "map nr_id (node_rows (delete_nodes P T))"
  have ids: "i \<in> set ?ids \<longleftrightarrow> \<not> ?gone i" if "i \<in> set (node_ids T)" for i
    using that unfolding rows node_ids_def by auto
  have forget: "forget ?ids ref = unlinked ?gone ref" if "points_into ref (node_ids T)" for ref
    using that ids by (cases ref) (auto simp: forget_def points_into_def unlinked_def)
  have "filter (\<lambda>s. sr_node_id s \<in> set ?ids) (server_rows T) = filter (\<lambda>s. \<not> ?gone (sr_node_id s)) (server_rows T)"
    by (rule filter_cong [OF refl]) (use ok ids in \<open>simp add: tables_ok_def references_ok_def\<close>)
  moreover have "map (\<lambda>x. x\<lparr>rr_target_node_id := forget ?ids (rr_target_node_id x)\<rparr>) (route_rows T) =
      map (\<lambda>x. x\<lparr>rr_target_node_id := unlinked ?gone (rr_target_node_id x)\<rparr>) (route_rows T)"
    by (rule map_cong [OF refl]) (use ok forget in \<open>simp add: tables_ok_def references_ok_def\<close>)
  moreover have "map (\<lambda>h. h\<lparr>hr_node_id := forget ?ids (hr_node_id h)\<rparr>) (hop_rows T) =
      map (\<lambda>h. h\<lparr>hr_node_id := unlinked ?gone (hr_node_id h)\<rparr>) (hop_rows T)"
    by (rule map_cong [OF refl]) (use ok forget in \<open>simp add: tables_ok_def references_ok_def\<close>)
  moreover have "delete_nodes P T = T\<lparr>node_rows := node_rows (delete_nodes P T),
      server_rows := filter (\<lambda>s. sr_node_id s \<in> set ?ids) (server_rows T),
      route_rows := map (\<lambda>x. x\<lparr>rr_target_node_id := forget ?ids (rr_target_node_id x)\<rparr>) (route_rows T),
      hop_rows := map (\<lambda>h. h\<lparr>hr_node_id := forget ?ids (hr_node_id h)\<rparr>) (hop_rows T)\<rparr>"
    by (simp add: delete_nodes_def Let_def)
  ultimately show ?thesis unfolding without_nodes_def rows by simp
qed

lemma distinct_single: "distinct xs \<Longrightarrow> set xs = {x} \<Longrightarrow> xs = [x]"
  by (cases xs; cases "tl xs") auto

lemma delete_node_result:
  assumes ok: "tables_ok (ssh db)" and run: "delete_node n db = (r, db')"
  shows "r = Inl e \<Longrightarrow> ssh db' = ssh db"
    and "r = Inr () \<Longrightarrow> n \<in> set (node_ids (ssh db)) \<and> tables_ok (ssh db') \<and>
      ssh db' = without_nodes (below (node_rows (ssh db)) [n]) (ssh db)"
proof -
  let ?T = "ssh db" and ?P = "\<lambda>x. nr_id x = n"
  let ?f = "removing (\<lambda>T. length (filter ?P (node_rows T))) (delete_nodes ?P)"
  have step: "bumping (affecting n (modify ?f db)) = (r, db')" using run by (simp add: delete_node_def)
  have none: "fst (?f ?T) = 0 \<Longrightarrow> snd (?f ?T) = ?T"
    using delete_nodes_none [OF ok, of ?P] by (simp add: removing_def)
  show "r = Inl e \<Longrightarrow> ssh db' = ssh db" by (rule bumping_modify(2) [OF step none])
  show "n \<in> set (node_ids ?T) \<and> tables_ok (ssh db') \<and> ssh db' = without_nodes (below (node_rows ?T) [n]) ?T"
    if fine: "r = Inr ()"
  proof -
    have T': "filter ?P (node_rows ?T) \<noteq> []" "ssh db' = delete_nodes ?P ?T" "tables_ok (ssh db')"
      using bumping_modify(3) [OF step none fine] by (auto simp: removing_def)
    have n: "n \<in> set (node_ids ?T)" using T'(1) by (auto simp: node_ids_def filter_empty_conv)
    have "distinct (map nr_id (filter ?P (node_rows ?T)))"
      using ok by (simp add: tables_ok_def keys_ok_def node_ids_def distinct_map_filter)
    moreover have "set (map nr_id (filter ?P (node_rows ?T))) = {n}" using n by (auto simp: node_ids_def)
    ultimately have "map nr_id (filter ?P (node_rows ?T)) = [n]" by (rule distinct_single)
    then show ?thesis using delete_nodes_without [OF ok, of ?P] T'(2,3) n by simp
  qed
qed

end
