(* ===== verification/Secret_Store.thy ===== *)
theory Secret_Store imports Ssh_Types begin

text \<open>
  The keychain behind the SSH manager (\<open>warp_ssh_manager/src/secrets.rs\<close>): the trait
  \<open>SshSecretStore\<close>, its implementation \<open>KeychainSecretStore\<close> with the migration from the
  old service name, and what a client may rely on.

  The crate \<open>keyring\<close> is third-party: an entry is a cell named by a service and an account,
  and every call on it either fails and changes nothing or does what it says; reading or
  deleting an empty cell is the error \<open>NoEntry\<close>.  Which calls fail is data of the state, as
  for the statements of the database.
\<close>

section \<open>The crate keyring\<close>

datatype keyring_fault =
    NoStorageAccess string
  | PlatformFailure string
  | OtherKeyring string

datatype keyring_error = NoEntry | Fault keyring_fault

record keychain =
  cells :: "string \<times> string \<Rightarrow> string option"
  keyring_calls :: "keyring_fault option list"

definition keyring_call :: "keychain \<Rightarrow> (keyring_fault + unit) \<times> keychain" where
  "keyring_call k =
    (case keyring_calls k of
      [] \<Rightarrow> (Inr (), k)
    | None # rest \<Rightarrow> (Inr (), k\<lparr>keyring_calls := rest\<rparr>)
    | Some e # rest \<Rightarrow> (Inl e, k\<lparr>keyring_calls := rest\<rparr>))"

definition get_password :: "string \<times> string \<Rightarrow> keychain \<Rightarrow> (keyring_error + string) \<times> keychain" where
  "get_password cell k =
    attempt (map_err Fault (keyring_call k)) (\<lambda>_ k1.
      (case cells k1 cell of None \<Rightarrow> Inl NoEntry | Some s \<Rightarrow> Inr s, k1))"

definition set_password :: "string \<times> string \<Rightarrow> string \<Rightarrow> keychain \<Rightarrow> (keyring_fault + unit) \<times> keychain" where
  "set_password cell s k =
    attempt (keyring_call k) (\<lambda>_ k1. (Inr (), k1\<lparr>cells := (cells k1)(cell \<mapsto> s)\<rparr>))"

definition delete_credential :: "string \<times> string \<Rightarrow> keychain \<Rightarrow> (keyring_error + unit) \<times> keychain" where
  "delete_credential cell k =
    attempt (map_err Fault (keyring_call k)) (\<lambda>_ k1.
      (case cells k1 cell of
        None \<Rightarrow> (Inl NoEntry, k1)
      | Some _ \<Rightarrow> (Inr (), k1\<lparr>cells := (cells k1)(cell := None)\<rparr>)))"

section \<open>KeychainSecretStore\<close>

datatype secret_store_error = NoBackend | Keyring string

fun secret_store_error_text :: "secret_store_error \<Rightarrow> string" where
  "secret_store_error_text NoBackend = ''no keychain backend available on this platform''"
| "secret_store_error_text (Keyring e) = ''keyring error: '' @ e"

fun from_keyring :: "keyring_fault \<Rightarrow> secret_store_error" where
  "from_keyring (NoStorageAccess _) = NoBackend"
| "from_keyring (PlatformFailure _) = NoBackend"
| "from_keyring (OtherKeyring e) = Keyring e"

definition SERVICE :: string where "SERVICE = ''infinishell.ssh''"
definition LEGACY_SERVICE :: string where "LEGACY_SERVICE = ''zap.ssh''"

definition account_key :: "string \<Rightarrow> secret_kind \<Rightarrow> string" where
  "account_key node kind = node @ '':'' @ suffix_str kind"

definition keychain_set ::
  "string \<Rightarrow> secret_kind \<Rightarrow> string \<Rightarrow> keychain \<Rightarrow> (secret_store_error + unit) \<times> keychain" where
  "keychain_set node kind secret k =
    map_err from_keyring (attempt (keyring_call k) (\<lambda>_ k1.
      set_password (SERVICE, account_key node kind) secret k1))"

definition legacy_get ::
  "string \<Rightarrow> keychain \<Rightarrow> (secret_store_error + string option) \<times> keychain" where
  "legacy_get account k =
    attempt (map_err from_keyring (keyring_call k)) (\<lambda>_ k1.
      (case get_password (LEGACY_SERVICE, account) k1 of
        (Inr secret, k2) \<Rightarrow>
          (case set_password (SERVICE, account) secret k2 of
            (Inr _, k3) \<Rightarrow> (Inr (Some secret), snd (delete_credential (LEGACY_SERVICE, account) k3))
          | (Inl _, k3) \<Rightarrow> (Inr (Some secret), k3))
      | (Inl NoEntry, k2) \<Rightarrow> (Inr None, k2)
      | (Inl (Fault e), k2) \<Rightarrow> (Inl (from_keyring e), k2)))"

definition keychain_get ::
  "string \<Rightarrow> secret_kind \<Rightarrow> keychain \<Rightarrow> (secret_store_error + string option) \<times> keychain" where
  "keychain_get node kind k =
    attempt (map_err from_keyring (keyring_call k)) (\<lambda>_ k1.
      (case get_password (SERVICE, account_key node kind) k1 of
        (Inr s, k2) \<Rightarrow> (Inr (Some s), k2)
      | (Inl NoEntry, k2) \<Rightarrow> legacy_get (account_key node kind) k2
      | (Inl (Fault e), k2) \<Rightarrow> (Inl (from_keyring e), k2)))"

definition delete_keyring_entry ::
  "string \<Rightarrow> string \<Rightarrow> keychain \<Rightarrow> (secret_store_error + unit) \<times> keychain" where
  "delete_keyring_entry service account k =
    attempt (map_err from_keyring (keyring_call k)) (\<lambda>_ k1.
      (case delete_credential (service, account) k1 of
        (Inr _, k2) \<Rightarrow> (Inr (), k2)
      | (Inl NoEntry, k2) \<Rightarrow> (Inr (), k2)
      | (Inl (Fault e), k2) \<Rightarrow> (Inl (from_keyring e), k2)))"

definition keychain_delete ::
  "string \<Rightarrow> secret_kind \<Rightarrow> keychain \<Rightarrow> (secret_store_error + unit) \<times> keychain" where
  "keychain_delete node kind k =
    attempt (delete_keyring_entry SERVICE (account_key node kind) k) (\<lambda>_ k1.
      delete_keyring_entry LEGACY_SERVICE (account_key node kind) k1)"

section \<open>The trait, and what it promises\<close>

text \<open>\<open>Box<dyn SshSecretStore>\<close>: the operations, on the part of the world that holds the secrets.\<close>

record 'm secret_store =
  store_set :: "string \<Rightarrow> secret_kind \<Rightarrow> string \<Rightarrow> 'm \<Rightarrow> (secret_store_error + unit) \<times> 'm"
  store_get :: "string \<Rightarrow> secret_kind \<Rightarrow> 'm \<Rightarrow> (secret_store_error + string option) \<times> 'm"
  store_delete :: "string \<Rightarrow> secret_kind \<Rightarrow> 'm \<Rightarrow> (secret_store_error + unit) \<times> 'm"

definition keychain_store :: "keychain secret_store" where
  "keychain_store =
    \<lparr>store_set = keychain_set, store_get = keychain_get, store_delete = keychain_delete\<rparr>"

text \<open>
  \<open>secrets m (n, k)\<close> is the secret of kind \<open>k\<close> that the store holds for \<open>n\<close>.  Reading never
  changes it; writing and deleting change the one secret, or fail; only a deletion that fails
  may leave that one secret in doubt.
\<close>

locale secret_contract =
  fixes store :: "'m secret_store" and secrets :: "'m \<Rightarrow> string \<times> secret_kind \<Rightarrow> string option"
  assumes set_ok: "store_set store n k v m = (Inr u, m') \<Longrightarrow> secrets m' = (secrets m)((n, k) \<mapsto> v)"
    and set_fails: "store_set store n k v m = (Inl e, m') \<Longrightarrow> secrets m' = secrets m"
    and get_ok: "store_get store n k m = (Inr r, m') \<Longrightarrow> r = secrets m (n, k)"
    and get_keeps: "secrets (snd (store_get store n k m)) = secrets m"
    and delete_ok: "store_delete store n k m = (Inr u, m') \<Longrightarrow> secrets m' = (secrets m)((n, k) := None)"
    and delete_other: "(n, k) \<noteq> x \<Longrightarrow> secrets (snd (store_delete store n k m)) x = secrets m x"

section \<open>The keychain keeps the promise\<close>

definition secrets_in ::
  "(string \<times> string \<Rightarrow> string option) \<Rightarrow> string \<times> secret_kind \<Rightarrow> string option" where
  "secrets_in c = (\<lambda>(node, kind).
    (case c (SERVICE, account_key node kind) of
      Some s \<Rightarrow> Some s
    | None \<Rightarrow> c (LEGACY_SERVICE, account_key node kind)))"

definition keychain_secrets :: "keychain \<Rightarrow> string \<times> secret_kind \<Rightarrow> string option" where
  "keychain_secrets k = secrets_in (cells k)"

lemma suffix_no_colon: "CHR '':'' \<notin> set (suffix_str kind)"
  by (cases kind) simp_all

lemma suffix_inject: "suffix_str a = suffix_str b \<longleftrightarrow> a = b"
  by (cases a; cases b) simp_all

lemma account_key_inject [simp]: "account_key a k = account_key b l \<longleftrightarrow> a = b \<and> k = l"
proof
  assume eq: "account_key a k = account_key b l"
  then have "takeWhile (\<lambda>c. c \<noteq> CHR '':'') (rev (account_key a k)) =
      takeWhile (\<lambda>c. c \<noteq> CHR '':'') (rev (account_key b l))" by simp
  moreover have "takeWhile (\<lambda>c. c \<noteq> CHR '':'') (rev (account_key x y)) = rev (suffix_str y)" for x y
  proof -
    have "takeWhile (\<lambda>c. c \<noteq> CHR '':'') (rev (suffix_str y) @ CHR '':'' # rev x) = rev (suffix_str y)"
      using suffix_no_colon [of y] by (auto simp: takeWhile_append)
    then show ?thesis by (simp add: account_key_def)
  qed
  ultimately have "k = l" by (simp add: suffix_inject)
  then show "a = b \<and> k = l" using eq by (simp add: account_key_def)
qed simp

lemma services_differ [simp]: "SERVICE \<noteq> LEGACY_SERVICE" "LEGACY_SERVICE \<noteq> SERVICE"
  by (simp_all add: SERVICE_def LEGACY_SERVICE_def)

lemma keyring_call_cells [simp]: "cells (snd (keyring_call k)) = cells k"
  by (auto simp: keyring_call_def split: list.splits option.splits)

lemma keyring_call_cells': "keyring_call k = (r, k') \<Longrightarrow> cells k' = cells k"
  using keyring_call_cells [of k] by simp

lemmas keychain_defs = keychain_set_def keychain_get_def keychain_delete_def legacy_get_def
  delete_keyring_entry_def get_password_def set_password_def delete_credential_def

text \<open>The four calls on a cell.\<close>

lemma keyring_call_cases:
  obtains (fails) e k' where "keyring_call k = (Inl e, k')" "cells k' = cells k"
    | (runs) k' where "keyring_call k = (Inr (), k')" "cells k' = cells k"
proof -
  obtain r k' where call: "keyring_call k = (r, k')" by fastforce
  show thesis
  proof (cases r)
    case (Inl e)
    then show thesis using that(1) [of e k'] call keyring_call_cells' [OF call] by simp
  next
    case (Inr u)
    then show thesis using that(2) [of k'] call keyring_call_cells' [OF call] by simp
  qed
qed

lemma get_password_cases:
  obtains (fails) e k' where "get_password c k = (Inl (Fault e), k')" "cells k' = cells k"
    | (empty) k' where "get_password c k = (Inl NoEntry, k')" "cells k' = cells k" "cells k c = None"
    | (reads) s k' where "get_password c k = (Inr s, k')" "cells k' = cells k" "cells k c = Some s"
proof (cases k rule: keyring_call_cases)
  case (fails e k')
  then show thesis using that(1) by (simp add: get_password_def)
next
  case (runs k')
  then show thesis using that(2,3) by (cases "cells k c") (simp_all add: get_password_def)
qed

lemma set_password_cases:
  obtains (fails) e k' where "set_password c s k = (Inl e, k')" "cells k' = cells k"
    | (writes) k' where "set_password c s k = (Inr (), k')" "cells k' = (cells k)(c \<mapsto> s)"
proof (cases k rule: keyring_call_cases)
  case (fails e k')
  then show thesis using that(1) by (simp add: set_password_def)
next
  case (runs k')
  then show thesis using that(2) by (simp add: set_password_def)
qed

lemma delete_credential_cases:
  obtains (fails) e k' where "delete_credential c k = (Inl (Fault e), k')" "cells k' = cells k"
    | (empty) k' where "delete_credential c k = (Inl NoEntry, k')" "cells k' = cells k" "cells k c = None"
    | (deletes) k' where "delete_credential c k = (Inr (), k')" "cells k' = (cells k)(c := None)"
proof (cases k rule: keyring_call_cases)
  case (fails e k')
  then show thesis using that(1) by (simp add: delete_credential_def)
next
  case (runs k')
  then show thesis using that(2,3) by (cases "cells k c") (simp_all add: delete_credential_def)
qed

lemma delete_entry_cases:
  obtains (fails) e k' where "delete_keyring_entry s a k = (Inl e, k')" "cells k' = cells k"
    | (deletes) k' where "delete_keyring_entry s a k = (Inr (), k')" "cells k' = (cells k)((s, a) := None)"
proof (cases k rule: keyring_call_cases)
  case (fails e k')
  then show thesis using that(1) by (simp add: delete_keyring_entry_def)
next
  case (runs k')
  show thesis
    by (cases rule: delete_credential_cases [of "(s, a)" k'])
      (use runs that in \<open>auto simp: delete_keyring_entry_def fun_upd_idem\<close>)
qed

lemma secrets_in_set: "secrets_in (c((SERVICE, account_key n kd) \<mapsto> v)) = (secrets_in c)((n, kd) \<mapsto> v)"
proof
  fix x
  show "secrets_in (c((SERVICE, account_key n kd) \<mapsto> v)) x = ((secrets_in c)((n, kd) \<mapsto> v)) x"
    by (cases x) (auto simp: secrets_in_def split: option.split)
qed

text \<open>The legacy cell counts only while the other is empty.\<close>

lemma secrets_in_legacy:
  "secrets_in (c((LEGACY_SERVICE, account_key n kd) := v)) =
    (if c (SERVICE, account_key n kd) = None then (secrets_in c)((n, kd) := v) else secrets_in c)"
proof
  fix x
  show "secrets_in (c((LEGACY_SERVICE, account_key n kd) := v)) x =
    (if c (SERVICE, account_key n kd) = None then (secrets_in c)((n, kd) := v) else secrets_in c) x"
    by (cases x) (auto simp: secrets_in_def split: option.split)
qed

lemma secrets_in_empty:
  "c (SERVICE, account_key n kd) = None \<Longrightarrow> secrets_in c (n, kd) = c (LEGACY_SERVICE, account_key n kd)"
  by (simp add: secrets_in_def)

lemma secrets_in_full: "c (SERVICE, account_key n kd) = Some s \<Longrightarrow> secrets_in c (n, kd) = Some s"
  by (simp add: secrets_in_def)

lemma secrets_in_other:
  "(n, kd) \<noteq> x \<Longrightarrow> secrets_in (c((s, account_key n kd) := v)) x = secrets_in c x"
  by (cases x) (auto simp: secrets_in_def split: option.split)

lemmas secrets_rules = keychain_secrets_def secrets_in_set secrets_in_legacy secrets_in_empty secrets_in_full

lemma legacy_get_result:
  assumes run: "legacy_get (account_key n kd) k = (r, k')"
    and empty: "cells k (SERVICE, account_key n kd) = None"
  shows "keychain_secrets k' = keychain_secrets k" and "r = Inr x \<Longrightarrow> x = keychain_secrets k (n, kd)"
proof -
  let ?new = "(SERVICE, account_key n kd)" and ?old = "(LEGACY_SERVICE, account_key n kd)"
  have "keychain_secrets k' = keychain_secrets k \<and> (\<forall>x. r = Inr x \<longrightarrow> x = keychain_secrets k (n, kd))"
  proof (cases k rule: keyring_call_cases)
    case (fails e k1)
    then have "r = Inl (from_keyring e)" "k' = k1" using run by (simp_all add: legacy_get_def)
    then show ?thesis using fails by (simp add: keychain_secrets_def)
  next
    case (runs k1)
    show ?thesis
    proof (cases rule: get_password_cases [of ?old k1])
      case (reads s k2)
      have old: "cells k ?old = Some s" using reads runs by simp
      then have here: "keychain_secrets k (n, kd) = Some s" using empty by (simp add: secrets_rules)
      show ?thesis
      proof (cases rule: set_password_cases [of ?new s k2])
        case (fails e k3)
        then have "r = Inr (Some s)" "k' = k3" using run runs reads by (simp_all add: legacy_get_def)
        then show ?thesis using here fails reads runs by (simp add: keychain_secrets_def)
      next
        case (writes k3)
        have r: "r = Inr (Some s)" and k': "k' = snd (delete_credential ?old k3)"
          using run runs reads writes by (simp_all add: legacy_get_def)
        have "cells k' = (cells k)(?new \<mapsto> s) \<or> cells k' = (cells k)(?new \<mapsto> s, ?old := None)"
          using k' runs reads writes by (cases rule: delete_credential_cases [of ?old k3]) simp_all
        then have "keychain_secrets k' = (keychain_secrets k)((n, kd) \<mapsto> s)"
          by (auto simp: secrets_rules)
        then show ?thesis using r here by (simp add: fun_upd_idem)
      qed
    next
      case (fails e k2)
      then have "r = Inl (from_keyring e)" "k' = k2" using run runs by (simp_all add: legacy_get_def)
      then show ?thesis using fails runs by (simp add: keychain_secrets_def)
    next
      case (empty k2)
      then have "r = Inr None" "k' = k2" using run runs by (simp_all add: legacy_get_def)
      then show ?thesis using empty runs assms(2) by (simp add: secrets_rules)
    qed
  qed
  then show "keychain_secrets k' = keychain_secrets k" "r = Inr x \<Longrightarrow> x = keychain_secrets k (n, kd)"
    by blast+
qed

lemma keychain_get_result:
  assumes run: "keychain_get n kd k = (r, k')"
  shows "keychain_secrets k' = keychain_secrets k" and "r = Inr x \<Longrightarrow> x = keychain_secrets k (n, kd)"
proof -
  have "keychain_secrets k' = keychain_secrets k \<and> (\<forall>x. r = Inr x \<longrightarrow> x = keychain_secrets k (n, kd))"
  proof (cases k rule: keyring_call_cases)
    case (fails e k1)
    then have "r = Inl (from_keyring e)" "k' = k1" using run by (simp_all add: keychain_get_def)
    then show ?thesis using fails by (simp add: keychain_secrets_def)
  next
    case (runs k1)
    show ?thesis
    proof (cases rule: get_password_cases [of "(SERVICE, account_key n kd)" k1])
      case (fails e k2)
      then have "r = Inl (from_keyring e)" "k' = k2" using run runs by (simp_all add: keychain_get_def)
      then show ?thesis using fails runs by (simp add: keychain_secrets_def)
    next
      case (empty k2)
      have leg: "legacy_get (account_key n kd) k2 = (r, k')"
        using run runs empty by (simp add: keychain_get_def)
      have c: "cells k2 = cells k" using empty runs by simp
      have none: "cells k2 (SERVICE, account_key n kd) = None" using empty runs by simp
      show ?thesis
        using legacy_get_result(1) [OF leg none] legacy_get_result(2) [OF leg none] c
        by (auto simp: keychain_secrets_def)
    next
      case (reads s k2)
      then have "r = Inr (Some s)" "k' = k2" using run runs by (simp_all add: keychain_get_def)
      then show ?thesis using reads runs by (simp add: secrets_rules)
    qed
  qed
  then show "keychain_secrets k' = keychain_secrets k" "r = Inr x \<Longrightarrow> x = keychain_secrets k (n, kd)"
    by blast+
qed

lemma keychain_set_result:
  assumes run: "keychain_set n kd v k = (r, k')"
  shows "r = Inl e \<Longrightarrow> keychain_secrets k' = keychain_secrets k"
    and "r = Inr u \<Longrightarrow> keychain_secrets k' = (keychain_secrets k)((n, kd) \<mapsto> v)"
proof -
  have "(\<forall>e. r = Inl e \<longrightarrow> keychain_secrets k' = keychain_secrets k) \<and>
      (\<forall>u. r = Inr u \<longrightarrow> keychain_secrets k' = (keychain_secrets k)((n, kd) \<mapsto> v))"
  proof (cases k rule: keyring_call_cases)
    case (fails e k1)
    then have "r = Inl (from_keyring e)" "k' = k1" using run by (simp_all add: keychain_set_def)
    then show ?thesis using fails by (simp add: keychain_secrets_def)
  next
    case (runs k1)
    show ?thesis
    proof (cases rule: set_password_cases [of "(SERVICE, account_key n kd)" v k1])
      case (fails e k2)
      then have "r = Inl (from_keyring e)" "k' = k2" using run runs by (simp_all add: keychain_set_def)
      then show ?thesis using fails runs by (simp add: keychain_secrets_def)
    next
      case (writes k2)
      then have "r = Inr ()" "k' = k2" using run runs by (simp_all add: keychain_set_def)
      then show ?thesis using writes runs by (simp add: secrets_rules)
    qed
  qed
  then show "r = Inl e \<Longrightarrow> keychain_secrets k' = keychain_secrets k"
    "r = Inr u \<Longrightarrow> keychain_secrets k' = (keychain_secrets k)((n, kd) \<mapsto> v)" by blast+
qed

lemma keychain_delete_result:
  assumes run: "keychain_delete n kd k = (r, k')"
  shows "(n, kd) \<noteq> x \<Longrightarrow> keychain_secrets k' x = keychain_secrets k x"
    and "r = Inr u \<Longrightarrow> keychain_secrets k' = (keychain_secrets k)((n, kd) := None)"
proof -
  let ?a = "account_key n kd"
  have "(\<forall>x. (n, kd) \<noteq> x \<longrightarrow> keychain_secrets k' x = keychain_secrets k x) \<and>
      (\<forall>u. r = Inr u \<longrightarrow> keychain_secrets k' (n, kd) = None)"
  proof (cases rule: delete_entry_cases [of SERVICE ?a k])
    case (fails e k1)
    then have "r = Inl e" "k' = k1" using run by (simp_all add: keychain_delete_def)
    then show ?thesis using fails by (simp add: keychain_secrets_def)
  next
    case (deletes k1)
    show ?thesis
    proof (cases rule: delete_entry_cases [of LEGACY_SERVICE ?a k1])
      case (fails e k2)
      then have "r = Inl e" "k' = k2" using run deletes by (simp_all add: keychain_delete_def)
      then show ?thesis using fails deletes(2) by (simp add: keychain_secrets_def secrets_in_other)
    next
      case (deletes k2)
      then have "r = Inr ()" "k' = k2" "cells k2 = (cells k)((SERVICE, ?a) := None, (LEGACY_SERVICE, ?a) := None)"
        using run \<open>delete_keyring_entry SERVICE ?a k = (Inr (), k1)\<close> \<open>cells k1 = _\<close>
        by (simp_all add: keychain_delete_def)
      then show ?thesis by (simp add: keychain_secrets_def secrets_in_other) (simp add: secrets_in_def)
    qed
  qed
  then show "(n, kd) \<noteq> x \<Longrightarrow> keychain_secrets k' x = keychain_secrets k x"
    "r = Inr u \<Longrightarrow> keychain_secrets k' = (keychain_secrets k)((n, kd) := None)"
    by (blast, auto simp: fun_eq_iff)
qed

interpretation keychain_ok: secret_contract keychain_store keychain_secrets
proof unfold_locales
  fix n k v x and m m' :: keychain and u :: unit and e r
  show "store_set keychain_store n k v m = (Inr u, m') \<Longrightarrow>
      keychain_secrets m' = (keychain_secrets m)((n, k) \<mapsto> v)"
    unfolding keychain_store_def secret_store.simps by (rule keychain_set_result(2)) simp_all
  show "store_set keychain_store n k v m = (Inl e, m') \<Longrightarrow> keychain_secrets m' = keychain_secrets m"
    unfolding keychain_store_def secret_store.simps by (rule keychain_set_result(1)) simp_all
  show "store_get keychain_store n k m = (Inr r, m') \<Longrightarrow> r = keychain_secrets m (n, k)"
    unfolding keychain_store_def secret_store.simps by (rule keychain_get_result(2)) simp_all
  show "keychain_secrets (snd (store_get keychain_store n k m)) = keychain_secrets m"
    unfolding keychain_store_def secret_store.simps
    by (rule keychain_get_result(1) [OF prod.collapse [symmetric]])
  show "store_delete keychain_store n k m = (Inr u, m') \<Longrightarrow>
      keychain_secrets m' = (keychain_secrets m)((n, k) := None)"
    unfolding keychain_store_def secret_store.simps by (rule keychain_delete_result(2)) simp_all
  show "(n, k) \<noteq> x \<Longrightarrow> keychain_secrets (snd (store_delete keychain_store n k m)) x = keychain_secrets m x"
    unfolding keychain_store_def secret_store.simps
    by (rule keychain_delete_result(1) [OF prod.collapse [symmetric]]) simp
qed

end
