(* ===== verification/Ssh_Provider.thy ===== *)
theory Ssh_Provider imports Ssh_Rules Secret_Store Node_Sort Memory_Store begin

text \<open>
  \<open>SshSyncProvider\<close> (\<open>warp_ssh_manager/src/sync_provider.rs\<close>): what a device uploads
  (\<open>collect_data\<close>) and how a download replaces what it has (\<open>apply_data\<close>), across the
  database and the keychain.

  The world is a database whose extension \<open>'m\<close> holds the secrets.  What the provider uses of
  other crates is the record \<open>ssh_provider\<close>: the secret store, the encryption with its
  nonces, \<open>chrono\<close>, the clock, and \<open>serde_json\<close> at \<open>SshSyncData\<close>.
\<close>

section \<open>The payload\<close>

record sync_server =
  sv_node_id :: string
  sv_host :: string
  sv_port :: "16 word"
  sv_username :: string
  sv_auth_type :: string
  sv_key_path :: "string option"
  sv_startup_command :: "string option"
  sv_notes :: "string option"
  sv_credential_id :: "string option"
  sv_password_encrypted :: "string option"
  sv_passphrase_encrypted :: "string option"
  sv_root_password_encrypted :: "string option"

record sync_onekey_credential =
  so_id :: string
  so_label :: string
  so_username :: string
  so_kind :: string
  so_key_path :: "string option"
  so_password_encrypted :: "string option"

record ssh_sync_data =
  sd_nodes :: "sync_node list"
  sd_servers :: "sync_server list"
  sd_onekey_credentials :: "sync_onekey_credential list"
  sd_machine_memories :: "sync_machine_memory list"
  sd_routes :: "ssh_route list option"

record ('j, 'm) ssh_provider =
  sp_store :: "'m secret_store"
  sp_crypto :: crypto_primitives
  sp_chrono :: chrono
  sp_nonce :: "string \<Rightarrow> secret_kind \<Rightarrow> bytes"
  sp_memory_nonce :: "machine_memory \<Rightarrow> bytes"
  sp_now :: int
  sp_clock :: "machine_memory \<Rightarrow> int"
  sp_to_value :: "ssh_sync_data \<Rightarrow> string + 'j"
  sp_from_value :: "'j \<Rightarrow> string + ssh_sync_data"

definition ALL_SECRET_KINDS :: "secret_kind list" where
  "ALL_SECRET_KINDS = [SecretPassword, SecretPassphrase, SecretRootPassword, SecretOneKeyPassword]"

section \<open>Errors\<close>

datatype ssh_provider_error =
    ReadSecret string secret_kind secret_store_error
  | ReadPreviousSecret string secret_kind nat secret_store_error
  | WriteSecret string secret_kind secret_store_error
  | WriteDatabase nat string

fun kind_debug :: "secret_kind \<Rightarrow> string" where
  "kind_debug SecretPassword = ''Password''"
| "kind_debug SecretPassphrase = ''Passphrase''"
| "kind_debug SecretRootPassword = ''RootPassword''"
| "kind_debug SecretOneKeyPassword = ''OneKeyPassword''"

fun provider_error_text :: "ssh_provider_error \<Rightarrow> string" where
  "provider_error_text (ReadSecret n k e) =
    ''Failed to read the keychain ('' @ n @ '', '' @ kind_debug k @ ''): '' @ secret_store_error_text e"
| "provider_error_text (ReadPreviousSecret n k b e) =
    ''Failed to read the previous keychain value ('' @ n @ '', '' @ kind_debug k @ ''): '' @
    secret_store_error_text e @ ''; rolled back '' @ show_nat b @ '' entries''"
| "provider_error_text (WriteSecret n k e) =
    ''Failed to write to the keychain ('' @ n @ '', '' @ kind_debug k @ ''): '' @ secret_store_error_text e"
| "provider_error_text (WriteDatabase b e) =
    ''Database write failed: '' @ e @ ''; rolled back '' @ show_nat b @ '' keychain writes''"

section \<open>Collecting\<close>

definition on_secrets :: "('m \<Rightarrow> 'r \<times> 'm) \<Rightarrow> 'm sync_db_scheme \<Rightarrow> 'r \<times> 'm sync_db_scheme" where
  "on_secrets f w = (case f (sync_db.more w) of (r, m) \<Rightarrow> (r, sync_db.more_update (\<lambda>_. m) w))"

text \<open>\<open>with_conn(|conn| Ok(..?)).map_err(SyncEngineError::Provider)\<close>\<close>

definition ask ::
  "('m sync_db_scheme \<Rightarrow> (repository_error + 'r) \<times> 'm sync_db_scheme) \<Rightarrow> 'm sync_db_scheme \<Rightarrow>
   (sync_engine_error + 'r) \<times> 'm sync_db_scheme" where
  "ask f w = map_err Provider (with_conn (\<lambda>c. map_err repository_error_text (f c)) w)"

definition read_secret ::
  "'m secret_store \<Rightarrow> string \<Rightarrow> secret_kind \<Rightarrow> 'm sync_db_scheme \<Rightarrow>
   (sync_engine_error + string option) \<times> 'm sync_db_scheme" where
  "read_secret store n k w =
    map_err (\<lambda>e. Provider (provider_error_text (ReadSecret n k e))) (on_secrets (store_get store n k) w)"

definition encrypt_optional ::
  "crypto_primitives \<Rightarrow> bytes \<Rightarrow> string \<Rightarrow> string option \<Rightarrow> sync_engine_error + string option" where
  "encrypt_optional P nonce token v =
    (case v of
      None \<Rightarrow> Inr None
    | Some s \<Rightarrow>
        if s = [] then Inr None
        else (case encrypt P nonce token s of Inl e \<Rightarrow> Inl (Crypto e) | Inr c \<Rightarrow> Inr (Some c)))"

fun onekey_secret_kind :: "onekey_kind \<Rightarrow> secret_kind" where
  "onekey_secret_kind OneKeyPassword = SecretOneKeyPassword"
| "onekey_secret_kind OneKeyKey = SecretPassphrase"

definition collect_credential ::
  "('j, 'm) ssh_provider \<Rightarrow> string \<Rightarrow> ssh_onekey_credential \<Rightarrow> 'm sync_db_scheme \<Rightarrow>
   (sync_engine_error + sync_onekey_credential) \<times> 'm sync_db_scheme" where
  "collect_credential p token c w =
    (let kind = onekey_secret_kind (c_kind c)
     in attempt (read_secret (sp_store p) (c_id c) kind w) (\<lambda>password w1.
        (case encrypt_optional (sp_crypto p) (sp_nonce p (c_id c) kind) token password of
          Inl e \<Rightarrow> (Inl e, w1)
        | Inr enc \<Rightarrow> (Inr
            \<lparr>so_id = c_id c, so_label = c_label c, so_username = c_username c,
             so_kind = onekey_kind_str (c_kind c), so_key_path = c_key_path c,
             so_password_encrypted = enc\<rparr>, w1))))"

fun collect_credentials ::
  "('j, 'm) ssh_provider \<Rightarrow> string \<Rightarrow> ssh_onekey_credential list \<Rightarrow> 'm sync_db_scheme \<Rightarrow>
   (sync_engine_error + sync_onekey_credential list) \<times> 'm sync_db_scheme" where
  "collect_credentials p token [] w = (Inr [], w)"
| "collect_credentials p token (c # cs) w =
    attempt (collect_credential p token c w) (\<lambda>x w1.
    attempt (collect_credentials p token cs w1) (\<lambda>xs w2. (Inr (x # xs), w2)))"

definition encrypt_server ::
  "('j, 'm) ssh_provider \<Rightarrow> string \<Rightarrow> ssh_server_info \<Rightarrow> string option \<Rightarrow> string option \<Rightarrow> string option \<Rightarrow>
   sync_engine_error + sync_server" where
  "encrypt_server p token server password passphrase root_password =
    (let enc = (\<lambda>k v. encrypt_optional (sp_crypto p) (sp_nonce p (s_node_id server) k) token v)
     in case enc SecretPassword password of
        Inl e \<Rightarrow> Inl e
      | Inr e1 \<Rightarrow>
          (case enc SecretPassphrase passphrase of
            Inl e \<Rightarrow> Inl e
          | Inr e2 \<Rightarrow>
              (case enc SecretRootPassword root_password of
                Inl e \<Rightarrow> Inl e
              | Inr e3 \<Rightarrow> Inr
                  \<lparr>sv_node_id = s_node_id server, sv_host = s_host server, sv_port = s_port server,
                   sv_username = s_username server, sv_auth_type = auth_type_str (s_auth_type server),
                   sv_key_path = s_key_path server, sv_startup_command = s_startup_command server,
                   sv_notes = s_notes server, sv_credential_id = s_credential_id server,
                   sv_password_encrypted = e1, sv_passphrase_encrypted = e2,
                   sv_root_password_encrypted = e3\<rparr>)))"

definition collect_server ::
  "('j, 'm) ssh_provider \<Rightarrow> string \<Rightarrow> ssh_node \<Rightarrow> 'm sync_db_scheme \<Rightarrow>
   (sync_engine_error + sync_server list) \<times> 'm sync_db_scheme" where
  "collect_server p token n w =
    (if n_kind n \<noteq> Server then (Inr [], w)
     else
       attempt (ask (get_server (n_id n)) w) (\<lambda>found w1.
         (case found of
           None \<Rightarrow> (Inr [], w1)
         | Some server \<Rightarrow>
             attempt (read_secret (sp_store p) (n_id n) SecretPassword w1) (\<lambda>s1 w2.
             attempt (read_secret (sp_store p) (n_id n) SecretPassphrase w2) (\<lambda>s2 w3.
             attempt (read_secret (sp_store p) (n_id n) SecretRootPassword w3) (\<lambda>s3 w4.
               (case encrypt_server p token server s1 s2 s3 of
                 Inl e \<Rightarrow> (Inl e, w4)
               | Inr x \<Rightarrow> (Inr [x], w4))))))))"

fun collect_servers ::
  "('j, 'm) ssh_provider \<Rightarrow> string \<Rightarrow> ssh_node list \<Rightarrow> 'm sync_db_scheme \<Rightarrow>
   (sync_engine_error + sync_server list) \<times> 'm sync_db_scheme" where
  "collect_servers p token [] w = (Inr [], w)"
| "collect_servers p token (n # ns) w =
    attempt (collect_server p token n w) (\<lambda>xs w1.
    attempt (collect_servers p token ns w1) (\<lambda>ys w2. (Inr (xs @ ys), w2)))"

definition sync_node_of :: "ssh_node \<Rightarrow> sync_node" where
  "sync_node_of n =
    \<lparr>node_id = n_id n, parent_id = n_parent_id n, node_kind = node_kind_str (n_kind n),
     node_name = n_name n, sort_order = n_sort_order n, is_collapsed = n_is_collapsed n\<rparr>"

definition ask_memories ::
  "('j, 'm) ssh_provider \<Rightarrow> 'm sync_db_scheme \<Rightarrow>
   (sync_engine_error + machine_memory list) \<times> 'm sync_db_scheme" where
  "ask_memories p w =
    map_err Provider (with_conn (\<lambda>c. map_err memory_error_text (list_all_for_sync (sp_chrono p) c)) w)"

definition ssh_collect_data ::
  "('j, 'm) ssh_provider \<Rightarrow> string \<Rightarrow> 'm sync_db_scheme \<Rightarrow>
   (sync_engine_error + 'j) \<times> 'm sync_db_scheme" where
  "ssh_collect_data p token w =
    attempt (ask list_nodes w) (\<lambda>nodes w1.
    attempt (ask_memories p w1) (\<lambda>memories w2.
    attempt (encrypt_machine_memories (sp_crypto p) (sp_chrono p) token (sp_memory_nonce p) memories, w2)
      (\<lambda>sync_memories w3.
    attempt (ask list_routes w3) (\<lambda>routes w4.
    attempt (ask list_onekey_credentials w4) (\<lambda>credentials w5.
    attempt (collect_credentials p token credentials w5) (\<lambda>sync_credentials w6.
    attempt (collect_servers p token nodes w6) (\<lambda>sync_servers w7.
      (case sp_to_value p
          \<lparr>sd_nodes = map sync_node_of nodes, sd_servers = sync_servers,
           sd_onekey_credentials = sync_credentials, sd_machine_memories = sync_memories,
           sd_routes = Some routes\<rparr> of
        Inl e \<Rightarrow> (Inl (Serialization e), w7)
      | Inr v \<Rightarrow> (Inr v, w7)))))))))"

end
