(* ===== verification/Ssh_Apply.thy ===== *)
theory Ssh_Apply imports Ssh_Provider Sync_Engine begin

text \<open>
  \<open>SshSyncProvider::apply_data\<close> (\<open>warp_ssh_manager/src/sync_provider.rs\<close>) in its stages: decrypt
  everything; write the secrets, remembering what they replace; rebuild the tables in one
  transaction; and clean up the keychain, or put it back when the transaction failed.
\<close>

section \<open>Stage 0: what to write and what to clear\<close>

type_synonym secret_key = "string \<times> secret_kind"

text \<open>The encrypted fields in the order of the two loops.\<close>

definition server_fields :: "sync_server \<Rightarrow> (secret_key \<times> string option) list" where
  "server_fields s =
    [((sv_node_id s, SecretPassword), sv_password_encrypted s),
     ((sv_node_id s, SecretPassphrase), sv_passphrase_encrypted s),
     ((sv_node_id s, SecretRootPassword), sv_root_password_encrypted s)]"

definition parsed_onekey_kind :: "string \<Rightarrow> onekey_kind" where
  "parsed_onekey_kind s = (case parse_onekey_kind s of None \<Rightarrow> OneKeyPassword | Some k \<Rightarrow> k)"

definition credential_field :: "sync_onekey_credential \<Rightarrow> secret_key \<times> string option" where
  "credential_field c =
    ((so_id c, onekey_secret_kind (parsed_onekey_kind (so_kind c))), so_password_encrypted c)"

definition secret_fields :: "ssh_sync_data \<Rightarrow> (secret_key \<times> string option) list" where
  "secret_fields d =
    concat (map server_fields (sd_servers d)) @ map credential_field (sd_onekey_credentials d)"

fun plan_secrets ::
  "crypto_primitives \<Rightarrow> string \<Rightarrow> (secret_key \<times> string option) list \<Rightarrow>
   sync_engine_error + (secret_key \<times> string) list \<times> secret_key list" where
  "plan_secrets P token [] = Inr ([], [])"
| "plan_secrets P token ((k, None) # fs) =
    (case plan_secrets P token fs of
      Inl e \<Rightarrow> Inl e
    | Inr (pending, clears) \<Rightarrow> Inr (pending, k # clears))"
| "plan_secrets P token ((k, Some c) # fs) =
    (case decrypt P token c of
      Inl e \<Rightarrow> Inl (Crypto e)
    | Inr v \<Rightarrow>
        (case plan_secrets P token fs of
          Inl e \<Rightarrow> Inl e
        | Inr (pending, clears) \<Rightarrow> Inr ((k, v) # pending, clears)))"

section \<open>Stage 1: the keychain\<close>

type_synonym written_secret = "secret_key \<times> string option"

fun rollback_keychain_writes :: "'m secret_store \<Rightarrow> written_secret list \<Rightarrow> 'm \<Rightarrow> 'm" where
  "rollback_keychain_writes store [] m = m"
| "rollback_keychain_writes store (((n, k), prior) # ws) m =
    rollback_keychain_writes store ws
      (case prior of
        Some v \<Rightarrow> snd (store_set store n k v m)
      | None \<Rightarrow> snd (store_delete store n k m))"

fun write_secrets ::
  "'m secret_store \<Rightarrow> (secret_key \<times> string) list \<Rightarrow> written_secret list \<Rightarrow> 'm \<Rightarrow>
   (ssh_provider_error + written_secret list) \<times> 'm" where
  "write_secrets store [] written m = (Inr written, m)"
| "write_secrets store (((n, k), v) # ps) written m =
    (case store_get store n k m of
      (Inl e, m1) \<Rightarrow>
        (Inl (ReadPreviousSecret n k (length written) e), rollback_keychain_writes store written m1)
    | (Inr prior, m1) \<Rightarrow>
        (case store_set store n k v m1 of
          (Inl e, m2) \<Rightarrow> (Inl (WriteSecret n k e), rollback_keychain_writes store written m2)
        | (Inr _, m2) \<Rightarrow> write_secrets store ps (written @ [((n, k), prior)]) m2))"

section \<open>Stage 2: the tables\<close>

definition read_preserved ::
  "ssh_sync_data \<Rightarrow> 'm sync_db_scheme \<Rightarrow>
   (string + (string \<times> string option) list \<times> (string \<times> int \<times> string option) list) \<times> 'm sync_db_scheme" where
  "read_preserved d db =
    (if sd_routes d = None
     then attempt (select (\<lambda>T. map (\<lambda>r. (rr_id r, rr_target_node_id r)) (route_rows T)) db) (\<lambda>targets db1.
          attempt (select (\<lambda>T. map (\<lambda>h. (hr_route_id h, hr_position h, hr_node_id h)) (hop_rows T)) db1)
            (\<lambda>hops db2. (Inr (targets, hops), db2)))
     else (Inr ([], []), db))"

definition remove_all :: "(ssh_tables \<Rightarrow> ssh_tables) \<Rightarrow> 'm sync_db_scheme \<Rightarrow> (string + nat) \<times> 'm sync_db_scheme" where
  "remove_all f = modify (removing (\<lambda>T. 0) f)"

definition wipe :: "ssh_sync_data \<Rightarrow> 'm sync_db_scheme \<Rightarrow> (string + unit) \<times> 'm sync_db_scheme" where
  "wipe d db =
    attempt
      (if sd_routes d \<noteq> None
       then attempt (remove_all (delete_hops (\<lambda>_. True)) db) (\<lambda>_ db1.
            attempt (remove_all (delete_routes (\<lambda>_. True)) db1) (\<lambda>_ db2. (Inr (), db2)))
       else (Inr (), db)) (\<lambda>_ db3.
    attempt (remove_all (delete_servers (\<lambda>_. True)) db3) (\<lambda>_ db4.
    attempt (remove_all (delete_nodes (\<lambda>_. True)) db4) (\<lambda>_ db5.
    attempt (remove_all (delete_credentials (\<lambda>_. True)) db5) (\<lambda>_ db6. (Inr (), db6)))))"

definition credential_row_of :: "int \<Rightarrow> sync_onekey_credential \<Rightarrow> ssh_onekey_credential_row" where
  "credential_row_of now c =
    new_credential_row now (so_id c) (so_label c) (so_username c)
      (onekey_kind_str (parsed_onekey_kind (so_kind c))) (so_key_path c)"

fun insert_credentials ::
  "int \<Rightarrow> sync_onekey_credential list \<Rightarrow> 'm sync_db_scheme \<Rightarrow> (string + unit) \<times> 'm sync_db_scheme" where
  "insert_credentials now [] db = (Inr (), db)"
| "insert_credentials now (c # cs) db =
    attempt (modify (insert_credential (credential_row_of now c)) db) (\<lambda>_ db1.
      insert_credentials now cs db1)"

fun insert_nodes ::
  "int \<Rightarrow> sync_node list \<Rightarrow> 'm sync_db_scheme \<Rightarrow> (string + unit) \<times> 'm sync_db_scheme" where
  "insert_nodes now [] db = (Inr (), db)"
| "insert_nodes now (n # ns) db =
    (case parse_node_kind (node_kind n) of
      None \<Rightarrow> (Inl (''invalid kind: '' @ node_kind n), db)
    | Some k \<Rightarrow>
        attempt (modify (insert_node
            (new_node_row now (node_id n) (parent_id n) (node_kind_str k) (node_name n) (sort_order n))) db)
          (\<lambda>_ db1.
        attempt
          (if is_collapsed n
           then map_err repository_error_text (set_collapsed now (node_id n) True db1)
           else (Inr (), db1)) (\<lambda>_ db2.
          insert_nodes now ns db2)))"

definition sync_server_row :: "sync_server \<Rightarrow> ssh_server_row" where
  "sync_server_row s =
    \<lparr>sr_node_id = sv_node_id s, sr_host = sv_host s, sr_port = uint (sv_port s),
     sr_username = sv_username s, sr_auth_type = sv_auth_type s, sr_key_path = sv_key_path s,
     sr_startup_command = sv_startup_command s, sr_notes = sv_notes s,
     sr_last_connected_at = None, sr_credential_id = sv_credential_id s\<rparr>"

fun insert_servers ::
  "sync_server list \<Rightarrow> 'm sync_db_scheme \<Rightarrow> (string + unit) \<times> 'm sync_db_scheme" where
  "insert_servers [] db = (Inr (), db)"
| "insert_servers (s # ss) db =
    attempt (modify (insert_server (sync_server_row s)) db) (\<lambda>_ db1. insert_servers ss db1)"

text \<open>References of the preserved routes to nodes that are in the payload.\<close>

fun restore_targets ::
  "string list \<Rightarrow> (string \<times> string option) list \<Rightarrow> 'm sync_db_scheme \<Rightarrow>
   (string + unit) \<times> 'm sync_db_scheme" where
  "restore_targets ids [] db = (Inr (), db)"
| "restore_targets ids ((route, target) # rest) db =
    attempt
      (case forget ids target of
        None \<Rightarrow> (Inr 0, db)
      | Some n \<Rightarrow> modify (update_routes (\<lambda>r. rr_id r = route) (\<lambda>r. r\<lparr>rr_target_node_id := Some n\<rparr>)) db)
      (\<lambda>_ db1. restore_targets ids rest db1)"

fun restore_hops ::
  "string list \<Rightarrow> (string \<times> int \<times> string option) list \<Rightarrow> 'm sync_db_scheme \<Rightarrow>
   (string + unit) \<times> 'm sync_db_scheme" where
  "restore_hops ids [] db = (Inr (), db)"
| "restore_hops ids ((route, position, node) # rest) db =
    attempt
      (case forget ids node of
        None \<Rightarrow> (Inr 0, db)
      | Some n \<Rightarrow> modify (update_hops (\<lambda>h. hr_route_id h = route \<and> hr_position h = position)
          (\<lambda>h. h\<lparr>hr_node_id := Some n\<rparr>)) db)
      (\<lambda>_ db1. restore_hops ids rest db1)"

definition synced_hop_row :: "string list \<Rightarrow> string \<Rightarrow> nat \<Rightarrow> ssh_route_hop \<Rightarrow> ssh_route_hop_row" where
  "synced_hop_row ids route position hop =
    (hop_row route position hop)\<lparr>hr_node_id := forget ids (hop_node_id hop)\<rparr>"

fun insert_synced_hops ::
  "string list \<Rightarrow> string \<Rightarrow> nat \<Rightarrow> ssh_route_hop list \<Rightarrow> 'm sync_db_scheme \<Rightarrow>
   (string + unit) \<times> 'm sync_db_scheme" where
  "insert_synced_hops ids route position [] db = (Inr (), db)"
| "insert_synced_hops ids route position (hop # hops) db =
    (if bad_hop hop then (Inl ''the synced data holds an invalid SSH hop'', db)
     else
       attempt (modify (insert_hops [synced_hop_row ids route position hop]) db) (\<lambda>_ db1.
         insert_synced_hops ids route (Suc position) hops db1))"

definition synced_route_row :: "string list \<Rightarrow> ssh_route \<Rightarrow> ssh_route_row" where
  "synced_route_row ids r =
    \<lparr>rr_id = route_id r, rr_name = route_name r, rr_target_node_id = forget ids (route_target_node_id r),
     rr_created_at = route_created_at r, rr_updated_at = route_updated_at r,
     rr_last_connected_at = route_last_connected_at r\<rparr>"

fun insert_routes ::
  "string list \<Rightarrow> ssh_route list \<Rightarrow> 'm sync_db_scheme \<Rightarrow> (string + unit) \<times> 'm sync_db_scheme" where
  "insert_routes ids [] db = (Inr (), db)"
| "insert_routes ids (r # rs) db =
    (if trim (route_name r) = [] \<or> route_hops r = [] \<or> length (route_hops r) > 8
     then (Inl ''the synced data holds an invalid SSH route'', db)
     else
       attempt (modify (insert_route (synced_route_row ids r)) db) (\<lambda>_ db1.
       attempt (insert_synced_hops ids (route_id r) 0 (route_hops r) db1) (\<lambda>_ db2.
         insert_routes ids rs db2)))"

definition synced_routes :: "ssh_sync_data \<Rightarrow> ssh_route list" where
  "synced_routes d = (case sd_routes d of None \<Rightarrow> [] | Some rs \<Rightarrow> rs)"

text \<open>The body of the transaction up to the memories.\<close>

definition rebuild_tables ::
  "int \<Rightarrow> ssh_sync_data \<Rightarrow> 'm sync_db_scheme \<Rightarrow> (string + unit) \<times> 'm sync_db_scheme" where
  "rebuild_tables now d db =
    (let sorted = fst (topologically_sort_nodes (sd_nodes d));
         ids = map node_id sorted
     in attempt (read_preserved d db) (\<lambda>(targets, hops) db1.
        attempt (wipe d db1) (\<lambda>_ db2.
        attempt (insert_credentials now (sd_onekey_credentials d) db2) (\<lambda>_ db3.
        attempt (insert_nodes now sorted db3) (\<lambda>_ db4.
        attempt (insert_servers (sd_servers d) db4) (\<lambda>_ db5.
        attempt (restore_targets ids targets db5) (\<lambda>_ db6.
        attempt (restore_hops ids hops db6) (\<lambda>_ db7.
          insert_routes ids (synced_routes d) db7))))))))"

definition apply_body ::
  "('j, 'm) ssh_provider \<Rightarrow> ssh_sync_data \<Rightarrow> machine_memory list \<Rightarrow> 'm sync_db_scheme \<Rightarrow>
   (string + apply_outcome) \<times> 'm sync_db_scheme" where
  "apply_body p d memories db =
    attempt (rebuild_tables (sp_now p) d db) (\<lambda>_ db1.
      map_err memory_error_text (merge_and_persist_memories (sp_chrono p) (sp_clock p) memories db1))"

section \<open>Stage 3: cleaning up, and the whole\<close>

fun delete_secrets :: "'m secret_store \<Rightarrow> secret_key list \<Rightarrow> 'm \<Rightarrow> 'm" where
  "delete_secrets store [] m = m"
| "delete_secrets store ((n, k) # ks) m = delete_secrets store ks (snd (store_delete store n k m))"

definition orphan_keys :: "ssh_sync_data \<Rightarrow> string list \<Rightarrow> secret_key list" where
  "orphan_keys d existing =
    concat (map (\<lambda>i. map (\<lambda>k. (i, k)) ALL_SECRET_KINDS)
      (filter (\<lambda>i. i \<notin> set (map node_id (sd_nodes d)) \<union> set (map so_id (sd_onekey_credentials d))) existing))"

text \<open>\<open>load::<String>\<close> of the identifiers of nodes and of credentials.\<close>

definition ask_ids ::
  "(ssh_tables \<Rightarrow> string list) \<Rightarrow> 'm sync_db_scheme \<Rightarrow> (sync_engine_error + string list) \<times> 'm sync_db_scheme" where
  "ask_ids q w = map_err Provider (with_conn (select q) w)"

definition write_stage ::
  "('j, 'm) ssh_provider \<Rightarrow> (secret_key \<times> string) list \<Rightarrow> 'm sync_db_scheme \<Rightarrow>
   (sync_engine_error + written_secret list) \<times> 'm sync_db_scheme" where
  "write_stage p pending w =
    map_err (\<lambda>e. Provider (provider_error_text e)) (on_secrets (write_secrets (sp_store p) pending []) w)"

definition store_stage ::
  "('j, 'm) ssh_provider \<Rightarrow> ssh_sync_data \<Rightarrow> machine_memory list \<Rightarrow> written_secret list \<Rightarrow>
   'm sync_db_scheme \<Rightarrow> (sync_engine_error + apply_outcome) \<times> 'm sync_db_scheme" where
  "store_stage p d memories written w =
    (case with_conn (transaction (\<lambda>e. e) (apply_body p d memories)) w of
      (Inr outcome, w1) \<Rightarrow> (Inr outcome, w1)
    | (Inl e, w1) \<Rightarrow>
        (Inl (Provider (provider_error_text (WriteDatabase (length written) e))),
         snd (on_secrets (\<lambda>m. ((), rollback_keychain_writes (sp_store p) written m)) w1)))"

definition ssh_apply_data ::
  "('j, 'm) ssh_provider \<Rightarrow> string \<Rightarrow> 'j \<Rightarrow> 'm sync_db_scheme \<Rightarrow>
   (sync_engine_error + apply_outcome) \<times> 'm sync_db_scheme" where
  "ssh_apply_data p token data w =
    (case sp_from_value p data of
      Inl e \<Rightarrow> (Inl (Serialization e), w)
    | Inr d \<Rightarrow>
        (case decrypt_machine_memories (sp_crypto p) (sp_chrono p) token (sd_machine_memories d) of
          Inl e \<Rightarrow> (Inl e, w)
        | Inr memories \<Rightarrow>
            (case plan_secrets (sp_crypto p) token (secret_fields d) of
              Inl e \<Rightarrow> (Inl e, w)
            | Inr (pending, clears) \<Rightarrow>
                attempt (ask_ids node_ids w) (\<lambda>nodes w1.
                attempt (ask_ids credential_ids w1) (\<lambda>credentials w2.
                attempt (write_stage p pending w2) (\<lambda>written w3.
                attempt (store_stage p d memories written w3) (\<lambda>outcome w4.
                  (Inr outcome,
                   snd (on_secrets (\<lambda>m. ((), delete_secrets (sp_store p)
                     (clears @ orphan_keys d (nodes @ credentials)) m)) w4)))))))))"

text \<open>The provider as the engine sees it.\<close>

definition ssh_provider_ops ::
  "('j, 'm) ssh_provider \<Rightarrow> ('m sync_db_scheme, 'j) data_provider" where
  "ssh_provider_ops p =
    \<lparr>section_key = ''ssh'', collect_data = ssh_collect_data p, apply_data = ssh_apply_data p,
     reconcile_data = ssh_reconcile_data
       (\<lambda>v. case sp_from_value p v of Inl e \<Rightarrow> Inl e | Inr d \<Rightarrow> Inr (sd_machine_memories d))
       (sp_crypto p) (sp_chrono p) (sp_clock p)\<rparr>"

end
