(* ===== verification/Ssh_Apply_Rules.thy ===== *)
theory Ssh_Apply_Rules imports Ssh_Apply begin

text \<open>
  What the stages of \<open>apply_data\<close> do: each statement of the transaction changes only the SSH
  tables and keeps them within the schema, a success of the transaction leaves the tables of the payload, and the writes to the
  keychain are undone by the rollback.
\<close>

section \<open>Only the SSH tables change\<close>

definition only_ssh :: "'a sync_db_scheme \<Rightarrow> 'a sync_db_scheme \<Rightarrow> bool" where
  "only_ssh a b \<longleftrightarrow> sync_meta b = sync_meta a \<and> same_rest a b \<and>
    (tables_ok (ssh a) \<longrightarrow> tables_ok (ssh b))"

named_theorems only_ssh_intros \<open>steps that change only the SSH tables\<close>

lemma only_ssh_refl [simp, only_ssh_intros]: "only_ssh a a"
  by (simp add: only_ssh_def)

lemma only_ssh_trans: "only_ssh a b \<Longrightarrow> only_ssh b c \<Longrightarrow> only_ssh a c"
  by (auto simp: only_ssh_def intro: same_rest_trans)

lemma only_ssh_same: "same_tables a b \<Longrightarrow> only_ssh a b"
  by (simp add: only_ssh_def same_tables_iff)

lemma only_ssh_attempt [only_ssh_intros]:
  "only_ssh s (snd r) \<Longrightarrow> (\<And>a s'. only_ssh s' (snd (f a s'))) \<Longrightarrow> only_ssh s (snd (attempt r f))"
  by (rule snd_attempt [of only_ssh]) (auto intro: only_ssh_trans)

lemma only_ssh_map_err [only_ssh_intros]: "only_ssh s (snd r) \<Longrightarrow> only_ssh s (snd (map_err g r))"
  by simp

lemma only_ssh_select [only_ssh_intros]: "only_ssh db (snd (select q db))"
  by (cases rule: select_cases [of q db]) (auto intro: only_ssh_same)

lemma only_ssh_modify [only_ssh_intros]: "only_ssh db (snd (modify f db))"
  by (cases rule: modify_cases [of f db]) (auto simp: only_ssh_def same_tables_iff)

lemma only_ssh_affecting [only_ssh_intros]: "only_ssh s (snd r) \<Longrightarrow> only_ssh s (snd (affecting key r))"
  unfolding affecting_def by (rule only_ssh_attempt) (auto intro: only_ssh_intros)

lemma only_ssh_loops:
  "only_ssh db (snd (insert_credentials now cs db))"
  "only_ssh db (snd (insert_nodes now ns db))"
  "only_ssh db (snd (insert_servers ss db))"
  "only_ssh db (snd (restore_targets ids ts db))"
  "only_ssh db (snd (restore_hops ids hs db))"
proof -
  show "only_ssh db (snd (insert_credentials now cs db))"
    by (induction cs arbitrary: db) (auto intro!: only_ssh_intros)
  show "only_ssh db (snd (insert_nodes now ns db))"
    by (induction ns arbitrary: db)
      (auto intro!: only_ssh_intros simp: set_collapsed_def split: option.split)
  show "only_ssh db (snd (insert_servers ss db))"
    by (induction ss arbitrary: db) (auto intro!: only_ssh_intros)
  show "only_ssh db (snd (restore_targets ids ts db))"
    by (induction ids ts db rule: restore_targets.induct) (auto intro!: only_ssh_intros split: option.split)
  show "only_ssh db (snd (restore_hops ids hs db))"
    by (induction ids hs db rule: restore_hops.induct) (auto intro!: only_ssh_intros split: option.split)
qed

lemma only_ssh_synced_hops: "only_ssh db (snd (insert_synced_hops ids route pos hops db))"
  by (induction hops arbitrary: pos db) (auto intro!: only_ssh_intros)

lemma only_ssh_routes: "only_ssh db (snd (insert_routes ids rs db))"
  by (induction rs arbitrary: db) (auto intro!: only_ssh_intros only_ssh_synced_hops)

lemma only_ssh_rebuild: "only_ssh db (snd (rebuild_tables now d db))"
  unfolding rebuild_tables_def Let_def read_preserved_def wipe_def remove_all_def
  by (auto intro!: only_ssh_intros only_ssh_loops only_ssh_routes split: prod.split)

lemma apply_body_more:
  assumes "apply_body p d ms db = (r, db')"
  shows "sync_db.more db' = sync_db.more db" "sync_meta db' = sync_meta db"
  using assms unfolding apply_body_def
proof (atomize (full), cases rule: attemptE)
  case (fails e)
  then show "sync_db.more db' = sync_db.more db \<and> sync_meta db' = sync_meta db"
    using only_ssh_rebuild [of db "sp_now p" d] by (simp add: only_ssh_def same_rest_def)
next
  case (goes u db1)
  obtain x where "merge_and_persist_memories (sp_chrono p) (sp_clock p) ms db1 = (x, db')"
    using goes(2) by (cases r) (auto simp: map_err_eq_Inl)
  then show "sync_db.more db' = sync_db.more db \<and> sync_meta db' = sync_meta db"
    using merge_and_persist_frame only_ssh_rebuild [of db "sp_now p" d] goes(1)
    by (fastforce simp: only_ssh_def same_rest_def)
qed

section \<open>What the loops leave\<close>

lemma modify_Inr:
  assumes "modify f db = (Inr n, db')"
  shows "ssh db' = snd (f (ssh db))" "tables_ok (ssh db')"
  using assms by (cases rule: modify_cases [of f db]; simp)+

lemma insert_credentials_Inr:
  "insert_credentials now cs db = (Inr (), db') \<Longrightarrow>
   ssh db' = (ssh db)\<lparr>credential_rows := credential_rows (ssh db) @ map (credential_row_of now) cs\<rparr>"
proof (induction cs arbitrary: db)
  case (Cons c cs)
  obtain n db1 where ins: "modify (insert_credential (credential_row_of now c)) db = (Inr n, db1)"
    and rest: "insert_credentials now cs db1 = (Inr (), db')"
    using Cons.prems by (auto simp: attempt_eq_Inr)
  then show ?case using Cons.IH [OF rest] modify_Inr(1) [OF ins] by (simp add: insert_credential_def)
qed simp

definition synced_node_row :: "int \<Rightarrow> sync_node \<Rightarrow> ssh_node_row" where
  "synced_node_row now n =
    (new_node_row now (node_id n) (parent_id n) (node_kind n) (node_name n) (sort_order n))
      \<lparr>nr_is_collapsed := is_collapsed n\<rparr>"

text \<open>Marking the row just inserted touches no other: identifiers are unique.\<close>

lemma collapse_last:
  assumes ok: "tables_ok (T\<lparr>node_rows := rows @ [r]\<rparr>)"
  shows "map (\<lambda>x. if nr_id x = nr_id r then f x else x) (rows @ [r]) = rows @ [f r]"
proof -
  have "nr_id r \<notin> nr_id ` set rows" using ok by (simp add: tables_ok_def keys_ok_def node_ids_def)
  then have "\<And>x. x \<in> set rows \<Longrightarrow> nr_id x \<noteq> nr_id r" by (metis image_eqI)
  then have "map (\<lambda>x. if nr_id x = nr_id r then f x else x) rows = rows"
    by (intro map_idI) simp
  then show ?thesis by simp
qed

lemma insert_nodes_Inr:
  "insert_nodes now ns db = (Inr (), db') \<Longrightarrow>
   ssh db' = (ssh db)\<lparr>node_rows := node_rows (ssh db) @ map (synced_node_row now) ns\<rparr>"
proof (induction ns arbitrary: db)
  case (Cons n ns)
  obtain k where k: "parse_node_kind (node_kind n) = Some k"
    using Cons.prems by (auto split: option.splits)
  let ?r = "new_node_row now (node_id n) (parent_id n) (node_kind_str k) (node_name n) (sort_order n)"
  have kind: "node_kind n = node_kind_str k" using k by (simp add: parse_node_kind_Some)
  obtain u db1 db2 where ins: "modify (insert_node ?r) db = (Inr u, db1)"
    and mark: "(if is_collapsed n then map_err repository_error_text (set_collapsed now (node_id n) True db1)
        else (Inr (), db1)) = (Inr (), db2)"
    and rest: "insert_nodes now ns db2 = (Inr (), db')"
    using Cons.prems k by (auto simp: attempt_eq_Inr)
  have db1: "ssh db1 = (ssh db)\<lparr>node_rows := node_rows (ssh db) @ [?r]\<rparr>"
    using modify_Inr(1) [OF ins] by (simp add: insert_node_def)
  have "ssh db2 = (ssh db)\<lparr>node_rows := node_rows (ssh db) @ [synced_node_row now n]\<rparr>"
  proof (cases "is_collapsed n")
    case False
    then show ?thesis using mark db1 kind by (simp add: synced_node_row_def new_node_row_def)
  next
    case True
    let ?f = "update_nodes (\<lambda>r. nr_id r = node_id n) (\<lambda>r. r\<lparr>nr_is_collapsed := True, nr_updated_at := now\<rparr>)"
    have "affecting (node_id n) (modify ?f db1) = (Inr (), db2)"
      using mark True by (simp add: set_collapsed_def)
    then have "ssh db2 = snd (?f (ssh db1))"
      by (cases rule: affecting_modify_cases [of "node_id n" ?f db1]) auto
    then show ?thesis
      using collapse_last [of "node_rows (ssh db)" ?r "ssh db"] modify_Inr(2) [OF ins] True kind
      by (simp add: db1 update_nodes_def synced_node_row_def new_node_row_def)
  qed
  then show ?case using Cons.IH [OF rest] by simp
qed simp

lemma insert_servers_Inr:
  "insert_servers ss db = (Inr (), db') \<Longrightarrow>
   ssh db' = (ssh db)\<lparr>server_rows := server_rows (ssh db) @ map sync_server_row ss\<rparr>"
proof (induction ss arbitrary: db)
  case (Cons s ss)
  obtain n db1 where ins: "modify (insert_server (sync_server_row s)) db = (Inr n, db1)"
    and rest: "insert_servers ss db1 = (Inr (), db')"
    using Cons.prems by (auto simp: attempt_eq_Inr)
  then show ?case using Cons.IH [OF rest] modify_Inr(1) [OF ins] by (simp add: insert_server_def)
qed simp

lemma insert_synced_hops_Inr:
  "insert_synced_hops ids route pos hops db = (Inr (), db') \<Longrightarrow>
   ssh db' = (ssh db)\<lparr>hop_rows := hop_rows (ssh db) @
     map (\<lambda>(i, h). synced_hop_row ids route i h) (enumerate pos hops)\<rparr>"
proof (induction hops arbitrary: pos db)
  case (Cons h hops)
  obtain n db1 where ins: "modify (insert_hops [synced_hop_row ids route pos h]) db = (Inr n, db1)"
    and rest: "insert_synced_hops ids route (Suc pos) hops db1 = (Inr (), db')"
    using Cons.prems by (auto simp: attempt_eq_Inr split: if_splits)
  then show ?case using Cons.IH [OF rest] modify_Inr(1) [OF ins] by (simp add: insert_hops_def)
qed simp

definition synced_hop_rows :: "string list \<Rightarrow> ssh_route \<Rightarrow> ssh_route_hop_row list" where
  "synced_hop_rows ids r = map (\<lambda>(i, h). synced_hop_row ids (route_id r) i h) (enumerate 0 (route_hops r))"

lemma insert_routes_Inr:
  "insert_routes ids rs db = (Inr (), db') \<Longrightarrow>
   ssh db' = (ssh db)\<lparr>route_rows := route_rows (ssh db) @ map (synced_route_row ids) rs,
     hop_rows := hop_rows (ssh db) @ concat (map (synced_hop_rows ids) rs)\<rparr>"
proof (induction rs arbitrary: db)
  case (Cons r rs)
  obtain n db1 db2 where ins: "modify (insert_route (synced_route_row ids r)) db = (Inr n, db1)"
    and hops: "insert_synced_hops ids (route_id r) 0 (route_hops r) db1 = (Inr (), db2)"
    and rest: "insert_routes ids rs db2 = (Inr (), db')"
    using Cons.prems by (auto simp: attempt_eq_Inr split: if_splits)
  show ?case
    using Cons.IH [OF rest] insert_synced_hops_Inr [OF hops] modify_Inr(1) [OF ins]
    by (simp add: insert_route_def synced_hop_rows_def)
qed simp

lemma wipe_Inr:
  assumes run: "wipe d db = (Inr (), db')" and ok: "tables_ok (ssh db)"
  shows "ssh db' = \<lparr>node_rows = [], credential_rows = [], server_rows = [],
    route_rows = (if sd_routes d = None
      then map (\<lambda>r. r\<lparr>rr_target_node_id := None\<rparr>) (route_rows (ssh db)) else []),
    hop_rows = (if sd_routes d = None
      then map (\<lambda>h. h\<lparr>hr_node_id := None\<rparr>) (hop_rows (ssh db)) else [])\<rparr>"
proof -
  have none: "delete_nodes (\<lambda>_. True) T = T\<lparr>node_rows := [], server_rows := [],
      route_rows := map (\<lambda>r. r\<lparr>rr_target_node_id := None\<rparr>) (route_rows T),
      hop_rows := map (\<lambda>h. h\<lparr>hr_node_id := None\<rparr>) (hop_rows T)\<rparr>" for T
  proof -
    have "cascade ids [] = []" for ids by (subst cascade.simps) simp
    then show ?thesis by (simp add: delete_nodes_def forget_def option.case_eq_if)
  qed
  obtain db3 u4 db4 u5 db5 u6 where
    first: "(if sd_routes d \<noteq> None
       then attempt (remove_all (delete_hops (\<lambda>_. True)) db) (\<lambda>_ db1.
            attempt (remove_all (delete_routes (\<lambda>_. True)) db1) (\<lambda>_ db2. (Inr (), db2)))
       else (Inr (), db)) = (Inr (), db3)"
    and 4: "remove_all (delete_servers (\<lambda>_. True)) db3 = (Inr u4, db4)"
    and 5: "remove_all (delete_nodes (\<lambda>_. True)) db4 = (Inr u5, db5)"
    and 6: "remove_all (delete_credentials (\<lambda>_. True)) db5 = (Inr u6, db')"
    using run unfolding wipe_def attempt_eq_Inr by auto
  have db3: "ssh db3 = (if sd_routes d = None then ssh db
      else (ssh db)\<lparr>route_rows := [], hop_rows := []\<rparr>)"
  proof (cases "sd_routes d = None")
    case False
    then obtain u1 db1 u2 where 1: "remove_all (delete_hops (\<lambda>_. True)) db = (Inr u1, db1)"
      and 2: "remove_all (delete_routes (\<lambda>_. True)) db1 = (Inr u2, db3)"
      using first by (auto simp: attempt_eq_Inr)
    show ?thesis
      using False modify_Inr(1) [OF 1 [unfolded remove_all_def]] modify_Inr(1) [OF 2 [unfolded remove_all_def]]
      by (auto simp: removing_def delete_hops_def delete_routes_def Let_def)
  qed (use first in simp)
  have "ssh db' = delete_credentials (\<lambda>_. True) (delete_nodes (\<lambda>_. True) (delete_servers (\<lambda>_. True) (ssh db3)))"
    using modify_Inr(1) [OF 4 [unfolded remove_all_def]] modify_Inr(1) [OF 5 [unfolded remove_all_def]]
      modify_Inr(1) [OF 6 [unfolded remove_all_def]]
    by (simp add: removing_def)
  then show ?thesis
    unfolding none db3 by (simp add: delete_credentials_def delete_servers_def Let_def)
qed

section \<open>The preserved routes of an old client\<close>

lemma map_key_middle:
  assumes dist: "distinct (map key (pre @ r # rs))" and old: "\<And>x. key (old x) = key x"
  shows "map (\<lambda>x. if key x = key r then f x else x) (pre @ old r # map old rs) =
    pre @ f (old r) # map old rs"
proof -
  have "key r \<notin> key ` set pre" "key r \<notin> key ` set rs" using dist by auto
  then have "key x \<noteq> key r" if "x \<in> set pre \<or> x \<in> set rs" for x using that by (metis image_eqI)
  then have "map (\<lambda>x. if key x = key r then f x else x) pre = pre"
    "map (\<lambda>x. if key x = key r then f x else x) (map old rs) = map old rs"
    using old by (auto intro!: map_idI)
  then show ?thesis using old by simp
qed

lemma restore_targets_Inr:
  "restore_targets ids (map (\<lambda>r. (rr_id r, rr_target_node_id r)) rs) db = (Inr (), db') \<Longrightarrow>
   route_rows (ssh db) = pre @ map (\<lambda>r. r\<lparr>rr_target_node_id := None\<rparr>) rs \<Longrightarrow>
   distinct (map rr_id (pre @ rs)) \<Longrightarrow>
   ssh db' = (ssh db)\<lparr>route_rows :=
     pre @ map (\<lambda>r. r\<lparr>rr_target_node_id := forget ids (rr_target_node_id r)\<rparr>) rs\<rparr>"
proof (induction rs arbitrary: pre db)
  case (Cons r rs)
  let ?old = "\<lambda>r. r\<lparr>rr_target_node_id := None\<rparr>"
  let ?new = "r\<lparr>rr_target_node_id := forget ids (rr_target_node_id r)\<rparr>"
  obtain n db1 where
    step: "(case forget ids (rr_target_node_id r) of None \<Rightarrow> (Inr 0, db)
        | Some n \<Rightarrow> modify (update_routes (\<lambda>x. rr_id x = rr_id r) (\<lambda>x. x\<lparr>rr_target_node_id := Some n\<rparr>)) db) =
        (Inr n, db1)"
    and rest: "restore_targets ids (map (\<lambda>r. (rr_id r, rr_target_node_id r)) rs) db1 = (Inr (), db')"
    using Cons.prems(1) by (auto simp: attempt_eq_Inr)
  have rows: "route_rows (ssh db1) = (pre @ [?new]) @ map ?old rs \<and>
      ssh db1 = (ssh db)\<lparr>route_rows := (pre @ [?new]) @ map ?old rs\<rparr>"
  proof (cases "forget ids (rr_target_node_id r)")
    case None
    then show ?thesis using step Cons.prems(2) by simp
  next
    case (Some m)
    have "map (\<lambda>x. if rr_id x = rr_id r then x\<lparr>rr_target_node_id := Some m\<rparr> else x) (pre @ ?old r # map ?old rs) =
        pre @ (?old r)\<lparr>rr_target_node_id := Some m\<rparr> # map ?old rs"
      by (rule map_key_middle) (use Cons.prems(3) in simp_all)
    moreover have "modify (update_routes (\<lambda>x. rr_id x = rr_id r) (\<lambda>x. x\<lparr>rr_target_node_id := Some m\<rparr>)) db = (Inr n, db1)"
      using step Some by simp
    ultimately show ?thesis using modify_Inr(1) Cons.prems(2) Some by (force simp: update_routes_def)
  qed
  have "ssh db' = (ssh db1)\<lparr>route_rows := (pre @ [?new]) @
      map (\<lambda>r. r\<lparr>rr_target_node_id := forget ids (rr_target_node_id r)\<rparr>) rs\<rparr>"
    by (rule Cons.IH [OF rest]) (use rows Cons.prems(3) in auto)
  then show ?case using rows by simp
qed simp

lemma restore_hops_Inr:
  "restore_hops ids (map (\<lambda>h. (hr_route_id h, hr_position h, hr_node_id h)) hs) db = (Inr (), db') \<Longrightarrow>
   hop_rows (ssh db) = pre @ map (\<lambda>h. h\<lparr>hr_node_id := None\<rparr>) hs \<Longrightarrow>
   distinct (map hop_key (pre @ hs)) \<Longrightarrow>
   ssh db' = (ssh db)\<lparr>hop_rows := pre @ map (\<lambda>h. h\<lparr>hr_node_id := forget ids (hr_node_id h)\<rparr>) hs\<rparr>"
proof (induction hs arbitrary: pre db)
  case (Cons h hs)
  let ?old = "\<lambda>h. h\<lparr>hr_node_id := None\<rparr>"
  let ?new = "h\<lparr>hr_node_id := forget ids (hr_node_id h)\<rparr>"
  let ?P = "\<lambda>x. hr_route_id x = hr_route_id h \<and> hr_position x = hr_position h"
  obtain n db1 where
    step: "(case forget ids (hr_node_id h) of None \<Rightarrow> (Inr 0, db)
        | Some n \<Rightarrow> modify (update_hops ?P (\<lambda>x. x\<lparr>hr_node_id := Some n\<rparr>)) db) = (Inr n, db1)"
    and rest: "restore_hops ids (map (\<lambda>h. (hr_route_id h, hr_position h, hr_node_id h)) hs) db1 = (Inr (), db')"
    using Cons.prems(1) by (auto simp: attempt_eq_Inr)
  have rows: "hop_rows (ssh db1) = (pre @ [?new]) @ map ?old hs \<and>
      ssh db1 = (ssh db)\<lparr>hop_rows := (pre @ [?new]) @ map ?old hs\<rparr>"
  proof (cases "forget ids (hr_node_id h)")
    case None
    then show ?thesis using step Cons.prems(2) by simp
  next
    case (Some m)
    have "map (\<lambda>x. if hop_key x = hop_key h then x\<lparr>hr_node_id := Some m\<rparr> else x) (pre @ ?old h # map ?old hs) =
        pre @ (?old h)\<lparr>hr_node_id := Some m\<rparr> # map ?old hs"
      by (rule map_key_middle) (use Cons.prems(3) in simp_all)
    then have "map (\<lambda>x. if ?P x then x\<lparr>hr_node_id := Some m\<rparr> else x) (pre @ ?old h # map ?old hs) =
        pre @ (?old h)\<lparr>hr_node_id := Some m\<rparr> # map ?old hs"
      by (simp add: hop_key_def)
    moreover have "modify (update_hops ?P (\<lambda>x. x\<lparr>hr_node_id := Some m\<rparr>)) db = (Inr n, db1)"
      using step Some by simp
    ultimately show ?thesis using modify_Inr(1) Cons.prems(2) Some by (force simp: update_hops_def)
  qed
  have "ssh db' = (ssh db1)\<lparr>hop_rows := (pre @ [?new]) @
      map (\<lambda>h. h\<lparr>hr_node_id := forget ids (hr_node_id h)\<rparr>) hs\<rparr>"
    by (rule Cons.IH [OF rest]) (use rows Cons.prems(3) in auto)
  then show ?case using rows by simp
qed simp

section \<open>The tables after a download\<close>

text \<open>
  The specification of stage 2: nodes, servers and credentials are those of the payload; so
  are the routes, when the payload has any; the routes of a payload that knows none are kept,
  without the references to nodes that are gone.
\<close>

definition rebuilt :: "int \<Rightarrow> ssh_sync_data \<Rightarrow> ssh_tables \<Rightarrow> ssh_tables" where
  "rebuilt now d T =
    (let sorted = fst (topologically_sort_nodes (sd_nodes d)); ids = map node_id sorted
     in \<lparr>node_rows = map (synced_node_row now) sorted,
         credential_rows = map (credential_row_of now) (sd_onekey_credentials d),
         server_rows = map sync_server_row (sd_servers d),
         route_rows =
           (case sd_routes d of
             None \<Rightarrow> map (\<lambda>r. r\<lparr>rr_target_node_id := forget ids (rr_target_node_id r)\<rparr>) (route_rows T)
           | Some rs \<Rightarrow> map (synced_route_row ids) rs),
         hop_rows =
           (case sd_routes d of
             None \<Rightarrow> map (\<lambda>h. h\<lparr>hr_node_id := forget ids (hr_node_id h)\<rparr>) (hop_rows T)
           | Some rs \<Rightarrow> concat (map (synced_hop_rows ids) rs))\<rparr>)"

lemma rebuild_tables_Inr:
  assumes run: "rebuild_tables now d db = (Inr (), db')" and ok: "tables_ok (ssh db)"
  shows "ssh db' = rebuilt now d (ssh db)"
proof -
  let ?sorted = "fst (topologically_sort_nodes (sd_nodes d))"
  let ?ids = "map node_id ?sorted"
  obtain targets hops db1 db2 db3 db4 db5 db6 db7 where
    1: "read_preserved d db = (Inr (targets, hops), db1)"
    and 2: "wipe d db1 = (Inr (), db2)"
    and 3: "insert_credentials now (sd_onekey_credentials d) db2 = (Inr (), db3)"
    and 4: "insert_nodes now ?sorted db3 = (Inr (), db4)"
    and 5: "insert_servers (sd_servers d) db4 = (Inr (), db5)"
    and 6: "restore_targets ?ids targets db5 = (Inr (), db6)"
    and 7: "restore_hops ?ids hops db6 = (Inr (), db7)"
    and 8: "insert_routes ?ids (synced_routes d) db7 = (Inr (), db')"
    using run unfolding rebuild_tables_def Let_def by (auto simp: attempt_eq_Inr)
  have db1: "ssh db1 = ssh db \<and> (sd_routes d = None \<longrightarrow>
      targets = map (\<lambda>r. (rr_id r, rr_target_node_id r)) (route_rows (ssh db)) \<and>
      hops = map (\<lambda>h. (hr_route_id h, hr_position h, hr_node_id h)) (hop_rows (ssh db))) \<and>
      (sd_routes d \<noteq> None \<longrightarrow> targets = [] \<and> hops = [])"
  proof (cases "sd_routes d = None")
    case True
    then obtain dbx where
      a: "select (\<lambda>T. map (\<lambda>r. (rr_id r, rr_target_node_id r)) (route_rows T)) db = (Inr targets, dbx)"
      and b: "select (\<lambda>T. map (\<lambda>h. (hr_route_id h, hr_position h, hr_node_id h)) (hop_rows T)) dbx = (Inr hops, db1)"
      using 1 by (auto simp: read_preserved_def attempt_eq_Inr)
    have "ssh dbx = ssh db \<and> targets = map (\<lambda>r. (rr_id r, rr_target_node_id r)) (route_rows (ssh db))"
      using a by (cases rule: select_cases [of "\<lambda>T. map (\<lambda>r. (rr_id r, rr_target_node_id r)) (route_rows T)" db])
        (auto simp: same_tables_iff)
    moreover have "ssh db1 = ssh dbx \<and>
        hops = map (\<lambda>h. (hr_route_id h, hr_position h, hr_node_id h)) (hop_rows (ssh dbx))"
      using b by (cases rule: select_cases
          [of "\<lambda>T. map (\<lambda>h. (hr_route_id h, hr_position h, hr_node_id h)) (hop_rows T)" dbx])
        (auto simp: same_tables_iff)
    ultimately show ?thesis using True by simp
  qed (use 1 in \<open>auto simp: read_preserved_def\<close>)
  have db2: "ssh db2 = \<lparr>node_rows = [], credential_rows = [], server_rows = [],
    route_rows = (if sd_routes d = None
      then map (\<lambda>r. r\<lparr>rr_target_node_id := None\<rparr>) (route_rows (ssh db)) else []),
    hop_rows = (if sd_routes d = None
      then map (\<lambda>h. h\<lparr>hr_node_id := None\<rparr>) (hop_rows (ssh db)) else [])\<rparr>"
    using wipe_Inr [OF 2] db1 ok by simp
  have db5: "ssh db5 = (ssh db2)\<lparr>credential_rows := map (credential_row_of now) (sd_onekey_credentials d),
      node_rows := map (synced_node_row now) ?sorted, server_rows := map sync_server_row (sd_servers d)\<rparr>"
    using insert_credentials_Inr [OF 3] insert_nodes_Inr [OF 4] insert_servers_Inr [OF 5]
    by (simp add: db2)
  show ?thesis
  proof (cases "sd_routes d")
    case None
    have t: "targets = map (\<lambda>r. (rr_id r, rr_target_node_id r)) (route_rows (ssh db))"
      and h: "hops = map (\<lambda>h. (hr_route_id h, hr_position h, hr_node_id h)) (hop_rows (ssh db))"
      using db1 None by simp_all
    have dist: "distinct (map rr_id (route_rows (ssh db)))" "distinct (map hop_key (hop_rows (ssh db)))"
      using ok by (simp_all add: tables_ok_def keys_ok_def route_ids_def)
    have db6: "ssh db6 = (ssh db5)\<lparr>route_rows :=
        [] @ map (\<lambda>r. r\<lparr>rr_target_node_id := forget ?ids (rr_target_node_id r)\<rparr>) (route_rows (ssh db))\<rparr>"
      by (rule restore_targets_Inr [OF 6 [unfolded t]]) (use None db5 db2 dist in simp_all)
    have db7: "ssh db7 = (ssh db6)\<lparr>hop_rows :=
        [] @ map (\<lambda>h. h\<lparr>hr_node_id := forget ?ids (hr_node_id h)\<rparr>) (hop_rows (ssh db))\<rparr>"
      by (rule restore_hops_Inr [OF 7 [unfolded h]]) (use None db6 db5 db2 dist in simp_all)
    have "ssh db' = ssh db7" using 8 None by (simp add: synced_routes_def)
    then show ?thesis using None db7 db6 db5 db2 by (simp add: rebuilt_def Let_def)
  next
    case (Some rs)
    have "ssh db7 = ssh db5" using 6 7 db1 Some by simp
    then show ?thesis
      using insert_routes_Inr [OF 8] db5 db2 Some by (simp add: rebuilt_def Let_def synced_routes_def)
  qed
qed

section \<open>The keychain through the stages\<close>

text \<open>A store that is in order does what it is asked.\<close>

locale reliable_secrets = secret_contract store secrets
  for store :: "'m secret_store" and secrets :: "'m \<Rightarrow> string \<times> secret_kind \<Rightarrow> string option" +
  fixes reliable :: "'m \<Rightarrow> bool"
  assumes set_works: "reliable m \<Longrightarrow> \<exists>m'. store_set store n k v m = (Inr (), m') \<and> reliable m'"
    and get_works: "reliable m \<Longrightarrow> \<exists>r m'. store_get store n k m = (Inr r, m') \<and> reliable m'"
    and delete_works: "reliable m \<Longrightarrow> \<exists>m'. store_delete store n k m = (Inr (), m') \<and> reliable m'"
begin

lemma set_frame: "x \<noteq> (n, k) \<Longrightarrow> secrets (snd (store_set store n k v m)) x = secrets m x"
  using set_ok [of n k v m] set_fails [of n k v m]
  by (cases "store_set store n k v m"; cases "fst (store_set store n k v m)") auto

lemma rollback_frame: "x \<notin> fst ` set ws \<Longrightarrow> secrets (rollback_keychain_writes store ws m) x = secrets m x"
proof (induction ws arbitrary: m)
  case (Cons w ws)
  obtain n k prior where w: "w = ((n, k), prior)" by (metis prod.collapse)
  let ?m = "case prior of Some v \<Rightarrow> snd (store_set store n k v m) | None \<Rightarrow> snd (store_delete store n k m)"
  have "secrets ?m x = secrets m x"
    using Cons.prems w by (cases prior) (auto simp: set_frame intro: delete_other)
  then show ?case using Cons w by simp
qed simp

lemma write_frame:
  "write_secrets store ps ws m = (r, m') \<Longrightarrow> x \<notin> fst ` set ps \<Longrightarrow> x \<notin> fst ` set ws \<Longrightarrow>
   secrets m' x = secrets m x"
proof (induction ps arbitrary: ws m)
  case (Cons p ps)
  obtain n k v where p: "p = ((n, k), v)" by (metis prod.collapse)
  obtain g m1 where get: "store_get store n k m = (g, m1)" by fastforce
  have m1: "secrets m1 = secrets m" using get_keeps [of n k m] get by simp
  show ?case
  proof (cases g)
    case (Inl e)
    then have "m' = rollback_keychain_writes store ws m1" using Cons.prems(1) p get by simp
    then show ?thesis using rollback_frame [OF Cons.prems(3), of m1] m1 by simp
  next
    case (Inr prior)
    obtain s m2 where set: "store_set store n k v m1 = (s, m2)" by fastforce
    have m2: "secrets m2 x = secrets m x"
      using set_frame [of x n k v m1] set m1 Cons.prems(2) p by auto
    show ?thesis
    proof (cases s)
      case (Inl e)
      then have "m' = rollback_keychain_writes store ws m2" using Cons.prems(1) p get set Inr by simp
      then show ?thesis using rollback_frame [OF Cons.prems(3), of m2] m2 by simp
    next
      case Inr2: (Inr u)
      have "write_secrets store ps (ws @ [((n, k), prior)]) m2 = (r, m')"
        using Cons.prems(1) p get set Inr Inr2 by simp
      from Cons.IH [OF this] show ?thesis using Cons.prems(2,3) p m2 by auto
    qed
  qed
qed simp

lemma rollback_restores:
  assumes "reliable m" and "distinct (map fst ws)"
  shows "secrets (rollback_keychain_writes store ws m) x =
    (case map_of ws x of None \<Rightarrow> secrets m x | Some prior \<Rightarrow> prior)"
  using assms
proof (induction ws arbitrary: m)
  case (Cons w ws)
  obtain n k prior where w: "w = ((n, k), prior)" by (metis prod.collapse)
  let ?m = "case prior of Some v \<Rightarrow> snd (store_set store n k v m) | None \<Rightarrow> snd (store_delete store n k m)"
  have "reliable ?m \<and> secrets ?m = (secrets m)((n, k) := prior)"
  proof (cases prior)
    case None
    obtain m' where d: "store_delete store n k m = (Inr (), m')" "reliable m'"
      using delete_works [OF Cons.prems(1)] by blast
    then show ?thesis using None delete_ok [OF d(1)] by simp
  next
    case (Some v)
    obtain m' where s: "store_set store n k v m = (Inr (), m')" "reliable m'"
      using set_works [OF Cons.prems(1)] by blast
    then show ?thesis using Some set_ok [OF s(1)] by simp
  qed
  moreover have "map_of ws (n, k) = None" using Cons.prems(2) w by (simp add: map_of_eq_None_iff)
  ultimately show ?case using Cons.IH [of ?m] Cons.prems(2) w by (auto split: option.splits)
qed simp

lemma write_works:
  assumes "reliable m" and "distinct (map fst ps)"
  shows "\<exists>m'. write_secrets store ps ws m = (Inr (ws @ map (\<lambda>(k, v). (k, secrets m k)) ps), m') \<and>
    reliable m' \<and> secrets m' = secrets m ++ map_of ps"
  using assms
proof (induction ps arbitrary: ws m)
  case (Cons p ps)
  obtain n k v where p: "p = ((n, k), v)" by (metis prod.collapse)
  obtain g m1 where get: "store_get store n k m = (Inr g, m1)" "reliable m1"
    using get_works [OF Cons.prems(1)] by blast
  have m1: "secrets m1 = secrets m" "g = secrets m (n, k)"
    using get_keeps [of n k m] get get_ok [OF get(1)] by simp_all
  obtain m2 where set: "store_set store n k v m1 = (Inr (), m2)" "reliable m2"
    using set_works [OF get(2)] by blast
  have m2: "secrets m2 = (secrets m)((n, k) \<mapsto> v)" using set_ok [OF set(1)] m1 by simp
  have new: "(n, k) \<notin> fst ` set ps" using Cons.prems(2) p by simp
  obtain m' where m': "write_secrets store ps (ws @ [((n, k), g)]) m2 =
      (Inr ((ws @ [((n, k), g)]) @ map (\<lambda>(k, v). (k, secrets m2 k)) ps), m')"
    "reliable m'" "secrets m' = secrets m2 ++ map_of ps"
    using Cons.IH [OF set(2), of "ws @ [((n, k), g)]"] Cons.prems(2) by auto
  have priors: "map (\<lambda>(k, v). (k, secrets m2 k)) ps = map (\<lambda>(k, v). (k, secrets m k)) ps"
    using new m2 by (auto simp: image_iff)
  have "write_secrets store (p # ps) ws m =
      (Inr (ws @ map (\<lambda>(k, v). (k, secrets m k)) (p # ps)), m')"
    using m'(1) get(1) set(1) p m1(2) by (simp add: priors)
  moreover have "secrets m' = secrets m ++ map_of (p # ps)"
  proof -
    have "map_of ps (n, k) = None" using new by (simp add: map_of_eq_None_iff)
    then show ?thesis unfolding m'(3) m2 p by (auto simp: fun_eq_iff map_add_def split: option.splits)
  qed
  ultimately show ?case using m'(2) by blast
qed simp

lemma delete_secrets_works:
  "reliable m \<Longrightarrow> reliable (delete_secrets store ks m) \<and>
   secrets (delete_secrets store ks m) x = (if x \<in> set ks then None else secrets m x)"
proof (induction ks arbitrary: m)
  case (Cons y ks)
  obtain n k where y: "y = (n, k)" by (metis prod.collapse)
  obtain m1 where d: "store_delete store n k m = (Inr (), m1)" "reliable m1"
    using delete_works [OF Cons.prems] by blast
  then show ?case using Cons.IH [OF d(2)] y delete_ok [OF d(1)] by simp
qed simp

end

section \<open>The keychain in order\<close>

definition keychain_reliable :: "keychain \<Rightarrow> bool" where
  "keychain_reliable k \<longleftrightarrow> keyring_calls k = []"

lemma reliable_call: "keyring_calls k = [] \<Longrightarrow> keyring_call k = (Inr (), k)"
  by (simp add: keyring_call_def)

lemma delete_entry_works:
  "keyring_calls k = [] \<Longrightarrow> \<exists>k'. delete_keyring_entry s a k = (Inr (), k') \<and> keyring_calls k' = []"
  by (cases "cells k (s, a)")
    (simp_all add: delete_keyring_entry_def delete_credential_def reliable_call)

lemma keychain_works:
  assumes "keyring_calls k = []"
  shows "\<exists>k'. keychain_set n kd v k = (Inr (), k') \<and> keyring_calls k' = []"
    and "\<exists>r k'. keychain_get n kd k = (Inr r, k') \<and> keyring_calls k' = []"
    and "\<exists>k'. keychain_delete n kd k = (Inr (), k') \<and> keyring_calls k' = []"
proof -
  show "\<exists>k'. keychain_set n kd v k = (Inr (), k') \<and> keyring_calls k' = []"
    using assms by (simp add: keychain_set_def set_password_def reliable_call)
  show "\<exists>r k'. keychain_get n kd k = (Inr r, k') \<and> keyring_calls k' = []"
    using assms
    by (cases "cells k (SERVICE, account_key n kd)"; cases "cells k (LEGACY_SERVICE, account_key n kd)")
      (simp_all add: keychain_get_def legacy_get_def get_password_def set_password_def
        delete_credential_def reliable_call)
  obtain k1 where k1: "delete_keyring_entry SERVICE (account_key n kd) k = (Inr (), k1)" "keyring_calls k1 = []"
    using delete_entry_works [OF assms] by blast
  then show "\<exists>k'. keychain_delete n kd k = (Inr (), k') \<and> keyring_calls k' = []"
    using delete_entry_works [OF k1(2), of LEGACY_SERVICE "account_key n kd"]
    by (auto simp: keychain_delete_def)
qed

interpretation keychain_works: reliable_secrets keychain_store keychain_secrets keychain_reliable
  by unfold_locales (simp_all add: keychain_reliable_def keychain_store_def keychain_works)

end
