(* ===== verification/Ssh_Transfer.thy ===== *)
theory Ssh_Transfer imports Ssh_Apply_Rules begin

text \<open>
  \<open>apply_data\<close> as a whole: a failure changes neither tables nor secrets, a success installs
  the payload.  The lemmas are proved for any secret store that keeps its contract.
\<close>

section \<open>Steps of the provider\<close>

definition same_db :: "'a sync_db_scheme \<Rightarrow> 'b sync_db_scheme \<Rightarrow> bool" where
  "same_db a b \<longleftrightarrow> sync_meta b = sync_meta a \<and> memory_rows b = memory_rows a \<and> ssh b = ssh a"

lemma same_db_refl [simp]: "same_db a a"
  by (simp add: same_db_def)

lemma same_db_trans: "same_db a b \<Longrightarrow> same_db b c \<Longrightarrow> same_db a c"
  by (simp add: same_db_def)

lemma same_tables_same_db: "same_tables a b \<longleftrightarrow> same_db a b \<and> sync_db.more b = sync_db.more a"
  by (auto simp: same_tables_iff same_db_def same_rest_def)

lemma on_secrets_result:
  assumes "on_secrets f w = (r, w')"
  shows "same_db w w'" "f (sync_db.more w) = (r, sync_db.more w')"
  using assms by (auto simp: on_secrets_def same_db_def split: prod.splits)

lemma ask_ids_result:
  assumes "ask_ids q w = (r, w')"
  shows "same_tables w w'" and "r = Inr ids \<Longrightarrow> ids = q (ssh w)"
proof -
  obtain x where run: "with_conn (select q) w = (x, w')" and x: "\<And>i. r = Inr i \<Longrightarrow> x = Inr i"
    using assms by (cases r) (auto simp: ask_ids_def map_err_eq_Inl)
  have "same_tables w w' \<and> (\<forall>i. x = Inr i \<longrightarrow> i = q (ssh w))"
    using with_conn_result [OF run]
  proof
    assume "\<exists>db1. select q db1 = (x, w') \<and> same_tables w db1"
    then obtain db1 where sel: "select q db1 = (x, w')" and same: "same_tables w db1" by blast
    show ?thesis
      by (cases rule: select_cases [of q db1]) (use sel same in \<open>auto simp: same_tables_same_db same_db_def\<close>)
  qed auto
  then show "same_tables w w'" "r = Inr ids \<Longrightarrow> ids = q (ssh w)" using x by auto
qed

text \<open>The transaction: all or nothing, and nothing outside the tables.\<close>

lemma apply_transaction:
  fixes p :: "('j, 'm) ssh_provider"
  assumes run: "with_conn (transaction (\<lambda>e. e) (apply_body p d ms)) w = (x, w')"
  shows "x = Inl e \<Longrightarrow> same_tables w w'"
    and "sync_db.more w' = sync_db.more w" "sync_meta w' = sync_meta w"
    and "x = Inr out \<Longrightarrow> tables_ok (ssh w) \<Longrightarrow> ssh w' = rebuilt (sp_now p) d (ssh w)"
    and "x = Inr out \<Longrightarrow> \<exists>(db1 :: 'm sync_db_scheme) (db2 :: 'm sync_db_scheme). memory_rows db1 = memory_rows w \<and> memory_rows db2 = memory_rows w' \<and>
      merge_and_persist_memories (sp_chrono p) (sp_clock p) ms db1 = (Inr out, db2)"
    and "x = Inr out \<Longrightarrow> tables_ok (ssh w) \<Longrightarrow> tables_ok (ssh w')"
proof -
  let ?t = "transaction (\<lambda>e. e) (apply_body p d ms)"
  let ?merged = "\<lambda>out. \<exists>(db1 :: 'm sync_db_scheme) (db2 :: 'm sync_db_scheme). memory_rows db1 = memory_rows w \<and> memory_rows db2 = memory_rows w' \<and>
      merge_and_persist_memories (sp_chrono p) (sp_clock p) ms db1 = (Inr out, db2)"
  have "(\<forall>e. x = Inl e \<longrightarrow> same_tables w w') \<and> sync_db.more w' = sync_db.more w \<and>
    sync_meta w' = sync_meta w \<and>
    (\<forall>out. x = Inr out \<longrightarrow> (tables_ok (ssh w) \<longrightarrow> ssh w' = rebuilt (sp_now p) d (ssh w) \<and> tables_ok (ssh w')) \<and>
      ?merged out)"
    using with_conn_result [OF run]
  proof
    assume "(\<exists>e. x = Inl e) \<and> same_tables w w'"
    then show ?thesis by (auto simp: same_tables_same_db same_db_def)
  next
    assume "\<exists>db1. ?t db1 = (x, w') \<and> same_tables w db1"
    then obtain w1 where t: "?t w1 = (x, w')" and w1: "same_tables w w1" by blast
    show ?thesis
    proof (rule transaction_cases [of "apply_body p d ms" "\<lambda>e. e" w1, OF apply_body_more(1)])
      show "apply_body p d ms a = (y, b) \<Longrightarrow> apply_body p d ms a = (y, b)" for a y b .
    next
      fix e db1
      assume "?t w1 = (Inl e, db1)" "same_tables w1 db1"
      then show ?thesis using t w1 by (auto simp: same_tables_same_db same_db_def)
    next
      fix a out b c
      assume s: "same_tables w1 a" and body: "apply_body p d ms a = (Inr out, b)"
        and e: "same_tables b c" and done1: "?t w1 = (Inr out, c)"
      have c: "c = w'" "x = Inr out" using done1 t by simp_all
      obtain db1 where r: "rebuild_tables (sp_now p) d a = (Inr (), db1)"
        and m: "merge_and_persist_memories (sp_chrono p) (sp_clock p) ms db1 = (Inr out, b)"
        using body by (auto simp: apply_body_def attempt_eq_Inr)
      have only: "only_ssh a db1" using only_ssh_rebuild [of a "sp_now p" d] r by simp
      have "tables_ok (ssh w) \<Longrightarrow> ssh w' = rebuilt (sp_now p) d (ssh w) \<and> tables_ok (ssh w')"
        using rebuild_tables_Inr [OF r] merge_and_persist_ssh [OF m] s e w1 c only
        by (simp add: same_tables_same_db same_db_def only_ssh_def)
      moreover have "?merged out"
        using only s e w1 c m by (auto simp: same_tables_same_db same_db_def only_ssh_def same_rest_def)
      ultimately show ?thesis
        using apply_body_more [OF body] s e w1 c by (auto simp: same_tables_same_db same_db_def)
    qed
  qed
  then show "x = Inl e \<Longrightarrow> same_tables w w'" "sync_db.more w' = sync_db.more w" "sync_meta w' = sync_meta w"
    "x = Inr out \<Longrightarrow> tables_ok (ssh w) \<Longrightarrow> ssh w' = rebuilt (sp_now p) d (ssh w)"
    "x = Inr out \<Longrightarrow> ?merged out" "x = Inr out \<Longrightarrow> tables_ok (ssh w) \<Longrightarrow> tables_ok (ssh w')" by blast+
qed

section \<open>Which secrets a payload names\<close>

definition payload_keys :: "ssh_sync_data \<Rightarrow> secret_key list" where
  "payload_keys d = map fst (secret_fields d)"

lemma plan_secrets_keys:
  "plan_secrets P token fs = Inr (pending, clears) \<Longrightarrow>
   set (map fst pending) \<subseteq> set (map fst fs) \<and> set clears \<subseteq> set (map fst fs) \<and>
   (distinct (map fst fs) \<longrightarrow> distinct (map fst pending) \<and> set (map fst pending) \<inter> set clears = {})"
proof (induction fs arbitrary: pending clears)
  case (Cons f fs)
  obtain k v where f: "f = (k, v)" by fastforce
  show ?case
  proof (cases v)
    case None
    then obtain clears' where "plan_secrets P token fs = Inr (pending, clears')" "clears = k # clears'"
      using Cons.prems f by (auto split: sum.splits)
    then show ?thesis using Cons.IH [of pending clears'] f by auto
  next
    case (Some c)
    then obtain v' pending' where "plan_secrets P token fs = Inr (pending', clears)" "pending = (k, v') # pending'"
      using Cons.prems f by (auto split: sum.splits)
    then show ?thesis using Cons.IH [of pending' clears] f by auto
  qed
qed simp

section \<open>Failure and success\<close>

lemma apply_cases:
  assumes run: "ssh_apply_data p token data w = (r, w')"
  obtains (rejected) e where "r = Inl e" "w' = w"
    | (unread) e where "r = Inl e" "same_tables w w'"
    | (unwritten) d pending clears e w2 where "sp_from_value p data = Inr d"
      "plan_secrets (sp_crypto p) token (secret_fields d) = Inr (pending, clears)"
      "same_tables w w2" "write_stage p pending w2 = (Inl e, w')" "r = Inl e"
    | (stored) d ms pending clears w2 written w3 x w4 where "sp_from_value p data = Inr d"
      "decrypt_machine_memories (sp_crypto p) (sp_chrono p) token (sd_machine_memories d) = Inr ms"
      "plan_secrets (sp_crypto p) token (secret_fields d) = Inr (pending, clears)"
      "same_tables w w2" "write_stage p pending w2 = (Inr written, w3)"
      "store_stage p d ms written w3 = (x, w4)"
      "case x of Inl e \<Rightarrow> r = Inl e \<and> w' = w4 | Inr out \<Rightarrow> r = Inr out \<and>
        w' = snd (on_secrets (\<lambda>m. ((), delete_secrets (sp_store p)
          (clears @ orphan_keys d (node_ids (ssh w) @ credential_ids (ssh w))) m)) w4)"
proof (cases "sp_from_value p data")
  case (Inl e)
  then show thesis using run rejected by (auto simp: ssh_apply_data_def)
next
  case d: (Inr d)
  show thesis
  proof (cases "decrypt_machine_memories (sp_crypto p) (sp_chrono p) token (sd_machine_memories d)")
    case (Inl e)
    then show thesis using run rejected d by (auto simp: ssh_apply_data_def)
  next
    case ms: (Inr ms)
    show thesis
    proof (cases "plan_secrets (sp_crypto p) token (secret_fields d)")
      case (Inl e)
      then show thesis using run rejected d ms by (auto simp: ssh_apply_data_def)
    next
      case (Inr plan)
      obtain pending clears where plan: "plan = (pending, clears)" by fastforce
      have run': "attempt (ask_ids node_ids w) (\<lambda>nodes w1.
          attempt (ask_ids credential_ids w1) (\<lambda>credentials w2.
          attempt (write_stage p pending w2) (\<lambda>written w3.
          attempt (store_stage p d ms written w3) (\<lambda>outcome w4.
            (Inr outcome, snd (on_secrets (\<lambda>m. ((), delete_secrets (sp_store p)
               (clears @ orphan_keys d (nodes @ credentials)) m)) w4)))))) = (r, w')"
        using run d ms Inr plan by (simp add: ssh_apply_data_def)
      show thesis using run'
      proof (cases rule: attemptE)
        case (fails e)
        then show thesis using unread ask_ids_result(1) by blast
      next
        case (goes nodes w1)
        have w1: "same_tables w w1" "nodes = node_ids (ssh w)"
          using ask_ids_result(1) [OF goes(1)] ask_ids_result(2) [OF goes(1) refl] by simp_all
        show thesis using goes(2)
        proof (cases rule: attemptE)
          case (fails e)
          then show thesis using unread ask_ids_result(1) w1 same_tables_trans by blast
        next
          case (goes credentials w2)
          have w2: "same_tables w w2" "credentials = credential_ids (ssh w)"
            using ask_ids_result(1) [OF goes(1)] ask_ids_result(2) [OF goes(1) refl] w1 same_tables_trans
            by (blast, simp add: same_tables_same_db same_db_def)
          show thesis using goes(2)
          proof (cases rule: attemptE)
            case (fails e)
            then show thesis using unwritten d Inr plan w2 by blast
          next
            case (goes written w3)
            note ws_run = goes(1)
            show thesis using goes(2)
            proof (cases rule: attemptE)
              case (fails e)
              then show thesis using stored [OF d ms _ w2(1) ws_run fails(1)] Inr plan by simp
            next
              case (goes out w4)
              then show thesis
                using stored [OF d ms _ w2(1) ws_run goes(1)] Inr plan w1(2) w2(2) by auto
            qed
          qed
        qed
      qed
    qed
  qed
qed

context reliable_secrets begin

lemma write_stage_result:
  assumes store: "sp_store p = store" and run: "write_stage p pending w = (r, w')"
  shows "same_db w w'"
    and "x \<notin> fst ` set pending \<Longrightarrow> secrets (sync_db.more w') x = secrets (sync_db.more w) x"
    and "reliable (sync_db.more w) \<Longrightarrow> distinct (map fst pending) \<Longrightarrow>
      r = Inr (map (\<lambda>(k, v). (k, secrets (sync_db.more w) k)) pending) \<and> reliable (sync_db.more w') \<and>
      secrets (sync_db.more w') = secrets (sync_db.more w) ++ map_of pending"
proof -
  obtain y where sec: "on_secrets (write_secrets store pending []) w = (y, w')"
    and y: "map_err (\<lambda>e. Provider (provider_error_text e)) (y, w') = (r, w')"
    using run store by (cases "on_secrets (write_secrets store pending []) w"; cases "fst (on_secrets (write_secrets store pending []) w)")
      (auto simp: write_stage_def)
  note w = on_secrets_result [OF sec]
  show "same_db w w'" by (rule w(1))
  show "x \<notin> fst ` set pending \<Longrightarrow> secrets (sync_db.more w') x = secrets (sync_db.more w) x"
    using write_frame [OF w(2)] by simp
  show "reliable (sync_db.more w) \<Longrightarrow> distinct (map fst pending) \<Longrightarrow>
      r = Inr (map (\<lambda>(k, v). (k, secrets (sync_db.more w) k)) pending) \<and> reliable (sync_db.more w') \<and>
      secrets (sync_db.more w') = secrets (sync_db.more w) ++ map_of pending"
    using write_works [of "sync_db.more w" pending "[]"] w(2) y by auto
qed

lemma written_keys:
  "write_secrets store ps ws m = (Inr written, m') \<Longrightarrow> fst ` set written = fst ` set ws \<union> fst ` set ps"
proof (induction ps arbitrary: ws m)
  case (Cons p ps)
  obtain n k v where p: "p = ((n, k), v)" by (metis prod.collapse)
  obtain g m1 m2 u where "store_get store n k m = (Inr g, m1)" "store_set store n k v m1 = (Inr u, m2)"
    and rest: "write_secrets store ps (ws @ [((n, k), g)]) m2 = (Inr written, m')"
    using Cons.prems p by (auto split: prod.splits sum.splits)
  then show ?case using Cons.IH [OF rest] p by auto
qed simp

lemma store_stage_result:
  fixes p :: "('j, 'm) ssh_provider"
  assumes store: "sp_store p = store" and run: "store_stage p d ms written w = (r, w')"
  shows "r = Inl e \<Longrightarrow> same_db w w'"
    and "x \<notin> fst ` set written \<Longrightarrow> secrets (sync_db.more w') x = secrets (sync_db.more w) x"
    and "r = Inl e \<Longrightarrow> reliable (sync_db.more w) \<Longrightarrow> distinct (map fst written) \<Longrightarrow>
      secrets (sync_db.more w') x =
      (case map_of written x of None \<Rightarrow> secrets (sync_db.more w) x | Some prior \<Rightarrow> prior)"
    and "r = Inr out \<Longrightarrow> with_conn (transaction (\<lambda>e. e) (apply_body p d ms)) w = (Inr out, w')"
proof -
  obtain y w1 where t: "with_conn (transaction (\<lambda>e. e) (apply_body p d ms)) w = (y, w1)" by fastforce
  show "r = Inr out \<Longrightarrow> with_conn (transaction (\<lambda>e. e) (apply_body p d ms)) w = (Inr out, w')"
    using run t by (cases y) (auto simp: store_stage_def)
  show "secrets (sync_db.more w') x = secrets (sync_db.more w) x" if x: "x \<notin> fst ` set written"
  proof (cases y)
    case (Inl e)
    have "sync_db.more w' = rollback_keychain_writes store written (sync_db.more w1)"
      using run t Inl store by (auto simp: store_stage_def on_secrets_def)
    then show ?thesis using rollback_frame [OF x] apply_transaction(2) [OF t] by simp
  next
    case (Inr o1)
    then show ?thesis using run t apply_transaction(2) [OF t] by (simp add: store_stage_def)
  qed
  have failed: "same_tables w w1" "w' = snd (on_secrets (\<lambda>m. ((), rollback_keychain_writes store written m)) w1)"
    if bad: "r = Inl e"
  proof -
    obtain e' where "y = Inl e'" using run t bad by (cases y) (auto simp: store_stage_def)
    then show "same_tables w w1" "w' = snd (on_secrets (\<lambda>m. ((), rollback_keychain_writes store written m)) w1)"
      using apply_transaction(1) [OF t] run t store by (simp_all add: store_stage_def)
  qed
  show "r = Inl e \<Longrightarrow> same_db w w'"
    using failed on_secrets_result(1) [OF prod.collapse [symmetric]] same_db_trans
    by (metis same_tables_same_db)
  show "r = Inl e \<Longrightarrow> reliable (sync_db.more w) \<Longrightarrow> distinct (map fst written) \<Longrightarrow>
      secrets (sync_db.more w') x =
      (case map_of written x of None \<Rightarrow> secrets (sync_db.more w) x | Some prior \<Rightarrow> prior)"
    using failed rollback_restores [of "sync_db.more w" written x]
    by (simp add: on_secrets_def same_tables_same_db)
qed

text \<open>A failed \<open>apply_data\<close>.\<close>

lemma apply_fails:
  assumes store: "sp_store p = store" and run: "ssh_apply_data p token data w = (Inl e, w')"
  shows "same_db w w'"
    and "(\<And>d. sp_from_value p data = Inr d \<Longrightarrow> x \<notin> set (payload_keys d)) \<Longrightarrow>
      secrets (sync_db.more w') x = secrets (sync_db.more w) x"
    and "(\<And>d. sp_from_value p data = Inr d \<Longrightarrow> distinct (payload_keys d)) \<Longrightarrow>
      reliable (sync_db.more w) \<Longrightarrow> secrets (sync_db.more w') = secrets (sync_db.more w)"
proof -
  have "same_db w w' \<and>
    ((\<forall>d. sp_from_value p data = Inr d \<longrightarrow> x \<notin> set (payload_keys d)) \<longrightarrow>
      secrets (sync_db.more w') x = secrets (sync_db.more w) x) \<and>
    ((\<forall>d. sp_from_value p data = Inr d \<longrightarrow> distinct (payload_keys d)) \<longrightarrow>
      reliable (sync_db.more w) \<longrightarrow> secrets (sync_db.more w') = secrets (sync_db.more w))"
    using run
  proof (cases rule: apply_cases)
    case (unread e)
    then show ?thesis by (simp add: same_tables_same_db)
  next
    case (unwritten d pending clears e w2)
    note keys = plan_secrets_keys [OF unwritten(2)]
    note ws = write_stage_result [OF store unwritten(4)]
    have "x \<notin> set (payload_keys d) \<Longrightarrow> secrets (sync_db.more w') x = secrets (sync_db.more w2) x"
      using ws(2) [of x] keys by (auto simp: payload_keys_def)
    moreover have "\<not> (reliable (sync_db.more w2) \<and> distinct (payload_keys d))"
      using ws(3) keys unwritten(5) by (auto simp: payload_keys_def)
    ultimately show ?thesis
      using ws(1) unwritten(1,3) by (auto simp: same_tables_same_db intro: same_db_trans)
  next
    case (stored d ms pending clears w2 written w3 y w4)
    note keys = plan_secrets_keys [OF stored(3)]
    note ws = write_stage_result [OF store stored(5)]
    have y: "y = Inl e" "w' = w4" using stored(7) by (auto split: sum.splits)
    note ss = store_stage_result [OF store stored(6)]
    obtain m3 where m3: "write_secrets store pending [] (sync_db.more w2) = (Inr written, m3)"
      using stored(5) store by (auto simp: write_stage_def on_secrets_def split: prod.splits)
    have names: "fst ` set written = fst ` set pending" using written_keys [OF m3] by simp
    have frame: "secrets (sync_db.more w') x = secrets (sync_db.more w2) x" if "x \<notin> set (payload_keys d)"
    proof -
      have "x \<notin> fst ` set pending" using that keys by (auto simp: payload_keys_def)
      then show ?thesis using ws(2) ss(2) names y by simp
    qed
    have restored: "secrets (sync_db.more w') = secrets (sync_db.more w2)"
      if "distinct (payload_keys d)" "reliable (sync_db.more w2)"
    proof -
      have dist: "distinct (map fst pending)" using that(1) keys by (simp add: payload_keys_def)
      note works = ws(3) [OF that(2) dist]
      have written: "written = map (\<lambda>(k, v). (k, secrets (sync_db.more w2) k)) pending" using works by simp
      have dw: "distinct (map fst written)" using dist by (simp add: written o_def split_beta)
      have "map_of written k = (if k \<in> fst ` set pending then Some (secrets (sync_db.more w2) k) else None)" for k
        unfolding written by (induction pending) auto
      then have "secrets (sync_db.more w') k =
          (if k \<in> fst ` set pending then secrets (sync_db.more w2) k else secrets (sync_db.more w3) k)" for k
        using ss(3) [OF y(1) _ dw, of k] works y(2) by (simp split: if_splits)
      moreover have "secrets (sync_db.more w3) k = secrets (sync_db.more w2) k" if "k \<notin> fst ` set pending" for k
        using ws(2) [OF that] .
      ultimately show ?thesis by (simp add: fun_eq_iff)
    qed
    show ?thesis
      using ws(1) ss(1) [OF y(1)] frame restored y(2) stored(1,4)
      by (auto simp: same_tables_same_db intro: same_db_trans)
  qed simp
  then show "same_db w w'"
    "(\<And>d. sp_from_value p data = Inr d \<Longrightarrow> x \<notin> set (payload_keys d)) \<Longrightarrow>
      secrets (sync_db.more w') x = secrets (sync_db.more w) x"
    "(\<And>d. sp_from_value p data = Inr d \<Longrightarrow> distinct (payload_keys d)) \<Longrightarrow>
      reliable (sync_db.more w) \<Longrightarrow> secrets (sync_db.more w') = secrets (sync_db.more w)" by blast+
qed

end

text \<open>What the payload says of a secret: nothing, that there is none, or its value.\<close>

definition payload_secret ::
  "crypto_primitives \<Rightarrow> string \<Rightarrow> ssh_sync_data \<Rightarrow> secret_key \<Rightarrow> string option option" where
  "payload_secret P token d x =
    (case map_of (secret_fields d) x of
      None \<Rightarrow> None
    | Some None \<Rightarrow> Some None
    | Some (Some c) \<Rightarrow> Some (case decrypt P token c of Inl e \<Rightarrow> None | Inr v \<Rightarrow> Some v))"

lemma plan_secrets_lookup:
  "plan_secrets P token fs = Inr (pending, clears) \<Longrightarrow> distinct (map fst fs) \<Longrightarrow>
   (case map_of fs x of
      None \<Rightarrow> map_of pending x = None \<and> x \<notin> set clears
    | Some None \<Rightarrow> map_of pending x = None \<and> x \<in> set clears
    | Some (Some c) \<Rightarrow> x \<notin> set clears \<and> (\<exists>v. decrypt P token c = Inr v \<and> map_of pending x = Some v))"
proof (induction fs arbitrary: pending clears)
  case (Cons f fs)
  obtain k e where f: "f = (k, e)" by fastforce
  have new: "map_of fs k = None" using Cons.prems(2) f by (simp add: map_of_eq_None_iff)
  show ?case
  proof (cases e)
    case None
    then obtain clears' where p: "plan_secrets P token fs = Inr (pending, clears')" "clears = k # clears'"
      using Cons.prems f by (auto split: sum.splits)
    show ?thesis
      using Cons.IH [OF p(1)] Cons.prems(2) f None p(2) new
      by (cases "x = k") (auto split: option.splits simp del: map_of_eq_Some_iff)
  next
    case (Some c)
    then obtain v pending' where p: "plan_secrets P token fs = Inr (pending', clears)"
      "pending = (k, v) # pending'" "decrypt P token c = Inr v"
      using Cons.prems f by (auto split: sum.splits)
    show ?thesis
      using Cons.IH [OF p(1)] Cons.prems(2) f Some p(2,3) new
      by (cases "x = k") (auto split: option.splits simp del: map_of_eq_Some_iff)
  qed
qed simp

lemma payload_secret_plan:
  assumes plan: "plan_secrets P token (secret_fields d) = Inr (pending, clears)"
    and dist: "distinct (payload_keys d)"
  shows "payload_secret P token d x =
    (if x \<in> set clears then Some None else map_option Some (map_of pending x))"
proof -
  note look = plan_secrets_lookup [OF plan dist [unfolded payload_keys_def], of x]
  show ?thesis
  proof (cases "map_of (secret_fields d) x")
    case None
    then show ?thesis using look by (simp add: payload_secret_def)
  next
    case (Some e)
    then show ?thesis using look by (cases e) (auto simp: payload_secret_def)
  qed
qed

context reliable_secrets begin

lemma on_secrets_more: "sync_db.more (snd (on_secrets (\<lambda>m. ((), f m)) w)) = f (sync_db.more w)"
  by (simp add: on_secrets_def)

text \<open>A successful \<open>apply_data\<close>.\<close>

lemma apply_succeeds:
  fixes p :: "('j, 'm) ssh_provider"
  assumes store: "sp_store p = store" and run: "ssh_apply_data p token data w = (Inr out, w')"
    and ok: "tables_ok (ssh w)"
  obtains d ms where "sp_from_value p data = Inr d"
    "decrypt_machine_memories (sp_crypto p) (sp_chrono p) token (sd_machine_memories d) = Inr ms"
    "sync_meta w' = sync_meta w" "ssh w' = rebuilt (sp_now p) d (ssh w)" "tables_ok (ssh w')"
    "\<exists>(db1 :: 'm sync_db_scheme) (db2 :: 'm sync_db_scheme).
      memory_rows db1 = memory_rows w \<and> memory_rows db2 = memory_rows w' \<and>
      merge_and_persist_memories (sp_chrono p) (sp_clock p) ms db1 = (Inr out, db2)"
    "reliable (sync_db.more w) \<Longrightarrow> distinct (payload_keys d) \<Longrightarrow>
      secrets (sync_db.more w') x =
        (if x \<in> set (orphan_keys d (node_ids (ssh w) @ credential_ids (ssh w))) then None
         else (case payload_secret (sp_crypto p) token d x of
             None \<Rightarrow> secrets (sync_db.more w) x | Some s \<Rightarrow> s))"
  using run
proof (cases rule: apply_cases)
  case (stored d ms pending clears w2 written w3 y w4)
  let ?gone = "clears @ orphan_keys d (node_ids (ssh w) @ credential_ids (ssh w))"
  have y: "y = Inr out" "w' = snd (on_secrets (\<lambda>m. ((), delete_secrets store ?gone m)) w4)"
    using stored(7) store by (auto split: sum.splits)
  note ws = write_stage_result [OF store stored(5)]
  have t: "with_conn (transaction (\<lambda>e. e) (apply_body p d ms)) w3 = (Inr out, w4)"
    by (rule store_stage_result(4) [OF store stored(6) y(1)])
  have w3: "same_db w w3" using ws(1) stored(4) by (auto simp: same_tables_same_db intro: same_db_trans)
  have w4: "same_db w4 w'"
    unfolding y(2) by (rule on_secrets_result(1) [OF prod.collapse [symmetric]])
  have tables: "ssh w' = rebuilt (sp_now p) d (ssh w)"
    using apply_transaction(4) [OF t refl] w3 w4 ok by (simp add: same_db_def)
  have ok': "tables_ok (ssh w')"
    using apply_transaction(6) [OF t refl] w3 w4 ok by (simp add: same_db_def)
  have secrets': "secrets (sync_db.more w') x =
        (if x \<in> set (orphan_keys d (node_ids (ssh w) @ credential_ids (ssh w))) then None
         else (case payload_secret (sp_crypto p) token d x of
             None \<Rightarrow> secrets (sync_db.more w) x | Some s \<Rightarrow> s))"
    if rel: "reliable (sync_db.more w)" and dist: "distinct (payload_keys d)"
  proof -
    have more2: "sync_db.more w2 = sync_db.more w" using stored(4) by (simp add: same_tables_same_db)
    have "distinct (map fst pending)"
      using plan_secrets_keys [OF stored(3)] dist by (simp add: payload_keys_def)
    note works = ws(3) [unfolded more2, OF rel this]
    have more4: "sync_db.more w4 = sync_db.more w3" by (rule apply_transaction(2) [OF t])
    have "secrets (sync_db.more w') x = (if x \<in> set ?gone then None else secrets (sync_db.more w3) x)"
      unfolding y(2) on_secrets_more more4
      using delete_secrets_works [of "sync_db.more w3" ?gone x] works by blast
    then show ?thesis
      using works payload_secret_plan [OF stored(3) dist, of x]
      by (auto simp: map_add_def split: option.splits)
  qed
  have meta: "sync_meta w' = sync_meta w"
    using apply_transaction(3) [OF t] w3 w4 by (simp add: same_db_def)
  have merged: "\<exists>(db1 :: 'm sync_db_scheme) (db2 :: 'm sync_db_scheme).
      memory_rows db1 = memory_rows w \<and> memory_rows db2 = memory_rows w' \<and>
      merge_and_persist_memories (sp_chrono p) (sp_clock p) ms db1 = (Inr out, db2)"
    using apply_transaction(5) [OF t refl] w3 w4 by (simp add: same_db_def)
  show thesis by (rule that [OF stored(1,2) meta tables ok' merged secrets'])
qed auto

end

end
