(* ===== verification/Ssh_Panel.thy ===== *)
theory Ssh_Panel imports Ssh_Rules begin

text \<open>
  The tree of the SSH panel (\<open>app/src/ssh_manager/panel.rs\<close>): which moves it allows, which
  nodes it shows and in which order.  The panel keeps the nodes of its last \<open>refresh_tree\<close>;
  drawing, events and notifications are not modelled.

  The loops that climb to the root have no bound in the source.  They are partial functions:
  \<open>None\<close> is a loop that does not end, which happens exactly on a cycle of parents.
\<close>

section \<open>Climbing to the root\<close>

text \<open>\<open>self.nodes.iter().find(|n| n.id == id).and_then(|n| n.parent_id.as_deref())\<close>\<close>

definition parent_in :: "ssh_node list \<Rightarrow> string \<Rightarrow> string option" where
  "parent_in nodes i =
    (case find (\<lambda>n. n_id n = i) nodes of None \<Rightarrow> None | Some n \<Rightarrow> n_parent_id n)"

partial_function (option) climb :: "ssh_node list \<Rightarrow> string \<Rightarrow> string option \<Rightarrow> bool option" where
  [code]: "climb nodes dragged cursor =
    (case cursor of
      None \<Rightarrow> Some True
    | Some i \<Rightarrow> if i = dragged then Some False else climb nodes dragged (parent_in nodes i))"

definition move_is_legal :: "ssh_node list \<Rightarrow> string \<Rightarrow> string option \<Rightarrow> bool option" where
  "move_is_legal nodes dragged new_parent =
    (if new_parent = Some dragged then Some False
     else if parent_in nodes dragged = new_parent then Some False
     else climb nodes dragged new_parent)"

partial_function (option) visible_from :: "ssh_node list \<Rightarrow> string option \<Rightarrow> bool option" where
  [code]: "visible_from nodes cursor =
    (case cursor of
      None \<Rightarrow> Some True
    | Some i \<Rightarrow>
        (case find (\<lambda>n. n_id n = i) nodes of
          None \<Rightarrow> Some True
        | Some n \<Rightarrow>
            if n_kind n = Folder \<and> n_is_collapsed n then Some False
            else visible_from nodes (n_parent_id n)))"

definition is_visible :: "ssh_node list \<Rightarrow> ssh_node \<Rightarrow> bool option" where
  "is_visible nodes n = visible_from nodes (n_parent_id n)"

text \<open>\<open>compute_depths\<close> gives up at depth 65, so it ends on any list; \<open>panel_by_id\<close> is a hash map
  collected from the list, in which the last node of an identifier counts.\<close>

definition panel_by_id :: "ssh_node list \<Rightarrow> string \<Rightarrow> ssh_node option" where
  "panel_by_id nodes i = find (\<lambda>n. n_id n = i) (rev nodes)"

function depth_from :: "ssh_node list \<Rightarrow> string option \<Rightarrow> nat \<Rightarrow> nat" where
  "depth_from nodes cursor d =
    (case cursor of
      None \<Rightarrow> d
    | Some i \<Rightarrow>
        (case panel_by_id nodes i of
          None \<Rightarrow> d
        | Some n \<Rightarrow> if d + 1 > 64 then d + 1 else depth_from nodes (n_parent_id n) (d + 1)))"
  by pat_completeness auto
termination by (relation "measure (\<lambda>(nodes, cursor, d). 64 - d)") auto

definition compute_depths :: "ssh_node list \<Rightarrow> string \<Rightarrow> nat option" where
  "compute_depths nodes = map_of (rev (map (\<lambda>n. (n_id n, depth_from nodes (n_parent_id n) 0)) nodes))"

definition resolve_parent_for_new_node :: "string option \<Rightarrow> ssh_node list \<Rightarrow> string option" where
  "resolve_parent_for_new_node selected nodes =
    (case selected of
      None \<Rightarrow> None
    | Some i \<Rightarrow>
        (case find (\<lambda>n. n_id n = i) nodes of
          None \<Rightarrow> None
        | Some n \<Rightarrow> (case n_kind n of Folder \<Rightarrow> Some (n_id n) | Server \<Rightarrow> n_parent_id n)))"

section \<open>Moving a node\<close>

text \<open>
  \<open>on_move_node\<close>: the outer \<open>None\<close> is a legality check that does not end.  The result says
  whether the move was made; a failure of the database is its error text.
\<close>

definition on_move_node ::
  "ssh_node list \<Rightarrow> int \<Rightarrow> string \<Rightarrow> string option \<Rightarrow> 'a sync_db_scheme \<Rightarrow>
   ((string + bool) \<times> 'a sync_db_scheme) option" where
  "on_move_node nodes now node new_parent db =
    (case move_is_legal nodes node new_parent of
      None \<Rightarrow> None
    | Some False \<Rightarrow> Some (Inr False, db)
    | Some True \<Rightarrow> Some
        (attempt (with_conn (\<lambda>c.
            attempt (map_err repository_error_text (next_sort_order new_parent c)) (\<lambda>order c1.
              map_err repository_error_text (move_node now node new_parent order c1))) db) (\<lambda>_ db1.
          (Inr True, db1))))"

section \<open>The order on the screen\<close>

text \<open>\<open>by_parent\<close>, each entry sorted by \<open>(sort_order, name)\<close>.\<close>

definition shown_children :: "ssh_node list \<Rightarrow> string option \<Rightarrow> ssh_node list" where
  "shown_children nodes p =
    sort_key (\<lambda>n. (n_sort_order n, n_name n)) (filter (\<lambda>n. n_parent_id n = p) nodes)"

text \<open>The recursive \<open>walk\<close> over a list of siblings; it returns what it shows and what it has seen.\<close>

function (sequential) walk ::
  "ssh_node list \<Rightarrow> ssh_node list \<Rightarrow> string set \<Rightarrow> ssh_node list \<times> string set" where
  "walk nodes [] seen = ([], seen)"
| "walk nodes (c # cs) seen =
    (if n_id c \<in> seen then walk nodes cs seen
     else
       (case walk nodes (shown_children nodes (Some (n_id c))) (insert (n_id c) seen) of
         (out1, seen1) \<Rightarrow>
           (case walk nodes cs seen1 of (out2, seen2) \<Rightarrow> (c # out1 @ out2, seen2))))"
  by pat_completeness auto

lemma walk_seen: "walk_dom (nodes, cs, seen) \<Longrightarrow> seen \<subseteq> snd (walk nodes cs seen)"
proof (induction nodes cs seen rule: walk.pinduct)
  case (2 nodes c cs seen)
  then show ?case
    by (cases "n_id c \<in> seen") (fastforce simp: walk.psimps split: prod.splits)+
qed (simp add: walk.psimps)

definition unshown :: "ssh_node list \<Rightarrow> ssh_node list \<Rightarrow> string set \<Rightarrow> nat" where
  "unshown nodes cs seen = card (n_id ` (set nodes \<union> set cs) - seen)"

lemma unshown_children:
  assumes "n_id c \<notin> seen"
  shows "unshown nodes (shown_children nodes (Some (n_id c))) (insert (n_id c) seen) <
    unshown nodes (c # cs) seen"
  unfolding unshown_def
  by (rule psubset_card_mono) (use assms in \<open>auto simp: shown_children_def\<close>)

lemma unshown_mono:
  assumes "seen \<subseteq> seen'"
  shows "unshown nodes cs seen' \<le> unshown nodes (c # cs) seen"
  unfolding unshown_def by (rule card_mono) (use assms in auto)

termination walk
proof (relation "measures [\<lambda>(nodes, cs, seen). unshown nodes cs seen, \<lambda>(nodes, cs, seen). length cs]")
  fix nodes cs :: "ssh_node list" and c :: ssh_node and seen seen1 out1
  assume new: "n_id c \<notin> seen"
    and out: "(out1, seen1) = walk nodes (shown_children nodes (Some (n_id c))) (insert (n_id c) seen)"
    and dom: "walk_dom (nodes, shown_children nodes (Some (n_id c)), insert (n_id c) seen)"
  have "insert (n_id c) seen \<subseteq> seen1" using walk_seen [OF dom] out by (metis snd_conv)
  then show "((nodes, cs, seen1), nodes, c # cs, seen)
      \<in> measures [\<lambda>(nodes, cs, seen). unshown nodes cs seen, \<lambda>(nodes, cs, seen). length cs]"
    using unshown_mono [of seen seen1 nodes cs c] by auto
next
  fix nodes cs :: "ssh_node list" and c :: ssh_node and seen
  show "((nodes, cs, seen), nodes, c # cs, seen)
      \<in> measures [\<lambda>(nodes, cs, seen). unshown nodes cs seen, \<lambda>(nodes, cs, seen). length cs]"
    using unshown_mono [of seen seen nodes cs c] by auto
qed (auto simp: unshown_children)

lemma walk_seen_subset: "seen \<subseteq> snd (walk nodes cs seen)"
  by (induction nodes cs seen rule: walk.induct) (auto split: prod.splits, blast+)

text \<open>
  \<open>sort_for_display\<close>: first the trees under every parent that is not itself a node (\<open>by_parent\<close>
  is a \<open>BTreeMap\<close>, so the roots come first), then whatever a cycle of parents hides from them.
\<close>

definition parent_keys :: "ssh_node list \<Rightarrow> string option list" where
  "parent_keys nodes = sorted_list_of_set (set (map n_parent_id nodes))"

fun walk_keys ::
  "ssh_node list \<Rightarrow> string option list \<Rightarrow> string set \<Rightarrow> ssh_node list \<times> string set" where
  "walk_keys nodes [] seen = ([], seen)"
| "walk_keys nodes (k # ks) seen =
    (case walk nodes (shown_children nodes k) seen of
      (out1, seen1) \<Rightarrow> (case walk_keys nodes ks seen1 of (out2, seen2) \<Rightarrow> (out1 @ out2, seen2)))"

definition sort_for_display :: "ssh_node list \<Rightarrow> ssh_node list" where
  "sort_for_display nodes =
    (let keys = parent_keys nodes;
         roots = filter (\<lambda>k. case k of None \<Rightarrow> True | Some i \<Rightarrow> i \<notin> n_id ` set nodes) keys
     in case walk_keys nodes roots {} of
          (out1, seen1) \<Rightarrow> out1 @ fst (walk_keys nodes keys seen1))"

section \<open>Every node is shown exactly once\<close>

lemma walk_out:
  "walk nodes cs seen = (out, seen') \<Longrightarrow>
   distinct (map n_id out) \<and> n_id ` set out \<inter> seen = {} \<and> seen' = seen \<union> n_id ` set out \<and>
   set out \<subseteq> set nodes \<union> set cs \<and> n_id ` set cs \<subseteq> seen'"
proof (induction nodes cs seen arbitrary: out seen' rule: walk.induct)
  case (2 nodes c cs seen)
  show ?case
  proof (cases "n_id c \<in> seen")
    case True
    then show ?thesis using 2(1) [OF True, of out seen'] 2(4) by auto
  next
    case False
    obtain o1 s1 where w1: "walk nodes (shown_children nodes (Some (n_id c))) (insert (n_id c) seen) = (o1, s1)"
      by fastforce
    obtain o2 s2 where w2: "walk nodes cs s1 = (o2, s2)" by fastforce
    have out: "out = c # o1 @ o2" "seen' = s2" using 2(4) False w1 w2 by auto
    have 1: "distinct (map n_id o1)" "n_id ` set o1 \<inter> insert (n_id c) seen = {}"
      "s1 = insert (n_id c) seen \<union> n_id ` set o1" "set o1 \<subseteq> set nodes"
      using 2(2) [OF False w1] by (auto simp: shown_children_def)
    have 2: "distinct (map n_id o2)" "n_id ` set o2 \<inter> s1 = {}" "s2 = s1 \<union> n_id ` set o2"
      "set o2 \<subseteq> set nodes \<union> set cs" "n_id ` set cs \<subseteq> s2"
      using 2(3) [OF False w1 [symmetric] w2] by auto
    show ?thesis unfolding out using 1 2 False by auto
  qed
qed simp

lemma walk_keys_out:
  "walk_keys nodes ks seen = (out, seen') \<Longrightarrow>
   distinct (map n_id out) \<and> n_id ` set out \<inter> seen = {} \<and> seen' = seen \<union> n_id ` set out \<and>
   set out \<subseteq> set nodes \<and> (\<forall>k \<in> set ks. n_id ` set (shown_children nodes k) \<subseteq> seen')"
proof (induction nodes ks seen arbitrary: out seen' rule: walk_keys.induct)
  case (2 nodes k ks seen)
  obtain o1 s1 where w1: "walk nodes (shown_children nodes k) seen = (o1, s1)" by fastforce
  obtain o2 s2 where w2: "walk_keys nodes ks s1 = (o2, s2)" by fastforce
  have out: "out = o1 @ o2" "seen' = s2" using 2(2) w1 w2 by auto
  have 1: "distinct (map n_id o1)" "n_id ` set o1 \<inter> seen = {}" "s1 = seen \<union> n_id ` set o1"
    "set o1 \<subseteq> set nodes" "n_id ` set (shown_children nodes k) \<subseteq> s1"
    using walk_out [OF w1] by (auto simp: shown_children_def)
  have 2: "distinct (map n_id o2)" "n_id ` set o2 \<inter> s1 = {}" "s2 = s1 \<union> n_id ` set o2"
    "set o2 \<subseteq> set nodes" "\<forall>k \<in> set ks. n_id ` set (shown_children nodes k) \<subseteq> s2"
    using 2(1) [OF w1 [symmetric] w2] by blast+
  show ?case unfolding out using 1 2 by auto
qed simp

lemma sort_for_display_shows:
  assumes dist: "distinct (map n_id nodes)"
  shows "distinct (map n_id (sort_for_display nodes))" "set (sort_for_display nodes) = set nodes"
proof -
  let ?keys = "parent_keys nodes"
  let ?roots = "filter (\<lambda>k. case k of None \<Rightarrow> True | Some i \<Rightarrow> i \<notin> n_id ` set nodes) ?keys"
  obtain o1 s1 where w1: "walk_keys nodes ?roots {} = (o1, s1)" by fastforce
  obtain o2 s2 where w2: "walk_keys nodes ?keys s1 = (o2, s2)" by fastforce
  have out: "sort_for_display nodes = o1 @ o2" using w1 w2 by (simp add: sort_for_display_def Let_def)
  have 1: "distinct (map n_id o1)" "s1 = n_id ` set o1" "set o1 \<subseteq> set nodes"
    using walk_keys_out [OF w1] by auto
  have 2: "distinct (map n_id o2)" "n_id ` set o2 \<inter> s1 = {}" "s2 = s1 \<union> n_id ` set o2" "set o2 \<subseteq> set nodes"
    "\<forall>k \<in> set ?keys. n_id ` set (shown_children nodes k) \<subseteq> s2"
    using walk_keys_out [OF w2] by blast+
  show "distinct (map n_id (sort_for_display nodes))" unfolding out using 1 2 by auto
  have "n_id n \<in> s2" if "n \<in> set nodes" for n
    using 2(5) that by (fastforce simp: parent_keys_def shown_children_def)
  moreover have "n \<in> set (o1 @ o2)" if "n \<in> set nodes" "n_id n \<in> n_id ` set (o1 @ o2)" for n
    using that 1(3) 2(4) dist by (auto simp: distinct_map dest: inj_onD)
  ultimately show "set (sort_for_display nodes) = set nodes"
    unfolding out using 1 2 by auto
qed

lemma depth_from_bound: "d \<le> 64 \<Longrightarrow> depth_from nodes cursor d \<le> 65"
proof (induction nodes cursor d rule: depth_from.induct)
  case (1 nodes cursor d)
  then show ?case by (subst depth_from.simps) (auto split: option.splits)
qed

end
