(* ===== verification/Ssh_Forest.thy ===== *)
theory Ssh_Forest imports Ssh_Panel begin

text \<open>
  The nodes of the SSH manager form a forest: from every node the parents lead to a root.  The
  schema does not demand it (a row may refer to any row), so it is an invariant that the
  operations have to keep: they do, as long as moves pass the panel's check on a current
  snapshot.  On a forest the panel's loops end.
\<close>

section \<open>Forests\<close>

definition parents :: "ssh_node_row list \<Rightarrow> string \<Rightarrow> string option option" where
  "parents rows = map_of (map (\<lambda>r. (nr_id r, nr_parent_id r)) rows)"

inductive grounded :: "(string \<Rightarrow> string option option) \<Rightarrow> string \<Rightarrow> bool" for P where
  root: "P i = Some None \<Longrightarrow> grounded P i"
| child: "P i = Some (Some p) \<Longrightarrow> grounded P p \<Longrightarrow> grounded P i"

definition forest :: "ssh_node_row list \<Rightarrow> bool" where
  "forest rows \<longleftrightarrow> (\<forall>i \<in> nr_id ` set rows. grounded (parents rows) i)"

inductive_cases groundedE: "grounded P i"

lemma grounded_dom: "grounded P i \<Longrightarrow> i \<in> dom P"
  by (auto elim: grounded.cases)

lemma dom_parents: "dom (parents rows) = nr_id ` set rows"
  by (simp add: parents_def dom_map_of_conv_image_fst image_image)

lemma forestI: "(\<And>i. i \<in> dom (parents rows) \<Longrightarrow> grounded (parents rows) i) \<Longrightarrow> forest rows"
  by (simp add: forest_def dom_parents)

lemma forestD: "forest rows \<Longrightarrow> i \<in> dom (parents rows) \<Longrightarrow> grounded (parents rows) i"
  by (auto simp: forest_def dom_parents)

lemma parents_row: "distinct (map nr_id rows) \<Longrightarrow> r \<in> set rows \<Longrightarrow> parents rows (nr_id r) = Some (nr_parent_id r)"
  unfolding parents_def by (rule map_of_is_SomeI) (auto simp: o_def)

lemma parents_same:
  "(\<And>r. nr_id (f r) = nr_id r \<and> nr_parent_id (f r) = nr_parent_id r) \<Longrightarrow> parents (map f rows) = parents rows"
  by (simp add: parents_def o_def)

lemma forest_parents: "parents rows' = parents rows \<Longrightarrow> forest rows \<Longrightarrow> forest rows'"
  by (metis forestD forestI)

lemma parents_filter_move:
  "parents (map (\<lambda>r. if nr_id r = n then upd r else r) rows) =
    (if n \<in> nr_id ` set rows then (parents rows)(n \<mapsto> t) else parents rows)"
  if "\<And>r. nr_id (upd r) = nr_id r \<and> nr_parent_id (upd r) = t"
  using that by (induction rows) (auto simp: parents_def fun_eq_iff)

text \<open>A new node under an existing parent.\<close>

lemma grounded_insert:
  assumes "grounded P i" and "n \<notin> dom P"
  shows "grounded (P(n \<mapsto> t)) i"
proof -
  have "P n = None" using assms(2) by auto
  with assms(1) show ?thesis
  proof (induction rule: grounded.induct)
    case (root i)
    then show ?case by (intro grounded.root) auto
  next
    case (child i p)
    then show ?case by (intro grounded.child [of _ i p]) auto
  qed
qed

lemma forest_snoc:
  assumes forest: "forest rows" and new: "nr_id r \<notin> nr_id ` set rows"
    and parent: "points_into (nr_parent_id r) (map nr_id rows)"
  shows "forest (rows @ [r])"
proof -
  have P: "parents (rows @ [r]) = (parents rows)(nr_id r \<mapsto> nr_parent_id r)"
    using new dom_parents [of rows]
    by (auto simp: parents_def map_add_def fun_eq_iff domIff split: option.splits)
  have old: "grounded (parents (rows @ [r])) i" if "i \<in> dom (parents rows)" for i
    unfolding P using grounded_insert [OF forestD [OF forest that]] new by (simp add: dom_parents)
  show ?thesis
  proof (rule forestI)
    fix i assume "i \<in> dom (parents (rows @ [r]))"
    then consider "i = nr_id r" | "i \<in> dom (parents rows)" unfolding P by fastforce
    then show "grounded (parents (rows @ [r])) i"
    proof cases
      case 1
      show ?thesis
      proof (cases "nr_parent_id r")
        case None
        then show ?thesis using 1 by (intro root) (simp add: P)
      next
        case (Some p)
        then have "p \<in> dom (parents rows)" using parent by (simp add: points_into_def dom_parents)
        then have "grounded (parents (rows @ [r])) p" by (rule old)
        moreover have "parents (rows @ [r]) i = Some (Some p)" using 1 Some by (simp add: P)
        ultimately show ?thesis by (rule child [rotated])
      qed
    qed (rule old)
  qed
qed

text \<open>Deleting rows together with everything below them.\<close>

lemma forest_filter:
  assumes forest: "forest rows" and dist: "distinct (map nr_id rows)"
    and closed: "\<And>r p. r \<in> set rows \<Longrightarrow> keep (nr_id r) \<Longrightarrow> nr_parent_id r = Some p \<Longrightarrow> keep p"
  shows "forest (filter (\<lambda>r. keep (nr_id r)) rows)"
proof (rule forestI)
  let ?rows = "filter (\<lambda>r. keep (nr_id r)) rows"
  have P: "parents ?rows i = (if keep i then parents rows i else None)" for i
    unfolding parents_def by (induction rows) auto
  have "keep i \<Longrightarrow> grounded (parents ?rows) i" if "grounded (parents rows) i" for i
    using that
  proof (induction rule: grounded.induct)
    case (root i)
    then show ?case by (intro grounded.root) (simp add: P)
  next
    case (child i p)
    obtain r where "r \<in> set rows" "nr_id r = i" "nr_parent_id r = Some p"
      using child(1) by (auto simp: parents_def dest!: map_of_SomeD)
    then have "keep p" using closed [of r p] child.prems by simp
    then show ?case using child by (intro grounded.child [of _ i p]) (simp_all add: P)
  qed
  moreover fix i assume "i \<in> dom (parents ?rows)"
  then have "keep i" "i \<in> dom (parents rows)" by (auto simp: P split: if_splits)
  ultimately show "grounded (parents ?rows) i" using forestD [OF forest] by blast
qed

section \<open>Moving a node\<close>

text \<open>The chain of parents from \<open>i\<close> ends at a root and does not pass \<open>n\<close>.\<close>

inductive clear_of :: "(string \<Rightarrow> string option option) \<Rightarrow> string \<Rightarrow> string \<Rightarrow> bool" for P n where
  clear_root: "i \<noteq> n \<Longrightarrow> P i = Some None \<Longrightarrow> clear_of P n i"
| clear_child: "i \<noteq> n \<Longrightarrow> P i = Some (Some p) \<Longrightarrow> clear_of P n p \<Longrightarrow> clear_of P n i"

lemma clear_of_moved: "clear_of P n i \<Longrightarrow> grounded (P(n \<mapsto> t)) i"
  by (induction rule: clear_of.induct) (auto intro: grounded.intros)

lemma forest_move:
  assumes forest: "\<And>i. i \<in> dom P \<Longrightarrow> grounded P i"
    and target: "t = None \<or> (\<exists>p. t = Some p \<and> clear_of P n p)" and i: "i \<in> dom P \<or> i = n"
  shows "grounded (P(n \<mapsto> t)) i"
proof -
  have n: "grounded (P(n \<mapsto> t)) n"
    using target by (auto intro: grounded.intros clear_of_moved)
  have "grounded (P(n \<mapsto> t)) i" if "grounded P i" for i
    using that
  proof (induction rule: grounded.induct)
    case (root i)
    show ?case
    proof (cases "i = n")
      case False
      then show ?thesis using root by (intro grounded.root) simp
    qed (simp only: n)
  next
    case (child i p)
    show ?case
    proof (cases "i = n")
      case False
      then show ?thesis using child by (intro grounded.child [of _ i p]) simp_all
    qed (simp only: n)
  qed
  then show ?thesis using forest i n by blast
qed

text \<open>A panel snapshot that agrees with the table.\<close>

definition current :: "ssh_node list \<Rightarrow> ssh_node_row list \<Rightarrow> bool" where
  "current nodes rows \<longleftrightarrow> (\<forall>i. map_option n_parent_id (find (\<lambda>n. n_id n = i) nodes) = parents rows i)"

lemma parent_in_current:
  "current nodes rows \<Longrightarrow> parent_in nodes i = (case parents rows i of None \<Rightarrow> None | Some p \<Rightarrow> p)"
  unfolding current_def parent_in_def
  by (drule spec [of _ i], cases "find (\<lambda>n. n_id n = i) nodes")
    (auto split: option.splits)

text \<open>On a forest the climb ends, and a climb that finds nothing proves the chain clear.\<close>

lemma climb_ends:
  assumes cur: "current nodes rows" and "grounded (parents rows) i"
  shows "climb nodes n (Some i) = Some True \<and> clear_of (parents rows) n i \<or>
    climb nodes n (Some i) = Some False \<and> \<not> clear_of (parents rows) n i"
  using assms(2)
proof (induction rule: grounded.induct)
  case (root i)
  then have "climb nodes n (Some i) = (if i = n then Some False else climb nodes n None)"
    by (subst climb.simps) (simp add: parent_in_current [OF cur])
  moreover have "climb nodes n None = Some True" by (subst climb.simps) simp
  ultimately show ?case using root by (auto intro: clear_root elim: clear_of.cases)
next
  case (child i p)
  then have "climb nodes n (Some i) = (if i = n then Some False else climb nodes n (Some p))"
    by (subst climb.simps) (simp add: parent_in_current [OF cur])
  then show ?case using child by (auto intro: clear_child elim: clear_of.cases)
qed

lemma climb_outside:
  assumes cur: "current nodes rows" and out: "i \<notin> dom (parents rows)"
  shows "climb nodes n (Some i) = Some (i \<noteq> n)"
proof -
  have "climb nodes n (Some i) = (if i = n then Some False else climb nodes n None)"
    using out by (subst climb.simps) (simp add: parent_in_current [OF cur] domIff)
  moreover have "climb nodes n None = Some True" by (subst climb.simps) simp
  ultimately show ?thesis by simp
qed

lemma visible_ends:
  assumes cur: "current nodes rows" and "grounded (parents rows) i"
  shows "visible_from nodes (Some i) \<noteq> None"
  using assms(2)
proof (induction rule: grounded.induct)
  case (root i)
  then have "map_option n_parent_id (find (\<lambda>n. n_id n = i) nodes) = Some None"
    using cur by (simp add: current_def)
  then obtain n where n: "find (\<lambda>n. n_id n = i) nodes = Some n" "n_parent_id n = None" by auto
  have "visible_from nodes None = Some True" by (subst visible_from.simps) simp
  then show ?case using n by (subst visible_from.simps) auto
next
  case (child i p)
  then have "map_option n_parent_id (find (\<lambda>n. n_id n = i) nodes) = Some (Some p)"
    using cur by (simp add: current_def)
  then obtain n where n: "find (\<lambda>n. n_id n = i) nodes = Some n" "n_parent_id n = Some p" by auto
  then show ?case using child by (subst visible_from.simps) auto
qed

end
