(* ===== verification/Ssh_Steps.thy ===== *)
theory Ssh_Steps imports Ssh_Forest begin

text \<open>
  The SSH manager as a state machine: a step is one operation of the repository, called the
  way the panel and the server editor call it, on any outcome of its statements.  Every state
  reachable from a well-formed one satisfies the schema and has a forest of nodes.
\<close>

named_theorems keeps_intros \<open>what keeps the tables well formed\<close>

definition tree_ok :: "ssh_tables \<Rightarrow> bool" where
  "tree_ok T \<longleftrightarrow> tables_ok T \<and> forest (node_rows T)"

definition keeps :: "'a sync_db_scheme \<Rightarrow> 'a sync_db_scheme \<Rightarrow> bool" where
  "keeps a b \<longleftrightarrow> (tree_ok (ssh a) \<longrightarrow> tree_ok (ssh b))"

lemma keeps_refl [simp, keeps_intros]: "keeps a a"
  by (simp add: keeps_def)

lemma keeps_trans: "keeps a b \<Longrightarrow> keeps b c \<Longrightarrow> keeps a c"
  by (simp add: keeps_def)

lemma keeps_same: "ssh b = ssh a \<Longrightarrow> keeps a b"
  by (simp add: keeps_def)

lemma keeps_attempt [keeps_intros]:
  "keeps s (snd r) \<Longrightarrow> (\<And>a s'. keeps s' (snd (f a s'))) \<Longrightarrow> keeps s (snd (attempt r f))"
  by (rule snd_attempt [of keeps]) (auto intro: keeps_trans)

lemma keeps_map_err [keeps_intros]: "keeps s (snd r) \<Longrightarrow> keeps s (snd (map_err g r))"
  by simp

lemma keeps_select [keeps_intros]: "keeps db (snd (select q db))"
  by (cases rule: select_cases [of q db]) (auto simp: same_tables_iff intro: keeps_same)

lemma keeps_modify:
  assumes "\<And>T. tree_ok T \<Longrightarrow> tables_ok (snd (f T)) \<Longrightarrow> forest (node_rows (snd (f T)))"
  shows "keeps db (snd (modify f db))"
  by (cases rule: modify_cases [of f db]) (auto simp: same_tables_iff keeps_def assms tree_ok_def)

lemma keeps_modify_others:
  assumes "\<And>T. node_rows (snd (f T)) = node_rows T"
  shows "keeps db (snd (modify f db))"
  by (rule keeps_modify) (simp add: assms tree_ok_def)

lemma keeps_bump [keeps_intros]: "keeps db (ignore_bump db)"
  by (rule keeps_same) (rule ignore_bump_tables)

lemma keeps_affecting [keeps_intros]: "keeps s (snd r) \<Longrightarrow> keeps s (snd (affecting key r))"
  unfolding affecting_def by (intro keeps_intros) (auto intro: keeps_intros)

lemma keeps_bumping [keeps_intros]: "keeps s (snd r) \<Longrightarrow> keeps s (snd (bumping r))"
  unfolding bumping_def by (rule keeps_attempt) (auto intro: keeps_intros)

lemma keeps_statement [keeps_intros]: "keeps db (snd (statement db))"
  by (cases rule: statement_cases [of db]) (auto simp: same_tables_iff intro: keeps_same)

lemma keeps_transaction [keeps_intros]:
  assumes "\<And>db. keeps db (snd (body db))"
  shows "keeps db (snd (transaction wrap body db))"
  unfolding transaction_def
proof (rule keeps_attempt)
  show "keeps db (snd (map_err wrap (statement db)))" by (intro keeps_intros)
next
  fix u db1
  obtain r db2 where b: "body db1 = (r, db2)" by fastforce
  obtain z db3 where s: "statement db2 = (z, db3)" by fastforce
  have "keeps db1 db2" "keeps db2 db3"
    using assms [of db1] keeps_statement [of db2] b s by simp_all
  moreover have "keeps db1 (rolled_back db1 x)" for x by (rule keeps_same) (simp add: rolled_back_def)
  ultimately show "keeps db1 (snd (case body db1 of
      (Inl e, db2) \<Rightarrow> (Inl e, rolled_back db1 db2)
    | (Inr r, db2) \<Rightarrow> (case statement db2 of
        (Inl e, db3) \<Rightarrow> (Inl (wrap e), rolled_back db1 db3) | (Inr _, db3) \<Rightarrow> (Inr r, db3))))"
    using b s by (cases r; cases z) (auto intro: keeps_trans)
qed

lemma keeps_with_conn [keeps_intros]:
  assumes "\<And>db. keeps db (snd (f db))"
  shows "keeps db (snd (with_conn f db))"
proof (cases rule: with_conn_cases [of f db])
  case (fails e db1)
  then show ?thesis by (simp add: keeps_same same_tables_iff)
next
  case (runs db1)
  then have "keeps db db1" by (simp add: keeps_same same_tables_iff)
  then show ?thesis using assms [of db1] runs(1) by (auto intro: keeps_trans)
qed

section \<open>The statements on nodes\<close>

lemma keeps_update_nodes [keeps_intros]:
  assumes "\<And>r. nr_id (upd r) = nr_id r \<and> nr_parent_id (upd r) = nr_parent_id r"
  shows "keeps db (snd (modify (update_nodes P upd) db))"
proof (rule keeps_modify)
  fix T assume "tree_ok T"
  moreover have "parents (map (\<lambda>r. if P r then upd r else r) (node_rows T)) = parents (node_rows T)"
    by (rule parents_same) (simp add: assms)
  ultimately show "forest (node_rows (snd (update_nodes P upd T)))"
    using forest_parents [of _ "node_rows T"] by (simp add: update_nodes_def tree_ok_def)
qed

lemma keeps_insert_node:
  assumes other: "nr_parent_id r \<noteq> Some (nr_id r)"
  shows "keeps db (snd (modify (insert_node r) db))"
proof (rule keeps_modify)
  fix T assume ok: "tree_ok T" "tables_ok (snd (insert_node r T))"
  have new: "nr_id r \<notin> nr_id ` set (node_rows T)"
    using ok(2) by (simp add: tables_ok_def keys_ok_def insert_node_def node_ids_def)
  have "points_into (nr_parent_id r) (map nr_id (node_rows T) @ [nr_id r])"
    using ok(2) by (simp add: tables_ok_def references_ok_def insert_node_def node_ids_def)
  then have "points_into (nr_parent_id r) (map nr_id (node_rows T))"
    using other by (auto simp: points_into_def split: option.splits)
  then show "forest (node_rows (snd (insert_node r T)))"
    using forest_snoc new ok(1) by (simp add: insert_node_def tree_ok_def)
qed

lemma forest_delete:
  assumes ok: "tree_ok T"
  shows "forest (node_rows (delete_nodes P T))"
  unfolding kept_nodes [OF ok [unfolded tree_ok_def, THEN conjunct1]]
proof (rule forest_filter)
  show "forest (node_rows T)" "distinct (map nr_id (node_rows T))"
    using ok by (simp_all add: tree_ok_def tables_ok_def keys_ok_def node_ids_def)
qed (auto intro: below_child)

lemma keeps_delete_nodes [keeps_intros]: "keeps db (snd (modify (removing n (delete_nodes P)) db))"
  by (rule keeps_modify) (simp add: removing_def forest_delete)

lemma forest_move_row:
  assumes forest: "forest rows" and upd: "\<And>r. nr_id (upd r) = nr_id r \<and> nr_parent_id (upd r) = t"
    and target: "t = None \<or> (\<exists>p. t = Some p \<and> clear_of (parents rows) n p)"
  shows "forest (map (\<lambda>r. if nr_id r = n then upd r else r) rows)"
proof (cases "n \<in> nr_id ` set rows")
  case True
  show ?thesis
  proof (rule forestI)
    fix i assume "i \<in> dom (parents (map (\<lambda>r. if nr_id r = n then upd r else r) rows))"
    then have i: "i \<in> dom (parents rows) \<or> i = n"
      unfolding parents_filter_move [of upd t, OF upd] using True by auto
    show "grounded (parents (map (\<lambda>r. if nr_id r = n then upd r else r) rows)) i"
      unfolding parents_filter_move [of upd t, OF upd] using True
      by (simp add: forest_move [OF forestD [OF forest] target i])
  qed
next
  case False
  then show ?thesis
    using forest_parents [OF _ forest] parents_filter_move [of upd t n rows, OF upd] by simp
qed

lemma next_sort_order_tables:
  "ssh (snd (next_sort_order p db)) = ssh db"
  "ssh (snd (next_sort_order_excluding p n db)) = ssh db"
proof -
  have read: "ssh (snd (attempt (map_err Db (select q db)) (\<lambda>m db1. (Inr (g m), db1)))) = ssh db" for q :: "ssh_tables \<Rightarrow> 'b" and g :: "'b \<Rightarrow> 'c"
    by (cases rule: select_cases [of q db]) (auto simp: same_tables_iff)
  show "ssh (snd (next_sort_order p db)) = ssh db" unfolding next_sort_order_def by (rule read)
  show "ssh (snd (next_sort_order_excluding p n db)) = ssh db"
    unfolding next_sort_order_excluding_def by (rule read)
qed

text \<open>A move is harmless when the target's chain avoids the node, or the target does not exist.\<close>

definition safe_target :: "ssh_node_row list \<Rightarrow> string \<Rightarrow> string option \<Rightarrow> bool" where
  "safe_target rows n t \<longleftrightarrow>
    (case t of None \<Rightarrow> True | Some p \<Rightarrow> clear_of (parents rows) n p \<or> p \<notin> dom (parents rows))"

lemma keeps_move_node:
  assumes target: "tree_ok (ssh db) \<Longrightarrow> safe_target (node_rows (ssh db)) n t"
  shows "keeps db (snd (move_node now n t order db))"
proof (cases "tree_ok (ssh db)")
  case True
  let ?upd = "\<lambda>r. r\<lparr>nr_parent_id := t, nr_sort_order := order, nr_updated_at := now\<rparr>"
  let ?f = "update_nodes (\<lambda>r. nr_id r = n) ?upd" and ?rows = "node_rows (ssh db)"
  obtain r db' where run: "bumping (affecting n (modify ?f db)) = (r, db')" by fastforce
  have result: "ssh db' = ssh db \<or> ssh db' = snd (?f (ssh db)) \<and> tables_ok (ssh db')"
    by (rule bumping_modify(4) [OF run update_nodes_none])
  have rows: "node_rows (snd (?f (ssh db))) = map (\<lambda>r. if nr_id r = n then ?upd r else r) ?rows"
    by (simp add: update_nodes_def)
  have "forest (node_rows (snd (?f (ssh db))))" if ok: "tables_ok (snd (?f (ssh db)))"
  proof (cases "t = None \<or> (\<exists>p. t = Some p \<and> clear_of (parents ?rows) n p)")
    case clear: True
    show ?thesis unfolding rows
      by (rule forest_move_row [OF _ _ clear]) (use True in \<open>simp_all add: tree_ok_def\<close>)
  next
    case False
    then obtain p where p: "t = Some p" "p \<notin> nr_id ` set ?rows"
      using target [OF True] by (auto simp: safe_target_def dom_parents split: option.splits)
    have "n \<notin> nr_id ` set ?rows"
    proof
      assume "n \<in> nr_id ` set ?rows"
      then obtain r0 where "r0 \<in> set ?rows" "nr_id r0 = n" by auto
      then have "?upd r0 \<in> set (node_rows (snd (?f (ssh db))))" unfolding rows by force
      then have "points_into (nr_parent_id (?upd r0)) (node_ids (snd (?f (ssh db))))"
        using ok unfolding tables_ok_def references_ok_def by blast
      moreover have "node_ids (snd (?f (ssh db))) = map nr_id ?rows"
        unfolding node_ids_def rows by simp
      ultimately show False using p by (simp add: points_into_def)
    qed
    then have "map (\<lambda>r. if nr_id r = n then ?upd r else r) ?rows = ?rows" by (auto intro!: map_idI)
    then show ?thesis using True rows by (simp add: tree_ok_def)
  qed
  then show ?thesis using True run result by (auto simp: move_node_def keeps_def tree_ok_def)
qed (simp add: keeps_def)

lemma legal_move_safe:
  assumes ok: "tree_ok (ssh db)" and cur: "current nodes (node_rows (ssh db))"
    and legal: "move_is_legal nodes n t = Some True"
  shows "safe_target (node_rows (ssh db)) n t"
proof (cases t)
  case (Some p)
  have "climb nodes n (Some p) = Some True"
    using legal Some by (auto simp: move_is_legal_def split: if_splits)
  then show ?thesis
    using climb_ends [OF cur, of p n] ok Some forestD [of "node_rows (ssh db)" p]
    by (auto simp: safe_target_def tree_ok_def)
qed (simp add: safe_target_def)

text \<open>The check always comes to an answer.\<close>

lemma move_is_legal_ends:
  assumes ok: "tree_ok (ssh db)" and cur: "current nodes (node_rows (ssh db))"
  shows "move_is_legal nodes n t \<noteq> None"
proof -
  have "climb nodes n t \<noteq> None"
  proof (cases t)
    case None
    then show ?thesis by (subst climb.simps) simp
  next
    case (Some p)
    then show ?thesis
      using climb_ends [OF cur, of p n] climb_outside [OF cur, of p n] ok
        forestD [of "node_rows (ssh db)" p]
      by (cases "p \<in> dom (parents (node_rows (ssh db)))") (auto simp: tree_ok_def)
  qed
  then show ?thesis by (auto simp: move_is_legal_def)
qed

lemma keeps_panel_move:
  assumes cur: "current nodes (node_rows (ssh db))" and run: "on_move_node nodes now n t db = Some (r, db')"
  shows "keeps db db'"
proof (cases "tree_ok (ssh db)")
  case ok: True
  show ?thesis
  proof (cases "move_is_legal nodes n t = Some True")
    case False
    then show ?thesis using run by (auto simp: on_move_node_def split: option.splits bool.splits)
  next
    case legal: True
    let ?f = "\<lambda>c. attempt (map_err repository_error_text (next_sort_order t c)) (\<lambda>order c1.
        map_err repository_error_text (move_node now n t order c1))"
    have out: "snd (with_conn ?f db) = db'"
      using run legal by (cases "with_conn ?f db"; cases "fst (with_conn ?f db)")
        (auto simp: on_move_node_def)
    have "keeps c (snd (?f c))" if same: "ssh c = ssh db" for c
    proof -
      obtain x c1 where n: "next_sort_order t c = (x, c1)" by fastforce
      have c1: "ssh c1 = ssh db" using next_sort_order_tables(1) [of t c] n same by simp
      have "keeps c1 (snd (move_node now n t order c1))" for order
        by (rule keeps_move_node) (use legal_move_safe [OF ok cur legal] c1 in simp)
      then show ?thesis using n same c1 by (cases x) (auto simp: keeps_def)
    qed
    then have kept: "keeps db (snd (?f c))" if "ssh c = ssh db" for c
      using that by (metis keeps_def)
    show ?thesis
    proof (cases rule: with_conn_cases [of ?f db])
      case (fails e db1)
      then show ?thesis using out by (auto simp: same_tables_iff intro: keeps_same)
    next
      case (runs db1)
      then show ?thesis using out kept [of db1] by (simp only: same_tables_iff)
    qed
  qed
qed (simp add: keeps_def)

text \<open>The server editor moves a server, which has no children, to the end of a group.\<close>

lemma keeps_move_to_end:
  assumes leaf: "\<forall>r \<in> set (node_rows (ssh db)). nr_parent_id r \<noteq> Some n" and other: "t \<noteq> Some n"
  shows "keeps db (snd (move_node_to_end now n t db))"
proof -
  let ?P = "parents (node_rows (ssh db))"
  have clear: "i \<noteq> n \<longrightarrow> clear_of ?P n i" if "grounded ?P i" for i
    using that
  proof (induction rule: grounded.induct)
    case (root i)
    then show ?case by (auto intro: clear_root)
  next
    case (child i p)
    obtain r where "r \<in> set (node_rows (ssh db))" "nr_parent_id r = Some p"
      using child(1) by (auto simp: parents_def dest!: map_of_SomeD)
    then have "p \<noteq> n" using leaf by auto
    then show ?case using child by (auto intro: clear_child)
  qed
  obtain x db1 where n: "next_sort_order_excluding t n db = (x, db1)" by fastforce
  have same: "ssh db1 = ssh db" using next_sort_order_tables(2) [of t n db] n by simp
  have "safe_target (node_rows (ssh db)) n t" if "tree_ok (ssh db)"
    using that other clear forestD [of "node_rows (ssh db)"]
    by (auto simp: safe_target_def tree_ok_def split: option.splits)
  then have "keeps db1 (snd (move_node now n t order db1))" for order
    using same by (intro keeps_move_node) simp
  then show ?thesis using n same by (cases x) (auto simp: move_node_to_end_def keeps_def)
qed

section \<open>The operations\<close>

lemma keeps_reads [keeps_intros]:
  "keeps db (snd (next_sort_order p db))" "keeps db (snd (next_sort_order_excluding p n db))"
  "keeps db (snd (get_node n db))" "keeps db (snd (get_onekey_credential k db))"
proof -
  show "keeps db (snd (next_sort_order p db))" "keeps db (snd (next_sort_order_excluding p n db))"
    by (rule keeps_same, rule next_sort_order_tables)+
  show "keeps db (snd (get_node n db))" "keeps db (snd (get_onekey_credential k db))"
    unfolding get_node_def get_onekey_credential_def
    by (auto intro!: keeps_intros split: option.split)
qed

lemma keeps_route_from_row [keeps_intros]: "keeps db (snd (route_from_row row db))"
  unfolding route_from_row_def
  by (auto intro!: keeps_intros split: sum.split)

lemma keeps_get_route [keeps_intros]: "keeps db (snd (get_route k db))"
  unfolding get_route_def by (auto intro!: keeps_intros split: option.split)

lemma others_simps [simp]:
  "node_rows (snd (update_servers P1 u1 T)) = node_rows T"
  "node_rows (snd (update_credentials P2 u2 T)) = node_rows T"
  "node_rows (snd (update_routes P3 u3 T)) = node_rows T"
  "node_rows (snd (update_hops P4 u4 T)) = node_rows T"
  "node_rows (snd (insert_server r1 T)) = node_rows T"
  "node_rows (snd (insert_credential r2 T)) = node_rows T"
  "node_rows (snd (insert_route r3 T)) = node_rows T"
  "node_rows (snd (insert_hops r4 T)) = node_rows T"
  "node_rows (snd (removing n f T)) = node_rows (f T)"
  "node_rows (delete_servers P5 T) = node_rows T"
  "node_rows (delete_credentials P6 T) = node_rows T"
  "node_rows (delete_routes P7 T) = node_rows T"
  "node_rows (delete_hops P8 T) = node_rows T"
  by (simp_all add: update_servers_def update_credentials_def update_routes_def update_hops_def
      insert_server_def insert_credential_def insert_route_def insert_hops_def removing_def
      delete_servers_def delete_credentials_def delete_routes_def delete_hops_def Let_def)

lemma keeps_other_rows [keeps_intros]:
  "keeps db (snd (modify (update_servers P1 u1) db))"
  "keeps db (snd (modify (update_credentials P2 u2) db))"
  "keeps db (snd (modify (update_routes P3 u3) db))"
  "keeps db (snd (modify (update_hops P4 u4) db))"
  "keeps db (snd (modify (insert_server r1) db))"
  "keeps db (snd (modify (insert_credential r2) db))"
  "keeps db (snd (modify (insert_route r3) db))"
  "keeps db (snd (modify (insert_hops r4) db))"
  "keeps db (snd (modify (removing n5 (delete_servers P5)) db))"
  "keeps db (snd (modify (removing n6 (delete_credentials P6)) db))"
  "keeps db (snd (modify (removing n7 (delete_routes P7)) db))"
  "keeps db (snd (modify (removing n8 (delete_hops P8)) db))"
  by (rule keeps_modify_others, simp)+

lemma keeps_create:
  assumes "parent \<noteq> Some k"
  shows "keeps db (snd (create_folder k now parent name db))"
    and "keeps db (snd (create_server k now parent name info db))"
proof -
  have row: "keeps c (snd (modify (insert_node (new_node_row now k parent kind name order)) c))"
    for c :: "'a sync_db_scheme" and kind order
    by (rule keeps_insert_node) (simp add: new_node_row_def assms)
  have get: "keeps c (snd (get_node k (ignore_bump c)))" for c :: "'a sync_db_scheme"
    by (rule keeps_trans [OF keeps_bump]) (intro keeps_intros)
  show "keeps db (snd (create_folder k now parent name db))"
    unfolding create_folder_def by (intro keeps_intros row get)
  show "keeps db (snd (create_server k now parent name info db))"
    unfolding create_server_def by (intro keeps_intros row get) simp_all
qed

lemma keeps_node_ops:
  "keeps db (snd (rename_node now n name db))"
  "keeps db (snd (delete_node n db))"
  "keeps db (snd (set_collapsed now n c db))"
  "keeps db (snd (set_all_folders_collapsed now c db))"
  "keeps db (snd (touch_last_connected now n db))"
  unfolding rename_node_def delete_node_def set_collapsed_def set_all_folders_collapsed_def
    touch_last_connected_def
  by (intro keeps_intros; simp)+

lemma keeps_update_server: "keeps db (snd (update_server now info db))"
  unfolding update_server_def by (intro keeps_intros) (simp_all add: keeps_bump)

lemma keeps_route_ops:
  "keeps db (snd (create_route k now name target hops db))"
  "keeps db (snd (update_route now k name target hops db))"
  "keeps db (snd (delete_route k db))"
  "keeps db (snd (mark_route_connected now k db))"
proof -
  have get: "keeps c (snd (get_route k (ignore_bump c)))" for c :: "'a sync_db_scheme"
    by (rule keeps_trans [OF keeps_bump]) (intro keeps_intros)
  show "keeps db (snd (create_route k now name target hops db))"
    unfolding create_route_def
    by (auto intro!: keeps_intros get split: sum.split option.split)
  show "keeps db (snd (update_route now k name target hops db))"
    unfolding update_route_def by (auto intro!: keeps_intros split: sum.split)
  show "keeps db (snd (delete_route k db))" "keeps db (snd (mark_route_connected now k db))"
    unfolding delete_route_def mark_route_connected_def by (intro keeps_intros; simp)+
qed

lemma keeps_credential_ops:
  "keeps db (snd (create_onekey_credential k now label user kind path db))"
  "keeps db (snd (update_onekey_credential now c db))"
  "keeps db (snd (delete_onekey_credential k db))"
proof -
  have get: "keeps c (snd (get_onekey_credential k (ignore_bump c)))" for c :: "'a sync_db_scheme"
    by (rule keeps_trans [OF keeps_bump]) (intro keeps_intros)
  show "keeps db (snd (create_onekey_credential k now label user kind path db))"
    unfolding create_onekey_credential_def
    by (auto intro!: keeps_intros get split: option.split)
  show "keeps db (snd (update_onekey_credential now c db))"
    "keeps db (snd (delete_onekey_credential k db))"
    unfolding update_onekey_credential_def delete_onekey_credential_def by (intro keeps_intros; simp)+
qed

section \<open>The state machine\<close>

inductive tree_step :: "'a sync_db_scheme \<Rightarrow> 'a sync_db_scheme \<Rightarrow> bool" where
  step_create_folder: "parent \<noteq> Some k \<Longrightarrow> create_folder k now parent name db = (r1, db') \<Longrightarrow> tree_step db db'"
| step_create_server: "parent \<noteq> Some k \<Longrightarrow> create_server k now parent name info db = (r1, db') \<Longrightarrow> tree_step db db'"
| step_rename: "rename_node now n name db = (r2, db') \<Longrightarrow> tree_step db db'"
| step_update_server: "update_server now info db = (r2, db') \<Longrightarrow> tree_step db db'"
| step_delete: "delete_node n db = (r2, db') \<Longrightarrow> tree_step db db'"
| step_panel_move: "current nodes (node_rows (ssh db)) \<Longrightarrow>
    on_move_node nodes now n t db = Some (r3, db') \<Longrightarrow> tree_step db db'"
| step_regroup: "\<forall>r \<in> set (node_rows (ssh db)). nr_parent_id r \<noteq> Some n \<Longrightarrow> t \<noteq> Some n \<Longrightarrow>
    move_node_to_end now n t db = (r2, db') \<Longrightarrow> tree_step db db'"
| step_collapse: "set_collapsed now n c db = (r2, db') \<Longrightarrow> tree_step db db'"
| step_collapse_all: "set_all_folders_collapsed now c db = (r2, db') \<Longrightarrow> tree_step db db'"
| step_touch: "touch_last_connected now n db = (r2, db') \<Longrightarrow> tree_step db db'"
| step_create_route: "create_route k now name t hops db = (r4, db') \<Longrightarrow> tree_step db db'"
| step_update_route: "update_route now k name t hops db = (r2, db') \<Longrightarrow> tree_step db db'"
| step_delete_route: "delete_route k db = (r2, db') \<Longrightarrow> tree_step db db'"
| step_route_connected: "mark_route_connected now k db = (r2, db') \<Longrightarrow> tree_step db db'"
| step_create_credential:
    "create_onekey_credential k now label user kind path db = (r5, db') \<Longrightarrow> tree_step db db'"
| step_update_credential: "update_onekey_credential now cred db = (r2, db') \<Longrightarrow> tree_step db db'"
| step_delete_credential: "delete_onekey_credential k db = (r2, db') \<Longrightarrow> tree_step db db'"

lemma step_keeps: "tree_step db db' \<Longrightarrow> keeps db db'"
proof (induction rule: tree_step.induct)
  case (step_create_folder parent k now name db r1 db')
  then show ?case using keeps_create(1) [of parent k db now name] by simp
next
  case (step_create_server parent k now name info db r1 db')
  then show ?case using keeps_create(2) [of parent k db now name info] by simp
next
  case (step_panel_move nodes db now n t r3 db')
  then show ?case by (rule keeps_panel_move)
next
  case (step_regroup db n t now r2 db')
  then show ?case using keeps_move_to_end [of db n t now] by simp
qed (metis snd_conv keeps_node_ops keeps_update_server keeps_route_ops keeps_credential_ops)+

lemma reachable_tree_ok: "tree_step\<^sup>*\<^sup>* db db' \<Longrightarrow> tree_ok (ssh db) \<Longrightarrow> tree_ok (ssh db')"
  by (induction rule: rtranclp_induct) (auto dest!: step_keeps simp: keeps_def)

text \<open>A fresh database.\<close>

lemma no_tables_ok: "tree_ok no_tables"
  by (simp add: tree_ok_def no_tables_def table_defs forest_def)

end
