(* ===== verification/Ssh_Collect.thy ===== *)
theory Ssh_Collect imports Ssh_Transfer Ssh_Steps begin

text \<open>
  \<open>collect_data\<close> (\<open>warp_ssh_manager/src/sync_provider.rs\<close>): it changes nothing, and its payload
  is the tables with the secrets of the keychain, encrypted.  A payload collected on one device
  and applied on another makes the second device's SSH tables those of the first.
\<close>

section \<open>Reading\<close>

definition reads ::
  "('a sync_db_scheme \<Rightarrow> ('e + 'r) \<times> 'a sync_db_scheme) \<Rightarrow> (ssh_tables \<Rightarrow> 'r \<Rightarrow> bool) \<Rightarrow> bool" where
  "reads f Q \<longleftrightarrow> (\<forall>db r db'. f db = (r, db') \<longrightarrow> same_tables db db' \<and> (\<forall>x. r = Inr x \<longrightarrow> Q (ssh db) x))"

lemma readsD:
  assumes "reads f Q" "f db = (r, db')"
  shows "same_tables db db'" "r = Inr x \<Longrightarrow> Q (ssh db) x"
  using assms by (auto simp: reads_def)

lemma reads_mono: "reads f Q \<Longrightarrow> (\<And>T x. Q T x \<Longrightarrow> R T x) \<Longrightarrow> reads f R"
  unfolding reads_def by blast

lemma reads_select: "reads (select q) (\<lambda>T x. x = q T)"
  unfolding reads_def
proof (intro allI impI)
  fix db :: "'a sync_db_scheme" and r db'
  assume "select q db = (r, db')"
  then show "same_tables db db' \<and> (\<forall>x. r = Inr x \<longrightarrow> x = q (ssh db))"
    by (cases rule: select_cases [of q db]) auto
qed

lemma reads_map_err: "reads f Q \<Longrightarrow> reads (\<lambda>db. map_err g (f db)) Q"
  unfolding reads_def by (auto simp: map_err_def split: prod.splits sum.splits)

lemma reads_return: "(\<And>T x. r = Inr x \<Longrightarrow> Q T x) \<Longrightarrow> reads (\<lambda>db. (r, db)) Q"
  by (simp add: reads_def same_tables_iff)

lemma reads_attempt:
  assumes "reads f P" and "\<And>T a. P T a \<Longrightarrow> reads (g a) (\<lambda>T' x. T' = T \<longrightarrow> Q T x)"
  shows "reads (\<lambda>db. attempt (f db) g) Q"
  unfolding reads_def
proof (intro allI impI)
  fix db :: "'a sync_db_scheme" and r db'
  assume run: "attempt (f db) g = (r, db')"
  then show "same_tables db db' \<and> (\<forall>x. r = Inr x \<longrightarrow> Q (ssh db) x)"
  proof (cases rule: attemptE)
    case (fails e)
    then show ?thesis using readsD [OF assms(1) fails(1)] by simp
  next
    case (goes a db1)
    note first = readsD(1) [OF assms(1) goes(1)] readsD(2) [OF assms(1) goes(1) refl]
    have "same_tables db1 db' \<and> (\<forall>x. r = Inr x \<longrightarrow> ssh db1 = ssh db \<longrightarrow> Q (ssh db) x)"
      using assms(2) [OF first(2)] goes(2) unfolding reads_def by blast
    moreover have "ssh db1 = ssh db" using first(1) by (simp add: same_tables_iff)
    ultimately show ?thesis using same_tables_trans [OF first(1)] by blast
  qed
qed

lemma reads_query:
  "(\<And>T y. g (q T) = Inr y \<Longrightarrow> Q T y) \<Longrightarrow>
   reads (\<lambda>db. attempt (map_err Db (select q db)) (\<lambda>x db1. (g x, db1))) Q"
  by (rule reads_attempt [OF reads_map_err [OF reads_select]]) (rule reads_return, blast)

lemma reads_ask:
  assumes "reads f Q" and "ask f w = (r, w')"
  shows "same_tables w w'" and "r = Inr x \<Longrightarrow> Q (ssh w) x"
proof -
  obtain y where run: "with_conn (\<lambda>c. map_err repository_error_text (f c)) w = (y, w')"
    and y: "\<And>x. r = Inr x \<Longrightarrow> y = Inr x"
    using assms(2) by (cases r) (auto simp: ask_def map_err_eq_Inl)
  have "same_tables w w' \<and> (\<forall>x. y = Inr x \<longrightarrow> Q (ssh w) x)"
    using with_conn_result [OF run]
  proof
    assume "\<exists>db1. map_err repository_error_text (f db1) = (y, w') \<and> same_tables w db1"
    then obtain db1 where "map_err repository_error_text (f db1) = (y, w')" "same_tables w db1" by blast
    then show ?thesis
      using readsD [OF reads_map_err [OF assms(1), of repository_error_text]] same_tables_trans
      by (metis same_tables_iff)
  qed auto
  then show "same_tables w w'" "r = Inr x \<Longrightarrow> Q (ssh w) x" using y by auto
qed

lemma reads_list_nodes:
  "reads list_nodes (\<lambda>T ns. list_all2 (\<lambda>r n. node_from_row r = Inr n)
     (sort_key (\<lambda>r. (nr_parent_id r, nr_sort_order r)) (node_rows T)) ns)"
  unfolding list_nodes_def [abs_def] by (rule reads_query) (simp add: collect_results_Inr_iff)

lemma reads_list_credentials:
  "reads list_onekey_credentials (\<lambda>T cs. list_all2 (\<lambda>r c. onekey_from_row r = Inr c)
     (sort_key cr_label (credential_rows T)) cs)"
  unfolding list_onekey_credentials_def [abs_def] by (rule reads_query) (simp add: collect_results_Inr_iff)

lemma reads_get_server:
  "reads (get_server n) (\<lambda>T x. case find (\<lambda>r. sr_node_id r = n) (server_rows T) of
     None \<Rightarrow> x = None | Some r \<Rightarrow> \<exists>s. x = Some s \<and> server_from_row r = Inr s)"
  unfolding get_server_def [abs_def]
  by (rule reads_query) (auto simp: transpose_opt_def split: option.splits sum.splits)

section \<open>Routes\<close>

definition hops_of :: "ssh_tables \<Rightarrow> string \<Rightarrow> ssh_route_hop_row list" where
  "hops_of T route = sort_key hr_position (filter (\<lambda>h. hr_route_id h = route) (hop_rows T))"

definition route_read :: "ssh_tables \<Rightarrow> ssh_route_row \<Rightarrow> ssh_route \<Rightarrow> bool" where
  "route_read T r x \<longleftrightarrow>
    hops_from_rows (rr_id r) 0 (hops_of T (rr_id r)) = Inr (route_hops x) \<and>
    validate_route (rr_name r) (route_hops x) = Inr () \<and>
    x = \<lparr>route_id = rr_id r, route_name = rr_name r, route_target_node_id = rr_target_node_id r,
      route_hops = route_hops x, route_created_at = rr_created_at r,
      route_updated_at = rr_updated_at r, route_last_connected_at = rr_last_connected_at r\<rparr>"

lemma reads_route_from_row: "reads (route_from_row row) (\<lambda>T x. route_read T row x)"
proof -
  let ?g = "\<lambda>rows. case hops_from_rows (rr_id row) 0 rows of Inl e \<Rightarrow> Inl e
      | Inr hops \<Rightarrow> (case validate_route (rr_name row) hops of Inl e \<Rightarrow> Inl e
        | Inr _ \<Rightarrow> Inr \<lparr>route_id = rr_id row, route_name = rr_name row,
                route_target_node_id = rr_target_node_id row, route_hops = hops,
                route_created_at = rr_created_at row, route_updated_at = rr_updated_at row,
                route_last_connected_at = rr_last_connected_at row\<rparr>)"
  have eq: "route_from_row row = (\<lambda>db. attempt (map_err Db (select (\<lambda>T. hops_of T (rr_id row)) db))
      (\<lambda>rows db1. (?g rows, db1)))"
    unfolding route_from_row_def hops_of_def
    by (auto simp: fun_eq_iff attempt_def split: prod.splits sum.splits)
  show ?thesis
    unfolding eq by (rule reads_query) (auto simp: route_read_def split: sum.splits)
qed

lemma reads_routes_from_rows: "reads (routes_from_rows rows) (\<lambda>T rs. list_all2 (route_read T) rows rs)"
proof (induction rows)
  case Nil
  then show ?case by (simp add: reads_def same_tables_iff)
next
  case (Cons row rows)
  have eq: "routes_from_rows (row # rows) = (\<lambda>db. attempt (route_from_row row db) (\<lambda>r db1.
      attempt (routes_from_rows rows db1) (\<lambda>rs db2. (Inr (r # rs), db2))))"
    by (simp add: fun_eq_iff)
  show ?case unfolding eq
  proof (rule reads_attempt [OF reads_route_from_row], rule reads_attempt [OF Cons.IH], rule reads_return)
    fix T r T1 rs T2 x
    assume "route_read T row r" "list_all2 (route_read T1) rows rs" "Inr (r # rs) = Inr x"
    then show "T2 = T1 \<longrightarrow> T1 = T \<longrightarrow> list_all2 (route_read T) (row # rows) x" by auto
  qed
qed

lemma reads_list_routes:
  "reads list_routes (\<lambda>T rs. list_all2 (route_read T)
     (sort_key (\<lambda>r. (- rr_updated_at r, rr_id r)) (route_rows T)) rs)"
  unfolding list_routes_def [abs_def]
  by (rule reads_attempt [OF reads_map_err [OF reads_select]])
    (auto intro: reads_mono [OF reads_routes_from_rows])


section \<open>What is sent\<close>

definition sent_node :: "ssh_node_row \<Rightarrow> sync_node" where
  "sent_node r =
    \<lparr>node_id = nr_id r, parent_id = nr_parent_id r, node_kind = nr_kind r, node_name = nr_name r,
     sort_order = nr_sort_order r, is_collapsed = nr_is_collapsed r\<rparr>"

definition sent_server_row :: "ssh_server_row \<Rightarrow> ssh_server_row" where
  "sent_server_row r = r\<lparr>sr_port := uint (word_of_int (sr_port r) :: 16 word), sr_last_connected_at := None\<rparr>"

definition sent_secret ::
  "('j, 'm) ssh_provider \<Rightarrow> string \<Rightarrow> (secret_key \<Rightarrow> string option) \<Rightarrow> secret_key \<Rightarrow> string option \<Rightarrow> bool" where
  "sent_secret p token S x e \<longleftrightarrow>
    encrypt_optional (sp_crypto p) (sp_nonce p (fst x) (snd x)) token (S x) = Inr e"

definition server_sent ::
  "('j, 'm) ssh_provider \<Rightarrow> string \<Rightarrow> (secret_key \<Rightarrow> string option) \<Rightarrow> ssh_server_row \<Rightarrow> sync_server \<Rightarrow> bool" where
  "server_sent p token S r x \<longleftrightarrow>
    sync_server_row x = sent_server_row r \<and>
    (\<forall>(k, e) \<in> set (server_fields x). sent_secret p token S k e)"

definition credential_sent ::
  "('j, 'm) ssh_provider \<Rightarrow> string \<Rightarrow> (secret_key \<Rightarrow> string option) \<Rightarrow>
   ssh_onekey_credential_row \<Rightarrow> sync_onekey_credential \<Rightarrow> bool" where
  "credential_sent p token S r x \<longleftrightarrow>
    so_id x = cr_id r \<and> so_label x = cr_label r \<and> so_username x = cr_username r \<and>
    so_kind x = cr_kind r \<and> so_key_path x = cr_key_path r \<and>
    sent_secret p token S (fst (credential_field x)) (snd (credential_field x))"

text \<open>The rows that are sent: those of the nodes of kind \<open>server\<close>, in the order of the nodes.\<close>

definition node_order :: "ssh_tables \<Rightarrow> ssh_node_row list" where
  "node_order T = sort_key (\<lambda>r. (nr_parent_id r, nr_sort_order r)) (node_rows T)"

definition server_of :: "ssh_tables \<Rightarrow> ssh_node_row \<Rightarrow> ssh_server_row list" where
  "server_of T n =
    (if nr_kind n \<noteq> ''server'' then []
     else (case find (\<lambda>s. sr_node_id s = nr_id n) (server_rows T) of None \<Rightarrow> [] | Some s \<Rightarrow> [s]))"

lemma sync_node_of_row: "node_from_row r = Inr n \<Longrightarrow> sync_node_of n = sent_node r"
  by (auto simp: node_from_row_def sync_node_of_def sent_node_def parse_node_kind_Some split: option.splits)

lemma node_from_row_Inr: "node_from_row r = Inr n \<Longrightarrow> n_id n = nr_id r \<and> (n_kind n = Server \<longleftrightarrow> nr_kind r = ''server'')"
  by (auto simp: node_from_row_def parse_node_kind_def split: option.splits if_splits)

lemma parse_auth_type_Some: "parse_auth_type s = Some a \<longleftrightarrow> s = auth_type_str a"
  by (cases a) (auto simp: parse_auth_type_def)

lemma parse_onekey_kind_Some: "parse_onekey_kind s = Some k \<longleftrightarrow> s = onekey_kind_str k"
  by (cases k) (auto simp: parse_onekey_kind_def)

lemma encrypt_server_sent:
  assumes enc: "encrypt_server p token s (S (s_node_id s, SecretPassword)) (S (s_node_id s, SecretPassphrase))
      (S (s_node_id s, SecretRootPassword)) = Inr x"
    and row: "server_from_row r = Inr s"
  shows "server_sent p token S r x"
proof -
  have s: "s_node_id s = sr_node_id r" "s_host s = sr_host r" "s_port s = word_of_int (sr_port r)"
    "s_username s = sr_username r" "auth_type_str (s_auth_type s) = sr_auth_type r"
    "s_key_path s = sr_key_path r" "s_credential_id s = sr_credential_id r"
    "s_startup_command s = sr_startup_command r" "s_notes s = sr_notes r"
    using row by (auto simp: server_from_row_def parse_auth_type_Some split: option.splits)
  obtain e1 e2 e3 where e:
    "encrypt_optional (sp_crypto p) (sp_nonce p (s_node_id s) SecretPassword) token (S (s_node_id s, SecretPassword)) = Inr e1"
    "encrypt_optional (sp_crypto p) (sp_nonce p (s_node_id s) SecretPassphrase) token (S (s_node_id s, SecretPassphrase)) = Inr e2"
    "encrypt_optional (sp_crypto p) (sp_nonce p (s_node_id s) SecretRootPassword) token (S (s_node_id s, SecretRootPassword)) = Inr e3"
    and x: "x = \<lparr>sv_node_id = s_node_id s, sv_host = s_host s, sv_port = s_port s,
       sv_username = s_username s, sv_auth_type = auth_type_str (s_auth_type s),
       sv_key_path = s_key_path s, sv_startup_command = s_startup_command s,
       sv_notes = s_notes s, sv_credential_id = s_credential_id s,
       sv_password_encrypted = e1, sv_passphrase_encrypted = e2, sv_root_password_encrypted = e3\<rparr>"
    using enc by (auto simp: encrypt_server_def Let_def split: sum.splits)
  have "sync_server_row x = sent_server_row r"
    unfolding x sync_server_row_def sent_server_row_def by (cases r) (use s in simp)
  then show ?thesis using e x by (simp add: server_sent_def server_fields_def sent_secret_def)
qed

section \<open>Collecting changes nothing\<close>

context secret_contract begin

definition looks :: "'m sync_db_scheme \<Rightarrow> 'm sync_db_scheme \<Rightarrow> bool" where
  "looks a b \<longleftrightarrow> same_db a b \<and> secrets (sync_db.more b) = secrets (sync_db.more a)"

lemma looks_refl [simp]: "looks a a"
  by (simp add: looks_def)

lemma looks_trans: "looks a b \<Longrightarrow> looks b c \<Longrightarrow> looks a c"
  by (auto simp: looks_def intro: same_db_trans)

lemma looks_same: "same_tables a b \<Longrightarrow> looks a b"
  by (simp add: looks_def same_tables_same_db)

lemma looks_ssh: "looks a b \<Longrightarrow> ssh b = ssh a \<and> secrets (sync_db.more b) = secrets (sync_db.more a)"
  by (simp add: looks_def same_db_def)

lemma read_secret_result:
  assumes "read_secret store n k w = (r, w')"
  shows "looks w w'" and "r = Inr v \<Longrightarrow> v = secrets (sync_db.more w) (n, k)"
proof -
  obtain y where run: "on_secrets (store_get store n k) w = (y, w')" and y: "\<And>v. r = Inr v \<Longrightarrow> y = Inr v"
    using assms by (cases r) (auto simp: read_secret_def map_err_eq_Inl)
  note w = on_secrets_result [OF run]
  show "looks w w'" using w get_keeps [of n k "sync_db.more w"] by (simp add: looks_def)
  show "r = Inr v \<Longrightarrow> v = secrets (sync_db.more w) (n, k)" using w(2) y get_ok by blast
qed

lemma collect_credential_result:
  assumes store: "sp_store p = store" and row: "onekey_from_row r = Inr c"
    and run: "collect_credential p token c w = (x, w')"
  shows "looks w w'" and "x = Inr s \<Longrightarrow> credential_sent p token (secrets (sync_db.more w)) r s"
proof -
  have c: "c_id c = cr_id r" "c_label c = cr_label r" "c_username c = cr_username r"
    "onekey_kind_str (c_kind c) = cr_kind r" "c_key_path c = cr_key_path r"
    using row by (auto simp: onekey_from_row_def parse_onekey_kind_Some split: option.splits)
  have "looks w w' \<and> (\<forall>s. x = Inr s \<longrightarrow> credential_sent p token (secrets (sync_db.more w)) r s)"
    using run unfolding collect_credential_def Let_def store
  proof (cases rule: attemptE)
    case (fails e)
    then show ?thesis using read_secret_result(1) by auto
  next
    case (goes v w1)
    note look = read_secret_result(1) [OF goes(1)] read_secret_result(2) [OF goes(1) refl]
    have "parsed_onekey_kind (cr_kind r) = c_kind c"
      using c(4) by (simp add: parsed_onekey_kind_def c(4) [symmetric])
    then show ?thesis
      using goes(2) look c
      by (auto simp: credential_sent_def sent_secret_def credential_field_def split: sum.splits)
  qed
  then show "looks w w'" "x = Inr s \<Longrightarrow> credential_sent p token (secrets (sync_db.more w)) r s" by blast+
qed

lemma collect_credentials_result:
  assumes store: "sp_store p = store"
  shows "list_all2 (\<lambda>r c. onekey_from_row r = Inr c) rs cs \<Longrightarrow>
    collect_credentials p token cs w = (x, w') \<Longrightarrow>
    looks w w' \<and> (\<forall>xs. x = Inr xs \<longrightarrow> list_all2 (credential_sent p token (secrets (sync_db.more w))) rs xs)"
proof (induction rs cs arbitrary: w x w' rule: list_all2_induct)
  case (Cons r rs c cs)
  from Cons.prems have "attempt (collect_credential p token c w) (\<lambda>x w1.
    attempt (collect_credentials p token cs w1) (\<lambda>xs w2. (Inr (x # xs), w2))) = (x, w')" by simp
  then show ?case
  proof (cases rule: attemptE)
    case (fails e)
    then show ?thesis using collect_credential_result(1) [OF store Cons.hyps(1)] by simp
  next
    case (goes y w1)
    note first = collect_credential_result(1) [OF store Cons.hyps(1) goes(1)]
      collect_credential_result(2) [OF store Cons.hyps(1) goes(1) refl]
    show ?thesis using goes(2)
    proof (cases rule: attemptE)
      case (fails e)
      then show ?thesis using Cons.IH [OF fails(1)] first(1) looks_trans by auto
    next
      case (goes ys w2)
      then show ?thesis
        using Cons.IH [OF goes(1)] first looks_trans looks_ssh [OF first(1)] by auto
    qed
  qed
qed simp

lemma collect_server_result:
  assumes store: "sp_store p = store" and node: "node_from_row n = Inr m"
    and run: "collect_server p token m w = (x, w')"
  shows "looks w w' \<and> (\<forall>xs. x = Inr xs \<longrightarrow>
    list_all2 (server_sent p token (secrets (sync_db.more w))) (server_of (ssh w) n) xs)"
proof (cases "n_kind m = Server")
  case False
  then show ?thesis using run node_from_row_Inr [OF node] by (auto simp: collect_server_def server_of_def)
next
  case True
  have n: "n_id m = nr_id n" "nr_kind n = ''server''" using node_from_row_Inr [OF node] True by simp_all
  let ?S = "secrets (sync_db.more w)"
  let ?rest = "\<lambda>server w1. attempt (read_secret store (n_id m) SecretPassword w1) (\<lambda>s1 w2.
             attempt (read_secret store (n_id m) SecretPassphrase w2) (\<lambda>s2 w3.
             attempt (read_secret store (n_id m) SecretRootPassword w3) (\<lambda>s3 w4.
               (case encrypt_server p token server s1 s2 s3 of
                 Inl e \<Rightarrow> (Inl e, w4)
               | Inr x \<Rightarrow> (Inr [x], w4)))))"
  have tail: "looks w1 w' \<and> (\<forall>xs. x = Inr xs \<longrightarrow> (\<exists>y. xs = [y] \<and>
      encrypt_server p token server (secrets (sync_db.more w1) (n_id m, SecretPassword))
        (secrets (sync_db.more w1) (n_id m, SecretPassphrase))
        (secrets (sync_db.more w1) (n_id m, SecretRootPassword)) = Inr y))"
    if "?rest server w1 = (x, w')" for server w1
    using that
  proof (cases rule: attemptE)
    case (fails e)
    then show ?thesis using read_secret_result(1) by auto
  next
    case (goes s1 w2)
    note 1 = read_secret_result(1) [OF goes(1)] read_secret_result(2) [OF goes(1) refl]
    show ?thesis using goes(2)
    proof (cases rule: attemptE)
      case (fails e)
      then show ?thesis using read_secret_result(1) [OF fails(1)] 1 looks_trans by auto
    next
      case (goes s2 w3)
      note 2 = read_secret_result(1) [OF goes(1)] read_secret_result(2) [OF goes(1) refl]
      show ?thesis using goes(2)
      proof (cases rule: attemptE)
        case (fails e)
        then show ?thesis using read_secret_result(1) [OF fails(1)] 1 2 looks_trans by blast
      next
        case (goes s3 w4)
        note 3 = read_secret_result(1) [OF goes(1)] read_secret_result(2) [OF goes(1) refl]
        have "looks w1 w4" using 1(1) 2(1) 3(1) looks_trans by blast
        then show ?thesis
          using goes(2) 1 2 3 looks_ssh [OF 1(1)] looks_ssh [OF 2(1)] by (auto split: sum.splits)
      qed
    qed
  qed
  have "attempt (ask (get_server (n_id m)) w) (\<lambda>found w1.
      (case found of None \<Rightarrow> (Inr [], w1) | Some server \<Rightarrow> ?rest server w1)) = (x, w')"
    using run True unfolding collect_server_def store by (simp only: if_False not_True_eq_False simp_thms)
  then show ?thesis
  proof (cases rule: attemptE)
    case (fails e)
    then show ?thesis using reads_ask(1) [OF reads_get_server fails(1)] looks_same by simp
  next
    case (goes found w1)
    have same: "looks w w1" using reads_ask(1) [OF reads_get_server goes(1)] looks_same by simp
    note found = reads_ask(2) [OF reads_get_server goes(1) refl]
    show ?thesis
    proof (cases "find (\<lambda>r. sr_node_id r = n_id m) (server_rows (ssh w))")
      case None
      then show ?thesis using found goes(2) same n by (auto simp: server_of_def)
    next
      case (Some r)
      then obtain s where s: "found = Some s" "server_from_row r = Inr s" using found by auto
      have "sr_node_id r = n_id m" using Some by (auto simp: find_Some_iff)
      then have id: "s_node_id s = n_id m" using s(2) by (auto simp: server_from_row_def split: option.splits)
      have "?rest s w1 = (x, w')" using goes(2) s by simp
      note t = tail [OF this]
      have "server_of (ssh w) n = [r]" using Some n by (simp add: server_of_def)
      then show ?thesis
        using t looks_trans [OF same] looks_ssh [OF same] id
          encrypt_server_sent [of p token s ?S _ r, OF _ s(2)] by fastforce
    qed
  qed
qed

lemma collect_servers_result:
  assumes store: "sp_store p = store"
  shows "list_all2 (\<lambda>r n. node_from_row r = Inr n) rs ns \<Longrightarrow>
    collect_servers p token ns w = (x, w') \<Longrightarrow>
    looks w w' \<and> (\<forall>xs. x = Inr xs \<longrightarrow> list_all2 (server_sent p token (secrets (sync_db.more w)))
      (concat (map (server_of (ssh w)) rs)) xs)"
proof (induction rs ns arbitrary: w x w' rule: list_all2_induct)
  case (Cons r rs n ns)
  from Cons.prems have "attempt (collect_server p token n w) (\<lambda>xs w1.
    attempt (collect_servers p token ns w1) (\<lambda>ys w2. (Inr (xs @ ys), w2))) = (x, w')" by simp
  then show ?case
  proof (cases rule: attemptE)
    case (fails e)
    then show ?thesis using collect_server_result [OF store Cons.hyps(1) fails(1)] by simp
  next
    case (goes ys w1)
    note first = collect_server_result [OF store Cons.hyps(1) goes(1)]
    show ?thesis using goes(2)
    proof (cases rule: attemptE)
      case (fails e)
      then show ?thesis using Cons.IH [OF fails(1)] first looks_trans by auto
    next
      case (goes zs w2)
      then show ?thesis
        using Cons.IH [OF goes(1)] first looks_trans looks_ssh [of w w1]
        by (auto intro: list_all2_appendI)
    qed
  qed
qed simp

end


section \<open>The payload\<close>

definition route_order :: "ssh_tables \<Rightarrow> ssh_route_row list" where
  "route_order T = sort_key (\<lambda>r. (- rr_updated_at r, rr_id r)) (route_rows T)"

definition collected ::
  "('j, 'm) ssh_provider \<Rightarrow> string \<Rightarrow> (secret_key \<Rightarrow> string option) \<Rightarrow> ssh_tables \<Rightarrow> ssh_sync_data \<Rightarrow> bool" where
  "collected p token S T d \<longleftrightarrow>
    sd_nodes d = map sent_node (node_order T) \<and>
    list_all2 (server_sent p token S) (concat (map (server_of T) (node_order T))) (sd_servers d) \<and>
    list_all2 (credential_sent p token S) (sort_key cr_label (credential_rows T)) (sd_onekey_credentials d) \<and>
    (\<exists>rs. sd_routes d = Some rs \<and> list_all2 (route_read T) (route_order T) rs)"

lemma ask_memories_result:
  assumes "ask_memories p w = (r, w')"
  shows "same_tables w w'" and "r = Inr ms \<Longrightarrow> memories_from_rows (sp_chrono p) (memory_rows w) = Inr ms"
proof -
  let ?f = "\<lambda>c. map_err memory_error_text (list_all_for_sync (sp_chrono p) c)"
  obtain y where run: "with_conn ?f w = (y, w')" and y: "\<And>x. r = Inr x \<Longrightarrow> y = Inr x"
    using assms by (cases r) (auto simp: ask_memories_def map_err_eq_Inl)
  have "same_tables w w' \<and> (\<forall>ms. y = Inr ms \<longrightarrow> memories_from_rows (sp_chrono p) (memory_rows w) = Inr ms)"
    using with_conn_result [OF run]
  proof
    assume "\<exists>db1. ?f db1 = (y, w') \<and> same_tables w db1"
    then obtain db1 where f: "?f db1 = (y, w')" and same: "same_tables w db1" by blast
    obtain z where z: "list_all_for_sync (sp_chrono p) db1 = (z, w')" "\<And>x. y = Inr x \<Longrightarrow> z = Inr x"
      using f by (cases y) (auto simp: map_err_eq_Inl)
    have "memories_from_rows (sp_chrono p) (memory_rows db1) = Inr ms" if ms: "z = Inr ms" for ms
    proof -
      have run1: "list_all_for_sync (sp_chrono p) db1 = (Inr ms, w')" using z(1) ms by simp
      show ?thesis
        by (cases rule: statement_cases [of db1])
          (use run1 in \<open>auto simp: list_all_for_sync_def same_tables_iff same_rest_def\<close>)
    qed
    then show ?thesis
      using list_for_sync_frame [OF z(1)] same same_tables_trans z(2) by (auto simp: same_tables_iff same_rest_def)
  qed auto
  then show "same_tables w w'" "r = Inr ms \<Longrightarrow> memories_from_rows (sp_chrono p) (memory_rows w) = Inr ms"
    using y by auto
qed

lemma case_error_Inr:
  "(case r of Inl e \<Rightarrow> (Inl (f e), s) | Inr v \<Rightarrow> (Inr v, s)) = (Inr x, s') \<longleftrightarrow> r = Inr x \<and> s' = s"
  by (cases r) auto

lemma list_all2_map_eq: "list_all2 (\<lambda>a b. f a = Inr b) xs ys \<Longrightarrow> (\<And>a b. f a = Inr b \<Longrightarrow> g b = h a) \<Longrightarrow> map g ys = map h xs"
  by (induction xs ys rule: list_all2_induct) auto

context secret_contract begin

lemma looks_attempt:
  assumes "looks w (snd r)" and "\<And>a w1. looks w1 (snd (f a w1))"
  shows "looks w (snd (attempt r f))"
  by (rule snd_attempt [of looks]) (use assms looks_trans in blast)+

lemma collect_result:
  assumes store: "sp_store p = store" and run: "ssh_collect_data p token w = (Inr v, w')"
  obtains d ms where "looks w w'" "sp_to_value p d = Inr v"
    "collected p token (secrets (sync_db.more w)) (ssh w) d"
    "memories_from_rows (sp_chrono p) (memory_rows w) = Inr ms"
    "encrypt_machine_memories (sp_crypto p) (sp_chrono p) token (sp_memory_nonce p) ms = Inr (sd_machine_memories d)"
proof -
  obtain ns w1 ms w2 sms rs w4 cs w5 scs w6 ss where
    1: "ask list_nodes w = (Inr ns, w1)" and 2: "ask_memories p w1 = (Inr ms, w2)"
    and 3: "encrypt_machine_memories (sp_crypto p) (sp_chrono p) token (sp_memory_nonce p) ms = Inr sms"
    and 4: "ask list_routes w2 = (Inr rs, w4)" and 5: "ask list_onekey_credentials w4 = (Inr cs, w5)"
    and 6: "collect_credentials p token cs w5 = (Inr scs, w6)"
    and 7: "collect_servers p token ns w6 = (Inr ss, w')"
    and 8: "sp_to_value p \<lparr>sd_nodes = map sync_node_of ns, sd_servers = ss, sd_onekey_credentials = scs,
        sd_machine_memories = sms, sd_routes = Some rs\<rparr> = Inr v"
    using run by (auto simp: ssh_collect_data_def attempt_eq_Inr case_error_Inr)
  note r1 = reads_ask [OF reads_list_nodes 1]
  note r2 = ask_memories_result [OF 2]
  note r4 = reads_ask [OF reads_list_routes 4]
  note r5 = reads_ask [OF reads_list_credentials 5]
  have w5: "same_tables w w5" using r1(1) r2(1) r4(1) r5(1) same_tables_trans by blast
  have same: "ssh w1 = ssh w" "ssh w2 = ssh w" "ssh w4 = ssh w" "ssh w5 = ssh w"
    "sync_db.more w5 = sync_db.more w" "memory_rows w1 = memory_rows w"
    using r1(1) r2(1) r4(1) r5(1) by (simp_all add: same_tables_iff same_rest_def)
  note r6 = collect_credentials_result [OF store r5(2) [OF refl] 6]
  note r7 = collect_servers_result [OF store r1(2) [OF refl] 7]
  have look: "looks w w'"
    using looks_trans [OF looks_trans [OF looks_same [OF w5] conjunct1 [OF r6]] conjunct1 [OF r7]] .
  have w6: "ssh w6 = ssh w" "secrets (sync_db.more w6) = secrets (sync_db.more w)"
    using r6 looks_ssh [of w5 w6] same by simp_all
  let ?d = "\<lparr>sd_nodes = map sync_node_of ns, sd_servers = ss, sd_onekey_credentials = scs,
        sd_machine_memories = sms, sd_routes = Some rs\<rparr>"
  have "map sync_node_of ns = map sent_node (node_order (ssh w))"
    unfolding node_order_def by (rule list_all2_map_eq [OF r1(2) [OF refl]]) (rule sync_node_of_row)
  then have "collected p token (secrets (sync_db.more w)) (ssh w) ?d"
    using r6 r7 r4(2) [OF refl] same w6 by (simp add: collected_def node_order_def route_order_def)
  then show thesis using that [OF look 8] r2(2) [OF refl] 3 same by simp
qed

text \<open>Whatever happens, collecting changes neither the tables nor a secret.\<close>

lemma collect_looks:
  assumes store: "sp_store p = store"
  shows "looks w (snd (ssh_collect_data p token w))"
proof -
  have ask: "looks w1 (snd (ask f w1))" if "reads f Q"
    for w1 :: "'m sync_db_scheme" and f :: "'m sync_db_scheme \<Rightarrow> (repository_error + 'r) \<times> 'm sync_db_scheme" and Q
    using reads_ask(1) [OF that prod.collapse [symmetric]] looks_same by blast
  have memories: "looks w1 (snd (ask_memories p w1))" for w1
    using ask_memories_result(1) [OF prod.collapse [symmetric]] looks_same by blast
  have get: "looks w1 (snd (read_secret store n k w1))" for n k w1
    using read_secret_result(1) [OF prod.collapse [symmetric]] by blast
  have credential: "looks w1 (snd (collect_credential p token c w1))" for c w1
    unfolding collect_credential_def Let_def store
    by (rule looks_attempt [OF get]) (auto split: sum.split)
  have credentials: "looks w1 (snd (collect_credentials p token cs w1))" for cs w1
  proof (induction cs arbitrary: w1)
    case (Cons c cs)
    show ?case unfolding collect_credentials.simps
      by (rule looks_attempt [OF credential], rule looks_attempt [OF Cons.IH]) simp
  qed simp
  have server: "looks w1 (snd (collect_server p token n w1))" for n w1
  proof (cases "n_kind n = Server")
    case True
    have rest: "looks w1 (snd (attempt (read_secret store (n_id n) SecretPassword w1) (\<lambda>s1 w2.
             attempt (read_secret store (n_id n) SecretPassphrase w2) (\<lambda>s2 w3.
             attempt (read_secret store (n_id n) SecretRootPassword w3) (\<lambda>s3 w4.
               (case encrypt_server p token s s1 s2 s3 of
                 Inl e \<Rightarrow> (Inl e, w4)
               | Inr x \<Rightarrow> (Inr [x], w4)))))))" for s w1
      by (intro looks_attempt get) (auto split: sum.split)
    show ?thesis
      unfolding collect_server_def store using True
      by (auto intro!: looks_attempt ask [OF reads_get_server] rest split: option.split)
  qed (simp add: collect_server_def)
  have servers: "looks w1 (snd (collect_servers p token ns w1))" for ns w1
  proof (induction ns arbitrary: w1)
    case (Cons n ns)
    show ?case unfolding collect_servers.simps
      by (rule looks_attempt [OF server], rule looks_attempt [OF Cons.IH]) simp
  qed simp
  show ?thesis
    unfolding ssh_collect_data_def
    by (intro looks_attempt ask [OF reads_list_nodes] memories ask [OF reads_list_routes]
        ask [OF reads_list_credentials] credentials servers) (auto split: sum.split)
qed

end

end
