(* ===== verification/Ssh_Transport.thy ===== *)
theory Ssh_Transport imports Ssh_Collect begin

text \<open>
  From one device to another: what \<open>apply_data\<close> makes of a payload that \<open>collect_data\<close> built.
  The tables of the first device arrive whole (up to the times of creation and connection),
  and so do the secrets of its servers and credentials.
\<close>

section \<open>What arrives\<close>

definition stamp_node :: "int \<Rightarrow> ssh_node_row \<Rightarrow> ssh_node_row" where
  "stamp_node now r = r\<lparr>nr_created_at := now, nr_updated_at := now\<rparr>"

definition stamp_credential :: "int \<Rightarrow> ssh_onekey_credential_row \<Rightarrow> ssh_onekey_credential_row" where
  "stamp_credential now r = r\<lparr>cr_created_at := now, cr_updated_at := now\<rparr>"

definition arrived :: "int \<Rightarrow> ssh_tables \<Rightarrow> ssh_tables \<Rightarrow> bool" where
  "arrived now T U \<longleftrightarrow>
    mset (node_rows U) = mset (map (stamp_node now) (node_rows T)) \<and>
    mset (server_rows U) = mset (map (\<lambda>r. r\<lparr>sr_last_connected_at := None\<rparr>) (server_rows T)) \<and>
    mset (credential_rows U) = mset (map (stamp_credential now) (credential_rows T)) \<and>
    mset (route_rows U) = mset (route_rows T) \<and> mset (hop_rows U) = mset (hop_rows T)"

text \<open>
  What the application writes but the schema does not demand: server rows belong to nodes of
  kind \<open>server\<close>, ports fit in 16 bits, and no credential has the identifier of a node.
\<close>

definition servers_ok :: "ssh_tables \<Rightarrow> bool" where
  "servers_ok T \<longleftrightarrow>
    (\<forall>s \<in> set (server_rows T). 0 \<le> sr_port s \<and> sr_port s < 2 ^ 16 \<and>
      (\<exists>n \<in> set (node_rows T). nr_id n = sr_node_id s \<and> nr_kind n = ''server'')) \<and>
    set (node_ids T) \<inter> set (credential_ids T) = {}"

section \<open>Nodes\<close>

lemma set_node_order [simp]: "set (node_order T) = set (node_rows T)"
  by (simp add: node_order_def)

lemma mset_node_order [simp]: "mset (node_order T) = mset (node_rows T)"
  by (simp add: node_order_def)

lemma distinct_node_order: "tables_ok T \<Longrightarrow> distinct (map nr_id (node_order T))"
  using mset_eq_imp_distinct_iff [of "map nr_id (node_order T)" "map nr_id (node_rows T)"]
  by (simp add: tables_ok_def keys_ok_def node_ids_def)

lemma sent_node_simps [simp]: "node_id (sent_node r) = nr_id r" "parent_id (sent_node r) = nr_parent_id r"
  by (simp_all add: sent_node_def)

lemma rooted_sent:
  assumes "grounded (parents (node_rows T)) i" and "distinct (map nr_id (node_rows T))"
    and "r \<in> set (node_rows T)" "nr_id r = i"
  shows "rooted (map sent_node (node_order T)) (sent_node r)"
  using assms(1,3,4)
proof (induction arbitrary: r rule: grounded.induct)
  case (root i)
  then show ?case using parents_row [OF assms(2)] by (intro rooted.root) auto
next
  case (child i p)
  have p: "nr_parent_id r = Some p" using child.hyps(1) child.prems(2) parents_row [OF assms(2) child.prems(1)] by simp
  obtain q where q: "q \<in> set (node_rows T)" "nr_id q = p"
    using grounded_dom [OF child.hyps(2)] by (auto simp: dom_parents)
  show ?case
    by (rule rooted.child [where m = "sent_node q"]) (use child.prems p q child.IH [OF q] in auto)
qed

lemma sorted_sent:
  assumes ok: "tree_ok T"
  shows "mset (fst (topologically_sort_nodes (map sent_node (node_order T)))) =
    mset (map sent_node (node_rows T))"
proof -
  let ?ns = "map sent_node (node_order T)"
  have dist: "distinct (map nr_id (node_rows T))"
    using ok by (simp add: tree_ok_def tables_ok_def keys_ok_def node_ids_def)
  have "distinct (map node_id ?ns)" using distinct_node_order ok by (simp add: tree_ok_def o_def)
  then obtain seen where m: "mset (fst (topologically_sort_nodes ?ns)) =
      mset (map (\<lambda>n. if node_id n \<in> seen then n else n\<lparr>parent_id := None\<rparr>) ?ns)"
    and s: "\<And>n. n \<in> set ?ns \<Longrightarrow> (case parent_id n of None \<Rightarrow> True | Some p \<Rightarrow> p \<in> seen) \<Longrightarrow> node_id n \<in> seen"
    by (rule sorted_nodes_mset) (rule that)
  have "node_id n \<in> seen" if n: "n \<in> set ?ns" for n
  proof -
    obtain r where r: "r \<in> set (node_rows T)" "n = sent_node r" using n by auto
    have "grounded (parents (node_rows T)) (nr_id r)" using ok r(1) by (auto simp: tree_ok_def forest_def)
    then have "rooted ?ns n" using rooted_sent [OF _ dist r(1) refl] r(2) by simp
    then show ?thesis by (rule rooted_seen) (rule s)
  qed
  then have "map (\<lambda>n. if node_id n \<in> seen then n else n\<lparr>parent_id := None\<rparr>) ?ns = ?ns"
    by (intro map_idI) simp
  then show ?thesis using m by (metis mset_map mset_node_order)
qed

lemma synced_sent: "synced_node_row now (sent_node r) = stamp_node now r"
  by (simp add: synced_node_row_def new_node_row_def sent_node_def stamp_node_def)

section \<open>Servers and credentials\<close>

lemma find_member: "find P xs = Some x \<Longrightarrow> x \<in> set xs"
  by (auto simp: find_Some_iff)

lemma servers_in_order:
  "distinct (map nr_id ns) \<Longrightarrow>
   map sr_node_id (concat (map (server_of T) ns)) =
     map nr_id (filter (\<lambda>n. nr_kind n = ''server'' \<and> nr_id n \<in> sr_node_id ` set (server_rows T)) ns)"
proof (induction ns)
  case (Cons n ns)
  show ?case
  proof (cases "find (\<lambda>s. sr_node_id s = nr_id n) (server_rows T)")
    case None
    then have "nr_id n \<notin> sr_node_id ` set (server_rows T)" by (auto simp: find_None_iff)
    then show ?thesis using Cons None by (simp add: server_of_def)
  next
    case (Some s)
    then have "s \<in> set (server_rows T)" "sr_node_id s = nr_id n" by (auto simp: find_Some_iff)
    then have "nr_id n \<in> sr_node_id ` set (server_rows T)" by force
    then show ?thesis using Cons Some \<open>sr_node_id s = nr_id n\<close> by (simp add: server_of_def)
  qed
qed simp

lemma sent_servers:
  assumes ok: "tables_ok T" and servers: "servers_ok T"
  shows "mset (concat (map (server_of T) (node_order T))) = mset (server_rows T)"
    and "distinct (map sr_node_id (concat (map (server_of T) (node_order T))))"
proof -
  let ?ss = "concat (map (server_of T) (node_order T))"
  have keys: "distinct (map sr_node_id (server_rows T))" using ok by (simp add: tables_ok_def keys_ok_def)
  show dist: "distinct (map sr_node_id ?ss)"
    unfolding servers_in_order [OF distinct_node_order [OF ok]]
    using distinct_node_order [OF ok] by (rule distinct_map_filter)
  have find: "find (\<lambda>s. sr_node_id s = sr_node_id x) (server_rows T) = Some x" if x: "x \<in> set (server_rows T)" for x
  proof -
    obtain y where y: "find (\<lambda>s. sr_node_id s = sr_node_id x) (server_rows T) = Some y"
      using x by (cases "find (\<lambda>s. sr_node_id s = sr_node_id x) (server_rows T)") (auto simp: find_None_iff)
    then have "y \<in> set (server_rows T)" "sr_node_id y = sr_node_id x" by (auto simp: find_Some_iff)
    then show ?thesis using y keys x by (auto simp: distinct_map dest: inj_onD)
  qed
  have "set ?ss = set (server_rows T)"
  proof
    show "set ?ss \<subseteq> set (server_rows T)"
      by (auto simp: server_of_def dest: find_member [OF sym] split: option.splits)
    show "set (server_rows T) \<subseteq> set ?ss"
    proof
      fix x assume x: "x \<in> set (server_rows T)"
      then obtain n where "n \<in> set (node_rows T)" "nr_id n = sr_node_id x" "nr_kind n = ''server''"
        using servers by (auto simp: servers_ok_def)
      then show "x \<in> set ?ss" using find [OF x] by (auto simp: server_of_def intro!: bexI [of _ n])
    qed
  qed
  moreover have "distinct ?ss" "distinct (server_rows T)" using dist keys by (simp_all add: distinct_map)
  ultimately show "mset ?ss = mset (server_rows T)"
    using set_eq_iff_mset_eq_distinct [of ?ss "server_rows T"] by blast
qed

lemma sent_server_row_ok: "servers_ok T \<Longrightarrow> r \<in> set (server_rows T) \<Longrightarrow>
  sent_server_row r = r\<lparr>sr_last_connected_at := None\<rparr>"
  by (auto simp: servers_ok_def sent_server_row_def unsigned_of_int take_bit_int_eq_self)

lemma credential_arrives:
  "credential_sent p token S r x \<Longrightarrow> cr_kind r = ''password'' \<or> cr_kind r = ''key'' \<Longrightarrow>
   credential_row_of now x = stamp_credential now r"
  by (auto simp: credential_sent_def credential_row_of_def new_credential_row_def stamp_credential_def
      parsed_onekey_kind_def parse_onekey_kind_def)

lemma list_all2_map_cong:
  "list_all2 R xs ys \<Longrightarrow> (\<And>x y. x \<in> set xs \<Longrightarrow> R x y \<Longrightarrow> g y = h x) \<Longrightarrow> map g ys = map h xs"
  by (induction xs ys rule: list_all2_induct) auto

section \<open>Routes\<close>

lemma hops_from_rows_Inr:
  "hops_from_rows route k rows = Inr hops \<Longrightarrow>
   (\<forall>h \<in> set rows. hr_route_id h = route \<and> points_into (hr_node_id h) ids \<and>
     (case hr_port h of None \<Rightarrow> True | Some p \<Rightarrow> 1 \<le> p \<and> p \<le> 65535)) \<Longrightarrow>
   map (\<lambda>(i, h). synced_hop_row ids route i h) (enumerate k hops) = rows"
proof (induction rows arbitrary: k hops)
  case (Cons r rows)
  obtain rest where r: "hr_position r = int k" "hr_execution_scope r = ''previous_hop''"
    and rest: "hops_from_rows route (Suc k) rows = Inr rest"
    and hops: "hops = \<lparr>hop_node_id = hr_node_id r, hop_target_alias = hr_target_alias r,
      hop_port = map_option word_of_int (hr_port r)\<rparr> # rest"
    using Cons.prems(1) by (auto split: if_splits sum.splits)
  have "map_option uint (map_option word_of_int (hr_port r) :: 16 word option) = hr_port r"
    using Cons.prems(2) by (cases "hr_port r") (simp_all add: unsigned_of_int take_bit_int_eq_self)
  moreover have "forget ids (hr_node_id r) = hr_node_id r" using Cons.prems(2) by (simp add: forget_known)
  ultimately have "synced_hop_row ids route k (hd hops) = r"
    using r Cons.prems(2) by (simp add: hops synced_hop_row_def hop_row_def)
  then show ?case using Cons.IH [OF rest] Cons.prems(2) hops by simp
qed simp

lemma route_arrives:
  assumes read: "route_read T r x" and ok: "tables_ok T" and r: "r \<in> set (route_rows T)"
    and ids: "set ids = set (node_ids T)"
  shows "synced_route_row ids x = r" "synced_hop_rows ids x = hops_of T (rr_id r)"
proof -
  have x: "route_id x = rr_id r" "route_name x = rr_name r" "route_target_node_id x = rr_target_node_id r"
    "route_created_at x = rr_created_at r" "route_updated_at x = rr_updated_at r"
    "route_last_connected_at x = rr_last_connected_at r"
    and hops: "hops_from_rows (rr_id r) 0 (hops_of T (rr_id r)) = Inr (route_hops x)"
    using read by (simp_all add: route_read_def, (metis ssh_route.select_convs)+)
  have points: "points_into y ids = points_into y (node_ids T)" for y
    using ids by (cases y) (simp_all add: points_into_def)
  have "points_into (rr_target_node_id r) ids"
    using ok r points by (simp add: tables_ok_def references_ok_def)
  then show "synced_route_row ids x = r" using x by (simp add: synced_route_row_def forget_known)
  have "\<forall>h \<in> set (hops_of T (rr_id r)). hr_route_id h = rr_id r \<and> points_into (hr_node_id h) ids \<and>
      (case hr_port h of None \<Rightarrow> True | Some p \<Rightarrow> 1 \<le> p \<and> p \<le> 65535)"
    using ok points by (auto simp: hops_of_def tables_ok_def references_ok_def checks_ok_def)
  from hops_from_rows_Inr [OF hops this] show "synced_hop_rows ids x = hops_of T (rr_id r)"
    using x by (simp add: synced_hop_rows_def)
qed

lemma hops_partition:
  "distinct (map rr_id rs) \<Longrightarrow>
   mset (concat (map (\<lambda>r. hops_of T (rr_id r)) rs)) =
     mset (filter (\<lambda>h. hr_route_id h \<in> rr_id ` set rs) (hop_rows T))"
proof (induction rs)
  case (Cons r rs)
  have "filter_mset (\<lambda>h. hr_route_id h = rr_id r \<or> hr_route_id h \<in> rr_id ` set rs) (mset H) =
      filter_mset (\<lambda>h. hr_route_id h = rr_id r) (mset H) +
      filter_mset (\<lambda>h. hr_route_id h \<in> rr_id ` set rs) (mset H)" for H
    using Cons.prems by (induction H) auto
  from this [of "hop_rows T"] show ?case using Cons by (simp add: hops_of_def)
qed simp

section \<open>The tables arrive\<close>

lemma tables_arrive:
  assumes sent: "collected p token S T d" and ok: "tree_ok T" and servers: "servers_ok T"
  shows "arrived now T (rebuilt now d U)"
proof -
  let ?sorted = "fst (topologically_sort_nodes (sd_nodes d))"
  let ?ids = "map node_id ?sorted"
  have tok: "tables_ok T" using ok by (simp add: tree_ok_def)
  have nodes: "sd_nodes d = map sent_node (node_order T)" using sent by (simp add: collected_def)
  have sorted: "mset ?sorted = mset (map sent_node (node_rows T))" unfolding nodes by (rule sorted_sent [OF ok])
  have ids: "set ?ids = set (node_ids T)"
    using mset_eq_setD [OF sorted] by (simp add: node_ids_def image_image)
  have "mset (map (synced_node_row now) ?sorted) = mset (map (stamp_node now) (node_rows T))"
    using arg_cong [OF sorted, of "image_mset (synced_node_row now)"]
    by (simp add: image_mset.compositionality o_def synced_sent)
  moreover have "mset (map sync_server_row (sd_servers d)) =
      mset (map (\<lambda>r. r\<lparr>sr_last_connected_at := None\<rparr>) (server_rows T))"
  proof -
    let ?ss = "concat (map (server_of T) (node_order T))"
    have set: "set ?ss = set (server_rows T)" using mset_eq_setD [OF sent_servers(1) [OF tok servers]] .
    have "map sync_server_row (sd_servers d) = map (\<lambda>r. r\<lparr>sr_last_connected_at := None\<rparr>) ?ss"
      by (rule list_all2_map_cong [where R = "server_sent p token S"])
        (use sent set sent_server_row_ok [OF servers] in \<open>auto simp: collected_def server_sent_def\<close>)
    then show ?thesis using sent_servers(1) [OF tok servers] by (simp only: mset_map)
  qed
  moreover have "mset (map (credential_row_of now) (sd_onekey_credentials d)) =
      mset (map (stamp_credential now) (credential_rows T))"
  proof -
    have "map (credential_row_of now) (sd_onekey_credentials d) =
        map (stamp_credential now) (sort_key cr_label (credential_rows T))"
      by (rule list_all2_map_cong [where R = "credential_sent p token S"])
        (use sent tok in \<open>auto simp: collected_def tables_ok_def checks_ok_def intro!: credential_arrives\<close>)
    then show ?thesis by simp
  qed
  moreover obtain rs where rs: "sd_routes d = Some rs" "list_all2 (route_read T) (route_order T) rs"
    using sent by (auto simp: collected_def)
  have set: "set (route_order T) = set (route_rows T)" by (simp add: route_order_def)
  have "map (synced_route_row ?ids) rs = map (\<lambda>r. r) (route_order T)"
    by (rule list_all2_map_cong [OF rs(2)]) (use route_arrives(1) [OF _ tok _ ids] set in simp)
  then have "mset (map (synced_route_row ?ids) rs) = mset (route_rows T)" by (simp add: route_order_def)
  moreover have "mset (concat (map (synced_hop_rows ?ids) rs)) = mset (hop_rows T)"
  proof -
    have "map (synced_hop_rows ?ids) rs = map (\<lambda>r. hops_of T (rr_id r)) (route_order T)"
      by (rule list_all2_map_cong [OF rs(2)]) (use route_arrives(2) [OF _ tok _ ids] set in simp)
    moreover have "distinct (map rr_id (route_order T))"
      using tok mset_eq_imp_distinct_iff [of "map rr_id (route_order T)" "map rr_id (route_rows T)"]
      by (simp add: tables_ok_def keys_ok_def route_ids_def route_order_def)
    moreover have "filter (\<lambda>h. hr_route_id h \<in> rr_id ` set (route_order T)) (hop_rows T) = hop_rows T"
      using tok set by (auto simp: tables_ok_def references_ok_def route_ids_def intro!: filter_True)
    ultimately show ?thesis using hops_partition [of "route_order T" T] by simp
  qed
  ultimately show ?thesis using rs(1) by (simp add: arrived_def rebuilt_def Let_def)
qed


section \<open>The secrets arrive\<close>

definition server_keys :: "string \<Rightarrow> secret_key list" where
  "server_keys node = [(node, SecretPassword), (node, SecretPassphrase), (node, SecretRootPassword)]"

definition credential_key :: "ssh_onekey_credential_row \<Rightarrow> secret_key" where
  "credential_key r = (cr_id r, onekey_secret_kind (parsed_onekey_kind (cr_kind r)))"

definition sent_keys :: "ssh_tables \<Rightarrow> secret_key set" where
  "sent_keys T = (\<Union>r \<in> set (server_rows T). set (server_keys (sr_node_id r))) \<union>
    credential_key ` set (credential_rows T)"

text \<open>An empty secret is not sent.\<close>

definition nonempty :: "string option \<Rightarrow> string option" where
  "nonempty v = (if v = Some [] then None else v)"

lemma sent_secret_decrypts:
  assumes laws: "crypto_laws (sp_crypto p)" and nonces: "\<And>n k. length (sp_nonce p n k) = 12"
    and sent: "sent_secret p token S x e"
  shows "(case e of None \<Rightarrow> nonempty (S x) = None
    | Some c \<Rightarrow> \<exists>v. nonempty (S x) = Some v \<and> decrypt (sp_crypto p) token c = Inr v)"
  using sent decrypt_encrypt_ok [OF laws nonces]
  by (cases "S x") (auto simp: sent_secret_def encrypt_optional_def nonempty_def split: if_splits sum.splits)

lemma secret_fields_sent:
  assumes "collected p token S T d" and "(x, e) \<in> set (secret_fields d)"
  shows "sent_secret p token S x e"
proof -
  consider s where "s \<in> set (sd_servers d)" "(x, e) \<in> set (server_fields s)"
    | c where "c \<in> set (sd_onekey_credentials d)" "(x, e) = credential_field c"
    using assms(2) by (auto simp: secret_fields_def)
  then show ?thesis
  proof cases
    case 1
    obtain r where "server_sent p token S r s"
      using assms(1) 1(1) by (auto simp: collected_def list_all2_conv_all_nth in_set_conv_nth)
    then show ?thesis using 1(2) by (auto simp: server_sent_def)
  next
    case 2
    obtain r where "credential_sent p token S r c"
      using assms(1) 2(1) by (auto simp: collected_def list_all2_conv_all_nth in_set_conv_nth)
    then show ?thesis using 2(2) by (metis credential_sent_def fst_conv snd_conv)
  qed
qed

lemma payload_keys_sent:
  assumes "collected p token S T d"
  shows "payload_keys d =
    concat (map (\<lambda>r. server_keys (sr_node_id r)) (concat (map (server_of T) (node_order T)))) @
    map credential_key (sort_key cr_label (credential_rows T))"
proof -
  have "map (\<lambda>s. map fst (server_fields s)) (sd_servers d) =
      map (\<lambda>r. server_keys (sr_node_id r)) (concat (map (server_of T) (node_order T)))"
  proof (rule list_all2_map_cong [where R = "server_sent p token S"])
    fix r s assume "server_sent p token S r s"
    then have "sr_node_id (sync_server_row s) = sr_node_id r" by (simp add: server_sent_def sent_server_row_def)
    then show "map fst (server_fields s) = server_keys (sr_node_id r)"
      by (simp add: server_fields_def server_keys_def sync_server_row_def)
  qed (use assms in \<open>simp add: collected_def\<close>)
  moreover have "map (\<lambda>c. fst (credential_field c)) (sd_onekey_credentials d) =
      map credential_key (sort_key cr_label (credential_rows T))"
    by (rule list_all2_map_cong [where R = "credential_sent p token S"])
      (use assms in \<open>auto simp: collected_def credential_sent_def credential_field_def credential_key_def\<close>)
  ultimately show ?thesis by (simp add: payload_keys_def secret_fields_def map_concat o_def)
qed

lemma distinct_server_keys:
  "distinct ns \<Longrightarrow> distinct (concat (map server_keys ns))"
  by (induction ns) (auto simp: server_keys_def)

lemma distinct_payload_keys:
  assumes sent: "collected p token S T d" and ok: "tables_ok T" and servers: "servers_ok T"
  shows "distinct (payload_keys d)" and "set (payload_keys d) = sent_keys T"
proof -
  let ?ss = "concat (map (server_of T) (node_order T))"
  have set: "set ?ss = set (server_rows T)" using mset_eq_setD [OF sent_servers(1) [OF ok servers]] .
  show "set (payload_keys d) = sent_keys T"
    unfolding payload_keys_sent [OF sent] sent_keys_def using set by simp
  have "distinct (concat (map server_keys (map sr_node_id ?ss)))"
    by (rule distinct_server_keys [OF sent_servers(2) [OF ok servers]])
  moreover have "distinct (map credential_key (sort_key cr_label (credential_rows T)))"
  proof -
    have "distinct (map cr_id (credential_rows T))"
      using ok by (simp add: tables_ok_def keys_ok_def credential_ids_def)
    then have "inj_on credential_key (set (credential_rows T)) \<and> distinct (credential_rows T)"
      by (auto simp: distinct_map inj_on_def credential_key_def)
    then show ?thesis by (simp add: distinct_map)
  qed
  moreover have "set (concat (map server_keys (map sr_node_id ?ss))) \<inter>
      set (map credential_key (sort_key cr_label (credential_rows T))) = {}"
  proof -
    have "sr_node_id r \<noteq> cr_id c" if "r \<in> set (server_rows T)" "c \<in> set (credential_rows T)" for r c
    proof -
      have "sr_node_id r \<in> set (node_ids T)" using ok that by (simp add: tables_ok_def references_ok_def)
      moreover have "cr_id c \<in> set (credential_ids T)" using that by (simp add: credential_ids_def)
      ultimately show ?thesis using servers by (auto simp: servers_ok_def)
    qed
    then have other: "\<And>r c. r \<in> set (server_rows T) \<Longrightarrow> c \<in> set (credential_rows T) \<Longrightarrow> cr_id c \<noteq> sr_node_id r"
      by metis
    show ?thesis using set by (auto simp: server_keys_def credential_key_def dest: other)
  qed
  ultimately show "distinct (payload_keys d)" unfolding payload_keys_sent [OF sent] by (simp add: o_def)
qed

lemma payload_secret_sent:
  assumes laws: "crypto_laws (sp_crypto p)" and nonces: "\<And>n k. length (sp_nonce p n k) = 12"
    and sent: "collected p token S T d" and ok: "tables_ok T" and servers: "servers_ok T"
    and x: "x \<in> sent_keys T"
  shows "payload_secret (sp_crypto p) token d x = Some (nonempty (S x))"
proof -
  note keys = distinct_payload_keys [OF sent ok servers]
  have "x \<in> fst ` set (secret_fields d)" using x keys(2) by (simp add: payload_keys_def)
  then obtain e where e: "(x, e) \<in> set (secret_fields d)" by force
  then have "map_of (secret_fields d) x = Some e" using keys(1) by (simp add: payload_keys_def)
  then show ?thesis
    using sent_secret_decrypts [OF laws nonces secret_fields_sent [OF sent e]]
    by (auto simp: payload_secret_def split: option.splits)
qed

text \<open>A secret the payload names is not an orphan.\<close>

lemma sent_not_orphan:
  assumes sent: "collected p token S T d" and ok: "tables_ok T" and x: "x \<in> sent_keys T"
  shows "x \<notin> set (orphan_keys d ids)"
proof -
  have "fst x \<in> set (map node_id (sd_nodes d)) \<union> set (map so_id (sd_onekey_credentials d))"
    using x unfolding sent_keys_def
  proof
    assume "x \<in> (\<Union>r \<in> set (server_rows T). set (server_keys (sr_node_id r)))"
    then obtain r where "r \<in> set (server_rows T)" "fst x = sr_node_id r" by (auto simp: server_keys_def)
    then have "fst x \<in> set (node_ids T)" using ok by (simp add: tables_ok_def references_ok_def)
    then show ?thesis using sent by (simp add: collected_def node_ids_def)
  next
    assume "x \<in> credential_key ` set (credential_rows T)"
    then obtain c where c: "c \<in> set (credential_rows T)" "fst x = cr_id c" by (auto simp: credential_key_def)
    have "map so_id (sd_onekey_credentials d) = map cr_id (sort_key cr_label (credential_rows T))"
      by (rule list_all2_map_cong [where R = "credential_sent p token S"])
        (use sent in \<open>auto simp: collected_def credential_sent_def\<close>)
    then have "set (map so_id (sd_onekey_credentials d)) = cr_id ` set (credential_rows T)" by (metis list.set_map set_sort)
    then show ?thesis using c by auto
  qed
  then show ?thesis by (auto simp: orphan_keys_def)
qed

section \<open>Both together\<close>

text \<open>
  The second device has its own provider: \<open>q\<close> shares the encryption with \<open>p\<close> and reads what
  \<open>p\<close> writes.
\<close>

definition same_format :: "('j, 'm) ssh_provider \<Rightarrow> ('j, 'n) ssh_provider \<Rightarrow> bool" where
  "same_format p q \<longleftrightarrow> sp_crypto q = sp_crypto p \<and> crypto_laws (sp_crypto p) \<and>
    (\<forall>n k. length (sp_nonce p n k) = 12) \<and>
    (\<forall>d v. sp_to_value p d = Inr v \<longrightarrow> sp_from_value q v = Inr d)"

context reliable_secrets begin

lemma transported:
  assumes p: "sp_store p = store" and q: "sp_store q = store" and fmt: "same_format p q"
    and a: "tree_ok (ssh a)" "servers_ok (ssh a)" and b: "tables_ok (ssh b)"
    and send: "ssh_collect_data p token a = (Inr v, a')"
    and receive: "ssh_apply_data q token v b = (Inr out, b')"
  shows "arrived (sp_now q) (ssh a) (ssh b')"
    and "reliable (sync_db.more b) \<Longrightarrow> x \<in> sent_keys (ssh a) \<Longrightarrow>
      secrets (sync_db.more b') x = nonempty (secrets (sync_db.more a) x)"
proof -
  have laws: "crypto_laws (sp_crypto p)" "sp_crypto q = sp_crypto p" "\<And>n k. length (sp_nonce p n k) = 12"
    using fmt by (simp_all add: same_format_def)
  have aok: "tables_ok (ssh a)" using a(1) by (simp add: tree_ok_def)
  obtain d ms where d: "sp_to_value p d = Inr v" "collected p token (secrets (sync_db.more a)) (ssh a) d"
    by (rule collect_result [OF p send])
  have parsed: "sp_from_value q v = Inr d" using fmt d(1) by (simp add: same_format_def)
  note keys = distinct_payload_keys [OF d(2) aok a(2)]
  note received = apply_succeeds [OF q receive b]
  show "arrived (sp_now q) (ssh a) (ssh b')"
  proof (rule received)
    fix d' ms'
    assume "sp_from_value q v = Inr d'" "ssh b' = rebuilt (sp_now q) d' (ssh b)"
    then show ?thesis using tables_arrive [OF d(2) a] parsed by simp
  qed
  show "secrets (sync_db.more b') x = nonempty (secrets (sync_db.more a) x)"
    if rel: "reliable (sync_db.more b)" and x: "x \<in> sent_keys (ssh a)"
  proof (rule received)
    fix d' ms'
    assume d': "sp_from_value q v = Inr d'"
      and s: "reliable (sync_db.more b) \<Longrightarrow> distinct (payload_keys d') \<Longrightarrow>
        secrets (sync_db.more b') x =
        (if x \<in> set (orphan_keys d' (node_ids (ssh b) @ credential_ids (ssh b))) then None
         else (case payload_secret (sp_crypto q) token d' x of
             None \<Rightarrow> secrets (sync_db.more b) x | Some s \<Rightarrow> s))"
    have "d' = d" using d' parsed by simp
    then show ?thesis
      using s rel keys(1) sent_not_orphan [OF d(2) aok x] payload_secret_sent [OF laws(1,3) d(2) aok a(2) x] laws(2)
      by simp
  qed
qed

end

end
