(* ===== verification/Ssh_Display.thy ===== *)
theory Ssh_Display imports Ssh_Forest Ssh_Provider begin

text \<open>
  The order of the panel's rows: on a forest every node stands behind its parent, so that a
  row can be indented below the one it belongs to.
\<close>

section \<open>Parents before children\<close>

definition placed_under :: "string set \<Rightarrow> ssh_node \<Rightarrow> bool" where
  "placed_under placed n \<longleftrightarrow> (case n_parent_id n of None \<Rightarrow> True | Some p \<Rightarrow> p \<in> placed)"

definition listed :: "string set \<Rightarrow> ssh_node list \<Rightarrow> bool" where
  "listed placed ns \<longleftrightarrow> parents_first placed (map sync_node_of ns)"

lemma listed_Nil [simp]: "listed placed []"
  by (simp add: listed_def)

lemma listed_Cons [simp]: "listed placed (n # ns) \<longleftrightarrow> placed_under placed n \<and> listed (insert (n_id n) placed) ns"
  by (simp add: listed_def placed_under_def sync_node_of_def)

lemma listed_append: "listed placed (xs @ ys) \<longleftrightarrow> listed placed xs \<and> listed (placed \<union> n_id ` set xs) ys"
  by (induction xs arbitrary: placed) auto

lemma placed_under_mono: "placed_under A n \<Longrightarrow> A \<subseteq> B \<Longrightarrow> placed_under B n"
  by (auto simp: placed_under_def split: option.splits)

lemma walk_listed:
  "walk nodes cs seen = (out, seen') \<Longrightarrow> (\<forall>c \<in> set cs. placed_under seen c) \<Longrightarrow> listed seen out"
proof (induction nodes cs seen arbitrary: out seen' rule: walk.induct)
  case (2 nodes c cs seen)
  show ?case
  proof (cases "n_id c \<in> seen")
    case True
    then show ?thesis using 2(1) [OF True, of out seen'] 2(4,5) by auto
  next
    case False
    obtain o1 s1 where w1: "walk nodes (shown_children nodes (Some (n_id c))) (insert (n_id c) seen) = (o1, s1)"
      by fastforce
    obtain o2 s2 where w2: "walk nodes cs s1 = (o2, s2)" by fastforce
    have out: "out = c # o1 @ o2" using 2(4) False w1 w2 by auto
    have s1: "s1 = insert (n_id c) seen \<union> n_id ` set o1" using walk_out [OF w1] by blast
    have "listed (insert (n_id c) seen) o1"
      by (rule 2(2) [OF False w1]) (auto simp: shown_children_def placed_under_def)
    moreover have "listed s1 o2"
      by (rule 2(3) [OF False w1 [symmetric] w2]) (use 2(5) s1 in \<open>auto elim: placed_under_mono\<close>)
    ultimately show ?thesis unfolding out using 2(5) s1 by (simp add: listed_append)
  qed
qed simp

text \<open>The children of what has been shown have been shown.\<close>

lemma walk_closed:
  "walk nodes cs seen = (out, seen') \<Longrightarrow> n \<in> set nodes \<Longrightarrow> n_parent_id n = Some p \<Longrightarrow>
   p \<in> seen' \<Longrightarrow> p \<notin> seen \<Longrightarrow> n_id n \<in> seen'"
proof (induction nodes cs seen arbitrary: out seen' rule: walk.induct)
  case (2 nodes c cs seen)
  show ?case
  proof (cases "n_id c \<in> seen")
    case True
    then show ?thesis using 2(1) [OF True, of out seen'] 2(4-) by auto
  next
    case False
    obtain o1 s1 where w1: "walk nodes (shown_children nodes (Some (n_id c))) (insert (n_id c) seen) = (o1, s1)"
      by fastforce
    obtain o2 s2 where w2: "walk nodes cs s1 = (o2, s2)" by fastforce
    have s2: "seen' = s2" using 2(4) False w1 w2 by auto
    have mono: "s1 \<subseteq> s2" using walk_out [OF w2] by blast
    consider "p = n_id c" | "p \<in> s1" "p \<notin> insert (n_id c) seen" | "p \<in> s2" "p \<notin> s1"
      using 2(7,8) s2 by auto
    then show ?thesis
    proof cases
      case 1
      then have "n \<in> set (shown_children nodes (Some (n_id c)))" using 2(5,6) by (simp add: shown_children_def)
      then have "n_id n \<in> s1" using walk_out [OF w1] by blast
      then show ?thesis using mono s2 by blast
    next
      case 2
      then show ?thesis using "2.IH"(2) [OF False w1 "2.prems"(2,3)] mono s2 by blast
    next
      case 3
      then show ?thesis using 2(3) [OF False w1 [symmetric] w2 2(5,6)] s2 by blast
    qed
  qed
qed simp

lemma walk_keys_listed:
  "walk_keys nodes ks seen = (out, seen') \<Longrightarrow>
   (\<forall>k \<in> set ks. \<forall>c \<in> set (shown_children nodes k). placed_under seen c) \<Longrightarrow> listed seen out"
proof (induction nodes ks seen arbitrary: out seen' rule: walk_keys.induct)
  case (2 nodes k ks seen)
  obtain o1 s1 where w1: "walk nodes (shown_children nodes k) seen = (o1, s1)" by fastforce
  obtain o2 s2 where w2: "walk_keys nodes ks s1 = (o2, s2)" by fastforce
  have out: "out = o1 @ o2" using 2(2) w1 w2 by auto
  have s1: "s1 = seen \<union> n_id ` set o1" using walk_out [OF w1] by blast
  have "listed seen o1" by (rule walk_listed [OF w1]) (use 2(3) in simp)
  moreover have "listed s1 o2"
    by (rule 2(1) [OF w1 [symmetric] w2]) (use 2(3) s1 placed_under_mono in fastforce)
  ultimately show ?case unfolding out using s1 by (simp add: listed_append)
qed simp

lemma walk_keys_closed:
  "walk_keys nodes ks seen = (out, seen') \<Longrightarrow> n \<in> set nodes \<Longrightarrow> n_parent_id n = Some p \<Longrightarrow>
   p \<in> seen' \<Longrightarrow> p \<notin> seen \<Longrightarrow> n_id n \<in> seen'"
proof (induction nodes ks seen arbitrary: out seen' rule: walk_keys.induct)
  case (2 nodes k ks seen)
  obtain o1 s1 where w1: "walk nodes (shown_children nodes k) seen = (o1, s1)" by fastforce
  obtain o2 s2 where w2: "walk_keys nodes ks s1 = (o2, s2)" by fastforce
  have s2: "seen' = s2" using 2(2) w1 w2 by auto
  have mono: "s1 \<subseteq> s2" using walk_keys_out [OF w2] by blast
  show ?case
  proof (cases "p \<in> s1")
    case True
    then show ?thesis using walk_closed [OF w1 2(3,4) True] 2(6) mono s2 by blast
  next
    case False
    then show ?thesis using 2(1) [OF w1 [symmetric] w2 2(3,4)] 2(5) s2 by blast
  qed
qed simp

section \<open>The list of a forest\<close>

definition node_parents :: "ssh_node list \<Rightarrow> string \<Rightarrow> string option option" where
  "node_parents nodes = map_of (map (\<lambda>n. (n_id n, n_parent_id n)) nodes)"

lemma node_parents_member:
  "distinct (map n_id nodes) \<Longrightarrow> n \<in> set nodes \<Longrightarrow> node_parents nodes (n_id n) = Some (n_parent_id n)"
  unfolding node_parents_def by (rule map_of_is_SomeI) (auto simp: o_def)

lemma sort_for_display_listed:
  assumes dist: "distinct (map n_id nodes)"
    and tree: "\<And>n. n \<in> set nodes \<Longrightarrow> grounded (node_parents nodes) (n_id n)"
  shows "listed {} (sort_for_display nodes)"
proof -
  let ?keys = "parent_keys nodes"
  let ?roots = "filter (\<lambda>k. case k of None \<Rightarrow> True | Some i \<Rightarrow> i \<notin> n_id ` set nodes) ?keys"
  obtain o1 s1 where w1: "walk_keys nodes ?roots {} = (o1, s1)" by fastforce
  obtain o2 s2 where w2: "walk_keys nodes ?keys s1 = (o2, s2)" by fastforce
  have out: "sort_for_display nodes = o1 @ o2" using w1 w2 by (simp add: sort_for_display_def Let_def)
  have dom: "dom (node_parents nodes) = n_id ` set nodes"
    by (simp add: node_parents_def dom_map_of_conv_image_fst image_image)
  have parent: "p \<in> n_id ` set nodes" if n: "n \<in> set nodes" "n_parent_id n = Some p" for n p
    using tree [OF n(1)] node_parents_member [OF dist n(1)] n(2) grounded_dom [of "node_parents nodes" p]
    by (auto simp: dom elim: groundedE)
  have roots: "n_parent_id c = None" if "k \<in> set ?roots" "c \<in> set (shown_children nodes k)" for k c
  proof -
    have k: "k = None \<or> (\<exists>i. k = Some i \<and> i \<notin> n_id ` set nodes)"
      using that(1) unfolding set_filter by (cases k) auto
    have "c \<in> set nodes" "n_parent_id c = k" using that(2) by (simp_all add: shown_children_def)
    then show ?thesis using k parent by auto
  qed
  have shown: "\<forall>n \<in> set nodes. n_id n = i \<longrightarrow> i \<in> s1" if "grounded (node_parents nodes) i" for i
    using that
  proof (induction rule: grounded.induct)
    case (root i)
    show ?case
    proof (intro ballI impI)
      fix n assume n: "n \<in> set nodes" "n_id n = i"
      have top: "n_parent_id n = None" using root node_parents_member [OF dist n(1)] n(2) by simp
      have "None \<in> n_parent_id ` set nodes" using n(1) top by (metis image_eqI)
      then have key: "None \<in> set ?roots" by (simp add: parent_keys_def)
      have "\<forall>k \<in> set ?roots. n_id ` set (shown_children nodes k) \<subseteq> s1"
        using walk_keys_out [OF w1] by (elim conjE)
      from bspec [OF this key] have "n_id ` set (shown_children nodes None) \<subseteq> s1" .
      then show "i \<in> s1" using n top by (auto simp: shown_children_def)
    qed
  next
    case (child i p)
    show ?case
    proof (intro ballI impI)
      fix n assume n: "n \<in> set nodes" "n_id n = i"
      have p: "n_parent_id n = Some p" using child(1) node_parents_member [OF dist n(1)] n(2) by simp
      then have "p \<in> s1" using child.IH parent [OF n(1)] by auto
      then show "i \<in> s1" using walk_keys_closed [OF w1 n(1) p] n(2) by simp
    qed
  qed
  have "set o2 \<subseteq> set nodes" "n_id ` set o2 \<inter> s1 = {}" using walk_keys_out [OF w2] by blast+
  then have "o2 = []" using shown tree by (cases o2) auto
  moreover have "listed {} o1"
    by (rule walk_keys_listed [OF w1]) (use roots in \<open>auto simp: placed_under_def\<close>)
  ultimately show ?thesis using out by simp
qed

end
