(* ===== verification/Ssh_Routes.thy ===== *)
theory Ssh_Routes imports Ssh_Collect begin

text \<open>
  Routes (\<open>warp_ssh_manager/src/repository.rs\<close>): what \<open>create_route\<close> and \<open>update_route\<close> store is
  what \<open>get_route\<close> reads, and a failed update leaves the route as it was.
\<close>

section \<open>Hops to rows and back\<close>

lemma hops_from_inserted:
  "hops_from_rows route k (map (\<lambda>(i, h). hop_row route i h) (enumerate k hops)) = Inr hops"
proof (induction hops arbitrary: k)
  case (Cons h hops)
  have "map_option word_of_int (map_option uint (hop_port h)) = hop_port h" by (cases "hop_port h") simp_all
  then show ?case using Cons by (simp add: hop_row_def)
qed simp

lemma inserted_sorted: "sort_key hr_position (route_hop_inserts route hops) = route_hop_inserts route hops"
proof (rule sort_key_id_if_sorted)
  have "map (hr_position \<circ> (\<lambda>(i, h). hop_row route i h)) (enumerate k hops) = map int [k ..< k + length hops]" for k
    by (induction hops arbitrary: k) (simp_all add: hop_row_def upt_rec)
  then have "map hr_position (route_hop_inserts route hops) = map int [0 ..< length hops]"
    by (simp add: route_hop_inserts_def)
  then show "sorted (map hr_position (route_hop_inserts route hops))"
    by (simp add: sorted_iff_nth_mono)
qed

lemma inserted_route: "h \<in> set (route_hop_inserts route hops) \<Longrightarrow> hr_route_id h = route"
  by (auto simp: route_hop_inserts_def hop_row_def)

lemma filter_inserted [simp]:
  "filter (\<lambda>h. hr_route_id h = route) (route_hop_inserts route hops) = route_hop_inserts route hops"
  by (rule filter_True) (auto dest: inserted_route)

lemma filter_inserted_other:
  "other \<noteq> route \<Longrightarrow> filter (\<lambda>h. hr_route_id h = other) (route_hop_inserts route hops) = []"
  by (rule filter_False) (auto dest: inserted_route)

text \<open>A table whose hops of the route are the inserted ones reads back the hops.\<close>

lemma read_inserted:
  assumes "filter (\<lambda>h. hr_route_id h = rr_id r) (hop_rows T) = route_hop_inserts (rr_id r) hops"
    and "route_read T r x"
  shows "x = \<lparr>route_id = rr_id r, route_name = rr_name r, route_target_node_id = rr_target_node_id r,
    route_hops = hops, route_created_at = rr_created_at r, route_updated_at = rr_updated_at r,
    route_last_connected_at = rr_last_connected_at r\<rparr>"
proof -
  have "hops_of T (rr_id r) = route_hop_inserts (rr_id r) hops"
    by (simp add: hops_of_def assms(1) inserted_sorted)
  then have "route_hops x = hops"
    using assms(2) hops_from_inserted [of "rr_id r" 0 hops] by (simp add: route_read_def route_hop_inserts_def)
  then show ?thesis using assms(2) by (metis route_read_def)
qed

lemma reads_get_route:
  "reads (get_route k) (\<lambda>T x. case find (\<lambda>r. rr_id r = k) (route_rows T) of
     None \<Rightarrow> x = None | Some r \<Rightarrow> \<exists>y. x = Some y \<and> route_read T r y)"
proof -
  have "reads (\<lambda>db. attempt (map_err Db (select (\<lambda>T. find (\<lambda>r. rr_id r = k) (route_rows T)) db)) (\<lambda>row db1.
      (case row of
        None \<Rightarrow> (Inr None, db1)
      | Some r \<Rightarrow> attempt (route_from_row r db1) (\<lambda>x db2. (Inr (Some x), db2)))))
    (\<lambda>T x. case find (\<lambda>r. rr_id r = k) (route_rows T) of
     None \<Rightarrow> x = None | Some r \<Rightarrow> \<exists>y. x = Some y \<and> route_read T r y)"
  proof (rule reads_attempt [OF reads_map_err [OF reads_select]])
    fix T :: ssh_tables and row :: "ssh_route_row option"
    assume row: "row = find (\<lambda>r. rr_id r = k) (route_rows T)"
    let ?Q = "\<lambda>T' x. T' = T \<longrightarrow> (case find (\<lambda>r. rr_id r = k) (route_rows T) of
        None \<Rightarrow> x = None | Some r \<Rightarrow> \<exists>y. x = Some y \<and> route_read T r y)"
    show "reads (\<lambda>db1. case row of None \<Rightarrow> (Inr None, db1)
        | Some r \<Rightarrow> attempt (route_from_row r db1) (\<lambda>x db2. (Inr (Some x), db2))) ?Q"
    proof (cases row)
      case None
      then show ?thesis using row by (simp add: reads_def same_tables_iff)
    next
      case (Some r)
      have "reads (\<lambda>db1. attempt (route_from_row r db1) (\<lambda>x db2. (Inr (Some x), db2))) ?Q"
        by (rule reads_attempt [OF reads_route_from_row], rule reads_return) (use Some row in \<open>auto split: option.split\<close>)
      then show ?thesis using Some by simp
    qed
  qed
  then show ?thesis unfolding get_route_def [abs_def] .
qed

lemma get_route_reads:
  assumes run: "get_route k db = (Inr x, db')" and row: "r \<in> set (route_rows (ssh db))" "rr_id r = k"
    and ok: "tables_ok (ssh db)"
    and hops: "filter (\<lambda>h. hr_route_id h = k) (hop_rows (ssh db)) = route_hop_inserts k hops"
  shows "x = Some \<lparr>route_id = k, route_name = rr_name r, route_target_node_id = rr_target_node_id r,
    route_hops = hops, route_created_at = rr_created_at r, route_updated_at = rr_updated_at r,
    route_last_connected_at = rr_last_connected_at r\<rparr>"
proof -
  obtain y where y: "find (\<lambda>r. rr_id r = k) (route_rows (ssh db)) = Some y"
    using row by (cases "find (\<lambda>r. rr_id r = k) (route_rows (ssh db))") (auto simp: find_None_iff)
  then have "y \<in> set (route_rows (ssh db))" "rr_id y = k" by (auto simp: find_Some_iff)
  moreover have "distinct (map rr_id (route_rows (ssh db)))"
    using ok by (simp add: tables_ok_def keys_ok_def route_ids_def)
  ultimately have "y = r" using row by (auto simp: distinct_map dest: inj_onD)
  then obtain z where z: "x = Some z" "route_read (ssh db) r z"
    using readsD(2) [OF reads_get_route run refl] y by auto
  show ?thesis
    using read_inserted [OF hops [folded row(2)] z(2)] z(1) row(2) by simp
qed

section \<open>Creating\<close>

lemma create_route_result:
  assumes run: "create_route k now name target hops db = (Inr x, db')" and ok: "tables_ok (ssh db)"
  shows "x = \<lparr>route_id = k, route_name = name, route_target_node_id = target, route_hops = hops,
    route_created_at = now, route_updated_at = now, route_last_connected_at = None\<rparr>"
    and "validate_route name hops = Inr ()"
proof -
  let ?row = "\<lparr>rr_id = k, rr_name = name, rr_target_node_id = target, rr_created_at = now,
      rr_updated_at = now, rr_last_connected_at = None\<rparr>"
  let ?t = "transaction (\<lambda>e. e) (\<lambda>conn. attempt (modify (insert_route ?row) conn) (\<lambda>_ conn1.
      attempt (modify (insert_hops (route_hop_inserts k hops)) conn1) (\<lambda>_ conn2. (Inr (), conn2))))"
  show valid: "validate_route name hops = Inr ()"
    using run by (cases "validate_route name hops") (auto simp: create_route_def)
  obtain db1 db2 where t: "?t db = (Inr (), db1)"
    and get: "get_route k (ignore_bump db1) = (Inr (Some x), db2)"
    using run valid by (auto simp: create_route_def attempt_eq_Inr split: option.splits)
  have T: "ssh db1 = (ssh db)\<lparr>route_rows := route_rows (ssh db) @ [?row],
      hop_rows := hop_rows (ssh db) @ route_hop_inserts k hops\<rparr>" and ok1: "tables_ok (ssh db1)"
    using modify_modify_transaction(2) [OF t refl] by (auto simp: insert_route_def insert_hops_def)
  have new: "k \<notin> set (route_ids (ssh db))"
    using ok1 by (simp add: T tables_ok_def keys_ok_def route_ids_def)
  have "filter (\<lambda>h. hr_route_id h = k) (hop_rows (ssh db)) = []"
    using ok new by (auto simp: tables_ok_def references_ok_def intro!: filter_False)
  then have hops: "filter (\<lambda>h. hr_route_id h = k) (hop_rows (ssh db1)) = route_hop_inserts k hops"
    by (simp add: T)
  have "?row \<in> set (route_rows (ssh (ignore_bump db1)))" by (simp add: ignore_bump_tables T)
  from get_route_reads [OF get this _ _ _] show "x = \<lparr>route_id = k, route_name = name,
      route_target_node_id = target, route_hops = hops,
      route_created_at = now, route_updated_at = now, route_last_connected_at = None\<rparr>"
    using ok1 hops by (simp add: ignore_bump_tables)
qed

section \<open>Updating\<close>

definition updated_route :: "int \<Rightarrow> string \<Rightarrow> string option \<Rightarrow> ssh_route_row \<Rightarrow> ssh_route_row" where
  "updated_route now name target r = r\<lparr>rr_name := name, rr_target_node_id := target, rr_updated_at := now\<rparr>"

lemma update_route_result:
  assumes run: "update_route now k name target hops db = (r, db')"
  shows "r = Inl e \<Longrightarrow> ssh db' = ssh db"
    and "r = Inr () \<Longrightarrow> k \<in> set (route_ids (ssh db)) \<and> tables_ok (ssh db') \<and>
      ssh db' = (ssh db)\<lparr>
        route_rows := map (\<lambda>x. if rr_id x = k then updated_route now name target x else x) (route_rows (ssh db)),
        hop_rows := filter (\<lambda>h. hr_route_id h \<noteq> k) (hop_rows (ssh db)) @ route_hop_inserts k hops\<rparr>"
proof -
  let ?upd = "update_routes (\<lambda>r. rr_id r = k) (\<lambda>r. r\<lparr>rr_name := name, rr_target_node_id := target, rr_updated_at := now\<rparr>)"
  let ?body = "\<lambda>conn. attempt (affecting k (modify ?upd conn)) (\<lambda>_ conn1.
          attempt (map_err Db (modify (removing (\<lambda>T. length (filter (\<lambda>h. hr_route_id h = k) (hop_rows T)))
            (delete_hops (\<lambda>h. hr_route_id h = k))) conn1)) (\<lambda>_ conn2.
          attempt (map_err Db (modify (insert_hops (route_hop_inserts k hops)) conn2)) (\<lambda>_ conn3.
            (Inr (), conn3))))"
  let ?G = "\<lambda>T (x :: unit) T'. k \<in> set (route_ids T) \<and> tables_ok T' \<and> T' = T\<lparr>
        route_rows := map (\<lambda>x. if rr_id x = k then updated_route now name target x else x) (route_rows T),
        hop_rows := filter (\<lambda>h. hr_route_id h \<noteq> k) (hop_rows T) @ route_hop_inserts k hops\<rparr>"
  have more: "sync_db.more b = sync_db.more a" if "?body a = (y, b)" for y and a b :: "'a sync_db_scheme"
  proof -
    have "only_ssh a (snd (?body a))" by (intro only_ssh_intros) simp
    then show ?thesis using that by (simp add: only_ssh_def same_rest_def)
  qed
  have good: "?G (ssh a) x (ssh b)" if body: "?body a = (Inr x, b)" for x and a b :: "'a sync_db_scheme"
  proof -
    obtain c d n m where 1: "affecting k (modify ?upd a) = (Inr (), c)"
      and 2: "modify (removing (\<lambda>T. length (filter (\<lambda>h. hr_route_id h = k) (hop_rows T)))
        (delete_hops (\<lambda>h. hr_route_id h = k))) c = (Inr n, d)"
      and 3: "modify (insert_hops (route_hop_inserts k hops)) d = (Inr m, b)"
      using body by (auto simp: attempt_eq_Inr)
    have c: "ssh c = snd (?upd (ssh a)) \<and> fst (?upd (ssh a)) \<noteq> 0"
      using 1 by (cases rule: affecting_modify_cases [of k ?upd a]) auto
    then have "k \<in> set (route_ids (ssh a))"
      by (auto simp: update_routes_def route_ids_def filter_empty_conv)
    moreover have "ssh b = (ssh a)\<lparr>
        route_rows := map (\<lambda>x. if rr_id x = k then updated_route now name target x else x) (route_rows (ssh a)),
        hop_rows := filter (\<lambda>h. hr_route_id h \<noteq> k) (hop_rows (ssh a)) @ route_hop_inserts k hops\<rparr>"
      using c modify_Inr(1) [OF 2] modify_Inr(1) [OF 3]
      by (simp add: update_routes_def removing_def delete_hops_def insert_hops_def updated_route_def)
    ultimately show ?thesis using modify_Inr(2) [OF 3] by blast
  qed
  show "r = Inl e \<Longrightarrow> ssh db' = ssh db"
  proof (cases "validate_route name hops")
    case (Inr u)
    assume bad: "r = Inl e"
    obtain y db1 where t: "transaction Db ?body db = (y, db1)" by fastforce
    have y: "y = Inl e" "db' = db1" using run Inr t bad by (cases y; auto simp: update_route_def bumping_def)+
    have "same_tables db db1"
      by (rule transaction_ssh(1) [OF t _ _ y(1), where G = ?G]) (rule more good, assumption)+
    then show ?thesis using y(2) by (simp add: same_tables_iff)
  qed (use run in \<open>auto simp: update_route_def\<close>)
  show "?G (ssh db) () (ssh db')" if fine: "r = Inr ()"
  proof -
    obtain u where valid: "validate_route name hops = Inr u"
      using run fine by (cases "validate_route name hops") (auto simp: update_route_def)
    obtain db1 where t: "transaction Db ?body db = (Inr (), db1)" and db': "db' = ignore_bump db1"
      using run valid fine by (auto simp: update_route_def bumping_def attempt_eq_Inr)
    show ?thesis
      unfolding db' ignore_bump_tables(1)
      by (rule transaction_ssh(2) [OF t _ _ refl, where G = ?G]) (rule more good, assumption)+
  qed
qed


lemma update_route_reads:
  assumes run: "update_route now k name target hops db = (Inr (), db')"
  obtains old where "old \<in> set (route_rows (ssh db))" "rr_id old = k"
    "\<And>y db2. get_route k db' = (Inr y, db2) \<Longrightarrow> y = Some
      \<lparr>route_id = k, route_name = name, route_target_node_id = target, route_hops = hops,
       route_created_at = rr_created_at old, route_updated_at = now,
       route_last_connected_at = rr_last_connected_at old\<rparr>"
    "\<And>row. row \<in> set (route_rows (ssh db)) \<Longrightarrow> rr_id row \<noteq> k \<Longrightarrow>
      row \<in> set (route_rows (ssh db')) \<and> hops_of (ssh db') (rr_id row) = hops_of (ssh db) (rr_id row)"
proof -
  have k: "k \<in> set (route_ids (ssh db))" and ok: "tables_ok (ssh db')"
    and T: "ssh db' = (ssh db)\<lparr>
        route_rows := map (\<lambda>x. if rr_id x = k then updated_route now name target x else x) (route_rows (ssh db)),
        hop_rows := filter (\<lambda>h. hr_route_id h \<noteq> k) (hop_rows (ssh db)) @ route_hop_inserts k hops\<rparr>"
    using update_route_result(2) [OF run refl] by blast+
  obtain old where old: "old \<in> set (route_rows (ssh db))" "rr_id old = k"
    using k by (auto simp: route_ids_def)
  show thesis
  proof (rule that [OF old])
    let ?new = "updated_route now name target old"
    have new: "?new \<in> set (route_rows (ssh db'))" "rr_id ?new = k"
      using old by (force simp: T, simp add: updated_route_def)
    have hops: "filter (\<lambda>h. hr_route_id h = k) (hop_rows (ssh db')) = route_hop_inserts k hops"
      by (simp add: T)
    show "y = Some \<lparr>route_id = k, route_name = name, route_target_node_id = target, route_hops = hops,
       route_created_at = rr_created_at old, route_updated_at = now,
       route_last_connected_at = rr_last_connected_at old\<rparr>" if get: "get_route k db' = (Inr y, db2)" for y db2
      using get_route_reads [OF get new ok hops] by (simp add: updated_route_def)
    show "row \<in> set (route_rows (ssh db')) \<and> hops_of (ssh db') (rr_id row) = hops_of (ssh db) (rr_id row)"
      if row: "row \<in> set (route_rows (ssh db))" "rr_id row \<noteq> k" for row
    proof
      show "row \<in> set (route_rows (ssh db'))" using row by (force simp: T)
      have "filter (\<lambda>h. hr_route_id h = rr_id row) (filter (\<lambda>h. hr_route_id h \<noteq> k) H) =
          filter (\<lambda>h. hr_route_id h = rr_id row) H" for H
        unfolding filter_filter by (rule filter_cong) (use row(2) in auto)
      then have "filter (\<lambda>h. hr_route_id h = rr_id row) (hop_rows (ssh db')) =
          filter (\<lambda>h. hr_route_id h = rr_id row) (hop_rows (ssh db))"
        using row(2) by (simp add: T filter_inserted_other del: filter_filter)
      then show "hops_of (ssh db') (rr_id row) = hops_of (ssh db) (rr_id row)" by (simp only: hops_of_def)
    qed
  qed
qed

end
