(* ===== verification/Ssh_Properties.thy ===== *)
theory Ssh_Properties imports Sync_Properties Ssh_Transport Ssh_Display Ssh_Routes begin

text \<open>
  The properties of the SSH manager: its tree of nodes, its routes, its panel, and the
  transfer of everything it holds from one device to another.
\<close>

section \<open>A small world for the witnesses\<close>

definition sample_row :: "string \<Rightarrow> string option \<Rightarrow> string \<Rightarrow> ssh_node_row" where
  "sample_row i p kind = \<lparr>nr_id = i, nr_parent_id = p, nr_kind = kind, nr_name = i, nr_sort_order = 0,
    nr_created_at = 1, nr_updated_at = 1, nr_is_collapsed = kind = ''folder''\<rparr>"

definition sample_tables :: ssh_tables where
  "sample_tables =
    \<lparr>node_rows = [sample_row ''s'' (Some ''f'') ''server'', sample_row ''f'' None ''folder''],
     credential_rows = [\<lparr>cr_id = ''c'', cr_label = ''l'', cr_username = ''u'', cr_created_at = 1,
       cr_updated_at = 1, cr_kind = ''key'', cr_key_path = None\<rparr>],
     server_rows = [\<lparr>sr_node_id = ''s'', sr_host = ''h'', sr_port = 22, sr_username = ''u'',
       sr_auth_type = ''onekey'', sr_key_path = None, sr_startup_command = None, sr_notes = None,
       sr_last_connected_at = Some 5, sr_credential_id = Some ''c''\<rparr>],
     route_rows = [\<lparr>rr_id = ''r'', rr_name = ''way'', rr_target_node_id = Some ''s'', rr_created_at = 1,
       rr_updated_at = 1, rr_last_connected_at = None\<rparr>],
     hop_rows = [\<lparr>hr_route_id = ''r'', hr_position = 0, hr_node_id = Some ''s'', hr_target_alias = ''a'',
       hr_port = Some 22, hr_execution_scope = ''previous_hop''\<rparr>]\<rparr>"

definition ssh_db :: "string option list \<Rightarrow> ssh_tables \<Rightarrow> (string \<times> string \<Rightarrow> string option) \<Rightarrow>
  keychain sync_db_scheme" where
  "ssh_db results T secrets = sync_db.extend
    \<lparr>path_set = True, poisoned = False, connected = True, statements = results,
     sync_meta = [''sync_version'' \<mapsto> ''3''], memory_rows = [], ssh = T\<rparr>
    \<lparr>cells = secrets, keyring_calls = []\<rparr>"

lemma ssh_db_simps [simp]:
  "ssh (ssh_db results T s) = T" "sync_db.more (ssh_db results T s) = \<lparr>cells = s, keyring_calls = []\<rparr>"
  by (simp_all add: ssh_db_def sync_db.extend_def)

definition sample_ssh :: "(ssh_sync_data, keychain) ssh_provider" where
  "sample_ssh =
    \<lparr>sp_store = keychain_store, sp_crypto = sample_crypto, sp_chrono = sample_chrono,
     sp_nonce = (\<lambda>_ _. replicate 12 0), sp_memory_nonce = (\<lambda>_. replicate 12 0), sp_now = 9,
     sp_clock = (\<lambda>_. 0), sp_to_value = Inr, sp_from_value = Inr\<rparr>"

lemma sample_tables_ok: "tree_ok sample_tables"
proof -
  have "grounded (parents (node_rows sample_tables)) ''f''"
    by (rule grounded.root) (simp add: parents_def sample_tables_def sample_row_def)
  moreover from this have "grounded (parents (node_rows sample_tables)) ''s''"
    by (rule grounded.child [rotated]) (simp add: parents_def sample_tables_def sample_row_def)
  ultimately have "forest (node_rows sample_tables)"
    by (simp add: forest_def) (simp add: sample_tables_def sample_row_def)
  moreover have "tables_ok sample_tables"
    by (simp add: table_defs sample_tables_def sample_row_def points_into_def hop_key_def)
  ultimately show ?thesis by (simp add: tree_ok_def)
qed

lemma sample_servers_ok: "servers_ok sample_tables"
  by (simp add: servers_ok_def sample_tables_def sample_row_def node_ids_def credential_ids_def)

section \<open>The tree of nodes\<close>

text \<open>
  C16: \<open>delete_node\<close> either fails and changes none of the SSH tables, or removes the node with
  everything below it and nothing else: the servers of removed nodes go with them, routes and
  hops that point at a removed node lose that reference, and the credentials stay.
\<close>

theorem delete_removes_subtree:
  assumes "tables_ok (ssh db)" and "delete_node n db = (r, db')"
  shows "case r of
      Inl _ \<Rightarrow> ssh db' = ssh db
    | Inr _ \<Rightarrow> n \<in> set (node_ids (ssh db)) \<and> tables_ok (ssh db') \<and>
        ssh db' = without_nodes (below (node_rows (ssh db)) [n]) (ssh db)"
  using delete_node_result [OF assms] by (cases r) auto


lemma delete_removes_subtree_witness:
  "\<exists>db'. delete_node ''f'' (ssh_db [] sample_tables (\<lambda>_. None)) = (Inr (), db') \<and> node_rows (ssh db') = [] \<and>
    server_rows (ssh db') = [] \<and> map rr_target_node_id (route_rows (ssh db')) = [None]"
proof -
  let ?db = "ssh_db [] sample_tables (\<lambda>_. None)"
  have "case fst (delete_node ''f'' ?db) of Inl _ \<Rightarrow> False | Inr _ \<Rightarrow> True" by code_simp
  then obtain db' where run: "delete_node ''f'' ?db = (Inr (), db')"
    by (cases "delete_node ''f'' ?db") (auto split: sum.splits)
  have f: "below (node_rows sample_tables) [''f''] ''f''" by (rule below_gone) simp
  have "below (node_rows sample_tables) [''f''] (nr_id (sample_row ''s'' (Some ''f'') ''server''))"
    by (rule below_child [OF _ _ f]) (simp_all add: sample_tables_def sample_row_def)
  then have s: "below (node_rows sample_tables) [''f''] ''s''" by (simp add: sample_row_def)
  have "ssh db' = without_nodes (below (node_rows sample_tables) [''f'']) sample_tables"
    using delete_removes_subtree [OF _ run] sample_tables_ok by (simp add: tree_ok_def)
  then show ?thesis
    using run f s by (simp add: without_nodes_def unlinked_def) (simp add: sample_tables_def sample_row_def)
qed



section \<open>Routes\<close>

text \<open>
  C18: a route that \<open>create_route\<close> reports has the name, target and hops it was asked for, which
  are valid.  \<open>update_route\<close> either fails and leaves the SSH tables as they were, or it changed
  an existing route: reading it back gives the new name, target and hops with the creation
  time kept, and every other route reads as before.
\<close>

theorem routes_read_back:
  assumes "tables_ok (ssh db)"
  shows "(create_route k now name target hops db = (Inr x, db1) \<longrightarrow>
      x = \<lparr>route_id = k, route_name = name, route_target_node_id = target, route_hops = hops,
        route_created_at = now, route_updated_at = now, route_last_connected_at = None\<rparr> \<and>
      validate_route name hops = Inr ()) \<and>
    (update_route now k name target hops db = (r, db2) \<longrightarrow>
      (case r of
        Inl _ \<Rightarrow> ssh db2 = ssh db
      | Inr _ \<Rightarrow> \<exists>old \<in> set (route_rows (ssh db)). rr_id old = k \<and>
          (\<forall>y db3. get_route k db2 = (Inr y, db3) \<longrightarrow> y = Some
            \<lparr>route_id = k, route_name = name, route_target_node_id = target, route_hops = hops,
             route_created_at = rr_created_at old, route_updated_at = now,
             route_last_connected_at = rr_last_connected_at old\<rparr>) \<and>
          (\<forall>row \<in> set (route_rows (ssh db)). rr_id row \<noteq> k \<longrightarrow>
            row \<in> set (route_rows (ssh db2)) \<and>
            hops_of (ssh db2) (rr_id row) = hops_of (ssh db) (rr_id row))))"
proof (intro conjI impI)
  assume run: "create_route k now name target hops db = (Inr x, db1)"
  show "x = \<lparr>route_id = k, route_name = name, route_target_node_id = target, route_hops = hops,
        route_created_at = now, route_updated_at = now, route_last_connected_at = None\<rparr>"
    "validate_route name hops = Inr ()"
    by (rule create_route_result [OF run assms])+
next
  assume run: "update_route now k name target hops db = (r, db2)"
  show "case r of
        Inl _ \<Rightarrow> ssh db2 = ssh db
      | Inr _ \<Rightarrow> \<exists>old \<in> set (route_rows (ssh db)). rr_id old = k \<and>
          (\<forall>y db3. get_route k db2 = (Inr y, db3) \<longrightarrow> y = Some
            \<lparr>route_id = k, route_name = name, route_target_node_id = target, route_hops = hops,
             route_created_at = rr_created_at old, route_updated_at = now,
             route_last_connected_at = rr_last_connected_at old\<rparr>) \<and>
          (\<forall>row \<in> set (route_rows (ssh db)). rr_id row \<noteq> k \<longrightarrow>
            row \<in> set (route_rows (ssh db2)) \<and>
            hops_of (ssh db2) (rr_id row) = hops_of (ssh db) (rr_id row))"
  proof (cases r)
    case (Inl e)
    then show ?thesis using update_route_result(1) [OF run] by simp
  next
    case (Inr u)
    then have "update_route now k name target hops db = (Inr (), db2)" using run by simp
    then obtain old where "old \<in> set (route_rows (ssh db))" "rr_id old = k"
      "\<And>y db3. get_route k db2 = (Inr y, db3) \<Longrightarrow> y = Some
        \<lparr>route_id = k, route_name = name, route_target_node_id = target, route_hops = hops,
         route_created_at = rr_created_at old, route_updated_at = now,
         route_last_connected_at = rr_last_connected_at old\<rparr>"
      "\<And>row. row \<in> set (route_rows (ssh db)) \<Longrightarrow> rr_id row \<noteq> k \<Longrightarrow>
        row \<in> set (route_rows (ssh db2)) \<and> hops_of (ssh db2) (rr_id row) = hops_of (ssh db) (rr_id row)"
      by (rule update_route_reads) blast
    then show ?thesis unfolding Inr sum.case by blast
  qed
qed

definition sample_hop :: ssh_route_hop where
  "sample_hop = \<lparr>hop_node_id = None, hop_target_alias = ''b'', hop_port = Some 2222\<rparr>"

lemma routes_read_back_witness:
  "\<exists>y db2 db3. update_route 7 ''r'' ''new'' None [sample_hop] (ssh_db [] sample_tables (\<lambda>_. None)) = (Inr (), db2) \<and>
    get_route ''r'' db2 = (Inr (Some y), db3) \<and> route_hops y = [sample_hop] \<and> route_created_at y = 1"
proof -
  let ?db = "ssh_db [] sample_tables (\<lambda>_. None)"
  have "case update_route 7 ''r'' ''new'' None [sample_hop] ?db of (r, db2) \<Rightarrow>
      (case r of Inl _ \<Rightarrow> False | Inr _ \<Rightarrow> (case fst (get_route ''r'' db2) of Inl _ \<Rightarrow> False | Inr _ \<Rightarrow> True))"
    by code_simp
  moreover obtain r db2 where "update_route 7 ''r'' ''new'' None [sample_hop] ?db = (r, db2)" by fastforce
  moreover obtain g db3 where "get_route ''r'' db2 = (g, db3)" by fastforce
  ultimately obtain y where run: "update_route 7 ''r'' ''new'' None [sample_hop] ?db = (Inr (), db2)"
    and get: "get_route ''r'' db2 = (Inr y, db3)"
    by (cases r; cases g) simp_all
  have "tables_ok (ssh ?db)" using sample_tables_ok by (simp add: tree_ok_def)
  note both = routes_read_back [OF this, of "''r''" 7 "''new''" None "[sample_hop]"]
  have "\<exists>old \<in> set (route_rows (ssh ?db)). rr_id old = ''r'' \<and>
      y = Some \<lparr>route_id = ''r'', route_name = ''new'', route_target_node_id = None, route_hops = [sample_hop],
             route_created_at = rr_created_at old, route_updated_at = 7,
             route_last_connected_at = rr_last_connected_at old\<rparr>"
    using conjunct2 [OF both, of "Inr ()" db2] run get by auto
  then show ?thesis using run get by (auto simp: sample_tables_def)
qed


section \<open>Downloading\<close>


definition sample_cipher :: "string \<Rightarrow> string" where
  "sample_cipher s = (case encrypt sample_crypto (replicate 12 0) ''k'' s of Inl e \<Rightarrow> [] | Inr c \<Rightarrow> c)"

definition sample_sync_server :: "string \<Rightarrow> string option \<Rightarrow> sync_server" where
  "sample_sync_server i secret = \<lparr>sv_node_id = i, sv_host = ''h'', sv_port = 22, sv_username = ''u'',
    sv_auth_type = ''password'', sv_key_path = None, sv_startup_command = None, sv_notes = None,
    sv_credential_id = None, sv_password_encrypted = map_option sample_cipher secret,
    sv_passphrase_encrypted = None, sv_root_password_encrypted = None\<rparr>"

definition sample_payload :: "sync_server list \<Rightarrow> ssh_sync_data" where
  "sample_payload servers =
    \<lparr>sd_nodes = [\<lparr>node_id = ''s'', parent_id = None, node_kind = ''server'', node_name = ''s'',
       sort_order = 0, is_collapsed = False\<rparr>],
     sd_servers = servers, sd_onekey_credentials = [], sd_machine_memories = [], sd_routes = None\<rparr>"

definition old_password :: "string \<times> string \<Rightarrow> string option" where
  "old_password cell = (if cell = (SERVICE, ''s:password'') then Some ''old'' else None)"

lemma old_password_secret:
  "keychain_secrets (sync_db.more (ssh_db results T old_password)) (''s'', SecretPassword) = Some ''old''"
  by (simp add: keychain_secrets_def secrets_in_def old_password_def account_key_def)


text \<open>
  The exception for a secret that is named twice is real: with the same secret named twice, the roll back restores the
  prior values in the order of the writes, so the value that the first write left comes last.
\<close>

lemma duplicate_rollback_keeps_new_secret:
  "case ssh_apply_data sample_ssh ''k''
      (sample_payload [sample_sync_server ''s'' (Some ''new''), sample_sync_server ''s'' (Some ''x'')])
      (ssh_db [] no_tables old_password) of (r, w') \<Rightarrow>
    (case r of Inl _ \<Rightarrow> True | Inr _ \<Rightarrow> False) \<and>
    keychain_secrets (sync_db.more w') (''s'', SecretPassword) = Some ''new''"
  by code_simp



text \<open>
  C21: what one device collects and another applies successfully arrives: all nodes with their
  parents, all servers, credentials, routes and hops (but for the times of creation and of the
  last connection), and the secrets of servers and credentials, where an empty secret arrives
  as none.  The two devices share the encryption, whose laws are those of AES-GCM, Base64 and
  UTF-8, and the second reads the JSON that the first writes.
\<close>

theorem transfer_arrives:
  assumes "sp_store p = keychain_store" and "sp_store q = keychain_store" and "same_format p q"
    and "tree_ok (ssh a)" and "servers_ok (ssh a)" and "tables_ok (ssh b)"
    and "keychain_reliable (sync_db.more b)"
    and "ssh_collect_data p token a = (Inr v, a')"
    and "ssh_apply_data q token v b = (Inr out, b')"
  shows "arrived (sp_now q) (ssh a) (ssh b') \<and> same_db a a' \<and>
    (\<forall>x \<in> sent_keys (ssh a).
      keychain_secrets (sync_db.more b') x = nonempty (keychain_secrets (sync_db.more a) x))"
proof -
  have "keychain_ok.looks a a'" using keychain_ok.collect_looks [OF assms(1), of a token] assms(8) by simp
  then show ?thesis
    using keychain_works.transported [OF assms(1-6,8,9)] assms(7) by (simp add: keychain_ok.looks_def)
qed

lemma transfer_arrives_witness:
  "\<exists>v a' out b'. ssh_collect_data sample_ssh ''k'' (ssh_db [] sample_tables old_password) = (Inr v, a') \<and>
    ssh_apply_data sample_ssh ''k'' v (ssh_db [] no_tables (\<lambda>_. None)) = (Inr out, b') \<and>
    mset (route_rows (ssh b')) = mset (route_rows sample_tables) \<and>
    keychain_secrets (sync_db.more b') (''s'', SecretPassword) = Some ''old''"
proof -
  let ?a = "ssh_db [] sample_tables old_password" and ?b = "ssh_db [] no_tables (\<lambda>_. None)"
  have "case fst (ssh_collect_data sample_ssh ''k'' ?a) of Inl _ \<Rightarrow> False
      | Inr v \<Rightarrow> (case fst (ssh_apply_data sample_ssh ''k'' v ?b) of Inl _ \<Rightarrow> False | Inr _ \<Rightarrow> True)"
    by code_simp
  moreover obtain r a' where "ssh_collect_data sample_ssh ''k'' ?a = (r, a')" by fastforce
  ultimately obtain v where send: "ssh_collect_data sample_ssh ''k'' ?a = (Inr v, a')"
    and ok: "case fst (ssh_apply_data sample_ssh ''k'' v ?b) of Inl _ \<Rightarrow> False | Inr _ \<Rightarrow> True"
    by (cases r) simp_all
  obtain out b' where receive: "ssh_apply_data sample_ssh ''k'' v ?b = (Inr out, b')"
    using ok by (cases "ssh_apply_data sample_ssh ''k'' v ?b") (auto split: sum.splits)
  have "same_format sample_ssh sample_ssh"
    using sample_crypto_laws by (simp add: same_format_def) (simp add: sample_ssh_def)
  then have "arrived (sp_now sample_ssh) (ssh ?a) (ssh b') \<and> same_db ?a a' \<and>
    (\<forall>x \<in> sent_keys (ssh ?a).
      keychain_secrets (sync_db.more b') x = nonempty (keychain_secrets (sync_db.more ?a) x))"
    by (intro transfer_arrives [OF _ _ _ _ _ _ _ send receive])
      (use sample_tables_ok sample_servers_ok no_tables_ok in
        \<open>simp_all add: sample_ssh_def tree_ok_def keychain_reliable_def\<close>)
  moreover have "(''s'', SecretPassword) \<in> sent_keys (ssh ?a)"
    by (simp add: sent_keys_def server_keys_def sample_tables_def)
  ultimately show ?thesis
    using send receive old_password_secret [of "[]" sample_tables] by (auto simp: arrived_def nonempty_def)
qed

section \<open>The panel\<close>

text \<open>
  Whatever the parents of the nodes (unknown ones and cycles included), the panel lists
  every node exactly once; and when all nodes have a chain of parents to a root, every node
  stands behind its parent.
\<close>

theorem display_lists_tree:
  assumes "distinct (map n_id nodes)"
  shows "mset (sort_for_display nodes) = mset nodes \<and>
    ((\<forall>n \<in> set nodes. grounded (node_parents nodes) (n_id n)) \<longrightarrow> listed {} (sort_for_display nodes))"
proof
  have "distinct (sort_for_display nodes)" "distinct nodes"
    using sort_for_display_shows(1) [OF assms] assms by (simp_all add: distinct_map)
  then show "mset (sort_for_display nodes) = mset nodes"
    using sort_for_display_shows(2) [OF assms] by (simp add: set_eq_iff_mset_eq_distinct)
  show "(\<forall>n \<in> set nodes. grounded (node_parents nodes) (n_id n)) \<longrightarrow> listed {} (sort_for_display nodes)"
    using sort_for_display_listed [OF assms] by blast
qed

definition sample_panel_node :: "string \<Rightarrow> string option \<Rightarrow> ssh_node" where
  "sample_panel_node i p = \<lparr>n_id = i, n_parent_id = p, n_kind = Folder, n_name = i, n_sort_order = 0,
    n_created_at = 0, n_updated_at = 0, n_is_collapsed = False\<rparr>"

text \<open>A cycle of two nodes and a node under an unknown parent.\<close>

lemma display_lists_tree_witness:
  "mset (sort_for_display [sample_panel_node ''a'' (Some ''b''), sample_panel_node ''b'' (Some ''a''),
      sample_panel_node ''c'' (Some ''z'')]) =
   mset [sample_panel_node ''a'' (Some ''b''), sample_panel_node ''b'' (Some ''a''),
      sample_panel_node ''c'' (Some ''z'')]"
  using display_lists_tree [of "[sample_panel_node ''a'' (Some ''b''), sample_panel_node ''b'' (Some ''a''),
      sample_panel_node ''c'' (Some ''z'')]"] by (simp add: sample_panel_node_def)

end
