(* ===== verification/Project_Store.thy ===== *)
theory Project_Store imports Ssh_Repository begin

text \<open>
  The projects (\<open>crates/infinishell_projects\<close>): the types of \<open>types.rs\<close>, the tables of the
  migrations \<open>add_zap_projects\<close>, \<open>rename_zap_projects_to_infinishell\<close> and
  \<open>add_infinishell_project_repositories\<close>, the connection of \<open>db.rs\<close> and the operations of
  \<open>ProjectRepository\<close> (\<open>repository.rs\<close>).  The crate has a connection of its own to the same
  file, so it has a state of its own here; SQLite is modelled as for the SSH manager.  A new
  UUID and the time are arguments.
\<close>

section \<open>Types and rows\<close>

record project_git_repository =
  g_id :: string
  g_git_url :: string
  g_server_node_ids :: "string list"

record project =
  p_id :: string
  p_name :: string
  p_repositories :: "project_git_repository list"
  p_root_path :: "string option"
  p_rules :: string
  p_notes :: string
  p_default_profile_id :: "string option"
  p_sort_order :: int
  p_created_at :: int
  p_updated_at :: int

record project_row =
  pr_id :: string
  pr_name :: string
  pr_git_url :: "string option"
  pr_root_path :: "string option"
  pr_rules :: string
  pr_notes :: string
  pr_default_profile_id :: "string option"
  pr_sort_order :: int
  pr_created_at :: int
  pr_updated_at :: int
  pr_deleted_at :: "int option"

record repository_row =
  gr_id :: string
  gr_project_id :: string
  gr_git_url :: string
  gr_sort_order :: int

record repository_server_row =
  gs_repository_id :: string
  gs_node_id :: string
  gs_sort_order :: int

record project_server_row =
  ps_project_id :: string
  ps_node_id :: string
  ps_sort_order :: int

record project_tables =
  project_rows :: "project_row list"
  repository_rows :: "repository_row list"
  repository_server_rows :: "repository_server_row list"
  project_server_rows :: "project_server_row list"

definition no_projects :: project_tables where
  "no_projects = \<lparr>project_rows = [], repository_rows = [], repository_server_rows = [],
    project_server_rows = []\<rparr>"

text \<open>Primary keys, the UNIQUE constraint of a repository, and the foreign keys.\<close>

definition project_ids :: "project_tables \<Rightarrow> string list" where
  "project_ids T = map pr_id (project_rows T)"

definition repository_ids :: "project_tables \<Rightarrow> string list" where
  "repository_ids T = map gr_id (repository_rows T)"

definition project_keys_ok :: "project_tables \<Rightarrow> bool" where
  "project_keys_ok T \<longleftrightarrow> distinct (project_ids T) \<and> distinct (repository_ids T) \<and>
    distinct (map (\<lambda>r. (gr_project_id r, gr_git_url r)) (repository_rows T)) \<and>
    distinct (map (\<lambda>r. (gs_repository_id r, gs_node_id r)) (repository_server_rows T)) \<and>
    distinct (map (\<lambda>r. (ps_project_id r, ps_node_id r)) (project_server_rows T))"

definition project_references_ok :: "project_tables \<Rightarrow> bool" where
  "project_references_ok T \<longleftrightarrow>
    (\<forall>r \<in> set (repository_rows T). gr_project_id r \<in> set (project_ids T)) \<and>
    (\<forall>r \<in> set (repository_server_rows T). gs_repository_id r \<in> set (repository_ids T)) \<and>
    (\<forall>r \<in> set (project_server_rows T). ps_project_id r \<in> set (project_ids T))"

definition projects_ok :: "project_tables \<Rightarrow> bool" where
  "projects_ok T \<longleftrightarrow> project_keys_ok T \<and> project_references_ok T"

definition project_violation :: "project_tables \<Rightarrow> string option" where
  "project_violation T =
    (if \<not> project_keys_ok T then Some ''UNIQUE constraint failed''
     else if \<not> project_references_ok T then Some ''FOREIGN KEY constraint failed''
     else None)"

section \<open>The connection\<close>

record project_db =
  p_path_set :: bool
  p_poisoned :: bool
  p_connected :: bool
  p_statements :: "string option list"
  projects :: project_tables

datatype project_error = ProjectDb string | ProjectNotFound string

fun project_error_text :: "project_error \<Rightarrow> string" where
  "project_error_text (ProjectDb e) = ''database error: '' @ e"
| "project_error_text (ProjectNotFound p) = ''project not found: '' @ p"

definition project_statement :: "project_db \<Rightarrow> (string + unit) \<times> project_db" where
  "project_statement db =
    (case p_statements db of
      [] \<Rightarrow> (Inr (), db)
    | None # rest \<Rightarrow> (Inr (), db\<lparr>p_statements := rest\<rparr>)
    | Some e # rest \<Rightarrow> (Inl e, db\<lparr>p_statements := rest\<rparr>))"

definition open_projects :: "project_db \<Rightarrow> (string + unit) \<times> project_db" where
  "open_projects db =
    (if \<not> p_path_set db then (Inl ''infinishell_projects::db: database path not initialized'', db)
     else attempt (project_statement db) (\<lambda>_ db1.
          attempt (project_statement db1) (\<lambda>_ db2. (Inr (), db2\<lparr>p_connected := True\<rparr>))))"

definition with_projects ::
  "(project_db \<Rightarrow> (string + 'r) \<times> project_db) \<Rightarrow> project_db \<Rightarrow> (string + 'r) \<times> project_db" where
  "with_projects f db =
    (if p_poisoned db then (Inl ''infinishell_projects db mutex poisoned'', db)
     else attempt (if p_connected db then (Inr (), db) else open_projects db) (\<lambda>_ db1. f db1))"

definition query :: "(project_tables \<Rightarrow> 'r) \<Rightarrow> project_db \<Rightarrow> (project_error + 'r) \<times> project_db" where
  "query q db = attempt (map_err ProjectDb (project_statement db)) (\<lambda>_ db1. (Inr (q (projects db1)), db1))"

text \<open>A statement that changes the tables, and the number of rows it reports.\<close>

definition change ::
  "(project_tables \<Rightarrow> nat \<times> project_tables) \<Rightarrow> project_db \<Rightarrow> (project_error + nat) \<times> project_db" where
  "change f db =
    attempt (map_err ProjectDb (project_statement db)) (\<lambda>_ db1.
      case f (projects db1) of (n, T) \<Rightarrow>
        (case project_violation T of
          Some e \<Rightarrow> (Inl (ProjectDb e), db1)
        | None \<Rightarrow> (Inr n, db1\<lparr>projects := T\<rparr>)))"

definition project_transaction ::
  "(project_db \<Rightarrow> (project_error + 'r) \<times> project_db) \<Rightarrow> project_db \<Rightarrow> (project_error + 'r) \<times> project_db" where
  "project_transaction f db =
    attempt (map_err ProjectDb (project_statement db)) (\<lambda>_ db1.
      case f db1 of
        (Inl e, db2) \<Rightarrow> (Inl e, db2\<lparr>projects := projects db1\<rparr>)
      | (Inr r, db2) \<Rightarrow>
          (case project_statement db2 of
            (Inl e, db3) \<Rightarrow> (Inl (ProjectDb e), db3\<lparr>projects := projects db1\<rparr>)
          | (Inr _, db3) \<Rightarrow> (Inr r, db3)))"

section \<open>Statements\<close>

definition is_live :: "string \<Rightarrow> project_row \<Rightarrow> bool" where
  "is_live p r \<longleftrightarrow> pr_id r = p \<and> pr_deleted_at r = None"

definition update_projects ::
  "(project_row \<Rightarrow> bool) \<Rightarrow> (project_row \<Rightarrow> project_row) \<Rightarrow> project_tables \<Rightarrow> nat \<times> project_tables" where
  "update_projects P upd T =
    (length (filter P (project_rows T)),
     T\<lparr>project_rows := map (\<lambda>r. if P r then upd r else r) (project_rows T)\<rparr>)"

definition insert_project :: "project_row \<Rightarrow> project_tables \<Rightarrow> nat \<times> project_tables" where
  "insert_project r T = (1, T\<lparr>project_rows := project_rows T @ [r]\<rparr>)"

definition insert_repositories :: "repository_row list \<Rightarrow> project_tables \<Rightarrow> nat \<times> project_tables" where
  "insert_repositories rs T = (length rs, T\<lparr>repository_rows := repository_rows T @ rs\<rparr>)"

definition insert_repository_servers ::
  "repository_server_row list \<Rightarrow> project_tables \<Rightarrow> nat \<times> project_tables" where
  "insert_repository_servers rs T =
    (length rs, T\<lparr>repository_server_rows := repository_server_rows T @ rs\<rparr>)"

definition insert_project_servers ::
  "project_server_row list \<Rightarrow> project_tables \<Rightarrow> nat \<times> project_tables" where
  "insert_project_servers rs T = (length rs, T\<lparr>project_server_rows := project_server_rows T @ rs\<rparr>)"

definition delete_repository_servers ::
  "(repository_server_row \<Rightarrow> bool) \<Rightarrow> project_tables \<Rightarrow> nat \<times> project_tables" where
  "delete_repository_servers P T =
    (length (filter P (repository_server_rows T)),
     T\<lparr>repository_server_rows := filter (\<lambda>r. \<not> P r) (repository_server_rows T)\<rparr>)"

text \<open>\<open>repository_id .. ON DELETE CASCADE\<close>.\<close>

definition delete_repository_rows ::
  "(repository_row \<Rightarrow> bool) \<Rightarrow> project_tables \<Rightarrow> nat \<times> project_tables" where
  "delete_repository_rows P T =
    (let rest = filter (\<lambda>r. \<not> P r) (repository_rows T)
     in (length (filter P (repository_rows T)),
         T\<lparr>repository_rows := rest,
           repository_server_rows :=
             filter (\<lambda>r. gs_repository_id r \<in> set (map gr_id rest)) (repository_server_rows T)\<rparr>))"

definition delete_project_servers ::
  "(project_server_row \<Rightarrow> bool) \<Rightarrow> project_tables \<Rightarrow> nat \<times> project_tables" where
  "delete_project_servers P T =
    (length (filter P (project_server_rows T)),
     T\<lparr>project_server_rows := filter (\<lambda>r. \<not> P r) (project_server_rows T)\<rparr>)"

text \<open>\<open>for row in rows { out.push(f(row)?) }\<close>.\<close>

fun for_each :: "('a \<Rightarrow> 's \<Rightarrow> ('e + 'b) \<times> 's) \<Rightarrow> 'a list \<Rightarrow> 's \<Rightarrow> ('e + 'b list) \<times> 's" where
  "for_each f [] s = (Inr [], s)"
| "for_each f (a # rest) s =
    attempt (f a s) (\<lambda>b s1. attempt (for_each f rest s1) (\<lambda>bs s2. (Inr (b # bs), s2)))"

section \<open>ProjectRepository\<close>

definition project_from_row :: "project_row \<Rightarrow> project_git_repository list \<Rightarrow> project" where
  "project_from_row r repositories =
    \<lparr>p_id = pr_id r, p_name = pr_name r, p_repositories = repositories, p_root_path = pr_root_path r,
     p_rules = pr_rules r, p_notes = pr_notes r, p_default_profile_id = pr_default_profile_id r,
     p_sort_order = pr_sort_order r, p_created_at = pr_created_at r, p_updated_at = pr_updated_at r\<rparr>"

definition project_exists :: "string \<Rightarrow> project_db \<Rightarrow> (project_error + bool) \<times> project_db" where
  "project_exists p = query (\<lambda>T. find (is_live p) (project_rows T) \<noteq> None)"

definition project_next_sort_order :: "project_db \<Rightarrow> (project_error + int) \<times> project_db" where
  "project_next_sort_order db =
    attempt (query (\<lambda>T. max_opt (map pr_sort_order (project_rows T))) db) (\<lambda>current db1.
      (Inr (case current of None \<Rightarrow> 0 | Some v \<Rightarrow> wrap_i32 (v + 1)), db1))"

definition repositories_for_project ::
  "string \<Rightarrow> project_db \<Rightarrow> (project_error + project_git_repository list) \<times> project_db" where
  "repositories_for_project p db =
    attempt (query (\<lambda>T. sort_key gr_sort_order
        (filter (\<lambda>r. gr_project_id r = p) (repository_rows T))) db) (\<lambda>rows db1.
      for_each (\<lambda>row conn.
        attempt (query (\<lambda>T. map gs_node_id (sort_key gs_sort_order
            (filter (\<lambda>s. gs_repository_id s = gr_id row) (repository_server_rows T)))) conn) (\<lambda>nodes conn1.
          (Inr \<lparr>g_id = gr_id row, g_git_url = gr_git_url row, g_server_node_ids = nodes\<rparr>, conn1)))
        rows db1)"

definition list_projects :: "project_db \<Rightarrow> (project_error + project list) \<times> project_db" where
  "list_projects db =
    attempt (query (\<lambda>T. sort_key (\<lambda>r. (pr_sort_order r, pr_created_at r))
        (filter (\<lambda>r. pr_deleted_at r = None) (project_rows T))) db) (\<lambda>rows db1.
      for_each (\<lambda>row conn.
        attempt (repositories_for_project (pr_id row) conn) (\<lambda>repositories conn1.
          (Inr (project_from_row row repositories), conn1))) rows db1)"

definition get_project ::
  "string \<Rightarrow> project_db \<Rightarrow> (project_error + project option) \<times> project_db" where
  "get_project p db =
    attempt (query (\<lambda>T. find (is_live p) (project_rows T)) db) (\<lambda>row db1.
      case row of
        None \<Rightarrow> (Inr None, db1)
      | Some r \<Rightarrow>
          attempt (repositories_for_project (pr_id r) db1) (\<lambda>repositories db2.
            (Inr (Some (project_from_row r repositories)), db2)))"

definition create_project ::
  "string \<Rightarrow> int \<Rightarrow> string \<Rightarrow> project_db \<Rightarrow> (project_error + project) \<times> project_db" where
  "create_project new_id now name db =
    attempt (project_next_sort_order db) (\<lambda>order db1.
    attempt (change (insert_project
        \<lparr>pr_id = new_id, pr_name = name, pr_git_url = None, pr_root_path = None, pr_rules = [],
         pr_notes = [], pr_default_profile_id = None, pr_sort_order = order, pr_created_at = now,
         pr_updated_at = now, pr_deleted_at = None\<rparr>) db1) (\<lambda>_ db2.
    attempt (get_project new_id db2) (\<lambda>found db3.
      case found of None \<Rightarrow> (Inl (ProjectNotFound new_id), db3) | Some p \<Rightarrow> (Inr p, db3))))"

definition project_repository_ids :: "project_tables \<Rightarrow> string \<Rightarrow> string list" where
  "project_repository_ids T p = map gr_id (filter (\<lambda>r. gr_project_id r = p) (repository_rows T))"

text \<open>The statement for the mappings runs only when the project has repositories.\<close>

definition delete_repositories :: "string \<Rightarrow> project_db \<Rightarrow> (project_error + unit) \<times> project_db" where
  "delete_repositories p db =
    attempt (query (\<lambda>T. project_repository_ids T p) db) (\<lambda>ids db1.
    attempt (if ids = [] then (Inr 0, db1)
             else change (delete_repository_servers (\<lambda>s. gs_repository_id s \<in> set ids)) db1) (\<lambda>_ db2.
    attempt (change (delete_repository_rows (\<lambda>r. gr_project_id r = p)) db2) (\<lambda>_ db3.
      (Inr (), db3))))"

definition repository_values :: "string \<Rightarrow> project_git_repository list \<Rightarrow> repository_row list" where
  "repository_values p repositories =
    map (\<lambda>(index, g). \<lparr>gr_id = g_id g, gr_project_id = p, gr_git_url = g_git_url g,
        gr_sort_order = int index\<rparr>)
      (enumerate 0 repositories)"

text \<open>The loop with \<open>seen.insert(node_id)\<close>: a repeated node is kept at its first place only.\<close>

fun first_occurrences :: "string list \<Rightarrow> string list \<Rightarrow> string list" where
  "first_occurrences seen [] = []"
| "first_occurrences seen (n # rest) =
    (if n \<in> set seen then first_occurrences seen rest
     else n # first_occurrences (seen @ [n]) rest)"

definition mapping_values :: "project_git_repository list \<Rightarrow> repository_server_row list" where
  "mapping_values repositories =
    concat (map (\<lambda>g. map (\<lambda>(index, n). \<lparr>gs_repository_id = g_id g, gs_node_id = n,
        gs_sort_order = int index\<rparr>)
      (enumerate 0 (first_occurrences [] (g_server_node_ids g)))) repositories)"

definition replace_repositories ::
  "string \<Rightarrow> project_git_repository list \<Rightarrow> project_db \<Rightarrow> (project_error + unit) \<times> project_db" where
  "replace_repositories p repositories db =
    attempt (delete_repositories p db) (\<lambda>_ db1.
    attempt (change (insert_repositories (repository_values p repositories)) db1) (\<lambda>_ db2.
    attempt (change (insert_repository_servers (mapping_values repositories)) db2) (\<lambda>_ db3.
      (Inr (), db3))))"

definition legacy_git_url :: "project_git_repository list \<Rightarrow> string option" where
  "legacy_git_url repositories = map_option g_git_url (first_opt repositories)"

definition update_project_row :: "int \<Rightarrow> project \<Rightarrow> project_row \<Rightarrow> project_row" where
  "update_project_row now p r = r\<lparr>pr_name := p_name p, pr_git_url := legacy_git_url (p_repositories p),
    pr_root_path := p_root_path p, pr_rules := p_rules p, pr_notes := p_notes p,
    pr_default_profile_id := p_default_profile_id p, pr_sort_order := p_sort_order p,
    pr_updated_at := now\<rparr>"

definition update_project ::
  "int \<Rightarrow> project \<Rightarrow> project_db \<Rightarrow> (project_error + unit) \<times> project_db" where
  "update_project now p db =
    project_transaction (\<lambda>conn.
      attempt (change (update_projects (is_live (p_id p)) (update_project_row now p)) conn) (\<lambda>affected conn1.
        if affected = 0 then (Inl (ProjectNotFound (p_id p)), conn1)
        else replace_repositories (p_id p) (p_repositories p) conn1)) db"

definition soft_delete ::
  "int \<Rightarrow> string \<Rightarrow> project_db \<Rightarrow> (project_error + unit) \<times> project_db" where
  "soft_delete now p db =
    attempt (change (update_projects (is_live p) (\<lambda>r. r\<lparr>pr_deleted_at := Some now\<rparr>)) db) (\<lambda>affected db1.
      if affected = 0 then (Inl (ProjectNotFound p), db1)
      else attempt (delete_repositories p db1) (\<lambda>_ db2.
           attempt (change (delete_project_servers (\<lambda>s. ps_project_id s = p)) db2) (\<lambda>_ db3.
             (Inr (), db3))))"

definition set_repositories ::
  "string \<Rightarrow> project_git_repository list \<Rightarrow> project_db \<Rightarrow> (project_error + unit) \<times> project_db" where
  "set_repositories p repositories db =
    project_transaction (\<lambda>conn.
      attempt (project_exists p conn) (\<lambda>known conn1.
        if \<not> known then (Inl (ProjectNotFound p), conn1)
        else attempt (replace_repositories p repositories conn1) (\<lambda>_ conn2.
             attempt (change (update_projects (\<lambda>r. pr_id r = p)
                 (\<lambda>r. r\<lparr>pr_git_url := legacy_git_url repositories\<rparr>)) conn2) (\<lambda>_ conn3.
               (Inr (), conn3))))) db"

definition server_values :: "string \<Rightarrow> string list \<Rightarrow> project_server_row list" where
  "server_values p nodes =
    map (\<lambda>(index, n). \<lparr>ps_project_id = p, ps_node_id = n, ps_sort_order = int index\<rparr>)
      (enumerate 0 nodes)"

definition set_servers ::
  "string \<Rightarrow> string list \<Rightarrow> project_db \<Rightarrow> (project_error + unit) \<times> project_db" where
  "set_servers p nodes db =
    attempt (get_project p db) (\<lambda>found db1.
      case found of
        None \<Rightarrow> (Inl (ProjectNotFound p), db1)
      | Some _ \<Rightarrow>
          attempt (change (delete_project_servers (\<lambda>s. ps_project_id s = p)) db1) (\<lambda>_ db2.
          attempt (change (insert_project_servers (server_values p nodes)) db2) (\<lambda>_ db3.
            (Inr (), db3))))"

definition servers_for_project ::
  "string \<Rightarrow> project_db \<Rightarrow> (project_error + string list) \<times> project_db" where
  "servers_for_project p = query (\<lambda>T. map ps_node_id (sort_key ps_sort_order
      (filter (\<lambda>s. ps_project_id s = p) (project_server_rows T))))"

definition projects_for_node ::
  "string \<Rightarrow> project_db \<Rightarrow> (project_error + string list) \<times> project_db" where
  "projects_for_node n = query (\<lambda>T. map pr_id (sort_key pr_sort_order
      (concat (map (\<lambda>s. filter (is_live (ps_project_id s)) (project_rows T))
        (filter (\<lambda>s. ps_node_id s = n) (project_server_rows T))))))"

end
