(* ===== verification/Project_Rules.thy ===== *)
theory Project_Rules imports Project_Store "HOL-Library.Multiset" begin

text \<open>
  What the operations of \<open>Project_Store\<close> do, as functions of the tables: a reading operation
  computes a view of them (\<open>stored_project\<close>, \<open>stored_servers\<close>, ..) and leaves them alone, a
  changing one that succeeds leaves tables that satisfy the schema and whose views changed for
  one project only.
\<close>

section \<open>Reading operations\<close>

text \<open>
  \<open>f\<close> reads \<open>g\<close>: it changes no table, what it answers is \<open>g\<close> of the tables, and when no
  statement fails it answers.
\<close>

definition views ::
  "(project_db \<Rightarrow> ('e + 'r) \<times> project_db) \<Rightarrow> (project_tables \<Rightarrow> 'r) \<Rightarrow> bool" where
  "views f g \<longleftrightarrow> (\<forall>db. projects (snd (f db)) = projects db \<and>
    (\<forall>x. fst (f db) = Inr x \<longrightarrow> x = g (projects db)) \<and>
    (p_statements db = [] \<longrightarrow> f db = (Inr (g (projects db)), db)))"

named_theorems viewing \<open>operations that read a view\<close>

lemma views_tables: "views f g \<Longrightarrow> projects (snd (f db)) = projects db"
  by (simp add: views_def)

lemma views_result: "views f g \<Longrightarrow> f db = (Inr x, db') \<Longrightarrow> x = g (projects db) \<and> projects db' = projects db"
  by (metis views_def fst_conv snd_conv)

lemma views_keeps: "views f g \<Longrightarrow> f db = (x, db') \<Longrightarrow> projects db' = projects db"
  by (metis views_def snd_conv)

lemma views_quiet: "views f g \<Longrightarrow> p_statements db = [] \<Longrightarrow> f db = (Inr (g (projects db)), db)"
  unfolding views_def by blast

lemma views_cases:
  assumes "views f g"
  obtains (fails) e db1 where "f db = (Inl e, db1)" "projects db1 = projects db"
    | (reads) db1 where "f db = (Inr (g (projects db)), db1)" "projects db1 = projects db"
proof (cases "f db")
  case (Pair x db1)
  have same: "projects db1 = projects db" using views_keeps [OF assms Pair] .
  show thesis
  proof (cases x)
    case (Inl e)
    then show thesis using that(1) Pair same by simp
  next
    case (Inr y)
    then show thesis using that(2) Pair same views_result [OF assms, of db y db1] by simp
  qed
qed

lemma project_statement_cases:
  obtains (fails) e db1 where "project_statement db = (Inl e, db1)" "projects db1 = projects db"
    "p_statements db \<noteq> []"
    | (runs) db1 where "project_statement db = (Inr (), db1)" "projects db1 = projects db"
    "p_statements db = [] \<Longrightarrow> db1 = db"
  by (cases "p_statements db"; cases "hd (p_statements db)") (auto simp: project_statement_def)

lemma views_query [viewing]: "views (query q) q"
  unfolding views_def
proof
  fix db
  show "projects (snd (query q db)) = projects db \<and> (\<forall>x. fst (query q db) = Inr x \<longrightarrow> x = q (projects db)) \<and>
      (p_statements db = [] \<longrightarrow> query q db = (Inr (q (projects db)), db))"
    by (cases db rule: project_statement_cases) (auto simp: query_def)
qed

lemma views_return [viewing]: "views (\<lambda>db. (Inr x, db)) (\<lambda>_. x)"
  by (simp add: views_def)

lemma views_attempt [viewing]:
  assumes "views f g" and "\<And>x. views (h x) (k x)"
  shows "views (\<lambda>db. attempt (f db) h) (\<lambda>T. k (g T) T)"
  unfolding views_def
proof
  fix db
  show "projects (snd (attempt (f db) h)) = projects db \<and>
      (\<forall>x. fst (attempt (f db) h) = Inr x \<longrightarrow> x = k (g (projects db)) (projects db)) \<and>
      (p_statements db = [] \<longrightarrow> attempt (f db) h = (Inr (k (g (projects db)) (projects db)), db))"
    using assms(1)
  proof (cases rule: views_cases [where db = db])
    case (fails e db1)
    moreover have "p_statements db \<noteq> []"
    proof
      assume "p_statements db = []"
      then have "f db = (Inr (g (projects db)), db)" by (rule views_quiet [OF assms(1)])
      then show False using fails(1) by simp
    qed
    ultimately show ?thesis by simp
  next
    case (reads db1)
    let ?x = "g (projects db)"
    have whole: "attempt (f db) h = h ?x db1" using reads(1) by simp
    have quiet: "db1 = db" if "p_statements db = []"
      using views_quiet [OF assms(1) that] reads(1) by simp
    show ?thesis unfolding whole
    proof (intro conjI impI allI)
      show "projects (snd (h ?x db1)) = projects db"
        using views_tables [OF assms(2)] reads(2) by simp
      show "x = k ?x (projects db)" if "fst (h ?x db1) = Inr x" for x
        using views_result [OF assms(2), of ?x db1 x "snd (h ?x db1)"] that reads(2)
        by (simp add: prod_eq_iff)
      show "h ?x db1 = (Inr (k ?x (projects db)), db)" if "p_statements db = []"
        using views_quiet [OF assms(2) that] quiet [OF that] by simp
    qed
  qed
qed

lemma views_for_each [viewing]:
  assumes "\<And>x. views (f x) (g x)"
  shows "views (for_each f xs) (\<lambda>T. map (\<lambda>x. g x T) xs)"
proof (induction xs)
  case Nil
  show ?case by (simp add: views_def)
next
  case (Cons x xs)
  have "views (\<lambda>db. attempt (f x db) (\<lambda>b s1. attempt (for_each f xs s1) (\<lambda>bs s2. (Inr (b # bs), s2))))
      (\<lambda>T. g x T # map (\<lambda>x. g x T) xs)"
    by (rule views_attempt [OF assms, of _ "\<lambda>b T. b # map (\<lambda>x. g x T) xs"],
        rule views_attempt [OF Cons.IH, of _ "\<lambda>bs T. _ # bs"], rule views_return)
  then show ?case by (simp add: fun_eq_iff [symmetric])
qed

subsection \<open>The views\<close>

definition stored_mapping :: "project_tables \<Rightarrow> string \<Rightarrow> string list" where
  "stored_mapping T g = map gs_node_id (sort_key gs_sort_order
    (filter (\<lambda>s. gs_repository_id s = g) (repository_server_rows T)))"

definition stored_repositories :: "project_tables \<Rightarrow> string \<Rightarrow> project_git_repository list" where
  "stored_repositories T p =
    map (\<lambda>r. \<lparr>g_id = gr_id r, g_git_url = gr_git_url r, g_server_node_ids = stored_mapping T (gr_id r)\<rparr>)
      (sort_key gr_sort_order (filter (\<lambda>r. gr_project_id r = p) (repository_rows T)))"

definition stored_project :: "project_tables \<Rightarrow> string \<Rightarrow> project option" where
  "stored_project T p =
    map_option (\<lambda>r. project_from_row r (stored_repositories T p)) (find (is_live p) (project_rows T))"

definition stored_servers :: "project_tables \<Rightarrow> string \<Rightarrow> string list" where
  "stored_servers T p = map ps_node_id (sort_key ps_sort_order
    (filter (\<lambda>s. ps_project_id s = p) (project_server_rows T)))"

definition node_projects :: "project_tables \<Rightarrow> string \<Rightarrow> string list" where
  "node_projects T n = map pr_id (sort_key pr_sort_order
    (concat (map (\<lambda>s. filter (is_live (ps_project_id s)) (project_rows T))
      (filter (\<lambda>s. ps_node_id s = n) (project_server_rows T)))))"

lemma views_repositories [viewing]: "views (repositories_for_project p) (\<lambda>T. stored_repositories T p)"
proof -
  let ?rows = "\<lambda>T. sort_key gr_sort_order (filter (\<lambda>r. gr_project_id r = p) (repository_rows T))"
  let ?one = "\<lambda>row conn. attempt (query (\<lambda>T. map gs_node_id (sort_key gs_sort_order
      (filter (\<lambda>s. gs_repository_id s = gr_id row) (repository_server_rows T)))) conn) (\<lambda>nodes conn1.
      (Inr \<lparr>g_id = gr_id row, g_git_url = gr_git_url row, g_server_node_ids = nodes\<rparr>, conn1))"
  let ?val = "\<lambda>row T. \<lparr>g_id = gr_id row, g_git_url = gr_git_url row, g_server_node_ids = stored_mapping T (gr_id row)\<rparr>"
  have one: "views (?one row) (?val row)" for row
    unfolding stored_mapping_def
    by (rule views_attempt [OF views_query, where k = "\<lambda>nodes T. \<lparr>g_id = gr_id row, g_git_url = gr_git_url row,
        g_server_node_ids = nodes\<rparr>"]) (rule views_return)
  have "views (\<lambda>db. attempt (query ?rows db) (for_each ?one)) (\<lambda>T. map (\<lambda>row. ?val row T) (?rows T))"
    by (rule views_attempt [OF views_query, where k = "\<lambda>rows T. map (\<lambda>row. ?val row T) rows"])
      (rule views_for_each, rule one)
  then show ?thesis unfolding repositories_for_project_def stored_repositories_def .
qed

lemma views_get [viewing]: "views (get_project p) (\<lambda>T. stored_project T p)"
proof -
  let ?next = "\<lambda>row db1. case row of None \<Rightarrow> (Inr None, db1) | Some r \<Rightarrow>
    attempt (repositories_for_project (pr_id r) db1) (\<lambda>repositories db2.
      (Inr (Some (project_from_row r repositories)), db2))"
  let ?val = "\<lambda>row T. map_option (\<lambda>r. project_from_row r (stored_repositories T (pr_id r))) row"
  have one: "views (\<lambda>db1. attempt (repositories_for_project (pr_id r) db1) (\<lambda>repositories db2.
      (Inr (Some (project_from_row r repositories)), db2)))
      (\<lambda>T. Some (project_from_row r (stored_repositories T (pr_id r))))" for r
    by (rule views_attempt [OF views_repositories, where k = "\<lambda>x T. Some (project_from_row r x)"])
      (rule views_return)
  have "views (?next row) (?val row)" for row
    using one by (cases row) (simp_all add: views_return)
  then have "views (\<lambda>db. attempt (query (\<lambda>T. find (is_live p) (project_rows T)) db) ?next)
      (\<lambda>T. ?val (find (is_live p) (project_rows T)) T)"
    by (rule views_attempt [OF views_query])
  moreover have "?val (find (is_live p) (project_rows T)) T = stored_project T p" for T
  proof (cases "find (is_live p) (project_rows T)")
    case (Some r)
    then have "pr_id r = p" by (auto simp: find_Some_iff is_live_def)
    then show ?thesis using Some by (simp add: stored_project_def)
  qed (simp add: stored_project_def)
  ultimately show ?thesis unfolding get_project_def by simp
qed

lemma views_servers [viewing]: "views (servers_for_project p) (\<lambda>T. stored_servers T p)"
  unfolding servers_for_project_def stored_servers_def by (rule views_query)

lemma views_node_projects [viewing]: "views (projects_for_node n) (\<lambda>T. node_projects T n)"
  unfolding projects_for_node_def node_projects_def by (rule views_query)

lemma views_exists [viewing]:
  "views (project_exists p) (\<lambda>T. find (is_live p) (project_rows T) \<noteq> None)"
  unfolding project_exists_def by (rule views_query)

lemma views_list [viewing]:
  "views list_projects (\<lambda>T. map (\<lambda>r. project_from_row r (stored_repositories T (pr_id r)))
    (sort_key (\<lambda>r. (pr_sort_order r, pr_created_at r)) (filter (\<lambda>r. pr_deleted_at r = None) (project_rows T))))"
proof -
  let ?rows = "\<lambda>T. sort_key (\<lambda>r. (pr_sort_order r, pr_created_at r))
    (filter (\<lambda>r. pr_deleted_at r = None) (project_rows T))"
  have one: "views (\<lambda>conn. attempt (repositories_for_project (pr_id row) conn) (\<lambda>repositories conn1.
      (Inr (project_from_row row repositories), conn1)))
      (\<lambda>T. project_from_row row (stored_repositories T (pr_id row)))" for row
    by (rule views_attempt [OF views_repositories, where k = "\<lambda>x T. project_from_row row x"])
      (rule views_return)
  show ?thesis unfolding list_projects_def
    by (rule views_attempt [OF views_query [of ?rows],
          where k = "\<lambda>rows T. map (\<lambda>row. project_from_row row (stored_repositories T (pr_id row))) rows"])
      (rule views_for_each, rule one)
qed

section \<open>Changing operations\<close>

lemma project_violation_None [simp]: "project_violation T = None \<longleftrightarrow> projects_ok T"
  by (simp add: project_violation_def projects_ok_def)

lemma change_cases:
  obtains (fails) e db1 where "change f db = (Inl e, db1)" "projects db1 = projects db"
    "p_statements db \<noteq> [] \<or> \<not> projects_ok (snd (f (projects db)))"
    | (writes) db1 where "change f db = (Inr (fst (f (projects db))), db1)"
    "projects db1 = snd (f (projects db))" "projects_ok (projects db1)"
    "p_statements db = [] \<Longrightarrow> db1 = db\<lparr>projects := snd (f (projects db))\<rparr>"
proof (cases db rule: project_statement_cases)
  case (fails e db1)
  then show thesis using that(1) by (simp add: change_def)
next
  case (runs db1)
  obtain n T where f: "f (projects db) = (n, T)" by fastforce
  show thesis
  proof (cases "project_violation T")
    case None
    then have "projects_ok T" using project_violation_None by blast
    then show thesis using runs f None
      by (intro that(2) [of "db1\<lparr>projects := T\<rparr>"]) (auto simp: change_def simp del: project_violation_None)
  next
    case (Some e)
    then have "\<not> projects_ok T" using project_violation_None [of T] by simp
    then show thesis using runs f Some
      by (intro that(1) [of "ProjectDb e" db1]) (simp_all add: change_def)
  qed
qed

lemma change_Inr:
  assumes "change f db = (Inr n, db')"
  shows "n = fst (f (projects db))" "projects db' = snd (f (projects db))" "projects_ok (projects db')"
  using assms by (cases f db rule: change_cases; simp)+

lemma change_Inl: "change f db = (Inl e, db') \<Longrightarrow> projects db' = projects db"
  by (cases f db rule: change_cases) auto

lemma change_quiet:
  assumes "p_statements db = []" and "projects_ok (snd (f (projects db)))"
  shows "change f db = (Inr (fst (f (projects db))), db\<lparr>projects := snd (f (projects db))\<rparr>)"
  using assms by (cases f db rule: change_cases) simp_all

lemma change_keeps_ok: "projects_ok (projects db) \<Longrightarrow> projects_ok (projects (snd (change f db)))"
  by (cases f db rule: change_cases) simp_all

text \<open>A transaction that fails changes no table; one that succeeds has the effect of its body.\<close>

lemma project_transaction_cases:
  obtains (fails) e db1 where "project_transaction f db = (Inl e, db1)" "projects db1 = projects db"
    | (commits) r db1 db2 db3 where "project_transaction f db = (Inr r, db3)" "projects db1 = projects db"
      "f db1 = (Inr r, db2)" "projects db3 = projects db2"
proof (cases db rule: project_statement_cases)
  case (fails e db1)
  then show thesis using that(1) by (simp add: project_transaction_def)
next
  case (runs db1)
  obtain x db2 where f: "f db1 = (x, db2)" by fastforce
  show thesis
  proof (cases x)
    case (Inl e)
    then show thesis using that(1) runs f by (simp add: project_transaction_def)
  next
    case (Inr r)
    show thesis
    proof (cases db2 rule: project_statement_cases)
      case (fails e db3)
      then show thesis using that(1) runs(1,2) f Inr by (simp add: project_transaction_def)
    next
      case inner: (runs db3)
      show thesis using that(2) [of r db3 db1 db2] inner(1,2) runs(1,2) f Inr
        by (simp add: project_transaction_def)
    qed
  qed
qed

lemma project_transaction_quiet:
  assumes "p_statements db = []" and "f db = (Inr r, db2)" and "p_statements db2 = []"
  shows "project_transaction f db = (Inr r, db2)"
  using assms by (simp add: project_transaction_def project_statement_def)

subsection \<open>Replacing the repositories of a project\<close>

definition without_repositories :: "string \<Rightarrow> project_tables \<Rightarrow> project_tables" where
  "without_repositories p T = T\<lparr>
    repository_rows := filter (\<lambda>r. gr_project_id r \<noteq> p) (repository_rows T),
    repository_server_rows := filter (\<lambda>s. gs_repository_id s \<notin> set (project_repository_ids T p))
      (repository_server_rows T)\<rparr>"

definition with_repositories :: "string \<Rightarrow> project_git_repository list \<Rightarrow> project_tables \<Rightarrow> project_tables" where
  "with_repositories p gs T = T\<lparr>
    repository_rows := repository_rows T @ repository_values p gs,
    repository_server_rows := repository_server_rows T @ mapping_values gs\<rparr>"

lemma repository_row_unique:
  "projects_ok T \<Longrightarrow> r \<in> set (repository_rows T) \<Longrightarrow> r' \<in> set (repository_rows T) \<Longrightarrow>
    gr_id r = gr_id r' \<Longrightarrow> r = r'"
  by (auto simp: projects_ok_def project_keys_ok_def repository_ids_def distinct_map dest: inj_onD)

lemma delete_rows_without:
  assumes ok: "projects_ok T"
  shows "snd (delete_repository_rows (\<lambda>r. gr_project_id r = p) T) = without_repositories p T"
proof -
  have "gs_repository_id s \<in> set (map gr_id (filter (\<lambda>r. gr_project_id r \<noteq> p) (repository_rows T))) \<longleftrightarrow>
      gs_repository_id s \<notin> set (project_repository_ids T p)"
    if "s \<in> set (repository_server_rows T)" for s
  proof -
    obtain r where r: "r \<in> set (repository_rows T)" "gr_id r = gs_repository_id s"
      using ok \<open>s \<in> _\<close> by (auto simp: projects_ok_def project_references_ok_def repository_ids_def)
    have unique: "r' = r" if "r' \<in> set (repository_rows T)" "gr_id r' = gs_repository_id s" for r'
      using repository_row_unique [OF ok that(1) r(1)] that(2) r(2) by simp
    have "gs_repository_id s \<in> gr_id ` {r' \<in> set (repository_rows T). Q r'} \<longleftrightarrow> Q r" for Q
    proof
      assume "gs_repository_id s \<in> gr_id ` {r' \<in> set (repository_rows T). Q r'}"
      then obtain r' where "r' \<in> set (repository_rows T)" "Q r'" "gr_id r' = gs_repository_id s" by auto
      then show "Q r" using unique [of r'] by simp
    next
      assume "Q r"
      then have "r \<in> {r' \<in> set (repository_rows T). Q r'}" using r(1) by simp
      then show "gs_repository_id s \<in> gr_id ` {r' \<in> set (repository_rows T). Q r'}"
        using r(2) by (metis image_eqI)
    qed
    then show ?thesis by (simp add: project_repository_ids_def)
  qed
  then have "filter (\<lambda>s. gs_repository_id s \<in> set (map gr_id (filter (\<lambda>r. \<not> gr_project_id r = p) (repository_rows T))))
      (repository_server_rows T) =
    filter (\<lambda>s. gs_repository_id s \<notin> set (project_repository_ids T p)) (repository_server_rows T)"
    by (intro filter_cong [OF refl])
  then show ?thesis by (simp add: delete_repository_rows_def without_repositories_def Let_def)
qed

text \<open>\<open>delete_repositories\<close>: what it leaves when it fails half way lies between the two.\<close>

definition only_mappings_lost :: "project_tables \<Rightarrow> project_tables \<Rightarrow> bool" where
  "only_mappings_lost T T' \<longleftrightarrow> T' = T\<lparr>repository_server_rows := repository_server_rows T'\<rparr>"

lemma delete_repositories_result:
  assumes ok: "projects_ok (projects db)" and run: "delete_repositories p db = (x, db')"
  shows "x = Inr () \<Longrightarrow> projects db' = without_repositories p (projects db) \<and> projects_ok (projects db')"
    and "x = Inl e \<Longrightarrow> only_mappings_lost (projects db) (projects db') \<and> projects_ok (projects db')"
proof -
  let ?T = "projects db" and ?ids = "project_repository_ids (projects db) p"
  let ?mid = "\<lambda>db1. if ?ids = [] then (Inr 0, db1)
      else change (delete_repository_servers (\<lambda>s. gs_repository_id s \<in> set ?ids)) db1"
  have goal: "(x = Inr () \<longrightarrow> projects db' = without_repositories p ?T \<and> projects_ok (projects db')) \<and>
      (\<forall>e. x = Inl e \<longrightarrow> only_mappings_lost ?T (projects db') \<and> projects_ok (projects db'))"
    using views_query [of "\<lambda>T. project_repository_ids T p"]
  proof (cases rule: views_cases [where db = db])
    case (fails e db1)
    then show ?thesis using run ok
      by (auto simp: delete_repositories_def only_mappings_lost_def)
  next
    case (reads db1)
    have rest: "attempt (?mid db1) (\<lambda>_ db2. attempt (change (delete_repository_rows (\<lambda>r. gr_project_id r = p)) db2)
        (\<lambda>_ db3. (Inr (), db3))) = (x, db')"
      using run reads(1) unfolding delete_repositories_def by simp
    let ?T2 = "?T\<lparr>repository_server_rows := filter (\<lambda>s. gs_repository_id s \<notin> set ?ids) (repository_server_rows ?T)\<rparr>"
    have mid: "projects (snd (?mid db1)) = ?T2 \<and> projects_ok ?T2" if "fst (?mid db1) = Inr n" for n
    proof (cases "?ids = []")
      case True
      then show ?thesis using ok reads(2) by simp
    next
      case False
      obtain y db2 where run1: "change (delete_repository_servers (\<lambda>s. gs_repository_id s \<in> set ?ids)) db1 = (y, db2)"
        by fastforce
      have run2: "change (delete_repository_servers (\<lambda>s. gs_repository_id s \<in> set ?ids)) db1 = (Inr n, db2)"
        using that False run1 by simp
      have "snd (delete_repository_servers (\<lambda>s. gs_repository_id s \<in> set ?ids) (projects db1)) = ?T2"
        using reads(2) by (simp add: delete_repository_servers_def)
      then show ?thesis using change_Inr(2,3) [OF run2] run2 False by simp
    qed
    have stuck: "projects (snd (?mid db1)) = ?T" if "fst (?mid db1) = Inl e" for e
    proof (cases "?ids = []")
      case False
      obtain y db2 where run1: "change (delete_repository_servers (\<lambda>s. gs_repository_id s \<in> set ?ids)) db1 = (y, db2)"
        by fastforce
      then have "y = Inl e" using that False by simp
      then show ?thesis using False run1 reads(2) change_Inl by simp
    qed (use reads(2) in simp)
    from rest show ?thesis
    proof (cases rule: attemptE)
      case (fails e)
      then show ?thesis using stuck [of e] ok by (simp add: only_mappings_lost_def)
    next
      case (goes n db2)
      have T2: "projects db2 = ?T2" "projects_ok ?T2" using mid [of n] goes(1) by simp_all
      from goes(2) show ?thesis
      proof (cases rule: attemptE)
        case (fails e)
        then show ?thesis using change_Inl T2 by (auto simp: only_mappings_lost_def)
      next
        case (goes m db3)
        have ids: "project_repository_ids ?T2 p = ?ids" by (simp add: project_repository_ids_def)
        have "projects db3 = without_repositories p ?T2" "projects_ok (projects db3)"
          using change_Inr(2,3) [OF goes(1)] delete_rows_without [OF T2(2)] T2(1) by simp_all
        moreover have "without_repositories p ?T2 = without_repositories p ?T"
          using ids by (simp add: without_repositories_def)
        ultimately show ?thesis using goes(2) by auto
      qed
    qed
  qed
  then show "x = Inr () \<Longrightarrow> projects db' = without_repositories p (projects db) \<and> projects_ok (projects db')"
    "x = Inl e \<Longrightarrow> only_mappings_lost (projects db) (projects db') \<and> projects_ok (projects db')" by blast+
qed

lemma replace_repositories_result:
  assumes ok: "projects_ok (projects db)" and run: "replace_repositories p gs db = (Inr (), db')"
  shows "projects db' = with_repositories p gs (without_repositories p (projects db))"
    and "projects_ok (projects db')"
proof -
  obtain db1 n db2 m where steps: "delete_repositories p db = (Inr (), db1)"
    "change (insert_repositories (repository_values p gs)) db1 = (Inr n, db2)"
    "change (insert_repository_servers (mapping_values gs)) db2 = (Inr m, db')"
    using run unfolding replace_repositories_def by (auto elim!: attemptE)
  show "projects_ok (projects db')" by (rule change_Inr(3) [OF steps(3)])
  show "projects db' = with_repositories p gs (without_repositories p (projects db))"
    using delete_repositories_result(1) [OF ok steps(1) refl] change_Inr(2) [OF steps(2)] change_Inr(2) [OF steps(3)]
    by (simp add: insert_repositories_def insert_repository_servers_def with_repositories_def)
qed

subsection \<open>The views after a replacement\<close>

lemma sort_key_indexed:
  assumes "\<And>i x. f (g (i, x)) = int i"
  shows "sort_key f (map g (enumerate n xs)) = map g (enumerate n xs)"
proof (rule sort_key_id_if_sorted)
  have "map f (map g (enumerate n xs)) = map int [n..<n + length xs]"
    using assms by (intro nth_equalityI) (simp_all add: nth_enumerate_eq)
  then show "sorted (map f (map g (enumerate n xs)))" by (simp only: sorted_map) (simp add: sorted_wrt_upt)
qed

lemma sort_server_values [simp]: "sort_key ps_sort_order (server_values p nodes) = server_values p nodes"
  unfolding server_values_def by (rule sort_key_indexed) simp

lemma sort_repository_values [simp]:
  "sort_key gr_sort_order (repository_values p gs) = repository_values p gs"
  unfolding repository_values_def by (rule sort_key_indexed) simp

lemma map_enumerate_snd: "map (\<lambda>(i, x). f x) (enumerate n xs) = map f xs"
  by (induction xs arbitrary: n) auto

lemma server_values_nodes [simp]: "map ps_node_id (server_values p nodes) = nodes"
  using map_enumerate_snd [of "\<lambda>x. x" 0 nodes] by (simp add: server_values_def o_def case_prod_unfold)

lemma server_values_project: "s \<in> set (server_values p nodes) \<Longrightarrow> ps_project_id s = p"
  by (auto simp: server_values_def)

lemma repository_values_project: "r \<in> set (repository_values p gs) \<Longrightarrow> gr_project_id r = p"
  by (auto simp: repository_values_def)

lemma repository_values_ids: "map gr_id (repository_values p gs) = map g_id gs"
  using map_enumerate_snd [of g_id 0 gs] by (simp add: repository_values_def o_def case_prod_unfold)

lemma first_occurrences_set: "set (first_occurrences seen xs) = set xs - set seen"
  by (induction seen xs rule: first_occurrences.induct) auto

lemma first_occurrences_distinct: "distinct (first_occurrences seen xs)"
  by (induction seen xs rule: first_occurrences.induct) (auto simp: first_occurrences_set)

lemma first_occurrences_id: "distinct xs \<Longrightarrow> set xs \<inter> set seen = {} \<Longrightarrow> first_occurrences seen xs = xs"
  by (induction seen xs rule: first_occurrences.induct) auto

text \<open>What is stored of a repository: every server once, at its first place.\<close>

definition deduplicated :: "project_git_repository \<Rightarrow> project_git_repository" where
  "deduplicated g = g\<lparr>g_server_node_ids := first_occurrences [] (g_server_node_ids g)\<rparr>"

lemma deduplicated_id: "distinct (g_server_node_ids g) \<Longrightarrow> deduplicated g = g"
  by (simp add: deduplicated_def first_occurrences_id)

lemma mapping_values_of:
  assumes "distinct (map g_id gs)" and "g \<in> set gs"
  shows "filter (\<lambda>s. gs_repository_id s = g_id g) (mapping_values gs) =
    map (\<lambda>(index, n). \<lparr>gs_repository_id = g_id g, gs_node_id = n, gs_sort_order = int index\<rparr>)
      (enumerate 0 (first_occurrences [] (g_server_node_ids g)))"
  using assms
proof (induction gs)
  case (Cons a gs)
  let ?of = "\<lambda>g. map (\<lambda>(index, n). \<lparr>gs_repository_id = g_id g, gs_node_id = n, gs_sort_order = int index\<rparr>)
      (enumerate 0 (first_occurrences [] (g_server_node_ids g)))"
  have split: "mapping_values (a # gs) = ?of a @ mapping_values gs" by (simp add: mapping_values_def)
  have ids: "gs_repository_id s \<in> g_id ` set gs" if "s \<in> set (mapping_values gs)" for s
    using that by (auto simp: mapping_values_def)
  show ?case
  proof (cases "g = a")
    case True
    then have "gs_repository_id s \<noteq> g_id g" if "s \<in> set (mapping_values gs)" for s
      using Cons.prems(1) ids [OF that] by auto
    then have "filter (\<lambda>s. gs_repository_id s = g_id g) (mapping_values gs) = []"
      by (simp add: filter_empty_conv)
    moreover have "filter (\<lambda>s. gs_repository_id s = g_id g) (?of a) = ?of a"
      using True by (auto simp: filter_id_conv)
    ultimately show ?thesis using True split by simp
  next
    case False
    then have g: "g \<in> set gs" using Cons.prems(2) by simp
    then have "g_id a \<noteq> g_id g" using Cons.prems(1) by auto
    then have "filter (\<lambda>s. gs_repository_id s = g_id g) (?of a) = []" by (auto simp: filter_empty_conv)
    then show ?thesis using Cons.IH g Cons.prems(1) split by simp
  qed
qed simp

lemma mapping_values_repositories: "s \<in> set (mapping_values gs) \<Longrightarrow> gs_repository_id s \<in> g_id ` set gs"
  by (auto simp: mapping_values_def)

lemma stored_repositories_replaced:
  assumes ok: "projects_ok T" and T': "T' = with_repositories p gs (without_repositories p T)"
    and ok': "projects_ok T'"
  shows "stored_repositories T' p = map deduplicated gs"
    and "q \<noteq> p \<Longrightarrow> stored_repositories T' q = stored_repositories T q"
proof -
  let ?kept = "filter (\<lambda>r. gr_project_id r \<noteq> p) (repository_rows T)"
  have rows: "repository_rows T' = ?kept @ repository_values p gs"
    and maps: "repository_server_rows T' =
      filter (\<lambda>s. gs_repository_id s \<notin> set (project_repository_ids T p)) (repository_server_rows T) @ mapping_values gs"
    by (simp_all add: T' with_repositories_def without_repositories_def)
  have "distinct (repository_ids T')" using ok' by (simp add: projects_ok_def project_keys_ok_def)
  then have dist: "distinct (map gr_id ?kept @ map g_id gs)"
    by (simp add: repository_ids_def rows repository_values_ids)
  have fresh: "gs_repository_id s \<notin> g_id ` set gs"
    if "s \<in> set (repository_server_rows T)" "gs_repository_id s \<notin> set (project_repository_ids T p)" for s
  proof -
    have "gs_repository_id s \<in> set (repository_ids T)"
      using ok that(1) by (simp add: projects_ok_def project_references_ok_def)
    then have "gs_repository_id s \<in> gr_id ` set ?kept"
      using that(2) by (auto simp: repository_ids_def project_repository_ids_def)
    then show ?thesis using dist by auto
  qed
  have mapping: "stored_mapping T' (g_id g) = first_occurrences [] (g_server_node_ids g)" if "g \<in> set gs" for g
  proof -
    have "filter (\<lambda>s. gs_repository_id s = g_id g) (repository_server_rows T') =
        filter (\<lambda>s. gs_repository_id s = g_id g) (mapping_values gs)"
      using that fresh by (force simp: maps filter_empty_conv)
    also have "\<dots> = map (\<lambda>(index, n). \<lparr>gs_repository_id = g_id g, gs_node_id = n, gs_sort_order = int index\<rparr>)
      (enumerate 0 (first_occurrences [] (g_server_node_ids g)))"
      using dist that by (intro mapping_values_of) auto
    finally have "stored_mapping T' (g_id g) = map gs_node_id (map (\<lambda>(index, n).
        \<lparr>gs_repository_id = g_id g, gs_node_id = n, gs_sort_order = int index\<rparr>)
      (enumerate 0 (first_occurrences [] (g_server_node_ids g))))"
      unfolding stored_mapping_def by (simp only:) (subst sort_key_indexed, simp_all)
    then show ?thesis using map_enumerate_snd [of "\<lambda>x. x" 0 "first_occurrences [] (g_server_node_ids g)"]
      by (simp add: o_def case_prod_unfold)
  qed
  have "filter (\<lambda>r. gr_project_id r = p) (repository_rows T') = repository_values p gs"
    by (auto simp: rows filter_empty_conv filter_id_conv dest: repository_values_project)
  then have "stored_repositories T' p = map (\<lambda>r. \<lparr>g_id = gr_id r, g_git_url = gr_git_url r,
      g_server_node_ids = stored_mapping T' (gr_id r)\<rparr>) (repository_values p gs)"
    by (simp add: stored_repositories_def)
  also have "\<dots> = map (\<lambda>g. \<lparr>g_id = g_id g, g_git_url = g_git_url g,
      g_server_node_ids = stored_mapping T' (g_id g)\<rparr>) gs"
    using map_enumerate_snd [of "\<lambda>g. \<lparr>g_id = g_id g, g_git_url = g_git_url g,
      g_server_node_ids = stored_mapping T' (g_id g)\<rparr>" 0 gs]
    by (simp add: repository_values_def o_def case_prod_unfold)
  also have "\<dots> = map deduplicated gs"
    by (rule map_cong [OF refl]) (simp add: mapping deduplicated_def)
  finally show "stored_repositories T' p = map deduplicated gs" .
  show "stored_repositories T' q = stored_repositories T q" if "q \<noteq> p"
  proof -
    have same: "filter (\<lambda>r. gr_project_id r = q) (repository_rows T') = filter (\<lambda>r. gr_project_id r = q) (repository_rows T)"
    proof -
      have "filter (\<lambda>r. gr_project_id r = q) (repository_values p gs) = []"
        using that by (auto simp: filter_empty_conv dest: repository_values_project)
      moreover have "filter (\<lambda>r. gr_project_id r = q) ?kept = filter (\<lambda>r. gr_project_id r = q) (repository_rows T)"
        unfolding filter_filter by (rule filter_cong [OF refl]) (use that in auto)
      ultimately show ?thesis by (simp add: rows del: filter_filter)
    qed
    have "stored_mapping T' (gr_id r) = stored_mapping T (gr_id r)"
      if r: "r \<in> set (repository_rows T)" "gr_project_id r = q" for r
    proof -
      have r_kept: "r \<in> set ?kept" using r \<open>q \<noteq> p\<close> by simp
      have new: "gr_id r \<notin> g_id ` set gs" using dist r_kept by auto
      have "gr_id r \<notin> set (project_repository_ids T p)"
        using repository_row_unique [OF ok _ r(1)] r(2) \<open>q \<noteq> p\<close> by (auto simp: project_repository_ids_def)
      then have "filter (\<lambda>s. gs_repository_id s = gr_id r) (repository_server_rows T') =
          filter (\<lambda>s. gs_repository_id s = gr_id r) (repository_server_rows T)"
      proof -
        assume old: "gr_id r \<notin> set (project_repository_ids T p)"
        have "filter (\<lambda>s. gs_repository_id s = gr_id r) (mapping_values gs) = []"
          unfolding filter_empty_conv using new mapping_values_repositories by metis
        moreover have "filter (\<lambda>s. gs_repository_id s = gr_id r)
            (filter (\<lambda>s. gs_repository_id s \<notin> set (project_repository_ids T p)) (repository_server_rows T)) =
          filter (\<lambda>s. gs_repository_id s = gr_id r) (repository_server_rows T)"
          unfolding filter_filter by (rule filter_cong [OF refl]) (use old in auto)
        ultimately show ?thesis by (simp add: maps del: filter_filter)
      qed
      then show ?thesis by (simp add: stored_mapping_def)
    qed
    then show ?thesis unfolding stored_repositories_def same by (intro map_cong refl) auto
  qed
qed

lemma find_map_rows: "find P (map f xs) = map_option f (find (\<lambda>x. P (f x)) xs)"
  by (induction xs) auto

subsection \<open>Updating, deleting and linking\<close>

lemma is_live_updated [simp]: "is_live q (update_project_row now p r) = is_live q r"
  by (simp add: is_live_def update_project_row_def)

lemma find_live_updated:
  assumes "\<And>r. is_live q (f r) = is_live q r"
  shows "find (is_live q) (map (\<lambda>r. if is_live p r then f r else r) rows) =
    map_option (\<lambda>r. if q = p then f r else r) (find (is_live q) rows)"
proof -
  have "find (is_live q) (map (\<lambda>r. if is_live p r then f r else r) rows) =
      map_option (\<lambda>r. if is_live p r then f r else r) (find (is_live q) rows)"
    using assms by (simp add: find_map_rows if_distrib [of "is_live q"] cong: if_cong)
  moreover have "is_live p r = (q = p)" if "find (is_live q) rows = Some r" for r
    using that by (auto simp: find_Some_iff is_live_def)
  ultimately show ?thesis by (cases "find (is_live q) rows") simp_all
qed

lemma update_projects_none: "fst (update_projects P f T) = 0 \<Longrightarrow> snd (update_projects P f T) = T"
  by (auto simp: update_projects_def filter_empty_conv intro!: map_idI project_tables.equality)

lemma update_project_ids:
  "(\<And>r. pr_id (f r) = pr_id r) \<Longrightarrow> project_ids (snd (update_projects P f T)) = project_ids T"
  by (simp add: update_projects_def project_ids_def if_distrib [of pr_id] cong: if_cong)

lemma update_projects_ok:
  "(\<And>r. pr_id (f r) = pr_id r) \<Longrightarrow> projects_ok T \<Longrightarrow> projects_ok (snd (update_projects P f T))"
  using update_project_ids [of f P T]
  by (simp add: projects_ok_def project_keys_ok_def project_references_ok_def update_projects_def
      repository_ids_def)

lemma update_project_result:
  assumes ok: "projects_ok (projects db)" and run: "update_project now p db = (x, db')"
  shows "x = Inl e \<Longrightarrow> projects db' = projects db"
    and "x = Inr () \<Longrightarrow> projects_ok (projects db') \<and>
      (\<exists>old. stored_project (projects db) (p_id p) = Some old \<and>
        stored_project (projects db') (p_id p) =
          Some (p\<lparr>p_repositories := map deduplicated (p_repositories p), p_created_at := p_created_at old,
            p_updated_at := now\<rparr>)) \<and>
      (\<forall>q. q \<noteq> p_id p \<longrightarrow> stored_project (projects db') q = stored_project (projects db) q) \<and>
      project_server_rows (projects db') = project_server_rows (projects db)"
proof -
  let ?id = "p_id p" and ?T = "projects db"
  let ?upd = "update_projects (is_live ?id) (update_project_row now p)"
  let ?body = "\<lambda>conn. attempt (change ?upd conn) (\<lambda>affected conn1.
        if affected = 0 then (Inl (ProjectNotFound ?id), conn1)
        else replace_repositories ?id (p_repositories p) conn1)"
  let ?res = "\<lambda>T'. projects_ok T' \<and>
      (\<exists>old. stored_project ?T ?id = Some old \<and> stored_project T' ?id =
          Some (p\<lparr>p_repositories := map deduplicated (p_repositories p), p_created_at := p_created_at old,
            p_updated_at := now\<rparr>)) \<and>
      (\<forall>q. q \<noteq> ?id \<longrightarrow> stored_project T' q = stored_project ?T q) \<and>
      project_server_rows T' = project_server_rows ?T"
  have run': "project_transaction ?body db = (x, db')" using run by (simp add: update_project_def)
  have "(\<forall>e. x = Inl e \<longrightarrow> projects db' = ?T) \<and> (x = Inr () \<longrightarrow> ?res (projects db'))"
  proof (cases rule: project_transaction_cases [of ?body db])
    case (fails e db1)
    then show ?thesis using run' by simp
  next
    case (commits r db1 db2 db3)
    obtain n c1 where upd: "change ?upd db1 = (Inr n, c1)" "n \<noteq> 0"
      and rep: "replace_repositories ?id (p_repositories p) c1 = (Inr (), db2)"
      using commits(3) by (auto elim!: attemptE split: if_splits)
    let ?T1 = "snd (?upd ?T)"
    have T1: "projects c1 = ?T1" and ok1: "projects_ok ?T1" and n: "n = length (filter (is_live ?id) (project_rows ?T))"
      using change_Inr [OF upd(1)] commits(2) by (simp_all add: update_projects_def)
    obtain old where old: "find (is_live ?id) (project_rows ?T) = Some old"
      using upd(2) n by (cases "find (is_live ?id) (project_rows ?T)") (auto simp: find_None_iff filter_empty_conv)
    let ?T2 = "with_repositories ?id (p_repositories p) (without_repositories ?id ?T1)"
    have T2: "projects db' = ?T2" and ok2: "projects_ok (projects db')"
      using replace_repositories_result [OF _ rep] T1 ok1 commits(1,4) run' by simp_all
    have reps: "stored_repositories ?T2 ?id = map deduplicated (p_repositories p)"
      using stored_repositories_replaced(1) [OF ok1 refl] ok2 T2 by simp
    have other: "stored_repositories ?T2 q = stored_repositories ?T q" if "q \<noteq> ?id" for q
    proof -
      have "stored_repositories ?T2 q = stored_repositories ?T1 q"
        using stored_repositories_replaced(2) [OF ok1 refl] ok2 T2 that by simp
      then show ?thesis by (simp add: stored_repositories_def stored_mapping_def update_projects_def)
    qed
    have rows: "project_rows ?T2 = map (\<lambda>r. if is_live ?id r then update_project_row now p r else r) (project_rows ?T)"
      by (simp add: with_repositories_def without_repositories_def update_projects_def)
    have found: "find (is_live q) (project_rows ?T2) =
        map_option (\<lambda>r. if q = ?id then update_project_row now p r else r) (find (is_live q) (project_rows ?T))" for q
      unfolding rows by (rule find_live_updated) simp
    have "pr_id old = ?id" using old by (auto simp: find_Some_iff is_live_def)
    then have "stored_project ?T2 ?id = Some (p\<lparr>p_repositories := map deduplicated (p_repositories p),
        p_created_at := pr_created_at old, p_updated_at := now\<rparr>)"
      using found [of ?id] old reps by (simp add: stored_project_def project_from_row_def update_project_row_def)
    moreover have "stored_project ?T ?id = Some (project_from_row old (stored_repositories ?T ?id))"
      using old by (simp add: stored_project_def)
    moreover have "stored_project ?T2 q = stored_project ?T q" if "q \<noteq> ?id" for q
      using found [of q] other that by (simp add: stored_project_def option.map_ident)
    moreover have "project_server_rows ?T2 = project_server_rows ?T"
      by (simp add: with_repositories_def without_repositories_def update_projects_def)
    ultimately have "?res ?T2" using ok2 T2 by (simp add: project_from_row_def)
    then show ?thesis using T2 commits(1) run' by simp
  qed
  then show "x = Inl e \<Longrightarrow> projects db' = projects db" "x = Inr () \<Longrightarrow> ?res (projects db')" by blast+
qed

text \<open>
  \<open>set_servers\<close> is no transaction: when its insertion fails, the deletion stays.
\<close>

definition with_servers :: "string \<Rightarrow> string list \<Rightarrow> project_tables \<Rightarrow> project_tables" where
  "with_servers p nodes T = T\<lparr>project_server_rows :=
    filter (\<lambda>s. ps_project_id s \<noteq> p) (project_server_rows T) @ server_values p nodes\<rparr>"

lemma stored_servers_with:
  "stored_servers (with_servers p nodes T) q = (if q = p then nodes else stored_servers T q)"
proof (cases "q = p")
  case True
  have "filter (\<lambda>s. ps_project_id s = p) (server_values p nodes) = server_values p nodes"
    by (auto simp: filter_id_conv dest: server_values_project)
  then show ?thesis using True by (simp add: stored_servers_def with_servers_def)
next
  case False
  have "filter (\<lambda>s. ps_project_id s = q) (server_values p nodes) = []"
    using False by (auto simp: filter_empty_conv dest: server_values_project)
  moreover have "filter (\<lambda>s. ps_project_id s = q) (filter (\<lambda>s. ps_project_id s \<noteq> p) (project_server_rows T)) =
      filter (\<lambda>s. ps_project_id s = q) (project_server_rows T)"
    unfolding filter_filter by (rule filter_cong [OF refl]) (use False in auto)
  ultimately show ?thesis using False by (simp add: stored_servers_def with_servers_def del: filter_filter)
qed

lemma set_servers_result:
  assumes ok: "projects_ok (projects db)" and run: "set_servers p nodes db = (x, db')"
  shows "x = Inr () \<Longrightarrow> projects db' = with_servers p nodes (projects db) \<and> projects_ok (projects db') \<and>
      stored_project (projects db) p \<noteq> None"
    and "x = Inl e \<Longrightarrow> projects db' = projects db \<or> projects db' = with_servers p [] (projects db) \<and> projects_ok (projects db')"
proof -
  have "(x = Inr () \<longrightarrow> projects db' = with_servers p nodes (projects db) \<and> projects_ok (projects db') \<and>
      stored_project (projects db) p \<noteq> None) \<and>
    (\<forall>e. x = Inl e \<longrightarrow> projects db' = projects db \<or> projects db' = with_servers p [] (projects db) \<and> projects_ok (projects db'))"
    using views_get [of p]
  proof (cases rule: views_cases [where db = db])
    case (fails e db1)
    then show ?thesis using run by (auto simp: set_servers_def)
  next
    case (reads db1)
    show ?thesis
    proof (cases "stored_project (projects db) p")
      case None
      then show ?thesis using run reads by (auto simp: set_servers_def)
    next
      case (Some stored)
      have rest: "attempt (change (delete_project_servers (\<lambda>s. ps_project_id s = p)) db1) (\<lambda>_ db2.
          attempt (change (insert_project_servers (server_values p nodes)) db2) (\<lambda>_ db3. (Inr (), db3))) = (x, db')"
        using run reads(1) Some by (simp add: set_servers_def)
      from rest show ?thesis
      proof (cases rule: attemptE)
        case (fails e)
        then show ?thesis using change_Inl reads(2) by auto
      next
        case (goes n db2)
        have T2: "projects db2 = with_servers p [] (projects db)" "projects_ok (projects db2)"
          using change_Inr(2,3) [OF goes(1)] reads(2)
          by (simp_all add: delete_project_servers_def with_servers_def server_values_def)
        from goes(2) show ?thesis
        proof (cases rule: attemptE)
          case (fails e)
          then show ?thesis using change_Inl T2 by auto
        next
          case (goes m db3)
          then have "projects db' = with_servers p nodes (projects db)" "projects_ok (projects db')"
            using change_Inr(2,3) [OF goes(1)] T2(1)
            by (simp_all add: insert_project_servers_def with_servers_def server_values_def)
          then show ?thesis using goes Some by auto
        qed
      qed
    qed
  qed
  then show "x = Inr () \<Longrightarrow> projects db' = with_servers p nodes (projects db) \<and> projects_ok (projects db') \<and>
      stored_project (projects db) p \<noteq> None"
    "x = Inl e \<Longrightarrow> projects db' = projects db \<or> projects db' = with_servers p [] (projects db) \<and> projects_ok (projects db')"
    by blast+
qed

lemma set_servers_writes:
  assumes ok: "projects_ok (projects db)" and known: "stored_project (projects db) p \<noteq> None"
    and "distinct nodes" and "p_statements db = []"
  shows "set_servers p nodes db = (Inr (), db\<lparr>projects := with_servers p nodes (projects db)\<rparr>)"
    and "projects_ok (with_servers p nodes (projects db))"
proof -
  let ?T = "projects db"
  obtain stored where stored: "stored_project ?T p = Some stored" using known by blast
  then obtain r where r: "r \<in> set (project_rows ?T)" "pr_id r = p"
    by (auto simp: stored_project_def find_Some_iff is_live_def in_set_conv_nth)
  have pairs: "map (\<lambda>s. (ps_project_id s, ps_node_id s)) (server_values p nodes) = map (Pair p) nodes"
    using map_enumerate_snd [of "Pair p" 0 nodes] by (simp add: server_values_def o_def case_prod_unfold)
  have ok_with: "projects_ok (with_servers p xs ?T)" if "distinct xs" for xs
  proof -
    have "map (\<lambda>s. (ps_project_id s, ps_node_id s)) (server_values p xs) = map (Pair p) xs"
      using map_enumerate_snd [of "Pair p" 0 xs] by (simp add: server_values_def o_def case_prod_unfold)
    moreover have "distinct (map (Pair p) xs)" using that by (simp add: distinct_map inj_on_def)
    moreover have "(\<lambda>s. (ps_project_id s, ps_node_id s)) ` set (server_values p xs) = Pair p ` set xs"
      using calculation(1) by (metis set_map)
    ultimately have "distinct (map (\<lambda>s. (ps_project_id s, ps_node_id s)) (project_server_rows (with_servers p xs ?T)))"
      using ok by (auto simp: with_servers_def projects_ok_def project_keys_ok_def distinct_map_filter)
    then show ?thesis using ok r
      by (auto simp: projects_ok_def project_keys_ok_def project_references_ok_def with_servers_def
          project_ids_def repository_ids_def server_values_def)
  qed
  show "projects_ok (with_servers p nodes ?T)" by (rule ok_with) fact
  let ?db2 = "db\<lparr>projects := with_servers p [] ?T\<rparr>"
  have one: "get_project p db = (Inr (Some stored), db)"
    using views_quiet [OF views_get assms(4), of p] stored by simp
  have none: "snd (delete_project_servers (\<lambda>s. ps_project_id s = p) ?T) = with_servers p [] ?T"
    by (simp add: delete_project_servers_def with_servers_def server_values_def)
  have two: "change (delete_project_servers (\<lambda>s. ps_project_id s = p)) db =
      (Inr (fst (delete_project_servers (\<lambda>s. ps_project_id s = p) ?T)), ?db2)"
    using change_quiet [OF assms(4), of "delete_project_servers (\<lambda>s. ps_project_id s = p)"] none ok_with [of "[]"] by simp
  have some: "snd (insert_project_servers (server_values p nodes) (projects ?db2)) = with_servers p nodes ?T"
    by (simp add: insert_project_servers_def with_servers_def server_values_def)
  have "change (insert_project_servers (server_values p nodes)) ?db2 =
      (Inr (fst (insert_project_servers (server_values p nodes) (projects ?db2))), ?db2\<lparr>projects := with_servers p nodes ?T\<rparr>)"
    using change_quiet [of ?db2 "insert_project_servers (server_values p nodes)"] some ok_with [OF assms(3)] assms(4) by simp
  then show "set_servers p nodes db = (Inr (), db\<lparr>projects := with_servers p nodes ?T\<rparr>)"
    using one two by (simp add: set_servers_def)
qed

definition hidden_rows :: "int \<Rightarrow> string \<Rightarrow> project_row list \<Rightarrow> project_row list" where
  "hidden_rows now p rows = map (\<lambda>r. if is_live p r then r\<lparr>pr_deleted_at := Some now\<rparr> else r) rows"

lemma live_hidden:
  "find (is_live q) (hidden_rows now p rows) = (if q = p then None else find (is_live q) rows)"
  by (induction rows) (auto simp: hidden_rows_def is_live_def [abs_def])

lemma soft_delete_result:
  assumes ok: "projects_ok (projects db)" and run: "soft_delete now p db = (x, db')"
  shows "x = Inr () \<Longrightarrow> stored_project (projects db) p \<noteq> None \<and> projects_ok (projects db') \<and>
      projects db' = (without_repositories p (with_servers p [] (projects db)))
        \<lparr>project_rows := hidden_rows now p (project_rows (projects db))\<rparr>"
    and "x = Inl e \<Longrightarrow> projects db' = projects db \<or>
      project_rows (projects db') = hidden_rows now p (project_rows (projects db)) \<and>
      project_server_rows (projects db') = project_server_rows (projects db)"
proof -
  let ?T = "projects db" and ?hide = "\<lambda>r. r\<lparr>pr_deleted_at := Some now\<rparr>"
  let ?goal = "\<lambda>x T'. (x = Inr () \<longrightarrow> stored_project ?T p \<noteq> None \<and> projects_ok T' \<and>
      T' = (without_repositories p (with_servers p [] ?T))\<lparr>project_rows := hidden_rows now p (project_rows ?T)\<rparr>) \<and>
    (\<forall>e. x = Inl e \<longrightarrow> T' = ?T \<or> project_rows T' = hidden_rows now p (project_rows ?T) \<and>
      project_server_rows T' = project_server_rows ?T)"
  let ?T1 = "?T\<lparr>project_rows := hidden_rows now p (project_rows ?T)\<rparr>"
  have T1: "snd (update_projects (is_live p) ?hide ?T) = ?T1" by (simp add: update_projects_def hidden_rows_def)
  from run have "attempt (change (update_projects (is_live p) ?hide) db) (\<lambda>affected db1.
      if affected = 0 then (Inl (ProjectNotFound p), db1)
      else attempt (delete_repositories p db1) (\<lambda>_ db2.
           attempt (change (delete_project_servers (\<lambda>s. ps_project_id s = p)) db2) (\<lambda>_ db3. (Inr (), db3)))) = (x, db')"
    by (simp add: soft_delete_def)
  then have "?goal x (projects db')"
  proof (cases rule: attemptE)
    case (fails e)
    then show ?thesis using change_Inl by auto
  next
    case (goes n db1)
    have n: "n = length (filter (is_live p) (project_rows ?T))" and db1: "projects db1 = ?T1" "projects_ok ?T1"
      using change_Inr [OF goes(1)] T1 by (simp_all add: update_projects_def)
    show ?thesis
    proof (cases "n = 0")
      case True
      then have "?T1 = ?T" using update_projects_none [of "is_live p" ?hide ?T] n T1 by (simp add: update_projects_def)
      then show ?thesis using goes(2) True db1(1) by auto
    next
      case False
      then have known: "stored_project ?T p \<noteq> None"
        using n by (auto simp: stored_project_def find_None_iff filter_empty_conv)
      from goes(2) False have "attempt (delete_repositories p db1) (\<lambda>_ db2.
           attempt (change (delete_project_servers (\<lambda>s. ps_project_id s = p)) db2) (\<lambda>_ db3. (Inr (), db3))) = (x, db')"
        by simp
      then show ?thesis
      proof (cases rule: attemptE)
        case (fails e)
        then have "only_mappings_lost ?T1 (projects db')"
          using delete_repositories_result(2) [of db1 p] db1 by auto
        then show ?thesis using fails(2) unfolding only_mappings_lost_def by (metis (no_types, lifting) Inl_Inr_False
            project_tables.select_convs(1,4) project_tables.surjective project_tables.update_convs(1,3))
      next
        case (goes u db2)
        have T2: "projects db2 = without_repositories p ?T1" "projects_ok (projects db2)"
          using delete_repositories_result(1) [of db1 p "Inr u" db2] db1 goes(1) by auto
        from goes(2) show ?thesis
        proof (cases rule: attemptE)
          case (fails e)
          then show ?thesis using change_Inl T2(1) by (auto simp: without_repositories_def)
        next
          case (goes m db3)
          have "projects db3 = snd (delete_project_servers (\<lambda>s. ps_project_id s = p) (without_repositories p ?T1))"
            "projects_ok (projects db3)"
            using change_Inr(2,3) [OF goes(1)] T2(1) by simp_all
          then show ?thesis using goes(2) known
            by (auto simp: delete_project_servers_def with_servers_def server_values_def without_repositories_def
                project_repository_ids_def)
        qed
      qed
    qed
  qed
  then show "x = Inr () \<Longrightarrow> stored_project (projects db) p \<noteq> None \<and> projects_ok (projects db') \<and>
      projects db' = (without_repositories p (with_servers p [] (projects db)))
        \<lparr>project_rows := hidden_rows now p (project_rows (projects db))\<rparr>"
    "x = Inl e \<Longrightarrow> projects db' = projects db \<or>
      project_rows (projects db') = hidden_rows now p (project_rows (projects db)) \<and>
      project_server_rows (projects db') = project_server_rows (projects db)" by blast+
qed

subsection \<open>The projects of a node\<close>

text \<open>A node belongs exactly to the stored projects that list it, each named once.\<close>

lemma node_projects_exact:
  assumes ok: "projects_ok T"
  shows "p \<in> set (node_projects T n) \<longleftrightarrow> stored_project T p \<noteq> None \<and> n \<in> set (stored_servers T p)"
    and "distinct (node_projects T n)"
proof -
  let ?hits = "filter (\<lambda>s. ps_node_id s = n) (project_server_rows T)"
  show "p \<in> set (node_projects T n) \<longleftrightarrow> stored_project T p \<noteq> None \<and> n \<in> set (stored_servers T p)"
  proof
    assume "p \<in> set (node_projects T n)"
    then obtain r s where "r \<in> set (project_rows T)" "is_live (ps_project_id s) r" "pr_id r = p"
      "s \<in> set (project_server_rows T)" "ps_node_id s = n"
      by (auto simp: node_projects_def)
    then show "stored_project T p \<noteq> None \<and> n \<in> set (stored_servers T p)"
      by (force simp: stored_project_def stored_servers_def is_live_def find_None_iff)
  next
    assume "stored_project T p \<noteq> None \<and> n \<in> set (stored_servers T p)"
    then obtain r s where "r \<in> set (project_rows T)" "is_live p r" "s \<in> set (project_server_rows T)"
      "ps_node_id s = n" "ps_project_id s = p"
      by (auto simp: stored_project_def stored_servers_def find_None_iff find_Some_iff in_set_conv_nth)
    moreover have "pr_id r = p" using calculation(2) by (simp add: is_live_def)
    ultimately show "p \<in> set (node_projects T n)"
      unfolding node_projects_def by (auto simp: image_iff) metis
  qed
  have "distinct (map pr_id (concat (map (\<lambda>s. filter (is_live (ps_project_id s)) (project_rows T)) hits)))"
    if "distinct (map ps_project_id hits)" for hits
    using that
  proof (induction hits)
    case (Cons s hits)
    have "distinct (map pr_id (filter (is_live (ps_project_id s)) (project_rows T)))"
      using ok by (simp add: projects_ok_def project_keys_ok_def project_ids_def distinct_map_filter)
    moreover have "pr_id r = q" if "is_live q r" for q r using that by (simp add: is_live_def)
    ultimately show ?case using Cons by fastforce
  qed simp
  moreover have "distinct (map ps_project_id ?hits)"
  proof -
    have "distinct (map (\<lambda>s. (ps_project_id s, ps_node_id s)) ?hits)"
      using ok by (simp add: projects_ok_def project_keys_ok_def distinct_map_filter)
    then show ?thesis by (auto simp: distinct_map inj_on_def)
  qed
  ultimately have "distinct (map pr_id (concat (map (\<lambda>s. filter (is_live (ps_project_id s)) (project_rows T)) ?hits)))"
    by blast
  moreover have "mset (node_projects T n) =
      mset (map pr_id (concat (map (\<lambda>s. filter (is_live (ps_project_id s)) (project_rows T)) ?hits)))"
    by (simp only: node_projects_def mset_map mset_sort)
  ultimately show "distinct (node_projects T n)" by (metis mset_eq_imp_distinct_iff)
qed

end
