(* ===== verification/Project_Form.thy ===== *)
theory Project_Form imports Project_Rules begin

text \<open>
  The form of a project (\<open>app/src/project_manager/project_view.rs\<close>): what \<open>ProjectView\<close> keeps,
  \<open>reload\<close>, \<open>on_save\<close>, \<open>on_confirm_delete\<close> and the handlers that edit the form.  It joins the
  projects and the SSH manager, each through its own connection.  An editor is its text; mouse
  and scroll state, focus and rendering have no counterpart.
\<close>

datatype status_banner = Saved | StatusError string

record server_candidate =
  sc_node_id :: string
  sc_name :: string
  sc_username :: string
  sc_host :: string
  sc_port :: "16 word"

record repository_editor =
  er_id :: string
  er_git_url :: string
  er_mapped :: "string set"

record project_form =
  f_project_id :: string
  f_project :: "project option"
  f_name :: string
  f_root_path :: string
  f_rules :: string
  f_notes :: string
  f_repositories :: "repository_editor list"
  f_servers :: "server_candidate list"
  f_linked :: "string set"
  f_show_delete_confirmation :: bool
  f_status :: "status_banner option"

definition normalize_optional_field :: "string \<Rightarrow> string option" where
  "normalize_optional_field text = (if trim text = [] then None else Some (trim text))"

definition linked_ids_in_tree_order :: "server_candidate list \<Rightarrow> string set \<Rightarrow> string list" where
  "linked_ids_in_tree_order servers linked =
    map sc_node_id (filter (\<lambda>row. sc_node_id row \<in> linked) servers)"

section \<open>Loading\<close>

definition read_project ::
  "string \<Rightarrow> project_db \<Rightarrow> (string + project option \<times> string list) \<times> project_db" where
  "read_project p = with_projects (\<lambda>conn.
    map_err project_error_text (attempt (get_project p conn) (\<lambda>found conn1.
      attempt (servers_for_project p conn1) (\<lambda>linked conn2. (Inr (found, linked), conn2)))))"

text \<open>The loop over the nodes: folders and nodes without a server are skipped.\<close>

fun candidates_of ::
  "ssh_node list \<Rightarrow> 'a sync_db_scheme \<Rightarrow> (repository_error + server_candidate list) \<times> 'a sync_db_scheme" where
  "candidates_of [] db = (Inr [], db)"
| "candidates_of (n # rest) db =
    (if n_kind n \<noteq> Server then candidates_of rest db
     else attempt (get_server (n_id n) db) (\<lambda>found db1.
       case found of
         None \<Rightarrow> candidates_of rest db1
       | Some s \<Rightarrow> attempt (candidates_of rest db1) (\<lambda>rows db2.
           (Inr (\<lparr>sc_node_id = n_id n, sc_name = n_name n, sc_username = s_username s,
                 sc_host = s_host s, sc_port = s_port s\<rparr> # rows), db2))))"

definition read_candidates ::
  "'a sync_db_scheme \<Rightarrow> (string + server_candidate list) \<times> 'a sync_db_scheme" where
  "read_candidates = with_conn (\<lambda>conn.
    map_err repository_error_text (attempt (list_nodes conn) (\<lambda>nodes conn1. candidates_of nodes conn1)))"

text \<open>What \<open>reload\<close> shows; a failed read of the projects counts as no project, a failed read of
  the servers as no servers.\<close>

definition shown_form ::
  "project option \<Rightarrow> string list \<Rightarrow> server_candidate list \<Rightarrow> project_form \<Rightarrow> project_form" where
  "shown_form found linked servers f =
    (let known = set (map sc_node_id servers);
         linked_set = {n \<in> set linked. n \<in> known};
         field = (\<lambda>g. case found of None \<Rightarrow> [] | Some p \<Rightarrow> g p)
     in f\<lparr>f_project := found,
          f_servers := servers,
          f_linked := linked_set,
          f_name := field p_name,
          f_root_path := field (\<lambda>p. case p_root_path p of None \<Rightarrow> [] | Some r \<Rightarrow> r),
          f_rules := field p_rules,
          f_notes := field p_notes,
          f_repositories := map (\<lambda>g. \<lparr>er_id = g_id g, er_git_url = g_git_url g,
              er_mapped = {n \<in> set (g_server_node_ids g). n \<in> known \<and> n \<in> linked_set}\<rparr>)
            (case found of None \<Rightarrow> [] | Some p \<Rightarrow> p_repositories p)\<rparr>)"

definition reload ::
  "project_form \<Rightarrow> project_db \<Rightarrow> 'a sync_db_scheme \<Rightarrow> project_form \<times> project_db \<times> 'a sync_db_scheme" where
  "reload f pdb db =
    (case read_project (f_project_id f) pdb of (read, pdb1) \<Rightarrow>
     case read_candidates db of (candidates, db1) \<Rightarrow>
       (let (found, linked) = (case read of Inl _ \<Rightarrow> (None, []) | Inr r \<Rightarrow> r);
            servers = (case candidates of Inl _ \<Rightarrow> [] | Inr rows \<Rightarrow> rows)
        in (shown_form found linked servers f, pdb1, db1)))"

definition new_form ::
  "string \<Rightarrow> project_db \<Rightarrow> 'a sync_db_scheme \<Rightarrow> project_form \<times> project_db \<times> 'a sync_db_scheme" where
  "new_form p = reload
    \<lparr>f_project_id = p, f_project = None, f_name = [], f_root_path = [], f_rules = [], f_notes = [],
     f_repositories = [], f_servers = [], f_linked = {}, f_show_delete_confirmation = False, f_status = None\<rparr>"

section \<open>Saving\<close>

text \<open>The loop of \<open>on_save\<close> over the rows: \<open>None\<close> is a repeated URL.\<close>

fun collect_repositories ::
  "server_candidate list \<Rightarrow> string list \<Rightarrow> repository_editor list \<Rightarrow> project_git_repository list option" where
  "collect_repositories servers seen [] = Some []"
| "collect_repositories servers seen (row # rest) =
    (let git_url = trim (er_git_url row)
     in if git_url = [] then collect_repositories servers seen rest
        else if git_url \<in> set seen then None
        else map_option (\<lambda>gs. \<lparr>g_id = er_id row, g_git_url = git_url,
              g_server_node_ids = linked_ids_in_tree_order servers (er_mapped row)\<rparr> # gs)
            (collect_repositories servers (git_url # seen) rest))"

definition project_of_form :: "project \<Rightarrow> project_form \<Rightarrow> project_git_repository list \<Rightarrow> project" where
  "project_of_form loaded f repositories =
    \<lparr>p_id = p_id loaded, p_name = trim (f_name f), p_repositories = repositories,
     p_root_path = normalize_optional_field (f_root_path f), p_rules = trim (f_rules f),
     p_notes = trim (f_notes f), p_default_profile_id = p_default_profile_id loaded,
     p_sort_order = p_sort_order loaded, p_created_at = p_created_at loaded,
     p_updated_at = p_updated_at loaded\<rparr>"

definition save_project ::
  "int \<Rightarrow> project \<Rightarrow> string list \<Rightarrow> project_db \<Rightarrow> (string + unit) \<times> project_db" where
  "save_project now p linked = with_projects (\<lambda>conn.
    map_err project_error_text (attempt (update_project now p conn) (\<lambda>_ conn1.
      attempt (set_servers (p_id p) linked conn1) (\<lambda>_ conn2. (Inr (), conn2)))))"

definition on_save ::
  "int \<Rightarrow> project_form \<Rightarrow> project_db \<Rightarrow> 'a sync_db_scheme \<Rightarrow> project_form \<times> project_db \<times> 'a sync_db_scheme" where
  "on_save now f pdb db =
    (case f_project f of
      None \<Rightarrow> (f, pdb, db)
    | Some loaded \<Rightarrow>
        if trim (f_name f) = [] then
          (f\<lparr>f_status := Some (StatusError ''project-view-error-name-required'')\<rparr>, pdb, db)
        else (case collect_repositories (f_servers f) [] (f_repositories f) of
          None \<Rightarrow> (f\<lparr>f_status := Some (StatusError ''project-view-error-duplicate-git-url'')\<rparr>, pdb, db)
        | Some repositories \<Rightarrow>
            (case save_project now (project_of_form loaded f repositories)
                (linked_ids_in_tree_order (f_servers f) (f_linked f)) pdb of
              (Inl e, pdb1) \<Rightarrow> (f\<lparr>f_status := Some (StatusError e)\<rparr>, pdb1, db)
            | (Inr _, pdb1) \<Rightarrow>
                (case reload f pdb1 db of (f1, pdb2, db1) \<Rightarrow> (f1\<lparr>f_status := Some Saved\<rparr>, pdb2, db1)))))"

text \<open>The answer says whether the pane is closed.\<close>

definition on_confirm_delete ::
  "int \<Rightarrow> project_form \<Rightarrow> project_db \<Rightarrow> bool \<times> project_form \<times> project_db" where
  "on_confirm_delete now f pdb =
    (let f1 = f\<lparr>f_show_delete_confirmation := False\<rparr>
     in case with_projects (\<lambda>conn. map_err project_error_text (soft_delete now (f_project_id f) conn)) pdb of
          (Inl e, pdb1) \<Rightarrow> (False, f1\<lparr>f_status := Some (StatusError e)\<rparr>, pdb1)
        | (Inr _, pdb1) \<Rightarrow> (True, f1, pdb1))"

section \<open>Editing\<close>

definition on_toggle_server :: "nat \<Rightarrow> project_form \<Rightarrow> project_form" where
  "on_toggle_server index f =
    (case nth_opt (f_servers f) index of
      None \<Rightarrow> f
    | Some row \<Rightarrow>
        let n = sc_node_id row;
            f1 = (if n \<notin> f_linked f then f\<lparr>f_linked := insert n (f_linked f)\<rparr>
                  else f\<lparr>f_linked := f_linked f - {n},
                         f_repositories := map (\<lambda>r. r\<lparr>er_mapped := er_mapped r - {n}\<rparr>) (f_repositories f)\<rparr>)
        in f1\<lparr>f_status := None\<rparr>)"

definition add_repository :: "string \<Rightarrow> project_form \<Rightarrow> project_form" where
  "add_repository new_id f =
    f\<lparr>f_repositories := f_repositories f @ [\<lparr>er_id = new_id, er_git_url = [], er_mapped = {}\<rparr>],
      f_status := None\<rparr>"

definition remove_repository :: "nat \<Rightarrow> project_form \<Rightarrow> project_form" where
  "remove_repository index f =
    (if length (f_repositories f) \<le> index then f
     else f\<lparr>f_repositories := take index (f_repositories f) @ drop (Suc index) (f_repositories f),
            f_status := None\<rparr>)"

definition toggle_repository_server :: "nat \<Rightarrow> nat \<Rightarrow> project_form \<Rightarrow> project_form" where
  "toggle_repository_server repository_index server_index f =
    (case nth_opt (f_servers f) server_index of
      None \<Rightarrow> f
    | Some server \<Rightarrow>
        if sc_node_id server \<notin> f_linked f then f
        else (case nth_opt (f_repositories f) repository_index of
          None \<Rightarrow> f
        | Some r \<Rightarrow>
            let n = sc_node_id server;
                mapped = (if n \<in> er_mapped r then er_mapped r - {n} else insert n (er_mapped r))
            in f\<lparr>f_repositories := (f_repositories f)[repository_index := r\<lparr>er_mapped := mapped\<rparr>],
                 f_status := None\<rparr>))"

definition set_root_path :: "string \<Rightarrow> project_form \<Rightarrow> project_form" where
  "set_root_path path f = f\<lparr>f_root_path := path, f_status := None\<rparr>"

text \<open>What the user can type into the editors.\<close>

definition type_into :: "string \<Rightarrow> string \<Rightarrow> string \<Rightarrow> project_form \<Rightarrow> project_form" where
  "type_into name rules notes f = f\<lparr>f_name := name, f_rules := rules, f_notes := notes\<rparr>"

definition type_git_url :: "nat \<Rightarrow> string \<Rightarrow> project_form \<Rightarrow> project_form" where
  "type_git_url index url f =
    (case nth_opt (f_repositories f) index of
      None \<Rightarrow> f
    | Some r \<Rightarrow> f\<lparr>f_repositories := (f_repositories f)[index := r\<lparr>er_git_url := url\<rparr>]\<rparr>)"

end
