(* ===== verification/Project_Form_Rules.thy ===== *)
theory Project_Form_Rules imports Project_Form Ssh_Collect begin

text \<open>
  The form of a project: its invariant (what is mapped is linked, what is linked is listed) under
  every edit and every reload, and what a save stores.
\<close>

section \<open>Through the connection\<close>

lemma with_projects_cases:
  obtains (fails) e db1 where "with_projects f db = (Inl e, db1)" "projects db1 = projects db"
    | (runs) db1 where "with_projects f db = f db1" "projects db1 = projects db"
proof (cases "p_poisoned db")
  case True
  then show thesis by (intro fails [of _ db]) (auto simp: with_projects_def)
next
  case False
  consider "p_connected db" | "\<not> p_connected db" "\<not> p_path_set db" | "\<not> p_connected db" "p_path_set db" by blast
  then show thesis
  proof cases
    case 1
    then show thesis using False by (intro runs [of db]) (simp_all add: with_projects_def)
  next
    case 2
    then show thesis using False by (intro fails [of _ db]) (auto simp: with_projects_def open_projects_def)
  next
    case closed: 3
    show thesis
    proof (cases db rule: project_statement_cases)
      case f1: (fails e db1)
      then show thesis using False closed by (intro fails [of e db1]) (simp_all add: with_projects_def open_projects_def)
    next
      case r1: (runs db1)
      show thesis
      proof (cases db1 rule: project_statement_cases)
        case (fails e db2)
        then show thesis using False closed r1 that(1) [of e db2] by (simp add: with_projects_def open_projects_def)
      next
        case (runs db2)
        then show thesis using False closed r1 that(2) [of "db2\<lparr>p_connected := True\<rparr>"]
          by (simp add: with_projects_def open_projects_def)
      qed
    qed
  qed
qed

lemma with_projects_view:
  assumes "views f g" and "with_projects (\<lambda>c. map_err h (f c)) db = (x, db')"
  shows "projects db' = projects db" and "x = Inr y \<Longrightarrow> y = g (projects db)"
proof -
  have "projects db' = projects db \<and> (\<forall>y. x = Inr y \<longrightarrow> y = g (projects db))"
  proof (cases rule: with_projects_cases [of "\<lambda>c. map_err h (f c)" db])
    case (fails e db1)
    then show ?thesis using assms(2) by simp
  next
    case (runs db1)
    from assms(1) show ?thesis
      by (cases rule: views_cases [where db = db1]) (use runs assms(2) in auto)
  qed
  then show "projects db' = projects db" "x = Inr y \<Longrightarrow> y = g (projects db)" by blast+
qed

definition loaded :: "string \<Rightarrow> project_tables \<Rightarrow> project option \<times> string list" where
  "loaded p T = (stored_project T p, stored_servers T p)"

lemma views_loaded:
  "views (\<lambda>conn. attempt (get_project p conn) (\<lambda>found conn1.
     attempt (servers_for_project p conn1) (\<lambda>linked conn2. (Inr (found, linked), conn2)))) (loaded p)"
  unfolding loaded_def [abs_def]
  by (rule views_attempt [OF views_get, where k = "\<lambda>found T. (found, stored_servers T p)"],
      rule views_attempt [OF views_servers, where k = "\<lambda>linked T. (_, linked)"], rule views_return)

lemma read_project_result:
  assumes "read_project p db = (x, db')"
  shows "projects db' = projects db" and "x = Inr y \<Longrightarrow> y = loaded p (projects db)"
  using with_projects_view [OF views_loaded assms [unfolded read_project_def]] by blast+

section \<open>The candidates\<close>

text \<open>The rows that are shown come from nodes of the kind server, in the order of the nodes.\<close>

definition candidate_rows :: "ssh_tables \<Rightarrow> server_candidate list \<Rightarrow> bool" where
  "candidate_rows T rows \<longleftrightarrow> set (map sc_node_id rows) \<subseteq> set (node_ids T) \<and>
    (distinct (node_ids T) \<longrightarrow> distinct (map sc_node_id rows))"

lemma reads_candidates_of:
  "reads (candidates_of nodes :: 'a sync_db_scheme \<Rightarrow> _) (\<lambda>T rows. set (map sc_node_id rows) \<subseteq> set (map n_id nodes) \<and>
    (distinct (map n_id nodes) \<longrightarrow> distinct (map sc_node_id rows)))"
proof (induction nodes)
  case Nil
  have "reads (\<lambda>db :: 'a sync_db_scheme. (Inr [], db)) (\<lambda>T rows. set (map sc_node_id rows) \<subseteq> set (map n_id []) \<and>
    (distinct (map n_id []) \<longrightarrow> distinct (map sc_node_id rows)))"
    by (rule reads_return) auto
  then show ?case by (simp add: reads_def)
next
  case (Cons n nodes)
  let ?Q = "\<lambda>ns T rows. set (map sc_node_id rows) \<subseteq> set (map n_id ns) \<and>
    (distinct (map n_id ns) \<longrightarrow> distinct (map sc_node_id rows))"
  have weak: "reads (candidates_of nodes :: 'a sync_db_scheme \<Rightarrow> _) (?Q (n # nodes))"
    by (rule reads_mono [OF Cons.IH]) auto
  show ?case
  proof (cases "n_kind n = Server")
    case False
    then show ?thesis using weak by (simp add: reads_def)
  next
    case True
    have more: "reads (\<lambda>db :: 'a sync_db_scheme. attempt (candidates_of nodes db) (\<lambda>rows db2.
        (Inr (\<lparr>sc_node_id = n_id n, sc_name = n_name n, sc_username = s_username s,
                 sc_host = s_host s, sc_port = s_port s\<rparr> # rows), db2))) (?Q (n # nodes))" for s
      by (rule reads_attempt [OF Cons.IH], rule reads_return) (auto dest: subsetD [OF _ imageI])
    have "reads (\<lambda>db :: 'a sync_db_scheme. attempt (get_server (n_id n) db) (\<lambda>found db1. case found of
         None \<Rightarrow> candidates_of nodes db1
       | Some s \<Rightarrow> attempt (candidates_of nodes db1) (\<lambda>rows db2.
           (Inr (\<lparr>sc_node_id = n_id n, sc_name = n_name n, sc_username = s_username s,
                 sc_host = s_host s, sc_port = s_port s\<rparr> # rows), db2)))) (?Q (n # nodes))"
    proof (rule reads_attempt [OF reads_get_server])
      fix T found
      show "reads (\<lambda>db1 :: 'a sync_db_scheme. case found of None \<Rightarrow> candidates_of nodes db1
         | Some s \<Rightarrow> attempt (candidates_of nodes db1) (\<lambda>rows db2.
             (Inr (\<lparr>sc_node_id = n_id n, sc_name = n_name n, sc_username = s_username s,
                   sc_host = s_host s, sc_port = s_port s\<rparr> # rows), db2)))
          (\<lambda>T' x. T' = T \<longrightarrow> ?Q (n # nodes) T x)"
        by (cases found) (simp_all only: option.case, rule reads_mono [OF weak], blast,
            rule reads_mono [OF more], blast)
    qed
    then show ?thesis using True by (simp add: reads_def)
  qed
qed

lemma node_from_row_id: "node_from_row r = Inr n \<Longrightarrow> n_id n = nr_id r"
  by (auto simp: node_from_row_def split: option.splits)

lemma reads_candidates:
  "reads (\<lambda>conn. attempt (list_nodes conn) (\<lambda>nodes conn1. candidates_of nodes conn1)) candidate_rows"
proof (rule reads_attempt [OF reads_list_nodes])
  fix T :: ssh_tables and nodes
  let ?sorted = "sort_key (\<lambda>r. (nr_parent_id r, nr_sort_order r)) (node_rows T)"
  assume rows: "list_all2 (\<lambda>r n. node_from_row r = Inr n) ?sorted nodes"
  have ids: "map n_id nodes = map nr_id ?sorted"
    using rows by (induction rule: list_all2_induct) (auto dest: node_from_row_id)
  have "distinct (map n_id nodes) \<longleftrightarrow> distinct (node_ids T)"
  proof -
    have "mset (map n_id nodes) = mset (node_ids T)" unfolding ids node_ids_def mset_map by simp
    then show ?thesis by (rule mset_eq_imp_distinct_iff)
  qed
  moreover have "set (map n_id nodes) = set (node_ids T)" by (simp add: ids node_ids_def)
  ultimately show "reads (candidates_of nodes) (\<lambda>T' x. T' = T \<longrightarrow> candidate_rows T x)"
    by (intro reads_mono [OF reads_candidates_of]) (auto simp: candidate_rows_def)
qed

lemma read_candidates_result:
  assumes "read_candidates db = (x, db')"
  shows "same_tables db db'" and "x = Inr rows \<Longrightarrow> candidate_rows (ssh db) rows"
proof -
  let ?f = "\<lambda>conn. attempt (list_nodes conn) (\<lambda>nodes conn1. candidates_of nodes conn1)"
  have "same_tables db db' \<and> (\<forall>rows. x = Inr rows \<longrightarrow> candidate_rows (ssh db) rows)"
  proof (cases rule: with_conn_cases [of "\<lambda>conn. map_err repository_error_text (?f conn)" db])
    case (fails e db1)
    then show ?thesis using assms by (auto simp: read_candidates_def)
  next
    case (runs db1)
    have "map_err repository_error_text (?f db1) = (x, db')" using runs(1) assms by (simp add: read_candidates_def)
    note result = readsD [OF reads_map_err [OF reads_candidates, of repository_error_text] this]
    show ?thesis using result same_tables_trans [OF runs(2)] runs(2) by (auto simp: same_tables_iff)
  qed
  then show "same_tables db db'" "x = Inr rows \<Longrightarrow> candidate_rows (ssh db) rows" by blast+
qed

section \<open>The invariant of the form\<close>

definition form_ok :: "project_form \<Rightarrow> bool" where
  "form_ok f \<longleftrightarrow> distinct (map sc_node_id (f_servers f)) \<and>
    f_linked f \<subseteq> sc_node_id ` set (f_servers f) \<and>
    (\<forall>r \<in> set (f_repositories f). er_mapped r \<subseteq> f_linked f) \<and>
    (\<forall>p. f_project f = Some p \<longrightarrow> p_id p = f_project_id f)"

lemma shown_form_ok:
  assumes "distinct (map sc_node_id servers)" and "\<And>p. found = Some p \<Longrightarrow> p_id p = f_project_id f"
  shows "form_ok (shown_form found linked servers f)"
  using assms by (auto simp: form_ok_def shown_form_def Let_def)

lemma stored_project_id: "stored_project T p = Some x \<Longrightarrow> p_id x = p"
  by (auto simp: stored_project_def project_from_row_def find_Some_iff is_live_def)

lemma reload_result:
  assumes "reload f pdb db = (f', pdb', db')"
  shows "projects pdb' = projects pdb" and "same_tables db db'"
    and "tables_ok (ssh db) \<Longrightarrow> form_ok f'" and "f_project_id f' = f_project_id f"
proof -
  obtain x pdb1 y db1 where 1: "read_project (f_project_id f) pdb = (x, pdb1)" and 2: "read_candidates db = (y, db1)"
    by fastforce
  let ?found = "fst (case x of Inl _ \<Rightarrow> (None, []) | Inr r \<Rightarrow> r)"
  let ?linked = "snd (case x of Inl _ \<Rightarrow> (None, []) | Inr r \<Rightarrow> r)"
  let ?servers = "case y of Inl _ \<Rightarrow> [] | Inr rows \<Rightarrow> rows"
  have eq: "f' = shown_form ?found ?linked ?servers f" "pdb' = pdb1" "db' = db1"
    using assms 1 2 by (auto simp: reload_def case_prod_unfold Let_def)
  show "projects pdb' = projects pdb" using read_project_result(1) [OF 1] eq by simp
  show "same_tables db db'" using read_candidates_result(1) [OF 2] eq by simp
  show "f_project_id f' = f_project_id f" using eq by (simp add: shown_form_def Let_def)
  assume ok: "tables_ok (ssh db)"
  have "distinct (map sc_node_id ?servers)"
    using read_candidates_result(2) [OF 2] ok
    by (cases y) (auto simp: candidate_rows_def tables_ok_def keys_ok_def)
  moreover have "p_id p = f_project_id f" if "?found = Some p" for p
    using that read_project_result(2) [OF 1] stored_project_id
    by (cases x) (auto simp: loaded_def dest!: sym [of _ "(_, _)"])
  ultimately show "form_ok f'" unfolding eq by (rule shown_form_ok)
qed

lemma form_ok_status [simp]: "form_ok (f\<lparr>f_status := x\<rparr>) = form_ok f"
  by (simp add: form_ok_def)

lemma form_ok_delete [simp]: "form_ok (f\<lparr>f_show_delete_confirmation := x\<rparr>) = form_ok f"
  by (simp add: form_ok_def)

text \<open>Every edit keeps the invariant.\<close>

inductive form_edit :: "project_form \<Rightarrow> project_form \<Rightarrow> bool" where
  toggles: "form_edit f (on_toggle_server i f)"
| adds: "form_edit f (add_repository new_id f)"
| removes: "form_edit f (remove_repository i f)"
| maps: "form_edit f (toggle_repository_server i j f)"
| picks: "form_edit f (set_root_path path f)"
| types: "form_edit f (type_into name rules notes f)"
| types_url: "form_edit f (type_git_url i url f)"

lemma form_edit_ok: "form_edit f f' \<Longrightarrow> form_ok f \<Longrightarrow> form_ok f'"
proof (induction rule: form_edit.induct)
  case (toggles f i)
  then show ?case
    by (auto simp: on_toggle_server_def form_ok_def Let_def nth_opt_eq_Some split: option.splits)
next
  case (removes f i)
  then show ?case
    by (auto simp: remove_repository_def form_ok_def dest: in_set_takeD in_set_dropD)
next
  case (maps f i j)
  then show ?case
    by (auto simp: toggle_repository_server_def form_ok_def Let_def nth_opt_eq_Some
        split: option.splits dest!: set_update_subset_insert [THEN subsetD]) (meson nth_mem subsetD)+
next
  case (types_url f i url)
  then show ?case
    by (auto simp: type_git_url_def form_ok_def nth_opt_eq_Some
        split: option.splits dest!: set_update_subset_insert [THEN subsetD]) (meson nth_mem subsetD)+
qed (auto simp: form_ok_def add_repository_def set_root_path_def type_into_def)

section \<open>Saving\<close>

lemma linked_ids_distinct: "distinct (map sc_node_id servers) \<Longrightarrow> distinct (linked_ids_in_tree_order servers linked)"
  by (simp add: linked_ids_in_tree_order_def distinct_map_filter)

lemma linked_ids_set: "set (linked_ids_in_tree_order servers linked) = linked \<inter> sc_node_id ` set servers"
  by (auto simp: linked_ids_in_tree_order_def)

lemma collect_repositories_from:
  "collect_repositories servers seen rows = Some gs \<Longrightarrow> g \<in> set gs \<Longrightarrow>
    \<exists>row \<in> set rows. g_id g = er_id row \<and> g_git_url g = trim (er_git_url row) \<and> g_git_url g \<noteq> [] \<and>
      g_server_node_ids g = linked_ids_in_tree_order servers (er_mapped row)"
  by (induction rows arbitrary: seen gs) (fastforce simp: Let_def split: if_splits)+

lemma collect_repositories_urls:
  "collect_repositories servers seen rows = Some gs \<Longrightarrow>
    distinct (map g_git_url gs) \<and> set (map g_git_url gs) \<inter> set seen = {}"
  by (induction rows arbitrary: seen gs) (fastforce simp: Let_def split: if_splits)+

lemma save_project_result:
  assumes ok: "projects_ok (projects db)" and run: "save_project now p linked db = (x, db')"
  shows "x = Inr () \<Longrightarrow> projects_ok (projects db') \<and> stored_servers (projects db') (p_id p) = linked \<and>
      (\<exists>old. stored_project (projects db) (p_id p) = Some old \<and>
        stored_project (projects db') (p_id p) =
          Some (p\<lparr>p_repositories := map deduplicated (p_repositories p), p_created_at := p_created_at old,
            p_updated_at := now\<rparr>)) \<and>
      (\<forall>q. q \<noteq> p_id p \<longrightarrow> stored_project (projects db') q = stored_project (projects db) q \<and>
        stored_servers (projects db') q = stored_servers (projects db) q)"
    and "x = Inl e \<Longrightarrow> projects db' = projects db \<or>
      (\<exists>T. projects db' = T \<and> projects_ok T \<and> (\<forall>q. q \<noteq> p_id p \<longrightarrow> stored_project T q = stored_project (projects db) q \<and>
        stored_servers T q = stored_servers (projects db) q) \<and>
        (stored_servers T (p_id p) = [] \<or> stored_servers T (p_id p) = stored_servers (projects db) (p_id p)))"
proof -
  let ?T = "projects db" and ?id = "p_id p"
  let ?body = "\<lambda>conn. attempt (update_project now p conn) (\<lambda>_ conn1.
      attempt (set_servers (p_id p) linked conn1) (\<lambda>_ conn2. (Inr (), conn2)))"
  let ?saved = "\<lambda>T. \<exists>old. stored_project ?T ?id = Some old \<and> stored_project T ?id =
          Some (p\<lparr>p_repositories := map deduplicated (p_repositories p), p_created_at := p_created_at old,
            p_updated_at := now\<rparr>)"
  let ?others = "\<lambda>T. \<forall>q. q \<noteq> ?id \<longrightarrow> stored_project T q = stored_project ?T q \<and> stored_servers T q = stored_servers ?T q"
  let ?goal = "\<lambda>x T. (x = Inr () \<longrightarrow> projects_ok T \<and> stored_servers T ?id = linked \<and> ?saved T \<and> ?others T) \<and>
    (\<forall>e. x = Inl e \<longrightarrow> T = ?T \<or> projects_ok T \<and> ?others T \<and>
      (stored_servers T ?id = [] \<or> stored_servers T ?id = stored_servers ?T ?id))"
  have with_same: "stored_project (with_servers r nodes T) q = stored_project T q" for r nodes T q
    by (simp add: stored_project_def stored_repositories_def stored_mapping_def with_servers_def)
  have body: "?goal y (projects db2)" if start: "projects db1 = ?T" and steps: "?body db1 = (y, db2)" for db1 y db2
    using steps
  proof (cases rule: attemptE)
    case (fails e)
    then show ?thesis using update_project_result(1) [OF _ fails(1)] ok start by simp
  next
    case (goes u db3)
    have T3: "projects_ok (projects db3)" "?saved (projects db3)"
      "\<And>q. q \<noteq> ?id \<Longrightarrow> stored_project (projects db3) q = stored_project ?T q"
      "\<And>q. stored_servers (projects db3) q = stored_servers ?T q"
      using update_project_result(2) [OF _ goes(1)] ok start by (simp_all add: stored_servers_def)
    from goes(2) show ?thesis
    proof (cases rule: attemptE)
      case (fails e)
      then show ?thesis using set_servers_result(2) [OF T3(1) fails(1)] T3
        by (auto simp: stored_servers_with with_same)
    next
      case (goes u2 db4)
      then have "projects db4 = with_servers ?id linked (projects db3)" "projects_ok (projects db4)"
        using set_servers_result(1) [OF T3(1) goes(1)] by auto
      then show ?thesis using goes(2) T3 by (auto simp: stored_servers_with with_same)
    qed
  qed
  have "?goal x (projects db')"
  proof (cases rule: with_projects_cases [of "\<lambda>conn. map_err project_error_text (?body conn)" db])
    case (fails e db1)
    then show ?thesis using run by (auto simp: save_project_def)
  next
    case (runs db1)
    obtain y db2 where y: "?body db1 = (y, db2)" by fastforce
    have "map_err project_error_text (y, db2) = (x, db')" using runs(1) run y by (simp add: save_project_def)
    then show ?thesis using body [OF runs(2) y] by (cases y) auto
  qed
  then show "x = Inr () \<Longrightarrow> projects_ok (projects db') \<and> stored_servers (projects db') ?id = linked \<and> ?saved (projects db') \<and> ?others (projects db')"
    "x = Inl e \<Longrightarrow> projects db' = ?T \<or> (\<exists>T. projects db' = T \<and> projects_ok T \<and> ?others T \<and>
      (stored_servers T ?id = [] \<or> stored_servers T ?id = stored_servers ?T ?id))" by blast+
qed

text \<open>What \<open>on_save\<close> wrote when it shows \<open>Saved\<close>.\<close>

lemma on_save_result:
  assumes ok: "projects_ok (projects pdb)" and form: "form_ok f" and opened: "f_project f = Some p"
    and run: "on_save now f pdb db = (f', pdb', db')" and saved: "f_status f' = Some Saved"
  obtains gs old where "collect_repositories (f_servers f) [] (f_repositories f) = Some gs"
    "stored_project (projects pdb) (f_project_id f) = Some old"
    "stored_project (projects pdb') (f_project_id f) =
      Some ((project_of_form p f gs)\<lparr>p_created_at := p_created_at old, p_updated_at := now\<rparr>)"
    "stored_servers (projects pdb') (f_project_id f) = linked_ids_in_tree_order (f_servers f) (f_linked f)"
    "\<And>q. q \<noteq> f_project_id f \<Longrightarrow> stored_project (projects pdb') q = stored_project (projects pdb) q \<and>
      stored_servers (projects pdb') q = stored_servers (projects pdb) q"
    "\<And>g. g \<in> set gs \<Longrightarrow> set (g_server_node_ids g) \<subseteq> set (stored_servers (projects pdb') (f_project_id f))"
proof -
  let ?linked = "linked_ids_in_tree_order (f_servers f) (f_linked f)"
  have id: "p_id p = f_project_id f" using form opened by (simp add: form_ok_def)
  obtain gs pdb1 f1 db1 where gs: "collect_repositories (f_servers f) [] (f_repositories f) = Some gs"
    and save: "save_project now (project_of_form p f gs) ?linked pdb = (Inr (), pdb1)"
    and again: "reload f pdb1 db = (f1, pdb', db1)"
    using run saved opened
    by (auto simp: on_save_def split: if_splits option.splits prod.splits sum.splits)
  have id': "p_id (project_of_form p f gs) = f_project_id f" by (simp add: project_of_form_def id)
  have same: "projects pdb' = projects pdb1" by (rule reload_result(1) [OF again])
  have from_row: "\<exists>row \<in> set (f_repositories f). g_server_node_ids g = linked_ids_in_tree_order (f_servers f) (er_mapped row)"
    if "g \<in> set gs" for g using collect_repositories_from [OF gs that] by blast
  have "distinct (g_server_node_ids g)" if "g \<in> set gs" for g
    using from_row [OF that] form by (auto simp: form_ok_def linked_ids_distinct)
  then have "map deduplicated gs = gs" by (intro map_idI deduplicated_id)
  then have unchanged: "(project_of_form p f gs)\<lparr>p_repositories := map deduplicated (p_repositories (project_of_form p f gs))\<rparr> =
      project_of_form p f gs" by (simp add: project_of_form_def)
  note result = save_project_result(1) [OF ok save refl, unfolded id', folded same]
  have sub: "set (g_server_node_ids g) \<subseteq> set ?linked" if g: "g \<in> set gs" for g
  proof -
    obtain row where row: "row \<in> set (f_repositories f)"
      "g_server_node_ids g = linked_ids_in_tree_order (f_servers f) (er_mapped row)" using from_row [OF g] by blast
    then have "er_mapped row \<subseteq> f_linked f" using form by (simp add: form_ok_def)
    then show ?thesis using row(2) by (auto simp: linked_ids_set)
  qed
  show thesis
    using that [of gs] gs result unchanged sub by (auto simp: project_of_form_def)
qed

text \<open>
  When the servers cannot be read, the form has none of them and no edit can bring one back.
\<close>

lemma no_candidates_edit:
  "form_edit f f' \<Longrightarrow> f_servers f = [] \<Longrightarrow> f_servers f' = [] \<and> f_project f' = f_project f \<and> f_project_id f' = f_project_id f"
  by (induction rule: form_edit.induct)
    (auto simp: on_toggle_server_def add_repository_def remove_repository_def toggle_repository_server_def
      set_root_path_def type_into_def type_git_url_def nth_opt_def split: option.splits)

lemma no_candidates_edits:
  "form_edit\<^sup>*\<^sup>* f f' \<Longrightarrow> f_servers f = [] \<Longrightarrow> f_servers f' = [] \<and> f_project f' = f_project f \<and> f_project_id f' = f_project_id f"
  by (induction rule: rtranclp_induct) (auto dest: no_candidates_edit)

lemma form_edits_ok: "form_edit\<^sup>*\<^sup>* f f' \<Longrightarrow> form_ok f \<Longrightarrow> form_ok f'"
  by (induction rule: rtranclp_induct) (auto intro: form_edit_ok)

section \<open>The life of a form\<close>

text \<open>What a form can become: it is opened, reloaded, edited, saved, or its deletion is confirmed,
  against whatever the two databases hold at that moment.\<close>

inductive form_life :: "project_form \<Rightarrow> bool" where
  opened: "tables_ok (ssh db) \<Longrightarrow> form_life (fst (new_form p pdb (db :: sync_db)))"
| reloaded: "form_life f \<Longrightarrow> tables_ok (ssh db) \<Longrightarrow> form_life (fst (reload f pdb (db :: sync_db)))"
| edited: "form_life f \<Longrightarrow> form_edit f f' \<Longrightarrow> form_life f'"
| saved: "form_life f \<Longrightarrow> tables_ok (ssh db) \<Longrightarrow> form_life (fst (on_save now f pdb (db :: sync_db)))"
| deleted: "form_life f \<Longrightarrow> form_life (fst (snd (on_confirm_delete now f pdb)))"

lemma form_ok_save:
  assumes "form_ok f" and "tables_ok (ssh db)"
  shows "form_ok (fst (on_save now f pdb db))"
proof -
  have "form_ok (fst (reload f pdb1 db))" for pdb1
    using reload_result(3) [of f pdb1 db] assms(2) by (cases "reload f pdb1 db") auto
  then have "form_ok (case reload f pdb1 db of (f1, pdb2, db1) \<Rightarrow> f1)" for pdb1
    by (simp add: case_prod_unfold)
  then show ?thesis using assms(1)
    by (auto simp: on_save_def case_prod_unfold split: option.splits sum.splits)
qed

lemma form_life_ok: "form_life f \<Longrightarrow> form_ok f"
proof (induction rule: form_life.induct)
  case (opened db p pdb)
  then show ?case unfolding new_form_def using reload_result(3) by (metis prod.collapse)
next
  case (reloaded f db pdb)
  then show ?case using reload_result(3) by (metis prod.collapse)
next
  case (deleted f now pdb)
  then show ?case by (auto simp: on_confirm_delete_def Let_def split: prod.splits sum.splits)
qed (auto intro: form_edit_ok form_ok_save)

lemma unread_form_ok:
  assumes "read_candidates db = (Inl e, db1)" and "reload f0 pdb db = (f, pdb', db')"
  shows "f_servers f = [] \<and> form_ok f \<and> projects pdb' = projects pdb"
proof -
  obtain x pdb1 where read: "read_project (f_project_id f0) pdb = (x, pdb1)" by fastforce
  have id: "p_id q = f_project_id f0" if "x = Inr (Some q, linked)" for q linked
    using read_project_result(2) [OF read that] stored_project_id by (auto simp: loaded_def)
  have "f = shown_form (case x of Inl _ \<Rightarrow> None | Inr r \<Rightarrow> fst r) (case x of Inl _ \<Rightarrow> [] | Inr r \<Rightarrow> snd r) [] f0"
    using assms read by (auto simp: reload_def split: sum.splits)
  moreover have "form_ok (shown_form (case x of Inl _ \<Rightarrow> None | Inr r \<Rightarrow> fst r)
      (case x of Inl _ \<Rightarrow> [] | Inr r \<Rightarrow> snd r) [] f0)"
    by (rule shown_form_ok) (use id in \<open>auto split: sum.splits\<close>)
  moreover have "projects pdb' = projects pdb" using reload_result(1) [OF assms(2)] .
  ultimately show ?thesis by (simp add: shown_form_def Let_def)
qed

end
