(* ===== verification/Machine_Key.thy ===== *)
theory Machine_Key imports Ssh_Repository begin

text \<open>
  \<open>resolve_machine_key\<close> (\<open>warp_ssh_manager/src/memory.rs\<close>): the name under which a machine is
  known, from the host and the port of a connection.  Lower case is that of the first 256 code
  points.
\<close>

definition lower_char :: "char \<Rightarrow> char" where
  "lower_char c =
    (let n = of_char c :: nat
     in if 65 \<le> n \<and> n \<le> 90 \<or> 192 \<le> n \<and> n \<le> 222 \<and> n \<noteq> 215 then char_of (n + 32) else c)"

definition to_lowercase :: "string \<Rightarrow> string" where
  "to_lowercase s = map lower_char s"

text \<open>\<open>rsplit('@').next()\<close>: what follows the last \<open>@\<close>.\<close>

definition after_last_at :: "string \<Rightarrow> string" where
  "after_last_at s = rev (takeWhile (\<lambda>c. c \<noteq> CHR ''@'') (rev s))"

definition parse_u16 :: "string \<Rightarrow> 16 word option" where
  "parse_u16 s =
    (let v = (case s of
        [] \<Rightarrow> None
      | c # rest \<Rightarrow> if c = CHR ''+'' then parse_nat rest else parse_nat s)
     in case v of None \<Rightarrow> None | Some n \<Rightarrow> if int n < 2 ^ 16 then Some (of_nat n) else None)"

definition key_host :: "string \<Rightarrow> string" where
  "key_host host = to_lowercase (trim (after_last_at host))"

definition key_port :: "string option \<Rightarrow> 16 word" where
  "key_port port =
    (case port of
      None \<Rightarrow> 22
    | Some p \<Rightarrow> (case parse_u16 (trim p) of None \<Rightarrow> 22 | Some n \<Rightarrow> n))"

definition machine_key :: "string \<Rightarrow> 16 word \<Rightarrow> string" where
  "machine_key host port = host @ CHR '':'' # show_nat (unat port)"

definition resolve_machine_key :: "string option \<Rightarrow> string option \<Rightarrow> string option" where
  "resolve_machine_key host port =
    (case host of
      None \<Rightarrow> None
    | Some h \<Rightarrow> if key_host h = [] then None else Some (machine_key (key_host h) (key_port port)))"

section \<open>A key determines its machine\<close>

lemma digit_of_show: "c \<in> set (show_nat n) \<Longrightarrow> \<exists>d < 10. c = digit_char d"
proof (induction n rule: show_nat.induct)
  case (1 n)
  show ?case
  proof (cases "n < 10")
    case True
    then show ?thesis using 1(2) by (subst (asm) show_nat.simps) auto
  next
    case False
    then have "c \<in> set (show_nat (n div 10)) \<or> c = digit_char (n mod 10)"
      using 1(2) by (subst (asm) show_nat.simps) auto
    then show ?thesis using 1(1) [OF False] by (auto intro: exI [of _ "n mod 10"])
  qed
qed

lemma of_char_digit: "d < 10 \<Longrightarrow> (of_char (digit_char d) :: nat) = 48 + d"
  by (simp add: digit_char_def)

lemma show_nat_no_colon: "CHR '':'' \<notin> set (show_nat n)"
proof
  assume "CHR '':'' \<in> set (show_nat n)"
  then obtain d where "d < 10" "CHR '':'' = digit_char d" using digit_of_show by blast
  then have "(of_char (CHR '':'') :: nat) = 48 + d" using of_char_digit by metis
  then show False using \<open>d < 10\<close> by simp
qed

lemma show_nat_inj: "show_nat m = show_nat n \<Longrightarrow> m = n"
  by (metis option.inject parse_show_nat)

lemma last_split_unique:
  assumes "xs @ c # ys = xs' @ c # ys'" and "c \<notin> set ys" and "c \<notin> set ys'"
  shows "xs = xs' \<and> ys = ys'"
proof -
  have tail: "takeWhile (\<lambda>x. x \<noteq> c) (rev (as @ c # bs)) = rev bs" if "c \<notin> set bs" for as bs
  proof -
    have "takeWhile (\<lambda>x. x \<noteq> c) (rev bs @ c # rev as) = rev bs @ takeWhile (\<lambda>x. x \<noteq> c) (c # rev as)"
      by (rule takeWhile_append2) (use that in auto)
    then show ?thesis by simp
  qed
  have "rev ys = rev ys'" using tail [OF assms(2)] tail [OF assms(3)] assms(1) by metis
  then show ?thesis using assms(1) by simp
qed

lemma machine_key_inj: "machine_key h p = machine_key h' p' \<longleftrightarrow> h = h' \<and> p = p'"
proof
  assume "machine_key h p = machine_key h' p'"
  then have "h = h' \<and> show_nat (unat p) = show_nat (unat p')"
    unfolding machine_key_def by (rule last_split_unique) (rule show_nat_no_colon)+
  then have "h = h'" "unat p = unat p'" using show_nat_inj by blast+
  then show "h = h' \<and> p = p'" by (metis unsigned_word_eqI)
qed simp

lemma resolve_machine_key_Some:
  "resolve_machine_key (Some h) port = Some k \<longleftrightarrow> key_host h \<noteq> [] \<and> k = machine_key (key_host h) (key_port port)"
  by (auto simp: resolve_machine_key_def)

text \<open>A port that was written out is read back.\<close>

lemma trim_id: "(\<And>c. c \<in> set s \<Longrightarrow> \<not> is_whitespace c) \<Longrightarrow> trim s = s"
proof -
  assume plain: "\<And>c. c \<in> set s \<Longrightarrow> \<not> is_whitespace c"
  have "dropWhile is_whitespace xs = xs" if "\<And>c. c \<in> set xs \<Longrightarrow> \<not> is_whitespace c" for xs
    using that by (cases xs) auto
  from this [of s] this [of "rev s"] plain show ?thesis by (simp add: trim_def)
qed

lemma show_nat_plain: "c \<in> set (show_nat n) \<Longrightarrow> \<not> is_whitespace c"
  using digit_of_show [of c n] of_char_digit by (auto simp: is_whitespace_def Let_def)

lemma parse_show_u16: "parse_u16 (show_nat (unat (p :: 16 word))) = Some p"
proof -
  have "unat p < 2 ^ 16" using unsigned_less [of p] by simp
  then have small: "int (unat p) < 2 ^ 16" by (metis of_nat_less_iff of_nat_numeral of_nat_power)
  obtain c rest where cs: "show_nat (unat p) = c # rest" by (cases "show_nat (unat p)") auto
  have "c \<noteq> CHR ''+''" using hd_show_nat [of "unat p"] cs by simp
  then show ?thesis using parse_show_nat [of "unat p"] cs small by (simp add: parse_u16_def Let_def)
qed

lemma key_port_shown [simp]: "key_port (Some (show_nat (unat p))) = p"
  by (simp add: key_port_def trim_id show_nat_plain parse_show_u16)

text \<open>Two connections have the same key exactly when they name the same host and port.\<close>

lemma same_key_same_machine:
  "resolve_machine_key (Some h) p = Some k \<Longrightarrow> resolve_machine_key (Some h') p' = Some k \<Longrightarrow>
    key_host h = key_host h' \<and> key_port p = key_port p'"
  by (auto simp: resolve_machine_key_Some machine_key_inj)

end
