(* ===== verification/Host_Router.thy ===== *)
theory Host_Router imports Project_Store Machine_Key begin

text \<open>
  \<open>run_command_on_hosts\<close>: the tool that runs a command on the hosts of a project, one after the
  other.  The arguments are those of \<open>ai/agent_providers/tools/project_hosts.rs\<close>, the state
  machine is \<open>project_manager/session_router.rs\<close> (\<open>ProjectHostSessionRouter\<close>), what it asks of
  a terminal is in \<open>terminal/view.rs\<close>, and \<open>workspace/view.rs\<close> opens the sessions it asks for.

  The state is the router with what it sees of the application: the two databases, the clock in
  milliseconds, the views that are alive, the receivers of the results, the pending timers.  A
  view and a channel are numbers, a fresh \<open>action_id\<close> is the next number; \<open>emitted\<close> lists the
  events and \<open>delivered\<close> what was sent through the channels.  Messages that are Chinese in the
  source are translated.
\<close>

section \<open>The arguments\<close>

datatype json =
    JNull
  | JBool bool
  | JInt int
  | JFloat string
  | JString string
  | JArray "json list"
  | JObject "(string \<times> json) list"

record batch_args =
  a_node_ids :: "string list"
  a_command :: string
  a_canary :: bool
  a_timeout_seconds :: nat

definition MAX_NODE_IDS :: nat where "MAX_NODE_IDS = 20"
definition DEFAULT_TIMEOUT_SECONDS :: nat where "DEFAULT_TIMEOUT_SECONDS = 120"
definition MAX_TIMEOUT_SECONDS :: nat where "MAX_TIMEOUT_SECONDS = 600"

definition json_string :: "json \<Rightarrow> string option" where
  "json_string v = (case v of JString s \<Rightarrow> Some s | _ \<Rightarrow> None)"

definition json_bool :: "json \<Rightarrow> bool option" where
  "json_bool v = (case v of JBool b \<Rightarrow> Some b | _ \<Rightarrow> None)"

definition json_u64 :: "json \<Rightarrow> nat option" where
  "json_u64 v = (case v of JInt i \<Rightarrow> if 0 \<le> i \<and> i < 2 ^ 64 then Some (nat i) else None | _ \<Rightarrow> None)"

fun json_strings :: "json list \<Rightarrow> string list option" where
  "json_strings [] = Some []"
| "json_strings (v # vs) = do { s \<leftarrow> json_string v; ss \<leftarrow> json_strings vs; Some (s # ss) }"

definition json_string_array :: "json \<Rightarrow> string list option" where
  "json_string_array v = (case v of JArray vs \<Rightarrow> json_strings vs | _ \<Rightarrow> None)"

definition or_default :: "'a \<Rightarrow> (json \<Rightarrow> 'a option) \<Rightarrow> json option \<Rightarrow> 'a option" where
  "or_default d f v = (case v of None \<Rightarrow> Some d | Some x \<Rightarrow> f x)"

text \<open>
  The derived \<open>Deserialize\<close>: an object by field names, unknown ones ignored, or an array by the
  order of the fields.
\<close>

definition deserialize_batch_args :: "json \<Rightarrow> batch_args option" where
  "deserialize_batch_args v =
    (let fields = (\<lambda>ids cmd can tmo. do {
           nodes \<leftarrow> Option.bind ids json_string_array;
           command \<leftarrow> Option.bind cmd json_string;
           canary \<leftarrow> or_default True json_bool can;
           timeout \<leftarrow> or_default DEFAULT_TIMEOUT_SECONDS json_u64 tmo;
           Some \<lparr>a_node_ids = nodes, a_command = command, a_canary = canary, a_timeout_seconds = timeout\<rparr> })
     in case v of
          JObject kvs \<Rightarrow> fields (map_of kvs ''node_ids'') (map_of kvs ''command'')
            (map_of kvs ''canary'') (map_of kvs ''timeout_seconds'')
        | JArray vs \<Rightarrow>
            if 4 < length vs then None
            else fields (nth_opt vs 0) (nth_opt vs 1) (nth_opt vs 2) (nth_opt vs 3)
        | _ \<Rightarrow> None)"

definition parse_batch_args :: "json \<Rightarrow> string + batch_args" where
  "parse_batch_args value =
    (case deserialize_batch_args value of
      None \<Rightarrow> Inl ''run_command_on_hosts args parse error''
    | Some args \<Rightarrow>
        if a_node_ids args = [] then Inl ''node_ids must not be empty''
        else if MAX_NODE_IDS < length (a_node_ids args) then Inl ''node_ids exceeds the limit of 20''
        else if trim (a_command args) = [] then Inl ''command must not be empty''
        else Inr (args\<lparr>a_timeout_seconds := max 1 (min MAX_TIMEOUT_SECONDS (a_timeout_seconds args))\<rparr>))"

section \<open>Results\<close>

definition OUTPUT_MAX_CHARS :: nat where "OUTPUT_MAX_CHARS = 10000"
definition OUTPUT_TRUNCATION_MARKER :: string where "OUTPUT_TRUNCATION_MARKER = ''...(output truncated)''"
definition POLL_INTERVAL :: nat where "POLL_INTERVAL = 500"
definition READY_TIMEOUT :: nat where "READY_TIMEOUT = 60000"

datatype batch_host_status = HostOk | HostError | HostTimeout | HostBusy | SessionNotReady | CanaryAborted

fun batch_status_str :: "batch_host_status \<Rightarrow> string" where
  "batch_status_str HostOk = ''ok''"
| "batch_status_str HostError = ''error''"
| "batch_status_str HostTimeout = ''timeout''"
| "batch_status_str HostBusy = ''busy''"
| "batch_status_str SessionNotReady = ''session_not_ready''"
| "batch_status_str CanaryAborted = ''canary_aborted''"

record batch_host_result =
  r_node_id :: string
  r_host :: string
  r_status :: batch_host_status
  r_exit_code :: "int option"
  r_output :: string
  r_duration_ms :: nat

definition failed :: "string \<Rightarrow> string \<Rightarrow> string \<Rightarrow> batch_host_result" where
  "failed node host message =
    \<lparr>r_node_id = node, r_host = host, r_status = HostError, r_exit_code = None, r_output = message,
     r_duration_ms = 0\<rparr>"

definition skipped_by_canary :: "string \<Rightarrow> batch_host_result" where
  "skipped_by_canary node =
    \<lparr>r_node_id = node, r_host = [], r_status = CanaryAborted, r_exit_code = None, r_output = [],
     r_duration_ms = 0\<rparr>"

definition truncate_output :: "string \<Rightarrow> string" where
  "truncate_output out =
    (if length out \<le> OUTPUT_MAX_CHARS then out else take OUTPUT_MAX_CHARS out @ OUTPUT_TRUNCATION_MARKER)"

definition is_canary_failure :: "batch_host_result \<Rightarrow> bool" where
  "is_canary_failure r \<longleftrightarrow> r_status r \<noteq> HostOk \<or> r_exit_code r \<noteq> Some 0"

definition host_result_to_json :: "batch_host_result \<Rightarrow> json" where
  "host_result_to_json r = JObject
    [(''node_id'', JString (r_node_id r)), (''host'', JString (r_host r)),
     (''status'', JString (batch_status_str (r_status r))),
     (''exit_code'', case r_exit_code r of None \<Rightarrow> JNull | Some c \<Rightarrow> JInt c),
     (''output'', JString (r_output r)), (''duration_ms'', JInt (int (r_duration_ms r)))]"

definition aggregate_results :: "batch_host_result list \<Rightarrow> bool \<Rightarrow> json" where
  "aggregate_results results canary_aborted =
    (let all_ok = list_all (\<lambda>r. r_status r = HostOk) results
     in JObject
      [(''status'', JString (if all_ok then ''ok'' else ''error'')),
       (''canary_aborted'', JBool canary_aborted),
       (''results'', JArray (map host_result_to_json results))])"

section \<open>The state\<close>

record current_host =
  h_node_id :: string
  h_display :: string
  h_machine_key :: string

datatype host_phase =
    WaitingReady current_host nat
  | WaitingFinish current_host nat nat nat

record active_batch =
  b_args :: batch_args
  b_conversation_id :: nat
  b_done_tx :: nat
  b_results :: "batch_host_result list"
  b_index :: nat
  b_canary_aborted :: bool
  b_phase :: "host_phase option"

datatype app_event =
    OpenHostSession string
  | ExecuteCommand nat string nat nat nat

datatype shell_family = Posix | PowerShell

text \<open>What the router asks of a session, a block and a view; \<open>tv_refuses\<close> is the answer of
  \<open>try_reserve_cli_launch\<close>, a message when the command is refused.\<close>

record session_info =
  si_ssh_wrapper :: bool
  si_shell_family :: shell_family
  si_connection :: "(string option \<times> string option) option"

record action_block =
  k_action :: "nat option"
  k_finished :: bool
  k_exit_code :: int
  k_output :: string

record terminal_view =
  tv_session_id :: "nat option"
  tv_sessions :: "nat \<rightharpoonup> session_info"
  tv_long_running :: bool
  tv_refuses :: "string \<Rightarrow> string option"
  tv_blocks :: "action_block list"
  tv_active_block :: nat
  tv_reservation :: "nat option"

record host_app =
  r_sessions :: "string \<rightharpoonup> nat"
  r_pending_open :: "string set"
  r_batch :: "active_batch option"
  ssh_conn :: sync_db
  project_conn :: project_db
  clock :: nat
  live_views :: "nat \<rightharpoonup> terminal_view"
  next_action :: nat
  next_channel :: nat
  dropped :: "nat set"
  delivered :: "(nat \<times> json) list"
  emitted :: "app_event list"
  timers :: "nat list"

section \<open>The terminal\<close>

definition project_host_ssh_endpoint :: "terminal_view \<Rightarrow> (string option \<times> string option) option" where
  "project_host_ssh_endpoint view = do {
     session_id \<leftarrow> tv_session_id view;
     session \<leftarrow> tv_sessions view session_id;
     if si_ssh_wrapper session then si_connection session else None }"

definition has_active_long_running_block :: "nat \<Rightarrow> host_app \<Rightarrow> bool" where
  "has_active_long_running_block v s = (case live_views s v of None \<Rightarrow> False | Some view \<Rightarrow> tv_long_running view)"

definition block_for_ai_action_id :: "nat \<Rightarrow> terminal_view \<Rightarrow> action_block option" where
  "block_for_ai_action_id action view = find (\<lambda>k. k_action k = Some action) (tv_blocks view)"

definition project_agent_block_finished :: "nat \<Rightarrow> terminal_view \<Rightarrow> bool option" where
  "project_agent_block_finished action view = map_option k_finished (block_for_ai_action_id action view)"

definition project_agent_block_result :: "nat \<Rightarrow> terminal_view \<Rightarrow> (int option \<times> string) option" where
  "project_agent_block_result action view =
    map_option (\<lambda>k. (if k_finished k then Some (k_exit_code k) else None, k_output k))
      (block_for_ai_action_id action view)"

text \<open>PowerShell has no bracketed paste: several lines become a script block.\<close>

definition shell_command :: "shell_family option \<Rightarrow> string \<Rightarrow> string" where
  "shell_command family command =
    (if family = Some PowerShell \<and> CHR 0x0A \<in> set (trim command)
     then ''. { '' @ trim command @ '' }'' else command)"

definition execute_project_agent_command ::
  "string \<Rightarrow> nat \<Rightarrow> nat \<Rightarrow> nat \<Rightarrow> host_app \<Rightarrow> bool \<times> host_app" where
  "execute_project_agent_command command action conversation v s =
    (case live_views s v of
      None \<Rightarrow> (False, s)
    | Some view \<Rightarrow>
        (case tv_session_id view of
          None \<Rightarrow> (False, s)
        | Some session_id \<Rightarrow>
            (case tv_refuses view command of
              Some message \<Rightarrow> (False, s)
            | None \<Rightarrow>
                let family = map_option si_shell_family (tv_sessions view session_id);
                    view1 = view\<lparr>tv_reservation := Some (tv_active_block view)\<rparr>
                in (True, s\<lparr>live_views := (live_views s)(v \<mapsto> view1),
                     emitted := emitted s @
                       [ExecuteCommand v (shell_command family command) session_id action conversation]\<rparr>))))"

section \<open>The router\<close>

definition register_session :: "string \<Rightarrow> nat \<Rightarrow> host_app \<Rightarrow> host_app" where
  "register_session node v s = s\<lparr>r_sessions := (r_sessions s)(node \<mapsto> v)\<rparr>"

definition claim_pending_open :: "string \<Rightarrow> host_app \<Rightarrow> bool \<times> host_app" where
  "claim_pending_open node s =
    (node \<in> r_pending_open s, s\<lparr>r_pending_open := r_pending_open s - {node}\<rparr>)"

text \<open>\<open>done_tx.send\<close> and \<open>done_tx.is_canceled()\<close>.\<close>

definition send_result :: "nat \<Rightarrow> json \<Rightarrow> host_app \<Rightarrow> host_app" where
  "send_result tx value s = (if tx \<in> dropped s then s else s\<lparr>delivered := delivered s @ [(tx, value)]\<rparr>)"

definition resolve_target :: "string \<Rightarrow> host_app \<Rightarrow> (string + current_host) \<times> host_app" where
  "resolve_target node s =
    (case with_conn (\<lambda>conn. map_err repository_error_text (get_server node conn)) (ssh_conn s) of
      (Inl e, c) \<Rightarrow> (Inl (''the SSH node lookup failed: '' @ e), s\<lparr>ssh_conn := c\<rparr>)
    | (Inr None, c) \<Rightarrow> (Inl ''unknown node_id'', s\<lparr>ssh_conn := c\<rparr>)
    | (Inr (Some server), c) \<Rightarrow>
        (case with_projects (\<lambda>conn. map_err project_error_text (projects_for_node node conn)) (project_conn s) of
          (Inl e, d) \<Rightarrow> (Inl (''the project lookup failed: '' @ e), s\<lparr>ssh_conn := c, project_conn := d\<rparr>)
        | (Inr found, d) \<Rightarrow>
            (if found = [] then Inl ''the node belongs to no project, refused''
             else (case resolve_machine_key (Some (s_host server)) (Some (show_nat (unat (s_port server)))) of
                None \<Rightarrow> Inl ''the address of the host cannot be resolved''
              | Some key \<Rightarrow> Inr \<lparr>h_node_id = node,
                  h_display = s_host server @ CHR '':'' # show_nat (unat (s_port server)), h_machine_key = key\<rparr>),
             s\<lparr>ssh_conn := c, project_conn := d\<rparr>)))"

text \<open>A registered view that is gone is forgotten.\<close>

definition ready_view :: "string \<Rightarrow> string \<Rightarrow> host_app \<Rightarrow> nat option \<times> host_app" where
  "ready_view node key s =
    (case r_sessions s node of
      None \<Rightarrow> (None, s)
    | Some v \<Rightarrow>
        (case live_views s v of
          None \<Rightarrow> (None, s\<lparr>r_sessions := (r_sessions s)(node := None)\<rparr>)
        | Some view \<Rightarrow>
            (case project_host_ssh_endpoint view of
              None \<Rightarrow> (None, s)
            | Some (host, port) \<Rightarrow>
                (case resolve_machine_key host port of
                  None \<Rightarrow> (None, s)
                | Some session_key \<Rightarrow> (if session_key = key then Some v else None, s)))))"

definition schedule_tick :: "host_app \<Rightarrow> host_app" where
  "schedule_tick s = s\<lparr>timers := timers s @ [clock s + POLL_INTERVAL]\<rparr>"

definition set_phase :: "host_phase \<Rightarrow> host_app \<Rightarrow> host_app" where
  "set_phase phase s = s\<lparr>r_batch := map_option (\<lambda>b. b\<lparr>b_phase := Some phase\<rparr>) (r_batch s)\<rparr>"

definition finish :: "host_app \<Rightarrow> host_app" where
  "finish s =
    (case r_batch s of
      None \<Rightarrow> s
    | Some b \<Rightarrow> send_result (b_done_tx b) (aggregate_results (b_results b) (b_canary_aborted b))
        (s\<lparr>r_batch := None\<rparr>))"

text \<open>The \<open>while\<close> loop that fills in the hosts that were not reached.\<close>

definition skip_rest :: "active_batch \<Rightarrow> active_batch" where
  "skip_rest b = b\<lparr>b_results := b_results b @ map skipped_by_canary (drop (b_index b) (a_node_ids (b_args b))),
    b_index := max (b_index b) (length (a_node_ids (b_args b)))\<rparr>"

definition advanced :: "batch_host_result \<Rightarrow> active_batch \<Rightarrow> active_batch" where
  "advanced r b =
    b\<lparr>b_canary_aborted := b_canary_aborted b \<or> a_canary (b_args b) \<and> b_index b = 0 \<and> is_canary_failure r,
      b_results := b_results b @ [r], b_index := b_index b + 1, b_phase := None\<rparr>"

definition busy_result :: "current_host \<Rightarrow> batch_host_result" where
  "busy_result h =
    \<lparr>r_node_id = h_node_id h, r_host = h_display h, r_status = HostBusy, r_exit_code = None,
     r_output = ''the session is running a long command, skipped'', r_duration_ms = 0\<rparr>"

lemma ready_view_batch [simp]: "r_batch (snd (ready_view node key s)) = r_batch s"
  by (simp add: ready_view_def split: option.splits)

lemma resolve_target_batch [simp]: "r_batch (snd (resolve_target node s)) = r_batch s"
  by (auto simp: resolve_target_def split: prod.splits sum.splits option.splits)

lemma execute_batch [simp]: "r_batch (snd (execute_project_agent_command c a cv v s)) = r_batch s"
  by (auto simp: execute_project_agent_command_def Let_def split: option.splits)

text \<open>How much of the batch is left; the measure of the three functions that call each other.\<close>

definition hosts_left :: "host_app \<Rightarrow> nat" where
  "hosts_left s = (case r_batch s of None \<Rightarrow> 0 | Some b \<Rightarrow> length (a_node_ids (b_args b)) - b_index b)"

lemma hosts_left_cong: "r_batch s = r_batch s' \<Longrightarrow> hosts_left s = hosts_left s'"
  by (simp add: hosts_left_def)

function step :: "host_app \<Rightarrow> host_app"
  and begin_execute :: "current_host \<Rightarrow> nat \<Rightarrow> host_app \<Rightarrow> host_app"
  and push_result_and_advance :: "batch_host_result \<Rightarrow> host_app \<Rightarrow> host_app"
where
  "step s =
    (case r_batch s of
      None \<Rightarrow> s
    | Some b \<Rightarrow>
        if b_done_tx b \<in> dropped s then s\<lparr>r_batch := None\<rparr>
        else if b_canary_aborted b then finish (s\<lparr>r_batch := Some (skip_rest b)\<rparr>)
        else if length (a_node_ids (b_args b)) \<le> b_index b then finish s
        else
          (let node = a_node_ids (b_args b) ! b_index b; resolved = resolve_target node s
           in case fst resolved of
                Inl message \<Rightarrow> push_result_and_advance (failed node [] message) (snd resolved)
              | Inr target \<Rightarrow>
                  (let ready = ready_view (h_node_id target) (h_machine_key target) (snd resolved)
                   in case fst ready of
                        Some v \<Rightarrow> begin_execute target v (snd ready)
                      | None \<Rightarrow>
                          (let s1 = set_phase (WaitingReady target (clock s + READY_TIMEOUT)) (snd ready)
                           in schedule_tick (s1\<lparr>r_pending_open := insert node (r_pending_open s1),
                                emitted := emitted s1 @ [OpenHostSession node]\<rparr>)))))"
| "begin_execute host v s =
    (if has_active_long_running_block v s then push_result_and_advance (busy_result host) s
     else (case r_batch s of
        None \<Rightarrow> s
      | Some b \<Rightarrow>
          (let action = next_action s;
               executed = execute_project_agent_command (a_command (b_args b)) action (b_conversation_id b) v
                 (s\<lparr>next_action := next_action s + 1\<rparr>)
           in if \<not> fst executed
              then push_result_and_advance (failed (h_node_id host) (h_display host)
                ''the session cannot run a command'') (snd executed)
              else schedule_tick (set_phase (WaitingFinish host action (clock s)
                (clock s + 1000 * a_timeout_seconds (b_args b))) (snd executed)))))"
| "push_result_and_advance r s =
    (case r_batch s of
      None \<Rightarrow> s
    | Some b \<Rightarrow> step (s\<lparr>r_batch := Some (advanced r b)\<rparr>))"
  by pat_completeness auto
termination
proof (relation "measure (\<lambda>x. case x of
    Inl s \<Rightarrow> (if hosts_left s = 0 then 0 else 3 * hosts_left s + 3)
  | Inr (Inl (h, v, s)) \<Rightarrow> 3 * hosts_left s + 2
  | Inr (Inr (r, s)) \<Rightarrow> 3 * hosts_left s + 1)")
qed (auto simp: hosts_left_def advanced_def)

declare step.simps [simp del] begin_execute.simps [simp del] push_result_and_advance.simps [simp del]

definition start_batch :: "batch_args \<Rightarrow> nat \<Rightarrow> nat \<Rightarrow> host_app \<Rightarrow> host_app" where
  "start_batch args conversation tx s =
    (if r_batch s \<noteq> None then
       send_result tx (JObject [(''status'', JString ''error''),
         (''message'', JString ''another run_command_on_hosts batch is running'')]) s
     else step (s\<lparr>r_batch := Some \<lparr>b_args = args, b_conversation_id = conversation, b_done_tx = tx,
       b_results = [], b_index = 0, b_canary_aborted = False, b_phase = None\<rparr>\<rparr>))"

text \<open>\<open>execute_project_hosts_batch\<close>: the error of the arguments, or the channel of the result.\<close>

definition execute_project_hosts_batch :: "json \<Rightarrow> nat \<Rightarrow> host_app \<Rightarrow> (string + nat) \<times> host_app" where
  "execute_project_hosts_batch input conversation s =
    (case parse_batch_args input of
      Inl e \<Rightarrow> (Inl (''invalid run_command_on_hosts arguments: '' @ e), s)
    | Inr args \<Rightarrow>
        let tx = next_channel s
        in (Inr tx, start_batch args conversation tx (s\<lparr>next_channel := tx + 1\<rparr>)))"

definition finished_result :: "current_host \<Rightarrow> nat \<Rightarrow> nat \<Rightarrow> int option \<times> string \<Rightarrow> batch_host_result" where
  "finished_result h started now r =
    \<lparr>r_node_id = h_node_id h, r_host = h_display h,
     r_status = (if fst r = Some 0 then HostOk else HostError), r_exit_code = fst r,
     r_output = truncate_output (snd r), r_duration_ms = now - started\<rparr>"

definition timeout_result :: "current_host \<Rightarrow> nat \<Rightarrow> nat \<Rightarrow> string \<Rightarrow> batch_host_result" where
  "timeout_result h started now snapshot =
    \<lparr>r_node_id = h_node_id h, r_host = h_display h, r_status = HostTimeout, r_exit_code = None,
     r_output = truncate_output snapshot, r_duration_ms = now - started\<rparr>"

definition not_ready_result :: "current_host \<Rightarrow> batch_host_result" where
  "not_ready_result h =
    \<lparr>r_node_id = h_node_id h, r_host = h_display h, r_status = SessionNotReady, r_exit_code = None,
     r_output = ''the session was not ready within 60 seconds'', r_duration_ms = 0\<rparr>"

definition poll_phase :: "host_phase \<Rightarrow> host_app \<Rightarrow> host_app" where
  "poll_phase phase s =
    (case phase of
      WaitingReady host deadline \<Rightarrow>
        (let ready = ready_view (h_node_id host) (h_machine_key host) s
         in case fst ready of
              Some v \<Rightarrow> begin_execute host v (snd ready)
            | None \<Rightarrow>
                if deadline \<le> clock s then push_result_and_advance (not_ready_result host) (snd ready)
                else schedule_tick (snd ready))
    | WaitingFinish host action started deadline \<Rightarrow>
        (case Option.bind (r_sessions s (h_node_id host)) (live_views s) of
          None \<Rightarrow> push_result_and_advance (failed (h_node_id host) (h_display host)
            ''the session was closed during the execution'') s
        | Some view \<Rightarrow>
            (case project_agent_block_finished action view of
              Some True \<Rightarrow> push_result_and_advance (finished_result host started (clock s)
                (case project_agent_block_result action view of None \<Rightarrow> (None, []) | Some r \<Rightarrow> r)) s
            | _ \<Rightarrow>
                if deadline \<le> clock s then push_result_and_advance (timeout_result host started (clock s)
                  (case project_agent_block_result action view of None \<Rightarrow> [] | Some (_, out) \<Rightarrow> out)) s
                else schedule_tick s)))"

definition poll_tick :: "host_app \<Rightarrow> host_app" where
  "poll_tick s =
    (case r_batch s of
      None \<Rightarrow> s
    | Some b \<Rightarrow>
        if b_done_tx b \<in> dropped s then s\<lparr>r_batch := None\<rparr>
        else (case b_phase b of None \<Rightarrow> s | Some phase \<Rightarrow> poll_phase phase s))"

section \<open>The workspace\<close>

text \<open>
  The handler of \<open>OpenHostSession\<close> in one window; \<open>opened\<close> is the view that
  \<open>open_ssh_terminal\<close> creates, when it can, and registers.
\<close>

definition handle_open_host_session :: "nat option \<Rightarrow> string \<Rightarrow> host_app \<Rightarrow> host_app" where
  "handle_open_host_session opened node s =
    (case claim_pending_open node s of (claimed, s1) \<Rightarrow>
      if \<not> claimed then s1
      else (case with_conn (\<lambda>conn. map_err repository_error_text (get_server node conn)) (ssh_conn s1) of
          (Inr (Some server), c) \<Rightarrow>
            (case opened of
              None \<Rightarrow> s1\<lparr>ssh_conn := c\<rparr>
            | Some v \<Rightarrow> register_session node v (s1\<lparr>ssh_conn := c\<rparr>))
        | (_, c) \<Rightarrow> s1\<lparr>ssh_conn := c\<rparr>))"

section \<open>Runs\<close>

text \<open>
  A timer fires no earlier than it is due.  Between the steps of the router everything else may
  happen: time passes, other code changes the databases and the views, a receiver is dropped.
\<close>

inductive tick_step :: "host_app \<Rightarrow> host_app \<Rightarrow> bool" where
  tick: "i < length (timers s) \<Longrightarrow> timers s ! i \<le> clock s \<Longrightarrow>
    tick_step s (poll_tick (s\<lparr>timers := take i (timers s) @ drop (Suc i) (timers s)\<rparr>))"

inductive other_step :: "host_app \<Rightarrow> host_app \<Rightarrow> bool" where
  starts: "other_step s (snd (execute_project_hosts_batch input conversation s))"
| registers: "other_step s (register_session node v s)"
| opens: "other_step s (handle_open_host_session opened node s)"
| elsewhere: "clock s \<le> t \<Longrightarrow> dropped s \<subseteq> gone \<Longrightarrow>
    other_step s (s\<lparr>ssh_conn := c, project_conn := d, clock := t, live_views := vs, dropped := gone\<rparr>)"

text \<open>\<open>app_run k s s'\<close>: a run from \<open>s\<close> to \<open>s'\<close> in which \<open>k\<close> timers fired.\<close>

inductive app_run :: "nat \<Rightarrow> host_app \<Rightarrow> host_app \<Rightarrow> bool" where
  stays: "app_run 0 s s"
| ticks: "app_run k s s1 \<Longrightarrow> tick_step s1 s2 \<Longrightarrow> app_run (Suc k) s s2"
| others: "app_run k s s1 \<Longrightarrow> other_step s1 s2 \<Longrightarrow> app_run k s s2"

definition fresh_app :: "host_app \<Rightarrow> bool" where
  "fresh_app s \<longleftrightarrow> r_sessions s = Map.empty \<and> r_pending_open s = {} \<and> r_batch s = None \<and>
    delivered s = [] \<and> emitted s = [] \<and> timers s = []"

definition app_reachable :: "host_app \<Rightarrow> bool" where
  "app_reachable s \<longleftrightarrow> (\<exists>s0 k. fresh_app s0 \<and> app_run k s0 s)"

end
