(* ===== verification/Project_Context.thy ===== *)
theory Project_Context imports Project_Form_Rules Host_Router begin

text \<open>
  The context of a project conversation (\<open>app/src/ai/project_agent_context.rs\<close>): the rules,
  notes, repositories and hosts that the agent is shown, and so the identifiers it can pass to
  \<open>run_command_on_hosts\<close>.  The feature flag is an argument.
\<close>

definition RULES_MAX_CHARS :: nat where "RULES_MAX_CHARS = 8000"
definition NOTES_MAX_CHARS :: nat where "NOTES_MAX_CHARS = 2000"
definition HOSTS_MAX_PER_PROJECT :: nat where "HOSTS_MAX_PER_PROJECT = 50"
definition REPOSITORIES_MAX_PER_PROJECT :: nat where "REPOSITORIES_MAX_PER_PROJECT = 50"
definition TRUNCATION_MARKER :: string where "TRUNCATION_MARKER = ''...(truncated)''"

record project_host_info =
  hi_node_id :: string
  hi_name :: string
  hi_host :: string
  hi_port :: "16 word"
  hi_username :: string

record project_repository_info =
  ri_git_url :: string
  ri_server_node_ids :: "string list"

record project_context_entry =
  ce_project_id :: string
  ce_name :: string
  ce_repositories :: "project_repository_info list"
  ce_rules :: string
  ce_notes :: string
  ce_hosts :: "project_host_info list"

definition truncate_with_marker :: "string \<Rightarrow> nat \<Rightarrow> string" where
  "truncate_with_marker content max_chars =
    (if length content \<le> max_chars then content else take max_chars content @ TRUNCATION_MARKER)"

definition hosts_from_lookup ::
  "string list \<Rightarrow> (string \<Rightarrow> project_host_info option) \<Rightarrow> project_host_info list" where
  "hosts_from_lookup nodes lookup = List.map_filter lookup nodes"

text \<open>The names of the nodes as a \<open>HashMap\<close>: a later node with the same id wins.\<close>

definition node_names :: "ssh_node list \<Rightarrow> string \<rightharpoonup> string" where
  "node_names nodes = map_of (rev (map (\<lambda>n. (n_id n, n_name n)) nodes))"

fun resolve_loop ::
  "(string \<rightharpoonup> string) \<Rightarrow> string list \<Rightarrow> (string \<rightharpoonup> project_host_info) \<Rightarrow> 'a sync_db_scheme \<Rightarrow>
   (repository_error + (string \<rightharpoonup> project_host_info)) \<times> 'a sync_db_scheme" where
  "resolve_loop names [] resolved db = (Inr resolved, db)"
| "resolve_loop names (n # rest) resolved db =
    (case names n of
      None \<Rightarrow> resolve_loop names rest resolved db
    | Some name \<Rightarrow>
        attempt (get_server n db) (\<lambda>found db1. case found of
          None \<Rightarrow> resolve_loop names rest resolved db1
        | Some s \<Rightarrow> resolve_loop names rest (resolved(n \<mapsto>
            \<lparr>hi_node_id = n, hi_name = name, hi_host = s_host s, hi_port = s_port s,
             hi_username = s_username s\<rparr>)) db1))"

definition resolve_hosts_from_ssh_manager ::
  "string list \<Rightarrow> 'a sync_db_scheme \<Rightarrow> project_host_info list \<times> 'a sync_db_scheme" where
  "resolve_hosts_from_ssh_manager nodes db =
    (case with_conn (\<lambda>conn. map_err repository_error_text (attempt (list_nodes conn) (\<lambda>all conn1.
        resolve_loop (node_names all) nodes Map.empty conn1))) db of
      (Inl _, db1) \<Rightarrow> ([], db1)
    | (Inr resolved, db1) \<Rightarrow> (hosts_from_lookup nodes resolved, db1))"

definition build_entry :: "project \<Rightarrow> project_host_info list \<Rightarrow> project_context_entry" where
  "build_entry p all_hosts =
    (let hosts = take HOSTS_MAX_PER_PROJECT all_hosts;
         known = set (map hi_node_id hosts)
     in \<lparr>ce_project_id = p_id p, ce_name = p_name p,
         ce_repositories = map (\<lambda>g. \<lparr>ri_git_url = g_git_url g,
             ri_server_node_ids = filter (\<lambda>n. n \<in> known) (g_server_node_ids g)\<rparr>)
           (take REPOSITORIES_MAX_PER_PROJECT (p_repositories p)),
         ce_rules = truncate_with_marker (p_rules p) RULES_MAX_CHARS,
         ce_notes = truncate_with_marker (p_notes p) NOTES_MAX_CHARS,
         ce_hosts = hosts\<rparr>)"

definition read_record ::
  "string \<Rightarrow> project_db \<Rightarrow> (string + (project \<times> string list) option) \<times> project_db" where
  "read_record p = with_projects (\<lambda>conn. map_err project_error_text
    (attempt (get_project p conn) (\<lambda>found conn1. case found of
      None \<Rightarrow> (Inr None, conn1)
    | Some stored \<Rightarrow> attempt (servers_for_project p conn1) (\<lambda>nodes conn2. (Inr (Some (stored, nodes)), conn2)))))"

definition load_explicit_project ::
  "string \<Rightarrow> project_db \<Rightarrow> 'a sync_db_scheme \<Rightarrow> project_context_entry option \<times> project_db \<times> 'a sync_db_scheme" where
  "load_explicit_project p pdb db =
    (case read_record p pdb of
      (Inr (Some (stored, nodes)), pdb1) \<Rightarrow>
        (case resolve_hosts_from_ssh_manager nodes db of (hosts, db1) \<Rightarrow>
          (Some (build_entry stored hosts), pdb1, db1))
    | (_, pdb1) \<Rightarrow> (None, pdb1, db))"

definition load_for_conversation ::
  "bool \<Rightarrow> string option \<Rightarrow> project_db \<Rightarrow> 'a sync_db_scheme \<Rightarrow>
   project_context_entry option \<times> project_db \<times> 'a sync_db_scheme" where
  "load_for_conversation enabled explicit_project_id pdb db =
    (case explicit_project_id of
      None \<Rightarrow> (None, pdb, db)
    | Some p \<Rightarrow> if \<not> enabled then (None, pdb, db) else load_explicit_project p pdb db)"

section \<open>What the context holds\<close>

definition host_info_of :: "ssh_tables \<Rightarrow> project_host_info \<Rightarrow> bool" where
  "host_info_of T h \<longleftrightarrow> (\<exists>row s. find (\<lambda>r. sr_node_id r = hi_node_id h) (server_rows T) = Some row \<and>
    server_from_row row = Inr s \<and> hi_host h = s_host s \<and> hi_port h = s_port s)"

lemma reads_resolve_loop:
  "reads (resolve_loop names nodes resolved :: 'a sync_db_scheme \<Rightarrow> _) (\<lambda>T m. \<forall>n h. m n = Some h \<longrightarrow>
    resolved n = Some h \<or> n \<in> set nodes \<and> hi_node_id h = n \<and> host_info_of T h)"
proof (induction nodes arbitrary: resolved)
  case Nil
  have "reads (\<lambda>db :: 'a sync_db_scheme. (Inr resolved, db)) (\<lambda>T m. \<forall>n h. m n = Some h \<longrightarrow>
    resolved n = Some h \<or> n \<in> set [] \<and> hi_node_id h = n \<and> host_info_of T h)"
    by (rule reads_return) simp
  then show ?case by (simp add: reads_def)
next
  case (Cons n nodes)
  let ?Q = "\<lambda>ns r T m. \<forall>n h. m n = Some h \<longrightarrow> r n = Some h \<or> n \<in> set ns \<and> hi_node_id h = n \<and> host_info_of T h"
  have weak: "reads (resolve_loop names nodes resolved :: 'a sync_db_scheme \<Rightarrow> _) (?Q (n # nodes) resolved)"
    by (rule reads_mono [OF Cons.IH]) auto
  show ?case
  proof (cases "names n")
    case None
    then show ?thesis using weak by (simp add: reads_def)
  next
    case (Some name)
    let ?info = "\<lambda>s. \<lparr>hi_node_id = n, hi_name = name, hi_host = s_host s, hi_port = s_port s, hi_username = s_username s\<rparr>"
    have "reads (\<lambda>db :: 'a sync_db_scheme. attempt (get_server n db) (\<lambda>found db1. case found of
          None \<Rightarrow> resolve_loop names nodes resolved db1
        | Some s \<Rightarrow> resolve_loop names nodes (resolved(n \<mapsto> ?info s)) db1)) (?Q (n # nodes) resolved)"
    proof (rule reads_attempt [OF reads_get_server])
      fix T :: ssh_tables and found
      assume read: "case find (\<lambda>r. sr_node_id r = n) (server_rows T) of None \<Rightarrow> found = None
        | Some r \<Rightarrow> \<exists>s. found = Some s \<and> server_from_row r = Inr s"
      show "reads (\<lambda>db1 :: 'a sync_db_scheme. case found of None \<Rightarrow> resolve_loop names nodes resolved db1
        | Some s \<Rightarrow> resolve_loop names nodes (resolved(n \<mapsto> ?info s)) db1)
        (\<lambda>T' m. T' = T \<longrightarrow> ?Q (n # nodes) resolved T m)"
      proof (cases found)
        case None
        then show ?thesis by (simp only: option.case) (rule reads_mono [OF weak], blast)
      next
        case (Some s)
        have info: "host_info_of T (?info s)" using read Some by (auto simp: host_info_of_def split: option.splits)
        have more: "?Q (n # nodes) resolved T m" if "?Q nodes (resolved(n \<mapsto> ?info s)) T m" for m
        proof (intro allI impI)
          fix k h assume "m k = Some h"
          then have "(resolved(n \<mapsto> ?info s)) k = Some h \<or> k \<in> set nodes \<and> hi_node_id h = k \<and> host_info_of T h"
            using that by blast
          then show "resolved k = Some h \<or> k \<in> set (n # nodes) \<and> hi_node_id h = k \<and> host_info_of T h"
            using info by (auto split: if_splits)
        qed
        show ?thesis unfolding Some option.case
          by (rule reads_mono [OF Cons.IH]) (use more in blast)
      qed
    qed
    then show ?thesis using Some by (simp add: reads_def)
  qed
qed

lemma hosts_resolved:
  fixes db :: "'a sync_db_scheme"
  assumes "resolve_hosts_from_ssh_manager nodes db = (hosts, db')" and "h \<in> set hosts"
  shows "hi_node_id h \<in> set nodes \<and> host_info_of (ssh db) h"
proof -
  let ?f = "\<lambda>conn :: 'a sync_db_scheme. attempt (list_nodes conn)
    (\<lambda>all conn1. resolve_loop (node_names all) nodes Map.empty conn1)"
  let ?Q = "\<lambda>T m. \<forall>n h. m n = Some h \<longrightarrow> n \<in> set nodes \<and> hi_node_id h = n \<and> host_info_of T h"
  have read: "reads ?f ?Q"
    by (rule reads_attempt [OF reads_list_nodes], rule reads_mono [OF reads_resolve_loop]) auto
  obtain resolved where run: "with_conn (\<lambda>conn. map_err repository_error_text (?f conn)) db = (Inr resolved, db')"
    and hosts: "hosts = hosts_from_lookup nodes resolved"
    using assms by (auto simp: resolve_hosts_from_ssh_manager_def split: prod.splits sum.splits)
  have "?Q (ssh db) resolved"
  proof (cases rule: with_conn_cases [of "\<lambda>conn. map_err repository_error_text (?f conn)" db])
    case (fails e db1)
    then show ?thesis using run by simp
  next
    case (runs db1)
    have "map_err repository_error_text (?f db1) = (Inr resolved, db')" using runs(1) run by simp
    from readsD(2) [OF reads_map_err [OF read, of repository_error_text] this refl] show ?thesis
      using runs(2) by (simp only: same_tables_iff)
  qed
  then show ?thesis using assms(2) hosts by (auto simp: hosts_from_lookup_def List.map_filter_def)
qed

lemma read_record_result:
  assumes "read_record p db = (Inr found, db')"
  shows "found = map_option (\<lambda>stored. (stored, stored_servers (projects db) p)) (stored_project (projects db) p)"
proof -
  let ?next = "\<lambda>found conn1. case found of None \<Rightarrow> (Inr None, conn1)
    | Some stored \<Rightarrow> attempt (servers_for_project p conn1) (\<lambda>nodes conn2. (Inr (Some (stored, nodes)), conn2))"
  let ?val = "\<lambda>found T. map_option (\<lambda>stored. (stored, stored_servers T p)) found"
  have one: "views (\<lambda>conn1. attempt (servers_for_project p conn1) (\<lambda>nodes conn2. (Inr (Some (stored, nodes)), conn2)))
      (\<lambda>T. Some (stored, stored_servers T p))" for stored :: project
    by (rule views_attempt [OF views_servers, where k = "\<lambda>nodes T. Some (stored, nodes)"]) (rule views_return)
  have "views (?next found) (?val found)" for found :: "project option"
    using one by (cases found) (simp_all add: views_return)
  then have "views (\<lambda>conn. attempt (get_project p conn) ?next) (\<lambda>T. ?val (stored_project T p) T)"
    by (rule views_attempt [OF views_get])
  from with_projects_view(2) [OF this assms [unfolded read_record_def] refl] show ?thesis .
qed

section \<open>A listed host is accepted\<close>

definition quiet_conn :: "'a sync_db_scheme \<Rightarrow> bool" where
  "quiet_conn db \<longleftrightarrow> path_set db \<and> \<not> poisoned db \<and> statements db = []"

definition quiet_projects :: "project_db \<Rightarrow> bool" where
  "quiet_projects db \<longleftrightarrow> p_path_set db \<and> \<not> p_poisoned db \<and> p_statements db = []"

lemma connected_again [simp]: "connected db \<Longrightarrow> db\<lparr>connected := True\<rparr> = db"
  by (cases db) simp

lemma p_connected_again [simp]: "p_connected db \<Longrightarrow> db\<lparr>p_connected := True\<rparr> = db"
  by (cases db) simp

lemma with_conn_quiet: "quiet_conn db \<Longrightarrow> with_conn f db = f (db\<lparr>connected := True\<rparr>)"
  by (cases "connected db") (simp_all add: quiet_conn_def with_conn_def open_conn_def statement_def)

lemma with_projects_quiet: "quiet_projects db \<Longrightarrow> with_projects f db = f (db\<lparr>p_connected := True\<rparr>)"
  by (cases "p_connected db") (simp_all add: quiet_projects_def with_projects_def open_projects_def project_statement_def)

lemma get_server_quiet:
  "statements db = [] \<Longrightarrow> get_server n db =
    (transpose_opt server_from_row (find (\<lambda>r. sr_node_id r = n) (server_rows (ssh db))), db)"
  by (simp add: get_server_def select_def statement_def)

lemma resolve_target_accepts:
  assumes quiet: "quiet_conn (ssh_conn s)" "quiet_projects (project_conn s)"
    and host: "host_info_of (ssh (ssh_conn s)) h" and member: "node_projects (projects (project_conn s)) (hi_node_id h) \<noteq> []"
    and named: "key_host (hi_host h) \<noteq> []"
  shows "fst (resolve_target (hi_node_id h) s) = Inr
    \<lparr>h_node_id = hi_node_id h, h_display = machine_key (hi_host h) (hi_port h),
     h_machine_key = machine_key (key_host (hi_host h)) (hi_port h)\<rparr>"
proof -
  obtain row server where row: "find (\<lambda>r. sr_node_id r = hi_node_id h) (server_rows (ssh (ssh_conn s))) = Some row"
    "server_from_row row = Inr server" "hi_host h = s_host server" "hi_port h = s_port server"
    using host by (auto simp: host_info_of_def)
  have 1: "with_conn (\<lambda>conn. map_err repository_error_text (get_server (hi_node_id h) conn)) (ssh_conn s) =
      (Inr (Some server), (ssh_conn s)\<lparr>connected := True\<rparr>)"
    using quiet(1) row(1,2)
    by (simp add: with_conn_quiet get_server_quiet quiet_conn_def transpose_opt_def)
  have "projects_for_node (hi_node_id h) ((project_conn s)\<lparr>p_connected := True\<rparr>) =
      (Inr (node_projects (projects (project_conn s)) (hi_node_id h)), (project_conn s)\<lparr>p_connected := True\<rparr>)"
    using views_quiet [OF views_node_projects, of "(project_conn s)\<lparr>p_connected := True\<rparr>" "hi_node_id h"] quiet(2)
    by (simp add: quiet_projects_def)
  then have 2: "with_projects (\<lambda>conn. map_err project_error_text (projects_for_node (hi_node_id h) conn)) (project_conn s) =
      (Inr (node_projects (projects (project_conn s)) (hi_node_id h)), (project_conn s)\<lparr>p_connected := True\<rparr>)"
    using quiet(2) by (simp add: with_projects_quiet)
  show ?thesis using 1 2 member named row(3,4)
    by (simp add: resolve_target_def resolve_machine_key_def machine_key_def)
qed

end
