(* ===== verification/Router_Rules.thy ===== *)
theory Router_Rules imports Host_Router begin

text \<open>
  What one activity of the router does.  \<open>progress\<close> is the invariant of a batch between two
  hosts, \<open>waiting\<close> that of a batch whose host is being polled; \<open>settles\<close> says how an activity
  ends: with the report, with nothing when the receiver is gone, or waiting for one timer with
  at most one event emitted.
\<close>

section \<open>The invariants of a batch\<close>

fun host_of_phase :: "host_phase \<Rightarrow> current_host" where
  "host_of_phase (WaitingReady h d) = h"
| "host_of_phase (WaitingFinish h a st d) = h"

definition progress :: "active_batch \<Rightarrow> bool" where
  "progress b \<longleftrightarrow> b_index b \<le> length (a_node_ids (b_args b)) \<and>
    map r_node_id (b_results b) = take (b_index b) (a_node_ids (b_args b)) \<and>
    (\<forall>r \<in> set (b_results b). r_status r \<noteq> CanaryAborted) \<and>
    (b_canary_aborted b \<longleftrightarrow> a_canary (b_args b) \<and> b_results b \<noteq> [] \<and> is_canary_failure (hd (b_results b))) \<and>
    (b_canary_aborted b \<longrightarrow> b_index b = 1)"

definition ongoing :: "active_batch \<Rightarrow> bool" where
  "ongoing b \<longleftrightarrow> progress b \<and> \<not> b_canary_aborted b \<and> b_index b < length (a_node_ids (b_args b))"

definition current_node :: "active_batch \<Rightarrow> string" where
  "current_node b = a_node_ids (b_args b) ! b_index b"

text \<open>A resolved host: its key is that of the address it shows.\<close>

definition host_ok :: "current_host \<Rightarrow> bool" where
  "host_ok h \<longleftrightarrow> (\<exists>host port. h_display h = machine_key host port \<and> key_host host \<noteq> [] \<and>
    h_machine_key h = machine_key (key_host host) port)"

definition waiting :: "active_batch \<Rightarrow> bool" where
  "waiting b \<longleftrightarrow> ongoing b \<and> (\<exists>ph. b_phase b = Some ph \<and> h_node_id (host_of_phase ph) = current_node b \<and>
    host_ok (host_of_phase ph))"

definition same_batch :: "active_batch \<Rightarrow> active_batch \<Rightarrow> bool" where
  "same_batch b b' \<longleftrightarrow> b_args b' = b_args b \<and> b_done_tx b' = b_done_tx b \<and>
    b_conversation_id b' = b_conversation_id b \<and> b_index b \<le> b_index b'"

text \<open>The report: one result per requested node in its order, and the canary rule.\<close>

definition report_ok :: "batch_args \<Rightarrow> json \<Rightarrow> bool" where
  "report_ok args v \<longleftrightarrow> (\<exists>rs aborted. v = aggregate_results rs aborted \<and>
    map r_node_id rs = a_node_ids args \<and>
    (aborted \<longleftrightarrow> a_canary args \<and> rs \<noteq> [] \<and> is_canary_failure (hd rs)) \<and>
    (\<forall>i < length rs. r_status (rs ! i) = CanaryAborted \<longleftrightarrow> aborted \<and> 0 < i))"

lemma length_results: "progress b \<Longrightarrow> length (b_results b) = b_index b"
  unfolding progress_def by (metis length_map length_take min.absorb2)

lemma progress_advanced:
  assumes b: "ongoing b" and r: "r_node_id r = current_node b" "r_status r \<noteq> CanaryAborted"
  shows "progress (advanced r b)"
proof -
  have len: "length (b_results b) = b_index b" using b length_results by (simp add: ongoing_def)
  have hd: "hd (b_results b @ [r]) = (if b_index b = 0 then r else hd (b_results b))"
    using len by (cases "b_results b") auto
  have "b_canary_aborted (advanced r b) \<longleftrightarrow> a_canary (b_args b) \<and> is_canary_failure (hd (b_results b @ [r]))"
    using b len hd by (cases "b_results b") (auto simp: advanced_def ongoing_def progress_def)
  then show ?thesis
    using b r len by (auto simp: progress_def ongoing_def advanced_def current_node_def take_Suc_conv_app_nth)
qed

lemma report_complete:
  assumes "progress b" and "\<not> b_canary_aborted b" and "length (a_node_ids (b_args b)) \<le> b_index b"
  shows "report_ok (b_args b) (aggregate_results (b_results b) (b_canary_aborted b))"
  unfolding report_ok_def
proof (intro exI conjI)
  show "map r_node_id (b_results b) = a_node_ids (b_args b)" using assms by (simp add: progress_def)
  show "b_canary_aborted b \<longleftrightarrow> a_canary (b_args b) \<and> b_results b \<noteq> [] \<and> is_canary_failure (hd (b_results b))"
    using assms(1) by (simp add: progress_def)
  show "\<forall>i < length (b_results b). r_status (b_results b ! i) = CanaryAborted \<longleftrightarrow> b_canary_aborted b \<and> 0 < i"
    using assms by (auto simp: progress_def)
qed simp

lemma report_aborted:
  assumes p: "progress b" and "b_canary_aborted b"
  shows "report_ok (b_args b) (aggregate_results (b_results (skip_rest b)) (b_canary_aborted b))"
proof -
  have one: "b_index b = 1" "a_canary (b_args b)" using assms by (auto simp: progress_def)
  then obtain r where r: "b_results b = [r]" using length_results [OF p] by (cases "b_results b") auto
  let ?ids = "a_node_ids (b_args b)"
  let ?rs = "r # map skipped_by_canary (drop 1 ?ids)"
  have rs: "b_results (skip_rest b) = ?rs" using r one by (simp add: skip_rest_def)
  have ids: "?ids = r_node_id r # drop 1 ?ids"
    using p r one by (cases ?ids) (auto simp: progress_def)
  have status: "r_status (?rs ! i) = CanaryAborted \<longleftrightarrow> 0 < i" if "i < length ?rs" for i
    using p r that by (cases i) (auto simp: progress_def skipped_by_canary_def)
  have "map r_node_id ?rs = ?ids" using ids by (simp add: skipped_by_canary_def o_def)
  moreover have "is_canary_failure (hd ?rs)" using p r assms(2) by (simp add: progress_def)
  ultimately show ?thesis
    unfolding report_ok_def rs using status assms(2) one by (intro exI [of _ ?rs] exI [of _ True]) simp
qed

section \<open>What the parts leave alone\<close>

definition silent :: "host_app \<Rightarrow> host_app \<Rightarrow> bool" where
  "silent s s' \<longleftrightarrow> clock s' = clock s \<and> dropped s' = dropped s \<and> next_channel s' = next_channel s \<and>
    timers s' = timers s \<and> delivered s' = delivered s \<and> emitted s' = emitted s"

lemma silent_refl [simp]: "silent s s"
  by (simp add: silent_def)

lemma silent_trans [trans]: "silent s s1 \<Longrightarrow> silent s1 s2 \<Longrightarrow> silent s s2"
  by (simp add: silent_def)

lemma silent_batch [simp]: "silent s (s1\<lparr>r_batch := x\<rparr>) = silent s s1" "silent (s\<lparr>r_batch := x\<rparr>) s1 = silent s s1"
  by (simp_all add: silent_def)

lemma silent_resolve: "silent s (snd (resolve_target node s))"
  by (auto simp: resolve_target_def silent_def split: prod.splits sum.splits option.splits)

lemma silent_ready: "silent s (snd (ready_view node key s))"
  by (auto simp: ready_view_def silent_def split: option.splits)

lemma resolve_target_node:
  assumes "fst (resolve_target node s) = Inr h"
  shows "h_node_id h = node" and "host_ok h"
proof -
  obtain server :: ssh_server_info and key where h: "resolve_machine_key (Some (s_host server)) (Some (show_nat (unat (s_port server)))) = Some key"
    "h = \<lparr>h_node_id = node, h_display = s_host server @ CHR '':'' # show_nat (unat (s_port server)), h_machine_key = key\<rparr>"
    using assms by (auto simp: resolve_target_def split: prod.splits sum.splits option.splits if_splits)
  show "h_node_id h = node" using h(2) by simp
  show "host_ok h" using h unfolding host_ok_def
    by (intro exI [of _ "s_host server"] exI [of _ "s_port server"])
      (simp add: resolve_machine_key_Some machine_key_def)
qed

text \<open>A view that is connected to the machine of a host.\<close>

definition view_matches :: "host_app \<Rightarrow> nat \<Rightarrow> current_host \<Rightarrow> bool" where
  "view_matches s v h \<longleftrightarrow> (\<exists>view host port. live_views s v = Some view \<and>
    project_host_ssh_endpoint view = Some (host, port) \<and>
    resolve_machine_key host port = Some (h_machine_key h))"

lemma ready_view_matches:
  assumes "fst (ready_view (h_node_id h) (h_machine_key h) s) = Some v"
  shows "snd (ready_view (h_node_id h) (h_machine_key h) s) = s" "r_sessions s (h_node_id h) = Some v"
    "view_matches s v h"
  using assms by (auto simp: ready_view_def view_matches_def split: option.splits if_splits)

lemma execute_cases:
  obtains (refused) "execute_project_agent_command command action conv v s = (False, s)"
    | (sent) view session_id where "live_views s v = Some view" "tv_session_id view = Some session_id"
      "execute_project_agent_command command action conv v s =
        (True, s\<lparr>live_views := (live_views s)(v \<mapsto> view\<lparr>tv_reservation := Some (tv_active_block view)\<rparr>),
          emitted := emitted s @ [ExecuteCommand v
            (shell_command (map_option si_shell_family (tv_sessions view session_id)) command)
            session_id action conv]\<rparr>)"
  by (cases "live_views s v"; cases "tv_session_id (the (live_views s v))";
      cases "tv_refuses (the (live_views s v)) command")
    (auto simp: execute_project_agent_command_def Let_def)

section \<open>How an activity ends\<close>

definition dispatched :: "host_app \<Rightarrow> host_app \<Rightarrow> active_batch \<Rightarrow> current_host \<Rightarrow> nat \<Rightarrow> bool" where
  "dispatched s s' b h action \<longleftrightarrow> (\<exists>v view session_id.
    r_sessions s' (h_node_id h) = Some v \<and> live_views s' v = Some view \<and> view_matches s' v h \<and>
    \<not> tv_long_running view \<and> tv_session_id view = Some session_id \<and>
    emitted s' = emitted s @ [ExecuteCommand v
      (shell_command (map_option si_shell_family (tv_sessions view session_id)) (a_command (b_args b)))
      session_id action (b_conversation_id b)])"

definition suspended :: "host_app \<Rightarrow> host_app \<Rightarrow> active_batch \<Rightarrow> bool" where
  "suspended s s' b \<longleftrightarrow> waiting b \<and> timers s' = timers s @ [clock s + POLL_INTERVAL] \<and> delivered s' = delivered s \<and>
    (case the (b_phase b) of
      WaitingReady h d \<Rightarrow> d = clock s + READY_TIMEOUT \<and> emitted s' = emitted s @ [OpenHostSession (h_node_id h)]
    | WaitingFinish h action st d \<Rightarrow> st = clock s \<and> d = clock s + 1000 * a_timeout_seconds (b_args b) \<and>
        dispatched s s' b h action)"

definition ended :: "host_app \<Rightarrow> host_app \<Rightarrow> active_batch \<Rightarrow> bool" where
  "ended s s' b \<longleftrightarrow> timers s' = timers s \<and> emitted s' = emitted s \<and>
    (if b_done_tx b \<in> dropped s then delivered s' = delivered s
     else \<exists>v. delivered s' = delivered s @ [(b_done_tx b, v)] \<and> report_ok (b_args b) v)"

definition settles :: "active_batch \<Rightarrow> host_app \<Rightarrow> host_app \<Rightarrow> bool" where
  "settles b s s' \<longleftrightarrow> clock s' = clock s \<and> dropped s' = dropped s \<and> next_channel s' = next_channel s \<and>
    (case r_batch s' of
      None \<Rightarrow> ended s s' b
    | Some b' \<Rightarrow> same_batch b b' \<and> suspended s s' b')"

lemma settles_after:
  assumes "settles b1 s1 s'" and "silent s s1" and "same_batch b b1"
  shows "settles b s s'"
proof (cases "r_batch s'")
  case None
  then show ?thesis using assms by (auto simp: settles_def silent_def same_batch_def ended_def)
next
  case (Some b')
  have "suspended s s' b'" using assms Some
    by (auto simp: settles_def silent_def suspended_def dispatched_def split: host_phase.splits)
  then show ?thesis using assms Some by (auto simp: settles_def silent_def same_batch_def)
qed

lemma finish_settles:
  assumes "r_batch s = Some b'" and "b_done_tx b' = b_done_tx b" and "b_args b' = b_args b"
    and "report_ok (b_args b) (aggregate_results (b_results b') (b_canary_aborted b'))"
  shows "settles b s (finish s)"
  using assms by (auto simp: finish_def send_result_def settles_def ended_def)

lemma same_batch_advanced [simp]: "same_batch b (advanced r b)"
  by (simp add: same_batch_def advanced_def)

lemma set_phase_fields [simp]:
  "timers (set_phase ph s) = timers s" "clock (set_phase ph s) = clock s" "dropped (set_phase ph s) = dropped s"
  "next_channel (set_phase ph s) = next_channel s" "delivered (set_phase ph s) = delivered s"
  "emitted (set_phase ph s) = emitted s" "live_views (set_phase ph s) = live_views s"
  "r_sessions (set_phase ph s) = r_sessions s" "r_pending_open (set_phase ph s) = r_pending_open s"
  "r_batch (set_phase ph s) = map_option (\<lambda>b. b\<lparr>b_phase := Some ph\<rparr>) (r_batch s)"
  by (simp_all add: set_phase_def)

lemma ongoing_phase: "ongoing (b\<lparr>b_phase := x\<rparr>) = ongoing b"
  by (simp add: ongoing_def progress_def)

lemma waiting_phase:
  "ongoing b \<Longrightarrow> h_node_id (host_of_phase ph) = current_node b \<Longrightarrow> host_ok (host_of_phase ph) \<Longrightarrow>
    waiting (b\<lparr>b_phase := Some ph\<rparr>)"
  by (simp add: waiting_def ongoing_phase current_node_def)

lemma suspends_ready:
  assumes "r_batch s = Some b" and "ongoing b" and "h_node_id h = current_node b" "host_ok h"
    and s1: "s1 = set_phase (WaitingReady h (clock s + READY_TIMEOUT)) s"
  shows "settles b s (schedule_tick (s1\<lparr>r_pending_open := x, emitted := emitted s1 @ [OpenHostSession (current_node b)]\<rparr>))"
  using assms by (simp add: settles_def suspended_def schedule_tick_def waiting_phase same_batch_def)

lemma suspends_finish:
  assumes b: "r_batch s = Some b" "ongoing b" and h: "h_node_id h = current_node b" "host_ok h"
    and v: "r_sessions s (h_node_id h) = Some v" "view_matches s v h" "\<not> has_active_long_running_block v s"
    and sent: "execute_project_agent_command (a_command (b_args b)) (next_action s) (b_conversation_id b) v
      (s\<lparr>next_action := next_action s + 1\<rparr>) = (True, s1)"
  shows "settles b s (schedule_tick (set_phase (WaitingFinish h (next_action s) (clock s)
    (clock s + 1000 * a_timeout_seconds (b_args b))) s1))"
    (is "settles b s ?s'")
proof (cases rule: execute_cases [of "a_command (b_args b)" "next_action s" "b_conversation_id b" v
      "s\<lparr>next_action := next_action s + 1\<rparr>"])
  case refused
  then show ?thesis using sent by simp
next
  case (sent view session_id)
  let ?view = "view\<lparr>tv_reservation := Some (tv_active_block view)\<rparr>"
  have s1: "s1 = s\<lparr>next_action := next_action s + 1, live_views := (live_views s)(v \<mapsto> ?view),
      emitted := emitted s @ [ExecuteCommand v
        (shell_command (map_option si_shell_family (tv_sessions view session_id)) (a_command (b_args b)))
        session_id (next_action s) (b_conversation_id b)]\<rparr>"
    using sent \<open>execute_project_agent_command _ _ _ _ _ = (True, s1)\<close> by simp
  have "project_host_ssh_endpoint ?view = project_host_ssh_endpoint view"
    by (simp add: project_host_ssh_endpoint_def)
  then have "view_matches ?s' v h" using v(2) sent(1) s1 by (simp add: view_matches_def schedule_tick_def)
  moreover have "\<not> tv_long_running view" using v(3) sent(1) by (simp add: has_active_long_running_block_def)
  ultimately have "dispatched s ?s' b h (next_action s)"
    using v(1) sent(1,2) s1 by (simp add: dispatched_def schedule_tick_def)
  then show ?thesis using b h s1
    by (auto simp: settles_def suspended_def schedule_tick_def waiting_phase same_batch_def dispatched_def)
qed

lemma settles_push:
  assumes "settles (advanced r b) (s\<lparr>r_batch := Some (advanced r b)\<rparr>) s'"
  shows "settles (advanced r b) s s'"
  by (rule settles_after [OF assms]) (simp_all add: same_batch_def)

lemma same_batch_trans: "same_batch a b \<Longrightarrow> same_batch b c \<Longrightarrow> same_batch a c"
  by (simp add: same_batch_def)

lemma same_batch_refl [simp]: "same_batch b b"
  by (simp add: same_batch_def)

lemma settles_advanced: "settles (advanced r b) s1 s' \<Longrightarrow> silent s s1 \<Longrightarrow> settles b s s'"
  by (erule settles_after) simp_all

text \<open>A batch with nothing more to dispatch.\<close>

lemma step_settles_end:
  assumes s: "r_batch s = Some b" "progress b" and stop: "b_done_tx b \<in> dropped s \<or> \<not> ongoing b"
  shows "settles b s (step s)"
proof -
  consider "b_done_tx b \<in> dropped s" | "b_done_tx b \<notin> dropped s" "b_canary_aborted b"
    | "b_done_tx b \<notin> dropped s" "\<not> b_canary_aborted b" "length (a_node_ids (b_args b)) \<le> b_index b"
    using stop s(2) unfolding ongoing_def by fastforce
  then show ?thesis
  proof cases
    case 1
    then show ?thesis using s by (simp add: step.simps [of s] settles_def ended_def)
  next
    case 2
    have fields: "b_canary_aborted (skip_rest b) = b_canary_aborted b" "b_args (skip_rest b) = b_args b"
      "b_done_tx (skip_rest b) = b_done_tx b"
      by (simp_all add: skip_rest_def)
    have "settles b (s\<lparr>r_batch := Some (skip_rest b)\<rparr>) (finish (s\<lparr>r_batch := Some (skip_rest b)\<rparr>))"
      by (rule finish_settles [where b' = "skip_rest b"]) (use fields report_aborted [OF s(2) 2(2)] in simp_all)
    then have "settles b s (finish (s\<lparr>r_batch := Some (skip_rest b)\<rparr>))" by (rule settles_after) simp_all
    then show ?thesis using s(1) 2 by (simp add: step.simps [of s])
  next
    case 3
    have "settles b s (finish s)"
      by (rule finish_settles [OF s(1) refl refl]) (use report_complete [OF s(2) 3(2,3)] in simp)
    then show ?thesis using s(1) 3 by (simp add: step.simps [of s])
  qed
qed

lemma step_settles_more:
  assumes s: "r_batch s = Some b" "ongoing b" "b_done_tx b \<notin> dropped s"
    and push: "\<And>message. fst (resolve_target (current_node b) s) = Inl message \<Longrightarrow>
      settles (advanced (failed (current_node b) [] message) b) (snd (resolve_target (current_node b) s))
        (push_result_and_advance (failed (current_node b) [] message) (snd (resolve_target (current_node b) s)))"
    and goes_on: "\<And>h v. fst (resolve_target (current_node b) s) = Inr h \<Longrightarrow>
      fst (ready_view (h_node_id h) (h_machine_key h) (snd (resolve_target (current_node b) s))) = Some v \<Longrightarrow>
      settles b (snd (resolve_target (current_node b) s))
        (begin_execute h v (snd (resolve_target (current_node b) s)))"
  shows "settles b s (step s)"
proof -
  let ?s1 = "snd (resolve_target (current_node b) s)"
  have plain: "\<not> b_canary_aborted b" "\<not> length (a_node_ids (b_args b)) \<le> b_index b"
    using s(2) by (simp_all add: ongoing_def)
  note unfold = step.simps [of s] s(1,3) plain current_node_def [symmetric] Let_def
  show ?thesis
  proof (cases "fst (resolve_target (current_node b) s)")
    case (Inl message)
    have "settles b s (push_result_and_advance (failed (current_node b) [] message) ?s1)"
      by (rule settles_advanced [OF push [OF Inl] silent_resolve])
    then show ?thesis using Inl by (simp add: unfold)
  next
    case (Inr h)
    let ?ready = "ready_view (h_node_id h) (h_machine_key h) ?s1"
    have node: "h_node_id h = current_node b" "host_ok h" using resolve_target_node [OF Inr] by simp_all
    show ?thesis
    proof (cases "fst ?ready")
      case (Some v)
      have "settles b s (begin_execute h v ?s1)"
        by (rule settles_after [OF goes_on [OF Inr Some] silent_resolve]) simp
      then show ?thesis using Inr Some ready_view_matches(1) [OF Some] by (simp add: unfold)
    next
      case None
      let ?s2 = "snd ?ready"
      have quiet: "silent s ?s2" using silent_trans [OF silent_resolve silent_ready] .
      have same: "clock ?s2 = clock s" using quiet by (simp add: silent_def)
      let ?s3 = "set_phase (WaitingReady h (clock s + READY_TIMEOUT)) ?s2"
      have "settles b ?s2 (schedule_tick (?s3\<lparr>r_pending_open := insert (current_node b) (r_pending_open ?s3),
          emitted := emitted ?s3 @ [OpenHostSession (current_node b)]\<rparr>))"
        by (rule suspends_ready [OF _ s(2) node]) (simp_all add: s(1) same)
      then show ?thesis using Inr None settles_after [OF _ quiet same_batch_refl] by (simp add: unfold)
    qed
  qed
qed

lemma begin_execute_settles:
  assumes s: "r_batch s = Some b" "ongoing b" and h: "h_node_id h = current_node b" "host_ok h"
    and v: "r_sessions s (h_node_id h) = Some v" "view_matches s v h"
    and push_busy: "has_active_long_running_block v s \<Longrightarrow>
      settles (advanced (busy_result h) b) s (push_result_and_advance (busy_result h) s)"
    and push_failed: "\<And>r s1. \<not> has_active_long_running_block v s \<Longrightarrow> s1 = s\<lparr>next_action := next_action s + 1\<rparr> \<Longrightarrow>
      execute_project_agent_command (a_command (b_args b)) (next_action s) (b_conversation_id b) v s1 = (False, s1) \<Longrightarrow>
      r = failed (h_node_id h) (h_display h) ''the session cannot run a command'' \<Longrightarrow>
      settles (advanced r b) s1 (push_result_and_advance r s1)"
  shows "settles b s (begin_execute h v s)"
proof (cases "has_active_long_running_block v s")
  case True
  then show ?thesis using settles_advanced [OF push_busy] by (simp add: begin_execute.simps [of h v s])
next
  case idle: False
  let ?s1 = "s\<lparr>next_action := next_action s + 1\<rparr>"
  let ?run = "execute_project_agent_command (a_command (b_args b)) (next_action s) (b_conversation_id b) v ?s1"
  have quiet: "silent s ?s1" by (simp add: silent_def)
  obtain sent s2 where run: "?run = (sent, s2)" by fastforce
  show ?thesis
  proof (cases sent)
    case True
    have "settles b s (schedule_tick (set_phase (WaitingFinish h (next_action s) (clock s)
        (clock s + 1000 * a_timeout_seconds (b_args b))) s2))"
      using run True by (intro suspends_finish [OF s h v idle]) simp
    then show ?thesis using run True idle s(1) by (simp add: begin_execute.simps [of h v s] Let_def)
  next
    case False
    then have refused: "?run = (False, ?s1)"
      using run by (cases rule: execute_cases [of "a_command (b_args b)" "next_action s" "b_conversation_id b" v ?s1]) auto
    let ?r = "failed (h_node_id h) (h_display h) ''the session cannot run a command''"
    have "settles b s (push_result_and_advance ?r ?s1)"
      by (rule settles_advanced [OF push_failed [OF idle refl refused refl] quiet])
    then show ?thesis using refused idle s(1) by (simp add: begin_execute.simps [of h v s] Let_def)
  qed
qed

lemma router_settles_all:
  "(\<forall>b. r_batch s = Some b \<longrightarrow> progress b \<longrightarrow> settles b s (step s))"
  "(\<forall>b. r_batch s' = Some b \<longrightarrow> ongoing b \<longrightarrow> h_node_id h = current_node b \<longrightarrow> host_ok h \<longrightarrow>
      r_sessions s' (h_node_id h) = Some v \<longrightarrow> view_matches s' v h \<longrightarrow> settles b s' (begin_execute h v s'))"
  "(\<forall>b. r_batch s'' = Some b \<longrightarrow> ongoing b \<longrightarrow> r_node_id r = current_node b \<longrightarrow> r_status r \<noteq> CanaryAborted \<longrightarrow>
      settles (advanced r b) s'' (push_result_and_advance r s''))"
proof (induction s and h v s' and r s'' rule: step_begin_execute_push_result_and_advance.induct)
  case (1 s)
  show ?case
  proof (intro allI impI)
    fix b assume b: "r_batch s = Some b" "progress b"
    show "settles b s (step s)"
    proof (cases "b_done_tx b \<in> dropped s \<or> \<not> ongoing b")
      case True
      then show ?thesis by (rule step_settles_end [OF b])
    next
      case False
      then have live: "b_done_tx b \<notin> dropped s" "ongoing b"
        and plain: "\<not> b_canary_aborted b" "\<not> length (a_node_ids (b_args b)) \<le> b_index b"
        by (simp_all add: ongoing_def)
      note push = 1(1) [OF b(1) live(1) plain refl refl, folded current_node_def]
      note goes_on = 1(2) [OF b(1) live(1) plain refl refl _ refl, folded current_node_def]
      show ?thesis
      proof (rule step_settles_more [OF b(1) live(2,1)])
        fix message assume "fst (resolve_target (current_node b) s) = Inl message"
        from push [OF this] show "settles (advanced (failed (current_node b) [] message) b) (snd (resolve_target (current_node b) s))
          (push_result_and_advance (failed (current_node b) [] message) (snd (resolve_target (current_node b) s)))"
          using b(1) live(2) by (simp add: failed_def)
      next
        fix h v
        assume h: "fst (resolve_target (current_node b) s) = Inr h"
          and v: "fst (ready_view (h_node_id h) (h_machine_key h) (snd (resolve_target (current_node b) s))) = Some v"
        from goes_on [OF h v] show "settles b (snd (resolve_target (current_node b) s))
          (begin_execute h v (snd (resolve_target (current_node b) s)))"
          using b(1) live(2) resolve_target_node [OF h] ready_view_matches [OF v] by simp
      qed
    qed
  qed
next
  case (2 h v s)
  show ?case
  proof (intro allI impI)
    fix b assume b: "r_batch s = Some b" "ongoing b" and h: "h_node_id h = current_node b" "host_ok h"
      and v: "r_sessions s (h_node_id h) = Some v" "view_matches s v h"
    show "settles b s (begin_execute h v s)"
    proof (rule begin_execute_settles [OF b h v])
      assume "has_active_long_running_block v s"
      from 2(1) [OF this] show "settles (advanced (busy_result h) b) s (push_result_and_advance (busy_result h) s)"
        using b h by (simp add: busy_result_def)
    next
      fix r s1
      assume "\<not> has_active_long_running_block v s" "s1 = s\<lparr>next_action := next_action s + 1\<rparr>"
        and refused: "execute_project_agent_command (a_command (b_args b)) (next_action s) (b_conversation_id b) v s1 = (False, s1)"
        and r: "r = failed (h_node_id h) (h_display h) ''the session cannot run a command''"
      with 2(2) [OF _ b(1) refl refl] show "settles (advanced r b) s1 (push_result_and_advance r s1)"
        using b h by (simp add: failed_def)
    qed
  qed
next
  case (3 r s)
  show ?case
  proof (intro allI impI)
    fix b assume b: "r_batch s = Some b" "ongoing b" and r: "r_node_id r = current_node b" "r_status r \<noteq> CanaryAborted"
    have "settles (advanced r b) (s\<lparr>r_batch := Some (advanced r b)\<rparr>) (step (s\<lparr>r_batch := Some (advanced r b)\<rparr>))"
      using 3 [OF b(1)] progress_advanced [OF b(2) r] by simp
    then show "settles (advanced r b) s (push_result_and_advance r s)"
      using b(1) settles_push by (simp add: push_result_and_advance.simps [of r s])
  qed
qed

lemmas router_settles = router_settles_all(1) [rule_format] router_settles_all(2) [rule_format]
  router_settles_all(3) [rule_format]

end
