(* ===== verification/Router_Runs.thy ===== *)
theory Router_Runs imports Router_Rules begin

text \<open>
  Runs of the router: the invariant of the reachable states, the bound on the number of polls of
  a batch, and what becomes of a result channel.
\<close>

section \<open>One poll\<close>

definition polls_on :: "active_batch \<Rightarrow> host_app \<Rightarrow> host_app \<Rightarrow> bool" where
  "polls_on b s s' \<longleftrightarrow> r_batch s' = Some b \<and> timers s' = timers s @ [clock s + POLL_INTERVAL] \<and>
    clock s' = clock s \<and> dropped s' = dropped s \<and> next_channel s' = next_channel s \<and>
    delivered s' = delivered s \<and> emitted s' = emitted s \<and>
    (case the (b_phase b) of WaitingReady h d \<Rightarrow> clock s < d | WaitingFinish h a st d \<Rightarrow> clock s < d)"

definition is_finish_phase :: "active_batch \<Rightarrow> bool" where
  "is_finish_phase b \<longleftrightarrow> (case b_phase b of Some (WaitingFinish h a st d) \<Rightarrow> True | _ \<Rightarrow> False)"

lemma begin_execute_moves:
  assumes b: "r_batch s = Some b" "ongoing b" and h: "h_node_id h = current_node b"
    and b': "r_batch (begin_execute h v s) = Some b'" "b_index b' = b_index b"
  shows "is_finish_phase b'"
proof (rule ccontr)
  assume other: "\<not> is_finish_phase b'"
  have moved: "b_index b < b_index x" if "r_batch s1 = Some b" "r_node_id r = current_node b" "r_status r \<noteq> CanaryAborted"
    "r_batch (push_result_and_advance r s1) = Some x" for r s1 x
    using router_settles(3) [OF that(1) b(2) that(2,3)] that(4)
    by (simp add: settles_def same_batch_def advanced_def)
  let ?s1 = "s\<lparr>next_action := next_action s + 1\<rparr>"
  let ?run = "execute_project_agent_command (a_command (b_args b)) (next_action s) (b_conversation_id b) v ?s1"
  have batch: "r_batch (snd ?run) = Some b" using b(1) by simp
  show False
  proof (cases "has_active_long_running_block v s")
    case True
    then show False using moved [OF b(1), of "busy_result h" b'] b' h
      by (simp add: begin_execute.simps [of h v s] busy_result_def)
  next
    case idle: False
    show False
    proof (cases "fst ?run")
      case True
      then show False using b' b(1) idle other batch
        by (auto simp: begin_execute.simps [of h v s] Let_def schedule_tick_def is_finish_phase_def)
    next
      case False
      then show False using moved [OF batch, of "failed (h_node_id h) (h_display h) ''the session cannot run a command''" b']
          b' b(1) idle h
        by (simp add: begin_execute.simps [of h v s] Let_def failed_def)
    qed
  qed
qed

lemma result_fields [simp]:
  "r_node_id (finished_result h st t r) = h_node_id h" "r_status (finished_result h st t r) \<noteq> CanaryAborted"
  "r_node_id (timeout_result h st t out) = h_node_id h" "r_status (timeout_result h st t out) \<noteq> CanaryAborted"
  by (simp_all add: finished_result_def timeout_result_def)

text \<open>
  A poll goes on, or begins the execution, or is done with the host.
\<close>

lemma poll_cases:
  assumes b: "r_batch s = Some b" "waiting b" and live: "b_done_tx b \<notin> dropped s"
  obtains (polls) "polls_on b s (poll_tick s)"
    | (begins) h d where "b_phase b = Some (WaitingReady h d)" "settles b s (poll_tick s)"
      "\<And>b'. r_batch (poll_tick s) = Some b' \<Longrightarrow> b_index b' = b_index b \<Longrightarrow> is_finish_phase b'"
    | (advances) r where "settles (advanced r b) s (poll_tick s)"
proof -
  obtain ph where ph: "b_phase b = Some ph" and node: "h_node_id (host_of_phase ph) = current_node b" "host_ok (host_of_phase ph)"
    and ong: "ongoing b" using b(2) by (auto simp: waiting_def)
  have poll: "poll_tick s = poll_phase ph s" using b(1) live ph by (simp add: poll_tick_def)
  have push: "settles (advanced r b) s (push_result_and_advance r s)"
    if "r_node_id r = current_node b" "r_status r \<noteq> CanaryAborted" for r
    by (rule router_settles(3) [OF b(1) ong that])
  show thesis
  proof (cases ph)
    case ready: (WaitingReady h d)
    let ?ready = "ready_view (h_node_id h) (h_machine_key h) s" and ?s1 = "snd (ready_view (h_node_id h) (h_machine_key h) s)"
    have b1: "r_batch ?s1 = Some b" and quiet: "silent s ?s1" using b(1) silent_ready by simp_all
    have h: "h_node_id h = current_node b" "host_ok h" using node ready by simp_all
    show thesis
    proof (cases "fst ?ready")
      case (Some v)
      have eq: "poll_tick s = begin_execute h v s"
        using poll ready Some ready_view_matches(1) [OF Some] by (simp add: poll_phase_def Let_def)
      show thesis
        using begins [of h d] ph ready router_settles(2) [OF b(1) ong h ready_view_matches(2,3) [OF Some]]
          begin_execute_moves [OF b(1) ong h(1)] eq by simp
    next
      case None
      show thesis
      proof (cases "d \<le> clock s")
        case True
        have "settles (advanced (not_ready_result h) b) ?s1 (push_result_and_advance (not_ready_result h) ?s1)"
          by (rule router_settles(3) [OF b1 ong]) (simp_all add: not_ready_result_def h)
        then have "settles (advanced (not_ready_result h) b) s (push_result_and_advance (not_ready_result h) ?s1)"
          by (rule settles_after) (simp_all add: quiet)
        then show thesis using advances poll ready None True by (simp add: poll_phase_def Let_def)
      next
        case False
        then have eq: "poll_tick s = schedule_tick ?s1" using poll ready None by (simp add: poll_phase_def Let_def)
        have "polls_on b s (poll_tick s)" unfolding eq
          using False quiet b1 ph ready by (simp add: polls_on_def schedule_tick_def silent_def)
        then show thesis by (rule polls)
      qed
    qed
  next
    case finish: (WaitingFinish h action st d)
    have h: "h_node_id h = current_node b" using node finish by simp
    note phase = poll finish poll_phase_def
    show thesis
    proof (cases "Option.bind (r_sessions s (h_node_id h)) (live_views s)")
      case None
      then show thesis
        using advances [of "failed (h_node_id h) (h_display h) ''the session was closed during the execution''"] push h
        by (simp add: phase failed_def)
    next
      case (Some view)
      show thesis
      proof (cases "project_agent_block_finished action view = Some True")
        case True
        let ?r = "finished_result h st (clock s)
          (case project_agent_block_result action view of None \<Rightarrow> (None, []) | Some r \<Rightarrow> r)"
        have "poll_tick s = push_result_and_advance ?r s" using Some True by (simp add: phase)
        moreover have "settles (advanced ?r b) s (push_result_and_advance ?r s)" by (rule push) (simp_all add: h)
        ultimately show thesis using advances by metis
      next
        case False
        then have late: "poll_phase ph s = (if d \<le> clock s then push_result_and_advance (timeout_result h st (clock s)
            (case project_agent_block_result action view of None \<Rightarrow> [] | Some (_, out) \<Rightarrow> out)) s else schedule_tick s)"
          using Some finish by (auto simp: poll_phase_def split: option.splits bool.splits)
        show thesis
        proof (cases "d \<le> clock s")
          case True
          let ?r = "timeout_result h st (clock s)
            (case project_agent_block_result action view of None \<Rightarrow> [] | Some (_, out) \<Rightarrow> out)"
          have "poll_tick s = push_result_and_advance ?r s" using late poll True by simp
          moreover have "settles (advanced ?r b) s (push_result_and_advance ?r s)" by (rule push) (simp_all add: h)
          ultimately show thesis using advances by metis
        next
          case False
          then have "polls_on b s (poll_tick s)"
            using late poll b(1) ph finish by (simp add: polls_on_def schedule_tick_def)
          then show thesis by (rule polls)
        qed
      qed
    qed
  qed
qed

section \<open>The invariant\<close>

definition router_inv :: "host_app \<Rightarrow> bool" where
  "router_inv s \<longleftrightarrow> (\<forall>(tx, v) \<in> set (delivered s). tx < next_channel s) \<and>
    (case r_batch s of
      None \<Rightarrow> timers s = []
    | Some b \<Rightarrow> waiting b \<and> length (timers s) = 1 \<and> b_done_tx b < next_channel s \<and>
        b_done_tx b \<notin> fst ` set (delivered s) \<and> 1 \<le> a_timeout_seconds (b_args b))"

text \<open>The state in which a timer has fired.\<close>

lemma router_inv_tick:
  assumes inv: "router_inv s" and step: "tick_step s s'"
  obtains (fires) b due where "r_batch s = Some b" "timers s = [due]" "due \<le> clock s" "s' = poll_tick (s\<lparr>timers := []\<rparr>)"
  using step
proof cases
  case (tick i)
  obtain b where b: "r_batch s = Some b"
    using inv tick(2) by (cases "r_batch s") (auto simp: router_inv_def)
  then have "length (timers s) = 1" using inv by (simp add: router_inv_def)
  then obtain due where due: "timers s = [due]" by (cases "timers s") auto
  then have "i = 0" using tick(2) by simp
  then show ?thesis using fires [OF b due] tick due by simp
qed

lemma settles_inv:
  assumes settled: "settles b s s'" and t: "timers s = []" and tx: "b_done_tx b < next_channel s"
    and new: "b_done_tx b \<notin> fst ` set (delivered s)" and timeout: "1 \<le> a_timeout_seconds (b_args b)"
    and old: "\<forall>(tx, v) \<in> set (delivered s). tx < next_channel s"
  shows "router_inv s'"
proof (cases "r_batch s'")
  case None
  then have "ended s s' b" "next_channel s' = next_channel s" using settled by (simp_all add: settles_def)
  then show ?thesis using None t tx old by (auto simp: router_inv_def ended_def split: if_splits)
next
  case (Some b')
  then have "same_batch b b'" "suspended s s' b'" "next_channel s' = next_channel s"
    using settled by (simp_all add: settles_def)
  then show ?thesis using Some t tx new timeout old by (auto simp: router_inv_def suspended_def same_batch_def)
qed

lemma parse_batch_args_timeout:
  "parse_batch_args v = Inr args \<Longrightarrow> 1 \<le> a_timeout_seconds args \<and> a_timeout_seconds args \<le> 600 \<and>
    a_node_ids args \<noteq> [] \<and> length (a_node_ids args) \<le> 20"
  by (auto simp: parse_batch_args_def MAX_TIMEOUT_SECONDS_def MAX_NODE_IDS_def split: option.splits if_splits)

definition new_batch :: "batch_args \<Rightarrow> nat \<Rightarrow> nat \<Rightarrow> active_batch" where
  "new_batch args conversation tx = \<lparr>b_args = args, b_conversation_id = conversation, b_done_tx = tx,
    b_results = [], b_index = 0, b_canary_aborted = False, b_phase = None\<rparr>"

lemma start_settles:
  assumes "r_batch s = None"
  shows "settles (new_batch args cv tx) s (start_batch args cv tx s)"
proof -
  have "progress (new_batch args cv tx)" by (simp add: progress_def new_batch_def)
  then have "settles (new_batch args cv tx) (s\<lparr>r_batch := Some (new_batch args cv tx)\<rparr>)
      (step (s\<lparr>r_batch := Some (new_batch args cv tx)\<rparr>))"
    by (intro router_settles(1)) simp_all
  then have "settles (new_batch args cv tx) s (step (s\<lparr>r_batch := Some (new_batch args cv tx)\<rparr>))"
    by (rule settles_after) simp_all
  then show ?thesis using assms by (simp add: start_batch_def new_batch_def)
qed

lemma send_result_fields [simp]:
  "r_batch (send_result tx v s) = r_batch s" "timers (send_result tx v s) = timers s"
  "next_channel (send_result tx v s) = next_channel s" "dropped (send_result tx v s) = dropped s"
  "clock (send_result tx v s) = clock s" "emitted (send_result tx v s) = emitted s"
  "delivered (send_result tx v s) = delivered s @ (if tx \<in> dropped s then [] else [(tx, v)])"
  by (simp_all add: send_result_def)

lemma handle_open_fields [simp]:
  "r_batch (handle_open_host_session w n s) = r_batch s" "timers (handle_open_host_session w n s) = timers s"
  "delivered (handle_open_host_session w n s) = delivered s" "next_channel (handle_open_host_session w n s) = next_channel s"
  "clock (handle_open_host_session w n s) = clock s" "emitted (handle_open_host_session w n s) = emitted s"
  "dropped (handle_open_host_session w n s) = dropped s"
  by (auto simp: handle_open_host_session_def claim_pending_open_def register_session_def
      split: prod.splits sum.splits option.splits)

text \<open>The steps that do not start a batch leave the batch, its timer and the results alone.\<close>

lemma other_step_cases:
  assumes "other_step s s'"
  obtains (refuses) "s' = s"
    | (busy) b tx v where "r_batch s = Some b" "tx = next_channel s"
      "s' = send_result tx v (s\<lparr>next_channel := tx + 1\<rparr>)"
    | (begins) args cv tx where "r_batch s = None" "tx = next_channel s" "1 \<le> a_timeout_seconds args"
      "s' = start_batch args cv tx (s\<lparr>next_channel := tx + 1\<rparr>)"
    | (keeps) "r_batch s' = r_batch s" "timers s' = timers s" "delivered s' = delivered s"
      "next_channel s' = next_channel s" "clock s \<le> clock s'" "dropped s \<subseteq> dropped s'" "emitted s' = emitted s"
  using assms
proof cases
  case (starts input conversation)
  show thesis
  proof (cases "parse_batch_args input")
    case (Inl e)
    then show thesis using starts refuses by (simp add: execute_project_hosts_batch_def)
  next
    case (Inr args)
    show thesis
    proof (cases "r_batch s")
      case None
      then show thesis using begins [OF None refl, of args conversation] starts Inr parse_batch_args_timeout [OF Inr]
        by (simp add: execute_project_hosts_batch_def Let_def)
    next
      case (Some b)
      then show thesis using busy [OF Some refl] starts Inr
        by (simp add: execute_project_hosts_batch_def Let_def start_batch_def)
    qed
  qed
next
  case (registers node v)
  then show thesis by (intro keeps) (simp_all add: register_session_def)
next
  case (opens opened node)
  then show thesis by (intro keeps) simp_all
next
  case (elsewhere t gone c d vs)
  then show thesis by (intro keeps) simp_all
qed

lemma router_inv_start:
  assumes "router_inv s" and "r_batch s = None" and "1 \<le> a_timeout_seconds args"
  shows "router_inv (start_batch args cv (next_channel s) (s\<lparr>next_channel := next_channel s + 1\<rparr>))"
proof -
  let ?s = "s\<lparr>next_channel := next_channel s + 1\<rparr>" and ?tx = "next_channel s"
  have old: "\<forall>(tx, v) \<in> set (delivered s). tx < ?tx" and t: "timers s = []"
    using assms(1,2) by (simp_all add: router_inv_def)
  have fields: "b_done_tx (new_batch args cv ?tx) = ?tx" "b_args (new_batch args cv ?tx) = args"
    by (simp_all add: new_batch_def)
  have "settles (new_batch args cv ?tx) ?s (start_batch args cv ?tx ?s)"
    by (rule start_settles) (simp add: assms(2))
  then show ?thesis by (rule settles_inv) (use fields old t assms(3) in \<open>auto simp: less_Suc_eq\<close>)
qed

lemma router_inv_other:
  assumes inv: "router_inv s" and step: "other_step s s'"
  shows "router_inv s'"
  using step
proof (cases rule: other_step_cases)
  case refuses
  then show ?thesis using inv by simp
next
  case (busy b tx v)
  then show ?thesis using inv by (auto simp: router_inv_def send_result_def less_Suc_eq)
next
  case (begins args cv tx)
  then show ?thesis using router_inv_start [OF inv] by simp
next
  case keeps
  then show ?thesis using inv by (cases "r_batch s") (simp_all add: router_inv_def)
qed

lemma router_inv_tick_step:
  assumes inv: "router_inv s" and step: "tick_step s s'"
  shows "router_inv s'"
  using inv step
proof (cases rule: router_inv_tick)
  case (fires b due)
  let ?s = "s\<lparr>timers := []\<rparr>"
  have b: "r_batch ?s = Some b" "waiting b" and tx: "b_done_tx b < next_channel ?s"
    and new: "b_done_tx b \<notin> fst ` set (delivered ?s)" and timeout: "1 \<le> a_timeout_seconds (b_args b)"
    and old: "\<forall>(tx, v) \<in> set (delivered ?s). tx < next_channel ?s"
    using inv fires(1) by (simp_all add: router_inv_def)
  show ?thesis
  proof (cases "b_done_tx b \<in> dropped ?s")
    case True
    then show ?thesis using fires b old by (simp add: poll_tick_def router_inv_def)
  next
    case False
    from b False show ?thesis
    proof (cases rule: poll_cases)
      case polls
      then show ?thesis unfolding fires(4) using b tx new timeout old by (simp add: polls_on_def router_inv_def)
    next
      case (begins h d)
      show ?thesis unfolding fires(4) by (rule settles_inv [OF begins(2)]) (use tx new timeout old in simp_all)
    next
      case (advances r)
      have same: "b_done_tx (advanced r b) = b_done_tx b" "b_args (advanced r b) = b_args b"
        by (simp_all add: advanced_def)
      show ?thesis unfolding fires(4) by (rule settles_inv [OF advances]) (use same tx new timeout old in simp_all)
    qed
  qed
qed

lemma app_run_inv: "app_run k s s' \<Longrightarrow> router_inv s \<Longrightarrow> router_inv s'"
  by (induction rule: app_run.induct) (auto intro: router_inv_tick_step router_inv_other)

lemma reachable_inv: "app_reachable s \<Longrightarrow> router_inv s"
proof -
  assume "app_reachable s"
  then obtain s0 k where "fresh_app s0" "app_run k s0 s" by (auto simp: app_reachable_def)
  moreover have "router_inv s0" using calculation(1) by (simp add: fresh_app_def router_inv_def)
  ultimately show "router_inv s" using app_run_inv by blast
qed

section \<open>How long a batch can take\<close>

text \<open>
  The number of polls that a deadline still allows, when the next one is due at \<open>due\<close>, and what
  is left of a batch: its host, and 60 seconds and the timeout for each of the others.
\<close>

definition polls_until :: "nat \<Rightarrow> nat \<Rightarrow> nat" where
  "polls_until deadline due = (if deadline \<le> due then 1 else (deadline - due + 499) div 500 + 1)"

definition host_bound :: "batch_args \<Rightarrow> nat" where
  "host_bound args = 120 + 2 * a_timeout_seconds args"

definition polls_left :: "active_batch \<Rightarrow> nat \<Rightarrow> nat" where
  "polls_left b due =
    (case b_phase b of
      None \<Rightarrow> 0
    | Some (WaitingReady h d) \<Rightarrow> polls_until d due + 2 * a_timeout_seconds (b_args b)
    | Some (WaitingFinish h a st d) \<Rightarrow> polls_until d due) +
    (length (a_node_ids (b_args b)) - b_index b - 1) * host_bound (b_args b)"

lemma polls_until_pos: "1 \<le> polls_until d due"
  by (simp add: polls_until_def)

lemma polls_until_later: "t < d \<Longrightarrow> due \<le> t \<Longrightarrow> polls_until d (t + 500) < polls_until d due"
  by (auto simp: polls_until_def)

lemma polls_until_ready: "polls_until (t + READY_TIMEOUT) (t + POLL_INTERVAL) = 120"
  by (simp add: polls_until_def READY_TIMEOUT_def POLL_INTERVAL_def)

lemma polls_until_finish: "1 \<le> n \<Longrightarrow> polls_until (t + 1000 * n) (t + POLL_INTERVAL) = 2 * n"
  by (simp add: polls_until_def POLL_INTERVAL_def)

lemma suspended_left:
  assumes "suspended s s' b" and "1 \<le> a_timeout_seconds (b_args b)"
  shows "polls_left b (clock s + POLL_INTERVAL) =
    (if is_finish_phase b then 2 * a_timeout_seconds (b_args b) else host_bound (b_args b)) +
    (length (a_node_ids (b_args b)) - b_index b - 1) * host_bound (b_args b)"
proof -
  obtain ph where "b_phase b = Some ph" using assms(1) by (auto simp: suspended_def waiting_def)
  then show ?thesis using assms polls_until_finish [OF assms(2), of "clock s"]
    by (cases ph) (simp_all add: suspended_def polls_left_def is_finish_phase_def host_bound_def polls_until_ready)
qed

text \<open>A host that is done leaves no more than the bound of the ones behind it.\<close>

lemma settled_left:
  assumes "settles b s s'" and "r_batch s' = Some b'" and "1 \<le> a_timeout_seconds (b_args b)"
  shows "polls_left b' (clock s + POLL_INTERVAL) \<le> (length (a_node_ids (b_args b)) - b_index b) * host_bound (b_args b)"
proof -
  have s: "same_batch b b'" "suspended s s' b'" using assms(1,2) by (simp_all add: settles_def)
  have lt: "b_index b' < length (a_node_ids (b_args b'))" using s(2) by (simp add: suspended_def waiting_def ongoing_def)
  have "polls_left b' (clock s + POLL_INTERVAL) \<le>
      host_bound (b_args b') + (length (a_node_ids (b_args b')) - b_index b' - 1) * host_bound (b_args b')"
    using suspended_left [OF s(2)] s(1) assms(3) by (simp add: same_batch_def host_bound_def)
  also have "\<dots> = (length (a_node_ids (b_args b')) - b_index b') * host_bound (b_args b')"
    using lt by (cases "length (a_node_ids (b_args b')) - b_index b'") auto
  also have "\<dots> \<le> (length (a_node_ids (b_args b)) - b_index b) * host_bound (b_args b)"
    using s(1) by (simp add: same_batch_def diff_le_mono2)
  finally show ?thesis .
qed

lemma poll_uses_one:
  assumes b: "r_batch s = Some b" "waiting b" and timeout: "1 \<le> a_timeout_seconds (b_args b)"
    and t: "timers s = []" and due: "due \<le> clock s" and live: "b_done_tx b \<notin> dropped s"
    and b': "r_batch (poll_tick s) = Some b'"
  shows "same_batch b b' \<and> polls_left b' (hd (timers (poll_tick s))) < polls_left b due"
  using b live
proof (cases rule: poll_cases)
  case polls
  obtain ph where "b_phase b = Some ph" using b(2) by (auto simp: waiting_def)
  then show ?thesis using polls t b' due
    by (cases ph) (auto simp: polls_on_def polls_left_def POLL_INTERVAL_def intro: polls_until_later)
next
  case (begins h d)
  have s: "same_batch b b'" "suspended s (poll_tick s) b'" using begins(2) b' by (simp_all add: settles_def)
  have hd: "hd (timers (poll_tick s)) = clock s + POLL_INTERVAL" using s(2) t by (simp add: suspended_def)
  have left: "polls_left b due = polls_until d due + 2 * a_timeout_seconds (b_args b) +
      (length (a_node_ids (b_args b)) - b_index b - 1) * host_bound (b_args b)"
    using begins(1) by (simp add: polls_left_def)
  show ?thesis
  proof (cases "b_index b' = b_index b")
    case True
    then have "is_finish_phase b'" using begins(3) b' by simp
    then show ?thesis using suspended_left [OF s(2)] s(1) True hd left polls_until_pos [of d due] timeout
      by (simp add: same_batch_def)
  next
    case False
    have "settles (b\<lparr>b_index := b_index b'\<rparr>) s (poll_tick s)"
      using begins(2) b' by (simp add: settles_def same_batch_def)
    from settled_left [OF this b'] have "polls_left b' (clock s + POLL_INTERVAL) \<le>
        (length (a_node_ids (b_args b)) - b_index b') * host_bound (b_args b)" using timeout by simp
    also have "\<dots> \<le> (length (a_node_ids (b_args b)) - b_index b - 1) * host_bound (b_args b)"
      using s(1) False by (intro mult_le_mono1) (auto simp: same_batch_def)
    finally show ?thesis using hd left polls_until_pos [of d due] timeout s(1) by simp
  qed
next
  case (advances r)
  have s: "same_batch (advanced r b) b'" "suspended s (poll_tick s) b'" using advances b' by (simp_all add: settles_def)
  have hd: "hd (timers (poll_tick s)) = clock s + POLL_INTERVAL" using s(2) t by (simp add: suspended_def)
  have "polls_left b' (clock s + POLL_INTERVAL) \<le> (length (a_node_ids (b_args b)) - b_index b - 1) * host_bound (b_args b)"
    using settled_left [OF advances b'] timeout by (simp add: advanced_def)
  moreover have "(length (a_node_ids (b_args b)) - b_index b - 1) * host_bound (b_args b) < polls_left b due"
  proof -
    obtain ph where "b_phase b = Some ph" using b(2) by (auto simp: waiting_def)
    then show ?thesis using polls_until_pos by (cases ph) (auto simp: polls_left_def Suc_le_eq intro: trans_less_add1)
  qed
  ultimately show ?thesis using hd same_batch_trans [OF same_batch_advanced s(1)] by simp
qed

definition polls_due :: "host_app \<Rightarrow> nat" where
  "polls_due s = (case r_batch s of None \<Rightarrow> 0 | Some b \<Rightarrow> polls_left b (hd (timers s)))"

definition running :: "nat \<Rightarrow> host_app \<Rightarrow> bool" where
  "running tx s \<longleftrightarrow> (\<exists>b. r_batch s = Some b \<and> b_done_tx b = tx)"

lemma tick_polls:
  assumes inv: "router_inv s" and step: "tick_step s s'" and run: "running tx s'"
  shows "running tx s \<and> polls_due s' < polls_due s"
  using inv step
proof (cases rule: router_inv_tick)
  case (fires b due)
  let ?s = "s\<lparr>timers := []\<rparr>"
  obtain b' where b': "r_batch s' = Some b'" "b_done_tx b' = tx" using run by (auto simp: running_def)
  have w: "waiting b" and timeout: "1 \<le> a_timeout_seconds (b_args b)"
    using inv fires(1) by (simp_all add: router_inv_def)
  have live: "b_done_tx b \<notin> dropped ?s"
    using b'(1) fires(1,4) by (auto simp: poll_tick_def)
  have "same_batch b b' \<and> polls_left b' (hd (timers (poll_tick ?s))) < polls_left b due"
    by (rule poll_uses_one) (use fires b'(1) w timeout live in simp_all)
  then show ?thesis using b' fires by (simp add: polls_due_def running_def same_batch_def)
qed

lemma other_polls:
  assumes inv: "router_inv s" and step: "other_step s s'" and run: "running tx s'" and old: "tx < next_channel s"
  shows "running tx s \<and> polls_due s' = polls_due s"
  using step
proof (cases rule: other_step_cases)
  case (busy b tx1 v)
  then show ?thesis using run by (simp add: running_def polls_due_def)
next
  case (begins args cv tx1)
  have "settles (new_batch args cv tx1) (s\<lparr>next_channel := tx1 + 1\<rparr>) s'"
    unfolding begins(4) by (rule start_settles) (simp add: begins(1))
  then have "tx = tx1" using run by (auto simp: running_def settles_def same_batch_def new_batch_def)
  then show ?thesis using begins(2) old by simp
qed (use run in \<open>auto simp: running_def polls_due_def\<close>)

lemma next_channel_mono:
  assumes "other_step s s' \<or> tick_step s s'" and inv: "router_inv s"
  shows "next_channel s \<le> next_channel s'"
  using assms(1)
proof
  assume "other_step s s'"
  then show ?thesis
  proof (cases rule: other_step_cases)
    case (begins args cv tx)
    have "settles (new_batch args cv tx) (s\<lparr>next_channel := tx + 1\<rparr>) s'"
      unfolding begins(4) by (rule start_settles) (simp add: begins(1))
    then show ?thesis using begins(2) by (simp add: settles_def)
  qed (auto simp: send_result_def)
next
  assume tick: "tick_step s s'"
  from inv tick show ?thesis
  proof (cases rule: router_inv_tick)
    case (fires b due)
    have b: "r_batch (s\<lparr>timers := []\<rparr>) = Some b" "waiting b" using fires(1) inv by (simp_all add: router_inv_def)
    show ?thesis
    proof (cases "b_done_tx b \<in> dropped (s\<lparr>timers := []\<rparr>)")
      case True
      then show ?thesis using fires by (simp add: poll_tick_def)
    next
      case False
      from b False show ?thesis unfolding fires(4)
        by (cases rule: poll_cases) (auto simp: polls_on_def settles_def)
    qed
  qed
qed

lemma app_run_polls:
  "app_run k s s' \<Longrightarrow> router_inv s \<Longrightarrow> tx < next_channel s \<Longrightarrow> running tx s' \<Longrightarrow>
    running tx s \<and> k + polls_due s' \<le> polls_due s"
proof (induction rule: app_run.induct)
  case (ticks k s s1 s2)
  have inv: "router_inv s1" using app_run_inv ticks by blast
  show ?case using tick_polls [OF inv ticks(2) ticks.prems(3)] ticks.IH [OF ticks.prems(1,2)] by simp
next
  case (others k s s1 s2)
  have inv: "router_inv s1" using app_run_inv others by blast
  have "next_channel s \<le> next_channel s1" if "app_run k s s1" for k s1
    using that others.prems(1)
  proof (induction rule: app_run.induct)
    case (ticks k s a b)
    then show ?case using next_channel_mono [of a b] app_run_inv by fastforce
  next
    case (others k s a b)
    then show ?case using next_channel_mono [of a b] app_run_inv by fastforce
  qed simp
  then have "tx < next_channel s1" using others.hyps(1) others.prems(2) by (meson less_le_trans)
  then show ?case using other_polls [OF inv others(2) others.prems(3)] others.IH [OF others.prems(1,2)] by simp
qed simp

lemma polls_due_bound:
  assumes "r_batch s = None" and "1 \<le> a_timeout_seconds args" and "timers s = []"
  shows "polls_due (start_batch args cv tx s) \<le> length (a_node_ids args) * host_bound args"
proof (cases "r_batch (start_batch args cv tx s)")
  case (Some b)
  have settled: "settles (new_batch args cv tx) s (start_batch args cv tx s)" by (rule start_settles) fact
  then have "suspended s (start_batch args cv tx s) b" using Some by (simp add: settles_def)
  then have "hd (timers (start_batch args cv tx s)) = clock s + POLL_INTERVAL" using assms(3) by (simp add: suspended_def)
  then show ?thesis using settled_left [OF settled Some] assms(2) Some by (simp add: polls_due_def new_batch_def)
qed (simp add: polls_due_def)

section \<open>What comes through a channel\<close>

text \<open>
  From the start of a batch on, its channel carries nothing or one correct report, and it
  carries the report once the batch is gone, unless the receiver was dropped.
\<close>

definition on_channel :: "nat \<Rightarrow> host_app \<Rightarrow> (nat \<times> json) list" where
  "on_channel tx s = filter (\<lambda>d. fst d = tx) (delivered s)"

definition reported :: "batch_args \<Rightarrow> nat \<Rightarrow> host_app \<Rightarrow> bool" where
  "reported args tx s \<longleftrightarrow> (on_channel tx s = [] \<and> tx \<in> dropped s) \<or>
    (\<exists>v. on_channel tx s = [(tx, v)] \<and> report_ok args v)"

definition channel_inv :: "batch_args \<Rightarrow> nat \<Rightarrow> host_app \<Rightarrow> bool" where
  "channel_inv args tx s \<longleftrightarrow> tx < next_channel s \<and>
    (\<forall>b. r_batch s = Some b \<longrightarrow> b_done_tx b = tx \<longrightarrow> b_args b = args) \<and>
    (if running tx s then on_channel tx s = [] else reported args tx s)"

lemma reported_frame:
  "reported args tx s \<Longrightarrow> on_channel tx s' = on_channel tx s \<Longrightarrow> dropped s \<subseteq> dropped s' \<Longrightarrow> reported args tx s'"
  by (auto simp: reported_def)

lemma running_cong: "r_batch s' = r_batch s \<Longrightarrow> running tx s' = running tx s"
  by (simp add: running_def)

lemma channel_inv_frame:
  assumes inv: "channel_inv args tx s" and batch: "r_batch s' = r_batch s"
    and same: "on_channel tx s' = on_channel tx s" "dropped s \<subseteq> dropped s'" "next_channel s \<le> next_channel s'"
  shows "channel_inv args tx s'"
  using inv reported_frame [OF _ same(1,2), of args] same batch running_cong [OF batch, of tx]
  by (auto simp: channel_inv_def)

lemma settles_channel:
  assumes settled: "settles b s s'" and args: "b_args b = args" "b_done_tx b = tx"
    and empty: "on_channel tx s = []" and tx: "tx < next_channel s"
  shows "channel_inv args tx s'"
proof (cases "r_batch s'")
  case None
  then have e: "ended s s' b" "dropped s' = dropped s" "next_channel s' = next_channel s"
    using settled by (simp_all add: settles_def)
  then have "reported args tx s'" using args empty
    by (auto simp: reported_def on_channel_def ended_def split: if_splits)
  then show ?thesis using None e(3) tx by (simp add: channel_inv_def running_def)
next
  case (Some b')
  then have "same_batch b b'" "suspended s s' b'" "next_channel s' = next_channel s"
    using settled by (simp_all add: settles_def)
  then show ?thesis using Some args empty tx
    by (simp add: channel_inv_def running_def same_batch_def suspended_def on_channel_def)
qed

text \<open>An activity of another batch does not touch the channel.\<close>

lemma settles_other_channel:
  assumes settled: "settles b s s'" and other: "b_done_tx b \<noteq> tx" and not: "\<not> running tx s"
    and inv: "channel_inv args tx s"
  shows "channel_inv args tx s'"
proof -
  have same: "on_channel tx s' = on_channel tx s" "dropped s' = dropped s" "next_channel s' = next_channel s"
    using settled other by (cases "r_batch s'"; auto simp: settles_def ended_def suspended_def on_channel_def split: if_splits)+
  have away: "\<not> running tx s'" "\<And>b'. r_batch s' = Some b' \<Longrightarrow> b_done_tx b' \<noteq> tx"
    using settled other by (auto simp: settles_def running_def same_batch_def split: option.splits)
  have "reported args tx s" "tx < next_channel s" using inv not by (simp_all add: channel_inv_def)
  then show ?thesis using same away reported_frame [of args tx s s'] by (simp add: channel_inv_def)
qed

lemma channel_inv_tick:
  assumes inv: "router_inv s" and chan: "channel_inv args tx s" and step: "tick_step s s'"
  shows "channel_inv args tx s'"
  using inv step
proof (cases rule: router_inv_tick)
  case (fires b due)
  let ?s = "s\<lparr>timers := []\<rparr>"
  have b: "r_batch ?s = Some b" "waiting b" using fires(1) inv by (simp_all add: router_inv_def)
  have chan': "channel_inv args tx ?s" by (rule channel_inv_frame [OF chan]) (simp_all add: on_channel_def)
  have tx: "tx < next_channel ?s" using chan' by (simp add: channel_inv_def)
  have mine: "b_args b = args" "on_channel tx ?s = []" if "b_done_tx b = tx"
    using chan' b(1) that by (simp_all add: channel_inv_def running_def)
  have alien: "\<not> running tx ?s" if "b_done_tx b \<noteq> tx" using that b(1) by (simp add: running_def)
  have settled: "channel_inv args tx s''" if c: "settles c ?s s''" "b_args c = b_args b" "b_done_tx c = b_done_tx b" for c s''
  proof (cases "b_done_tx b = tx")
    case True
    show ?thesis by (rule settles_channel [OF c(1) _ _ mine(2) tx]) (use c(2,3) True mine(1) in simp_all)
  next
    case False
    show ?thesis by (rule settles_other_channel [OF c(1) _ alien chan']) (use c(3) False in simp_all)
  qed
  show ?thesis
  proof (cases "b_done_tx b \<in> dropped ?s")
    case True
    then have eq: "s' = ?s\<lparr>r_batch := None\<rparr>" using fires b(1) by (simp add: poll_tick_def)
    have "reported args tx ?s"
    proof (cases "b_done_tx b = tx")
      case mine_tx: True
      then show ?thesis using mine(2) True by (simp add: reported_def)
    next
      case False
      then show ?thesis using chan' alien by (simp add: channel_inv_def)
    qed
    then have "reported args tx s'" by (rule reported_frame) (simp_all add: eq on_channel_def)
    then show ?thesis using tx by (simp add: channel_inv_def running_def eq)
  next
    case False
    from b False show ?thesis
    proof (cases rule: poll_cases)
      case polls
      show ?thesis unfolding fires(4)
        by (rule channel_inv_frame [OF chan']) (use polls b(1) in \<open>simp_all add: polls_on_def on_channel_def\<close>)
    next
      case (begins h d)
      show ?thesis unfolding fires(4) by (rule settled [OF begins(2)]) simp_all
    next
      case (advances r)
      show ?thesis unfolding fires(4) by (rule settled [OF advances]) (simp_all add: advanced_def)
    qed
  qed
qed

lemma channel_inv_other:
  assumes inv: "router_inv s" and chan: "channel_inv args tx s" and step: "other_step s s'"
  shows "channel_inv args tx s'"
  using step
proof (cases rule: other_step_cases)
  case refuses
  then show ?thesis using chan by simp
next
  case (busy b tx1 v)
  have "tx < tx1" using chan busy(2) by (simp add: channel_inv_def)
  then show ?thesis unfolding busy(3)
    by (intro channel_inv_frame [OF chan]) (simp_all add: on_channel_def busy(2))
next
  case (begins args1 cv tx1)
  let ?s = "s\<lparr>next_channel := tx1 + 1\<rparr>"
  have settled: "settles (new_batch args1 cv tx1) ?s s'"
    unfolding begins(4) by (rule start_settles) (simp add: begins(1))
  have "tx < tx1" "\<not> running tx ?s" using chan begins(1,2) by (simp_all add: channel_inv_def running_def)
  moreover have "channel_inv args tx ?s"
    by (rule channel_inv_frame [OF chan]) (simp_all add: on_channel_def begins(2))
  ultimately show ?thesis by (intro settles_other_channel [OF settled]) (simp_all add: new_batch_def)
next
  case keeps
  show ?thesis by (rule channel_inv_frame [OF chan]) (use keeps in \<open>simp_all add: on_channel_def\<close>)
qed

lemma channel_inv_run:
  "app_run k s s' \<Longrightarrow> router_inv s \<Longrightarrow> channel_inv args tx s \<Longrightarrow> channel_inv args tx s'"
proof (induction rule: app_run.induct)
  case (ticks k s s1 s2)
  then show ?case using channel_inv_tick app_run_inv by blast
next
  case (others k s s1 s2)
  then show ?case using channel_inv_other app_run_inv by blast
qed

section \<open>What is emitted\<close>

lemma settles_emits:
  "settles b t s' \<Longrightarrow> emitted t = emitted s \<Longrightarrow> emitted s' = emitted s \<or>
    (\<exists>b' t. r_batch s' = Some b' \<and> clock t = clock s' \<and> emitted t = emitted s \<and> suspended t s' b')"
  by (cases "r_batch s'") (auto simp: settles_def ended_def)

text \<open>A step emits nothing, or what the batch that it leaves waits for.\<close>

lemma step_emits:
  assumes inv: "router_inv s" and steps: "tick_step s s' \<or> other_step s s'"
  shows "emitted s' = emitted s \<or>
    (\<exists>b t. r_batch s' = Some b \<and> clock t = clock s' \<and> emitted t = emitted s \<and> suspended t s' b)"
  using steps
proof
  assume step: "other_step s s'"
  then show ?thesis
  proof (cases rule: other_step_cases)
    case (begins args cv tx)
    have "settles (new_batch args cv tx) (s\<lparr>next_channel := tx + 1\<rparr>) s'"
      unfolding begins(4) by (rule start_settles) (simp add: begins(1))
    then show ?thesis by (rule settles_emits) simp
  qed simp_all
next
  assume step: "tick_step s s'"
  from inv step show ?thesis
  proof (cases rule: router_inv_tick)
    case (fires b due)
    let ?s = "s\<lparr>timers := []\<rparr>"
    have b: "r_batch ?s = Some b" "waiting b" using fires(1) inv by (simp_all add: router_inv_def)
    show ?thesis
    proof (cases "b_done_tx b \<in> dropped ?s")
      case True
      then show ?thesis using fires by (simp add: poll_tick_def)
    next
      case False
      from b False show ?thesis
      proof (cases rule: poll_cases)
        case polls
        then show ?thesis unfolding fires(4) by (simp add: polls_on_def)
      next
        case (begins h d)
        show ?thesis unfolding fires(4) by (rule settles_emits [OF begins(2)]) simp
      next
        case (advances r)
        show ?thesis unfolding fires(4) by (rule settles_emits [OF advances]) simp
      qed
    qed
  qed
qed

end
