(* ===== verification/Project_Properties.thy ===== *)
theory Project_Properties imports Ssh_Properties Project_Context Router_Runs begin

text \<open>
  The properties of the projects: what the repository stores, what the form of a project saves,
  which hosts the agent may use, and what the batch runner does on them.
\<close>

section \<open>A small world for the witnesses\<close>

definition sample_project_row :: "string \<Rightarrow> int option \<Rightarrow> project_row" where
  "sample_project_row i deleted = \<lparr>pr_id = i, pr_name = i, pr_git_url = Some ''u'', pr_root_path = None,
    pr_rules = ''r'', pr_notes = [], pr_default_profile_id = None, pr_sort_order = 0, pr_created_at = 1,
    pr_updated_at = 1, pr_deleted_at = deleted\<rparr>"

definition sample_projects :: project_tables where
  "sample_projects =
    \<lparr>project_rows = [sample_project_row ''p'' None, sample_project_row ''q'' (Some 4)],
     repository_rows = [\<lparr>gr_id = ''g'', gr_project_id = ''p'', gr_git_url = ''u'', gr_sort_order = 0\<rparr>],
     repository_server_rows = [\<lparr>gs_repository_id = ''g'', gs_node_id = ''s'', gs_sort_order = 0\<rparr>],
     project_server_rows = [\<lparr>ps_project_id = ''p'', ps_node_id = ''s'', ps_sort_order = 0\<rparr>]\<rparr>"

definition sample_project_db :: "string option list \<Rightarrow> project_db" where
  "sample_project_db results = \<lparr>p_path_set = True, p_poisoned = False, p_connected = True,
    p_statements = results, projects = sample_projects\<rparr>"

lemma sample_project_db_simps [simp]:
  "projects (sample_project_db results) = sample_projects" "p_statements (sample_project_db results) = results"
  by (simp_all add: sample_project_db_def)

lemma sample_projects_ok: "projects_ok sample_projects"
  by (simp add: projects_ok_def project_keys_ok_def project_references_ok_def project_ids_def
      repository_ids_def sample_projects_def sample_project_row_def)

definition sample_project :: project where
  "sample_project = \<lparr>p_id = ''p'', p_name = ''new'',
    p_repositories = [\<lparr>g_id = ''x'', g_git_url = ''v'', g_server_node_ids = [''s'', ''t'', ''s'']\<rparr>],
    p_root_path = Some ''/'', p_rules = [], p_notes = ''n'', p_default_profile_id = None,
    p_sort_order = 2, p_created_at = 77, p_updated_at = 77\<rparr>"

text \<open>The connection to the same tables on which no statement fails.\<close>

definition fault_free :: "project_db \<Rightarrow> project_db" where
  "fault_free db = db\<lparr>p_statements := []\<rparr>"

lemma fault_free_simps [simp]: "p_statements (fault_free db) = []" "projects (fault_free db) = projects db"
  by (simp_all add: fault_free_def)

lemma get_fault_free: "get_project p (fault_free db) = (Inr (stored_project (projects db) p), fault_free db)"
  using views_quiet [OF views_get, of "fault_free db" p] by simp

lemma servers_fault_free:
  "servers_for_project p (fault_free db) = (Inr (stored_servers (projects db) p), fault_free db)"
  using views_quiet [OF views_servers, of "fault_free db" p] by simp


section \<open>The repository\<close>

text \<open>
  An update that succeeds stores the project as it was given (the servers of a repository
  without repetitions, the time of creation as before, the time of the update), which is what
  the next read returns; the other projects and all links to servers stay.  An update that
  fails, at whatever statement, changes nothing.
\<close>

theorem update_reads_back:
  assumes "projects_ok (projects db)" and "update_project now p db = (x, db')"
  shows "case x of
      Inl e \<Rightarrow> projects db' = projects db
    | Inr _ \<Rightarrow> projects_ok (projects db') \<and>
        (\<exists>old. get_project (p_id p) (fault_free db) = (Inr (Some old), fault_free db) \<and>
          get_project (p_id p) (fault_free db') =
            (Inr (Some (p\<lparr>p_repositories := map deduplicated (p_repositories p),
              p_created_at := p_created_at old, p_updated_at := now\<rparr>)), fault_free db')) \<and>
        (\<forall>q. q \<noteq> p_id p \<longrightarrow> fst (get_project q (fault_free db')) = fst (get_project q (fault_free db))) \<and>
        project_server_rows (projects db') = project_server_rows (projects db)"
proof (cases x)
  case (Inl e)
  then show ?thesis using update_project_result(1) [OF assms] by simp
next
  case (Inr u)
  then have x: "x = Inr ()" by simp
  show ?thesis using update_project_result(2) [OF assms x] unfolding x by (simp add: get_fault_free)
qed

lemma update_reads_back_witness:
  "\<exists>db'. update_project 9 sample_project (sample_project_db []) = (Inr (), db') \<and>
    get_project ''p'' (fault_free db') = (Inr (Some (sample_project\<lparr>
      p_repositories := [\<lparr>g_id = ''x'', g_git_url = ''v'', g_server_node_ids = [''s'', ''t'']\<rparr>],
      p_created_at := 1, p_updated_at := 9\<rparr>)), fault_free db')"
proof -
  have "case fst (update_project 9 sample_project (sample_project_db [])) of Inl _ \<Rightarrow> False | Inr _ \<Rightarrow> True"
    by code_simp
  then obtain u db' where run: "update_project 9 sample_project (sample_project_db []) = (Inr u, db')"
    by (cases "update_project 9 sample_project (sample_project_db [])") (auto split: sum.splits)
  have "\<exists>old. get_project (p_id sample_project) (fault_free (sample_project_db [])) =
        (Inr (Some old), fault_free (sample_project_db [])) \<and>
      get_project (p_id sample_project) (fault_free db') =
        (Inr (Some (sample_project\<lparr>p_repositories := map deduplicated (p_repositories sample_project),
          p_created_at := p_created_at old, p_updated_at := 9\<rparr>)), fault_free db')"
    using update_reads_back [OF _ run] sample_projects_ok by simp
  then obtain old where old: "get_project (p_id sample_project) (fault_free (sample_project_db [])) =
        (Inr (Some old), fault_free (sample_project_db []))"
    and new: "get_project (p_id sample_project) (fault_free db') =
        (Inr (Some (sample_project\<lparr>p_repositories := map deduplicated (p_repositories sample_project),
          p_created_at := p_created_at old, p_updated_at := 9\<rparr>)), fault_free db')" by blast
  have "case fst (get_project (p_id sample_project) (fault_free (sample_project_db []))) of
      Inr (Some old) \<Rightarrow> p_created_at old = 1 | _ \<Rightarrow> False" by code_simp
  then have "p_created_at old = 1" using old by simp
  then show ?thesis using run new by (auto simp: sample_project_def deduplicated_def)
qed

text \<open>
  C22: \<open>set_servers\<close> links a project to the nodes that it is given, in that order, and leaves the
  other projects alone; but given a node twice it fails, and since it is no transaction the
  project has then lost all its servers.
\<close>

theorem linking_servers:
  assumes "projects_ok (projects db)" and "stored_project (projects db) p \<noteq> None" and "p_statements db = []"
  shows "\<exists>x db'. set_servers p nodes db = (x, db') \<and> p_statements db' = [] \<and>
    ((\<exists>e. x = Inl e) \<longleftrightarrow> \<not> distinct nodes) \<and>
    servers_for_project p db' = (Inr (if distinct nodes then nodes else []), db') \<and>
    (\<forall>q. q \<noteq> p \<longrightarrow> fst (servers_for_project q db') = fst (servers_for_project q db))"
proof -
  let ?T = "projects db"
  obtain proj where known: "stored_project ?T p = Some proj" using assms(2) by auto
  have get: "get_project p db = (Inr (Some proj), db)"
    using views_quiet [OF views_get assms(3), of p] known by simp
  have cleared: "snd (delete_project_servers (\<lambda>s. ps_project_id s = p) ?T) = with_servers p [] ?T"
    by (simp add: delete_project_servers_def with_servers_def server_values_def)
  have ok: "projects_ok (with_servers p [] ?T)"
    using set_servers_writes(2) [OF assms(1,2), of "[]"] assms(3) by simp
  show ?thesis
  proof (cases "distinct nodes")
    case True
    let ?db' = "db\<lparr>projects := with_servers p nodes ?T\<rparr>"
    have "set_servers p nodes db = (Inr (), ?db')" using set_servers_writes(1) [OF assms(1,2) True assms(3)] .
    moreover have "servers_for_project q ?db' = (Inr (if q = p then nodes else stored_servers ?T q), ?db')" for q
      using views_quiet [OF views_servers, of ?db' q] assms(3) by (simp add: stored_servers_with)
    moreover have "servers_for_project q db = (Inr (stored_servers ?T q), db)" for q
      by (rule views_quiet [OF views_servers assms(3)])
    ultimately show ?thesis using True assms(3) by simp
  next
    case False
    let ?db' = "db\<lparr>projects := with_servers p [] ?T\<rparr>"
    have "\<not> projects_ok (snd (insert_project_servers (server_values p nodes) (with_servers p [] ?T)))"
    proof
      assume "projects_ok (snd (insert_project_servers (server_values p nodes) (with_servers p [] ?T)))"
      then have "distinct (map (\<lambda>r. (ps_project_id r, ps_node_id r)) (server_values p nodes))"
        by (simp add: projects_ok_def project_keys_ok_def insert_project_servers_def)
      moreover have "map (\<lambda>r. (ps_project_id r, ps_node_id r)) (server_values p nodes) = map (Pair p) nodes"
        using map_enumerate_snd [of "Pair p" 0 nodes] by (simp add: server_values_def comp_def case_prod_unfold)
      ultimately show False using False by (simp add: distinct_map)
    qed
    then obtain e where "project_violation (snd (insert_project_servers (server_values p nodes)
        (with_servers p [] ?T))) = Some e"
      by (metis not_None_eq project_violation_None)
    then have "change (insert_project_servers (server_values p nodes)) ?db' = (Inl (ProjectDb e), ?db')"
      using assms(3) by (simp add: change_def project_statement_def insert_project_servers_def)
    moreover have "change (delete_project_servers (\<lambda>s. ps_project_id s = p)) db =
        (Inr (fst (delete_project_servers (\<lambda>s. ps_project_id s = p) ?T)), ?db')"
      using change_quiet [OF assms(3), of "delete_project_servers (\<lambda>s. ps_project_id s = p)"] cleared ok by simp
    ultimately have "set_servers p nodes db = (Inl (ProjectDb e), ?db')" by (simp add: set_servers_def get)
    moreover have "servers_for_project q ?db' = (Inr (if q = p then [] else stored_servers ?T q), ?db')" for q
      using views_quiet [OF views_servers, of ?db' q] assms(3) by (simp add: stored_servers_with)
    moreover have "servers_for_project q db = (Inr (stored_servers ?T q), db)" for q
      by (rule views_quiet [OF views_servers assms(3)])
    ultimately show ?thesis using False assms(3) by simp
  qed
qed

lemma sample_project_known: "stored_project sample_projects ''p'' \<noteq> None"
  by (simp add: stored_project_def sample_projects_def sample_project_row_def is_live_def)

lemma linking_servers_witness:
  "\<exists>e db'. set_servers ''p'' [''t'', ''t''] (sample_project_db []) = (Inl e, db') \<and>
    servers_for_project ''p'' db' = (Inr [], db')"
  using linking_servers [of "sample_project_db []" "''p''" "[''t'', ''t'']"] sample_projects_ok sample_project_known
  by auto



section \<open>The form\<close>

definition sample_conn :: "string option list \<Rightarrow> sync_db" where
  "sample_conn results = \<lparr>path_set = True, poisoned = False, connected = True, statements = results,
     sync_meta = Map.empty, memory_rows = [], ssh = sample_tables\<rparr>"

lemma sample_conn_ssh [simp]: "ssh (sample_conn results) = sample_tables"
  by (simp add: sample_conn_def)

lemma sample_conn_ok: "tables_ok (ssh (sample_conn results))"
  using sample_tables_ok by (simp add: tree_ok_def)

definition opened_form :: "string option list \<Rightarrow> project_form" where
  "opened_form results = fst (new_form ''p'' (sample_project_db []) (sample_conn results))"

text \<open>
  C24: through its whole life a form shows each server once, links only servers that it shows,
  maps a repository only to linked servers, and holds the project that it was opened for: so
  \<open>on_save\<close> sends every node once, and no repository a node that is not linked.
\<close>

theorem form_stays_consistent:
  assumes "form_life f"
  shows "distinct (map sc_node_id (f_servers f)) \<and>
    distinct (linked_ids_in_tree_order (f_servers f) (f_linked f)) \<and>
    set (linked_ids_in_tree_order (f_servers f) (f_linked f)) = f_linked f \<and>
    (\<forall>r \<in> set (f_repositories f). er_mapped r \<subseteq> f_linked f) \<and>
    (\<forall>p. f_project f = Some p \<longrightarrow> p_id p = f_project_id f)"
proof -
  have "form_ok f" by (rule form_life_ok [OF assms])
  then show ?thesis by (auto simp: form_ok_def linked_ids_set intro: linked_ids_distinct)
qed

lemma form_stays_consistent_witness:
  "f_linked (opened_form []) = {''s''} \<and>
   f_linked (on_toggle_server 0 (toggle_repository_server 0 0 (opened_form []))) = {} \<and>
   er_mapped (hd (f_repositories (on_toggle_server 0 (toggle_repository_server 0 0 (opened_form []))))) = {}"
proof -
  let ?f = "on_toggle_server 0 (toggle_repository_server 0 0 (opened_form []))"
  have "form_life (opened_form [])" unfolding opened_form_def by (rule form_life.opened) (rule sample_conn_ok)
  then have life: "form_life ?f" by (rule form_life.edited [OF form_life.edited [OF _ form_edit.maps] form_edit.toggles])
  have "f_linked (opened_form []) = {''s''}" "f_linked ?f = {}" "f_repositories ?f \<noteq> []" by code_simp+
  moreover from this have "er_mapped (hd (f_repositories ?f)) \<subseteq> {}"
    using form_stays_consistent [OF life] by (metis hd_in_set)
  ultimately show ?thesis by simp
qed



text \<open>
  C26: when the servers cannot be read the form shows none, and a save that succeeds then removes
  every link of the project to a server and every mapping of its repositories, whatever the
  user edited: the failed read is not told apart from an empty list.
\<close>

theorem save_after_failed_read_unlinks:
  assumes "read_candidates db = (Inl e, db1)" and "reload f0 pdb db = (f, pdb1, db2)"
    and "form_edit\<^sup>*\<^sup>* f f'" and "projects_ok (projects pdb1)" and "f_project f' = Some p"
    and "on_save now f' pdb1 db3 = (f'', pdb', db4)" and "f_status f'' = Some Saved"
  shows "servers_for_project (f_project_id f) (fault_free pdb') = (Inr [], fault_free pdb') \<and>
    (\<exists>q. get_project (f_project_id f) (fault_free pdb') = (Inr (Some q), fault_free pdb') \<and>
      (\<forall>g \<in> set (p_repositories q). g_server_node_ids g = []))"
proof -
  have f: "f_servers f = []" "form_ok f" using unread_form_ok [OF assms(1,2)] by blast+
  have f': "f_servers f' = []" "f_project_id f' = f_project_id f" "form_ok f'"
    using no_candidates_edits [OF assms(3) f(1)] form_edits_ok [OF assms(3) f(2)] by blast+
  show ?thesis
  proof (rule on_save_result [OF assms(4) f'(3) assms(5,6,7)])
    fix gs old
    assume "stored_project (projects pdb') (f_project_id f') =
        Some ((project_of_form p f' gs)\<lparr>p_created_at := p_created_at old, p_updated_at := now\<rparr>)"
      and "stored_servers (projects pdb') (f_project_id f') = linked_ids_in_tree_order (f_servers f') (f_linked f')"
      and "\<And>g. g \<in> set gs \<Longrightarrow> set (g_server_node_ids g) \<subseteq> set (stored_servers (projects pdb') (f_project_id f'))"
    then show ?thesis using f'(1,2)
      by (simp add: get_fault_free servers_fault_free linked_ids_in_tree_order_def project_of_form_def)
  qed
qed

lemma save_after_failed_read_unlinks_witness:
  "\<exists>f' pdb' db'. on_save 9 (opened_form [Some ''database is locked'']) (sample_project_db []) (sample_conn []) =
      (f', pdb', db') \<and> servers_for_project ''p'' (fault_free pdb') = (Inr [], fault_free pdb')"
proof -
  let ?db = "sample_conn [Some ''database is locked'']" and ?f = "opened_form [Some ''database is locked'']"
  let ?run = "on_save 9 ?f (sample_project_db []) (sample_conn [])"
  have "case fst (read_candidates ?db) of Inl _ \<Rightarrow> True | Inr _ \<Rightarrow> False" by code_simp
  then obtain e db1 where unread: "read_candidates ?db = (Inl e, db1)"
    by (cases "read_candidates ?db") (auto split: sum.splits)
  obtain f0 where f0: "new_form ''p'' (sample_project_db []) ?db = reload f0 (sample_project_db []) ?db"
    unfolding new_form_def by blast
  obtain pdb1 db2 where load: "reload f0 (sample_project_db []) ?db = (?f, pdb1, db2)"
    unfolding opened_form_def f0 by (metis prod.collapse)
  have pdb1: "pdb1 = sample_project_db []"
  proof -
    have "pdb1 = fst (snd (new_form ''p'' (sample_project_db []) ?db))" using load f0 by simp
    moreover have "p_path_set (fst (snd (new_form ''p'' (sample_project_db []) ?db))) \<and>
        \<not> p_poisoned (fst (snd (new_form ''p'' (sample_project_db []) ?db))) \<and>
        p_connected (fst (snd (new_form ''p'' (sample_project_db []) ?db))) \<and>
        p_statements (fst (snd (new_form ''p'' (sample_project_db []) ?db))) = []" by code_simp
    moreover have "projects pdb1 = sample_projects" using unread_form_ok [OF unread load] by simp
    ultimately show ?thesis by (simp add: sample_project_db_def)
  qed
  have status: "f_status (fst ?run) = Some Saved" and id: "f_project_id ?f = ''p''" and "f_project ?f \<noteq> None"
    by code_simp+
  then obtain p where p: "f_project ?f = Some p" by auto
  obtain f' pdb' db' where run: "?run = (f', pdb', db')" by (cases ?run) auto
  show ?thesis
    using save_after_failed_read_unlinks [OF unread load rtranclp.rtrancl_refl _ p, of 9 "sample_conn []" f' pdb' db']
      run status pdb1 id sample_projects_ok by auto
qed

section \<open>The hosts that the agent may use\<close>

definition sample_app :: "terminal_view option \<Rightarrow> host_app" where
  "sample_app view =
    \<lparr>r_sessions = Map.empty, r_pending_open = {}, r_batch = None, ssh_conn = sample_conn [],
     project_conn = sample_project_db [], clock = 0,
     live_views = (case view of None \<Rightarrow> Map.empty | Some w \<Rightarrow> [7 \<mapsto> w]), next_action = 0,
     next_channel = 0, dropped = {}, delivered = [], emitted = [], timers = []\<rparr>"

lemma sample_app_simps [simp]:
  "ssh_conn (sample_app view) = sample_conn []" "project_conn (sample_app view) = sample_project_db []"
  "r_batch (sample_app view) = None"
  by (simp_all add: sample_app_def)

lemma get_server_result:
  fixes db :: "'a sync_db_scheme"
  assumes "with_conn (\<lambda>conn. map_err repository_error_text (get_server n conn)) db = (Inr (Some server), db')"
  shows "\<exists>row \<in> set (server_rows (ssh db)). sr_node_id row = n \<and> server_from_row row = Inr server"
proof (cases rule: with_conn_cases [of "\<lambda>conn. map_err repository_error_text (get_server n conn)" db])
  case (fails e db1)
  then show ?thesis using assms by simp
next
  case (runs db1)
  have "map_err repository_error_text (get_server n db1) = (Inr (Some server), db')" using runs(1) assms by simp
  from readsD(2) [OF reads_map_err [OF reads_get_server, of repository_error_text] this refl]
  have "case find (\<lambda>r. sr_node_id r = n) (server_rows (ssh db)) of None \<Rightarrow> False | Some r \<Rightarrow> server_from_row r = Inr server"
    using runs(2) by (auto simp: same_tables_iff split: option.splits)
  then show ?thesis by (auto simp: find_Some_iff split: option.splits)
qed

text \<open>
  C27: the runner accepts a node only if a server is stored for it and a live project, one that
  can be read, links it; the host that it then waits for is that server's address, in the
  normal form by which sessions are compared.
\<close>

theorem accepted_hosts_in_project:
  assumes "projects_ok (projects (project_conn s))" and "resolve_target node s = (Inr h, s')"
  shows "(\<exists>server. (\<exists>row \<in> set (server_rows (ssh (ssh_conn s))). sr_node_id row = node \<and> server_from_row row = Inr server) \<and>
      key_host (s_host server) \<noteq> [] \<and>
      h = \<lparr>h_node_id = node, h_display = machine_key (s_host server) (s_port server),
           h_machine_key = machine_key (key_host (s_host server)) (s_port server)\<rparr>) \<and>
    (\<exists>p proj. get_project p (fault_free (project_conn s)) = (Inr (Some proj), fault_free (project_conn s)) \<and>
      (\<exists>nodes. servers_for_project p (fault_free (project_conn s)) = (Inr nodes, fault_free (project_conn s)) \<and>
        node \<in> set nodes))"
proof -
  let ?c = "ssh_conn s" and ?d = "project_conn s"
  let ?read = "with_conn (\<lambda>conn. map_err repository_error_text (get_server node conn)) ?c"
  let ?look = "with_projects (\<lambda>conn. map_err project_error_text (projects_for_node node conn)) ?d"
  obtain server c found d where read: "?read = (Inr (Some server), c)" and look: "?look = (Inr found, d)"
    and found: "found \<noteq> []"
    and host: "resolve_machine_key (Some (s_host server)) (Some (show_nat (unat (s_port server)))) = Some (h_machine_key h)"
      "h_node_id h = node" "h_display h = machine_key (s_host server) (s_port server)"
    using assms(2)
    by (auto simp: resolve_target_def machine_key_def split: prod.splits sum.splits option.splits if_splits)
  have "found = node_projects (projects ?d) node"
    by (rule with_projects_view(2) [OF views_node_projects look refl])
  with found have "hd found \<in> set (node_projects (projects ?d) node)" by simp
  then obtain p where "p \<in> set (node_projects (projects ?d) node)" by blast
  then obtain proj where proj: "stored_project (projects ?d) p = Some proj" "node \<in> set (stored_servers (projects ?d) p)"
    using node_projects_exact(1) [OF assms(1)] by auto
  have "key_host (s_host server) \<noteq> [] \<and> h = \<lparr>h_node_id = node, h_display = machine_key (s_host server) (s_port server),
      h_machine_key = machine_key (key_host (s_host server)) (s_port server)\<rparr>"
    using host by (cases h) (auto simp: resolve_machine_key_Some)
  moreover have "\<exists>row \<in> set (server_rows (ssh ?c)). sr_node_id row = node \<and> server_from_row row = Inr server"
    by (rule get_server_result [OF read])
  ultimately show ?thesis using proj by (auto simp: get_fault_free servers_fault_free)
qed

definition sample_host :: project_host_info where
  "sample_host = \<lparr>hi_node_id = ''s'', hi_name = ''s'', hi_host = ''h'', hi_port = 22, hi_username = ''u''\<rparr>"

lemma sample_quiet: "quiet_conn (sample_conn [])" "quiet_projects (sample_project_db [])"
  by (simp_all add: quiet_conn_def quiet_projects_def sample_conn_def sample_project_db_def)

lemma sample_target:
  "fst (resolve_target ''s'' (sample_app view)) = Inr
    \<lparr>h_node_id = ''s'', h_display = machine_key ''h'' 22, h_machine_key = machine_key ''h'' 22\<rparr>"
proof -
  have "find (\<lambda>r. sr_node_id r = ''s'') (server_rows sample_tables) = Some (hd (server_rows sample_tables))"
    by (simp add: sample_tables_def)
  moreover have "case server_from_row (hd (server_rows sample_tables)) of
      Inl _ \<Rightarrow> False | Inr s \<Rightarrow> ''h'' = s_host s \<and> 22 = s_port s" by code_simp
  ultimately have "host_info_of sample_tables sample_host"
    by (auto simp: host_info_of_def sample_host_def split: sum.splits)
  moreover have "node_projects sample_projects ''s'' \<noteq> []" by code_simp
  moreover have "key_host ''h'' = ''h''" by code_simp
  ultimately show ?thesis
    using resolve_target_accepts [of "sample_app view" sample_host] sample_quiet by (simp add: sample_host_def)
qed

lemma accepted_hosts_in_project_witness:
  "\<exists>h s'. resolve_target ''s'' (sample_app None) = (Inr h, s') \<and> h_display h = machine_key ''h'' 22 \<and>
    (\<exists>p nodes. servers_for_project p (fault_free (sample_project_db [])) = (Inr nodes, fault_free (sample_project_db [])) \<and>
      ''s'' \<in> set nodes)"
proof -
  obtain h s' where run: "resolve_target ''s'' (sample_app None) = (Inr h, s')" "h_display h = machine_key ''h'' 22"
    using sample_target [of None] by (cases "resolve_target ''s'' (sample_app None)") auto
  have "\<exists>p nodes. servers_for_project p (fault_free (sample_project_db [])) =
      (Inr nodes, fault_free (sample_project_db [])) \<and> ''s'' \<in> set nodes"
    using accepted_hosts_in_project [OF _ run(1)] sample_projects_ok by simp blast
  then show ?thesis using run by blast
qed

text \<open>
  What the agent is shown of a project it can use: each host in the context has the address
  of a stored server, the nodes named for a repository are among the hosts, the rules and notes
  are cut to their limits, and while no statement fails the runner accepts every listed host
  whose address is not empty, under exactly that address.
\<close>

theorem context_hosts_accepted:
  assumes "projects_ok (projects (project_conn s))"
    and "load_for_conversation enabled (Some p) (project_conn s) (ssh_conn s) = (Some entry, pdb, db)"
  shows "enabled \<and> ce_project_id entry = p \<and> length (ce_hosts entry) \<le> 50 \<and>
    length (ce_rules entry) \<le> 8000 + length TRUNCATION_MARKER \<and>
    length (ce_notes entry) \<le> 2000 + length TRUNCATION_MARKER \<and>
    (\<forall>g \<in> set (ce_repositories entry). set (ri_server_node_ids g) \<subseteq> hi_node_id ` set (ce_hosts entry)) \<and>
    (\<forall>h \<in> set (ce_hosts entry). host_info_of (ssh (ssh_conn s)) h \<and>
      (quiet_conn (ssh_conn s) \<longrightarrow> quiet_projects (project_conn s) \<longrightarrow> key_host (hi_host h) \<noteq> [] \<longrightarrow>
        fst (resolve_target (hi_node_id h) s) = Inr
          \<lparr>h_node_id = hi_node_id h, h_display = machine_key (hi_host h) (hi_port h),
           h_machine_key = machine_key (key_host (hi_host h)) (hi_port h)\<rparr>))"
proof -
  let ?T = "projects (project_conn s)"
  obtain stored nodes pdb1 hosts where on: "enabled"
    and read: "read_record p (project_conn s) = (Inr (Some (stored, nodes)), pdb1)"
    and hosts: "resolve_hosts_from_ssh_manager nodes (ssh_conn s) = (hosts, db)"
    and entry: "entry = build_entry stored hosts"
    using assms(2) by (auto simp: load_for_conversation_def load_explicit_project_def
        split: if_splits prod.splits sum.splits option.splits)
  have stored: "stored_project ?T p = Some stored" and nodes: "nodes = stored_servers ?T p"
    using read_record_result [OF read] by (cases "stored_project ?T p"; simp)+
  have host: "host_info_of (ssh (ssh_conn s)) h \<and> node_projects ?T (hi_node_id h) \<noteq> []" if "h \<in> set (ce_hosts entry)" for h
  proof -
    have "h \<in> set hosts" using that by (auto simp: entry build_entry_def Let_def dest: in_set_takeD)
    from hosts_resolved [OF hosts this] have "hi_node_id h \<in> set nodes" "host_info_of (ssh (ssh_conn s)) h" by blast+
    moreover from this(1) have "p \<in> set (node_projects ?T (hi_node_id h))"
      using node_projects_exact(1) [OF assms(1)] stored nodes by simp
    ultimately show ?thesis by auto
  qed
  have "ce_project_id entry = p" using stored_project_id [OF stored] by (simp add: entry build_entry_def Let_def)
  moreover have "length (ce_hosts entry) \<le> 50" by (simp add: entry build_entry_def Let_def HOSTS_MAX_PER_PROJECT_def)
  moreover have "length (ce_rules entry) \<le> 8000 + length TRUNCATION_MARKER"
      "length (ce_notes entry) \<le> 2000 + length TRUNCATION_MARKER"
    by (simp_all add: entry build_entry_def Let_def truncate_with_marker_def RULES_MAX_CHARS_def NOTES_MAX_CHARS_def)
  moreover have "\<forall>g \<in> set (ce_repositories entry). set (ri_server_node_ids g) \<subseteq> hi_node_id ` set (ce_hosts entry)"
    by (auto simp: entry build_entry_def Let_def)
  ultimately show ?thesis using on host resolve_target_accepts [of s] by blast
qed

lemma context_hosts_accepted_witness:
  "\<exists>entry pdb db h. load_for_conversation True (Some ''p'') (sample_project_db []) (sample_conn []) =
      (Some entry, pdb, db) \<and> h \<in> set (ce_hosts entry) \<and>
    (\<exists>target. fst (resolve_target (hi_node_id h) (sample_app None)) = Inr target)"
proof -
  let ?run = "load_for_conversation True (Some ''p'') (sample_project_db []) (sample_conn [])"
  have some: "case fst ?run of None \<Rightarrow> False | Some entry \<Rightarrow> map hi_host (ce_hosts entry) = [''h'']" by code_simp
  obtain entry pdb db where run: "?run = (Some entry, pdb, db)" and "map hi_host (ce_hosts entry) = [''h'']"
    using some by (cases ?run) (auto split: option.splits)
  then obtain h where h: "h \<in> set (ce_hosts entry)" "hi_host h = ''h''" by auto
  have "key_host ''h'' \<noteq> []" by code_simp
  then have "\<exists>target. fst (resolve_target (hi_node_id h) (sample_app None)) = Inr target"
    using context_hosts_accepted [of "sample_app None" True "''p''" entry pdb db] run h sample_projects_ok sample_quiet by auto
  then show ?thesis using run h by blast
qed

end
