(* ===== verification/Router_Properties.thy ===== *)
theory Router_Properties imports Project_Properties Router_Runs begin

text \<open>
  The properties of the batch runner: what it reports, that it ends, and where its commands go.
  They quantify over all runs, in which sessions, views, databases and other requests change
  between its steps.
\<close>

section \<open>A batch for the witnesses\<close>

definition sample_view :: "bool \<Rightarrow> terminal_view" where
  "sample_view busy = \<lparr>tv_session_id = Some 1,
    tv_sessions = [1 \<mapsto> \<lparr>si_ssh_wrapper = True, si_shell_family = Posix,
      si_connection = Some (Some ''u@H'', Some '' 22'')\<rparr>],
    tv_long_running = busy, tv_refuses = (\<lambda>_. None), tv_blocks = [], tv_active_block = 0,
    tv_reservation = None\<rparr>"

definition sample_registered :: "bool \<Rightarrow> host_app" where
  "sample_registered busy = register_session ''s'' 7 (sample_app (Some (sample_view busy)))"

lemma sample_reachable: "app_reachable (sample_registered busy)" "r_batch (sample_registered busy) = None"
proof -
  have "fresh_app (sample_app (Some (sample_view busy)))" by (simp add: fresh_app_def sample_app_def)
  then show "app_reachable (sample_registered busy)" unfolding sample_registered_def app_reachable_def
    by (blast intro: app_run.intros other_step.registers)
qed (simp add: sample_registered_def register_session_def)

definition sample_input :: json where
  "sample_input = JObject [(''node_ids'', JArray [JString ''s'', JString ''t'']), (''command'', JString ''ls''),
    (''timeout_seconds'', JInt 1)]"

definition sample_args :: batch_args where
  "sample_args = \<lparr>a_node_ids = [''s'', ''t''], a_command = ''ls'', a_canary = True, a_timeout_seconds = 1\<rparr>"

lemma sample_parsed: "parse_batch_args sample_input = Inr sample_args"
  by code_simp

definition sample_started :: "bool \<Rightarrow> host_app" where
  "sample_started busy = snd (execute_project_hosts_batch sample_input 3 (sample_registered busy))"

lemma sample_started_run:
  "execute_project_hosts_batch sample_input 3 (sample_registered busy) = (Inr 0, sample_started busy)"
proof -
  have "fst (execute_project_hosts_batch sample_input 3 (sample_registered busy)) = Inr (next_channel (sample_registered busy))"
    by (simp add: execute_project_hosts_batch_def sample_parsed Let_def)
  then show ?thesis unfolding sample_started_def
    by (cases "execute_project_hosts_batch sample_input 3 (sample_registered busy)")
      (simp add: sample_registered_def register_session_def sample_app_def)
qed

section \<open>Running a batch\<close>

text \<open>
  C28: whatever else happens to the application (time, sessions, databases, other batches), the
  channel of a batch carries nothing while the batch runs, and when it has ended exactly one
  report, unless its receiver is gone: one result for every requested node, in the order of the
  request; a canary abort exactly when the canary was asked for and the first host failed, and
  then all others, and only they, are marked as skipped.
\<close>

theorem batch_report_correct:
  assumes "app_reachable s" and "r_batch s = None"
    and "parse_batch_args input = Inr args"
    and "execute_project_hosts_batch input cv s = (Inr tx, s1)" and "app_run k s1 s'"
  shows "if running tx s' then on_channel tx s' = []
    else (on_channel tx s' = [] \<and> tx \<in> dropped s') \<or>
      (\<exists>rs aborted. on_channel tx s' = [(tx, aggregate_results rs aborted)] \<and>
        map r_node_id rs = a_node_ids args \<and>
        (aborted \<longleftrightarrow> a_canary args \<and> is_canary_failure (hd rs)) \<and>
        (\<forall>i < length rs. r_status (rs ! i) = CanaryAborted \<longleftrightarrow> aborted \<and> 0 < i))"
proof -
  let ?s0 = "s\<lparr>next_channel := next_channel s + 1\<rparr>"
  have tx: "tx = next_channel s" and s1: "s1 = start_batch args cv tx ?s0"
    using assms(3,4) by (auto simp: execute_project_hosts_batch_def Let_def)
  have inv: "router_inv s" by (rule reachable_inv [OF assms(1)])
  have timeout: "1 \<le> a_timeout_seconds args" and ids: "a_node_ids args \<noteq> []"
    using parse_batch_args_timeout [OF assms(3)] by blast+
  have inv1: "router_inv s1" unfolding s1 tx by (rule router_inv_start [OF inv assms(2) timeout])
  have "settles (new_batch args cv tx) ?s0 s1" unfolding s1 by (rule start_settles) (simp add: assms(2))
  moreover have "on_channel tx ?s0 = []"
    using inv by (auto simp: on_channel_def router_inv_def tx filter_empty_conv)
  ultimately have "channel_inv args tx s1"
    using settles_channel [of "new_batch args cv tx" ?s0 s1 args tx] by (simp add: new_batch_def tx)
  then have "channel_inv args tx s'" using channel_inv_run [OF assms(5) inv1] by blast
  then have chan: "if running tx s' then on_channel tx s' = [] else reported args tx s'"
    by (simp add: channel_inv_def)
  show ?thesis
  proof (cases "running tx s'")
    case True
    then show ?thesis using chan by simp
  next
    case False
    then consider "on_channel tx s' = []" "tx \<in> dropped s'"
      | v where "on_channel tx s' = [(tx, v)]" "report_ok args v"
      using chan by (auto simp: reported_def)
    then show ?thesis
    proof cases
      case 1
      then show ?thesis using False by simp
    next
      case 2
      from 2(2) obtain rs aborted where v: "v = aggregate_results rs aborted" "map r_node_id rs = a_node_ids args"
        "aborted \<longleftrightarrow> a_canary args \<and> rs \<noteq> [] \<and> is_canary_failure (hd rs)"
        "\<forall>i < length rs. r_status (rs ! i) = CanaryAborted \<longleftrightarrow> aborted \<and> 0 < i"
        unfolding report_ok_def by blast
      have "rs \<noteq> []" using v(2) ids by auto
      then have "aborted \<longleftrightarrow> a_canary args \<and> is_canary_failure (hd rs)" using v(3) by simp
      then show ?thesis using False 2(1) v(1,2,4) by auto
    qed
  qed
qed

lemma batch_report_correct_witness:
  "\<exists>rs aborted. on_channel 0 (sample_started True) = [(0, aggregate_results rs aborted)] \<and>
    map r_node_id rs = [''s'', ''t''] \<and> (aborted \<longleftrightarrow> is_canary_failure (hd rs))"
proof -
  have "r_batch (sample_started True) = None" "dropped (sample_started True) = {}" by code_simp+
  then show ?thesis
    using batch_report_correct [OF sample_reachable sample_parsed sample_started_run app_run.stays, of True]
    by (auto simp: running_def sample_args_def)
qed

text \<open>
  C29: a batch ends.  While it runs exactly one timer is pending, and after at most
  \<open>120 + 2 * timeout\<close> timer ticks per host (60 seconds to get ready and the timeout, in steps of
  half a second) it no longer runs; with the limits on the arguments this is at most 26400 ticks.
\<close>

theorem batch_ends:
  assumes "app_reachable s" and "r_batch s = None"
    and "parse_batch_args input = Inr args"
    and "execute_project_hosts_batch input cv s = (Inr tx, s1)" and "app_run k s1 s'"
  shows "length (a_node_ids args) * (120 + 2 * a_timeout_seconds args) \<le> 26400 \<and>
    (running tx s' \<longrightarrow> k < length (a_node_ids args) * (120 + 2 * a_timeout_seconds args) \<and>
      (\<exists>due. timers s' = [due]))"
proof -
  let ?s0 = "s\<lparr>next_channel := next_channel s + 1\<rparr>"
  have tx: "tx = next_channel s" and s1: "s1 = start_batch args cv tx ?s0"
    using assms(3,4) by (auto simp: execute_project_hosts_batch_def Let_def)
  have inv: "router_inv s" by (rule reachable_inv [OF assms(1)])
  have args: "1 \<le> a_timeout_seconds args" "a_timeout_seconds args \<le> 600" "length (a_node_ids args) \<le> 20"
    using parse_batch_args_timeout [OF assms(3)] by blast+
  have inv1: "router_inv s1" unfolding s1 tx by (rule router_inv_start [OF inv assms(2) args(1)])
  have bound: "polls_due s1 \<le> length (a_node_ids args) * (120 + 2 * a_timeout_seconds args)"
    using polls_due_bound [of ?s0 args cv tx] assms(2) args(1) inv unfolding s1 host_bound_def
    by (simp add: router_inv_def)
  have "tx < next_channel s1"
    using start_settles [of ?s0 args cv tx] assms(2) by (simp add: settles_def s1 tx)
  then have polls: "k + polls_due s' \<le> polls_due s1" if "running tx s'"
    using app_run_polls [OF assms(5) inv1 _ that] by blast
  have inv': "router_inv s'" by (rule app_run_inv [OF assms(5) inv1])
  have "1 \<le> polls_due s' \<and> (\<exists>due. timers s' = [due])" if run: "running tx s'"
  proof -
    obtain b where b: "r_batch s' = Some b" using run by (auto simp: running_def)
    have "waiting b" "length (timers s') = 1" using inv' b by (simp_all add: router_inv_def)
    moreover from this(1) have "1 \<le> polls_left b due" for due
      using polls_until_pos by (auto simp: waiting_def polls_left_def trans_le_add1 split: host_phase.splits)
    ultimately show ?thesis using b by (auto simp: polls_due_def length_Suc_conv)
  qed
  moreover have "length (a_node_ids args) * (120 + 2 * a_timeout_seconds args) \<le> 20 * 1320"
    by (rule mult_le_mono) (use args in auto)
  ultimately show ?thesis using polls bound by fastforce
qed

lemma batch_ends_witness: "running 0 (sample_started False) \<and> (\<exists>due. timers (sample_started False) = [due])"
proof -
  have "case r_batch (sample_started False) of None \<Rightarrow> False | Some b \<Rightarrow> b_done_tx b = 0" by code_simp
  then have "running 0 (sample_started False)" by (auto simp: running_def split: option.splits)
  then show ?thesis
    using batch_ends [OF sample_reachable sample_parsed sample_started_run app_run.stays, of False] by blast
qed

text \<open>
  C30: a command is sent only by the batch that runs, for its current host, to the session that
  is registered for that node, when that view is alive, runs no long command, and is an SSH
  session whose host and port are those of the stored server that the host was resolved from;
  and after the canary failed no command is sent at all.
\<close>

theorem commands_reach_their_host:
  assumes "app_reachable s" and "tick_step s s' \<or> other_step s s'"
    and "emitted s' \<noteq> emitted s"
  shows "\<exists>b. r_batch s' = Some b \<and>
    (\<not> (a_canary (b_args b) \<and> b_results b \<noteq> [] \<and> is_canary_failure (hd (b_results b)))) \<and>
    (emitted s' = emitted s @ [OpenHostSession (current_node b)] \<or>
     (\<exists>v view session_id action host port h p. r_sessions s' (current_node b) = Some v \<and>
        live_views s' v = Some view \<and> \<not> tv_long_running view \<and> tv_session_id view = Some session_id \<and>
        project_host_ssh_endpoint view = Some (Some host, port) \<and>
        (\<exists>ph. b_phase b = Some ph \<and> h_display (host_of_phase ph) = machine_key h p) \<and>
        key_host host = key_host h \<and> key_port port = p \<and>
        emitted s' = emitted s @ [ExecuteCommand v
          (shell_command (map_option si_shell_family (tv_sessions view session_id)) (a_command (b_args b)))
          session_id action (b_conversation_id b)]))"
proof -
  obtain b t where b: "r_batch s' = Some b" and t: "emitted t = emitted s" "suspended t s' b"
    using step_emits [OF reachable_inv [OF assms(1)] assms(2)] assms(3) by blast
  have wait: "waiting b" using t(2) by (simp add: suspended_def)
  then obtain ph where ph: "b_phase b = Some ph" "h_node_id (host_of_phase ph) = current_node b"
    "host_ok (host_of_phase ph)" by (auto simp: waiting_def)
  have canary: "\<not> (a_canary (b_args b) \<and> b_results b \<noteq> [] \<and> is_canary_failure (hd (b_results b)))"
    using wait by (auto simp: waiting_def ongoing_def progress_def)
  show ?thesis
  proof (cases ph)
    case (WaitingReady hst d)
    then have "emitted s' = emitted s @ [OpenHostSession (current_node b)]"
      using t ph by (simp add: suspended_def)
    then show ?thesis using b canary by blast
  next
    case (WaitingFinish hst action st d)
    then have "dispatched t s' b hst action" using t(2) ph(1) by (simp add: suspended_def)
    then obtain v view session_id where sent: "r_sessions s' (h_node_id hst) = Some v" "live_views s' v = Some view"
      "view_matches s' v hst" "\<not> tv_long_running view" "tv_session_id view = Some session_id"
      "emitted s' = emitted t @ [ExecuteCommand v
      (shell_command (map_option si_shell_family (tv_sessions view session_id)) (a_command (b_args b)))
      session_id action (b_conversation_id b)]" unfolding dispatched_def by blast
    obtain mhost port where endpoint: "project_host_ssh_endpoint view = Some (mhost, port)"
      "resolve_machine_key mhost port = Some (h_machine_key hst)"
      using sent(2,3) by (auto simp: view_matches_def)
    then obtain host where host: "mhost = Some host" by (cases mhost) (auto simp: resolve_machine_key_def)
    obtain h p where hp: "h_display hst = machine_key h p" "h_machine_key hst = machine_key (key_host h) p"
      using ph(3) WaitingFinish by (auto simp: host_ok_def)
    have "key_host host = key_host h \<and> key_port port = p"
      using endpoint(2) hp(2) host by (auto simp: resolve_machine_key_Some machine_key_inj)
    moreover have "\<exists>ph. b_phase b = Some ph \<and> h_display (host_of_phase ph) = machine_key h p"
      using ph(1) WaitingFinish hp(1) by simp
    moreover have "h_node_id hst = current_node b" using ph(2) WaitingFinish by simp
    ultimately show ?thesis using b canary sent t(1) endpoint(1) host by metis
  qed
qed

lemma commands_reach_their_host_witness:
  "emitted (sample_started False) = [ExecuteCommand 7 ''ls'' 1 0 3] \<and>
    (\<exists>b. r_batch (sample_started False) = Some b \<and>
      r_sessions (sample_started False) (current_node b) = Some 7)"
proof -
  have sent: "emitted (sample_started False) = [ExecuteCommand 7 ''ls'' 1 0 3]" by code_simp
  moreover have "emitted (sample_registered False) = []"
    by (simp add: sample_registered_def register_session_def sample_app_def)
  moreover have "other_step (sample_registered False) (sample_started False)"
    unfolding sample_started_def by (rule other_step.starts)
  ultimately show ?thesis
    using commands_reach_their_host [OF sample_reachable(1), of False "sample_started False"] by auto
qed

end
