(* ===== verification/Wire_Protocol.thy ===== *)
theory Wire_Protocol imports Sync_Store "HOL-Library.Word" begin

unbundle bit_operations_syntax

text \<open>
  The framing of the remote server (\<open>crates/remote_server/src/protocol.rs\<close>): messages with a
  length in front, the errors of a read or a write, and the identifier of a request that can be
  read from a message that does not decode.  A reader is the bytes that it still gives and what
  comes after them; a writer is what was written and how much it still takes.  Protobuf
  (\<open>prost\<close>, with the identifier of a message and the error message for one) and the check of UTF-8
  are arguments.
\<close>

type_synonym octets = "8 word list"

definition MAX_MESSAGE_SIZE :: nat where "MAX_MESSAGE_SIZE = 64 * 1024 * 1024"

datatype protocol_error =
    ProtocolIo string
  | ProtocolDecode string "string option"
  | ProtocolUnexpectedEof
  | MessageTooLarge nat nat

datatype reader_end = ReaderEof | ReaderFails string

record reader =
  rd_bytes :: octets
  rd_end :: reader_end

record writer =
  wr_bytes :: octets
  wr_room :: "nat option"
  wr_flush_error :: "string option"

record 'm prost =
  encode_to_vec :: "'m \<Rightarrow> octets"
  decode_message :: "octets \<Rightarrow> string + 'm"
  valid_utf8 :: "octets \<Rightarrow> string option"
  message_request_id :: "'m \<Rightarrow> string"
  internal_error :: "string \<Rightarrow> string \<Rightarrow> 'm"

section \<open>Reading and writing bytes\<close>

text \<open>\<open>read_exact\<close>: when there are too few bytes, all are consumed.\<close>

definition read_exact :: "nat \<Rightarrow> reader \<Rightarrow> (reader_end + octets) \<times> reader" where
  "read_exact n r =
    (if n \<le> length (rd_bytes r) then (Inr (take n (rd_bytes r)), r\<lparr>rd_bytes := drop n (rd_bytes r)\<rparr>)
     else (Inl (rd_end r), r\<lparr>rd_bytes := []\<rparr>))"

definition read_error :: "reader_end \<Rightarrow> protocol_error" where
  "read_error e = (case e of ReaderEof \<Rightarrow> ProtocolUnexpectedEof | ReaderFails m \<Rightarrow> ProtocolIo m)"

definition write_all :: "octets \<Rightarrow> writer \<Rightarrow> (protocol_error + unit) \<times> writer" where
  "write_all bs w =
    (case wr_room w of
      None \<Rightarrow> (Inr (), w\<lparr>wr_bytes := wr_bytes w @ bs\<rparr>)
    | Some n \<Rightarrow>
        if length bs \<le> n then (Inr (), w\<lparr>wr_bytes := wr_bytes w @ bs, wr_room := Some (n - length bs)\<rparr>)
        else (Inl (ProtocolIo ''write failed''), w\<lparr>wr_bytes := wr_bytes w @ take n bs, wr_room := Some 0\<rparr>))"

definition flush_writer :: "writer \<Rightarrow> (protocol_error + unit) \<times> writer" where
  "flush_writer w = ((case wr_flush_error w of None \<Rightarrow> Inr () | Some e \<Rightarrow> Inl (ProtocolIo e)), w)"

text \<open>\<open>u32::to_le_bytes\<close> and \<open>u32::from_le_bytes\<close>.\<close>

definition to_le_bytes :: "32 word \<Rightarrow> octets" where
  "to_le_bytes w = map (\<lambda>i. ucast (drop_bit (8 * i) w)) [0..<4]"

definition from_le_bytes :: "octets \<Rightarrow> 32 word" where
  "from_le_bytes bs = foldr (\<lambda>b w. ucast b OR push_bit 8 w) bs 0"

section \<open>The identifier of a request\<close>

text \<open>The loop of \<open>decode_varint\<close> at index \<open>i\<close>.\<close>

fun decode_varint_from :: "nat \<Rightarrow> 64 word \<Rightarrow> octets \<Rightarrow> (64 word \<times> nat) option" where
  "decode_varint_from i result [] = None"
| "decode_varint_from i result (b # bs) =
    (if 10 \<le> i then None
     else let result' = result OR push_bit (i * 7) (ucast (b AND 0x7F))
          in if b AND 0x80 = 0 then Some (result', i + 1) else decode_varint_from (i + 1) result' bs)"

definition decode_varint :: "octets \<Rightarrow> (nat \<times> nat) option" where
  "decode_varint buf = map_option (\<lambda>(v, consumed). (unat v, consumed)) (decode_varint_from 0 0 buf)"

definition try_extract_request_id :: "'m prost \<Rightarrow> octets \<Rightarrow> string option" where
  "try_extract_request_id P buf =
    (case buf of
      [] \<Rightarrow> None
    | tag # rest \<Rightarrow>
        if tag \<noteq> 0x0a then None
        else (case decode_varint rest of
          None \<Rightarrow> None
        | Some (len, consumed) \<Rightarrow>
            let body = drop consumed rest
            in if length body < len then None
               else (case valid_utf8 P (take len body) of
                 None \<Rightarrow> None
               | Some s \<Rightarrow> if s = [] then None else Some s)))"

section \<open>Messages\<close>

definition read_message :: "'m prost \<Rightarrow> reader \<Rightarrow> (protocol_error + 'm) \<times> reader" where
  "read_message P r =
    attempt (map_err read_error (read_exact 4 r)) (\<lambda>len_buf r1.
      let len = unat (from_le_bytes len_buf)
      in if MAX_MESSAGE_SIZE < len then (Inl (MessageTooLarge len MAX_MESSAGE_SIZE), r1)
         else attempt (map_err read_error (read_exact len r1)) (\<lambda>buf r2.
           (case decode_message P buf of
             Inr m \<Rightarrow> (Inr m, r2)
           | Inl e \<Rightarrow> (Inl (ProtocolDecode e (try_extract_request_id P buf)), r2))))"

definition write_message :: "'m prost \<Rightarrow> 'm \<Rightarrow> writer \<Rightarrow> (protocol_error + unit) \<times> writer" where
  "write_message P m w =
    (let encoded = encode_to_vec P m
     in if MAX_MESSAGE_SIZE < length encoded
        then (Inl (MessageTooLarge (length encoded) MAX_MESSAGE_SIZE), w)
        else attempt (write_all (to_le_bytes (of_nat (length encoded))) w) (\<lambda>_ w1.
             attempt (write_all encoded w1) (\<lambda>_ w2. flush_writer w2)))"

fun is_read_recoverable :: "protocol_error \<Rightarrow> bool" where
  "is_read_recoverable (ProtocolDecode e i) = True"
| "is_read_recoverable (ProtocolIo e) = False"
| "is_read_recoverable ProtocolUnexpectedEof = False"
| "is_read_recoverable (MessageTooLarge n m) = False"

fun is_write_recoverable :: "protocol_error \<Rightarrow> bool" where
  "is_write_recoverable (MessageTooLarge n m) = True"
| "is_write_recoverable (ProtocolIo e) = False"
| "is_write_recoverable (ProtocolDecode e i) = False"
| "is_write_recoverable ProtocolUnexpectedEof = False"

section \<open>The loops of a connection\<close>

text \<open>
  The loop that reads a connection (\<open>daemon.rs\<close>, and \<open>reader_task\<close> of the client): it hands on
  each message, skips what \<open>is_read_recoverable\<close> allows, and stops at any other error.
\<close>

lemma read_exact_shorter: "read_exact n r = (Inr bs, r') \<Longrightarrow> length (rd_bytes r) = n + length (rd_bytes r')"
  by (auto simp: read_exact_def split: if_splits)

lemma read_message_shorter:
  assumes "read_message P r = (x, r')" and "(\<exists>m. x = Inr m) \<or> (\<exists>e. x = Inl e \<and> is_read_recoverable e)"
  shows "length (rd_bytes r') < length (rd_bytes r)"
proof -
  obtain len_buf r1 where 1: "read_exact 4 r = (Inr len_buf, r1)"
    using assms by (cases "read_exact 4 r")
      (auto simp: read_message_def read_error_def map_err_def split: sum.splits reader_end.splits)
  let ?len = "unat (from_le_bytes len_buf)"
  obtain buf where "read_exact ?len r1 = (Inr buf, r')"
    using assms 1 by (cases "read_exact ?len r1")
      (auto simp: read_message_def read_error_def map_err_def Let_def attempt_def
        split: sum.splits reader_end.splits if_splits)
  then show ?thesis using read_exact_shorter 1 by fastforce
qed

function read_loop :: "'m prost \<Rightarrow> reader \<Rightarrow> (protocol_error + 'm) list \<times> protocol_error" where
  "read_loop P r =
    (case read_message P r of
      (Inr m, r') \<Rightarrow> (case read_loop P r' of (xs, e) \<Rightarrow> (Inr m # xs, e))
    | (Inl e, r') \<Rightarrow>
        if is_read_recoverable e then (case read_loop P r' of (xs, e') \<Rightarrow> (Inl e # xs, e')) else ([], e))"
  by pat_completeness auto
termination
  by (relation "measure (\<lambda>(P, r). length (rd_bytes r))") (auto dest!: read_message_shorter [OF sym])

declare read_loop.simps [simp del]

text \<open>
  The loop of the daemon that writes the queued messages (\<open>handle_daemon_connection\<close>): a reply that
  is too large is replaced by an error under the same request.
\<close>

definition show_protocol_error :: "protocol_error \<Rightarrow> string" where
  "show_protocol_error e =
    (case e of
      ProtocolIo m \<Rightarrow> ''I/O error: '' @ m
    | ProtocolDecode m i \<Rightarrow> ''Failed to decode protobuf message: '' @ m
    | ProtocolUnexpectedEof \<Rightarrow> ''Unexpected EOF while reading message''
    | MessageTooLarge n limit \<Rightarrow>
        ''Message too large: '' @ show_nat n @ '' bytes exceeds limit of '' @ show_nat limit @ '' bytes'')"

definition undeliverable :: "'m prost \<Rightarrow> 'm \<Rightarrow> protocol_error \<Rightarrow> 'm" where
  "undeliverable P m e =
    internal_error P (message_request_id P m) (''Response could not be delivered: '' @ show_protocol_error e)"

fun write_replies :: "'m prost \<Rightarrow> 'm list \<Rightarrow> writer \<Rightarrow> protocol_error option \<times> writer" where
  "write_replies P [] w = (None, snd (flush_writer w))"
| "write_replies P (m # ms) w =
    (case write_message P m w of
      (Inr _, w1) \<Rightarrow>
        (case flush_writer w1 of (Inr _, w2) \<Rightarrow> write_replies P ms w2 | (Inl e, w2) \<Rightarrow> (Some e, w2))
    | (Inl e, w1) \<Rightarrow>
        if \<not> is_write_recoverable e then (Some e, w1)
        else if message_request_id P m = [] then write_replies P ms w1
        else
          (case write_message P (undeliverable P m e) w1 of
            (Inr _, w2) \<Rightarrow>
              (case flush_writer w2 of (Inr _, w3) \<Rightarrow> write_replies P ms w3 | (Inl e, w3) \<Rightarrow> (Some e, w3))
          | (Inl e2, w2) \<Rightarrow> if is_write_recoverable e2 then write_replies P ms w2 else (Some e2, w2)))"

end
