(* ===== verification/Wire_Rules.thy ===== *)
theory Wire_Rules imports Wire_Protocol begin

text \<open>
  The rules of the framing: what one frame gives to its reader, whole or broken off, what a run of
  the writing loop leaves in its writer, and the varint in front of the identifier of a request.
\<close>

section \<open>Frames\<close>

lemma from_to_le_bytes: "from_le_bytes (to_le_bytes w) = w"
proof -
  have "from_le_bytes (to_le_bytes w) = ucast (ucast w :: 8 word) OR push_bit 8 (ucast (ucast (drop_bit 8 w) :: 8 word) OR
      push_bit 8 (ucast (ucast (drop_bit 16 w) :: 8 word) OR push_bit 8 (ucast (ucast (drop_bit 24 w) :: 8 word))))"
    by (simp add: from_le_bytes_def to_le_bytes_def upt_rec)
  also have "\<dots> = w"
  proof (rule bit_word_eqI)
    fix n :: nat
    assume "n < LENGTH(32)"
    then have "n < 8 \<or> (8 \<le> n \<and> n < 16) \<or> (16 \<le> n \<and> n < 24) \<or> (24 \<le> n \<and> n < 32)" by auto
    then show "bit (ucast (ucast w :: 8 word) OR push_bit 8 (ucast (ucast (drop_bit 8 w) :: 8 word) OR
      push_bit 8 (ucast (ucast (drop_bit 16 w) :: 8 word) OR push_bit 8 (ucast (ucast (drop_bit 24 w) :: 8 word)))) :: 32 word) n
      \<longleftrightarrow> bit w n"
      by (elim disjE) (auto simp: bit_simps)
  qed
  finally show ?thesis .
qed

lemma length_to_le_bytes [simp]: "length (to_le_bytes w) = 4"
  by (simp add: to_le_bytes_def)

definition frame :: "octets \<Rightarrow> octets" where
  "frame payload = to_le_bytes (of_nat (length payload)) @ payload"

lemma frame_length: "length payload \<le> MAX_MESSAGE_SIZE \<Longrightarrow>
  unat (from_le_bytes (to_le_bytes (of_nat (length payload)))) = length payload"
  by (simp add: from_to_le_bytes MAX_MESSAGE_SIZE_def unat_of_nat take_bit_eq_mod)

text \<open>A whole frame is consumed, whether it decodes or not; a part of one ends the reading.\<close>

lemma read_frame:
  assumes "rd_bytes r = frame payload @ rest" and "length payload \<le> MAX_MESSAGE_SIZE"
  shows "read_message P r =
    (case decode_message P payload of Inr m \<Rightarrow> Inr m
     | Inl e \<Rightarrow> Inl (ProtocolDecode e (try_extract_request_id P payload)), r\<lparr>rd_bytes := rest\<rparr>)"
  using assms frame_length [OF assms(2)]
  by (simp add: read_message_def read_exact_def frame_def split: sum.split)

lemma read_partial:
  assumes "rd_bytes r = part" and "frame payload = part @ tail" and "tail \<noteq> []" and "length payload \<le> MAX_MESSAGE_SIZE"
  shows "\<exists>r'. read_message P r = (Inl (read_error (rd_end r)), r')"
proof (cases "length part < 4")
  case True
  then show ?thesis using assms(1) by (simp add: read_message_def read_exact_def)
next
  case False
  have "part = to_le_bytes (of_nat (length payload)) @ drop 4 part"
    using assms(2) False by (metis append_eq_append_conv_if append_take_drop_id frame_def length_to_le_bytes not_less)
  then obtain body where body: "part = to_le_bytes (of_nat (length payload)) @ body" by blast
  then have "length body < length payload"
    using assms(2,3) by (metis append.assoc frame_def length_append length_greater_0_conv less_add_same_cancel1 same_append_eq)
  then show ?thesis using assms(1,4) body frame_length [OF assms(4)]
    by (simp add: read_message_def read_exact_def)
qed

definition decode_frame :: "'m prost \<Rightarrow> octets \<Rightarrow> protocol_error + 'm" where
  "decode_frame P payload =
    (case decode_message P payload of
      Inr m \<Rightarrow> Inr m
    | Inl e \<Rightarrow> Inl (ProtocolDecode e (try_extract_request_id P payload)))"

text \<open>The bytes of a frame that was begun and not finished.\<close>

definition broken_frame :: "octets \<Rightarrow> bool" where
  "broken_frame part \<longleftrightarrow>
    part = [] \<or> (\<exists>p tail. frame p = part @ tail \<and> tail \<noteq> [] \<and> length p \<le> MAX_MESSAGE_SIZE)"

lemma read_loop_frames:
  assumes "\<forall>p \<in> set payloads. length p \<le> MAX_MESSAGE_SIZE" and "broken_frame part"
  shows "read_loop P \<lparr>rd_bytes = concat (map frame payloads) @ part, rd_end = ending\<rparr> =
    (map (decode_frame P) payloads, read_error ending)"
  using assms(1)
proof (induction payloads)
  case Nil
  have "\<exists>r'. read_message P \<lparr>rd_bytes = part, rd_end = ending\<rparr> = (Inl (read_error ending), r')"
  proof (cases "part = []")
    case True
    then show ?thesis by (simp add: read_message_def read_exact_def)
  next
    case False
    then show ?thesis
      using assms(2) read_partial [of "\<lparr>rd_bytes = part, rd_end = ending\<rparr>" part] by (auto simp: broken_frame_def)
  qed
  then show ?case by (subst read_loop.simps) (auto simp: read_error_def split: reader_end.splits)
next
  case (Cons p payloads)
  let ?r = "\<lparr>rd_bytes = concat (map frame (p # payloads)) @ part, rd_end = ending\<rparr>"
  have "read_message P ?r = (decode_frame P p, ?r\<lparr>rd_bytes := concat (map frame payloads) @ part\<rparr>)"
    unfolding decode_frame_def by (rule read_frame) (use Cons.prems in simp_all)
  then show ?case using Cons
    by (subst read_loop.simps) (auto simp: decode_frame_def split: sum.splits)
qed

section \<open>What was written\<close>

definition fits :: "'m prost \<Rightarrow> 'm \<Rightarrow> bool" where
  "fits P m \<longleftrightarrow> length (encode_to_vec P m) \<le> MAX_MESSAGE_SIZE"

lemma write_all_cases:
  obtains (finishes) w' where "write_all bs w = (Inr (), w')" "wr_bytes w' = wr_bytes w @ bs"
      "wr_flush_error w' = wr_flush_error w" "wr_room w = None \<Longrightarrow> wr_room w' = None"
    | (breaks) e w' part tail where "write_all bs w = (Inl (ProtocolIo e), w')" "wr_bytes w' = wr_bytes w @ part"
      "bs = part @ tail" "tail \<noteq> []" "wr_room w \<noteq> None"
proof (cases "wr_room w")
  case None
  then show thesis by (intro finishes [of "w\<lparr>wr_bytes := wr_bytes w @ bs\<rparr>"]) (auto simp: write_all_def)
next
  case (Some n)
  show thesis
  proof (cases "length bs \<le> n")
    case True
    then show thesis using Some
      by (intro finishes [of "w\<lparr>wr_bytes := wr_bytes w @ bs, wr_room := Some (n - length bs)\<rparr>"])
        (auto simp: write_all_def)
  next
    case False
    then have "bs = take n bs @ drop n bs" "drop n bs \<noteq> []" by simp_all
    then show thesis using Some False by (intro breaks [of "''write failed''" _ "take n bs" "drop n bs"])
      (auto simp: write_all_def)
  qed
qed

lemma write_message_cases:
  obtains (large) "write_message P m w = (Inl (MessageTooLarge (length (encode_to_vec P m)) MAX_MESSAGE_SIZE), w)"
      "\<not> fits P m"
    | (written) x w' where "write_message P m w = (x, w')" "fits P m" "wr_bytes w' = wr_bytes w @ frame (encode_to_vec P m)"
      "x = Inr () \<or> (\<exists>e. x = Inl (ProtocolIo e))" "wr_flush_error w' = wr_flush_error w"
      "wr_room w = None \<Longrightarrow> wr_room w' = None \<and> (wr_flush_error w = None \<longrightarrow> x = Inr ())"
    | (breaks) e w' part tail where "write_message P m w = (Inl e, w')" "\<not> is_write_recoverable e" "fits P m"
      "wr_bytes w' = wr_bytes w @ part" "frame (encode_to_vec P m) = part @ tail" "tail \<noteq> []" "wr_room w \<noteq> None"
proof (cases "fits P m")
  case False
  then show thesis by (intro large) (auto simp: write_message_def fits_def Let_def)
next
  case True
  let ?enc = "encode_to_vec P m" and ?len = "to_le_bytes (of_nat (length (encode_to_vec P m)))"
  have run: "write_message P m w = attempt (write_all ?len w) (\<lambda>_ w1. attempt (write_all ?enc w1) (\<lambda>_ w2. flush_writer w2))"
    using True by (simp add: write_message_def fits_def Let_def)
  show thesis
  proof (cases rule: write_all_cases [of ?len w])
    case (breaks e w1 part tail)
    show thesis
      by (rule that(3) [of "ProtocolIo e" w1 part "tail @ ?enc"])
        (use breaks True run in \<open>auto simp: frame_def\<close>)
  next
    case len: (finishes w1)
    show thesis
    proof (cases rule: write_all_cases [of ?enc w1])
      case (breaks e w2 part tail)
      moreover have "wr_room w \<noteq> None" using breaks(5) len(4) by metis
      ultimately show thesis using True run len
        by (intro that(3) [of "ProtocolIo e" w2 "?len @ part" tail]) (simp_all add: frame_def)
    next
      case (finishes w2)
      then show thesis using True run len
        by (intro written [of "fst (flush_writer w2)" w2]) (auto simp: frame_def flush_writer_def split: option.splits)
    qed
  qed
qed

text \<open>
  However the writing ends, the bytes are whole frames of the first messages and a part of one more;
  \<open>wrote P ms ok w w'\<close> says so of the step from \<open>w\<close> to \<open>w'\<close>, and that it wrote all when it is \<open>ok\<close>.
\<close>

definition unlimited :: "writer \<Rightarrow> bool" where
  "unlimited w \<longleftrightarrow> wr_room w = None \<and> wr_flush_error w = None"

definition wrote :: "'m prost \<Rightarrow> 'm list \<Rightarrow> bool \<Rightarrow> writer \<Rightarrow> writer \<Rightarrow> bool" where
  "wrote P ms ok w w' \<longleftrightarrow>
    (\<exists>k part. wr_bytes w' = wr_bytes w @ concat (map (frame \<circ> encode_to_vec P) (take k ms)) @ part \<and>
      broken_frame part \<and> (ok \<longrightarrow> part = [] \<and> length ms \<le> k)) \<and>
    (unlimited w \<longrightarrow> ok \<and> unlimited w')"

lemma wrote_nothing: "wrote P [] True w w"
  unfolding wrote_def by (rule conjI, rule exI [of _ 0], rule exI [of _ "[]"]) (simp_all add: broken_frame_def)

lemma wrote_then:
  assumes "wrote P ms True w w1" and "wrote P ms' ok w1 w2"
  shows "wrote P (ms @ ms') ok w w2"
proof -
  obtain k part where 2: "wr_bytes w2 = wr_bytes w1 @ concat (map (frame \<circ> encode_to_vec P) (take k ms')) @ part"
    "broken_frame part" "ok \<longrightarrow> part = [] \<and> length ms' \<le> k" "unlimited w1 \<longrightarrow> ok \<and> unlimited w2"
    using assms(2) unfolding wrote_def by blast
  have 1: "wr_bytes w1 = wr_bytes w @ concat (map (frame \<circ> encode_to_vec P) ms)" "unlimited w \<longrightarrow> unlimited w1"
    using assms(1) by (auto simp: wrote_def)
  show ?thesis unfolding wrote_def
    by (rule conjI, rule exI [of _ "length ms + k"], rule exI [of _ part]) (use 1 2 in auto)
qed

lemma wrote_stops:
  assumes "wrote P ms False w w1"
  shows "wrote P (ms @ ms') False w w1"
proof -
  obtain k part where 1: "wr_bytes w1 = wr_bytes w @ concat (map (frame \<circ> encode_to_vec P) (take k ms)) @ part"
    "broken_frame part" "\<not> unlimited w"
    using assms unfolding wrote_def by blast
  have "take (min k (length ms)) (ms @ ms') = take k ms" by (simp add: min_def)
  then show ?thesis unfolding wrote_def
    by (intro conjI, intro exI [of _ "min k (length ms)"] exI [of _ part]) (use 1 in auto)
qed

lemma wrote_message:
  assumes "write_message P m w = (x, w')"
  shows "wrote P (if fits P m then [m] else []) (\<forall>e. x = Inl e \<longrightarrow> is_write_recoverable e) w w'"
    and "fits P m \<Longrightarrow> x = Inl e \<Longrightarrow> \<not> is_write_recoverable e"
    and "\<not> fits P m \<Longrightarrow> x = Inl (MessageTooLarge (length (encode_to_vec P m)) MAX_MESSAGE_SIZE)"
proof -
  have "wrote P (if fits P m then [m] else []) (\<forall>e. x = Inl e \<longrightarrow> is_write_recoverable e) w w' \<and>
    (fits P m \<longrightarrow> x = Inl e \<longrightarrow> \<not> is_write_recoverable e) \<and>
    (\<not> fits P m \<longrightarrow> x = Inl (MessageTooLarge (length (encode_to_vec P m)) MAX_MESSAGE_SIZE))"
  proof (cases rule: write_message_cases [of P m w])
    case large
    then show ?thesis using assms by (simp add: wrote_nothing)
  next
    case (written y w1)
    have "wrote P [m] (\<forall>e. x = Inl e \<longrightarrow> is_write_recoverable e) w w'"
      unfolding wrote_def unlimited_def
      by (intro conjI, intro exI [of _ 1] exI [of _ "[]"])
        (use written assms in \<open>auto simp: broken_frame_def\<close>)
    then show ?thesis using written assms by auto
  next
    case (breaks e1 w1 part tail)
    have "wrote P [m] (\<forall>e. x = Inl e \<longrightarrow> is_write_recoverable e) w w'"
      unfolding wrote_def unlimited_def
      by (intro conjI, intro exI [of _ 0] exI [of _ part])
        (use breaks assms in \<open>auto simp: broken_frame_def fits_def\<close>)
    then show ?thesis using breaks assms by auto
  qed
  then show "wrote P (if fits P m then [m] else []) (\<forall>e. x = Inl e \<longrightarrow> is_write_recoverable e) w w'"
    and "fits P m \<Longrightarrow> x = Inl e \<Longrightarrow> \<not> is_write_recoverable e"
    and "\<not> fits P m \<Longrightarrow> x = Inl (MessageTooLarge (length (encode_to_vec P m)) MAX_MESSAGE_SIZE)" by blast+
qed

lemma wrote_weaken: "wrote P ms ok w w1 \<Longrightarrow> \<not> unlimited w \<Longrightarrow> wrote P ms False w w1"
  unfolding wrote_def by blast

text \<open>A message that is written and flushed, and one whose writing breaks.\<close>

lemma wrote_flushed:
  assumes "write_message P m w = (Inr u, w1)" and "flush_writer w1 = (z, w2)"
  shows "z = Inl e \<Longrightarrow> wrote P ([m] @ ms) False w w2"
    and "z = Inr v \<Longrightarrow> wrote P ms ok w2 w' \<Longrightarrow> wrote P ([m] @ ms) ok w w'"
proof -
  have fits: "fits P m" using wrote_message(3) [OF assms(1)] by auto
  then have m: "wrote P [m] True w w1" using wrote_message(1) [OF assms(1)] by simp
  show "wrote P ([m] @ ms) False w w2" if "z = Inl e"
  proof -
    have "w2 = w1" and "\<not> unlimited w1"
      using assms(2) that by (auto simp: flush_writer_def unlimited_def split: option.splits)
    moreover from this have "\<not> unlimited w" using m by (auto simp: wrote_def)
    ultimately have "wrote P [m] False w w2" using wrote_weaken [OF m] by simp
    then show ?thesis by (rule wrote_stops)
  qed
  show "wrote P ([m] @ ms) ok w w'" if "z = Inr v" and "wrote P ms ok w2 w'"
  proof -
    have "w2 = w1" using assms(2) by (auto simp: flush_writer_def)
    then show ?thesis using wrote_then [OF m] that by simp
  qed
qed

lemma wrote_broken:
  assumes "write_message P m w = (Inl e, w1)" and "\<not> is_write_recoverable e"
  shows "fits P m" and "wrote P ([m] @ ms) False w w1"
proof -
  show "fits P m" using wrote_message(3) [OF assms(1)] assms(2) by (rule_tac ccontr) simp
  then have "wrote P [m] False w w1" using wrote_message(1) [OF assms(1)] assms(2) by simp
  then show "wrote P ([m] @ ms) False w w1" by (rule wrote_stops)
qed

lemma wrote_refused:
  assumes "write_message P m w = (Inl e, w1)" and "is_write_recoverable e"
  shows "\<not> fits P m" and "w1 = w" and "e = MessageTooLarge (length (encode_to_vec P m)) MAX_MESSAGE_SIZE"
proof -
  show large: "\<not> fits P m" using wrote_message(2) [OF assms(1)] assms(2) by blast
  then show "w1 = w" and "e = MessageTooLarge (length (encode_to_vec P m)) MAX_MESSAGE_SIZE"
    using assms(1) by (auto simp: write_message_def fits_def Let_def)
qed

text \<open>What a queued message becomes on the wire.\<close>

definition on_the_wire :: "'m prost \<Rightarrow> 'm \<Rightarrow> 'm list" where
  "on_the_wire P m =
    (if fits P m then [m]
     else if message_request_id P m = [] then []
     else let r = undeliverable P m (MessageTooLarge (length (encode_to_vec P m)) MAX_MESSAGE_SIZE)
          in if fits P r then [r] else [])"

lemma wrote_replies: "write_replies P ms w = (x, w') \<Longrightarrow> wrote P (concat (map (on_the_wire P) ms)) (x = None) w w'"
proof (induction ms arbitrary: w x w')
  case Nil
  then show ?case using wrote_nothing by (simp add: flush_writer_def)
next
  case (Cons m ms)
  obtain y w1 where y: "write_message P m w = (y, w1)" by (cases "write_message P m w")
  show ?case
  proof (cases y)
    case (Inr u)
    then have wire: "on_the_wire P m = [m]"
      using wrote_message(3) [OF y] by (auto simp: on_the_wire_def)
    obtain z w2 where z: "flush_writer w1 = (z, w2)" by (cases "flush_writer w1")
    show ?thesis using Cons y z Inr wire wrote_flushed [OF y [unfolded Inr] z] by (cases z) auto
  next
    case (Inl e)
    show ?thesis
    proof (cases "is_write_recoverable e")
      case False
      then have "on_the_wire P m = [m]" using wrote_broken(1) [OF y [unfolded Inl]] by (simp add: on_the_wire_def)
      then show ?thesis using Cons(2) y Inl False wrote_broken(2) [of P m w e w1] by auto
    next
      case True
      note refused = wrote_refused [OF y [unfolded Inl] True]
      show ?thesis
      proof (cases "message_request_id P m = []")
        case True
        then have "on_the_wire P m = []" using refused by (simp add: on_the_wire_def)
        then show ?thesis using Cons y Inl True \<open>is_write_recoverable e\<close> refused by simp
      next
        case False
        let ?r = "undeliverable P m e"
        have wire: "on_the_wire P m = (if fits P ?r then [?r] else [])"
          using refused False by (simp add: on_the_wire_def Let_def)
        obtain y2 w2 where y2: "write_message P ?r w = (y2, w2)" by (cases "write_message P ?r w")
        note run = Cons(2) [unfolded write_replies.simps y Inl prod.case sum.case, simplified True False refused(1,2) y2, simplified]
        show ?thesis
        proof (cases y2)
          case (Inr u)
          then have "fits P ?r" using wrote_message(3) [OF y2] by auto
          moreover obtain z w3 where z: "flush_writer w2 = (z, w3)" by (cases "flush_writer w2")
          ultimately show ?thesis
            using Cons(1) run wire Inr wrote_flushed [OF y2 [unfolded Inr] z] by (cases z) auto
        next
          case (Inl e2)
          show ?thesis
          proof (cases "is_write_recoverable e2")
            case True
            then show ?thesis using Cons(1) run wire Inl wrote_refused [OF y2 [unfolded Inl]] by simp
          next
            case False
            then show ?thesis using run wire Inl wrote_broken [OF y2 [unfolded Inl]] by auto
          qed
        qed
      qed
    qed
  qed
qed

section \<open>Varints\<close>

text \<open>The encoding of a length that protobuf documents: seven bits an octet, the lowest first.\<close>

lemma unat_drop_7: "unat (drop_bit 7 (w :: 64 word)) = unat w div 128"
  by (subst unat_drop_bit_eq) (simp add: drop_bit_eq_div)

function encode_varint :: "64 word \<Rightarrow> octets" where
  "encode_varint w =
    (if unat w < 128 then [ucast w] else (ucast (take_bit 7 w) OR 0x80) # encode_varint (drop_bit 7 w))"
  by auto
termination
  by (relation "measure unat") (auto simp: unat_drop_7)

declare encode_varint.simps [simp del]

lemma payload_bits: "bit (0x7F :: nat) n \<longleftrightarrow> n < 7" "bit (0x7F :: int) n \<longleftrightarrow> n < 7"
proof -
  have "(0x7F :: nat) = mask 7" "(0x7F :: int) = mask 7" by (simp_all add: mask_eq_exp_minus_1)
  then show "bit (0x7F :: nat) n \<longleftrightarrow> n < 7" "bit (0x7F :: int) n \<longleftrightarrow> n < 7" by (simp_all only: bit_mask_iff) auto
qed

lemma continue_bit: "bit (0x80 :: nat) n \<longleftrightarrow> n = 7" "bit (0x80 :: int) n \<longleftrightarrow> n = 7"
proof -
  have "(0x80 :: nat) = 2 ^ 7" "(0x80 :: int) = 2 ^ 7" by simp_all
  then show "bit (0x80 :: nat) n \<longleftrightarrow> n = 7" "bit (0x80 :: int) n \<longleftrightarrow> n = 7" by (simp_all only: bit_exp_iff) auto
qed

lemma bit_small: "unat (w :: 64 word) < 128 \<Longrightarrow> bit w n \<Longrightarrow> n < 7"
proof -
  assume "unat w < 128" and "bit w n"
  then have "take_bit 7 (unat w) = unat w" by (simp add: take_bit_eq_mod)
  then have "bit (take_bit 7 (unat w)) n" using \<open>bit w n\<close> by (simp add: bit_unsigned_iff)
  then show "n < 7" by (simp add: bit_take_bit_iff)
qed

lemma short_varint:
  assumes "unat (w :: 64 word) < 128"
  shows "ucast w AND 0x80 = (0 :: 8 word)" and "ucast (ucast w AND (0x7F :: 8 word)) = w"
proof -
  have "bit w n \<Longrightarrow> n < 7" and "bit w n \<Longrightarrow> n < 8" for n
    using bit_small [OF assms] by force+
  moreover from this(1) [of 7] have "\<not> bit w 7" by blast
  ultimately show "ucast w AND 0x80 = (0 :: 8 word)" and "ucast (ucast w AND (0x7F :: 8 word)) = w"
    by (auto intro!: bit_word_eqI simp: bit_simps payload_bits continue_bit)
qed

lemma long_varint:
  fixes w :: "64 word"
  shows "(ucast (take_bit 7 w) OR 0x80) AND 0x80 \<noteq> (0 :: 8 word)"
    and "ucast ((ucast (take_bit 7 w) OR 0x80) AND (0x7F :: 8 word)) = take_bit 7 w"
proof -
  have "bit ((ucast (take_bit 7 w) OR 0x80) AND (0x80 :: 8 word)) 7"
    by (simp add: bit_simps continue_bit)
  then show "(ucast (take_bit 7 w) OR 0x80) AND 0x80 \<noteq> (0 :: 8 word)" by auto
  show "ucast ((ucast (take_bit 7 w) OR 0x80) AND (0x7F :: 8 word)) = take_bit 7 w"
    by (rule bit_word_eqI) (auto simp: bit_simps payload_bits continue_bit)
qed

lemma split_varint: "push_bit n (take_bit 7 w) OR push_bit (n + 7) (drop_bit 7 w) = push_bit n (w :: 64 word)"
proof (rule bit_word_eqI)
  fix i :: nat
  assume "i < LENGTH(64)"
  then show "bit (push_bit n (take_bit 7 w) OR push_bit (n + 7) (drop_bit 7 w)) i \<longleftrightarrow> bit (push_bit n w) i"
    by (cases "i < n + 7") (auto simp: bit_simps)
qed

lemma decode_encode_from:
  assumes "i + length (encode_varint w) \<le> 10"
  shows "decode_varint_from i r (encode_varint w @ rest) =
    Some (r OR push_bit (i * 7) w, i + length (encode_varint w))"
  using assms
proof (induction w arbitrary: i r rule: encode_varint.induct)
  case (1 w)
  show ?case
  proof (cases "unat w < 128")
    case True
    then show ?thesis using 1(2) short_varint [OF True]
      by (simp add: encode_varint.simps [of w])
  next
    case False
    have "i < 10" using 1(2) by (simp add: encode_varint.simps [of w] False)
    moreover have "decode_varint_from (i + 1) (r OR push_bit (i * 7) (take_bit 7 w)) (encode_varint (drop_bit 7 w) @ rest) =
      Some ((r OR push_bit (i * 7) (take_bit 7 w)) OR push_bit ((i + 1) * 7) (drop_bit 7 w), i + 1 + length (encode_varint (drop_bit 7 w)))"
      using 1(2) by (intro 1(1) False) (simp add: encode_varint.simps [of w] False)
    ultimately show ?thesis
      using long_varint [of w] split_varint [of "i * 7" w]
      by (simp add: encode_varint.simps [of w] False or.assoc algebra_simps)
  qed
qed

lemma encode_varint_length:
  assumes "unat w < 2 ^ (7 * k)" and "0 < k"
  shows "length (encode_varint w) \<le> k"
  using assms
proof (induction w arbitrary: k rule: encode_varint.induct)
  case (1 w)
  show ?case
  proof (cases "unat w < 128")
    case True
    then show ?thesis using 1(3) by (simp add: encode_varint.simps [of w])
  next
    case False
    then have "1 < k"
    proof (rule contrapos_np)
      assume "\<not> 1 < k"
      then have "k = 1" using 1(3) by simp
      then show "unat w < 128" using 1(2) by simp
    qed
    moreover have "unat (drop_bit 7 w) < 2 ^ (7 * (k - 1))"
    proof -
      have "7 * k = 7 + 7 * (k - 1)" using \<open>1 < k\<close> by simp
      then have "unat w < 2 ^ 7 * 2 ^ (7 * (k - 1))" using 1(2) by (metis power_add)
      then show ?thesis by (simp add: unat_drop_7 less_mult_imp_div_less mult.commute)
    qed
    ultimately have "length (encode_varint (drop_bit 7 w)) \<le> k - 1"
      using 1(1) [OF False, of "k - 1"] by simp
    then show ?thesis using \<open>1 < k\<close> False by (simp add: encode_varint.simps [of w])
  qed
qed

lemma decode_encode:
  assumes "n \<le> MAX_MESSAGE_SIZE"
  shows "decode_varint (encode_varint (of_nat n) @ rest) = Some (n, length (encode_varint (of_nat n)))"
proof -
  have n: "unat (of_nat n :: 64 word) = n"
    using assms by (simp add: MAX_MESSAGE_SIZE_def unat_of_nat take_bit_eq_mod)
  have "length (encode_varint (of_nat n)) \<le> 4"
    using assms by (intro encode_varint_length) (simp_all add: n MAX_MESSAGE_SIZE_def)
  then show ?thesis by (simp add: decode_varint_def decode_encode_from n)
qed

end
