(* ===== verification/Remote_Client.thy ===== *)
theory Remote_Client imports Wire_Protocol begin

text \<open>
  One connection of the client to a remote server (\<open>crates/remote_server/src/client/mod.rs\<close>): the
  callers inside \<open>send_request_internal\<close>, the task that reads and the task that writes.  Each input
  of \<open>client_step\<close> is one atomic piece of one of them, so a run is an interleaving of the tasks.
  What the generated messages hold (an error, a tunnel message, the event of a push) is a record of
  functions; the wire is that of \<open>Wire_Protocol\<close>.
\<close>

datatype client_error =
    ClientDisconnected
  | ClientProtocol protocol_error
  | ResponseChannelClosed
  | UnexpectedResponse
  | ServerError int string
  | ClientTimeout
  | FileOperationFailed string

datatype 'e client_event =
    PushEvent 'e
  | MessageDecodingError
  | HostScopedWriteFailed string
  | HostScopedDecodeFailed string
  | EventDisconnected

record ('m, 'e) server_schema =
  request_id_of :: "'m \<Rightarrow> string"
  is_tunnel :: "'m \<Rightarrow> bool"
  push_message_to_event :: "'m \<Rightarrow> 'e option"
  server_error_of :: "'m \<Rightarrow> (int \<times> string) option"

datatype client_body = SessionScoped octets | HostScoped octets | Abort string | OtherMessage octets

record client_message =
  cm_request_id :: string
  cm_body :: client_body

text \<open>The two ends of the \<open>oneshot\<close> of a call, and how far its caller is.\<close>

datatype 'm oneshot = Unresolved | Resolved "client_error + 'm" | SenderDropped

datatype 'm call_state = Entered | Sending | Waiting | Returned "client_error + 'm" | Cancelled

record 'm call =
  call_message :: client_message
  call_state :: "'m call_state"
  call_slot :: "'m oneshot"

datatype reader_phase = Reading | Broken | Marked | Stopped

datatype writer_phase = Writing | Ending | Gone

record ('m, 'e) remote_client =
  pending_requests :: "string list"
  calls :: "string \<Rightarrow> 'm call option"
  disconnected :: bool
  reader_task :: reader_phase
  writer_task :: writer_phase
  outbound :: "client_message list"
  event_tx_open :: bool
  events :: "'e client_event list"
  host_responses :: "'m list"
  tunnel_messages :: "'m list"

definition new_client :: "('m, 'e) remote_client" where
  "new_client = \<lparr>pending_requests = [], calls = (\<lambda>_. None), disconnected = False, reader_task = Reading,
    writer_task = Writing, outbound = [], event_tx_open = True, events = [], host_responses = [],
    tunnel_messages = []\<rparr>"

definition OUTBOUND_CAPACITY :: nat where "OUTBOUND_CAPACITY = 256"

section \<open>The map of the waiting callers\<close>

definition set_state :: "string \<Rightarrow> 'm call_state \<Rightarrow> ('m, 'e) remote_client \<Rightarrow> ('m, 'e) remote_client" where
  "set_state i st c = c\<lparr>calls := (calls c)(i := map_option (\<lambda>k. k\<lparr>call_state := st\<rparr>) (calls c i))\<rparr>"

definition set_slot :: "string \<Rightarrow> 'm oneshot \<Rightarrow> ('m, 'e) remote_client \<Rightarrow> ('m, 'e) remote_client" where
  "set_slot i v c = c\<lparr>calls := (calls c)(i := map_option (\<lambda>k. k\<lparr>call_slot := v\<rparr>) (calls c i))\<rparr>"

text \<open>\<open>pending_requests.remove\<close>: the sender that is taken out is used or dropped.\<close>

definition take_pending :: "string \<Rightarrow> 'm oneshot \<Rightarrow> ('m, 'e) remote_client \<Rightarrow> ('m, 'e) remote_client" where
  "take_pending i v c =
    (if i \<in> set (pending_requests c)
     then (set_slot i v c)\<lparr>pending_requests := removeAll i (pending_requests c)\<rparr> else c)"

definition clear_pending :: "('m, 'e) remote_client \<Rightarrow> ('m, 'e) remote_client" where
  "clear_pending c = (foldr (\<lambda>i. set_slot i SenderDropped) (pending_requests c) c)\<lparr>pending_requests := []\<rparr>"

definition try_send :: "client_message \<Rightarrow> ('m, 'e) remote_client \<Rightarrow> ('m, 'e) remote_client option" where
  "try_send msg c =
    (if writer_task c \<noteq> Gone \<and> length (outbound c) < OUTBOUND_CAPACITY
     then Some (c\<lparr>outbound := outbound c @ [msg]\<rparr>) else None)"

definition send_notification :: "client_message \<Rightarrow> ('m, 'e) remote_client \<Rightarrow> ('m, 'e) remote_client" where
  "send_notification msg c = (case try_send msg c of Some c' \<Rightarrow> c' | None \<Rightarrow> c)"

definition send_abort :: "string \<Rightarrow> ('m, 'e) remote_client \<Rightarrow> ('m, 'e) remote_client" where
  "send_abort i = send_notification \<lparr>cm_request_id = [], cm_body = Abort i\<rparr>"

definition send_host_scoped ::
  "client_message \<Rightarrow> ('m, 'e) remote_client \<Rightarrow> (client_error + unit) \<times> ('m, 'e) remote_client" where
  "send_host_scoped msg c =
    (case try_send msg c of Some c' \<Rightarrow> (Inr (), c') | None \<Rightarrow> (Inl ClientDisconnected, c))"

text \<open>\<open>PendingRequestGuard\<close>, dropped at every return of a caller.\<close>

definition drop_guard :: "string \<Rightarrow> ('m, 'e) remote_client \<Rightarrow> ('m, 'e) remote_client" where
  "drop_guard i c =
    (if i \<in> set (pending_requests c) then send_abort i (take_pending i SenderDropped c) else c)"

definition finish_call ::
  "string \<Rightarrow> client_error + 'm \<Rightarrow> ('m, 'e) remote_client \<Rightarrow> ('m, 'e) remote_client" where
  "finish_call i r c = drop_guard i (set_state i (Returned r) c)"

definition push_client_event :: "'e client_event \<Rightarrow> ('m, 'e) remote_client \<Rightarrow> ('m, 'e) remote_client" where
  "push_client_event ev c = (if event_tx_open c then c\<lparr>events := events c @ [ev]\<rparr> else c)"

section \<open>The reading task\<close>

definition handle_message ::
  "('m, 'e) server_schema \<Rightarrow> 'm \<Rightarrow> ('m, 'e) remote_client \<Rightarrow> ('m, 'e) remote_client" where
  "handle_message S m c =
    (let i = request_id_of S m
     in if i = [] then
          (if is_tunnel S m then c\<lparr>tunnel_messages := tunnel_messages c @ [m]\<rparr>
           else (case push_message_to_event S m of
             Some ev \<Rightarrow> push_client_event (PushEvent ev) c
           | None \<Rightarrow> c))
        else if i \<in> set (pending_requests c) then take_pending i (Resolved (Inr m)) c
        else c\<lparr>host_responses := host_responses c @ [m]\<rparr>)"

fun handle_read ::
  "('m, 'e) server_schema \<Rightarrow> protocol_error + 'm \<Rightarrow> ('m, 'e) remote_client \<Rightarrow> ('m, 'e) remote_client" where
  "handle_read S (Inr m) c = handle_message S m c"
| "handle_read S (Inl (ProtocolDecode e (Some i))) c =
    (if i \<in> set (pending_requests c)
     then take_pending i (Resolved (Inl (ClientProtocol (ProtocolDecode e (Some i))))) c
     else push_client_event (HostScopedDecodeFailed i) c)"
| "handle_read S (Inl (ProtocolDecode e None)) c = push_client_event MessageDecodingError c"
| "handle_read S (Inl e) c = (if is_read_recoverable e then c else c\<lparr>reader_task := Broken\<rparr>)"

text \<open>What follows the loop: the flag, and then the callers that wait.\<close>

definition end_reader :: "('m, 'e) remote_client \<Rightarrow> ('m, 'e) remote_client option" where
  "end_reader c =
    (case reader_task c of
      Broken \<Rightarrow> Some (c\<lparr>disconnected := True, reader_task := Marked\<rparr>)
    | Marked \<Rightarrow>
        Some ((push_client_event EventDisconnected (clear_pending c))\<lparr>event_tx_open := False, reader_task := Stopped\<rparr>)
    | _ \<Rightarrow> None)"

section \<open>The writing task\<close>

definition is_host_scoped :: "client_message \<Rightarrow> bool" where
  "is_host_scoped msg = (case cm_body msg of HostScoped bs \<Rightarrow> True | _ \<Rightarrow> False)"

text \<open>The result of writing the message at the head of the queue.\<close>

definition handle_written ::
  "client_message \<Rightarrow> protocol_error + unit \<Rightarrow> ('m, 'e) remote_client \<Rightarrow> ('m, 'e) remote_client" where
  "handle_written msg r c =
    (case r of
      Inr _ \<Rightarrow> c
    | Inl e \<Rightarrow>
        let c1 = (if is_host_scoped msg then push_client_event (HostScopedWriteFailed (cm_request_id msg)) c else c)
        in if is_write_recoverable e then take_pending (cm_request_id msg) SenderDropped c1
           else (clear_pending c1)\<lparr>writer_task := Ending\<rparr>)"

section \<open>The connection as a whole\<close>

datatype 'm client_input =
    Enter string octets
  | Check string
  | Send string
  | Wake string
  | Expire string
  | Cancel string
  | HostScopedSend client_message
  | Receive "protocol_error + 'm"
  | EndReader
  | Written "protocol_error + unit"
  | EndWriter

definition state_of :: "string \<Rightarrow> ('m, 'e) remote_client \<Rightarrow> 'm call_state option" where
  "state_of i c = map_option call_state (calls c i)"

definition slot_of :: "string \<Rightarrow> ('m, 'e) remote_client \<Rightarrow> 'm oneshot option" where
  "slot_of i c = map_option call_slot (calls c i)"

definition wake ::
  "('m, 'e) server_schema \<Rightarrow> string \<Rightarrow> ('m, 'e) remote_client \<Rightarrow> ('m, 'e) remote_client option" where
  "wake S i c =
    (case slot_of i c of
      Some (Resolved (Inr m)) \<Rightarrow>
        Some (finish_call i (case server_error_of S m of
          Some (code, text) \<Rightarrow> Inl (ServerError code text) | None \<Rightarrow> Inr m) c)
    | Some (Resolved (Inl e)) \<Rightarrow> Some (finish_call i (Inl e) c)
    | Some SenderDropped \<Rightarrow> Some (finish_call i (Inl ResponseChannelClosed) c)
    | _ \<Rightarrow> None)"

fun client_step ::
  "('m, 'e) server_schema \<Rightarrow> 'm client_input \<Rightarrow> ('m, 'e) remote_client \<Rightarrow> ('m, 'e) remote_client option" where
  "client_step S (Enter i body) c =
    (if i = [] \<or> calls c i \<noteq> None then None
     else Some (c\<lparr>pending_requests := i # pending_requests c,
       calls := (calls c)(i := Some \<lparr>call_message = \<lparr>cm_request_id = i, cm_body = SessionScoped body\<rparr>,
         call_state = Entered, call_slot = Unresolved\<rparr>)\<rparr>))"
| "client_step S (Check i) c =
    (if state_of i c \<noteq> Some Entered then None
     else if disconnected c then Some (finish_call i (Inl ClientDisconnected) (clear_pending c))
     else Some (set_state i Sending c))"
| "client_step S (Send i) c =
    (case calls c i of
      None \<Rightarrow> None
    | Some k \<Rightarrow>
        if call_state k \<noteq> Sending then None
        else if writer_task c = Gone
        then Some (finish_call i (Inl ClientDisconnected) (take_pending i SenderDropped c))
        else map_option (set_state i Waiting) (try_send (call_message k) c))"
| "client_step S (Wake i) c = (if state_of i c = Some Waiting then wake S i c else None)"
| "client_step S (Expire i) c =
    (if state_of i c = Some Waiting \<and> slot_of i c = Some Unresolved
     then Some (finish_call i (Inl ClientTimeout) c) else None)"
| "client_step S (Cancel i) c =
    (if state_of i c = Some Sending \<or> state_of i c = Some Waiting
     then Some (drop_guard i (set_state i Cancelled c)) else None)"
| "client_step S (HostScopedSend msg) c = Some (snd (send_host_scoped msg c))"
| "client_step S (Receive x) c = (if reader_task c = Reading then Some (handle_read S x c) else None)"
| "client_step S EndReader c = end_reader c"
| "client_step S (Written r) c =
    (case outbound c of
      msg # rest \<Rightarrow> if writer_task c = Writing then Some (handle_written msg r (c\<lparr>outbound := rest\<rparr>)) else None
    | [] \<Rightarrow> None)"
| "client_step S EndWriter c =
    (if writer_task c = Ending then Some (c\<lparr>writer_task := Gone, outbound := []\<rparr>) else None)"

inductive client_reachable :: "('m, 'e) server_schema \<Rightarrow> ('m, 'e) remote_client \<Rightarrow> bool" for S where
  fresh: "client_reachable S new_client"
| step: "client_reachable S c \<Longrightarrow> client_step S x c = Some c' \<Longrightarrow> client_reachable S c'"

fun client_run ::
  "('m, 'e) server_schema \<Rightarrow> 'm client_input list \<Rightarrow> ('m, 'e) remote_client \<Rightarrow> ('m, 'e) remote_client option" where
  "client_run S [] c = Some c"
| "client_run S (x # xs) c = Option.bind (client_step S x c) (client_run S xs)"

end
