(* ===== verification/Remote_Client_Rules.thy ===== *)
theory Remote_Client_Rules imports Remote_Client begin

text \<open>
  The invariant of one connection: the map of the waiting callers holds exactly the calls that are
  still open and have no answer, an answer lies only where it belongs, and once the reading task has
  stopped only callers that have not yet looked at the flag are still in the map.
\<close>

fun is_open :: "'m call_state \<Rightarrow> bool" where
  "is_open Entered = True"
| "is_open Sending = True"
| "is_open Waiting = True"
| "is_open (Returned r) = False"
| "is_open Cancelled = False"

definition awaits :: "'m call \<Rightarrow> bool" where
  "awaits k \<longleftrightarrow> is_open (call_state k) \<and> call_slot k = Unresolved"

definition own_answer :: "('m, 'e) server_schema \<Rightarrow> string \<Rightarrow> 'm call \<Rightarrow> bool" where
  "own_answer S i k \<longleftrightarrow>
    (\<forall>m. call_slot k = Resolved (Inr m) \<longrightarrow> request_id_of S m = i) \<and>
    (\<forall>m. call_state k = Returned (Inr m) \<longrightarrow> request_id_of S m = i \<and> server_error_of S m = None)"

definition client_ok :: "('m, 'e) server_schema \<Rightarrow> ('m, 'e) remote_client \<Rightarrow> bool" where
  "client_ok S c \<longleftrightarrow>
    (\<forall>i. i \<in> set (pending_requests c) \<longleftrightarrow> (\<exists>k. calls c i = Some k \<and> awaits k)) \<and>
    (\<forall>i k. calls c i = Some k \<longrightarrow> own_answer S i k) \<and>
    (disconnected c \<longleftrightarrow> reader_task c = Marked \<or> reader_task c = Stopped) \<and>
    (reader_task c = Stopped \<longrightarrow> (\<forall>i k. calls c i = Some k \<longrightarrow> awaits k \<longrightarrow> call_state k = Entered))"

section \<open>What the operations on the map do\<close>

lemma calls_set_state: "calls (set_state i st c) j =
  (if j = i then map_option (\<lambda>k. k\<lparr>call_state := st\<rparr>) (calls c i) else calls c j)"
  by (simp add: set_state_def)

lemma calls_set_slot: "calls (set_slot i v c) j =
  (if j = i then map_option (\<lambda>k. k\<lparr>call_slot := v\<rparr>) (calls c i) else calls c j)"
  by (simp add: set_slot_def)

lemma calls_clear: "calls (clear_pending c) j =
  (if j \<in> set (pending_requests c) then map_option (\<lambda>k. k\<lparr>call_slot := SenderDropped\<rparr>) (calls c j) else calls c j)"
proof -
  have "calls (foldr (\<lambda>i. set_slot i SenderDropped) is c) j =
    (if j \<in> set is then map_option (\<lambda>k. k\<lparr>call_slot := SenderDropped\<rparr>) (calls c j) else calls c j)" for "is"
    by (induction "is") (auto simp: calls_set_slot option.map_comp comp_def)
  then show ?thesis by (simp add: clear_pending_def)
qed

lemma fields_set [simp]:
  "pending_requests (set_state i st c) = pending_requests c" "disconnected (set_state i st c) = disconnected c"
  "reader_task (set_state i st c) = reader_task c" "writer_task (set_state i st c) = writer_task c"
  "outbound (set_state i st c) = outbound c"
  "pending_requests (set_slot i v c) = pending_requests c" "disconnected (set_slot i v c) = disconnected c"
  "reader_task (set_slot i v c) = reader_task c" "writer_task (set_slot i v c) = writer_task c"
  "outbound (set_slot i v c) = outbound c"
  by (simp_all add: set_state_def set_slot_def)

lemma fields_clear [simp]:
  "pending_requests (clear_pending c) = []" "disconnected (clear_pending c) = disconnected c"
  "reader_task (clear_pending c) = reader_task c"
proof -
  have "disconnected (foldr (\<lambda>i. set_slot i SenderDropped) is c) = disconnected c"
    "reader_task (foldr (\<lambda>i. set_slot i SenderDropped) is c) = reader_task c" for "is"
    by (induction "is") simp_all
  then show "pending_requests (clear_pending c) = []" "disconnected (clear_pending c) = disconnected c"
    "reader_task (clear_pending c) = reader_task c" by (simp_all add: clear_pending_def)
qed

lemma fields_event [simp]:
  "pending_requests (push_client_event ev c) = pending_requests c" "calls (push_client_event ev c) = calls c"
  "disconnected (push_client_event ev c) = disconnected c" "reader_task (push_client_event ev c) = reader_task c"
  "writer_task (push_client_event ev c) = writer_task c" "outbound (push_client_event ev c) = outbound c"
  by (simp_all add: push_client_event_def)

lemma fields_notification [simp]:
  "pending_requests (send_abort i c) = pending_requests c" "calls (send_abort i c) = calls c"
  "disconnected (send_abort i c) = disconnected c" "reader_task (send_abort i c) = reader_task c"
  by (auto simp: send_abort_def send_notification_def try_send_def)

lemma fields_take [simp]:
  "pending_requests (take_pending i v c) = removeAll i (pending_requests c)"
  "disconnected (take_pending i v c) = disconnected c" "reader_task (take_pending i v c) = reader_task c"
  by (simp_all add: take_pending_def)

lemma calls_take: "calls (take_pending i v c) j =
  (if j = i \<and> i \<in> set (pending_requests c) then map_option (\<lambda>k. k\<lparr>call_slot := v\<rparr>) (calls c i) else calls c j)"
  by (simp add: take_pending_def calls_set_slot)

lemma fields_drop [simp]:
  "pending_requests (drop_guard i c) = removeAll i (pending_requests c)"
  "disconnected (drop_guard i c) = disconnected c" "reader_task (drop_guard i c) = reader_task c"
  by (simp_all add: drop_guard_def)

lemma calls_drop: "calls (drop_guard i c) j =
  (if j = i \<and> i \<in> set (pending_requests c) then map_option (\<lambda>k. k\<lparr>call_slot := SenderDropped\<rparr>) (calls c i)
   else calls c j)"
  by (simp add: drop_guard_def calls_take)

lemma client_ok_cong:
  assumes "client_ok S c" and "pending_requests c' = pending_requests c" and "calls c' = calls c"
    and "disconnected c' = disconnected c" and "reader_task c' = reader_task c"
  shows "client_ok S c'"
  using assms by (simp add: client_ok_def state_of_def)

section \<open>The invariant is kept\<close>

lemma take_ok:
  assumes "client_ok S c" and "v \<noteq> Unresolved" and "\<And>m. v = Resolved (Inr m) \<Longrightarrow> request_id_of S m = i"
  shows "client_ok S (take_pending i v c)"
  using assms by (auto simp: client_ok_def calls_take awaits_def own_answer_def state_of_def)

lemma clear_ok: "client_ok S c \<Longrightarrow> client_ok S (clear_pending c)"
  unfolding client_ok_def
  by (simp add: calls_clear state_of_def) (auto simp: awaits_def own_answer_def)

lemma close_ok:
  assumes "client_ok S c" and "\<not> is_open st"
    and "\<And>m. st = Returned (Inr m) \<Longrightarrow> request_id_of S m = i \<and> server_error_of S m = None"
  shows "client_ok S (drop_guard i (set_state i st c))"
  using assms unfolding client_ok_def
  by (simp add: calls_drop calls_set_state state_of_def) (auto simp: awaits_def own_answer_def)

lemma event_ok: "client_ok S c \<Longrightarrow> client_ok S (push_client_event ev c)"
  by (erule client_ok_cong) simp_all

lemma read_ok:
  assumes "client_ok S c" and "reader_task c = Reading"
  shows "client_ok S (handle_read S x c)"
proof -
  have broken: "client_ok S (c\<lparr>reader_task := Broken\<rparr>)"
    using assms by (simp add: client_ok_def state_of_def)
  have "client_ok S (handle_message S m c)" for m
    using assms(1) by (auto simp: handle_message_def Let_def event_ok split: option.split
      intro: client_ok_cong [OF assms(1)] intro!: take_ok)
  then show ?thesis using assms(1) broken
    by (cases "(S, x, c)" rule: handle_read.cases) (auto simp: event_ok intro!: take_ok)
qed

lemma written_ok:
  assumes "client_ok S c"
  shows "client_ok S (handle_written msg r c)"
proof (cases r)
  case (Inl e)
  define c1 where "c1 = (if is_host_scoped msg then push_client_event (HostScopedWriteFailed (cm_request_id msg)) c else c)"
  have c1: "client_ok S c1" using assms by (simp add: c1_def event_ok)
  have "client_ok S (take_pending (cm_request_id msg) SenderDropped c1)"
    by (rule take_ok [OF c1]) simp_all
  moreover have "client_ok S ((clear_pending c1)\<lparr>writer_task := Ending\<rparr>)"
    by (rule client_ok_cong [OF clear_ok [OF c1]]) simp_all
  ultimately show ?thesis using Inl by (simp add: handle_written_def c1_def [symmetric])
qed (simp add: handle_written_def assms)

lemma wake_finishes:
  assumes "wake S i c = Some c'" and "client_ok S c"
  obtains r where "c' = finish_call i r c" "\<And>m. r = Inr m \<Longrightarrow> request_id_of S m = i \<and> server_error_of S m = None"
proof -
  obtain k where k: "calls c i = Some k" using assms(1) by (auto simp: wake_def slot_of_def split: option.splits)
  then have own: "own_answer S i k" using assms(2) by (simp add: client_ok_def)
  show thesis
  proof (cases "call_slot k")
    case Unresolved
    then show thesis using assms(1) k by (simp add: wake_def slot_of_def)
  next
    case (Resolved x)
    show thesis
    proof (cases x)
      case (Inl e)
      then show thesis using assms(1) k Resolved by (intro that [of "Inl e"]) (auto simp: wake_def slot_of_def)
    next
      case (Inr m)
      then show thesis using assms(1) k Resolved own
        by (intro that [of "case server_error_of S m of Some (code, text) \<Rightarrow> Inl (ServerError code text) | None \<Rightarrow> Inr m"])
          (auto simp: wake_def slot_of_def own_answer_def split: option.splits)
    qed
  next
    case SenderDropped
    then show thesis using assms(1) k by (intro that [of "Inl ResponseChannelClosed"]) (auto simp: wake_def slot_of_def)
  qed
qed

lemma client_step_ok:
  assumes "client_ok S c" and "client_step S x c = Some c'"
  shows "client_ok S c'"
proof (cases x)
  case (Enter i body)
  then show ?thesis using assms by (auto simp: client_ok_def awaits_def own_answer_def state_of_def split: if_splits)
next
  case (Check i)
  show ?thesis
  proof (cases "disconnected c")
    case True
    then show ?thesis using assms Check
      by (auto simp: finish_call_def split: if_splits intro!: close_ok clear_ok)
  next
    case False
    then have "c' = set_state i Sending c" "state_of i c = Some Entered" using assms Check by (auto split: if_splits)
    then show ?thesis using assms(1) False
      by (auto simp: client_ok_def calls_set_state awaits_def own_answer_def state_of_def)
  qed
next
  case (Send i)
  then obtain k where k: "calls c i = Some k" "call_state k = Sending"
    using assms(2) by (auto split: option.splits if_splits)
  show ?thesis
  proof (cases "writer_task c = Gone")
    case True
    then show ?thesis using assms Send k by (auto simp: finish_call_def intro!: close_ok take_ok)
  next
    case False
    then obtain d where d: "try_send (call_message k) c = Some d" "c' = set_state i Waiting d"
      using assms(2) Send k by auto
    then have "client_ok S d" "calls d i = Some k"
      using assms(1) k by (auto simp: try_send_def split: if_splits intro: client_ok_cong)
    moreover from this have "reader_task d = Stopped \<Longrightarrow> \<not> awaits k" using k(2) by (auto simp: client_ok_def)
    ultimately show ?thesis using d(2) k(2)
      by (auto simp: client_ok_def calls_set_state awaits_def own_answer_def state_of_def)
  qed
next
  case (Wake i)
  then have "wake S i c = Some c'" using assms(2) by (auto split: if_splits)
  then obtain r where "c' = finish_call i r c"
    "\<And>m. r = Inr m \<Longrightarrow> request_id_of S m = i \<and> server_error_of S m = None"
    using wake_finishes [OF _ assms(1)] by blast
  then show ?thesis using assms(1) by (auto simp: finish_call_def intro!: close_ok)
next
  case (Expire i)
  then show ?thesis using assms by (auto simp: finish_call_def split: if_splits intro!: close_ok)
next
  case (Cancel i)
  then show ?thesis using assms by (auto split: if_splits intro!: close_ok)
next
  case (HostScopedSend msg)
  then show ?thesis using assms
    by (auto simp: send_host_scoped_def try_send_def split: if_splits intro: client_ok_cong)
next
  case (Receive y)
  then show ?thesis using assms by (auto split: if_splits intro: read_ok)
next
  case EndReader
  then show ?thesis using assms clear_ok [OF assms(1)]
    by (auto simp: end_reader_def client_ok_def state_of_def split: reader_phase.splits)
next
  case (Written r)
  then obtain msg rest where "outbound c = msg # rest" "c' = handle_written msg r (c\<lparr>outbound := rest\<rparr>)"
    using assms(2) by (auto split: list.splits if_splits)
  moreover have "client_ok S (c\<lparr>outbound := rest\<rparr>)" by (rule client_ok_cong [OF assms(1)]) simp_all
  ultimately show ?thesis by (simp add: written_ok)
next
  case EndWriter
  then show ?thesis using assms by (auto split: if_splits intro: client_ok_cong)
qed

lemma new_client_ok: "client_ok S new_client"
  by (simp add: client_ok_def new_client_def)

lemma reachable_ok: "client_reachable S c \<Longrightarrow> client_ok S c"
  by (induction rule: client_reachable.induct) (auto intro: new_client_ok client_step_ok)

section \<open>Calls that are over\<close>

lemma state_of_ops [simp]:
  "state_of j (set_slot i v c) = state_of j c" "state_of j (take_pending i v c) = state_of j c"
  "state_of j (clear_pending c) = state_of j c" "state_of j (drop_guard i c) = state_of j c"
  "state_of j (push_client_event ev c) = state_of j c"
  by (auto simp: state_of_def calls_set_slot calls_take calls_clear calls_drop option.map_comp comp_def)

lemma state_of_set_state: "state_of j (set_state i st c) = (if j = i then map_option (\<lambda>_. st) (state_of i c) else state_of j c)"
  by (simp add: state_of_def calls_set_state option.map_comp comp_def)

lemma state_of_finish: "j \<noteq> i \<Longrightarrow> state_of j (finish_call i r c) = state_of j c"
  by (simp add: finish_call_def state_of_set_state)

lemma state_of_calls: "calls c' = calls c \<Longrightarrow> state_of j c' = state_of j c"
  by (simp add: state_of_def)

lemma state_of_read: "state_of j (handle_read S x c) = state_of j c"
proof -
  have fields [simp]: "state_of j (c\<lparr>tunnel_messages := ms\<rparr>) = state_of j c"
    "state_of j (c\<lparr>host_responses := ms\<rparr>) = state_of j c" "state_of j (c\<lparr>reader_task := p\<rparr>) = state_of j c" for ms p
    by (simp_all add: state_of_def)
  have "state_of j (handle_message S m c) = state_of j c" for m
    by (simp add: handle_message_def Let_def split: option.split)
  then show ?thesis by (cases "(S, x, c)" rule: handle_read.cases) simp_all
qed

lemma closed_call_stays:
  assumes "client_step S x c = Some c'" and "state_of i c = Some st" and "\<not> is_open st"
  shows "state_of i c' = Some st"
proof (cases x)
  case (Check j)
  then show ?thesis using assms by (cases "i = j") (auto simp: state_of_finish state_of_set_state split: if_splits)
next
  case (Send j)
  then obtain k where k: "calls c j = Some k" "call_state k = Sending"
    using assms(1) by (auto split: option.splits if_splits)
  then have "i \<noteq> j" using assms(2,3) by (auto simp: state_of_def)
  moreover have "state_of i d = state_of i c" if "try_send msg c = Some d" for msg d
    using that by (auto simp: try_send_def state_of_def split: if_splits)
  ultimately show ?thesis using assms(1,2) Send k
    by (auto simp: state_of_finish state_of_set_state split: if_splits)
next
  case (Wake j)
  then have "i \<noteq> j" and "wake S j c = Some c'" using assms by (auto split: if_splits)
  moreover from this obtain r where "c' = finish_call j r c"
    by (auto simp: wake_def split: option.splits oneshot.splits sum.splits)
  ultimately show ?thesis using assms(2) by (simp add: state_of_finish)
next
  case (Receive y)
  then show ?thesis using assms by (auto simp: state_of_read split: if_splits)
next
  case EndReader
  then have "calls c' = calls c \<or> calls c' = calls (clear_pending c)"
    using assms(1) by (auto simp: end_reader_def split: reader_phase.splits)
  then show ?thesis using assms(2) state_of_calls [of c' c i] state_of_calls [of c' "clear_pending c" i] by auto
next
  case (Written r)
  then obtain msg rest where c': "c' = handle_written msg r (c\<lparr>outbound := rest\<rparr>)"
    using assms(1) by (auto split: list.splits if_splits)
  have "state_of i (c1\<lparr>writer_task := Ending\<rparr>) = state_of i c1" for c1 :: "('a, 'b) remote_client"
    by (simp add: state_of_def)
  then have "state_of i c' = state_of i (c\<lparr>outbound := rest\<rparr>)"
    by (auto simp: c' handle_written_def Let_def split: sum.split)
  then show ?thesis using assms(2) by (simp add: state_of_def)
next
  case (Enter j body)
  then show ?thesis using assms by (auto simp: state_of_def split: if_splits)
next
  case (Expire j)
  then show ?thesis using assms by (cases "i = j") (auto simp: state_of_finish split: if_splits)
next
  case (Cancel j)
  then show ?thesis using assms by (cases "i = j") (auto simp: state_of_set_state split: if_splits)
next
  case (HostScopedSend msg)
  then show ?thesis using assms by (auto simp: send_host_scoped_def try_send_def state_of_def split: if_splits)
next
  case EndWriter
  then show ?thesis using assms by (auto simp: state_of_def split: if_splits)
qed

section \<open>Messages for other calls\<close>

lemma receive_other:
  assumes "request_id_of S m \<noteq> i"
  shows "calls (handle_message S m c) i = calls c i"
    and "i \<in> set (pending_requests (handle_message S m c)) \<longleftrightarrow> i \<in> set (pending_requests c)"
    and "reader_task (handle_message S m c) = reader_task c"
  using assms by (auto simp: handle_message_def Let_def calls_take split: option.split)

lemma receive_others:
  assumes "\<And>m. m \<in> set ms \<Longrightarrow> request_id_of S m \<noteq> i" and "reader_task c = Reading"
  shows "\<exists>c'. client_run S (map (\<lambda>m. Receive (Inr m)) ms) c = Some c' \<and> calls c' i = calls c i \<and>
    (i \<in> set (pending_requests c') \<longleftrightarrow> i \<in> set (pending_requests c)) \<and> reader_task c' = Reading"
  using assms
proof (induction ms arbitrary: c)
  case (Cons m ms)
  have "reader_task (handle_message S m c) = Reading" using Cons.prems receive_other(3) [of S m i c] by simp
  then obtain c' where "client_run S (map (\<lambda>m. Receive (Inr m)) ms) (handle_message S m c) = Some c'"
    "calls c' i = calls (handle_message S m c) i"
    "i \<in> set (pending_requests c') \<longleftrightarrow> i \<in> set (pending_requests (handle_message S m c))" "reader_task c' = Reading"
    using Cons.IH Cons.prems(1) by (metis list.set_intros(2))
  then show ?case using Cons.prems receive_other [of S m i c] by simp
qed simp

lemma client_run_append: "client_run S (xs @ ys) c = Option.bind (client_run S xs c) (client_run S ys)"
  by (induction xs arbitrary: c) (auto split: Option.bind_split)

end
