(* ===== verification/Wire_Properties.thy ===== *)
theory Wire_Properties imports Wire_Rules Remote_Client_Rules begin

text \<open>
  What the connection to a remote server promises: the messages that were written are the messages
  that are read, in order and up to the point where the writing broke; a request that cannot be
  decoded or answered is reported under its own identifier; no caller waits on a dead connection and
  every caller gets its own answer.
\<close>

text \<open>
  C31: replies arrive.  Whatever the daemon queues and wherever its connection breaks, the other side
  reads exactly the first replies, in order and unchanged, with an error in the place of each reply
  that was too large, and then learns how the connection ended; nothing is missing when the loop
  ended because the queue was closed, and it does so on a connection that does not break.
\<close>

lemma replies_arrive:
  assumes law: "\<And>m. decode_message P (encode_to_vec P m) = Inr m"
    and run: "write_replies P ms w = (x, w')" "wr_bytes w = []"
    and read: "read_loop P \<lparr>rd_bytes = wr_bytes w', rd_end = ending\<rparr> = (ys, e)"
  shows "e = read_error ending \<and>
    (\<exists>k. ys = map Inr (take k (concat (map (on_the_wire P) ms)))) \<and>
    (x = None \<longrightarrow> ys = map Inr (concat (map (on_the_wire P) ms))) \<and>
    (unlimited w \<longrightarrow> x = None)"
proof -
  let ?ds = "concat (map (on_the_wire P) ms)"
  obtain k part where bytes: "wr_bytes w' = concat (map frame (map (encode_to_vec P) (take k ?ds))) @ part"
    and part: "broken_frame part" "x = None \<longrightarrow> length ?ds \<le> k" and "unlimited w \<longrightarrow> x = None"
    using wrote_replies [OF run(1)] run(2) by (auto simp: wrote_def comp_def)
  have "fits P m" if "m \<in> set ?ds" for m
    using that by (auto simp: on_the_wire_def Let_def split: if_splits)
  then have "\<forall>p \<in> set (map (encode_to_vec P) (take k ?ds)). length p \<le> MAX_MESSAGE_SIZE"
    by (auto simp: fits_def dest!: in_set_takeD)
  then have "ys = map (decode_frame P) (map (encode_to_vec P) (take k ?ds)) \<and> e = read_error ending"
    using read_loop_frames [OF _ part(1), of "map (encode_to_vec P) (take k ?ds)" P ending] read bytes by simp
  moreover have "map (decode_frame P) (map (encode_to_vec P) ds) = map Inr ds" for ds
    by (simp add: decode_frame_def law)
  ultimately have "ys = map Inr (take k ?ds)" and "e = read_error ending" by simp_all
  then show ?thesis using part(2) \<open>unlimited w \<longrightarrow> x = None\<close> by auto
qed

text \<open>A line that takes nine octets more: the second reply breaks off.\<close>

definition plain_format :: "octets prost" where
  "plain_format = \<lparr>encode_to_vec = (\<lambda>m. m), decode_message = Inr, 
    valid_utf8 = (\<lambda>bs. if list_all (\<lambda>b. b < 128) bs then Some (map (\<lambda>b. char_of (unat b)) bs) else None),
    message_request_id = (\<lambda>m. ''1''), internal_error = (\<lambda>i t. [])\<rparr>"

lemma replies_arrive_witness:
  "\<exists>x w'. write_replies plain_format [[1, 2], [3, 4, 5]] \<lparr>wr_bytes = [], wr_room = Some 9, wr_flush_error = None\<rparr> = (x, w') \<and>
    read_loop plain_format \<lparr>rd_bytes = wr_bytes w', rd_end = ReaderEof\<rparr> = ([Inr [1, 2]], ProtocolUnexpectedEof)"
proof -
  let ?w = "\<lparr>wr_bytes = [], wr_room = Some 9, wr_flush_error = None\<rparr>"
  have run: "write_replies plain_format [[1, 2], [3, 4, 5]] ?w = (Some (ProtocolIo ''write failed''),
    \<lparr>wr_bytes = [2, 0, 0, 0, 1, 2, 3, 0, 0], wr_room = Some 0, wr_flush_error = None\<rparr>)"
  proof -
    have "to_le_bytes 2 = [2, 0, 0, 0]" and "to_le_bytes 3 = [3, 0, 0, 0]" by code_simp+
    then show ?thesis
      by (simp add: plain_format_def write_message_def write_all_def flush_writer_def MAX_MESSAGE_SIZE_def)
  qed
  have read: "read_loop plain_format \<lparr>rd_bytes = [2, 0, 0, 0, 1, 2, 3, 0, 0], rd_end = ReaderEof\<rparr> =
    ([Inr [1, 2]], ProtocolUnexpectedEof)"
  proof -
    have "frame [1, 2] = [2, 0, 0, 0, 1, 2]" and "frame [3, 4, 5] = [3, 0, 0] @ [0, 3, 4, 5]" by code_simp+
    moreover have "broken_frame [3, 0, 0]"
      unfolding broken_frame_def by (intro disjI2 exI [of _ "[3, 4, 5]"] exI [of _ "[0, 3, 4, 5]"])
        (simp add: \<open>frame [3, 4, 5] = [3, 0, 0] @ [0, 3, 4, 5]\<close> MAX_MESSAGE_SIZE_def)
    ultimately show ?thesis
      using read_loop_frames [of "[[1, 2]]" "[3, 0, 0]" plain_format ReaderEof]
      by (simp add: decode_frame_def plain_format_def MAX_MESSAGE_SIZE_def read_error_def)
  qed
  have "ProtocolUnexpectedEof = read_error ReaderEof \<and>
    (\<exists>k. [Inr [1, 2]] = (map Inr (take k (concat (map (on_the_wire plain_format) [[1, 2], [3, 4, 5]]))) :: (protocol_error + octets) list))"
    using replies_arrive [of plain_format, OF _ run, of ReaderEof] read by (simp add: plain_format_def)
  then show ?thesis using run read by auto
qed

text \<open>
  C32: a request that does not decode is named.  A message whose first field is its identifier, as the
  schema has it, and whose rest does not decode is reported under that identifier, is consumed whole
  and does not end the reading.
\<close>

lemma undecodable_request_named:
  assumes "payload = 0x0a # encode_varint (of_nat (length bs)) @ bs @ rest"
    and "length payload \<le> MAX_MESSAGE_SIZE"
    and "decode_message P payload = Inl e" and "valid_utf8 P bs = Some i" and "i \<noteq> []"
    and "rd_bytes r = frame payload @ others"
  shows "read_message P r = (Inl (ProtocolDecode e (Some i)), r\<lparr>rd_bytes := others\<rparr>) \<and>
    is_read_recoverable (ProtocolDecode e (Some i))"
proof -
  have "length bs \<le> MAX_MESSAGE_SIZE" using assms(1,2) by simp
  then have "try_extract_request_id P payload = Some i"
    using assms(1,4,5) decode_encode [of "length bs" "bs @ rest"] by (simp add: try_extract_request_id_def)
  then show ?thesis using read_frame [OF assms(6,2), of P] assms(3) by simp
qed

lemma undecodable_request_named_witness:
  "read_message (plain_format\<lparr>decode_message := (\<lambda>_. Inl ''bad tag'')\<rparr>)
      \<lparr>rd_bytes = frame [0x0a, 2, 0x41, 0x42, 0xff] @ [1], rd_end = ReaderEof\<rparr> =
    (Inl (ProtocolDecode ''bad tag'' (Some ''AB'')), \<lparr>rd_bytes = [1], rd_end = ReaderEof\<rparr>)"
proof -
  have "encode_varint (of_nat 2) = [2]" and "map (\<lambda>b. char_of (unat b)) [0x41 :: 8 word, 0x42] = ''AB''" by code_simp+
  then show ?thesis
    using undecodable_request_named [of "[0x0a, 2, 0x41, 0x42, 0xff]" "[0x41, 0x42]" "[0xff]"
        "plain_format\<lparr>decode_message := (\<lambda>_. Inl ''bad tag'')\<rparr>" "''bad tag''" "''AB''"
        "\<lparr>rd_bytes = frame [0x0a, 2, 0x41, 0x42, 0xff] @ [1], rd_end = ReaderEof\<rparr>" "[1]"]
    by (simp add: plain_format_def MAX_MESSAGE_SIZE_def)
qed

section \<open>Callers\<close>

text \<open>
  C33: no caller waits on a dead connection.  However callers, the reading task and the writing task
  interleave: when the reading task has stopped, every caller that has sent or is sending its request
  already has an answer or lost its sender, so it returns as soon as it looks, and a caller that comes
  too late reads the flag and returns at once; nobody is left in the map but those.
\<close>

lemma no_caller_left_behind:
  assumes "client_reachable S c" and "reader_task c = Stopped"
  shows "(\<forall>i. state_of i c = Some Waiting \<longrightarrow>
      (\<exists>c' r. client_step S (Wake i) c = Some c' \<and> state_of i c' = Some (Returned r))) \<and>
    (\<forall>i. state_of i c = Some Sending \<longrightarrow> slot_of i c \<noteq> Some Unresolved) \<and>
    (\<forall>i. state_of i c = Some Entered \<longrightarrow>
      (\<exists>c'. client_step S (Check i) c = Some c' \<and> state_of i c' = Some (Returned (Inl ClientDisconnected)))) \<and>
    (\<forall>i \<in> set (pending_requests c). state_of i c = Some Entered)"
proof -
  have ok: "client_ok S c" using assms(1) by (rule reachable_ok)
  have slot: "slot_of i c \<noteq> Some Unresolved" if "state_of i c = Some Sending \<or> state_of i c = Some Waiting" for i
  proof
    assume "slot_of i c = Some Unresolved"
    then obtain k where k: "calls c i = Some k" "call_slot k = Unresolved" by (auto simp: slot_of_def)
    then have "awaits k" and "call_state k \<noteq> Entered" using that by (auto simp: state_of_def awaits_def)
    then show False using ok assms(2) k(1) by (auto simp: client_ok_def)
  qed
  have returned: "state_of i (finish_call i r d) = Some (Returned r)" if "state_of i d \<noteq> None" for i r d
    using that by (auto simp: finish_call_def state_of_set_state)
  have "\<exists>c' r. client_step S (Wake i) c = Some c' \<and> state_of i c' = Some (Returned r)" if waiting: "state_of i c = Some Waiting" for i
  proof -
    obtain v where v: "slot_of i c = Some v" using waiting by (auto simp: state_of_def slot_of_def)
    then have "v \<noteq> Unresolved" using slot [of i] waiting by auto
    then have "\<exists>r. wake S i c = Some (finish_call i r c)"
      using v by (cases v) (auto simp: wake_def split: sum.splits)
    then show ?thesis using waiting returned [of i c] by auto
  qed
  moreover have "\<exists>c'. client_step S (Check i) c = Some c' \<and> state_of i c' = Some (Returned (Inl ClientDisconnected))"
    if "state_of i c = Some Entered" for i
    using that ok assms(2) returned [of i "clear_pending c"] by (simp add: client_ok_def)
  moreover have "state_of i c = Some Entered" if "i \<in> set (pending_requests c)" for i
    using that ok assms(2) by (auto simp: client_ok_def state_of_def)
  ultimately show ?thesis using slot by blast
qed

definition sample_schema :: "(octets, unit) server_schema" where
  "sample_schema = \<lparr>request_id_of = (\<lambda>m. map (\<lambda>b. char_of (unat b)) m), is_tunnel = (\<lambda>m. False),
    push_message_to_event = (\<lambda>m. None), server_error_of = (\<lambda>m. None)\<rparr>"

lemma run_reachable:
  "client_run S xs c = Some c' \<Longrightarrow> client_reachable S c \<Longrightarrow> client_reachable S c'"
  by (induction xs arbitrary: c) (auto split: Option.bind_splits intro: client_reachable.step)

lemma no_caller_left_behind_witness:
  "\<exists>c c' r. client_run sample_schema
      [Enter ''a'' [1], Check ''a'', Send ''a'', Enter ''b'' [], Receive (Inl ProtocolUnexpectedEof), EndReader,
       Enter ''c'' [], EndReader] new_client = Some c \<and>
    client_step sample_schema (Wake ''a'') c = Some c' \<and> state_of ''a'' c' = Some (Returned r)"
proof -
  let ?xs = "[Enter ''a'' [1], Check ''a'', Send ''a'', Enter ''b'' [], Receive (Inl ProtocolUnexpectedEof), EndReader,
    Enter ''c'' [], EndReader]"
  have "map_option (\<lambda>c. (state_of ''a'' c, reader_task c)) (client_run sample_schema ?xs new_client) = Some (Some Waiting, Stopped)"
    by code_simp
  then obtain c where c: "client_run sample_schema ?xs new_client = Some c" "state_of ''a'' c = Some Waiting" "reader_task c = Stopped"
    by auto
  then show ?thesis
    using no_caller_left_behind [OF run_reachable [OF c(1) client_reachable.fresh] c(3)] by blast
qed

text \<open>
  C34: every caller gets its own answer, once.  What a request returns is a message under its own
  identifier that is not an error of the server, and a call that has returned or was cancelled is
  never changed again, whatever arrives afterwards.
\<close>

lemma answers_reach_their_caller:
  assumes "client_reachable S c" and "state_of i c = Some st" and "\<not> is_open st"
  shows "(\<forall>m. st = Returned (Inr m) \<longrightarrow> request_id_of S m = i \<and> server_error_of S m = None) \<and>
    (\<forall>x c'. client_step S x c = Some c' \<longrightarrow> state_of i c' = Some st) \<and> i \<notin> set (pending_requests c)"
proof -
  obtain k where k: "calls c i = Some k" "call_state k = st" using assms(2) by (auto simp: state_of_def)
  have "client_ok S c" using assms(1) by (rule reachable_ok)
  then have "own_answer S i k" and "i \<notin> set (pending_requests c)"
    using k assms(3) by (auto simp: client_ok_def awaits_def)
  then show ?thesis using closed_call_stays [OF _ assms(2,3)] k(2) by (auto simp: own_answer_def)
qed

lemma answers_reach_their_caller_witness:
  "\<exists>c. client_run sample_schema [Enter ''a'' [1], Check ''a'', Send ''a'', Enter ''b'' [2], Check ''b'', Send ''b'',
      Receive (Inr [98]), Receive (Inr [97]), Wake ''b'', Wake ''a''] new_client = Some c \<and>
    request_id_of sample_schema [97] = ''a'' \<and> ''a'' \<notin> set (pending_requests c)"
proof -
  let ?xs = "[Enter ''a'' [1], Check ''a'', Send ''a'', Enter ''b'' [2], Check ''b'', Send ''b'',
    Receive (Inr [98]), Receive (Inr [97]), Wake ''b'', Wake ''a'']"
  have "map_option (state_of ''a'') (client_run sample_schema ?xs new_client) = Some (Some (Returned (Inr [97])))"
    by code_simp
  then obtain c where c: "client_run sample_schema ?xs new_client = Some c" "state_of ''a'' c = Some (Returned (Inr [97]))"
    by auto
  then show ?thesis
    using answers_reach_their_caller [OF run_reachable [OF c(1) client_reachable.fresh] c(2)] by simp
qed

text \<open>
  C35: a reply that is too large fails its caller.  When the daemon's reply to a waiting request does
  not fit into a message, the client that reads everything the daemon wrote wakes that caller with the
  error of the server that says so; it does not wait for its timeout.
\<close>

lemma oversized_reply_reported:
  assumes law: "\<And>m. decode_message P (encode_to_vec P m) = Inr m"
    and ids: "\<And>m. request_id_of S m = message_request_id P m"
      "\<And>m e. message_request_id P (undeliverable P m e) = message_request_id P m"
    and c: "client_reachable S c" "reader_task c = Reading" "state_of i c = Some Waiting" "slot_of i c = Some Unresolved"
    and reply: "message_request_id P m = i" "i \<noteq> []" "\<not> fits P m"
      "r = undeliverable P m (MessageTooLarge (length (encode_to_vec P m)) MAX_MESSAGE_SIZE)" "fits P r"
      "server_error_of S r = Some (code, txt)"
    and others: "\<forall>m' \<in> set before. message_request_id P m' \<noteq> i"
    and run: "write_replies P (before @ [m]) w = (x, w')" "wr_bytes w = []" "unlimited w"
      "read_loop P \<lparr>rd_bytes = wr_bytes w', rd_end = ending\<rparr> = (ys, e)"
  shows "\<exists>c1 c2. client_run S (map Receive ys) c = Some c1 \<and> client_step S (Wake i) c1 = Some c2 \<and>
    state_of i c2 = Some (Returned (Inl (ServerError code txt)))"
proof -
  let ?pre = "concat (map (on_the_wire P) before)"
  have r: "on_the_wire P m = [r]" "request_id_of S r = i" using reply ids by (auto simp: on_the_wire_def Let_def)
  then have ys: "ys = map Inr (?pre @ [r])"
    using replies_arrive [of P, OF law run(1,2,4)] run(3) by simp
  have "request_id_of S p \<noteq> i" if "p \<in> set ?pre" for p
    using that others ids by (auto simp: on_the_wire_def Let_def split: if_splits)
  then obtain d where d: "client_run S (map (\<lambda>m. Receive (Inr m)) ?pre) c = Some d" "calls d i = calls c i"
    "i \<in> set (pending_requests d) \<longleftrightarrow> i \<in> set (pending_requests c)" "reader_task d = Reading"
    using receive_others [of ?pre S i c] c(2) by auto
  have "i \<in> set (pending_requests c)"
    using reachable_ok [OF c(1)] c(3,4) by (auto simp: client_ok_def awaits_def state_of_def slot_of_def)
  then have last: "client_step S (Receive (Inr r)) d = Some (take_pending i (Resolved (Inr r)) d)"
    using d r(2) reply(2) by (simp add: handle_message_def)
  let ?d = "take_pending i (Resolved (Inr r)) d"
  have "slot_of i ?d = Some (Resolved (Inr r))" and waits: "state_of i ?d = Some Waiting"
    using d c(3) \<open>i \<in> set (pending_requests c)\<close> by (auto simp: slot_of_def state_of_def calls_take)
  then have "client_step S (Wake i) ?d = Some (finish_call i (Inl (ServerError code txt)) ?d)"
    using reply(6) by (simp add: wake_def)
  moreover have "state_of i (finish_call i (Inl (ServerError code txt)) ?d) = Some (Returned (Inl (ServerError code txt)))"
    using waits by (simp add: finish_call_def state_of_set_state)
  moreover have "client_run S (map Receive ys) c = Some ?d"
    using d(1) last by (simp add: ys client_run_append comp_def)
  ultimately show ?thesis by blast
qed

text \<open>Two messages: a reply of 64 MB and one octet, and the short error in its place.\<close>

definition big_format :: "bool prost" where
  "big_format = \<lparr>encode_to_vec = (\<lambda>big. if big then replicate (MAX_MESSAGE_SIZE + 1) 0 else []),
    decode_message = (\<lambda>bs. Inr (bs \<noteq> [])), valid_utf8 = (\<lambda>bs. None), message_request_id = (\<lambda>m. ''a''),
    internal_error = (\<lambda>i t. False)\<rparr>"

definition big_schema :: "(bool, unit) server_schema" where
  "big_schema = \<lparr>request_id_of = (\<lambda>m. ''a''), is_tunnel = (\<lambda>m. False), push_message_to_event = (\<lambda>m. None),
    server_error_of = (\<lambda>m. if m then None else Some (1, ''too large''))\<rparr>"

lemma oversized_reply_reported_witness:
  "\<exists>c ys e c1 c2. client_run big_schema [Enter ''a'' [1], Check ''a'', Send ''a''] new_client = Some c \<and>
    read_loop big_format \<lparr>rd_bytes = wr_bytes (snd (write_replies big_format [True]
      \<lparr>wr_bytes = [], wr_room = None, wr_flush_error = None\<rparr>)), rd_end = ReaderEof\<rparr> = (ys, e) \<and>
    client_run big_schema (map Receive ys) c = Some c1 \<and> client_step big_schema (Wake ''a'') c1 = Some c2 \<and>
    state_of ''a'' c2 = Some (Returned (Inl (ServerError 1 ''too large'')))"
proof -
  let ?xs = "[Enter ''a'' [1], Check ''a'', Send ''a'']"
  have "map_option (\<lambda>c. (reader_task c, state_of ''a'' c, slot_of ''a'' c)) (client_run big_schema ?xs new_client) =
    Some (Reading, Some Waiting, Some Unresolved)"
    by code_simp
  then obtain c where c: "client_run big_schema ?xs new_client = Some c" "reader_task c = Reading"
    "state_of ''a'' c = Some Waiting" "slot_of ''a'' c = Some Unresolved" by auto
  let ?w = "\<lparr>wr_bytes = [], wr_room = None, wr_flush_error = None\<rparr>"
  obtain x w' where w': "write_replies big_format [True] ?w = (x, w')" by (cases "write_replies big_format [True] ?w")
  obtain ys e where ys: "read_loop big_format \<lparr>rd_bytes = wr_bytes w', rd_end = ReaderEof\<rparr> = (ys, e)"
    by (cases "read_loop big_format \<lparr>rd_bytes = wr_bytes w', rd_end = ReaderEof\<rparr>")
  have law: "decode_message big_format (encode_to_vec big_format m) = Inr m" for m
    by (simp add: big_format_def)
  have sizes: "\<not> fits big_format True" "fits big_format (undeliverable big_format True e)" for e
    by (simp_all add: fits_def big_format_def undeliverable_def)
  have "\<exists>c1 c2. client_run big_schema (map Receive ys) c = Some c1 \<and> client_step big_schema (Wake ''a'') c1 = Some c2 \<and>
    state_of ''a'' c2 = Some (Returned (Inl (ServerError 1 ''too large'')))"
    by (rule oversized_reply_reported [OF law _ _ run_reachable [OF c(1) client_reachable.fresh] c(2-4), of True
      "undeliverable big_format True (MessageTooLarge (length (encode_to_vec big_format True)) MAX_MESSAGE_SIZE)" _ _ "[]" ?w x w' ReaderEof])
      (use w' ys sizes in \<open>simp_all add: big_format_def big_schema_def undeliverable_def unlimited_def\<close>)
  then show ?thesis using c w' ys by auto
qed

section \<open>Two corners\<close>

text \<open>
  A fatal error of the writing task takes the waiting callers out of the map before the queue is
  closed.  A caller that comes in between is accepted, its message is dropped with the queue, and it
  waits for its timeout although nothing can answer it.
\<close>

lemma writer_leaves_a_caller:
  "map_option (\<lambda>c. (state_of ''b'' c, slot_of ''b'' c, writer_task c, outbound c))
    (client_run sample_schema [Enter ''a'' [1], Check ''a'', Send ''a'', Written (Inl (ProtocolIo ''broken pipe'')),
      Enter ''b'' [2], Check ''b'', Send ''b'', EndWriter] new_client) =
    Some (Some Waiting, Some Unresolved, Gone, [])"
  by code_simp

text \<open>A full queue of a living connection is reported as a connection that is gone.\<close>

lemma full_queue_is_disconnected:
  "length (outbound c) = OUTBOUND_CAPACITY \<Longrightarrow> fst (send_host_scoped msg c) = Inl ClientDisconnected"
  by (simp add: send_host_scoped_def try_send_def)

end
