(* ===== verification/Manager_State.thy ===== *)
theory Manager_State imports Remote_Client begin

text \<open>
  The manager of the connections to remote servers (\<open>crates/remote_server/src/manager.rs\<close>): its
  state, the tree of SSH routes, the index from hosts to sessions, and the requests that belong to a
  host and not to a session.  Maps of the code are maps; where the code walks a hash set or map, the
  order in which it does so is the argument \<open>order\<close>.  Events, answers and messages are appended to
  lists of the state.  A loop or recursion over the routes that need not end is a function into
  \<open>option\<close>, and \<open>None\<close> is a run that does not end.
\<close>

type_synonym session_id = nat
type_synonym host_id = string
type_synonym attempt_id = nat
type_synonym client_id = nat

datatype control_path = WarpManaged string | UserOwned string | RemoteControl client_id string bool | NoControlMaster

record exit_status =
  exit_code :: "int option"
  signal_killed :: bool

record transport = is_reconnectable :: "exit_status option \<Rightarrow> bool"

datatype remote_session_state =
    Connecting
  | Initializing client_id control_path
  | Connected client_id host_id string control_path transport
  | Reconnecting nat host_id control_path
  | AwaitingExitStatus control_path
  | Disconnected

datatype ssh_route_node_state = Preparing | RouteConnected | BlockedByParent | RouteReconnecting | RouteDisconnected

record ssh_route_node =
  rn_parent :: "session_id option"
  rn_host :: "host_id option"
  rn_target :: string
  rn_port :: "16 word option"
  rn_depth :: "32 word"
  rn_state :: ssh_route_node_state

datatype host_request_error =
    AllSessionsDisconnected
  | HostTimeout
  | HostServerError int string
  | HostUnexpectedResponse
  | OperationFailed string
  | RenameFailedAfterSave string
  | Aborted

record pending_host_request =
  ph_host_id :: host_id
  ph_session :: session_id
  ph_msg :: client_message

datatype init_phase = ConnectPhase | InitializePhase

datatype setup_state = SetupInitializing | SetupReady | SetupFailed string

datatype server_push = SnapshotPush nat | OtherPush octets

datatype manager_event =
    SessionConnecting session_id
  | SessionConnected session_id host_id
  | SessionConnectionFailed session_id init_phase string "exit_status option" "string option" bool
  | SessionDisconnected session_id host_id "exit_status option" bool
  | SessionReconnected session_id host_id nat client_id
  | SessionDeregistered session_id
  | HostConnected host_id
  | HostDisconnected host_id
  | RemoteAgentContextSnapshot host_id nat
  | ForwardedPush host_id octets
  | ServerMessageDecodingError session_id
  | SetupStateChanged session_id setup_state

text \<open>A spawned connection: the future of \<open>connect_session\<close> or \<open>attempt_reconnect\<close> and its streams.\<close>

datatype attempt_kind = FirstConnection | Reconnection nat host_id "exit_status option" control_path

datatype task_phase = Delaying | Opening | Shaking client_id | Failing init_phase string | AwaitingExit init_phase string bool | Serving | Finished

record task =
  tk_session :: session_id
  tk_kind :: attempt_kind
  tk_phase :: task_phase
  tk_transport :: transport
  tk_identity :: string

record 'm manager =
  sessions :: "session_id \<Rightarrow> remote_session_state option"
  connection_attempts :: "session_id \<Rightarrow> attempt_id option"
  ssh_routes :: "session_id \<Rightarrow> ssh_route_node option"
  ssh_route_children :: "session_id \<Rightarrow> session_id list option"
  parent_connection_handles :: "session_id \<Rightarrow> client_id option option"
  session_capabilities :: "session_id \<Rightarrow> int list option"
  host_to_sessions :: "host_id \<Rightarrow> session_id list option"
  session_labels :: "session_id \<Rightarrow> string option"
  session_bootstrap_info :: "session_id \<Rightarrow> octets option"
  auth_context :: "string option"
  pending_host_requests :: "(string \<times> pending_host_request) list"
  snapshot_revisions :: "host_id \<Rightarrow> nat option"
  tasks :: "attempt_id \<Rightarrow> task option"
  emitted :: "manager_event list"
  answers :: "(string \<times> (host_request_error + 'm)) list"
  queued :: "(client_id \<times> client_message) list"
  stopped :: "control_path list"

definition new_manager :: "'m manager" where
  "new_manager = \<lparr>sessions = (\<lambda>_. None), connection_attempts = (\<lambda>_. None), ssh_routes = (\<lambda>_. None),
    ssh_route_children = (\<lambda>_. None), parent_connection_handles = (\<lambda>_. None), session_capabilities = (\<lambda>_. None),
    host_to_sessions = (\<lambda>_. None), session_labels = (\<lambda>_. None), session_bootstrap_info = (\<lambda>_. None),
    auth_context = None, pending_host_requests = [], snapshot_revisions = (\<lambda>_. None), tasks = (\<lambda>_. None),
    emitted = [], answers = [], queued = [], stopped = []\<rparr>"

definition MAX_RECONNECT_ATTEMPTS :: nat where "MAX_RECONNECT_ATTEMPTS = 2"

definition emit :: "manager_event \<Rightarrow> 'm manager \<Rightarrow> 'm manager" where
  "emit ev m = m\<lparr>emitted := emitted m @ [ev]\<rparr>"

definition client_for_session :: "'m manager \<Rightarrow> session_id \<Rightarrow> client_id option" where
  "client_for_session m s = (case sessions m s of Some (Connected c h i p t) \<Rightarrow> Some c | _ \<Rightarrow> None)"

definition host_id_for_session :: "'m manager \<Rightarrow> session_id \<Rightarrow> host_id option" where
  "host_id_for_session m s = (case sessions m s of Some (Connected c h i p t) \<Rightarrow> Some h | _ \<Rightarrow> None)"

section \<open>Routes\<close>

datatype route_error = InvalidTarget | ParentNotRegistered | InvalidDepth "32 word" "32 word" | RouteCycle

definition invalid_target :: "string \<Rightarrow> bool" where
  "invalid_target target = (target = [] \<or> hd target = CHR ''-'' \<or> 255 < utf8_len target \<or>
    list_ex (\<lambda>c. is_control c \<or> is_whitespace c) target)"

partial_function (option) meets_session ::
  "(session_id \<Rightarrow> ssh_route_node option) \<Rightarrow> session_id \<Rightarrow> session_id option \<Rightarrow> bool option" where
  [code]: "meets_session routes s ancestor =
    (case ancestor of
      None \<Rightarrow> Some False
    | Some a \<Rightarrow> if a = s then Some True else meets_session routes s (Option.bind (routes a) rn_parent))"

definition children_of :: "'m manager \<Rightarrow> session_id \<Rightarrow> session_id list" where
  "children_of m s = (case ssh_route_children m s of Some cs \<Rightarrow> cs | None \<Rightarrow> [])"

definition remove_child :: "session_id option \<Rightarrow> session_id \<Rightarrow> 'm manager \<Rightarrow> 'm manager" where
  "remove_child parent s m =
    (case parent of
      Some p \<Rightarrow> m\<lparr>ssh_route_children := (ssh_route_children m)(p := map_option (removeAll s) (ssh_route_children m p))\<rparr>
    | None \<Rightarrow> m)"

definition add_child :: "session_id option \<Rightarrow> session_id \<Rightarrow> 'm manager \<Rightarrow> 'm manager" where
  "add_child parent s m =
    (case parent of
      Some p \<Rightarrow> m\<lparr>ssh_route_children := (ssh_route_children m)(p := Some (List.insert s (children_of m p)))\<rparr>
    | None \<Rightarrow> m)"

definition expected_depth :: "'m manager \<Rightarrow> session_id option \<Rightarrow> 32 word option" where
  "expected_depth m parent =
    (case parent of
      Some p \<Rightarrow> map_option (\<lambda>n. if rn_depth n = - 1 then - 1 else rn_depth n + 1) (ssh_routes m p)
    | None \<Rightarrow> Some 1)"

definition install_route :: "session_id \<Rightarrow> ssh_route_node \<Rightarrow> 'm manager \<Rightarrow> 'm manager" where
  "install_route s node m =
    (let previous = ssh_routes m s;
         m1 = m\<lparr>ssh_routes := (ssh_routes m)(s := Some node)\<rparr>;
         m2 = remove_child (Option.bind previous rn_parent) s m1;
         m3 = add_child (rn_parent node) s m2
     in m3\<lparr>parent_connection_handles := (parent_connection_handles m3)(s :=
          (case parent_connection_handles m3 s of Some h \<Rightarrow> Some h | None \<Rightarrow> Some None))\<rparr>)"

definition register_ssh_route ::
  "session_id \<Rightarrow> session_id option \<Rightarrow> 32 word \<Rightarrow> string \<Rightarrow> 16 word option \<Rightarrow> 'm manager \<Rightarrow>
    ((route_error + unit) \<times> 'm manager) option" where
  "register_ssh_route s parent depth target port m =
    (if invalid_target target then Some (Inl InvalidTarget, m)
     else case expected_depth m parent of
       None \<Rightarrow> Some (Inl ParentNotRegistered, m)
     | Some expected \<Rightarrow>
         if 8 < expected \<or> depth \<noteq> expected then Some (Inl (InvalidDepth depth expected), m)
         else map_option
           (\<lambda>cycle. if cycle then (Inl RouteCycle, m)
             else (Inr (), install_route s \<lparr>rn_parent = parent, rn_host = None, rn_target = target, rn_port = port,
               rn_depth = expected, rn_state = Preparing\<rparr> m))
           (meets_session (ssh_routes m) s parent))"

definition set_route_state :: "session_id \<Rightarrow> ssh_route_node_state \<Rightarrow> 'm manager \<Rightarrow> 'm manager" where
  "set_route_state s st m =
    m\<lparr>ssh_routes := (ssh_routes m)(s := map_option (\<lambda>n. n\<lparr>rn_state := st\<rparr>) (ssh_routes m s))\<rparr>"

partial_function (option) block_routes ::
  "session_id list \<Rightarrow> 'm manager \<Rightarrow> 'm manager option" where
  [code]: "block_routes pending m =
    (case pending of
      [] \<Rightarrow> Some m
    | child # rest \<Rightarrow> block_routes (children_of m child @ rest) (set_route_state child BlockedByParent m))"

definition mark_route_descendants_blocked :: "session_id \<Rightarrow> 'm manager \<Rightarrow> 'm manager option" where
  "mark_route_descendants_blocked s m = block_routes (children_of m s) m"

partial_function (option) route_path_from ::
  "(session_id \<Rightarrow> ssh_route_node option) \<Rightarrow> session_id option \<Rightarrow> (session_id \<times> ssh_route_node) list \<Rightarrow>
    (session_id \<times> ssh_route_node) list option" where
  [code]: "route_path_from routes current path =
    (case current of
      None \<Rightarrow> Some path
    | Some s \<Rightarrow>
        (case routes s of
          None \<Rightarrow> Some path
        | Some n \<Rightarrow> route_path_from routes (rn_parent n) ((s, n) # path)))"

definition ssh_route_path :: "'m manager \<Rightarrow> session_id \<Rightarrow> (session_id \<times> ssh_route_node) list option" where
  "ssh_route_path m s = route_path_from (ssh_routes m) (Some s) []"

definition ssh_route_targets :: "'m manager \<Rightarrow> session_id \<Rightarrow> (string \<times> 16 word option) list option option" where
  "ssh_route_targets m s =
    map_option (\<lambda>path. if path = [] then None else Some (map (\<lambda>(i, n). (rn_target n, rn_port n)) path)) (ssh_route_path m s)"

definition set_handle :: "session_id \<Rightarrow> client_id option \<Rightarrow> 'm manager \<Rightarrow> 'm manager" where
  "set_handle s c m =
    (if parent_connection_handles m s = None then m
     else m\<lparr>parent_connection_handles := (parent_connection_handles m)(s := Some c)\<rparr>)"

section \<open>Requests of a host\<close>

text \<open>The elements of a hash set or the keys of a hash map in the order in which it gives them.\<close>

definition in_order :: "'a list \<Rightarrow> 'a list \<Rightarrow> 'a list" where
  "in_order order ss = filter (\<lambda>s. s \<in> set ss) (remdups order) @ filter (\<lambda>s. s \<notin> set order) ss"

definition any_connected_session_for_host_excluding ::
  "session_id list \<Rightarrow> host_id \<Rightarrow> session_id option \<Rightarrow> 'm manager \<Rightarrow> (session_id \<times> client_id) option" where
  "any_connected_session_for_host_excluding order h excluded m =
    Option.bind (host_to_sessions m h) (\<lambda>ss.
      Option.bind (find (\<lambda>s. Some s \<noteq> excluded \<and> client_for_session m s \<noteq> None) (in_order order ss)) (\<lambda>s.
        map_option (\<lambda>c. (s, c)) (client_for_session m s)))"

definition client_for_host :: "session_id list \<Rightarrow> host_id \<Rightarrow> 'm manager \<Rightarrow> client_id option" where
  "client_for_host order h m = map_option snd (any_connected_session_for_host_excluding order h None m)"

definition queue_message :: "client_id \<Rightarrow> client_message \<Rightarrow> 'm manager \<Rightarrow> 'm manager" where
  "queue_message c msg m = m\<lparr>queued := queued m @ [(c, msg)]\<rparr>"

text \<open>\<open>accepts\<close>: which clients take a message into their queue (\<open>send_host_scoped\<close>).\<close>

definition dispatch_host_scoped_request ::
  "session_id list \<Rightarrow> (client_id \<Rightarrow> bool) \<Rightarrow> host_id \<Rightarrow> client_message \<Rightarrow> session_id option \<Rightarrow> 'm manager \<Rightarrow>
    session_id option \<times> 'm manager" where
  "dispatch_host_scoped_request order accepts h msg excluded m =
    (case host_to_sessions m h of
      None \<Rightarrow> (None, m)
    | Some ss \<Rightarrow>
        (case find (\<lambda>s. Some s \<noteq> excluded \<and> (\<exists>c \<in> set_option (client_for_session m s). accepts c)) (in_order order ss) of
          None \<Rightarrow> (None, m)
        | Some s \<Rightarrow> (Some s, queue_message (the (client_for_session m s)) msg m)))"

definition answer :: "string \<Rightarrow> host_request_error + 'm \<Rightarrow> 'm manager \<Rightarrow> 'm manager" where
  "answer rid r m = m\<lparr>answers := answers m @ [(rid, r)]\<rparr>"

definition pending_of :: "'m manager \<Rightarrow> string \<Rightarrow> pending_host_request option" where
  "pending_of m rid = map_of (pending_host_requests m) rid"

definition remove_pending :: "string \<Rightarrow> 'm manager \<Rightarrow> 'm manager" where
  "remove_pending rid m = m\<lparr>pending_host_requests := filter (\<lambda>(r, p). r \<noteq> rid) (pending_host_requests m)\<rparr>"

definition insert_pending :: "string \<Rightarrow> pending_host_request \<Rightarrow> 'm manager \<Rightarrow> 'm manager" where
  "insert_pending rid p m = 
    m\<lparr>pending_host_requests := (rid, p) # filter (\<lambda>(r, p). r \<noteq> rid) (pending_host_requests m)\<rparr>"

definition send_host_request ::
  "session_id list \<Rightarrow> (client_id \<Rightarrow> bool) \<Rightarrow> host_id \<Rightarrow> client_message \<Rightarrow> 'm manager \<Rightarrow> 'm manager" where
  "send_host_request order accepts h msg m =
    (case dispatch_host_scoped_request order accepts h msg None m of
      (None, m1) \<Rightarrow> answer (cm_request_id msg) (Inl AllSessionsDisconnected) m1
    | (Some s, m1) \<Rightarrow> insert_pending (cm_request_id msg) \<lparr>ph_host_id = h, ph_session = s, ph_msg = msg\<rparr> m1)"

definition abort_on_host :: "session_id list \<Rightarrow> host_id \<Rightarrow> string \<Rightarrow> 'm manager \<Rightarrow> 'm manager" where
  "abort_on_host order h rid m =
    (case client_for_host order h m of
      Some c \<Rightarrow> queue_message c \<lparr>cm_request_id = [], cm_body = Abort rid\<rparr> m
    | None \<Rightarrow> m)"

definition timeout_host_request :: "session_id list \<Rightarrow> string \<Rightarrow> host_id \<Rightarrow> 'm manager \<Rightarrow> 'm manager" where
  "timeout_host_request order rid h m =
    (case pending_of m rid of
      None \<Rightarrow> m
    | Some p \<Rightarrow> answer rid (Inl HostTimeout) (abort_on_host order h rid (remove_pending rid m)))"

definition abort_host_request :: "session_id list \<Rightarrow> string \<Rightarrow> 'm manager \<Rightarrow> 'm manager" where
  "abort_host_request order rid m =
    (case pending_of m rid of
      None \<Rightarrow> m
    | Some p \<Rightarrow> answer rid (Inl Aborted) (abort_on_host order (ph_host_id p) rid (remove_pending rid m)))"

definition fail_pending_host_requests_for_disconnected_hosts :: "string list \<Rightarrow> 'm manager \<Rightarrow> 'm manager" where
  "fail_pending_host_requests_for_disconnected_hosts order m =
    foldl (\<lambda>m rid. case pending_of m rid of
        None \<Rightarrow> m
      | Some p \<Rightarrow> answer rid (Inl AllSessionsDisconnected) (remove_pending rid m))
      m (filter (\<lambda>rid. case pending_of m rid of
          Some p \<Rightarrow> host_to_sessions m (ph_host_id p) = None | None \<Rightarrow> False)
        (in_order order (map fst (pending_host_requests m))))"

definition fail_host_request_decode_error :: "string \<Rightarrow> 'm manager \<Rightarrow> 'm manager" where
  "fail_host_request_decode_error rid m =
    (case pending_of m rid of
      None \<Rightarrow> m
    | Some p \<Rightarrow> answer rid (Inl HostUnexpectedResponse) (remove_pending rid m))"

definition handle_host_scoped_write_failed ::
  "session_id list \<Rightarrow> (client_id \<Rightarrow> bool) \<Rightarrow> session_id \<Rightarrow> string \<Rightarrow> 'm manager \<Rightarrow> 'm manager" where
  "handle_host_scoped_write_failed order accepts s rid m =
    (case pending_of m rid of
      None \<Rightarrow> m
    | Some p \<Rightarrow>
        let m1 = remove_pending rid m
        in if ph_session p \<noteq> s then insert_pending rid p m1
           else (case dispatch_host_scoped_request order accepts (ph_host_id p) (ph_msg p) (Some s) m1 of
             (Some s', m2) \<Rightarrow> insert_pending rid (p\<lparr>ph_session := s'\<rparr>) m2
           | (None, m2) \<Rightarrow> answer rid (Inl AllSessionsDisconnected) m2))"

definition host_response :: "('m, 'e) server_schema \<Rightarrow> 'm \<Rightarrow> 'm manager \<Rightarrow> 'm manager" where
  "host_response S msg m =
    (let rid = request_id_of S msg
     in case pending_of m rid of
       None \<Rightarrow> m
     | Some p \<Rightarrow>
         answer rid (case server_error_of S msg of Some (code, text) \<Rightarrow> Inl (HostServerError code text) | None \<Rightarrow> Inr msg)
           (remove_pending rid m))"

section \<open>The index of hosts\<close>

definition remove_from_host_index :: "host_id \<Rightarrow> session_id \<Rightarrow> 'm manager \<Rightarrow> 'm manager" where
  "remove_from_host_index h s m =
    (case host_to_sessions m h of
      None \<Rightarrow> m
    | Some ss \<Rightarrow>
        let ss' = removeAll s ss
        in m\<lparr>host_to_sessions := (host_to_sessions m)(h := (if ss' = [] then None else Some ss'))\<rparr>)"

definition handle_host_disconnected :: "string list \<Rightarrow> host_id \<Rightarrow> 'm manager \<Rightarrow> 'm manager" where
  "handle_host_disconnected order h m =
    (if host_to_sessions m h \<noteq> None then m
     else fail_pending_host_requests_for_disconnected_hosts order
       (emit (HostDisconnected h) (m\<lparr>snapshot_revisions := (snapshot_revisions m)(h := None)\<rparr>)))"

definition accept_remote_agent_context_snapshot_revision :: "host_id \<Rightarrow> nat \<Rightarrow> 'm manager \<Rightarrow> bool \<times> 'm manager" where
  "accept_remote_agent_context_snapshot_revision h revision m =
    (case snapshot_revisions m h of
      Some current \<Rightarrow>
        if revision \<le> current then (False, m)
        else (True, m\<lparr>snapshot_revisions := (snapshot_revisions m)(h := Some revision)\<rparr>)
    | None \<Rightarrow> (True, m\<lparr>snapshot_revisions := (snapshot_revisions m)(h := Some revision)\<rparr>))"

section \<open>The credential\<close>

text \<open>
  \<open>rotate_auth_token\<close>: one notification to each host of the current identity; \<open>order\<close> lists the sessions.
\<close>

definition rotate_auth_token :: "session_id list \<Rightarrow> octets \<Rightarrow> 'm manager \<Rightarrow> 'm manager" where
  "rotate_auth_token order token m =
    (case auth_context m of
      None \<Rightarrow> m
    | Some identity \<Rightarrow>
        snd (foldl (\<lambda>(hosts, m) s.
          (case sessions m s of
            Some (Connected c h i p t) \<Rightarrow>
              if i \<noteq> identity \<or> h \<in> set hosts then (hosts, m)
              else (h # hosts, queue_message c \<lparr>cm_request_id = [], cm_body = OtherMessage token\<rparr> m)
          | _ \<Rightarrow> (hosts, m))) ([], m) order))"

end
