(* ===== verification/Manager_Sessions.thy ===== *)
theory Manager_Sessions imports Manager_State begin

text \<open>
  The life of a session in the manager: connecting, the handshake, serving, a spontaneous disconnect
  with its attempts to reconnect, and the explicit removal with everything below it in the tree of
  routes.  A spawned future is a \<open>task\<close> under its attempt, and each closure that it runs on the main
  thread is one input of \<open>manager_step\<close>, so a run of steps is an interleaving of the futures, the
  streams and the callers.
\<close>

section \<open>Connecting\<close>

definition set_session :: "session_id \<Rightarrow> remote_session_state \<Rightarrow> 'm manager \<Rightarrow> 'm manager" where
  "set_session s st m = m\<lparr>sessions := (sessions m)(s := Some st)\<rparr>"

definition set_attempt :: "session_id \<Rightarrow> attempt_id \<Rightarrow> 'm manager \<Rightarrow> 'm manager" where
  "set_attempt s a m = m\<lparr>connection_attempts := (connection_attempts m)(s := Some a)\<rparr>"

definition is_current :: "session_id \<Rightarrow> attempt_id \<Rightarrow> 'm manager \<Rightarrow> bool" where
  "is_current s a m \<longleftrightarrow> connection_attempts m s = Some a"

definition spawn_task :: "attempt_id \<Rightarrow> task \<Rightarrow> 'm manager \<Rightarrow> 'm manager" where
  "spawn_task a t m = m\<lparr>tasks := (tasks m)(a := Some t)\<rparr>"

definition move_task :: "attempt_id \<Rightarrow> task_phase \<Rightarrow> 'm manager \<Rightarrow> 'm manager" where
  "move_task a ph m = m\<lparr>tasks := (tasks m)(a := map_option (\<lambda>t. t\<lparr>tk_phase := ph\<rparr>) (tasks m a))\<rparr>"

definition reset_route :: "session_id \<Rightarrow> 'm manager \<Rightarrow> 'm manager" where
  "reset_route s m =
    m\<lparr>ssh_routes := (ssh_routes m)(s := map_option (\<lambda>n. n\<lparr>rn_host := None, rn_state := Preparing\<rparr>) (ssh_routes m s))\<rparr>"

definition leave_host :: "string list \<Rightarrow> session_id \<Rightarrow> host_id \<Rightarrow> exit_status option \<Rightarrow> 'm manager \<Rightarrow> 'm manager" where
  "leave_host order s h exit m =
    handle_host_disconnected order h (emit (SessionDisconnected s h exit False) (remove_from_host_index h s m))"

definition connect_session ::
  "string list \<Rightarrow> attempt_id \<Rightarrow> session_id \<Rightarrow> transport \<Rightarrow> string \<Rightarrow> string option \<Rightarrow> 'm manager \<Rightarrow> 'm manager option" where
  "connect_session order a s tr identity label m =
    (let previous = sessions m s;
         m1 = set_handle s None (set_session s Connecting (set_attempt s a m));
         m2 = reset_route s (m1\<lparr>session_capabilities := (session_capabilities m1)(s := None)\<rparr>)
     in map_option (\<lambda>m3.
          let m4 = (case previous of Some (Connected c h i p t) \<Rightarrow> leave_host order s h None m3 | _ \<Rightarrow> m3);
              m5 = emit (SetupStateChanged s SetupInitializing) m4;
              m6 = (case label of Some l \<Rightarrow> m5\<lparr>session_labels := (session_labels m5)(s := Some l)\<rparr> | None \<Rightarrow> m5);
              m7 = emit (SessionConnecting s) (m6\<lparr>auth_context := Some identity\<rparr>)
          in spawn_task a \<lparr>tk_session = s, tk_kind = FirstConnection, tk_phase = Opening, tk_transport = tr,
               tk_identity = identity\<rparr> m7)
        (mark_route_descendants_blocked s m2))"

definition enter_host :: "session_id \<Rightarrow> host_id \<Rightarrow> 'm manager \<Rightarrow> 'm manager" where
  "enter_host s h m =
    m\<lparr>host_to_sessions := (host_to_sessions m)(h :=
      Some (List.insert s (case host_to_sessions m h of Some ss \<Rightarrow> ss | None \<Rightarrow> [])))\<rparr>"

definition mark_session_connected ::
  "session_id \<Rightarrow> attempt_id \<Rightarrow> host_id \<Rightarrow> int list \<Rightarrow> string \<Rightarrow> transport \<Rightarrow> 'm manager \<Rightarrow> 'm manager" where
  "mark_session_connected s a h capabilities identity tr m =
    (if \<not> is_current s a m then m
     else case sessions m s of
       Some (Initializing c path) \<Rightarrow>
         let first_session = (host_to_sessions m h = None);
             m1 = set_session s (Connected c h identity path tr) m;
             m2 = m1\<lparr>parent_connection_handles := (parent_connection_handles m1)(s := Some (Some c)),
               session_capabilities := (session_capabilities m1)(s := Some capabilities),
               ssh_routes := (ssh_routes m1)(s := map_option (\<lambda>n. n\<lparr>rn_host := Some h, rn_state := RouteConnected\<rparr>) (ssh_routes m1 s))\<rparr>;
             m3 = enter_host s h m2;
             m4 = (if first_session then emit (HostConnected h) m3 else m3);
             m5 = emit (SessionConnected s h) (emit (SetupStateChanged s SetupReady) m4)
         in (case session_bootstrap_info m5 s of
              Some info \<Rightarrow> queue_message c \<lparr>cm_request_id = [], cm_body = OtherMessage info\<rparr> m5
            | None \<Rightarrow> m5)
     | _ \<Rightarrow> m)"

definition notify_session_bootstrapped :: "session_id \<Rightarrow> octets \<Rightarrow> 'm manager \<Rightarrow> 'm manager" where
  "notify_session_bootstrapped s info m =
    (let m1 = m\<lparr>session_bootstrap_info := (session_bootstrap_info m)(s := Some info)\<rparr>
     in case client_for_session m1 s of
       Some c \<Rightarrow> queue_message c \<lparr>cm_request_id = [], cm_body = OtherMessage info\<rparr> m1
     | None \<Rightarrow> m1)"

section \<open>A connection that ends\<close>

definition attempt_reconnect ::
  "attempt_id \<Rightarrow> session_id \<Rightarrow> nat \<Rightarrow> host_id \<Rightarrow> exit_status option \<Rightarrow> control_path \<Rightarrow> transport \<Rightarrow> string \<Rightarrow>
    'm manager \<Rightarrow> 'm manager" where
  "attempt_reconnect a s n h exit path tr identity m =
    spawn_task a \<lparr>tk_session = s, tk_kind = Reconnection n h exit path, tk_phase = Delaying, tk_transport = tr,
        tk_identity = identity\<rparr>
      (set_route_state s RouteReconnecting (set_session s (Reconnecting n h path) (set_attempt s a m)))"

definition finalize_disconnect ::
  "string list \<Rightarrow> session_id \<Rightarrow> host_id \<Rightarrow> exit_status option \<Rightarrow> 'm manager \<Rightarrow> 'm manager" where
  "finalize_disconnect order s h exit m = leave_host order s h exit (set_session s Disconnected m)"

text \<open>\<open>a'\<close> is the identifier of the attempt that a reconnection starts.\<close>

definition mark_session_disconnected ::
  "string list \<Rightarrow> attempt_id \<Rightarrow> session_id \<Rightarrow> attempt_id \<Rightarrow> exit_status option \<Rightarrow> 'm manager \<Rightarrow> 'm manager option" where
  "mark_session_disconnected order a' s a exit m =
    (if \<not> is_current s a m then Some m
     else let m1 = set_handle s None m in
       (case sessions m1 s of
         None \<Rightarrow> Some m1
       | Some (Connected c h identity path tr) \<Rightarrow>
           map_option (\<lambda>m2.
             if exit \<noteq> None \<or> \<not> is_reconnectable tr exit then finalize_disconnect order s h exit m2
             else (case auth_context m2 of
               None \<Rightarrow> finalize_disconnect order s h exit m2
             | Some i \<Rightarrow>
                 attempt_reconnect a' s 1 h exit path tr identity
                   (handle_host_disconnected order h (remove_from_host_index h s m2))))
           (mark_route_descendants_blocked s
             (set_route_state s RouteDisconnected (m1\<lparr>sessions := (sessions m1)(s := None)\<rparr>)))
       | Some st \<Rightarrow> Some (set_session s Disconnected m1)))"

definition handle_reconnect_failure ::
  "attempt_id \<Rightarrow> session_id \<Rightarrow> nat \<Rightarrow> host_id \<Rightarrow> exit_status option \<Rightarrow> control_path \<Rightarrow> transport \<Rightarrow> string \<Rightarrow>
    'm manager \<Rightarrow> 'm manager" where
  "handle_reconnect_failure a' s n h exit path tr identity m =
    (if n < MAX_RECONNECT_ATTEMPTS then attempt_reconnect a' s (n + 1) h exit path tr identity m
     else emit (SessionDisconnected s h exit True) (set_session s Disconnected m))"

section \<open>Removing a session\<close>

definition drop_attempt :: "session_id \<Rightarrow> 'm manager \<Rightarrow> 'm manager" where
  "drop_attempt s m = m\<lparr>connection_attempts := (connection_attempts m)(s := None)\<rparr>"

definition control_path_of :: "remote_session_state option \<Rightarrow> control_path" where
  "control_path_of st =
    (case st of
      Some (Connected c h i path t) \<Rightarrow> path
    | Some (Initializing c path) \<Rightarrow> path
    | Some (AwaitingExitStatus path) \<Rightarrow> path
    | Some (Reconnecting n h path) \<Rightarrow> path
    | _ \<Rightarrow> NoControlMaster)"

definition tracked_host :: "remote_session_state option \<Rightarrow> host_id option" where
  "tracked_host st =
    (case st of Some (Connected c h i path t) \<Rightarrow> Some h | Some (Reconnecting n h path) \<Rightarrow> Some h | _ \<Rightarrow> None)"

text \<open>What \<open>deregister_session\<close> does to the session itself, after its children.\<close>

definition forget_session :: "string list \<Rightarrow> session_id \<Rightarrow> 'm manager \<Rightarrow> 'm manager" where
  "forget_session order s m =
    (let parent = Option.bind (ssh_routes m s) rn_parent;
         m1 = m\<lparr>parent_connection_handles := (parent_connection_handles m)(s := None),
           session_bootstrap_info := (session_bootstrap_info m)(s := None),
           session_capabilities := (session_capabilities m)(s := None),
           session_labels := (session_labels m)(s := None),
           ssh_route_children := (ssh_route_children m)(s := None),
           ssh_routes := (ssh_routes m)(s := None)\<rparr>;
         m2 = remove_child parent s m1;
         previous = sessions m2 s;
         m3 = m2\<lparr>sessions := (sessions m2)(s := None)\<rparr>;
         m4 = (case tracked_host previous of Some h \<Rightarrow> leave_host order s h None m3 | None \<Rightarrow> m3);
         m5 = emit (SessionDeregistered s) m4
     in m5\<lparr>stopped := stopped m5 @ [control_path_of previous]\<rparr>)"

partial_function (option) deregister_all ::
  "string list \<Rightarrow> session_id list \<Rightarrow> 'm manager \<Rightarrow> 'm manager option" where
  [code]: "deregister_all order ss m =
    (case ss of
      [] \<Rightarrow> Some m
    | s # rest \<Rightarrow>
        Option.bind (deregister_all order (children_of m s) (drop_attempt s m)) (\<lambda>m1.
          deregister_all order rest (forget_session order s m1)))"

definition deregister_session :: "string list \<Rightarrow> session_id \<Rightarrow> 'm manager \<Rightarrow> 'm manager option" where
  "deregister_session order s m = deregister_all order [s] m"

section \<open>Events of a client\<close>

definition forward_client_event ::
  "session_id list \<Rightarrow> (client_id \<Rightarrow> bool) \<Rightarrow> session_id \<Rightarrow> server_push client_event \<Rightarrow> 'm manager \<Rightarrow> 'm manager" where
  "forward_client_event order accepts s ev m =
    (case host_id_for_session m s of
      None \<Rightarrow> m
    | Some h \<Rightarrow>
        (case ev of
          PushEvent (SnapshotPush revision) \<Rightarrow>
            (case accept_remote_agent_context_snapshot_revision h revision m of
              (False, m1) \<Rightarrow> m1
            | (True, m1) \<Rightarrow> emit (RemoteAgentContextSnapshot h revision) m1)
        | PushEvent (OtherPush x) \<Rightarrow> emit (ForwardedPush h x) m
        | MessageDecodingError \<Rightarrow> emit (ServerMessageDecodingError s) m
        | HostScopedWriteFailed rid \<Rightarrow> handle_host_scoped_write_failed order accepts s rid m
        | HostScopedDecodeFailed rid \<Rightarrow> fail_host_request_decode_error rid m
        | EventDisconnected \<Rightarrow> m))"

text \<open>The handler of the event stream of an attempt.\<close>

definition stream_event ::
  "session_id list \<Rightarrow> (client_id \<Rightarrow> bool) \<Rightarrow> session_id \<Rightarrow> attempt_id \<Rightarrow> server_push client_event \<Rightarrow> 'm manager \<Rightarrow> 'm manager" where
  "stream_event order accepts s a ev m =
    (case ev of
      HostScopedWriteFailed rid \<Rightarrow> handle_host_scoped_write_failed order accepts s rid m
    | HostScopedDecodeFailed rid \<Rightarrow> fail_host_request_decode_error rid m
    | _ \<Rightarrow> if is_current s a m then forward_client_event order accepts s ev m else m)"

section \<open>The futures\<close>

definition connection_failed :: "attempt_id \<Rightarrow> attempt_id \<Rightarrow> task \<Rightarrow> init_phase \<Rightarrow> string \<Rightarrow> 'm manager \<Rightarrow> 'm manager" where
  "connection_failed a' a t phase text m =
    (case tk_kind t of
      FirstConnection \<Rightarrow> move_task a (Failing phase text) m
    | Reconnection n h exit path \<Rightarrow>
        let m1 = move_task a Finished m
        in if is_current (tk_session t) a m1
           then handle_reconnect_failure a' (tk_session t) n h exit path (tk_transport t) (tk_identity t) m1
           else m1)"

definition connection_opened ::
  "attempt_id \<Rightarrow> attempt_id \<Rightarrow> task \<Rightarrow> string + client_id \<times> control_path \<Rightarrow> 'm manager \<Rightarrow> 'm manager" where
  "connection_opened a' a t r m =
    (case r of
      Inl e \<Rightarrow> connection_failed a' a t ConnectPhase e m
    | Inr (c, path) \<Rightarrow>
        if is_current (tk_session t) a m
        then move_task a (Shaking c) (set_session (tk_session t) (Initializing c path) m)
        else connection_failed a' a t ConnectPhase ''session was deregistered during connect'' m)"

definition handshake_done ::
  "attempt_id \<Rightarrow> attempt_id \<Rightarrow> task \<Rightarrow> string + host_id \<times> int list \<Rightarrow> 'm manager \<Rightarrow> 'm manager" where
  "handshake_done a' a t r m =
    (case r of
      Inl e \<Rightarrow> connection_failed a' a t InitializePhase e m
    | Inr (h, capabilities) \<Rightarrow>
        let s = tk_session t in
        if \<not> is_current s a m then connection_failed a' a t ConnectPhase ''replaced by a new attempt'' m
        else
          let m1 = mark_session_connected s a h capabilities (tk_identity t) (tk_transport t) m;
              m2 = move_task a (if client_for_session m1 s = None then Finished else Serving) m1
          in (case (tk_kind t, client_for_session m2 s) of
               (Reconnection n h' exit path, Some c) \<Rightarrow> emit (SessionReconnected s h n c) m2
             | _ \<Rightarrow> m2))"

text \<open>The first of the two closures after a failed first connection takes the resource.\<close>

definition failure_handled :: "attempt_id \<Rightarrow> task \<Rightarrow> init_phase \<Rightarrow> string \<Rightarrow> 'm manager \<Rightarrow> 'm manager" where
  "failure_handled a t phase text m =
    (if \<not> is_current (tk_session t) a m then move_task a (AwaitingExit phase text False) m
     else case sessions m (tk_session t) of
       Some (Initializing c path) \<Rightarrow>
         move_task a (AwaitingExit phase text True) (set_session (tk_session t) (AwaitingExitStatus path) m)
     | _ \<Rightarrow> move_task a (AwaitingExit phase text False) m)"

definition exit_waited ::
  "string list \<Rightarrow> attempt_id \<Rightarrow> attempt_id \<Rightarrow> task \<Rightarrow> init_phase \<Rightarrow> string \<Rightarrow> exit_status option \<Rightarrow> string option \<Rightarrow>
    'm manager \<Rightarrow> 'm manager option" where
  "exit_waited order a' a t phase text exit stderr m =
    (let s = tk_session t; m1 = move_task a Finished m in
     if \<not> is_current s a m1 then Some m1
     else
       let cancelled = (sessions m1 s = None \<or>
             (\<exists>status \<in> set_option exit. \<not> is_reconnectable (tk_transport t) (Some status) \<and> \<not> signal_killed status));
           m2 = emit (SetupStateChanged s (SetupFailed text)) m1;
           m3 = emit (SessionConnectionFailed s phase text exit stderr cancelled) m2
       in mark_session_disconnected order a' s a None m3)"

section \<open>Steps\<close>

datatype 'm manager_input =
    RegisterRoute session_id "session_id option" "32 word" string "16 word option"
  | ConnectSession attempt_id session_id transport string "string option"
  | DeregisterSession session_id
  | NotifyBootstrapped session_id octets
  | SendHostRequest host_id client_message
  | AbortHostRequest string
  | TimeoutHostRequest string host_id
  | RotateAuthToken octets
  | DelayOver attempt_id
  | Opened attempt_id "string + client_id \<times> control_path" attempt_id
  | HandshakeDone attempt_id "string + host_id \<times> int list" attempt_id
  | FailureHandled attempt_id
  | ExitWaited attempt_id "exit_status option" "string option" attempt_id
  | StreamEvent attempt_id "server_push client_event"
  | StreamEnded attempt_id "exit_status option" attempt_id
  | HostResponse 'm

text \<open>The orders of the hash maps and the queues of the clients at a step.\<close>

record surroundings =
  session_order :: "session_id list"
  request_order :: "string list"
  accepts :: "client_id \<Rightarrow> bool"

definition phase_is :: "(task_phase \<Rightarrow> bool) \<Rightarrow> attempt_id \<Rightarrow> 'm manager \<Rightarrow> bool" where
  "phase_is p a m = (case tasks m a of Some t \<Rightarrow> p (tk_phase t) | None \<Rightarrow> False)"

definition fresh_request :: "string \<Rightarrow> 'm manager \<Rightarrow> bool" where
  "fresh_request rid m \<longleftrightarrow> pending_of m rid = None \<and> rid \<notin> fst ` set (answers m)"

text \<open>Which inputs can come: identifiers are new, and a future goes on from where it is.\<close>

fun enabled :: "'m manager_input \<Rightarrow> 'm manager \<Rightarrow> bool" where
  "enabled (ConnectSession a s tr identity label) m \<longleftrightarrow> tasks m a = None"
| "enabled (SendHostRequest h msg) m \<longleftrightarrow> fresh_request (cm_request_id msg) m"
| "enabled (DelayOver a) m \<longleftrightarrow> phase_is (\<lambda>p. p = Delaying) a m"
| "enabled (Opened a r a') m \<longleftrightarrow> phase_is (\<lambda>p. p = Opening) a m \<and> tasks m a' = None"
| "enabled (HandshakeDone a r a') m \<longleftrightarrow> phase_is (\<lambda>p. case p of Shaking c \<Rightarrow> True | _ \<Rightarrow> False) a m \<and> tasks m a' = None"
| "enabled (FailureHandled a) m \<longleftrightarrow> phase_is (\<lambda>p. case p of Failing q x \<Rightarrow> True | _ \<Rightarrow> False) a m"
| "enabled (ExitWaited a exit stderr a') m \<longleftrightarrow>
    phase_is (\<lambda>p. case p of AwaitingExit q x has \<Rightarrow> has \<or> (exit = None \<and> stderr = None) | _ \<Rightarrow> False) a m \<and> tasks m a' = None"
| "enabled (StreamEvent a ev) m \<longleftrightarrow> phase_is (\<lambda>p. p = Serving) a m"
| "enabled (StreamEnded a exit a') m \<longleftrightarrow> phase_is (\<lambda>p. p = Serving) a m \<and> tasks m a' = None"
| "enabled _ m \<longleftrightarrow> True"

text \<open>What a future does when it goes on; \<open>None\<close> for a call that does not end.\<close>

definition task_step ::
  "attempt_id \<Rightarrow> (task \<Rightarrow> 'm manager \<Rightarrow> 'm manager option) \<Rightarrow> 'm manager \<Rightarrow> 'm manager option" where
  "task_step a f m = (case tasks m a of Some t \<Rightarrow> f t m | None \<Rightarrow> Some m)"

fun manager_step :: "('m, server_push) server_schema \<Rightarrow> surroundings \<Rightarrow> 'm manager_input \<Rightarrow> 'm manager \<Rightarrow> 'm manager option" where
  "manager_step S u (RegisterRoute s parent depth target port) m =
    map_option snd (register_ssh_route s parent depth target port m)"
| "manager_step S u (ConnectSession a s tr identity label) m =
    connect_session (request_order u) a s tr identity label m"
| "manager_step S u (DeregisterSession s) m = deregister_session (request_order u) s m"
| "manager_step S u (NotifyBootstrapped s info) m = Some (notify_session_bootstrapped s info m)"
| "manager_step S u (SendHostRequest h msg) m = Some (send_host_request (session_order u) (accepts u) h msg m)"
| "manager_step S u (AbortHostRequest rid) m = Some (abort_host_request (session_order u) rid m)"
| "manager_step S u (TimeoutHostRequest rid h) m = Some (timeout_host_request (session_order u) rid h m)"
| "manager_step S u (RotateAuthToken token) m = Some (rotate_auth_token (session_order u) token m)"
| "manager_step S u (DelayOver a) m =
    task_step a (\<lambda>t m. Some (move_task a (if is_current (tk_session t) a m then Opening else Finished) m)) m"
| "manager_step S u (Opened a r a') m = task_step a (\<lambda>t m. Some (connection_opened a' a t r m)) m"
| "manager_step S u (HandshakeDone a r a') m = task_step a (\<lambda>t m. Some (handshake_done a' a t r m)) m"
| "manager_step S u (FailureHandled a) m =
    task_step a (\<lambda>t m. case tk_phase t of Failing p x \<Rightarrow> Some (failure_handled a t p x m) | _ \<Rightarrow> Some m) m"
| "manager_step S u (ExitWaited a exit stderr a') m =
    task_step a (\<lambda>t m. case tk_phase t of
      AwaitingExit p x has \<Rightarrow> exit_waited (request_order u) a' a t p x exit stderr m | _ \<Rightarrow> Some m) m"
| "manager_step S u (StreamEvent a ev) m =
    task_step a (\<lambda>t m. Some (stream_event (session_order u) (accepts u) (tk_session t) a ev m)) m"
| "manager_step S u (StreamEnded a exit a') m =
    task_step a (\<lambda>t m. mark_session_disconnected (request_order u) a' (tk_session t) a exit (move_task a Finished m)) m"
| "manager_step S u (HostResponse msg) m = Some (host_response S msg m)"

inductive manager_reachable :: "('m, server_push) server_schema \<Rightarrow> 'm manager \<Rightarrow> bool" for S where
  fresh: "manager_reachable S new_manager"
| step: "manager_reachable S m \<Longrightarrow> enabled x m \<Longrightarrow> manager_step S u x m = Some m' \<Longrightarrow> manager_reachable S m'"

fun manager_run ::
  "('m, server_push) server_schema \<Rightarrow> surroundings \<Rightarrow> 'm manager_input list \<Rightarrow> 'm manager \<Rightarrow> 'm manager option" where
  "manager_run S u [] m = Some m"
| "manager_run S u (x # xs) m = (if enabled x m then Option.bind (manager_step S u x m) (manager_run S u xs) else None)"

end
