(* ===== verification/Manager_Rules.thy ===== *)
theory Manager_Rules imports Manager_Sessions begin

text \<open>
  The invariant of the manager: the index of hosts is exactly that of the connected sessions, a
  session that is still connecting is not in it, every pending request belongs to a host of the
  index, and the events about a host say whether it is there.  All of it depends on the \<open>core\<close> of
  the state, so an operation that leaves the core alone keeps it.
\<close>

section \<open>The core of the state\<close>

definition host_event :: "host_id \<Rightarrow> bool \<Rightarrow> manager_event \<Rightarrow> bool" where
  "host_event h up ev = (case ev of
      HostConnected h' \<Rightarrow> h' = h \<or> up
    | HostDisconnected h' \<Rightarrow> h' \<noteq> h \<and> up
    | _ \<Rightarrow> up)"

text \<open>What a subscriber believes who follows the events about a host.\<close>

definition host_up :: "'m manager \<Rightarrow> host_id \<Rightarrow> bool" where
  "host_up m h = foldl (host_event h) False (emitted m)"

definition members :: "'m manager \<Rightarrow> host_id \<Rightarrow> session_id list" where
  "members m h = (case host_to_sessions m h of Some ss \<Rightarrow> ss | None \<Rightarrow> [])"

definition core where
  "core m = (host_id_for_session m, host_to_sessions m, connection_attempts m, tasks m, pending_of m,
    map fst (answers m), host_up m)"

definition request_status :: "'m manager \<Rightarrow> string \<Rightarrow> nat" where
  "request_status m rid = (if pending_of m rid = None then 0 else 1) + count_list (map fst (answers m)) rid"

fun is_starting :: "task_phase \<Rightarrow> bool" where
  "is_starting Serving = False"
| "is_starting Finished = False"
| "is_starting _ = True"

definition index_ok :: "'m manager \<Rightarrow> bool" where
  "index_ok m \<longleftrightarrow> (\<forall>s h. s \<in> set (members m h) \<longleftrightarrow> host_id_for_session m s = Some h) \<and>
    (\<forall>h. host_to_sessions m h \<noteq> Some [])"

definition tasks_ok :: "'m manager \<Rightarrow> bool" where
  "tasks_ok m \<longleftrightarrow> (\<forall>s a. connection_attempts m s = Some a \<longrightarrow>
    (\<exists>t. tasks m a = Some t \<and> tk_session t = s \<and> (is_starting (tk_phase t) \<longrightarrow> host_id_for_session m s = None)))"

definition pending_ok :: "'m manager \<Rightarrow> bool" where
  "pending_ok m \<longleftrightarrow> (\<forall>rid p. pending_of m rid = Some p \<longrightarrow> host_to_sessions m (ph_host_id p) \<noteq> None)"

definition events_ok :: "'m manager \<Rightarrow> bool" where
  "events_ok m \<longleftrightarrow> (\<forall>h. host_up m h \<longleftrightarrow> host_to_sessions m h \<noteq> None)"

definition hosts_ok :: "'m manager \<Rightarrow> bool" where
  "hosts_ok m \<longleftrightarrow> index_ok m \<and> pending_ok m \<and> events_ok m"

definition manager_ok :: "'m manager \<Rightarrow> bool" where
  "manager_ok m \<longleftrightarrow> hosts_ok m \<and> tasks_ok m"

lemma hosts_ok_cong: "core m' = core m \<Longrightarrow> hosts_ok m' = hosts_ok m"
  by (simp add: core_def hosts_ok_def index_ok_def pending_ok_def events_ok_def members_def)

lemma manager_ok_cong: "core m' = core m \<Longrightarrow> manager_ok m' = manager_ok m"
  by (simp add: core_def manager_ok_def hosts_ok_def index_ok_def tasks_ok_def pending_ok_def events_ok_def members_def)

lemma status_cong: "core m' = core m \<Longrightarrow> request_status m' rid = request_status m rid"
  by (simp add: core_def request_status_def)

lemma host_id_cong: "sessions m' = sessions m \<Longrightarrow> host_id_for_session m' = host_id_for_session m"
  by (simp add: host_id_for_session_def fun_eq_iff)

lemma host_up_cong: "emitted m' = emitted m \<Longrightarrow> host_up m' = host_up m"
  by (simp add: host_up_def fun_eq_iff)

lemma pending_cong: "pending_host_requests m' = pending_host_requests m \<Longrightarrow> pending_of m' = pending_of m"
  by (simp add: pending_of_def fun_eq_iff)

lemma coreI:
  assumes "sessions m' = sessions m" "host_to_sessions m' = host_to_sessions m"
    "connection_attempts m' = connection_attempts m" "tasks m' = tasks m"
    "pending_host_requests m' = pending_host_requests m" "answers m' = answers m" "emitted m' = emitted m"
  shows "core m' = core m"
  using assms host_id_cong [OF assms(1)] pending_cong [OF assms(5)] host_up_cong [OF assms(7)] by (simp add: core_def)

section \<open>Operations outside the core\<close>

lemma core_emit: "(\<And>h. ev \<noteq> HostConnected h) \<Longrightarrow> (\<And>h. ev \<noteq> HostDisconnected h) \<Longrightarrow> core (emit ev m) = core m"
  by (auto simp: core_def emit_def host_id_for_session_def pending_of_def host_up_def host_event_def fun_eq_iff
    split: manager_event.splits)

lemma core_simple [simp]:
  "core (set_handle s c m) = core m" "core (set_route_state s st m) = core m" "core (queue_message cl msg m) = core m"
  "core (remove_child p s m) = core m" "core (reset_route s m) = core m"
  "core (m\<lparr>snapshot_revisions := f\<rparr>) = core m" "core (m\<lparr>session_capabilities := g\<rparr>) = core m"
  "core (m\<lparr>session_labels := l\<rparr>) = core m" "core (m\<lparr>auth_context := i\<rparr>) = core m"
  "core (m\<lparr>session_bootstrap_info := b\<rparr>) = core m" "core (m\<lparr>stopped := x\<rparr>) = core m"
  by (auto intro!: coreI simp: set_handle_def set_route_state_def queue_message_def remove_child_def reset_route_def
    split: option.splits)

lemma core_events [simp]:
  "core (emit (SessionConnecting s) m) = core m" "core (emit (SessionConnected s h) m) = core m"
  "core (emit (SessionDisconnected s h e b) m) = core m" "core (emit (SessionReconnected s h n c) m) = core m"
  "core (emit (SessionDeregistered s) m) = core m" "core (emit (RemoteAgentContextSnapshot h n) m) = core m"
  "core (emit (ForwardedPush h x) m) = core m" "core (emit (ServerMessageDecodingError s) m) = core m"
  "core (emit (SetupStateChanged s st) m) = core m" "core (emit (SessionConnectionFailed s ph t e r b) m) = core m"
  by (simp_all add: core_emit)

lemma route_state_fields [simp]:
  "sessions (set_route_state s st m) = sessions m" "auth_context (set_route_state s st m) = auth_context m"
  "tasks (set_route_state s st m) = tasks m" "connection_attempts (set_route_state s st m) = connection_attempts m"
  by (simp_all add: set_route_state_def)

lemmas block_routes_induct = block_routes.raw_induct [rotated, consumes 1, case_names step]

lemma core_block_routes:
  "block_routes pending m = Some m' \<Longrightarrow> core m' = core m \<and> sessions m' = sessions m \<and> auth_context m' = auth_context m"
proof (induction rule: block_routes_induct)
  case (step f pending m m')
  show ?case
  proof (cases pending)
    case (Cons child rest)
    then show ?thesis using step(1) [of "children_of m child @ rest" "set_route_state child BlockedByParent m" m'] step(2)
      by simp
  qed (use step(2) in simp)
qed

section \<open>Requests\<close>

lemma pending_of_remove [simp]: "pending_of (remove_pending rid m) r = (if r = rid then None else pending_of m r)"
proof -
  have "map_of (filter (\<lambda>(r, p). r \<noteq> rid) xs) r = (if r = rid then None else map_of xs r)" for xs :: "(string \<times> pending_host_request) list"
    by (induction xs) auto
  then show ?thesis by (simp add: remove_pending_def pending_of_def)
qed

lemma pending_of_insert [simp]: "pending_of (insert_pending rid p m) r = (if r = rid then Some p else pending_of m r)"
  using pending_of_remove [of rid m r] by (simp add: insert_pending_def remove_pending_def pending_of_def)

lemma pending_of_answer [simp]: "pending_of (answer rid x m) r = pending_of m r"
  by (simp add: answer_def pending_of_def)

lemma other_fields [simp]:
  "sessions (remove_pending rid m) = sessions m" "sessions (insert_pending rid p m) = sessions m"
  "sessions (answer rid x m) = sessions m" "sessions (emit ev m) = sessions m"
  "host_to_sessions (remove_pending rid m) = host_to_sessions m" "host_to_sessions (insert_pending rid p m) = host_to_sessions m"
  "host_to_sessions (answer rid x m) = host_to_sessions m" "host_to_sessions (emit ev m) = host_to_sessions m"
  "connection_attempts (remove_pending rid m) = connection_attempts m"
  "connection_attempts (insert_pending rid p m) = connection_attempts m"
  "connection_attempts (answer rid x m) = connection_attempts m" "connection_attempts (emit ev m) = connection_attempts m"
  "tasks (remove_pending rid m) = tasks m" "tasks (insert_pending rid p m) = tasks m"
  "tasks (answer rid x m) = tasks m" "tasks (emit ev m) = tasks m"
  "emitted (remove_pending rid m) = emitted m" "emitted (insert_pending rid p m) = emitted m"
  "emitted (answer rid x m) = emitted m" "pending_host_requests (emit ev m) = pending_host_requests m"
  "answers (remove_pending rid m) = answers m" "answers (insert_pending rid p m) = answers m"
  "sessions (queue_message c msg m) = sessions m" "host_to_sessions (queue_message c msg m) = host_to_sessions m"
  "answers (queue_message c msg m) = answers m" "pending_of (queue_message c msg m) = pending_of m"
  "answers (emit ev m) = answers m" "answers (answer rid x m) = answers m @ [(rid, x)]"
  by (simp_all add: remove_pending_def insert_pending_def answer_def emit_def queue_message_def pending_of_def fun_eq_iff)

lemma keep_ok:
  assumes "manager_ok m" and "sessions m' = sessions m" "host_to_sessions m' = host_to_sessions m"
    "connection_attempts m' = connection_attempts m" "tasks m' = tasks m" "emitted m' = emitted m"
    and "\<And>rid p. pending_of m' rid = Some p \<Longrightarrow> host_to_sessions m (ph_host_id p) \<noteq> None"
  shows "manager_ok m'"
proof -
  have same: "host_id_for_session m' = host_id_for_session m" "host_up m' = host_up m" "members m' = members m"
    using host_id_cong [OF assms(2)] host_up_cong [OF assms(6)] assms(3) by (simp_all add: members_def fun_eq_iff)
  then have "index_ok m' = index_ok m" "tasks_ok m' = tasks_ok m" "events_ok m' = events_ok m"
    by (simp_all add: index_ok_def tasks_ok_def events_ok_def assms(2-6))
  moreover have "pending_ok m'" using assms(3,7) by (simp add: pending_ok_def)
  ultimately show ?thesis using assms(1) by (simp add: manager_ok_def hosts_ok_def)
qed

lemma pending_host: "manager_ok m \<Longrightarrow> pending_of m rid = Some p \<Longrightarrow> host_to_sessions m (ph_host_id p) \<noteq> None"
  by (simp add: manager_ok_def hosts_ok_def pending_ok_def)

lemma settle_ok:
  assumes "manager_ok m"
  shows "manager_ok (answer rid x (remove_pending rid m))"
  by (rule keep_ok [OF assms]) (use pending_host [OF assms] in \<open>simp_all split: if_splits\<close>)

lemma settle_status:
  assumes "pending_of m rid = Some p"
  shows "request_status (answer rid x (remove_pending rid m)) r = request_status m r"
  using assms by (auto simp: request_status_def)

lemma status_queue [simp]: "request_status (queue_message c msg m) r = request_status m r"
  by (rule status_cong) simp

lemma core_abort [simp]: "core (abort_on_host order h rid m) = core m"
  by (simp add: abort_on_host_def split: option.split)

lemma settle_after:
  fixes m m' :: "'m manager"
  assumes "core m' = core (remove_pending rid m)" and "manager_ok m" and "pending_of m rid = Some p"
  shows "manager_ok (answer rid x m')" and "request_status (answer rid x m') r = request_status m r"
proof -
  have same: "core (answer rid x m') = core (answer rid x (remove_pending rid m))"
    using assms(1) by (simp add: core_def answer_def host_id_for_session_def pending_of_def host_up_def fun_eq_iff)
  then show "manager_ok (answer rid x m')" and "request_status (answer rid x m') r = request_status m r"
    using settle_ok [OF assms(2)] settle_status [OF assms(3)]
    by (simp_all add: manager_ok_cong [OF same] status_cong [OF same])
qed

lemma timeout_ok: "manager_ok m \<Longrightarrow> manager_ok (timeout_host_request order rid h m)"
  and timeout_status: "manager_ok m \<Longrightarrow> request_status (timeout_host_request order rid h m) r = request_status m r"
  using settle_after [of "abort_on_host order h rid (remove_pending rid m)" rid m]
  by (auto simp: timeout_host_request_def split: option.split)

lemma abort_ok: "manager_ok m \<Longrightarrow> manager_ok (abort_host_request order rid m)"
  and abort_status: "manager_ok m \<Longrightarrow> request_status (abort_host_request order rid m) r = request_status m r"
  using settle_after [of "abort_on_host order h rid (remove_pending rid m)" rid m for h]
  by (auto simp: abort_host_request_def split: option.split)

lemma decode_error_ok: "manager_ok m \<Longrightarrow> manager_ok (fail_host_request_decode_error rid m)"
  and decode_error_status: "manager_ok m \<Longrightarrow> request_status (fail_host_request_decode_error rid m) r = request_status m r"
  using settle_after [of "remove_pending rid m" rid m]
  by (auto simp: fail_host_request_decode_error_def split: option.split)

lemma response_ok: "manager_ok m \<Longrightarrow> manager_ok (host_response S msg m)"
  and response_status: "manager_ok m \<Longrightarrow> request_status (host_response S msg m) r = request_status m r"
  using settle_after [of "remove_pending (request_id_of S msg) m" "request_id_of S msg" m]
  by (auto simp: host_response_def Let_def split: option.split)

lemma dispatch_cases:
  obtains "dispatch_host_scoped_request order acc h msg ex m = (None, m)"
  | s c where "dispatch_host_scoped_request order acc h msg ex m = (Some s, queue_message c msg m)"
    "host_to_sessions m h \<noteq> None" "client_for_session m s = Some c" "acc c" "Some s \<noteq> ex" "s \<in> set (members m h)"
proof (cases "host_to_sessions m h")
  case None
  then show thesis using that by (simp add: dispatch_host_scoped_request_def)
next
  case (Some ss)
  let ?P = "\<lambda>s. Some s \<noteq> ex \<and> (\<exists>c \<in> set_option (client_for_session m s). acc c)"
  show thesis
  proof (cases "find ?P (in_order order ss)")
    case None
    then show thesis using Some that(1) by (simp add: dispatch_host_scoped_request_def)
  next
    case (Some s)
    then have "?P s" and "s \<in> set (in_order order ss)" by (auto simp: find_Some_iff)
    then obtain c where "client_for_session m s = Some c" "acc c" "Some s \<noteq> ex" "s \<in> set ss"
      by (auto simp: in_order_def)
    then show thesis using Some \<open>host_to_sessions m h = Some ss\<close> that(2) [of s c]
      by (simp add: dispatch_host_scoped_request_def members_def)
  qed
qed

lemma insert_pending_ok:
  assumes "manager_ok m" and "host_to_sessions m (ph_host_id p) \<noteq> None"
  shows "manager_ok (insert_pending rid p m)"
  by (rule keep_ok [OF assms(1)]) (use assms(2) pending_host [OF assms(1)] in \<open>simp_all split: if_splits\<close>)

lemma answer_ok:
  assumes "manager_ok m"
  shows "manager_ok (answer rid x m)"
  by (rule keep_ok [OF assms]) (use pending_host [OF assms] in simp_all)

lemma queue_ok: "manager_ok m \<Longrightarrow> manager_ok (queue_message c msg m)"
  using manager_ok_cong [of "queue_message c msg m" m] by simp

lemma send_ok:
  assumes "manager_ok m"
  shows "manager_ok (send_host_request order acc h msg m)"
proof (cases rule: dispatch_cases [of order acc h msg None m])
  case 1
  then show ?thesis using assms by (simp add: send_host_request_def answer_ok)
next
  case (2 s c)
  then show ?thesis using assms by (simp add: send_host_request_def insert_pending_ok queue_ok)
qed

lemma send_status:
  assumes "fresh_request (cm_request_id msg) m"
  shows "request_status (send_host_request order acc h msg m) rid =
    request_status m rid + (if rid = cm_request_id msg then 1 else 0)"
proof -
  have fresh: "pending_of m (cm_request_id msg) = None" "count_list (map fst (answers m)) (cm_request_id msg) = 0"
    using assms by (auto simp: fresh_request_def count_list_0_iff)
  show ?thesis
  proof (cases rule: dispatch_cases [of order acc h msg None m])
    case 1
    then show ?thesis using fresh by (simp add: send_host_request_def request_status_def)
  next
    case (2 s c)
    then show ?thesis using fresh
      by (simp add: send_host_request_def request_status_def)
  qed
qed

lemma remove_ok:
  assumes "manager_ok m"
  shows "manager_ok (remove_pending rid m)"
  by (rule keep_ok [OF assms]) (use pending_host [OF assms] in \<open>simp_all split: if_splits\<close>)

lemma write_failed_ok:
  assumes "manager_ok m"
  shows "manager_ok (handle_host_scoped_write_failed order acc s rid m)"
    and "request_status (handle_host_scoped_write_failed order acc s rid m) r = request_status m r"
proof -
  have "manager_ok (handle_host_scoped_write_failed order acc s rid m) \<and>
    request_status (handle_host_scoped_write_failed order acc s rid m) r = request_status m r"
  proof (cases "pending_of m rid")
    case None
    then show ?thesis using assms by (simp add: handle_host_scoped_write_failed_def)
  next
    case (Some p)
    let ?m1 = "remove_pending rid m"
    have host: "host_to_sessions ?m1 (ph_host_id p) \<noteq> None" using pending_host [OF assms Some] by simp
    have ok: "manager_ok ?m1" by (rule remove_ok [OF assms])
    show ?thesis
    proof (cases "ph_session p = s")
      case False
      then show ?thesis using Some ok host
        by (auto simp: handle_host_scoped_write_failed_def insert_pending_ok request_status_def)
    next
      case True
      show ?thesis
      proof (cases rule: dispatch_cases [of order acc "ph_host_id p" "ph_msg p" "Some s" ?m1])
        case 1
        then show ?thesis using Some True settle_ok [OF assms] settle_status [OF Some]
          by (simp add: handle_host_scoped_write_failed_def)
      next
        case (2 s' c)
        have "manager_ok (insert_pending rid (p\<lparr>ph_session := s'\<rparr>) (queue_message c (ph_msg p) ?m1))"
          by (rule insert_pending_ok [OF queue_ok [OF ok]]) (use host in simp)
        then show ?thesis using Some True 2
          by (auto simp: handle_host_scoped_write_failed_def request_status_def)
      qed
    qed
  qed
  then show "manager_ok (handle_host_scoped_write_failed order acc s rid m)"
    and "request_status (handle_host_scoped_write_failed order acc s rid m) r = request_status m r" by blast+
qed

section \<open>Leaving a host\<close>

text \<open>The requests that lose their host are answered one after the other.\<close>

definition settle :: "'m manager \<Rightarrow> string \<Rightarrow> 'm manager" where
  "settle m rid = (case pending_of m rid of
    None \<Rightarrow> m
  | Some p \<Rightarrow> answer rid (Inl AllSessionsDisconnected) (remove_pending rid m))"

lemma settle_fields [simp]:
  "sessions (settle m rid) = sessions m" "host_to_sessions (settle m rid) = host_to_sessions m"
  "connection_attempts (settle m rid) = connection_attempts m" "tasks (settle m rid) = tasks m"
  "emitted (settle m rid) = emitted m" "pending_of (settle m rid) r = (if r = rid then None else pending_of m r)"
  "request_status (settle m rid) r = request_status m r"
  by (auto simp: settle_def settle_status split: option.split)

lemma fold_settle_fields:
  fixes m :: "'m manager"
  shows "sessions (foldl settle m rids) = sessions m" "host_to_sessions (foldl settle m rids) = host_to_sessions m"
    "connection_attempts (foldl settle m rids) = connection_attempts m" "tasks (foldl settle m rids) = tasks m"
    "emitted (foldl settle m rids) = emitted m"
    "pending_of (foldl settle m rids) r = (if r \<in> set rids then None else pending_of m r)"
    "request_status (foldl settle m rids) r = request_status m r"
  by (induction rids arbitrary: m) auto

lemma set_in_order [simp]: "set (in_order order ks) = set ks"
  by (auto simp: in_order_def)

lemma pending_key: "pending_of m rid = Some p \<Longrightarrow> rid \<in> fst ` set (pending_host_requests m)"
  unfolding pending_of_def by (metis map_of_eq_None_iff option.distinct(1))

lemma fail_pending_fields:
  fixes m :: "'m manager" and order :: "string list"
  defines "m' \<equiv> fail_pending_host_requests_for_disconnected_hosts order m"
  shows "sessions m' = sessions m" "host_to_sessions m' = host_to_sessions m"
    "connection_attempts m' = connection_attempts m" "tasks m' = tasks m" "emitted m' = emitted m"
    "pending_of m' r = (case pending_of m r of
      Some p \<Rightarrow> if host_to_sessions m (ph_host_id p) = None then None else Some p | None \<Rightarrow> None)"
    "request_status m' r = request_status m r"
proof -
  let ?rids = "filter (\<lambda>rid. case pending_of m rid of
    Some p \<Rightarrow> host_to_sessions m (ph_host_id p) = None | None \<Rightarrow> False) (in_order order (map fst (pending_host_requests m)))"
  have m': "m' = foldl settle m ?rids"
    by (simp add: m'_def fail_pending_host_requests_for_disconnected_hosts_def settle_def [abs_def])
  show "sessions m' = sessions m" "host_to_sessions m' = host_to_sessions m"
    "connection_attempts m' = connection_attempts m" "tasks m' = tasks m" "emitted m' = emitted m"
    "request_status m' r = request_status m r"
    by (simp_all add: m' fold_settle_fields)
  show "pending_of m' r = (case pending_of m r of
      Some p \<Rightarrow> if host_to_sessions m (ph_host_id p) = None then None else Some p | None \<Rightarrow> None)"
    using pending_key [of m r] by (auto simp: m' fold_settle_fields split: option.split)
qed

text \<open>A state whose index has lost the last session of \<open>h\<close>, before anybody was told.\<close>

definition deserted :: "host_id \<Rightarrow> 'm manager \<Rightarrow> bool" where
  "deserted h m \<longleftrightarrow> index_ok m \<and>
    (\<forall>rid p. pending_of m rid = Some p \<longrightarrow> ph_host_id p \<noteq> h \<longrightarrow> host_to_sessions m (ph_host_id p) \<noteq> None) \<and>
    (\<forall>h'. h' \<noteq> h \<longrightarrow> (host_up m h' \<longleftrightarrow> host_to_sessions m h' \<noteq> None)) \<and>
    (host_to_sessions m h \<noteq> None \<longrightarrow> host_up m h)"

lemma host_up_emit: "host_up (emit ev m) h = host_event h (host_up m h) ev"
  by (simp add: host_up_def emit_def)

lemma host_id_emit [simp]: "host_id_for_session (emit ev m) = host_id_for_session m"
  by (rule host_id_cong) simp

lemma deserted_ok:
  assumes "deserted h m"
  shows "hosts_ok (handle_host_disconnected order h m)"
    and "request_status (handle_host_disconnected order h m) r = request_status m r"
    and "sessions (handle_host_disconnected order h m) = sessions m"
    and "host_to_sessions (handle_host_disconnected order h m) = host_to_sessions m"
    and "tasks (handle_host_disconnected order h m) = tasks m"
    and "connection_attempts (handle_host_disconnected order h m) = connection_attempts m"
proof -
  let ?m1 = "emit (HostDisconnected h) (m\<lparr>snapshot_revisions := (snapshot_revisions m)(h := None)\<rparr>)"
  let ?m2 = "fail_pending_host_requests_for_disconnected_hosts order ?m1"
  note fields = fail_pending_fields [of order ?m1]
  have up: "host_up ?m1 h' = (h' \<noteq> h \<and> host_up m h')" for h'
    using host_up_cong [of "m\<lparr>snapshot_revisions := (snapshot_revisions m)(h := None)\<rparr>" m]
    by (auto simp: host_up_emit host_event_def)
  have pend: "pending_of ?m1 = pending_of m" by (rule pending_cong) simp
  have all: "hosts_ok (handle_host_disconnected order h m) \<and>
    request_status (handle_host_disconnected order h m) r = request_status m r \<and>
    sessions (handle_host_disconnected order h m) = sessions m \<and>
    host_to_sessions (handle_host_disconnected order h m) = host_to_sessions m \<and>
    tasks (handle_host_disconnected order h m) = tasks m \<and>
    connection_attempts (handle_host_disconnected order h m) = connection_attempts m"
  proof (cases "host_to_sessions m h")
    case None
    have "index_ok ?m2 = index_ok m"
      using host_id_cong [of ?m2 m] fields(1-4)
      by (simp add: index_ok_def members_def)
    moreover have "host_up ?m2 h' \<longleftrightarrow> host_to_sessions ?m2 h' \<noteq> None" for h'
      using assms None up [of h'] host_up_cong [OF fields(5)]
      by (cases "h' = h") (simp_all add: deserted_def fields(2))
    then have "events_ok ?m2" by (simp add: events_ok_def)
    moreover have "pending_ok ?m2"
      by (auto simp: pending_ok_def fields(2,6) pend split: option.splits if_splits)
    moreover have "request_status ?m2 r = request_status m r"
      unfolding fields(7) by (simp add: request_status_def pend)
    ultimately show ?thesis using assms None
      by (simp add: handle_host_disconnected_def hosts_ok_def deserted_def fields(1-4))
  next
    case (Some ss)
    then show ?thesis using assms
      by (auto simp: handle_host_disconnected_def hosts_ok_def deserted_def events_ok_def pending_ok_def)
  qed
  then show "hosts_ok (handle_host_disconnected order h m)"
    and "request_status (handle_host_disconnected order h m) r = request_status m r"
    and "sessions (handle_host_disconnected order h m) = sessions m"
    and "host_to_sessions (handle_host_disconnected order h m) = host_to_sessions m"
    and "tasks (handle_host_disconnected order h m) = tasks m"
    and "connection_attempts (handle_host_disconnected order h m) = connection_attempts m" by blast+
qed

lemma remove_index_fields [simp]:
  "sessions (remove_from_host_index h s m) = sessions m"
  "connection_attempts (remove_from_host_index h s m) = connection_attempts m"
  "tasks (remove_from_host_index h s m) = tasks m"
  "pending_host_requests (remove_from_host_index h s m) = pending_host_requests m"
  "answers (remove_from_host_index h s m) = answers m"
  "emitted (remove_from_host_index h s m) = emitted m"
  by (auto simp: remove_from_host_index_def Let_def split: option.split)

lemma members_remove_index: "members (remove_from_host_index h s m) h' = (if h' = h then removeAll s (members m h) else members m h')"
  by (auto simp: remove_from_host_index_def Let_def members_def split: option.split)

lemma remove_index_other: "h' \<noteq> h \<Longrightarrow> host_to_sessions (remove_from_host_index h s m) h' = host_to_sessions m h'"
  by (auto simp: remove_from_host_index_def Let_def split: option.split)

lemma remove_index_some: "host_to_sessions (remove_from_host_index h s m) h \<noteq> None \<Longrightarrow> host_to_sessions m h \<noteq> None"
  by (auto simp: remove_from_host_index_def Let_def split: option.splits)

lemma remove_index_nonempty:
  "host_to_sessions m h' \<noteq> Some [] \<Longrightarrow> host_to_sessions (remove_from_host_index h s m) h' \<noteq> Some []"
  by (auto simp: remove_from_host_index_def Let_def split: option.split)

text \<open>A session \<open>s\<close> that is no longer connected and may still be in the index under \<open>h\<close>.\<close>

definition leaving :: "session_id \<Rightarrow> host_id \<Rightarrow> 'm manager \<Rightarrow> bool" where
  "leaving s h m \<longleftrightarrow> host_id_for_session m s = None \<and>
    (\<forall>s' h'. s' \<noteq> s \<or> h' \<noteq> h \<longrightarrow> (s' \<in> set (members m h') \<longleftrightarrow> host_id_for_session m s' = Some h')) \<and>
    (\<forall>h'. host_to_sessions m h' \<noteq> Some []) \<and> pending_ok m \<and> events_ok m"

lemma leaving_deserted:
  assumes "leaving s h m"
  shows "deserted h (remove_from_host_index h s m)"
proof -
  let ?m = "remove_from_host_index h s m"
  have host_id: "host_id_for_session ?m = host_id_for_session m" by (rule host_id_cong) simp
  have up: "host_up ?m = host_up m" by (rule host_up_cong) simp
  have pend: "pending_of ?m = pending_of m" by (rule pending_cong) simp
  have "s' \<in> set (members ?m h') \<longleftrightarrow> host_id_for_session ?m s' = Some h'" for s' h'
    using assms by (cases "s' = s \<and> h' = h") (auto simp: leaving_def members_remove_index host_id)
  then have "index_ok ?m"
    using assms remove_index_nonempty [of m _ h s] by (simp add: index_ok_def leaving_def)
  then show ?thesis
    using assms remove_index_some [of h s m]
    by (auto simp: deserted_def leaving_def pend up remove_index_other pending_ok_def events_ok_def)
qed

lemma deserted_emit: "deserted h (emit (SessionDisconnected s h' e b) m) = deserted h m"
proof -
  have "core (emit (SessionDisconnected s h' e b) m) = core m" by simp
  then show ?thesis by (simp add: core_def deserted_def index_ok_def members_def)
qed

lemma leave_host_ok:
  assumes "leaving s h m"
  shows "hosts_ok (leave_host order s h e m)"
    and "request_status (leave_host order s h e m) r = request_status m r"
    and "sessions (leave_host order s h e m) = sessions m"
    and "tasks (leave_host order s h e m) = tasks m"
    and "connection_attempts (leave_host order s h e m) = connection_attempts m"
proof -
  have "deserted h (emit (SessionDisconnected s h e False) (remove_from_host_index h s m))"
    using leaving_deserted [OF assms] by (simp add: deserted_emit)
  note ok = deserted_ok [OF this, folded leave_host_def]
  show "hosts_ok (leave_host order s h e m)" "sessions (leave_host order s h e m) = sessions m"
    "tasks (leave_host order s h e m) = tasks m" "connection_attempts (leave_host order s h e m) = connection_attempts m"
    using ok by simp_all
  show "request_status (leave_host order s h e m) r = request_status m r"
    unfolding ok(2) by (simp add: request_status_def pending_of_def)
qed

text \<open>A connected session, or one that is in no index, becomes one that leaves.\<close>

lemma leavingI:
  assumes "hosts_ok m" and "host_id_for_session m s = Some h \<or> host_id_for_session m s = None"
    and "host_id_for_session m' = (host_id_for_session m)(s := None)"
    and "host_to_sessions m' = host_to_sessions m" "pending_of m' = pending_of m" "host_up m' = host_up m"
  shows "leaving s h m'"
  using assms by (auto simp: leaving_def hosts_ok_def index_ok_def pending_ok_def events_ok_def members_def)

lemma host_id_update:
  "host_id_for_session (m\<lparr>sessions := (sessions m)(s := st)\<rparr>) =
    (host_id_for_session m)(s := (case st of Some (Connected c h i p t) \<Rightarrow> Some h | _ \<Rightarrow> None))"
  by (auto simp: host_id_for_session_def fun_eq_iff)

end
