(* ===== verification/Manager_Steps.thy ===== *)
theory Manager_Steps imports Manager_Rules begin

text \<open>
  Every step of the manager keeps its invariant and the account of the requests.
\<close>

definition sound :: "'m manager \<Rightarrow> 'm manager \<Rightarrow> bool" where
  "sound m m' \<longleftrightarrow> manager_ok m' \<and> (\<forall>rid. request_status m' rid = request_status m rid)"

lemma sound_refl: "manager_ok m \<Longrightarrow> sound m m"
  by (simp add: sound_def)

lemma sound_trans: "sound m m1 \<Longrightarrow> sound m1 m2 \<Longrightarrow> sound m m2"
  by (simp add: sound_def)

lemma sound_core: "manager_ok m \<Longrightarrow> core m' = core m \<Longrightarrow> sound m m'"
  using manager_ok_cong [of m' m] status_cong [of m' m] by (simp add: sound_def)

lemma sound_after_core: "sound m m1 \<Longrightarrow> core m2 = core m1 \<Longrightarrow> sound m m2"
  using manager_ok_cong [of m2 m1] status_cong [of m2 m1] by (simp add: sound_def)

lemma core_eq:
  fixes m m' :: "'m manager"
  assumes "core m' = core m"
  shows "host_id_for_session m' = host_id_for_session m" "host_to_sessions m' = host_to_sessions m"
    "connection_attempts m' = connection_attempts m" "tasks m' = tasks m" "pending_of m' = pending_of m"
    "host_up m' = host_up m" "map fst (answers m') = map fst (answers m)"
  using assms by (simp_all add: core_def)

section \<open>The tasks\<close>

lemma tasks_keep:
  assumes "tasks_ok m" "connection_attempts m' = connection_attempts m" "tasks m' = tasks m"
    and "\<And>s. host_id_for_session m' s = None \<or> host_id_for_session m' s = host_id_for_session m s"
  shows "tasks_ok m'"
  using assms(1,4) unfolding tasks_ok_def assms(2,3) by metis

lemma tasks_start:
  assumes "tasks_ok m" "tasks m a = None" "connection_attempts m' = (connection_attempts m)(s := Some a)"
    "tasks m' = (tasks m)(a := Some t)" "tk_session t = s" "host_id_for_session m' s = None"
    and "\<And>s'. s' \<noteq> s \<Longrightarrow> host_id_for_session m' s' = host_id_for_session m s'"
  shows "tasks_ok m'"
  unfolding tasks_ok_def
proof (intro allI impI)
  fix s' a'
  assume "connection_attempts m' s' = Some a'"
  then show "\<exists>t. tasks m' a' = Some t \<and> tk_session t = s' \<and> (is_starting (tk_phase t) \<longrightarrow> host_id_for_session m' s' = None)"
  proof (cases "s' = s")
    case True
    then show ?thesis using \<open>connection_attempts m' s' = Some a'\<close> assms by auto
  next
    case False
    then have "connection_attempts m s' = Some a'" using \<open>connection_attempts m' s' = Some a'\<close> assms(3) by simp
    then obtain t' where t': "tasks m a' = Some t'" "tk_session t' = s'"
        "is_starting (tk_phase t') \<longrightarrow> host_id_for_session m s' = None"
      using assms(1) by (auto simp: tasks_ok_def)
    then have "a' \<noteq> a" using assms(2) by auto
    then show ?thesis using t' assms(4,7) False by auto
  qed
qed

lemma tasks_phase:
  assumes "tasks_ok m" "connection_attempts m' = connection_attempts m"
    "tasks m' = (tasks m)(a := map_option (\<lambda>t. t\<lparr>tk_phase := ph\<rparr>) (tasks m a))"
    and "\<And>s. host_id_for_session m' s = None \<or> host_id_for_session m' s = host_id_for_session m s \<or>
      (connection_attempts m s = Some a \<and> \<not> is_starting ph)"
    and "\<And>t. is_starting ph \<Longrightarrow> tasks m a = Some t \<Longrightarrow> is_starting (tk_phase t)"
  shows "tasks_ok m'"
  unfolding tasks_ok_def
proof (intro allI impI)
  fix s a'
  assume "connection_attempts m' s = Some a'"
  then have s: "connection_attempts m s = Some a'" by (simp add: assms(2))
  then obtain t where t: "tasks m a' = Some t" "tk_session t = s" "is_starting (tk_phase t) \<longrightarrow> host_id_for_session m s = None"
    using assms(1) by (auto simp: tasks_ok_def)
  show "\<exists>t. tasks m' a' = Some t \<and> tk_session t = s \<and> (is_starting (tk_phase t) \<longrightarrow> host_id_for_session m' s = None)"
  proof (cases "a' = a")
    case True
    then show ?thesis using t assms(4) [of s] assms(5) [of t] by (auto simp: assms(3))
  next
    case False
    then show ?thesis using t s assms(4) [of s] by (auto simp: assms(3))
  qed
qed

lemma move_task_fields [simp]:
  "sessions (move_task a ph m) = sessions m" "host_to_sessions (move_task a ph m) = host_to_sessions m"
  "connection_attempts (move_task a ph m) = connection_attempts m"
  "pending_host_requests (move_task a ph m) = pending_host_requests m" "answers (move_task a ph m) = answers m"
  "emitted (move_task a ph m) = emitted m"
  "tasks (move_task a ph m) = (tasks m)(a := map_option (\<lambda>t. t\<lparr>tk_phase := ph\<rparr>) (tasks m a))"
  by (simp_all add: move_task_def)

lemma hosts_same:
  assumes "hosts_ok m" "host_id_for_session m' = host_id_for_session m" "host_to_sessions m' = host_to_sessions m"
    "pending_of m' = pending_of m" "host_up m' = host_up m"
  shows "hosts_ok m'"
  using assms by (simp add: hosts_ok_def index_ok_def pending_ok_def events_ok_def members_def)

lemma status_same: "pending_of m' = pending_of m \<Longrightarrow> map fst (answers m') = map fst (answers m) \<Longrightarrow>
  request_status m' rid = request_status m rid"
  by (simp add: request_status_def)

text \<open>Steps that change a session, which is in no index before and after, and a phase.\<close>

lemma phase_keeps:
  assumes "manager_ok m" and "\<And>t. is_starting ph \<Longrightarrow> tasks m a = Some t \<Longrightarrow> is_starting (tk_phase t)"
  shows "sound m (move_task a ph m)"
proof -
  let ?m = "move_task a ph m"
  have same: "host_id_for_session ?m = host_id_for_session m" "host_up ?m = host_up m" "pending_of ?m = pending_of m"
    by (rule host_id_cong host_up_cong pending_cong; simp)+
  have "hosts_ok ?m" by (rule hosts_same [of m]) (use assms(1) same in \<open>simp_all add: manager_ok_def\<close>)
  moreover have "tasks_ok ?m"
    by (rule tasks_phase [of m]) (use assms same in \<open>simp_all add: manager_ok_def\<close>)
  ultimately show ?thesis using same by (simp add: sound_def manager_ok_def request_status_def)
qed

lemma session_keeps:
  assumes "manager_ok m" and "host_id_for_session m s = None" and "case st of Connected c h i p t \<Rightarrow> False | _ \<Rightarrow> True"
  shows "sound m (set_session s st m)"
proof -
  let ?m = "set_session s st m"
  have "host_id_for_session ?m = (host_id_for_session m)(s := None)"
    unfolding set_session_def host_id_update using assms(3) by (cases st) auto
  then have same: "host_id_for_session ?m = host_id_for_session m" using assms(2) by auto
  have rest: "host_up ?m = host_up m" "pending_of ?m = pending_of m"
    by (rule host_up_cong pending_cong; simp add: set_session_def)+
  have "hosts_ok ?m" by (rule hosts_same [of m]) (use assms(1) same rest in \<open>simp_all add: manager_ok_def set_session_def\<close>)
  moreover have "tasks_ok ?m"
    by (rule tasks_keep [of m]) (use assms same in \<open>simp_all add: manager_ok_def set_session_def\<close>)
  ultimately show ?thesis using rest by (simp add: sound_def manager_ok_def request_status_def set_session_def)
qed

section \<open>Sessions that connect and disconnect\<close>

lemma leaving_core: "core m' = core m \<Longrightarrow> leaving s h m' = leaving s h m"
  by (simp add: core_def leaving_def members_def pending_ok_def events_ok_def)

lemma core_update_session:
  fixes m m' :: "'m manager"
  assumes "core m' = core m" and "sessions m' = sessions m"
  shows "core (m'\<lparr>sessions := (sessions m')(s := st)\<rparr>) = core (m\<lparr>sessions := (sessions m)(s := st)\<rparr>)"
proof -
  have "host_id_for_session (m'\<lparr>sessions := (sessions m')(s := st)\<rparr>) = host_id_for_session (m\<lparr>sessions := (sessions m)(s := st)\<rparr>)"
    by (rule host_id_cong) (simp add: assms(2))
  then show ?thesis using assms(1)
    by (simp add: core_def pending_of_def [abs_def] host_up_def [abs_def])
qed

lemma reconnect_ok:
  assumes "hosts_ok m" "tasks_ok m" "host_id_for_session m s = None" "tasks m a = None"
  shows "manager_ok (attempt_reconnect a s n h e path tr i m)"
    and "request_status (attempt_reconnect a s n h e path tr i m) rid = request_status m rid"
proof -
  let ?m = "attempt_reconnect a s n h e path tr i m"
  have "host_id_for_session ?m = host_id_for_session (m\<lparr>sessions := (sessions m)(s := Some (Reconnecting n h path))\<rparr>)"
    by (rule host_id_cong) (simp add: attempt_reconnect_def spawn_task_def set_session_def set_attempt_def)
  then have same: "host_id_for_session ?m = host_id_for_session m" using assms(3) by (auto simp: host_id_update)
  have rest: "host_up ?m = host_up m" "pending_of ?m = pending_of m"
    by (rule host_up_cong pending_cong;
      simp add: attempt_reconnect_def spawn_task_def set_session_def set_attempt_def set_route_state_def)+
  have "hosts_ok ?m"
    by (rule hosts_same [OF assms(1) same _ rest(2,1)])
      (simp add: attempt_reconnect_def spawn_task_def set_session_def set_attempt_def set_route_state_def)
  moreover have "tasks_ok ?m"
    by (rule tasks_start [OF assms(2,4), of _ s "\<lparr>tk_session = s, tk_kind = Reconnection n h e path,
        tk_phase = Delaying, tk_transport = tr, tk_identity = i\<rparr>"])
      (use same assms(3) in \<open>simp_all add: attempt_reconnect_def spawn_task_def set_session_def set_attempt_def\<close>)
  ultimately show "manager_ok ?m" by (simp add: manager_ok_def)
  show "request_status ?m rid = request_status m rid"
    by (rule status_same [OF rest(2)])
      (simp add: attempt_reconnect_def spawn_task_def set_session_def set_attempt_def set_route_state_def)
qed

lemma disconnected_keeps:
  assumes "mark_session_disconnected order a' s a exit m = Some m'" and ok: "manager_ok m" and "tasks m a' = None"
  shows "sound m m'"
proof (cases "is_current s a m")
  case False
  then show ?thesis using assms by (simp add: mark_session_disconnected_def sound_refl)
next
  case True
  let ?m1 = "set_handle s None m"
  have m1: "core ?m1 = core m" "sessions ?m1 = sessions m" by (simp, simp add: set_handle_def)
  have hosts: "hosts_ok m" and tasks: "tasks_ok m" using ok by (simp_all add: manager_ok_def)
  show ?thesis
  proof (cases "\<exists>c h i path tr. sessions m s = Some (Connected c h i path tr)")
    case False
    show ?thesis
    proof (cases "sessions m s")
      case None
      then show ?thesis using assms(1) True m1 sound_core [OF ok m1(1)] by (simp add: mark_session_disconnected_def)
    next
      case (Some st)
      then have "m' = set_session s Disconnected ?m1"
        using assms(1) True False m1 by (cases st) (auto simp: mark_session_disconnected_def)
      moreover have "sound ?m1 (set_session s Disconnected ?m1)"
        by (rule session_keeps)
          (use sound_core [OF ok m1(1)] False Some m1(2) in \<open>auto simp: sound_def host_id_for_session_def split: remote_session_state.split\<close>)
      ultimately show ?thesis using sound_trans [OF sound_core [OF ok m1(1)]] by simp
    qed
  next
    case True
    then obtain c h i path tr where conn: "sessions m s = Some (Connected c h i path tr)" by blast
    let ?m0 = "m\<lparr>sessions := (sessions m)(s := None)\<rparr>"
    let ?r = "set_route_state s RouteDisconnected (?m1\<lparr>sessions := (sessions ?m1)(s := None)\<rparr>)"
    obtain m2 where m2: "mark_route_descendants_blocked s ?r = Some m2"
      "m' = (if exit \<noteq> None \<or> \<not> is_reconnectable tr exit then finalize_disconnect order s h exit m2
             else case auth_context m2 of None \<Rightarrow> finalize_disconnect order s h exit m2
               | Some _ \<Rightarrow> attempt_reconnect a' s 1 h exit path tr i (handle_host_disconnected order h (remove_from_host_index h s m2)))"
      using assms(1) \<open>is_current s a m\<close> conn m1(2) by (auto simp: mark_session_disconnected_def Let_def)
    have core: "core m2 = core ?m0"
      using core_block_routes [OF m2(1) [unfolded mark_route_descendants_blocked_def]] core_update_session [OF m1, of s None]
      by simp
    have gone: "host_id_for_session ?m0 = (host_id_for_session m)(s := None)" by (simp add: host_id_update)
    have "leaving s h ?m0"
      by (rule leavingI [OF hosts _ gone])
        (use conn in \<open>simp_all add: host_id_for_session_def pending_of_def [abs_def] host_up_def [abs_def]\<close>)
    then have leaving: "leaving s h m2" using leaving_core [OF core] by simp
    have tasks2: "tasks_ok m2"
      by (rule tasks_keep [OF tasks]) (use core_eq [OF core] gone in simp_all)
    have status: "request_status m2 rid = request_status m rid" for rid
      using core_eq [OF core] by (simp add: request_status_def pending_of_def)
    have final: "sound m (finalize_disconnect order s h exit m2)"
    proof -
      let ?d = "set_session s Disconnected m2"
      have same: "host_id_for_session ?d = host_id_for_session m2"
        using leaving unfolding set_session_def host_id_update by (auto simp: leaving_def)
      have "core ?d = core m2"
        using same by (simp add: core_def set_session_def pending_of_def [abs_def] host_up_def [abs_def])
      then have d: "leaving s h ?d" "request_status ?d rid = request_status m2 rid" "tasks_ok ?d" for rid
        using leaving leaving_core status_cong tasks_keep [OF tasks2, of ?d] core_eq [of ?d m2] by auto
      note left = leave_host_ok [OF d(1), of order exit, folded finalize_disconnect_def]
      have "tasks_ok (finalize_disconnect order s h exit m2)"
        by (rule tasks_keep [OF d(3) left(5,4)]) (simp add: host_id_cong [OF left(3)])
      then show ?thesis using left(1,2) d(2) status by (simp add: sound_def manager_ok_def)
    qed
    have again: "sound m (attempt_reconnect a' s 1 h exit path tr i (handle_host_disconnected order h (remove_from_host_index h s m2)))"
    proof -
      let ?x = "remove_from_host_index h s m2"
      note left = deserted_ok [OF leaving_deserted [OF leaving], of order]
      let ?y = "handle_host_disconnected order h ?x"
      have host_id: "host_id_for_session ?y = host_id_for_session m2" by (rule host_id_cong) (simp add: left(3))
      have "tasks_ok ?y"
        by (rule tasks_keep [OF tasks2]) (use left host_id in simp_all)
      moreover have "host_id_for_session ?y s = None" using leaving host_id by (simp add: leaving_def)
      moreover have "tasks ?y a' = None" using left(5) core_eq(4) [OF core] assms(3) by simp
      moreover have "request_status ?y rid = request_status m rid" for rid
        using left(2) status [of rid] by (simp add: request_status_def pending_of_def)
      ultimately show ?thesis using left(1) by (simp add: sound_def reconnect_ok)
    qed
    show ?thesis using m2(2) final again by (auto split: option.split)
  qed
qed

lemma failure_keeps:
  assumes "manager_ok m" "host_id_for_session m s = None" "tasks m a' = None"
  shows "sound m (handle_reconnect_failure a' s n h exit path tr i m)"
proof (cases "n < MAX_RECONNECT_ATTEMPTS")
  case True
  then show ?thesis using assms reconnect_ok [of m s a']
    by (simp add: handle_reconnect_failure_def sound_def manager_ok_def [of m])
next
  case False
  have "sound m (set_session s Disconnected m)" by (rule session_keeps) (use assms in simp_all)
  then show ?thesis using False by (auto simp: handle_reconnect_failure_def intro: sound_after_core)
qed

lemma connect_keeps:
  assumes "connect_session order a s tr i label m = Some m'" and ok: "manager_ok m" and "tasks m a = None"
  shows "sound m m'"
proof -
  have hosts: "hosts_ok m" and tasks: "tasks_ok m" using ok by (simp_all add: manager_ok_def)
  let ?m1 = "set_handle s None (set_session s Connecting (set_attempt s a m))"
  let ?m2 = "reset_route s (?m1\<lparr>session_capabilities := (session_capabilities ?m1)(s := None)\<rparr>)"
  let ?t = "\<lparr>tk_session = s, tk_kind = FirstConnection, tk_phase = Opening, tk_transport = tr, tk_identity = i\<rparr>"
  obtain m3 where m3: "mark_route_descendants_blocked s ?m2 = Some m3"
    using assms(1) by (auto simp: connect_session_def Let_def)
  define m4 where "m4 = (case sessions m s of Some (Connected c h i p t) \<Rightarrow> leave_host order s h None m3 | _ \<Rightarrow> m3)"
  obtain m5 where m': "m' = spawn_task a ?t m5" and m5: "core m5 = core m4"
    using assms(1) m3 by (auto simp: connect_session_def Let_def m4_def split: option.splits)
  let ?m0 = "m\<lparr>connection_attempts := (connection_attempts m)(s := Some a), sessions := (sessions m)(s := Some Connecting)\<rparr>"
  have core: "core m3 = core ?m0"
    using core_block_routes [OF m3 [unfolded mark_route_descendants_blocked_def]]
    by (simp add: set_session_def set_attempt_def)
  have gone: "host_id_for_session m3 = (host_id_for_session m)(s := None)"
  proof -
    have "host_id_for_session ?m0 = host_id_for_session (m\<lparr>sessions := (sessions m)(s := Some Connecting)\<rparr>)"
      by (rule host_id_cong) simp
    then show ?thesis using core_eq(1) [OF core] by (simp add: host_id_update)
  qed
  have rest: "host_to_sessions m3 = host_to_sessions m" "connection_attempts m3 = (connection_attempts m)(s := Some a)"
    "tasks m3 = tasks m" "pending_of m3 = pending_of m" "host_up m3 = host_up m" "map fst (answers m3) = map fst (answers m)"
    using core_eq [OF core] by (simp_all add: pending_of_def [abs_def] host_up_def [abs_def])
  have "hosts_ok m4 \<and> sessions m4 = sessions m3 \<and> tasks m4 = tasks m3 \<and> connection_attempts m4 = connection_attempts m3 \<and>
    (\<forall>rid. request_status m4 rid = request_status m3 rid)"
  proof (cases "\<exists>c h i p t. sessions m s = Some (Connected c h i p t)")
    case True
    then obtain c h i p t where conn: "sessions m s = Some (Connected c h i p t)" by blast
    have "leaving s h m3"
      by (rule leavingI [OF hosts _ gone rest(1,4,5)]) (use conn in \<open>simp add: host_id_for_session_def\<close>)
    then show ?thesis using conn leave_host_ok [of s h m3] by (simp add: m4_def)
  next
    case False
    then have "host_id_for_session m s = None" and "m4 = m3"
      by (auto simp: host_id_for_session_def m4_def split: option.split remote_session_state.split)
    then show ?thesis using hosts_same [OF hosts _ rest(1,4,5)] gone fun_upd_idem [of "host_id_for_session m" s None] by simp
  qed
  note m4 = this
  have host_id: "host_id_for_session m' = (host_id_for_session m)(s := None)"
  proof -
    have "host_id_for_session m4 = host_id_for_session m3" using m4 host_id_cong [of m4 m3] by simp
    moreover have "host_id_for_session m' = host_id_for_session m5" unfolding m' by (rule host_id_cong) (simp add: spawn_task_def)
    ultimately show ?thesis using gone core_eq(1) [OF m5] by simp
  qed
  have "hosts_ok m5" using m4 hosts_ok_cong [OF m5] by simp
  moreover have same: "host_id_for_session m' = host_id_for_session m5" "pending_of m' = pending_of m5" "host_up m' = host_up m5"
    unfolding m' by (rule host_id_cong pending_cong host_up_cong; simp add: spawn_task_def)+
  ultimately have "hosts_ok m'" using hosts_same [of m5 m'] by (simp add: m' spawn_task_def)
  moreover have "tasks_ok m'"
    by (rule tasks_start [OF tasks assms(3), of _ s ?t])
      (use host_id m4 rest core_eq [OF m5] in \<open>simp_all add: m' spawn_task_def\<close>)
  moreover have "request_status m' rid = request_status m rid" for rid
  proof -
    have "request_status m' rid = request_status m5 rid" by (rule status_same [OF same(2)]) (simp add: m' spawn_task_def)
    also have "\<dots> = request_status m3 rid" using m4 status_cong [OF m5] by simp
    also have "\<dots> = request_status m rid" using rest by (intro status_same)
    finally show ?thesis .
  qed
  ultimately show ?thesis by (simp add: sound_def manager_ok_def)
qed

section \<open>The futures\<close>

lemma starting_session:
  assumes "manager_ok m" "tasks m a = Some t" "is_starting (tk_phase t)" "is_current (tk_session t) a m"
  shows "host_id_for_session m (tk_session t) = None"
proof -
  obtain t' where "tasks m a = Some t'" "is_starting (tk_phase t') \<longrightarrow> host_id_for_session m (tk_session t) = None"
    using assms(1,4) by (auto simp: manager_ok_def tasks_ok_def is_current_def)
  then show ?thesis using assms(2,3) by simp
qed

lemma connection_failed_keeps:
  assumes ok: "manager_ok m" and t: "tasks m a = Some t" "is_starting (tk_phase t)" and "tasks m a' = None"
  shows "sound m (connection_failed a' a t ph text m)"
proof (cases "tk_kind t")
  case FirstConnection
  then show ?thesis using t phase_keeps [OF ok, of "Failing ph text" a] by (simp add: connection_failed_def)
next
  case (Reconnection n h e path)
  let ?m1 = "move_task a Finished m"
  have m1: "sound m ?m1" by (rule phase_keeps [OF ok]) simp
  show ?thesis
  proof (cases "is_current (tk_session t) a m")
    case True
    have "host_id_for_session ?m1 = host_id_for_session m" by (rule host_id_cong) simp
    then have "host_id_for_session ?m1 (tk_session t) = None" using starting_session [OF ok t True] by simp
    moreover have "tasks ?m1 a' = None" using assms(4) t by auto
    ultimately have "sound ?m1 (handle_reconnect_failure a' (tk_session t) n h e path (tk_transport t) (tk_identity t) ?m1)"
      using m1 by (intro failure_keeps) (simp_all add: sound_def)
    then show ?thesis using sound_trans [OF m1] Reconnection True
      by (simp add: connection_failed_def Let_def is_current_def)
  next
    case False
    then show ?thesis using m1 Reconnection by (simp add: connection_failed_def Let_def is_current_def)
  qed
qed

lemma opened_keeps:
  assumes ok: "manager_ok m" and t: "tasks m a = Some t" "tk_phase t = Opening" and "tasks m a' = None"
  shows "sound m (connection_opened a' a t r m)"
proof (cases r)
  case (Inl e)
  then show ?thesis using connection_failed_keeps [OF ok t(1) _ assms(4)] t(2) by (simp add: connection_opened_def)
next
  case (Inr p)
  obtain c path where p: "p = (c, path)" by (cases p)
  show ?thesis
  proof (cases "is_current (tk_session t) a m")
    case True
    let ?m1 = "set_session (tk_session t) (Initializing c path) m"
    have m1: "sound m ?m1"
      by (rule session_keeps [OF ok]) (use starting_session [OF ok t(1) _ True] t(2) in simp_all)
    have "sound ?m1 (move_task a (Shaking c) ?m1)"
      by (rule phase_keeps) (use m1 t in \<open>simp_all add: sound_def set_session_def\<close>)
    then show ?thesis using Inr p True sound_trans [OF m1] by (simp add: connection_opened_def)
  next
    case False
    then show ?thesis using Inr p connection_failed_keeps [OF ok t(1) _ assms(4)] t(2) by (simp add: connection_opened_def)
  qed
qed

lemma failure_handled_keeps:
  assumes ok: "manager_ok m" and t: "tasks m a = Some t" "tk_phase t = Failing q x"
  shows "sound m (failure_handled a t ph text m)"
proof -
  have plain: "sound m (move_task a (AwaitingExit ph text b) m)" for b
    by (rule phase_keeps [OF ok]) (use t in simp)
  show ?thesis
  proof (cases "is_current (tk_session t) a m \<and> (\<exists>c path. sessions m (tk_session t) = Some (Initializing c path))")
    case True
    then obtain c path where "sessions m (tk_session t) = Some (Initializing c path)" by blast
    let ?m1 = "set_session (tk_session t) (AwaitingExitStatus path) m"
    have m1: "sound m ?m1"
      by (rule session_keeps [OF ok]) (use starting_session [OF ok t(1)] t(2) True in simp_all)
    have "sound ?m1 (move_task a (AwaitingExit ph text True) ?m1)"
      by (rule phase_keeps) (use m1 t in \<open>simp_all add: sound_def set_session_def\<close>)
    then show ?thesis using True \<open>sessions m (tk_session t) = Some (Initializing c path)\<close> sound_trans [OF m1]
      by (simp add: failure_handled_def)
  next
    case False
    then show ?thesis using plain
      by (auto simp: failure_handled_def split: option.split remote_session_state.split)
  qed
qed

lemma exit_waited_keeps:
  assumes "exit_waited order a' a t ph text exit stderr m = Some m'" and ok: "manager_ok m" and "tasks m a = Some t" "tasks m a' = None"
  shows "sound m m'"
proof -
  let ?m1 = "move_task a Finished m"
  have m1: "sound m ?m1" by (rule phase_keeps [OF ok]) simp
  show ?thesis
  proof (cases "is_current (tk_session t) a ?m1")
    case False
    then show ?thesis using assms(1) m1 by (simp add: exit_waited_def Let_def)
  next
    case True
    then obtain ev1 ev2 where run: "mark_session_disconnected order a' (tk_session t) a None (emit ev2 (emit ev1 ?m1)) = Some m'"
      and core: "core (emit ev2 (emit ev1 ?m1)) = core ?m1"
      using assms(1) by (auto simp: exit_waited_def Let_def)
    moreover have "manager_ok (emit ev2 (emit ev1 ?m1))"
      using m1 manager_ok_cong [OF core] by (simp add: sound_def)
    moreover have "tasks (emit ev2 (emit ev1 ?m1)) a' = None" using assms(3,4) by auto
    ultimately have "sound (emit ev2 (emit ev1 ?m1)) m'" using disconnected_keeps [OF run] by blast
    then show ?thesis using sound_trans [OF sound_after_core [OF m1 core]] by blast
  qed
qed

lemma enter_host_fields [simp]:
  "sessions (enter_host s h m) = sessions m" "connection_attempts (enter_host s h m) = connection_attempts m"
  "tasks (enter_host s h m) = tasks m" "pending_host_requests (enter_host s h m) = pending_host_requests m"
  "answers (enter_host s h m) = answers m" "emitted (enter_host s h m) = emitted m"
  "host_to_sessions (enter_host s h m) h' =
    (if h' = h then Some (List.insert s (members m h)) else host_to_sessions m h')"
  "set (members (enter_host s h m) h') = (if h' = h then insert s (set (members m h)) else set (members m h'))"
  by (auto simp: enter_host_def members_def split: option.split)

lemma connected_ok:
  assumes ok: "manager_ok m" and "is_current s a m" "sessions m s = Some (Initializing c path)"
    and m': "m' = mark_session_connected s a h caps i tr m"
  shows "hosts_ok m'" and "request_status m' rid = request_status m rid"
    and "host_id_for_session m' = (host_id_for_session m)(s := Some h)"
    and "tasks m' = tasks m" and "connection_attempts m' = connection_attempts m"
    and "client_for_session m' s = Some c"
proof -
  let ?conn = "Some (Connected c h i path tr)"
  define m2 where "m2 = (set_session s (Connected c h i path tr) m)\<lparr>
    parent_connection_handles := (parent_connection_handles m)(s := Some (Some c)),
    session_capabilities := (session_capabilities m)(s := Some caps),
    ssh_routes := (ssh_routes m)(s := map_option (\<lambda>n. n\<lparr>rn_host := Some h, rn_state := RouteConnected\<rparr>) (ssh_routes m s))\<rparr>"
  define m4 where "m4 = (if host_to_sessions m h = None then emit (HostConnected h) (enter_host s h m2) else enter_host s h m2)"
  have hosts: "hosts_ok m" using ok by (simp add: manager_ok_def)
  have core: "core m' = core m4" and sess: "sessions m' = sessions m4"
    using assms(2,3) by (auto simp: m' mark_session_connected_def Let_def m4_def m2_def set_session_def split: option.split)
  have m2: "host_to_sessions m2 = host_to_sessions m" "tasks m2 = tasks m" "connection_attempts m2 = connection_attempts m"
    "pending_host_requests m2 = pending_host_requests m" "answers m2 = answers m" "emitted m2 = emitted m"
    "sessions m2 = (sessions m)(s := ?conn)"
    by (simp_all add: m2_def set_session_def)
  have host_id: "host_id_for_session m4 = (host_id_for_session m)(s := Some h)"
  proof -
    have "host_id_for_session m4 = host_id_for_session (m\<lparr>sessions := (sessions m)(s := ?conn)\<rparr>)"
      by (rule host_id_cong) (simp add: m4_def m2(7))
    then show ?thesis by (simp add: host_id_update)
  qed
  have up: "host_up m4 h' = (h' = h \<and> host_to_sessions m h = None \<or> host_up m h')" for h'
    using host_up_cong [of "enter_host s h m2" m] m2(6) by (auto simp: m4_def host_up_emit host_event_def)
  have pend: "pending_of m4 = pending_of m" by (rule pending_cong) (simp add: m4_def m2)
  have index: "host_to_sessions m4 h' = (if h' = h then Some (List.insert s (members m h)) else host_to_sessions m h')"
    "set (members m4 h') = (if h' = h then insert s (set (members m h)) else set (members m h'))" for h'
  proof -
    have members: "members m2 = members m" using m2(1) by (simp add: members_def fun_eq_iff)
    show "host_to_sessions m4 h' = (if h' = h then Some (List.insert s (members m h)) else host_to_sessions m h')"
      by (simp add: m4_def m2(1) members)
    have "members m4 h' = members (enter_host s h m2) h'" by (simp add: m4_def members_def)
    then show "set (members m4 h') = (if h' = h then insert s (set (members m h)) else set (members m h'))"
      by (simp add: members)
  qed
  have "host_id_for_session m s = None" using assms(3) by (simp add: host_id_for_session_def)
  then have "index_ok m4" using hosts
    by (auto simp: hosts_ok_def index_ok_def host_id index List.insert_def)
  moreover have "pending_ok m4" using hosts by (auto simp: hosts_ok_def pending_ok_def pend index)
  moreover have "events_ok m4" using hosts by (auto simp: hosts_ok_def events_ok_def up index)
  ultimately show "hosts_ok m'" using hosts_ok_cong [OF core] by (simp add: hosts_ok_def)
  show "request_status m' rid = request_status m rid"
    unfolding status_cong [OF core] by (rule status_same [OF pend]) (simp add: m4_def m2)
  show "host_id_for_session m' = (host_id_for_session m)(s := Some h)" using core_eq(1) [OF core] host_id by simp
  show "tasks m' = tasks m" "connection_attempts m' = connection_attempts m"
    using core_eq(3,4) [OF core] by (simp_all add: m4_def m2)
  show "client_for_session m' s = Some c"
    by (simp add: client_for_session_def sess m4_def m2(7))
qed

lemma handshake_keeps:
  assumes ok: "manager_ok m" and t: "tasks m a = Some t" "tk_phase t = Shaking c0" and "tasks m a' = None"
  shows "sound m (handshake_done a' a t r m)"
proof -
  note failed = connection_failed_keeps [OF ok t(1) _ assms(4)]
  show ?thesis
  proof (cases r)
    case (Inl e)
    then show ?thesis using failed t(2) by (simp add: handshake_done_def)
  next
    case (Inr p)
    obtain h caps where p: "p = (h, caps)" by (cases p)
    let ?s = "tk_session t"
    show ?thesis
    proof (cases "is_current ?s a m")
      case False
      then show ?thesis using failed t(2) Inr p by (simp add: handshake_done_def Let_def)
    next
      case True
      define m1 where "m1 = mark_session_connected ?s a h caps (tk_identity t) (tk_transport t) m"
      define m2 where "m2 = move_task a (if client_for_session m1 ?s = None then Finished else Serving) m1"
      have core: "core (handshake_done a' a t r m) = core m2"
        using True Inr p by (auto simp: handshake_done_def Let_def m1_def m2_def split: attempt_kind.split option.split)
      have "sound m m2"
      proof (cases "\<exists>c path. sessions m ?s = Some (Initializing c path)")
        case False
        then have m1: "m1 = m" by (auto simp: m1_def mark_session_connected_def split: option.split remote_session_state.split)
        have "client_for_session m ?s = None"
          using starting_session [OF ok t(1) _ True] t(2)
          by (auto simp: client_for_session_def host_id_for_session_def split: option.splits remote_session_state.splits)
        then show ?thesis using phase_keeps [OF ok, of Finished a] by (simp add: m2_def m1)
      next
        case init: True
        then obtain c path where "sessions m ?s = Some (Initializing c path)" by blast
        note conn = connected_ok [OF ok True this m1_def]
        have m2: "m2 = move_task a Serving m1" using conn(6) by (simp add: m2_def)
        have same: "host_id_for_session m2 = host_id_for_session m1" "host_up m2 = host_up m1" "pending_of m2 = pending_of m1"
          unfolding m2 by (rule host_id_cong host_up_cong pending_cong; simp)+
        have "hosts_ok m2" by (rule hosts_same [OF conn(1) same(1) _ same(3,2)]) (simp add: m2)
        moreover have "tasks_ok m2"
        proof (rule tasks_phase [of m _ a Serving])
          show "tasks_ok m" using ok by (simp add: manager_ok_def)
        qed (use conn same True in \<open>auto simp: m2 is_current_def\<close>)
        moreover have "request_status m2 rid = request_status m rid" for rid
          using status_same [OF same(3)] conn(2) [of rid] by (simp add: m2)
        ultimately show ?thesis by (simp add: sound_def manager_ok_def)
      qed
      then show ?thesis using sound_after_core core by blast
    qed
  qed
qed

section \<open>Removing a session\<close>

lemma drop_attempt_keeps:
  assumes "manager_ok m"
  shows "sound m (drop_attempt s m)"
proof -
  let ?m = "drop_attempt s m"
  have same: "host_id_for_session ?m = host_id_for_session m" "host_up ?m = host_up m" "pending_of ?m = pending_of m"
    by (rule host_id_cong host_up_cong pending_cong; simp add: drop_attempt_def)+
  have "hosts_ok ?m" by (rule hosts_same [of m]) (use assms same in \<open>simp_all add: manager_ok_def drop_attempt_def\<close>)
  moreover have "tasks_ok ?m" using assms same(1) by (auto simp: manager_ok_def tasks_ok_def drop_attempt_def)
  ultimately show ?thesis using same by (simp add: sound_def manager_ok_def request_status_def drop_attempt_def)
qed

lemma forget_keeps:
  assumes ok: "manager_ok m"
  shows "sound m (forget_session order s m)"
proof -
  have hosts: "hosts_ok m" and tasks: "tasks_ok m" using ok by (simp_all add: manager_ok_def)
  define m2 where "m2 = remove_child (Option.bind (ssh_routes m s) rn_parent) s (m\<lparr>
    parent_connection_handles := (parent_connection_handles m)(s := None),
    session_bootstrap_info := (session_bootstrap_info m)(s := None),
    session_capabilities := (session_capabilities m)(s := None),
    session_labels := (session_labels m)(s := None),
    ssh_route_children := (ssh_route_children m)(s := None),
    ssh_routes := (ssh_routes m)(s := None)\<rparr>)"
  define m3 where "m3 = m2\<lparr>sessions := (sessions m2)(s := None)\<rparr>"
  define m4 where "m4 = (case tracked_host (sessions m s) of Some h \<Rightarrow> leave_host order s h None m3 | None \<Rightarrow> m3)"
  have m2: "core m2 = core m" "sessions m2 = sessions m"
    by (auto intro!: coreI simp: m2_def remove_child_def split: option.split)
  have final: "core (forget_session order s m) = core m4"
  proof -
    have "forget_session order s m =
      (emit (SessionDeregistered s) m4)\<lparr>stopped := stopped (emit (SessionDeregistered s) m4) @ [control_path_of (sessions m s)]\<rparr>"
      unfolding forget_session_def m4_def m3_def m2(2) [symmetric] unfolding m2_def Let_def by (rule refl)
    then show ?thesis by simp
  qed
  have core: "core m3 = core (m\<lparr>sessions := (sessions m)(s := None)\<rparr>)"
    unfolding m3_def by (rule core_update_session [OF m2])
  have gone: "host_id_for_session m3 = (host_id_for_session m)(s := None)"
    using core_eq(1) [OF core] by (simp add: host_id_update)
  have rest: "host_to_sessions m3 = host_to_sessions m" "connection_attempts m3 = connection_attempts m"
    "tasks m3 = tasks m" "pending_of m3 = pending_of m" "host_up m3 = host_up m" "map fst (answers m3) = map fst (answers m)"
    using core_eq [OF core] by (simp_all add: pending_of_def [abs_def] host_up_def [abs_def])
  have "hosts_ok m4 \<and> sessions m4 = sessions m3 \<and> tasks m4 = tasks m3 \<and> connection_attempts m4 = connection_attempts m3 \<and>
    (\<forall>rid. request_status m4 rid = request_status m3 rid)"
  proof (cases "tracked_host (sessions m s)")
    case (Some h)
    then have "host_id_for_session m s = Some h \<or> host_id_for_session m s = None"
      by (auto simp: tracked_host_def host_id_for_session_def split: option.splits remote_session_state.splits)
    then have "leaving s h m3" by (rule leavingI [OF hosts _ gone rest(1,4,5)])
    then show ?thesis using Some leave_host_ok [of s h m3] by (simp add: m4_def)
  next
    case None
    then have "host_id_for_session m s = None"
      by (auto simp: tracked_host_def host_id_for_session_def split: option.splits remote_session_state.splits)
    then show ?thesis using None hosts_same [OF hosts _ rest(1,4,5)] gone fun_upd_idem [of "host_id_for_session m" s None]
      by (simp add: m4_def)
  qed
  note m4 = this
  have "tasks_ok m4"
    by (rule tasks_keep [OF tasks]) (use m4 rest gone host_id_cong [of m4 m3] in auto)
  then have "manager_ok m4" using m4 by (simp add: manager_ok_def)
  moreover have "request_status m4 rid = request_status m rid" for rid
    using m4 status_same [OF rest(4,6), of rid] by simp
  ultimately have "sound m m4" by (simp add: sound_def)
  then show ?thesis using final by (rule sound_after_core)
qed

lemmas deregister_induct = deregister_all.raw_induct [rotated, consumes 1, case_names step]

text \<open>What both pieces of the removal keep, the removal keeps.\<close>

lemma deregister_invariant:
  assumes "deregister_all order ss m = Some m'" and "P m"
    and "\<And>s m. P m \<Longrightarrow> P (drop_attempt s m)" and "\<And>order s m. P m \<Longrightarrow> P (forget_session order s m)"
  shows "P m'"
  using assms(1,2)
proof (induction rule: deregister_induct)
  case (step f order ss m m')
  show ?case
  proof (cases ss)
    case Nil
    then show ?thesis using step by simp
  next
    case (Cons s rest)
    then obtain m1 where m1: "f order (children_of m s) (drop_attempt s m) = Some m1"
      "f order rest (forget_session order s m1) = Some m'"
      using step(2) by (auto split: Option.bind_splits)
    have "P m1" by (rule step(1) [OF m1(1)]) (rule assms(3) [OF step(3)])
    then show ?thesis by (intro step(1) [OF m1(2)] assms(4))
  qed
qed

lemma deregister_keeps:
  assumes "deregister_session order s m = Some m'" and "manager_ok m"
  shows "sound m m'"
  using assms(1) [unfolded deregister_session_def]
proof (rule deregister_invariant [where P = "sound m"])
  show "sound m m" by (rule sound_refl [OF assms(2)])
  show "sound m (drop_attempt s x)" if "sound m x" for s x
    using that sound_trans [OF that drop_attempt_keeps] by (simp add: sound_def)
  show "sound m (forget_session order s x)" if "sound m x" for order s x
    using that sound_trans [OF that forget_keeps] by (simp add: sound_def)
qed

end
