(* ===== verification/Manager_Runs.thy ===== *)
theory Manager_Runs imports Manager_Steps begin

text \<open>
  Runs of the manager: every enabled step keeps the invariant and answers nothing twice, so every
  reachable state has both.
\<close>

lemma soundI: "manager_ok m' \<Longrightarrow> (\<And>rid. request_status m' rid = request_status m rid) \<Longrightarrow> sound m m'"
  by (simp add: sound_def)

section \<open>The remaining steps\<close>

lemma register_core:
  assumes "register_ssh_route s parent depth target port m = Some (r, m')"
  shows "core m' = core m"
proof -
  have "core (install_route s node m) = core m" for node
    by (rule coreI)
      (auto simp: install_route_def Let_def remove_child_def add_child_def split: option.split)
  then show ?thesis using assms by (auto simp: register_ssh_route_def Let_def split: if_splits option.splits)
qed

lemma bootstrapped_core: "core (notify_session_bootstrapped s info m) = core m"
  by (simp add: notify_session_bootstrapped_def Let_def split: option.split)

lemma rotate_core: "core (rotate_auth_token order token m) = core m"
proof -
  define f :: "string \<Rightarrow> string list \<times> 'a manager \<Rightarrow> session_id \<Rightarrow> string list \<times> 'a manager" where
    "f identity = (\<lambda>(hosts, m) s. (case sessions m s of
            Some (Connected c h i p t) \<Rightarrow>
              if i \<noteq> identity \<or> h \<in> set hosts then (hosts, m)
              else (h # hosts, queue_message c \<lparr>cm_request_id = [], cm_body = OtherMessage token\<rparr> m)
          | _ \<Rightarrow> (hosts, m)))" for identity
  have one: "core (snd (f identity hm s)) = core (snd hm)" for identity hm s
    by (simp add: f_def split: prod.split option.split remote_session_state.split)
  have "core (snd (foldl (f identity) hm order)) = core (snd hm)" for identity hm
    by (induction order arbitrary: hm) (simp_all add: one)
  then have "core (snd (foldl (f identity) ([], m) order)) = core m" for identity by simp
  then show ?thesis unfolding rotate_auth_token_def f_def by (simp split: option.split)
qed

lemma write_failed_keeps: "manager_ok m \<Longrightarrow> sound m (handle_host_scoped_write_failed order acc s rid m)"
  by (rule soundI) (simp_all add: write_failed_ok)

lemma decode_error_keeps: "manager_ok m \<Longrightarrow> sound m (fail_host_request_decode_error rid m)"
  by (rule soundI) (simp_all add: decode_error_ok decode_error_status)

lemma accept_core: "core (snd (accept_remote_agent_context_snapshot_revision h n m)) = core m"
  by (simp add: accept_remote_agent_context_snapshot_revision_def split: option.split)

lemma forward_keeps:
  assumes "manager_ok m"
  shows "sound m (forward_client_event order acc s ev m)"
proof (cases "host_id_for_session m s")
  case None
  then show ?thesis using assms by (simp add: forward_client_event_def sound_refl)
next
  case (Some h)
  show ?thesis
  proof (cases ev)
    case (PushEvent p)
    have "core (forward_client_event order acc s ev m) = core m"
    proof (cases p)
      case (SnapshotPush n)
      then show ?thesis using Some PushEvent accept_core [of h n m]
        by (auto simp: forward_client_event_def split: prod.split bool.split)
    qed (use Some PushEvent in \<open>simp add: forward_client_event_def\<close>)
    then show ?thesis by (rule sound_core [OF assms])
  qed (use Some assms in \<open>simp_all add: forward_client_event_def sound_refl write_failed_keeps decode_error_keeps sound_core\<close>)
qed

lemma stream_event_keeps:
  assumes "manager_ok m"
  shows "sound m (stream_event order acc s a ev m)"
  using assms by (simp add: stream_event_def sound_refl forward_keeps write_failed_keeps decode_error_keeps
    split: client_event.split)

lemma stream_ended_keeps:
  assumes "mark_session_disconnected order a' s a exit (move_task a Finished m) = Some m'" and "manager_ok m"
    and "tasks m a \<noteq> None" "tasks m a' = None"
  shows "sound m m'"
proof -
  have fin: "sound m (move_task a Finished m)" by (rule phase_keeps [OF assms(2)]) simp
  moreover have "tasks (move_task a Finished m) a' = None" using assms(3,4) by auto
  ultimately show ?thesis using disconnected_keeps [OF assms(1)] sound_trans [OF fin] by (simp add: sound_def)
qed

lemma delay_keeps:
  assumes "manager_ok m" and "phase_is (\<lambda>p. p = Delaying) a m"
  shows "sound m (move_task a (if b then Opening else Finished) m)"
  by (rule phase_keeps [OF assms(1)]) (use assms(2) in \<open>auto simp: phase_is_def\<close>)

section \<open>The steps of a run\<close>

definition is_request :: "string \<Rightarrow> 'm manager_input \<Rightarrow> bool" where
  "is_request rid x = (case x of SendHostRequest h msg \<Rightarrow> cm_request_id msg = rid | _ \<Rightarrow> False)"

lemma manager_step_keeps:
  assumes ok: "manager_ok m" and "enabled x m" and run: "manager_step S u x m = Some m'"
    and "\<And>h msg. x \<noteq> SendHostRequest h msg"
  shows "sound m m'"
proof (cases x)
  case (RegisterRoute s parent depth target port)
  then obtain r where "register_ssh_route s parent depth target port m = Some (r, m')" using run by auto
  then show ?thesis by (rule sound_core [OF ok register_core])
next
  case (ConnectSession a s tr i l)
  then show ?thesis using assms connect_keeps by simp
next
  case (DeregisterSession s)
  then show ?thesis using run ok deregister_keeps by simp
next
  case (NotifyBootstrapped s info)
  then show ?thesis using run sound_core [OF ok bootstrapped_core] by auto
next
  case (SendHostRequest h msg)
  then show ?thesis using assms by simp
next
  case (AbortHostRequest rid)
  then show ?thesis using run abort_ok [OF ok] abort_status [OF ok] by (auto intro: soundI)
next
  case (TimeoutHostRequest rid h)
  then show ?thesis using run timeout_ok [OF ok] timeout_status [OF ok] by (auto intro: soundI)
next
  case (RotateAuthToken token)
  then show ?thesis using run sound_core [OF ok rotate_core] by auto
next
  case (DelayOver a)
  then show ?thesis using assms delay_keeps [OF ok, of a]
    by (auto simp: task_step_def sound_refl split: option.splits)
next
  case (Opened a r a')
  then show ?thesis using assms opened_keeps [OF ok, of a]
    by (auto simp: task_step_def phase_is_def split: option.splits)
next
  case (HandshakeDone a r a')
  then show ?thesis using assms handshake_keeps [OF ok, of a]
    by (auto simp: task_step_def phase_is_def split: option.splits task_phase.splits)
next
  case (FailureHandled a)
  then show ?thesis using assms failure_handled_keeps [OF ok, of a]
    by (auto simp: task_step_def phase_is_def split: option.splits task_phase.splits)
next
  case (ExitWaited a exit stderr a')
  then obtain t q e has where t: "tasks m a = Some t" "tk_phase t = AwaitingExit q e has" "tasks m a' = None"
    using assms(2) by (auto simp: phase_is_def split: option.splits task_phase.splits)
  then have "exit_waited (request_order u) a' a t q e exit stderr m = Some m'"
    using ExitWaited run by (simp add: task_step_def)
  then show ?thesis using exit_waited_keeps ok t by blast
next
  case (StreamEvent a ev)
  then show ?thesis using run ok by (auto simp: task_step_def sound_refl stream_event_keeps split: option.splits)
next
  case (StreamEnded a exit a')
  then show ?thesis using assms stream_ended_keeps [OF _ ok]
    by (auto simp: task_step_def phase_is_def split: option.splits)
next
  case (HostResponse msg)
  then show ?thesis using run ok by (auto intro!: soundI simp: response_ok response_status)
qed

lemma step_ok:
  assumes "manager_ok m" "enabled x m" "manager_step S u x m = Some m'"
  shows "manager_ok m'"
    and "request_status m' rid = request_status m rid + (if is_request rid x then 1 else 0)"
proof -
  have "manager_ok m' \<and> request_status m' rid = request_status m rid + (if is_request rid x then 1 else 0)"
  proof (cases "\<exists>h msg. x = SendHostRequest h msg")
    case True
    then obtain h msg where x: "x = SendHostRequest h msg" by blast
    then have m': "m' = send_host_request (session_order u) (accepts u) h msg m" using assms(3) by simp
    show ?thesis using x assms(2) send_ok [OF assms(1)] unfolding m' by (auto simp: is_request_def send_status)
  next
    case False
    then have "sound m m'" using manager_step_keeps [OF assms] by blast
    then show ?thesis using False by (auto simp: sound_def is_request_def split: manager_input.split)
  qed
  then show "manager_ok m'" "request_status m' rid = request_status m rid + (if is_request rid x then 1 else 0)" by auto
qed

lemma new_manager_ok: "manager_ok new_manager"
  by (simp add: new_manager_def manager_ok_def hosts_ok_def index_ok_def pending_ok_def events_ok_def tasks_ok_def
    members_def host_id_for_session_def pending_of_def host_up_def)

lemma manager_reachable_ok: "manager_reachable S m \<Longrightarrow> manager_ok m"
  by (induction rule: manager_reachable.induct) (simp_all add: new_manager_ok step_ok)

lemma reachable_once: "manager_reachable S m \<Longrightarrow> request_status m rid \<le> 1"
proof (induction rule: manager_reachable.induct)
  case fresh
  show ?case by (simp add: new_manager_def request_status_def pending_of_def)
next
  case (step m x u m')
  show ?case
  proof (cases "is_request rid x")
    case True
    then have "fresh_request rid m" using step.hyps(2) by (auto simp: is_request_def split: manager_input.splits)
    then have "request_status m rid = 0" by (auto simp: fresh_request_def request_status_def count_list_0_iff)
    then show ?thesis using step_ok(2) [OF manager_reachable_ok [OF step.hyps(1)] step.hyps(2,3), of rid] True by simp
  next
    case False
    then show ?thesis using step_ok(2) [OF manager_reachable_ok [OF step.hyps(1)] step.hyps(2,3), of rid] step.IH by simp
  qed
qed

text \<open>A run of inputs from the first state reaches its last state.\<close>

lemma manager_run_reachable: "manager_run S u xs m = Some m' \<Longrightarrow> manager_reachable S m \<Longrightarrow> manager_reachable S m'"
  by (induction xs arbitrary: m) (auto split: if_splits Option.bind_splits intro: manager_reachable.step)

end
