(* ===== verification/Manager_Routes.thy ===== *)
theory Manager_Routes imports Manager_Sessions "HOL-Library.Multiset" begin

text \<open>
  The tree of SSH routes in the manager: the parents have no cycle and the index of children is exact,
  so the loops and recursions over the routes end, and the removal of a session takes exactly the
  sessions below it.
\<close>

definition route_parent :: "'m manager \<Rightarrow> session_id \<Rightarrow> session_id option" where
  "route_parent m s = Option.bind (ssh_routes m s) rn_parent"

definition child_rel :: "'m manager \<Rightarrow> (session_id \<times> session_id) set" where
  "child_rel m = {(c, p). route_parent m c = Some p}"

definition routes_ok :: "'m manager \<Rightarrow> bool" where
  "routes_ok m \<longleftrightarrow> finite (dom (ssh_routes m)) \<and> acyclic (child_rel m) \<and>
    (\<forall>p s. s \<in> set (children_of m p) \<longleftrightarrow> route_parent m s = Some p) \<and> (\<forall>p. distinct (children_of m p)) \<and>
    (\<forall>s p. route_parent m s = Some p \<longrightarrow> ssh_routes m p \<noteq> None)"

text \<open>The part of the state that the tree of routes is.\<close>

definition shape where
  "shape m = (\<lambda>s. map_option rn_parent (ssh_routes m s), ssh_route_children m)"

lemma shape_children: "shape m' = shape m \<Longrightarrow> children_of m' s = children_of m s"
  by (simp add: shape_def children_of_def)

lemma shape_routes: "shape m' = shape m \<Longrightarrow> map_option rn_parent (ssh_routes m' s) = map_option rn_parent (ssh_routes m s)"
  by (simp add: shape_def fun_eq_iff)

lemma shape_parent: "shape m' = shape m \<Longrightarrow> route_parent m' s = route_parent m s"
  using shape_routes [of m' m s] by (cases "ssh_routes m s"; cases "ssh_routes m' s") (simp_all add: route_parent_def)

lemma shape_present: "shape m' = shape m \<Longrightarrow> ssh_routes m' s = None \<longleftrightarrow> ssh_routes m s = None"
  using shape_routes [of m' m s] by (cases "ssh_routes m s"; cases "ssh_routes m' s") simp_all

lemma shape_ok:
  assumes "shape m' = shape m"
  shows "routes_ok m' = routes_ok m"
proof -
  have "dom (ssh_routes m') = dom (ssh_routes m)" unfolding dom_def shape_present [OF assms] by (rule refl)
  moreover have "child_rel m' = child_rel m" using shape_parent [OF assms] by (simp add: child_rel_def)
  ultimately show ?thesis
    using shape_parent [OF assms] shape_children [OF assms] shape_present [OF assms] by (simp add: routes_ok_def)
qed

section \<open>Operations that leave the tree\<close>

lemma shape_simple [simp]:
  "shape (emit ev m) = shape m" "shape (set_handle s c m) = shape m" "shape (queue_message cl msg m) = shape m"
  "shape (answer rid x m) = shape m" "shape (remove_pending rid m) = shape m" "shape (insert_pending rid p m) = shape m"
  "shape (set_session s st m) = shape m" "shape (set_attempt s a m) = shape m" "shape (spawn_task a t m) = shape m"
  "shape (move_task a ph m) = shape m" "shape (remove_from_host_index h s m) = shape m" "shape (enter_host s h m) = shape m"
  "shape (drop_attempt s m) = shape m"
  by (auto simp: shape_def emit_def set_handle_def queue_message_def answer_def remove_pending_def insert_pending_def
    set_session_def set_attempt_def spawn_task_def move_task_def remove_from_host_index_def Let_def enter_host_def
    drop_attempt_def split: option.split)

lemma shape_updates [simp]:
  "shape (m\<lparr>sessions := x1\<rparr>) = shape m" "shape (m\<lparr>session_capabilities := x2\<rparr>) = shape m"
  "shape (m\<lparr>session_labels := x3\<rparr>) = shape m" "shape (m\<lparr>auth_context := x4\<rparr>) = shape m"
  "shape (m\<lparr>session_bootstrap_info := x5\<rparr>) = shape m" "shape (m\<lparr>snapshot_revisions := x6\<rparr>) = shape m"
  "shape (m\<lparr>stopped := x7\<rparr>) = shape m" "shape (m\<lparr>parent_connection_handles := x8\<rparr>) = shape m"
  by (simp_all add: shape_def)

lemma shape_node:
  assumes "\<And>n. rn_parent (f n) = rn_parent n"
  shows "shape (m\<lparr>ssh_routes := (ssh_routes m)(s := map_option f (ssh_routes m s))\<rparr>) = shape m"
  using assms by (auto simp: shape_def fun_eq_iff option.map_comp comp_def)

lemma shape_states [simp]: "shape (set_route_state s st m) = shape m" "shape (reset_route s m) = shape m"
  by (simp_all add: set_route_state_def reset_route_def shape_node)

lemmas block_routes_run = block_routes.raw_induct [rotated, consumes 1, case_names step]

lemma shape_block: "block_routes pending m = Some m' \<Longrightarrow> shape m' = shape m"
proof (induction rule: block_routes_run)
  case (step f pending m m')
  then show ?case by (cases pending) (auto dest!: step(1))
qed

lemma shape_settle: "shape (foldl (\<lambda>m rid. case pending_of m rid of
    None \<Rightarrow> m | Some p \<Rightarrow> answer rid (e rid) (remove_pending rid m)) m rids) = shape m"
  by (induction rids arbitrary: m) (simp_all split: option.split)

lemma shape_requests [simp]:
  "shape (fail_pending_host_requests_for_disconnected_hosts order m) = shape m"
  "shape (handle_host_disconnected order h m) = shape m" "shape (leave_host order s h e m) = shape m"
  "shape (abort_on_host so h rid m) = shape m"
  by (simp_all add: fail_pending_host_requests_for_disconnected_hosts_def handle_host_disconnected_def leave_host_def
    shape_settle abort_on_host_def split: option.split)

lemma shape_dispatch: "dispatch_host_scoped_request so acc h msg ex m = (r, m') \<Longrightarrow> shape m' = shape m"
  by (auto simp: dispatch_host_scoped_request_def split: option.splits)

lemma shape_calls [simp]:
  "shape (send_host_request so acc h msg m) = shape m" "shape (timeout_host_request so rid h m) = shape m"
  "shape (abort_host_request so rid m) = shape m" "shape (fail_host_request_decode_error rid m) = shape m"
  "shape (handle_host_scoped_write_failed so acc s rid m) = shape m" "shape (notify_session_bootstrapped s info m) = shape m"
  by (auto dest!: shape_dispatch simp: send_host_request_def timeout_host_request_def abort_host_request_def fail_host_request_decode_error_def
    handle_host_scoped_write_failed_def notify_session_bootstrapped_def Let_def split: option.split prod.splits)

lemma shape_response [simp]: "shape (host_response S msg m) = shape m"
  by (simp add: host_response_def Let_def split: option.split)

lemma shape_sessions [simp]:
  "shape (attempt_reconnect a s n h e path tr i m) = shape m" "shape (finalize_disconnect order s h e m) = shape m"
  "shape (handle_reconnect_failure a s n h e path tr i m) = shape m"
  by (simp_all add: attempt_reconnect_def finalize_disconnect_def handle_reconnect_failure_def)

lemma shape_connected [simp]: "shape (mark_session_connected s a h caps i tr m) = shape m"
  by (auto simp: mark_session_connected_def Let_def shape_def fun_eq_iff option.map_comp comp_def queue_message_def
    emit_def enter_host_def set_session_def split: option.split remote_session_state.split)

lemma shape_accept: "accept_remote_agent_context_snapshot_revision h n m = (b, m') \<Longrightarrow> shape m' = shape m"
  by (auto simp: accept_remote_agent_context_snapshot_revision_def split: option.splits if_splits)

lemma shape_forward [simp]: "shape (forward_client_event so acc s ev m) = shape m"
  by (auto dest!: shape_accept simp: forward_client_event_def
    split: option.split client_event.split server_push.split prod.split bool.split)

lemma shape_event [simp]: "shape (stream_event so acc s a ev m) = shape m"
  by (simp add: stream_event_def split: client_event.split)

lemma shape_futures [simp]:
  "shape (connection_failed a' a t ph e m) = shape m" "shape (connection_opened a' a t r m) = shape m"
  "shape (handshake_done a' a t r' m) = shape m" "shape (failure_handled a t ph e m) = shape m"
  by (auto simp: connection_failed_def connection_opened_def handshake_done_def failure_handled_def Let_def
    split: attempt_kind.split sum.split prod.split option.split remote_session_state.split)


section \<open>The relation of the tree\<close>

lemma finite_child_rel: "routes_ok m \<Longrightarrow> finite (child_rel m)"
proof -
  assume ok: "routes_ok m"
  have "child_rel m \<subseteq> (\<lambda>c. (c, the (route_parent m c))) ` dom (ssh_routes m)"
    by (auto simp: child_rel_def route_parent_def image_iff split: Option.bind_splits)
  then show ?thesis using ok by (auto simp: routes_ok_def intro: finite_subset)
qed

lemma wf_up: "routes_ok m \<Longrightarrow> wf ((child_rel m)\<inverse>)"
  using finite_child_rel by (intro finite_acyclic_wf_converse) (auto simp: routes_ok_def)

lemma wf_child_rel: "routes_ok m \<Longrightarrow> wf (child_rel m)"
  using finite_child_rel by (intro finite_acyclic_wf) (auto simp: routes_ok_def)

lemma meets_session_result:
  assumes "routes_ok m"
  shows "meets_session (ssh_routes m) s a = Some (\<exists>x. a = Some x \<and> (x, s) \<in> (child_rel m)\<^sup>*)"
proof (cases a)
  case None
  then show ?thesis by (simp add: meets_session.simps)
next
  case (Some x)
  have "meets_session (ssh_routes m) s (Some x) = Some ((x, s) \<in> (child_rel m)\<^sup>*)"
    using wf_up [OF assms]
  proof (induction x rule: wf_induct_rule)
    case (less x)
    show ?case
    proof (cases "x = s")
      case False
      have rest: "meets_session (ssh_routes m) s (Some x) = meets_session (ssh_routes m) s (route_parent m x)"
        using False by (subst meets_session.simps) (simp add: route_parent_def)
      show ?thesis
      proof (cases "route_parent m x")
        case None
        then have "(x, s) \<notin> (child_rel m)\<^sup>*" using False by (auto simp: child_rel_def elim: converse_rtranclE)
        then show ?thesis using rest None by (simp add: meets_session.simps)
      next
        case (Some p)
        then have up: "(x, p) \<in> child_rel m" by (simp add: child_rel_def)
        have "(x, s) \<in> (child_rel m)\<^sup>* \<longleftrightarrow> (p, s) \<in> (child_rel m)\<^sup>*"
        proof
          assume "(x, s) \<in> (child_rel m)\<^sup>*"
          then show "(p, s) \<in> (child_rel m)\<^sup>*" using False Some by (cases rule: converse_rtranclE) (auto simp: child_rel_def)
        next
          assume "(p, s) \<in> (child_rel m)\<^sup>*"
          then show "(x, s) \<in> (child_rel m)\<^sup>*" using up by (rule converse_rtrancl_into_rtrancl [rotated])
        qed
        then show ?thesis using rest Some less [of p] up by simp
      qed
    qed (simp add: meets_session.simps)
  qed
  then show ?thesis using Some by simp
qed

lemma route_path_returns:
  assumes "routes_ok m"
  shows "\<exists>path'. route_path_from (ssh_routes m) a path = Some path'"
proof (cases a)
  case None
  then show ?thesis by (simp add: route_path_from.simps)
next
  case (Some x)
  have "\<exists>path'. route_path_from (ssh_routes m) (Some x) path = Some path'"
    using wf_up [OF assms]
  proof (induction x arbitrary: path rule: wf_induct_rule)
    case (less x)
    show ?case
    proof (cases "ssh_routes m x")
      case (Some n)
      have "route_path_from (ssh_routes m) (Some x) path = route_path_from (ssh_routes m) (rn_parent n) ((x, n) # path)"
        using Some by (subst route_path_from.simps) simp
      moreover have "\<exists>path'. route_path_from (ssh_routes m) (rn_parent n) ((x, n) # path) = Some path'"
      proof (cases "rn_parent n")
        case None
        then show ?thesis by (simp add: route_path_from.simps)
      next
        case parent: (Some p)
        then show ?thesis using less [of p "(x, n) # path"] Some by (simp add: child_rel_def route_parent_def)
      qed
      ultimately show ?thesis by simp
    qed (simp add: route_path_from.simps)
  qed
  then show ?thesis using Some by simp
qed

section \<open>Registering a route\<close>

lemma install_fields:
  "ssh_routes (install_route s n m) = (ssh_routes m)(s := Some n)"
  by (simp add: install_route_def Let_def remove_child_def add_child_def split: option.split)

lemma install_parent: "route_parent (install_route s n m) x = (if x = s then rn_parent n else route_parent m x)"
  by (simp add: route_parent_def install_fields)

lemma install_children:
  "children_of (install_route s n m) p =
    (let cs = (if route_parent m s = Some p then removeAll s (children_of m p) else children_of m p)
     in if rn_parent n = Some p then List.insert s cs else cs)"
  by (auto simp: install_route_def Let_def remove_child_def add_child_def children_of_def route_parent_def
    split: option.splits)

lemma install_ok:
  assumes ok: "routes_ok m" and "\<And>p. rn_parent n = Some p \<Longrightarrow> ssh_routes m p \<noteq> None \<and> (p, s) \<notin> (child_rel m)\<^sup>*"
  shows "routes_ok (install_route s n m)"
proof -
  let ?m = "install_route s n m"
  let ?cut = "{(c, p). (c, p) \<in> child_rel m \<and> c \<noteq> s}"
  have cut: "acyclic ?cut" using ok by (auto simp: routes_ok_def intro: acyclic_subset)
  have "child_rel ?m = (case rn_parent n of Some p \<Rightarrow> insert (s, p) ?cut | None \<Rightarrow> ?cut)"
    by (auto simp: child_rel_def install_parent split: option.split if_splits)
  moreover have "(p, s) \<notin> ?cut\<^sup>*" if "rn_parent n = Some p" for p
    using assms(2) [OF that] rtrancl_mono [of ?cut "child_rel m"] by auto
  ultimately have "acyclic (child_rel ?m)" using cut by (auto simp: acyclic_insert split: option.split)
  moreover have "finite (dom (ssh_routes ?m))" using ok by (simp add: routes_ok_def install_fields)
  moreover have "x \<in> set (children_of ?m p) \<longleftrightarrow> route_parent ?m x = Some p" for x p
    using ok by (auto simp: routes_ok_def install_children install_parent Let_def)
  moreover have "distinct (children_of ?m p)" for p
    using ok by (auto simp: routes_ok_def install_children Let_def distinct_removeAll)
  moreover have "ssh_routes ?m p \<noteq> None" if "route_parent ?m x = Some p" for x p
    using ok that assms(2) [of p] by (auto simp: routes_ok_def install_fields install_parent split: if_splits)
  ultimately show ?thesis by (simp add: routes_ok_def)
qed

lemma register_result:
  assumes "routes_ok m"
  obtains r m' where "register_ssh_route s parent depth target port m = Some (r, m')" "routes_ok m'"
    "ssh_routes m' = (case r of Inl e \<Rightarrow> ssh_routes m
      | Inr u \<Rightarrow> (ssh_routes m)(s \<mapsto> \<lparr>rn_parent = parent, rn_host = None, rn_target = target, rn_port = port,
          rn_depth = depth, rn_state = Preparing\<rparr>))"
    "r = Inl RouteCycle \<longleftrightarrow> \<not> invalid_target target \<and> expected_depth m parent = Some depth \<and> depth \<le> 8 \<and>
      (\<exists>p. parent = Some p \<and> (p, s) \<in> (child_rel m)\<^sup>*)"
proof (cases "\<not> invalid_target target \<and> expected_depth m parent = Some depth \<and> depth \<le> 8")
  case False
  then consider "invalid_target target" | "\<not> invalid_target target" "expected_depth m parent = None"
    | d where "\<not> invalid_target target" "expected_depth m parent = Some d" "8 < d \<or> depth \<noteq> d"
    by (cases "expected_depth m parent") (auto simp: not_le)
  then have "\<exists>e. e \<noteq> RouteCycle \<and> register_ssh_route s parent depth target port m = Some (Inl e, m)"
    by cases (simp_all add: register_ssh_route_def)
  then obtain e where "e \<noteq> RouteCycle" "register_ssh_route s parent depth target port m = Some (Inl e, m)" by blast
  then show thesis using that [of "Inl e" m] assms False by auto
next
  case True
  let ?node = "\<lparr>rn_parent = parent, rn_host = None, rn_target = target, rn_port = port, rn_depth = depth, rn_state = Preparing\<rparr>"
  note meets = meets_session_result [OF assms, of s parent]
  show thesis
  proof (cases "\<exists>p. parent = Some p \<and> (p, s) \<in> (child_rel m)\<^sup>*")
    case cycle: True
    have "register_ssh_route s parent depth target port m = Some (Inl RouteCycle, m)"
      using True cycle meets by (simp add: register_ssh_route_def linorder_not_less)
    then show thesis using that [of "Inl RouteCycle" m] True cycle assms by simp
  next
    case False
    have "routes_ok (install_route s ?node m)"
      by (rule install_ok [OF assms]) (use False True in \<open>auto simp: expected_depth_def split: option.splits\<close>)
    moreover have "register_ssh_route s parent depth target port m = Some (Inr (), install_route s ?node m)"
      using True False meets by (simp add: register_ssh_route_def linorder_not_less)
    ultimately show thesis using that [of "Inr ()" "install_route s ?node m"] False by (simp add: install_fields)
  qed
qed


section \<open>Removing sessions\<close>

lemma settle_rest:
  fixes m :: "'m manager"
  defines "f \<equiv> \<lambda>m rid. case pending_of m rid of
    None \<Rightarrow> m | Some p \<Rightarrow> answer rid (Inl AllSessionsDisconnected) (remove_pending rid m)"
  shows "sessions (foldl f m rids) = sessions m" "ssh_routes (foldl f m rids) = ssh_routes m"
    "ssh_route_children (foldl f m rids) = ssh_route_children m" "connection_attempts (foldl f m rids) = connection_attempts m"
proof -
  have "sessions (f m rid) = sessions m \<and> ssh_routes (f m rid) = ssh_routes m \<and>
    ssh_route_children (f m rid) = ssh_route_children m \<and> connection_attempts (f m rid) = connection_attempts m"
    for m :: "'m manager" and rid
    by (simp add: f_def answer_def remove_pending_def split: option.split)
  note one = this [THEN conjunct1] this [THEN conjunct2]
  have "sessions (foldl f m rids) = sessions m \<and> ssh_routes (foldl f m rids) = ssh_routes m \<and>
    ssh_route_children (foldl f m rids) = ssh_route_children m \<and> connection_attempts (foldl f m rids) = connection_attempts m"
    by (induction rids arbitrary: m) (simp_all add: one)
  then show "sessions (foldl f m rids) = sessions m" "ssh_routes (foldl f m rids) = ssh_routes m"
    "ssh_route_children (foldl f m rids) = ssh_route_children m" "connection_attempts (foldl f m rids) = connection_attempts m"
    by simp_all
qed

lemma leave_host_rest [simp]:
  "sessions (leave_host order s h e m) = sessions m" "ssh_routes (leave_host order s h e m) = ssh_routes m"
  "ssh_route_children (leave_host order s h e m) = ssh_route_children m"
  "connection_attempts (leave_host order s h e m) = connection_attempts m"
  by (auto simp: leave_host_def handle_host_disconnected_def fail_pending_host_requests_for_disconnected_hosts_def
    settle_rest emit_def remove_from_host_index_def Let_def split: option.split)

lemma remove_child_rest [simp]:
  "sessions (remove_child p s m) = sessions m" "ssh_routes (remove_child p s m) = ssh_routes m"
  "connection_attempts (remove_child p s m) = connection_attempts m"
  by (simp_all add: remove_child_def split: option.split)

lemma forget_rest:
  "sessions (forget_session order s m) = (sessions m)(s := None)"
  "ssh_routes (forget_session order s m) = (ssh_routes m)(s := None)"
  "connection_attempts (forget_session order s m) = connection_attempts m"
  by (simp_all add: forget_session_def Let_def emit_def split: option.split)

lemma forget_children:
  "children_of (forget_session order s m) p =
    (if p = s then [] else if route_parent m s = Some p then removeAll s (children_of m p) else children_of m p)"
  by (auto simp: forget_session_def Let_def emit_def children_of_def remove_child_def route_parent_def
    split: option.split)

lemma forget_ok:
  assumes ok: "routes_ok m" and leaf: "children_of m s = []"
  shows "routes_ok (forget_session order s m)" and "child_rel (forget_session order s m) \<subseteq> child_rel m"
proof -
  let ?m = "forget_session order s m"
  have parent: "route_parent ?m x = (if x = s then None else route_parent m x)" for x
    by (simp add: route_parent_def forget_rest)
  show sub: "child_rel ?m \<subseteq> child_rel m" by (auto simp: child_rel_def parent split: if_splits)
  have no: "route_parent m x \<noteq> Some s" for x using ok leaf by (metis empty_iff empty_set routes_ok_def)
  have "finite (dom (ssh_routes ?m))" using ok by (simp add: routes_ok_def forget_rest)
  moreover have "acyclic (child_rel ?m)" using ok sub by (auto simp: routes_ok_def intro: acyclic_subset)
  moreover have "x \<in> set (children_of ?m p) \<longleftrightarrow> route_parent ?m x = Some p" for x p
    using ok no [of x] by (auto simp: routes_ok_def forget_children parent)
  moreover have "distinct (children_of ?m p)" for p using ok by (simp add: routes_ok_def forget_children distinct_removeAll)
  moreover have "ssh_routes ?m p \<noteq> None" if "route_parent ?m x = Some p" for x p
    using ok no [of x] that by (auto simp: routes_ok_def parent forget_rest split: if_splits)
  ultimately show "routes_ok ?m" by (simp add: routes_ok_def)
qed

definition subtree :: "'m manager \<Rightarrow> session_id list \<Rightarrow> session_id set" where
  "subtree m ss = {x. \<exists>s \<in> set ss. (x, s) \<in> (child_rel m)\<^sup>*}"

lemma subtree_shape: "shape m' = shape m \<Longrightarrow> subtree m' ss = subtree m ss"
  using shape_parent [of m' m] by (simp add: subtree_def child_rel_def)

lemma subtree_children:
  assumes "routes_ok m"
  shows "subtree m [s] = insert s (subtree m (children_of m s))"
proof -
  have child: "c \<in> set (children_of m s) \<longleftrightarrow> (c, s) \<in> child_rel m" for c using assms by (simp add: routes_ok_def child_rel_def)
  show ?thesis
  proof (intro set_eqI iffI)
    fix x
    assume "x \<in> subtree m [s]"
    then have "(x, s) \<in> (child_rel m)\<^sup>*" by (simp add: subtree_def)
    then show "x \<in> insert s (subtree m (children_of m s))"
      by (cases rule: rtranclE) (auto simp: subtree_def child)
  qed (auto simp: subtree_def child intro: rtrancl_into_rtrancl)
qed

lemma subtree_Cons: "subtree m (s # rest) = subtree m [s] \<union> subtree m rest"
  by (auto simp: subtree_def)

text \<open>Outside of a subtree the way up stays outside.\<close>

lemma subtree_outside:
  assumes "ssh_routes m' = ssh_routes m |` (- subtree m [s])"
  shows "subtree m [s] \<union> subtree m' rest = subtree m (s # rest)"
proof -
  have edge: "(x, p) \<in> child_rel m' \<longleftrightarrow> (x, p) \<in> child_rel m \<and> x \<notin> subtree m [s]" for x p
    by (auto simp: child_rel_def route_parent_def assms restrict_map_def)
  have "(x, t) \<in> (child_rel m')\<^sup>*" if "(x, t) \<in> (child_rel m)\<^sup>*" "x \<notin> subtree m [s]" for x t
    using that
  proof (induction rule: converse_rtrancl_induct)
    case (step y z)
    then have "z \<notin> subtree m [s]" by (auto simp: subtree_def intro: converse_rtrancl_into_rtrancl)
    then show ?case using step edge by (blast intro: converse_rtrancl_into_rtrancl)
  qed simp
  moreover have "(child_rel m')\<^sup>* \<subseteq> (child_rel m)\<^sup>*" by (rule rtrancl_mono) (auto simp: edge)
  ultimately show ?thesis unfolding subtree_Cons [of m s rest] by (auto simp: subtree_def)
qed

text \<open>A rank that grows towards the roots.\<close>

definition ranked :: "(session_id \<Rightarrow> nat) \<Rightarrow> 'm manager \<Rightarrow> bool" where
  "ranked rk m \<longleftrightarrow> (\<forall>(c, p) \<in> child_rel m. rk c < rk p)"

lemma routes_ranked:
  assumes "routes_ok m"
  shows "ranked (\<lambda>s. card {x. (x, s) \<in> (child_rel m)\<^sup>+}) m"
  unfolding ranked_def
proof (clarify)
  fix c p
  assume edge: "(c, p) \<in> child_rel m"
  have fin: "finite {x. (x, s) \<in> (child_rel m)\<^sup>+}" for s
    by (rule finite_subset [of _ "fst ` (child_rel m)\<^sup>+"]) (use finite_child_rel [OF assms] in \<open>auto simp: image_iff\<close>, force)
  have "acyclic (child_rel m)" using assms by (simp add: routes_ok_def)
  then have "(c, c) \<notin> (child_rel m)\<^sup>+" by (simp add: acyclic_def)
  then have "{x. (x, c) \<in> (child_rel m)\<^sup>+} \<subset> {x. (x, p) \<in> (child_rel m)\<^sup>+}"
    using edge by (auto intro: trancl_into_trancl)
  then show "card {x. (x, c) \<in> (child_rel m)\<^sup>+} < card {x. (x, p) \<in> (child_rel m)\<^sup>+}"
    by (rule psubset_card_mono [OF fin])
qed

definition removed where
  "removed m ss m' \<longleftrightarrow> routes_ok m' \<and> child_rel m' \<subseteq> child_rel m \<and>
    ssh_routes m' = ssh_routes m |` (- subtree m ss) \<and> sessions m' = sessions m |` (- subtree m ss) \<and>
    connection_attempts m' = connection_attempts m |` (- subtree m ss)"

lemma without_one: "f(s := None) = f |` (- {s})"
  by (auto simp: restrict_map_def)

lemma removed_Nil: "routes_ok m \<Longrightarrow> removed m [] m"
  by (simp add: removed_def subtree_def restrict_map_def)

lemma removed_Cons:
  assumes ok: "routes_ok m" and m1: "removed (drop_attempt s m) (children_of m s) m1"
  shows "removed m [s] (forget_session order s m1)"
    and "removed (forget_session order s m1) rest m' \<Longrightarrow> removed m (s # rest) m'"
proof -
  let ?m2 = "forget_session order s m1"
  have drop: "subtree (drop_attempt s m) ss = subtree m ss" "child_rel (drop_attempt s m) = child_rel m" for ss
    using subtree_shape [of "drop_attempt s m" m ss] shape_parent [of "drop_attempt s m" m] by (simp_all add: child_rel_def)
  have rest: "sessions (drop_attempt s m) = sessions m" "ssh_routes (drop_attempt s m) = ssh_routes m"
    "connection_attempts (drop_attempt s m) = (connection_attempts m)(s := None)" by (simp_all add: drop_attempt_def)
  note tree = subtree_children [OF ok, of s]
  have leaf: "children_of m1 s = []"
  proof (rule ccontr)
    assume "children_of m1 s \<noteq> []"
    then obtain c where "c \<in> set (children_of m1 s)" by (cases "children_of m1 s") auto
    moreover have "routes_ok m1" using m1 by (simp add: removed_def)
    ultimately have "route_parent m1 c = Some s" by (simp add: routes_ok_def)
    then have "(c, s) \<in> child_rel m1" and present: "ssh_routes m1 c \<noteq> None"
      by (simp_all add: child_rel_def route_parent_def) (cases "ssh_routes m1 c"; simp)
    then have c: "(c, s) \<in> child_rel m" using m1 drop(2) by (auto simp: removed_def)
    then have "c \<in> subtree m (children_of m s)" using ok by (auto simp: subtree_def routes_ok_def child_rel_def)
    then show False using present m1 drop by (simp add: removed_def)
  qed
  have set: "- {s} \<inter> - subtree m (children_of m s) = - subtree m [s]" "- subtree m (children_of m s) \<inter> - {s} = - subtree m [s]"
    using tree by auto
  show one: "removed m [s] ?m2"
    using m1 forget_ok [OF _ leaf, of order] set
    by (auto simp: removed_def forget_rest drop rest without_one Int_commute)
  show "removed m (s # rest) m'" if "removed ?m2 rest m'"
  proof -
    have "ssh_routes ?m2 = ssh_routes m |` (- subtree m [s])" using one by (simp add: removed_def)
    then have "- subtree m [s] \<inter> - subtree ?m2 rest = - subtree m (s # rest)" using subtree_outside by blast
    then show ?thesis using one that by (auto simp: removed_def)
  qed
qed

lemma deregister_removes:
  assumes "routes_ok m" "ranked rk m" "\<And>s. s \<in> set ss \<Longrightarrow> rk s < k"
  shows "\<exists>m'. deregister_all order ss m = Some m' \<and> removed m ss m'"
  using assms
proof (induction k arbitrary: m ss)
  case 0
  then have "ss = []" by (cases ss) auto
  then show ?case using 0 by (simp add: deregister_all.simps removed_Nil)
next
  case (Suc k)
  show ?case using Suc.prems
  proof (induction ss arbitrary: m)
    case Nil
    then show ?case by (simp add: deregister_all.simps removed_Nil)
  next
    case (Cons s rest)
    let ?d = "drop_attempt s m"
    have d: "routes_ok ?d" "ranked rk ?d"
      using Cons.prems(1,2) shape_ok [of ?d m] shape_parent [of ?d m] by (simp_all add: ranked_def child_rel_def)
    have "rk c < k" if "c \<in> set (children_of m s)" for c
    proof -
      have "(c, s) \<in> child_rel m" using that Cons.prems(1) by (simp add: routes_ok_def child_rel_def)
      then have "rk c < rk s" using Cons.prems(2) by (auto simp: ranked_def)
      then show ?thesis using Cons.prems(3) [of s] by simp
    qed
    then obtain m1 where m1: "deregister_all order (children_of m s) ?d = Some m1" "removed ?d (children_of m s) m1"
      using Suc.IH [OF d] by blast
    let ?m2 = "forget_session order s m1"
    have m2: "removed m [s] ?m2" by (rule removed_Cons(1) [OF Cons.prems(1) m1(2)])
    then have "routes_ok ?m2" "ranked rk ?m2" using Cons.prems(2) by (auto simp: removed_def ranked_def)
    then obtain m' where "deregister_all order rest ?m2 = Some m'" "removed ?m2 rest m'"
      using Cons.IH [of ?m2] Cons.prems(3) by auto
    then show ?case using removed_Cons(2) [OF Cons.prems(1) m1(2)] m1(1)
      by (subst deregister_all.simps) auto
  qed
qed

lemma deregister_session_removes:
  assumes "routes_ok m"
  obtains m' where "deregister_session order s m = Some m'" "removed m [s] m'"
  using deregister_removes [OF assms routes_ranked [OF assms], of "[s]" "Suc (card {x. (x, s) \<in> (child_rel m)\<^sup>+})" order]
  by (auto simp: deregister_session_def)

section \<open>The walk down the tree\<close>

lemma block_routes_returns:
  assumes "routes_ok m"
  shows "\<exists>m'. block_routes pending m = Some m'"
proof -
  obtain rk where "ranked rk m" using routes_ranked [OF assms] by blast
  have "wf (mult less_than)" by (rule wf_mult [OF wf_less_than])
  moreover define x where "x = mset (map rk pending)"
  ultimately show ?thesis using assms \<open>ranked rk m\<close>
  proof (induction x arbitrary: pending m rule: wf_induct_rule)
    case (less x)
    show ?case
    proof (cases pending)
      case Nil
      then show ?thesis by (simp add: block_routes.simps)
    next
      case (Cons c rest)
      let ?m = "set_route_state c BlockedByParent m"
      have "rk d < rk c" if "d \<in> set (children_of m c)" for d
        using that less.prems(2,3) by (auto simp: routes_ok_def ranked_def child_rel_def)
      then have "(mset (map rk rest) + mset (map rk (children_of m c)), mset (map rk rest) + {#rk c#}) \<in> mult less_than"
        by (intro one_step_implies_mult) auto
      then have "(mset (map rk (children_of m c @ rest)), x) \<in> mult less_than"
        by (simp add: less.prems(1) Cons union_commute)
      moreover have "routes_ok ?m" "ranked rk ?m"
        using less.prems(2,3) shape_ok [of ?m m] shape_parent [of ?m m] by (simp_all add: ranked_def child_rel_def)
      ultimately have "\<exists>m'. block_routes (children_of m c @ rest) ?m = Some m'" using less.IH by blast
      then show ?thesis using Cons by (simp add: block_routes.simps)
    qed
  qed
qed


section \<open>Every step\<close>

lemma blocked_returns:
  assumes "routes_ok m"
  obtains m' where "mark_route_descendants_blocked s m = Some m'" "shape m' = shape m"
  using block_routes_returns [OF assms] shape_block unfolding mark_route_descendants_blocked_def by metis

lemma connect_returns:
  assumes "routes_ok m"
  shows "\<exists>m'. connect_session order a s tr i label m = Some m' \<and> shape m' = shape m"
proof -
  define m2 where "m2 = (let m1 = set_handle s None (set_session s Connecting (set_attempt s a m))
    in reset_route s (m1\<lparr>session_capabilities := (session_capabilities m1)(s := None)\<rparr>))"
  have same: "shape m2 = shape m" by (simp add: m2_def Let_def)
  then have "routes_ok m2" using assms shape_ok by blast
  then obtain m3 where m3: "mark_route_descendants_blocked s m2 = Some m3" "shape m3 = shape m2"
    by (rule blocked_returns)
  then show ?thesis using same unfolding m2_def
    by (simp add: connect_session_def Let_def split: option.split remote_session_state.split)
qed

lemma disconnected_returns:
  assumes "routes_ok m"
  shows "\<exists>m'. mark_session_disconnected order a' s a exit m = Some m' \<and> shape m' = shape m"
proof -
  let ?m1 = "set_handle s None m"
  let ?r = "set_route_state s RouteDisconnected (?m1\<lparr>sessions := (sessions ?m1)(s := None)\<rparr>)"
  have same: "shape ?r = shape m" by simp
  then have "routes_ok ?r" using assms shape_ok by blast
  then obtain m2 where m2: "mark_route_descendants_blocked s ?r = Some m2" "shape m2 = shape ?r"
    by (rule blocked_returns)
  have same2: "shape m2 = shape m" using m2(2) by simp
  have "\<exists>m'. (case sessions ?m1 s of
         None \<Rightarrow> Some ?m1
       | Some (Connected c h identity path tr) \<Rightarrow>
           map_option (\<lambda>m2.
             if exit \<noteq> None \<or> \<not> is_reconnectable tr exit then finalize_disconnect order s h exit m2
             else (case auth_context m2 of
               None \<Rightarrow> finalize_disconnect order s h exit m2
             | Some i \<Rightarrow>
                 attempt_reconnect a' s 1 h exit path tr identity
                   (handle_host_disconnected order h (remove_from_host_index h s m2))))
           (mark_route_descendants_blocked s ?r)
       | Some st \<Rightarrow> Some (set_session s Disconnected ?m1)) = Some m' \<and> shape m' = shape m"
    unfolding m2(1) by (simp add: same2 split: option.split remote_session_state.split)
  then show ?thesis by (simp add: mark_session_disconnected_def Let_def)
qed

lemma exit_waited_returns:
  assumes "routes_ok m"
  shows "\<exists>m'. exit_waited order a' a t ph text exit stderr m = Some m' \<and> shape m' = shape m"
proof (cases "is_current (tk_session t) a (move_task a Finished m)")
  case True
  have "\<exists>m'. mark_session_disconnected order a' (tk_session t) a None (emit e2 (emit e1 (move_task a Finished m))) = Some m' \<and>
    shape m' = shape m" for e1 e2
    using disconnected_returns [of "emit e2 (emit e1 (move_task a Finished m))"] assms
      shape_ok [of "emit e2 (emit e1 (move_task a Finished m))" m] by simp
  then show ?thesis using True by (simp add: exit_waited_def Let_def)
qed (simp add: exit_waited_def Let_def)

lemma shape_rotate: "shape (rotate_auth_token so token m) = shape m"
proof -
  define f :: "string \<Rightarrow> string list \<times> 'a manager \<Rightarrow> session_id \<Rightarrow> string list \<times> 'a manager" where
    "f identity = (\<lambda>(hosts, m) s. (case sessions m s of
            Some (Connected c h i p t) \<Rightarrow>
              if i \<noteq> identity \<or> h \<in> set hosts then (hosts, m)
              else (h # hosts, queue_message c \<lparr>cm_request_id = [], cm_body = OtherMessage token\<rparr> m)
          | _ \<Rightarrow> (hosts, m)))" for identity
  have one: "shape (snd (f identity hm s)) = shape (snd hm)" for identity hm s
    by (simp add: f_def split: prod.split option.split remote_session_state.split)
  have "shape (snd (foldl (f identity) hm so)) = shape (snd hm)" for identity hm
    by (induction so arbitrary: hm) (simp_all add: one)
  then have "shape (snd (foldl (f identity) ([], m) so)) = shape m" for identity by simp
  then show ?thesis unfolding rotate_auth_token_def f_def by (simp split: option.split)
qed

definition moves_tree :: "'m manager_input \<Rightarrow> bool" where
  "moves_tree x = (case x of RegisterRoute s p d t po \<Rightarrow> True | DeregisterSession s \<Rightarrow> True | _ \<Rightarrow> False)"

lemma step_shape:
  assumes ok: "routes_ok m" and "\<not> moves_tree x"
  shows "\<exists>m'. manager_step S u x m = Some m' \<and> shape m' = shape m"
proof (cases x)
  case (ConnectSession a s tr i l)
  then show ?thesis using connect_returns [OF ok] by simp
next
  case (ExitWaited a exit stderr a')
  then show ?thesis using exit_waited_returns [OF ok]
    by (simp add: task_step_def split: option.split task_phase.split)
next
  case (StreamEnded a exit a')
  have "routes_ok (move_task a Finished m)" using ok shape_ok [of "move_task a Finished m" m] by simp
  then have "\<exists>m'. mark_session_disconnected order a' s a exit (move_task a Finished m) = Some m' \<and> shape m' = shape m" for order s
    using disconnected_returns [of "move_task a Finished m"] by simp
  then show ?thesis using StreamEnded by (simp add: task_step_def split: option.split)
qed (use assms in \<open>simp_all add: moves_tree_def task_step_def shape_rotate split: option.split task_phase.split\<close>)

lemma step_returns:
  assumes ok: "routes_ok m"
  shows "\<exists>m'. manager_step S u x m = Some m' \<and> routes_ok m'"
proof (cases "moves_tree x")
  case False
  then show ?thesis using step_shape [OF ok False] shape_ok ok by blast
next
  case True
  then consider s p d t po where "x = RegisterRoute s p d t po" | s where "x = DeregisterSession s"
    by (auto simp: moves_tree_def split: manager_input.splits)
  then show ?thesis
  proof cases
    case 1
    then show ?thesis using register_result [OF ok] by (metis manager_step.simps(1) option.simps(9) snd_conv)
  next
    case 2
    then show ?thesis using deregister_session_removes [OF ok] by (metis manager_step.simps(3) removed_def)
  qed
qed

lemma new_routes_ok: "routes_ok new_manager"
  by (simp add: routes_ok_def new_manager_def child_rel_def route_parent_def children_of_def acyclic_def)

lemma reachable_routes: "manager_reachable S m \<Longrightarrow> routes_ok m"
proof (induction rule: manager_reachable.induct)
  case (step m x u m')
  then show ?case using step_returns [of m S u x] by auto
qed (rule new_routes_ok)

end
