(* ===== verification/Manager_Properties.thy ===== *)
theory Manager_Properties imports Manager_Runs Manager_Routes begin

text \<open>
  What the manager promises its callers and subscribers, in every state that a run of its futures,
  streams and callers can reach, with concrete runs.
\<close>

section \<open>A sample run\<close>

definition sample_server :: "(octets, server_push) server_schema" where
  "sample_server = \<lparr>request_id_of = (\<lambda>m. map (\<lambda>b. char_of (unat b)) m), is_tunnel = (\<lambda>m. False),
    push_message_to_event = (\<lambda>m. None), server_error_of = (\<lambda>m. None)\<rparr>"

definition sample_transport :: transport where
  "sample_transport = \<lparr>is_reconnectable = (\<lambda>e. True)\<rparr>"

definition quiet_surroundings :: surroundings where
  "quiet_surroundings = \<lparr>session_order = [], request_order = [], accepts = (\<lambda>c. True)\<rparr>"

text \<open>Session 1 connects to host \<open>h\<close>, session 2 is on its way there.\<close>

definition sample_start :: "octets manager_input list" where
  "sample_start = [RegisterRoute 1 None 1 ''h'' None, RegisterRoute 2 (Some 1) 2 ''k'' None,
    ConnectSession 10 1 sample_transport ''me'' None, ConnectSession 20 2 sample_transport ''me'' None,
    Opened 10 (Inr (100, NoControlMaster)) 11, HandshakeDone 10 (Inr (''h'', [])) 11,
    Opened 20 (Inr (200, NoControlMaster)) 21]"

definition sample_run :: "octets manager_input list \<Rightarrow> octets manager option" where
  "sample_run xs = manager_run sample_server quiet_surroundings (sample_start @ xs) new_manager"

lemma sample_run_reachable: "sample_run xs = Some m \<Longrightarrow> manager_reachable sample_server m"
  unfolding sample_run_def by (erule manager_run_reachable) (rule manager_reachable.fresh)

section \<open>Hosts\<close>

lemma host_of_session:
  assumes "host_id_for_session m s = Some h"
  obtains c i p t where "sessions m s = Some (Connected c h i p t)"
proof (cases "sessions m s")
  case (Some st)
  then show thesis using assms that by (cases st) (simp_all add: host_id_for_session_def)
qed (use assms in \<open>simp add: host_id_for_session_def\<close>)

text \<open>
  C36: the index of hosts is exact.  In every reachable state the sessions that the manager lists for a
  host are those that are connected to it, no host is listed without a session, and a subscriber who
  follows the events \<open>HostConnected\<close> and \<open>HostDisconnected\<close> believes a host to be up exactly when some
  session is connected to it.
\<close>

lemma host_index_exact:
  assumes "manager_reachable S m"
  shows "(\<forall>s. s \<in> set (members m h) \<longleftrightarrow> (\<exists>c i p t. sessions m s = Some (Connected c h i p t))) \<and>
    host_to_sessions m h \<noteq> Some [] \<and>
    (host_up m h \<longleftrightarrow> (\<exists>s c i p t. sessions m s = Some (Connected c h i p t)))"
proof -
  have ok: "index_ok m" "events_ok m" using manager_reachable_ok [OF assms] by (simp_all add: manager_ok_def hosts_ok_def)
  have id: "host_id_for_session m s = Some h \<longleftrightarrow> (\<exists>c i p t. sessions m s = Some (Connected c h i p t))" for s
  proof
    assume "host_id_for_session m s = Some h"
    then obtain c i p t where "sessions m s = Some (Connected c h i p t)" by (rule host_of_session)
    then show "\<exists>c i p t. sessions m s = Some (Connected c h i p t)" by blast
  next
    assume "\<exists>c i p t. sessions m s = Some (Connected c h i p t)"
    then show "host_id_for_session m s = Some h" by (auto simp: host_id_for_session_def)
  qed
  have member: "s \<in> set (members m h) \<longleftrightarrow> (\<exists>c i p t. sessions m s = Some (Connected c h i p t))" for s
    using ok(1) id by (simp add: index_ok_def)
  have nonempty: "host_to_sessions m h \<noteq> Some []" using ok(1) by (simp add: index_ok_def)
  have "host_to_sessions m h \<noteq> None \<longleftrightarrow> (\<exists>s. s \<in> set (members m h))"
  proof (cases "host_to_sessions m h")
    case (Some ss)
    then show ?thesis using nonempty by (cases ss) (auto simp: members_def)
  qed (simp add: members_def)
  then have "host_up m h \<longleftrightarrow> (\<exists>s c i p t. sessions m s = Some (Connected c h i p t))"
    using ok(2) member by (simp add: events_ok_def)
  then show ?thesis using member nonempty by blast
qed

lemma host_index_exact_witness:
  "map_option (\<lambda>m. (1 \<in> set (members m ''h''), host_to_sessions m ''h'' \<noteq> Some [], host_up m ''h'', host_up m ''k''))
    (sample_run []) = Some (True, True, True, False)"
proof -
  have "map_option (\<lambda>m. (host_id_for_session m 1, host_up m ''k'')) (sample_run []) = Some (Some ''h'', False)"
    by code_simp
  then obtain m where m: "sample_run [] = Some m" "host_up m ''k'' = False" and h: "host_id_for_session m 1 = Some ''h''" by auto
  obtain c i p t where conn: "sessions m 1 = Some (Connected c ''h'' i p t)" using h by (rule host_of_session)
  note index = host_index_exact [OF sample_run_reachable [OF m(1)], where h = "''h''"]
  then have "1 \<in> set (members m ''h'')" and "host_up m ''h''" using conn by blast+
  then show ?thesis using m index by simp
qed

section \<open>Requests\<close>

text \<open>
  C37: every request of a host is answered once.  A request that is sent is from then on, through any
  steps, either pending or answered, never both and never twice; and it is pending only as long as some
  session is connected to its host, so when the last one goes every waiting caller has its answer.
\<close>

lemma requests_answered_once:
  assumes "manager_reachable S m" and "enabled x m" and "manager_step S u x m = Some m'"
  shows "request_status m' rid = request_status m rid + (if is_request rid x then 1 else 0) \<and>
    request_status m' rid \<le> 1 \<and>
    (\<forall>p. pending_of m' rid = Some p \<longrightarrow> (\<exists>s c i q t. sessions m' s = Some (Connected c (ph_host_id p) i q t)))"
proof -
  have reach: "manager_reachable S m'" using assms by (rule manager_reachable.step)
  have "request_status m' rid = request_status m rid + (if is_request rid x then 1 else 0)"
    by (rule step_ok(2) [OF manager_reachable_ok [OF assms(1)] assms(2,3)])
  moreover have "request_status m' rid \<le> 1" by (rule reachable_once [OF reach])
  moreover have "\<exists>s c i q t. sessions m' s = Some (Connected c (ph_host_id p) i q t)" if "pending_of m' rid = Some p" for p
  proof -
    have ok: "manager_ok m'" by (rule manager_reachable_ok [OF reach])
    then have listed: "host_to_sessions m' (ph_host_id p) \<noteq> None" using that by (rule pending_host)
    have "index_ok m'" using ok by (simp add: manager_ok_def hosts_ok_def)
    then have "host_to_sessions m' (ph_host_id p) \<noteq> Some []" and "\<And>s. s \<in> set (members m' (ph_host_id p)) \<longleftrightarrow>
        host_id_for_session m' s = Some (ph_host_id p)" by (simp_all add: index_ok_def)
    moreover obtain ss where ss: "host_to_sessions m' (ph_host_id p) = Some ss" using listed by blast
    ultimately have "host_id_for_session m' (hd ss) = Some (ph_host_id p)"
      by (metis list.set_sel(1) members_def option.simps(5))
    then obtain c i q t where "sessions m' (hd ss) = Some (Connected c (ph_host_id p) i q t)" by (rule host_of_session)
    then show ?thesis by blast
  qed
  ultimately show ?thesis by blast
qed

definition sample_request :: client_message where
  "sample_request = \<lparr>cm_request_id = ''r'', cm_body = HostScoped [1]\<rparr>"

lemma requests_answered_once_witness:
  "\<exists>m m' m''. sample_run [] = Some m \<and>
    manager_step sample_server quiet_surroundings (SendHostRequest ''h'' sample_request) m = Some m' \<and>
    pending_of m' ''r'' = Some \<lparr>ph_host_id = ''h'', ph_session = 1, ph_msg = sample_request\<rparr> \<and>
    manager_step sample_server quiet_surroundings (StreamEnded 10 None 12) m' = Some m'' \<and>
    request_status m'' ''r'' = 1 \<and> pending_of m'' ''r'' = None \<and> answers m'' = [(''r'', Inl AllSessionsDisconnected)]"
proof -
  let ?send = "SendHostRequest ''h'' sample_request :: octets manager_input"
  let ?eof = "StreamEnded 10 None 12 :: octets manager_input"
  let ?step = "manager_step sample_server quiet_surroundings"
  have "map_option (\<lambda>m. (enabled ?send m, map_option (\<lambda>m'. (pending_of m' ''r'', enabled ?eof m', map_option (\<lambda>m''.
      (pending_of m'' ''r'', answers m'')) (?step ?eof m'))) (?step ?send m))) (sample_run []) =
    Some (True, Some (Some \<lparr>ph_host_id = ''h'', ph_session = 1, ph_msg = sample_request\<rparr>, True,
      Some (None, [(''r'', Inl AllSessionsDisconnected)])))"
    by code_simp
  then obtain m m' m'' where m: "sample_run [] = Some m" "enabled ?send m" "?step ?send m = Some m'" "enabled ?eof m'"
    "pending_of m' ''r'' = Some \<lparr>ph_host_id = ''h'', ph_session = 1, ph_msg = sample_request\<rparr>"
    "?step ?eof m' = Some m''" "pending_of m'' ''r'' = None" "answers m'' = [(''r'', Inl AllSessionsDisconnected)]"
    by auto
  note reach = sample_run_reachable [OF m(1)]
  note reach' = manager_reachable.step [OF reach m(2,3)]
  have "request_status m'' ''r'' = request_status m' ''r''"
    using requests_answered_once [OF reach' m(4,6), of "''r''"] by (simp add: is_request_def)
  moreover have "request_status m' ''r'' = 1"
    using requests_answered_once [OF reach m(2,3), of "''r''"] m(5) by (simp add: request_status_def)
  ultimately show ?thesis using m by auto
qed

section \<open>Attempts\<close>




section \<open>Routes\<close>

text \<open>
  C39: the manager never hangs on the routes.  In every reachable state the parents of the routes form no
  cycle, the list of children of a session is exact and without repetition and every parent is
  registered; so each call and each continuation returns, and so does the walk that lists the hops to a
  session, although none of these loops has a bound.
\<close>

lemma every_step_returns:
  assumes "manager_reachable S m"
  shows "(\<exists>m'. manager_step S u x m = Some m') \<and> (\<exists>path. ssh_route_path m s = Some path) \<and> acyclic (child_rel m) \<and>
    (\<forall>p. distinct (children_of m p)) \<and>
    (\<forall>p c. c \<in> set (children_of m p) \<longleftrightarrow> (\<exists>n. ssh_routes m c = Some n \<and> rn_parent n = Some p)) \<and>
    (\<forall>p. children_of m p \<noteq> [] \<longrightarrow> ssh_routes m p \<noteq> None)"
proof -
  have ok: "routes_ok m" using assms by (rule reachable_routes)
  have parent: "route_parent m c = Some p \<longleftrightarrow> (\<exists>n. ssh_routes m c = Some n \<and> rn_parent n = Some p)" for c p
    by (cases "ssh_routes m c") (simp_all add: route_parent_def)
  have child: "c \<in> set (children_of m p) \<longleftrightarrow> route_parent m c = Some p" for c p using ok by (simp add: routes_ok_def)
  have "ssh_routes m p \<noteq> None" if "children_of m p \<noteq> []" for p
  proof -
    have "route_parent m (hd (children_of m p)) = Some p" using child [of "hd (children_of m p)" p] that by (metis list.set_sel(1))
    then show ?thesis using ok unfolding routes_ok_def by blast
  qed
  moreover have "\<exists>m'. manager_step S u x m = Some m'" using step_returns [OF ok] by blast
  moreover have "\<exists>path. ssh_route_path m s = Some path" using route_path_returns [OF ok] by (simp add: ssh_route_path_def)
  ultimately show ?thesis using ok child parent by (simp add: routes_ok_def)
qed

lemma every_step_returns_witness:
  "\<exists>m m'. sample_run [] = Some m \<and> manager_step sample_server quiet_surroundings (StreamEnded 10 None 12) m = Some m' \<and>
    (2, 1) \<in> child_rel m \<and> acyclic (child_rel m)"
proof -
  have "map_option (\<lambda>m. map_option rn_parent (ssh_routes m 2)) (sample_run []) = Some (Some (Some 1))" by code_simp
  then obtain m where m: "sample_run [] = Some m" "(2, 1) \<in> child_rel m" by (auto simp: child_rel_def route_parent_def)
  show ?thesis using every_step_returns [OF sample_run_reachable [OF m(1)]] m by blast
qed

text \<open>
  C40: removing a session removes what is below it.  In every reachable state \<open>deregister_session\<close>
  returns; the session and all that were reached through it, and no others, have lost their route, their
  state and their attempt, so what their connections still do is ignored.
\<close>

lemma deregister_takes_subtree:
  assumes "manager_reachable S m"
  shows "\<exists>m'. deregister_session order s m = Some m' \<and>
    ssh_routes m' = ssh_routes m |` (- {x. (x, s) \<in> (child_rel m)\<^sup>*}) \<and>
    sessions m' = sessions m |` (- {x. (x, s) \<in> (child_rel m)\<^sup>*}) \<and>
    connection_attempts m' = connection_attempts m |` (- {x. (x, s) \<in> (child_rel m)\<^sup>*})"
proof -
  obtain m' where "deregister_session order s m = Some m'" "removed m [s] m'"
    using deregister_session_removes [OF reachable_routes [OF assms]] .
  moreover have "subtree m [s] = {x. (x, s) \<in> (child_rel m)\<^sup>*}" by (simp add: subtree_def)
  ultimately show ?thesis by (auto simp: removed_def)
qed

lemma deregister_takes_subtree_witness:
  "\<exists>m m'. sample_run [] = Some m \<and> deregister_session [] 1 m = Some m' \<and> sessions m 2 \<noteq> None \<and>
    sessions m' 1 = None \<and> sessions m' 2 = None"
proof -
  have "map_option (\<lambda>m. (map_option rn_parent (ssh_routes m 2), Option.is_none (sessions m 2))) (sample_run []) =
    Some (Some (Some 1), False)" by code_simp
  then obtain m where m: "sample_run [] = Some m" "(2, 1) \<in> child_rel m" "sessions m 2 \<noteq> None"
    by (auto simp: child_rel_def route_parent_def Option.is_none_def)
  obtain m' where "deregister_session [] 1 m = Some m'" "sessions m' = sessions m |` (- {x. (x, 1) \<in> (child_rel m)\<^sup>*})"
    using deregister_takes_subtree [OF sample_run_reachable [OF m(1)], of "[]" 1] by blast
  moreover have "(2, 1) \<in> (child_rel m)\<^sup>*" using m(2) by (rule r_into_rtrancl)
  ultimately show ?thesis using m(1,3) by simp
qed

end
