(* ===== verification/Spec2Isabelle.thy ===== *)
theory Spec2Isabelle imports Sum_Properties Block_Properties Sync_Properties Ssh_Properties
  Project_Properties Router_Properties Wire_Properties Manager_Properties
begin

text \<open>
  A verification development for InfiniShell, a terminal written in Rust.

  \<^bold>\<open>The program and what is modelled.\<close>  Most of the repository is the application itself: views,
  a UI framework, agents, an editor.  Five groups of components carry logic with a contract of
  its own, and each is modelled operation by operation, in the order of its source.

  \<^enum> The scrolling history of a terminal.  \<open>Sum_Tree\<close> and \<open>Sum_Cursor\<close> are the B+ tree of
    \<open>crates/sum_tree\<close> (\<open>lib.rs\<close>, \<open>cursor.rs\<close>): items, cached summaries, \<open>push_tree\<close>, \<open>extend\<close>,
    \<open>update_last\<close>, and cursors with \<open>seek\<close>, \<open>slice\<close>, \<open>suffix\<close>, \<open>summary\<close>, \<open>next\<close>, \<open>prev\<close>.
    \<open>Block_List\<close> is \<open>app/src/terminal/model/blocks.rs\<close>: the tree of the heights of blocks,
    banners, gaps and rich content, with the indices that are kept on some of its items.
  \<^enum> The cloud sync.  \<open>Gist_Client\<close> and \<open>Sync_Engine\<close> are \<open>crates/infinishell_sync\<close>; \<open>Sync_Store\<close>
    (versions and transactions), \<open>Machine_Memory\<close> (the memories of machines and their merge) and
    \<open>Node_Sort\<close> (the order of downloaded nodes) are parts of \<open>crates/warp_ssh_manager\<close>.
  \<^enum> The SSH manager.  \<open>Ssh_Tables\<close> is the schema (\<open>crates/persistence\<close>), \<open>Ssh_Types\<close>,
    \<open>Ssh_Repository\<close> and \<open>Secret_Store\<close> are \<open>types.rs\<close>, \<open>repository.rs\<close> and \<open>secrets.rs\<close> of
    \<open>warp_ssh_manager\<close>, \<open>Ssh_Provider\<close> and \<open>Ssh_Apply\<close> its \<open>sync_provider.rs\<close>, and \<open>Ssh_Panel\<close>
    the tree of \<open>app/src/ssh_manager/panel.rs\<close>.
  \<^enum> The projects and what the agent does on their hosts.  \<open>Project_Store\<close> is \<open>crates/infinishell_projects\<close>
    with its tables, \<open>Project_Form\<close> the form of \<open>app/src/project_manager/project_view.rs\<close>,
    \<open>Project_Context\<close> is \<open>app/src/ai/project_agent_context.rs\<close>, \<open>Machine_Key\<close> the function
    \<open>resolve_machine_key\<close>, and \<open>Host_Router\<close> the tool \<open>run_command_on_hosts\<close>: its arguments
    (\<open>ai/agent_providers/tools/project_hosts.rs\<close>), the state machine of
    \<open>project_manager/session_router.rs\<close>, and what \<open>terminal/view.rs\<close> and \<open>workspace/view.rs\<close> do for it.
  \<^enum> The connections to remote servers.  \<open>Wire_Protocol\<close> is \<open>crates/remote_server/src/protocol.rs\<close>
    with the two loops of \<open>app/src/remote_server/daemon.rs\<close>, and \<open>Remote_Client\<close> is
    \<open>client/mod.rs\<close>: the callers, the reading and the writing task, and their interleavings.
    \<open>Manager_State\<close> and \<open>Manager_Sessions\<close> are \<open>manager.rs\<close>: the sessions with their handshakes and
    reconnects, the tree of SSH routes, the index of hosts and the requests that belong to a host.

  They interact as in the code: the block list calls the tree through its cursors; the engine
  calls providers, the version store and the gist client; the SSH provider, one of the
  providers, calls the repository inside transactions and the keychain outside of them; the form
  and the context join the projects and the SSH manager, each through its own connection; the
  runner asks both before it uses a host, and the terminal before it sends a command; the client
  reads and writes messages through the wire protocol, the daemon at its other end too, and the
  manager takes the clients that transports give it and the events that they send.

  \<^bold>\<open>Conventions.\<close>  A struct is a record, an enum a datatype; a method that takes \<open>&mut self\<close> returns
  the new state.  An operation that can fail returns a sum, \<open>Inl\<close> the error, together with the
  state, so that a failure half way keeps what was done before it; a panic is \<open>None\<close>.  Integers
  have their width where it matters (\<open>u16\<close> ports are 16-bit words, versions are checked against
  the bounds of \<open>i64\<close>, sort orders wrap as in the release build); heights are exact numbers of a
  linearly ordered group, not floating point.  Strings are lists of characters; what the source
  asks of characters (white space, control, the length in UTF-8) is right for the first 256 code
  points, those that the model has.  Messages that are Chinese in the source are translated.

  What the program only calls is an argument of the definitions: HTTP, JSON, SHA-256, AES-GCM,
  Base64, time formats, the clock, UUIDs.  What is relied on are the laws \<open>crypto_laws\<close>,
  \<open>chrono_ok\<close>, \<open>same_format\<close>, and the contracts stated as locales: \<open>client_contract\<close> (a gist
  that nobody else writes during one session), \<open>provider_contract\<close>, \<open>secret_contract\<close>,
  \<open>reliable_secrets\<close>.  The program's own side of each contract is proved by an interpretation.
  SQLite is modelled by what the program sees of it: tables with their keys, checks, foreign keys
  and referential actions, a stable \<open>ORDER BY\<close>, transactions that restore the tables, and a list
  in the state that says which statement fails.  The crate \<open>keyring\<close> is a map of cells, and a
  list that says which call fails.  All times within one operation are one instant.  The runner
  has its clock, timers, views and channels in its state; a run is a sequence of its steps with
  anything else in between (\<open>tick_step\<close>, \<open>other_step\<close>, \<open>app_run\<close>).  A run of the remote client
  is a sequence of the pieces of its tasks between two awaits (\<open>client_step\<close>); protobuf is a record
  of functions (\<open>prost\<close>), and a socket is the octets that it gives or takes.  A run of the manager is
  a sequence of the calls, of the closures of its futures and of the events of its streams
  (\<open>manager_step\<close>); which of them can come is \<open>enabled\<close>, and the order of hash maps and the queues
  that are full are given with each step.

  \<^bold>\<open>The lemmas.\<close>  \<open>Prelude\<close> has the combinators for errors and the shared collections.
  \<open>Sum_Seek\<close> and \<open>Sum_Step\<close> relate every cursor operation to a position in the list of items;
  \<open>Block_Heights\<close> and \<open>Block_Tracking\<close> show that each operation of the block list edits one
  place of that list and keeps every tracked index on its item.  \<open>Sync_Session\<close> proves the
  engine against the contracts; \<open>Memory_Merge\<close> that the merge is a semilattice; \<open>Memory_Store\<close>
  what it does to the table.  \<open>Ssh_Rules\<close> gives the effect of each statement and transaction,
  \<open>Ssh_Forest\<close> and \<open>Ssh_Steps\<close> the invariant of the tree over all reachable states,
  \<open>Ssh_Routes\<close> the storage of routes, \<open>Ssh_Apply_Rules\<close> and \<open>Ssh_Transfer\<close> failure and success
  of a download, \<open>Ssh_Collect\<close> and \<open>Ssh_Transport\<close> the way from device to device,
  \<open>Ssh_Display\<close> the order on the screen.  \<open>Project_Rules\<close> gives the view that each query of the
  projects returns and the effect of each write, \<open>Project_Form_Rules\<close> the invariant of the form and
  what a save stores, \<open>Router_Rules\<close> where a step of the runner comes to rest, \<open>Router_Runs\<close> its
  invariant, its channel and its bound over all runs; \<open>Wire_Rules\<close> reads back the frames that are
  written, \<open>Remote_Client_Rules\<close> has the invariant of the connection; \<open>Manager_Rules\<close> and
  \<open>Manager_Steps\<close> show what each operation of the manager does to its index, its requests and its
  attempts, \<open>Manager_Runs\<close> that every run keeps the invariant, \<open>Manager_Routes\<close> that the routes are
  a forest and what a removal takes from it.  The properties stand in the theories named
  \<open>.._Properties\<close>, each with a concrete run as its witness.

  \<^bold>\<open>Bounds.\<close>  The cursor's stack holds 16 entries; with at least 6 children to a node that is more
  items than memory holds, and the model panics where the source would.  The search for the gist
  stops after 20 pages, the walk along the parents of a downloaded node after one step more than
  there are nodes, the depth of a row of the panel at 65, a route at 8 hops, a memory at 16000
  characters.  The runner polls every 500 ms, waits 60 s for a session and 1 to 600 s for a
  command, on 1 to 20 hosts, so that a batch takes at most 26400 ticks.  A message has at most 64 MB,
  a queue of outgoing messages 256 of them; the reading loop consumes at least four octets a round.
  The manager reconnects twice.  The loops of the panel that climb to the root and those of the
  manager over its routes have no bound in the source: they are partial functions, and that they end
  is a property of the reachable states.

  \<^bold>\<open>Not modelled.\<close>  Views, rendering and event dispatch; terminal emulation, shell integration,
  agents, the editor, settings and persistence of windows, because their behaviour is what they
  do to a screen, a process or a remote service, or is too large for the gain; the editing
  operations of the tree other than at its end; and the parts of the block list that build command
  blocks.  The panel that lists the projects, the picker of a directory and what opening an SSH
  terminal does are views; the view that it creates is an argument.  Of the remote server, the
  typed request methods of client and manager (each builds a message and matches on its answer), the
  conversion of pushes, the tunnels, the installation of the binary and the services of the daemon.
\<close>

end
